(* ===== verification/Prelude.thy ===== *)
theory Prelude
  imports Main "HOL-Library.Word" "HOL-Library.Sublist"
begin

text \<open>
  What every component of the model shares.

  \<^item> The types that name the program's data: a Rust \<open>Vec<u8>\<close> or \<open>&[u8]\<close> is
    \<open>bytes\<close>, a \<open>String\<close> is the list of its UTF-8 bytes (HOL's \<open>string\<close>), a length is
    a \<open>nat\<close> (a \<open>usize\<close> that always fits, since a Rust allocation never exceeds
    \<open>isize::MAX\<close> bytes), a \<open>u64\<close> or \<open>u32\<close> whose width matters is a word.
  \<^item> The result type of a fallible operation: a value, an error value, or a panic (the
    release profile aborts on panic, \<open>server/Cargo.toml\<close>).
  \<^item> Fixed-width integer encodings (\<open>to_be_bytes\<close>, \<open>to_le_bytes\<close>, \<open>from_be_bytes\<close>)
    with their round-trip laws, UTF-8 validity, and \<open>slice::chunks\<close>.
  \<^item> A locale for prefix codecs (a record written in front of the rest of a buffer and read
    back from there), whose client lemma is the round trip of a whole sequence of records.
\<close>

named_theorems codec_simps \<open>round trips and lengths of the byte encodings\<close>
named_theorems res_simps \<open>equations of the result type\<close>
named_theorems const_simps \<open>the numeric constants of the program\<close>

type_synonym byte = "8 word"
type_synonym bytes = "byte list"
type_synonym u16 = "16 word"
type_synonym u32 = "32 word"
type_synonym u64 = "64 word"

section \<open>Results\<close>

datatype ('a, 'e) result = Ok 'a | Err 'e | Panic

fun rbind :: "('a, 'e) result \<Rightarrow> ('a \<Rightarrow> ('b, 'e) result) \<Rightarrow> ('b, 'e) result" where
  "rbind (Ok x) f = f x"
| "rbind (Err e) f = Err e"
| "rbind Panic f = Panic"

fun map_err :: "('e \<Rightarrow> 'g) \<Rightarrow> ('a, 'e) result \<Rightarrow> ('a, 'g) result" where
  "map_err h (Ok x) = Ok x"
| "map_err h (Err e) = Err (h e)"
| "map_err h Panic = Panic"

definition ok_or :: "'e \<Rightarrow> 'a option \<Rightarrow> ('a, 'e) result" where
  "ok_or e opt = (case opt of None \<Rightarrow> Err e | Some x \<Rightarrow> Ok x)"

fun ok :: "('a, 'e) result \<Rightarrow> 'a option" where
  "ok (Ok x) = Some x"
| "ok (Err e) = None"
| "ok Panic = None"

definition is_ok :: "('a, 'e) result \<Rightarrow> bool" where
  "is_ok r \<longleftrightarrow> (\<exists>x. r = Ok x)"

text \<open>\<open>collect::<Result<Vec<_>, _>>\<close>: stops at the first item that is not \<open>Ok\<close>.\<close>

fun rmapM :: "('a \<Rightarrow> ('b, 'e) result) \<Rightarrow> 'a list \<Rightarrow> ('b list, 'e) result" where
  "rmapM f [] = Ok []"
| "rmapM f (x # xs) = rbind (f x) (\<lambda>y. rbind (rmapM f xs) (\<lambda>ys. Ok (y # ys)))"

text \<open>A loop over a list that threads a state and stops at the first error.\<close>

fun rfold :: "('a \<Rightarrow> 's \<Rightarrow> ('s, 'e) result) \<Rightarrow> 'a list \<Rightarrow> 's \<Rightarrow> ('s, 'e) result" where
  "rfold f [] s = Ok s"
| "rfold f (x # xs) s = rbind (f x s) (rfold f xs)"

lemma rbind_cong [fundef_cong]:
  "r = r' \<Longrightarrow> (\<And>x. r' = Ok x \<Longrightarrow> f x = g x) \<Longrightarrow> rbind r f = rbind r' g"
  by (cases r') auto

lemma rbind_eq_Ok [simp]: "rbind r f = Ok y \<longleftrightarrow> (\<exists>x. r = Ok x \<and> f x = Ok y)"
  by (cases r) auto

lemma rbind_eq_Panic: "rbind r f = Panic \<longleftrightarrow> r = Panic \<or> (\<exists>x. r = Ok x \<and> f x = Panic)"
  by (cases r) auto

lemma rbind_eq_Err: "rbind r f = Err e \<longleftrightarrow> r = Err e \<or> (\<exists>x. r = Ok x \<and> f x = Err e)"
  by (cases r) auto

lemma map_err_eq_Ok [simp]: "map_err h r = Ok x \<longleftrightarrow> r = Ok x"
  by (cases r) auto

lemma map_err_eq_Panic [simp]: "map_err h r = Panic \<longleftrightarrow> r = Panic"
  by (cases r) auto

lemma map_err_eq_Err: "map_err h r = Err e \<longleftrightarrow> (\<exists>e'. r = Err e' \<and> e = h e')"
  by (cases r) auto

lemma ok_or_simps [simp]: "ok_or e None = Err e" "ok_or e (Some x) = Ok x"
  by (simp_all add: ok_or_def)

lemma ok_or_eq_Ok [simp]: "ok_or e opt = Ok x \<longleftrightarrow> opt = Some x"
  by (cases opt) auto

lemma ok_or_not_Panic [simp]: "ok_or e opt \<noteq> Panic"
  by (cases opt) auto

lemma ok_eq_Some [simp]: "ok r = Some x \<longleftrightarrow> r = Ok x"
  by (cases r) auto

lemma is_ok_simps [simp]: "is_ok (Ok x)" "\<not> is_ok (Err e)" "\<not> is_ok Panic"
  by (simp_all add: is_ok_def)

lemma is_ok_rbind: "is_ok (rbind r f) \<longleftrightarrow> (\<exists>x. r = Ok x \<and> is_ok (f x))"
  by (cases r) auto

lemmas result_conv [res_simps] = rbind_eq_Panic rbind_eq_Err map_err_eq_Err is_ok_rbind

lemma rmapM_Ok_iff:
  "rmapM f xs = Ok ys \<longleftrightarrow> length ys = length xs \<and> (\<forall>i < length xs. f (xs ! i) = Ok (ys ! i))"
proof (induction xs arbitrary: ys)
  case Nil
  then show ?case by auto
next
  case (Cons x xs)
  show ?case
  proof (cases ys)
    case Nil
    then show ?thesis by simp
  next
    case (Cons y zs)
    then show ?thesis
      by (auto simp: Cons.IH less_Suc_eq_0_disj nth_Cons split: nat.splits)
  qed
qed

lemma rmapM_map_Ok: "(\<And>x. x \<in> set xs \<Longrightarrow> f x = Ok (g x)) \<Longrightarrow> rmapM f xs = Ok (map g xs)"
  by (induction xs) auto

lemma rmapM_all_Ok: "(\<And>x. x \<in> set xs \<Longrightarrow> \<exists>y. f x = Ok y) \<Longrightarrow> \<exists>ys. rmapM f xs = Ok ys"
  by (induction xs) fastforce+

lemma rfold_append: "rfold f (xs @ ys) s = rbind (rfold f xs s) (rfold f ys)"
proof (induction xs arbitrary: s)
  case (Cons x xs)
  then show ?case by (cases "f x s") auto
qed simp

lemma rfold_invariant:
  assumes "rfold f xs s = Ok t" and "P s"
    and "\<And>x u v. x \<in> set xs \<Longrightarrow> P u \<Longrightarrow> f x u = Ok v \<Longrightarrow> P v"
  shows "P t"
  using assms
proof (induction xs arbitrary: s)
  case (Cons x xs)
  from Cons.prems(1) obtain u where u: "f x s = Ok u" "rfold f xs u = Ok t" by auto
  from Cons.prems(2,3) u(1) have "P u" by (meson list.set_intros(1))
  then show ?case using Cons.IH u(2) Cons.prems(3) by (meson list.set_intros(2))
qed simp

section \<open>Stateful operations\<close>

text \<open>
  An operation on a state returns its result together with the state it leaves, also when it
  fails: what a failed call has already changed stays changed.
\<close>

type_synonym ('s, 'a, 'e) op = "'s \<Rightarrow> ('a, 'e) result \<times> 's"

definition sbind :: "('s, 'a, 'e) op \<Rightarrow> ('a \<Rightarrow> ('s, 'b, 'e) op) \<Rightarrow> ('s, 'b, 'e) op" where
  "sbind m f s =
     (case m s of (Ok x, t) \<Rightarrow> f x t | (Err e, t) \<Rightarrow> (Err e, t) | (Panic, t) \<Rightarrow> (Panic, t))"

definition sreturn :: "'a \<Rightarrow> ('s, 'a, 'e) op" where
  "sreturn x s = (Ok x, s)"

definition slift :: "('a, 'e) result \<Rightarrow> ('s, 'a, 'e) op" where
  "slift r s = (r, s)"

text \<open>A loop that runs an operation on every item, in order, up to the first failure.\<close>

fun sforM :: "('a \<Rightarrow> ('s, unit, 'e) op) \<Rightarrow> 'a list \<Rightarrow> ('s, unit, 'e) op" where
  "sforM f [] s = (Ok (), s)"
| "sforM f (x # xs) s = sbind (f x) (\<lambda>_. sforM f xs) s"

lemma sbind_Ok_iff:
  "sbind m f s = (Ok y, u) \<longleftrightarrow> (\<exists>x t. m s = (Ok x, t) \<and> f x t = (Ok y, u))"
  by (auto simp: sbind_def split: prod.splits result.splits)

lemma sreturn_iff [simp]: "sreturn x s = (r, t) \<longleftrightarrow> r = Ok x \<and> t = s"
  by (auto simp: sreturn_def)

lemma slift_iff [simp]: "slift r s = (r', t) \<longleftrightarrow> r = r' \<and> t = s"
  by (auto simp: slift_def)

lemma sbind_preserves:
  assumes "sbind m f s = (r, u)" "P s"
    and "\<And>r' t. m s = (r', t) \<Longrightarrow> P t"
    and "\<And>x t. m s = (Ok x, t) \<Longrightarrow> P t \<Longrightarrow> f x t = (r, u) \<Longrightarrow> P u"
  shows "P u"
  using assms by (auto simp: sbind_def split: prod.splits result.splits)

lemma sforM_preserves:
  assumes "sforM f xs s = (r, u)" "P s"
    and "\<And>x s r t. x \<in> set xs \<Longrightarrow> P s \<Longrightarrow> f x s = (r, t) \<Longrightarrow> P t"
  shows "P u"
  using assms
proof (induction xs arbitrary: s)
  case (Cons x xs)
  show ?case
  proof (rule sbind_preserves [of "f x" "\<lambda>_. sforM f xs" s r u P])
    show "sbind (f x) (\<lambda>_. sforM f xs) s = (r, u)" using Cons.prems(1) by simp
    show "P t" if "f x s = (r', t)" for r' t
      using Cons.prems(2,3) that by (meson list.set_intros(1))
    show "P u" if "P t" "sforM f xs t = (r, u)" for t
      using Cons.IH [OF that(2,1)] Cons.prems(3) by (meson list.set_intros(2))
  qed (rule Cons.prems(2))
qed simp

text \<open>An operation preserves a predicate when it holds after it, whatever the outcome.\<close>

definition preserves :: "('s \<Rightarrow> bool) \<Rightarrow> ('s, 'a, 'e) op \<Rightarrow> bool" where
  "preserves P m \<longleftrightarrow> (\<forall>s r t. P s \<longrightarrow> m s = (r, t) \<longrightarrow> P t)"

named_theorems preserve \<open>introduction rules for operations that preserve a predicate\<close>

lemma preservesI: "(\<And>s r t. P s \<Longrightarrow> m s = (r, t) \<Longrightarrow> P t) \<Longrightarrow> preserves P m"
  by (simp add: preserves_def)

lemma preservesD: "preserves P m \<Longrightarrow> P s \<Longrightarrow> m s = (r, t) \<Longrightarrow> P t"
  by (simp add: preserves_def)

lemma preserves_sbind [preserve]:
  "preserves P m \<Longrightarrow> (\<And>x. preserves P (f x)) \<Longrightarrow> preserves P (sbind m f)"
  unfolding preserves_def by (blast intro: sbind_preserves)

lemma preserves_sreturn [preserve]: "preserves P (sreturn x)"
  by (simp add: preserves_def)

lemma preserves_slift [preserve]: "preserves P (slift r)"
  by (simp add: preserves_def)

lemma preserves_sforM [preserve]: "(\<And>x. x \<in> set xs \<Longrightarrow> preserves P (f x)) \<Longrightarrow> preserves P (sforM f xs)"
  unfolding preserves_def by (blast intro: sforM_preserves)

lemma preserves_if [preserve]:
  "(b \<Longrightarrow> preserves P m) \<Longrightarrow> (\<not> b \<Longrightarrow> preserves P n) \<Longrightarrow> preserves P (if b then m else n)"
  by simp

lemma preserves_option [preserve]:
  "preserves P m \<Longrightarrow> (\<And>x. preserves P (f x)) \<Longrightarrow> preserves P (case v of None \<Rightarrow> m | Some x \<Rightarrow> f x)"
  by (cases v) auto

lemma preserves_prod [preserve]:
  "(\<And>a b. preserves P (f a b)) \<Longrightarrow> preserves P (case x of (a, b) \<Rightarrow> f a b)"
  by (cases x) auto

lemma preserves_at:
  "(\<And>s. P s \<Longrightarrow> preserves P (f s)) \<Longrightarrow> preserves P (\<lambda>s. f s s)"
  unfolding preserves_def by blast

section \<open>Ordered selections\<close>

text \<open>A stable sort by a descending key (\<open>ORDER BY ... DESC\<close>).\<close>

definition sort_desc :: "('a \<Rightarrow> 'k :: linorder) \<Rightarrow> 'a list \<Rightarrow> 'a list" where
  "sort_desc f xs = rev (sort_key f (rev xs))"

lemma set_sort_desc [simp]: "set (sort_desc f xs) = set xs"
  by (simp add: sort_desc_def)

lemma length_sort_desc [simp]: "length (sort_desc f xs) = length xs"
  by (simp add: sort_desc_def)

lemma distinct_sort_desc [simp]: "distinct (sort_desc f xs) \<longleftrightarrow> distinct xs"
  by (simp add: sort_desc_def)

section \<open>Fixed-width integers in bytes\<close>

text \<open>\<open>be_bytes k n\<close> is \<open>to_be_bytes\<close> of a \<open>k\<close>-byte integer with value \<open>n mod 256 ^ k\<close>.\<close>

fun be_bytes :: "nat \<Rightarrow> nat \<Rightarrow> bytes" where
  "be_bytes 0 n = []"
| "be_bytes (Suc k) n = be_bytes k (n div 256) @ [word_of_nat n]"

definition le_bytes :: "nat \<Rightarrow> nat \<Rightarrow> bytes" where
  "le_bytes k n = rev (be_bytes k n)"

definition of_be :: "bytes \<Rightarrow> nat" where
  "of_be bs = foldl (\<lambda>a b. a * 256 + unat b) 0 bs"

abbreviation u64_be :: "u64 \<Rightarrow> bytes" where
  "u64_be w \<equiv> be_bytes 8 (unat w)"

abbreviation u32_be :: "u32 \<Rightarrow> bytes" where
  "u32_be w \<equiv> be_bytes 4 (unat w)"

lemma length_be_bytes [simp, codec_simps]: "length (be_bytes k n) = k"
  by (induction k arbitrary: n) auto

lemma length_le_bytes [simp, codec_simps]: "length (le_bytes k n) = k"
  by (simp add: le_bytes_def)

lemma of_be_Nil [simp]: "of_be [] = 0"
  by (simp add: of_be_def)

lemma of_be_snoc [simp]: "of_be (bs @ [b]) = of_be bs * 256 + unat b"
  by (simp add: of_be_def)

lemma of_be_be_bytes [codec_simps]: "of_be (be_bytes k n) = n mod 256 ^ k"
proof (induction k arbitrary: n)
  case (Suc k)
  have "of_be (be_bytes (Suc k) n) = (n div 256) mod 256 ^ k * 256 + n mod 256"
    by (simp add: Suc.IH unat_of_nat)
  also have "\<dots> = n mod 256 ^ Suc k"
    using mod_mult2_eq [of n 256 "256 ^ k"] by (simp add: mult.commute)
  finally show ?case .
qed simp

lemma of_be_be_bytes_small [codec_simps]: "n < 256 ^ k \<Longrightarrow> of_be (be_bytes k n) = n"
  by (simp add: of_be_be_bytes)

lemma be_bytes_of_be [codec_simps]: "length bs = k \<Longrightarrow> be_bytes k (of_be bs) = bs"
proof (induction k arbitrary: bs)
  case (Suc k)
  then obtain cs c where bs: "bs = cs @ [c]" "length cs = k"
    by (metis length_Suc_conv_rev)
  have "unat c < 256" using unsigned_less [where ?'a = nat, of c] by simp
  then have "(of_be cs * 256 + unat c) div 256 = of_be cs" by simp
  moreover have "(word_of_nat (of_be cs * 256 + unat c) :: byte) = c"
  proof -
    have "(256 :: byte) = 0" by simp
    then show ?thesis by (simp only: of_nat_add of_nat_mult of_nat_numeral) simp
  qed
  ultimately show ?case using Suc.IH bs by simp
qed simp

lemma of_be_less [codec_simps]: "of_be bs < 256 ^ length bs"
  by (metis be_bytes_of_be mod_less_divisor of_be_be_bytes zero_less_numeral zero_less_power)

lemma be_bytes_eq_iff [codec_simps]:
  "be_bytes k m = be_bytes k n \<longleftrightarrow> m mod 256 ^ k = n mod 256 ^ k"
  by (metis be_bytes_of_be length_be_bytes of_be_be_bytes)

lemma le_bytes_eq_iff [codec_simps]:
  "le_bytes k m = le_bytes k n \<longleftrightarrow> m mod 256 ^ k = n mod 256 ^ k"
  by (simp add: le_bytes_def be_bytes_eq_iff)

lemma be_bytes_inj_small:
  "m < 256 ^ k \<Longrightarrow> n < 256 ^ k \<Longrightarrow> be_bytes k m = be_bytes k n \<longleftrightarrow> m = n"
  by (simp add: be_bytes_eq_iff)

lemma unat_u64_less: "unat (w :: u64) < 256 ^ 8"
  using unsigned_less [where ?'a = nat, of w] by simp

lemma unat_u32_less: "unat (w :: u32) < 256 ^ 4"
  using unsigned_less [where ?'a = nat, of w] by simp

lemma u64_be_inj [simp]: "u64_be v = u64_be w \<longleftrightarrow> v = w"
  by (simp only: be_bytes_inj_small [OF unat_u64_less unat_u64_less] word_unat_eq_iff)

lemma of_be_u64_be [simp]: "of_be (u64_be w) = unat w"
  by (rule of_be_be_bytes_small [OF unat_u64_less])

lemma u32_be_inj [simp]: "u32_be v = u32_be w \<longleftrightarrow> v = w"
  by (simp only: be_bytes_inj_small [OF unat_u32_less unat_u32_less] word_unat_eq_iff)

lemma of_be_u32_be [simp]: "of_be (u32_be w) = unat w"
  by (rule of_be_be_bytes_small [OF unat_u32_less])

section \<open>Strings and UTF-8\<close>

text \<open>
  \<open>String::as_bytes\<close>, and \<open>String::from_utf8\<close>, which accepts well-formed UTF-8 only
  (RFC 3629: no overlong form, no surrogate, nothing above U+10FFFF).
\<close>

definition as_bytes :: "string \<Rightarrow> bytes" where
  "as_bytes s = map (\<lambda>c. word_of_nat (of_char c)) s"

definition chars_of :: "bytes \<Rightarrow> string" where
  "chars_of bs = map (\<lambda>b. char_of (unat b)) bs"

definition utf8_cont :: "nat \<Rightarrow> nat \<Rightarrow> byte \<Rightarrow> bool" where
  "utf8_cont lo hi b \<longleftrightarrow> lo \<le> unat b \<and> unat b \<le> hi"

fun utf8_valid :: "bytes \<Rightarrow> bool" where
  "utf8_valid [] = True"
| "utf8_valid (a # bs) =
    (let n = unat a in
     if n < 128 then utf8_valid bs
     else if 194 \<le> n \<and> n \<le> 223 then
       (case bs of b # r \<Rightarrow> utf8_cont 128 191 b \<and> utf8_valid r | _ \<Rightarrow> False)
     else if 224 \<le> n \<and> n \<le> 239 then
       (case bs of b # c # r \<Rightarrow>
          utf8_cont (if n = 224 then 160 else 128) (if n = 237 then 159 else 191) b
          \<and> utf8_cont 128 191 c \<and> utf8_valid r
        | _ \<Rightarrow> False)
     else if 240 \<le> n \<and> n \<le> 244 then
       (case bs of b # c # d # r \<Rightarrow>
          utf8_cont (if n = 240 then 144 else 128) (if n = 244 then 143 else 191) b
          \<and> utf8_cont 128 191 c \<and> utf8_cont 128 191 d \<and> utf8_valid r
        | _ \<Rightarrow> False)
     else False)"

definition from_utf8 :: "bytes \<Rightarrow> string option" where
  "from_utf8 bs = (if utf8_valid bs then Some (chars_of bs) else None)"

lemma length_as_bytes [simp]: "length (as_bytes s) = length s"
  by (simp add: as_bytes_def)

lemma as_bytes_append: "as_bytes (s @ t) = as_bytes s @ as_bytes t"
  by (simp add: as_bytes_def)

lemma chars_of_as_bytes [simp]: "chars_of (as_bytes s) = s"
  by (simp add: as_bytes_def chars_of_def unat_of_nat o_def)

lemma as_bytes_chars_of [simp]: "as_bytes (chars_of bs) = bs"
proof -
  have "word_of_nat (unat b mod 256) = b" for b :: byte
    using unsigned_less [where ?'a = nat, of b] by simp
  then show ?thesis by (simp add: as_bytes_def chars_of_def o_def)
qed

lemma as_bytes_inj [simp]: "as_bytes s = as_bytes t \<longleftrightarrow> s = t"
  by (metis chars_of_as_bytes)

lemma from_utf8_as_bytes: "utf8_valid (as_bytes s) \<Longrightarrow> from_utf8 (as_bytes s) = Some s"
  by (simp add: from_utf8_def)

lemma from_utf8_Some: "from_utf8 bs = Some s \<Longrightarrow> as_bytes s = bs"
  by (auto simp: from_utf8_def split: if_splits)

lemma utf8_valid_ascii: "list_all (\<lambda>b. unat b < 128) bs \<Longrightarrow> utf8_valid bs"
  by (induction bs) auto

text \<open>Decimal printing (\<open>format!\<close> of an unsigned integer), \<open>trim_matches('/')\<close> and
  \<open>split('/')\<close> without its empty parts.\<close>

definition digit_char :: "nat \<Rightarrow> char" where
  "digit_char d = char_of (48 + d)"

fun show_nat :: "nat \<Rightarrow> string" where
  "show_nat n = (if n < 10 then [digit_char n] else show_nat (n div 10) @ [digit_char (n mod 10)])"

declare show_nat.simps [simp del]

definition read_nat :: "string \<Rightarrow> nat" where
  "read_nat s = foldl (\<lambda>a c. a * 10 + (of_char c - 48)) 0 s"

lemma read_show_nat: "read_nat (show_nat n) = n"
proof (induction n rule: show_nat.induct)
  case (1 n)
  have d: "of_char (digit_char k) - (48 :: nat) = k" if "k < 10" for k
    using that by (simp add: digit_char_def)
  show ?case
  proof (cases "n < 10")
    case True
    then show ?thesis using d by (simp add: show_nat.simps [of n] read_nat_def)
  next
    case False
    then have "read_nat (show_nat n) = read_nat (show_nat (n div 10)) * 10 + n mod 10"
      by (subst show_nat.simps) (simp add: read_nat_def d)
    then show ?thesis using 1 False by simp
  qed
qed

lemma show_nat_inj [simp]: "show_nat m = show_nat n \<longleftrightarrow> m = n"
  by (metis read_show_nat)

lemma show_nat_digits: "c \<in> set (show_nat n) \<Longrightarrow> 48 \<le> (of_char c :: nat) \<and> (of_char c :: nat) \<le> 57"
proof (induction n rule: show_nat.induct)
  case (1 n)
  have d: "48 \<le> (of_char (digit_char k) :: nat) \<and> (of_char (digit_char k) :: nat) \<le> 57" if "k < 10" for k
    using that by (simp add: digit_char_def)
  show ?case
  proof (cases "n < 10")
    case True
    then show ?thesis using 1(2) d by (simp add: show_nat.simps [of n])
  next
    case False
    then have "c \<in> set (show_nat (n div 10)) \<or> c = digit_char (n mod 10)"
      using 1(2) by (subst (asm) show_nat.simps) auto
    then show ?thesis using 1(1) False d [of "n mod 10"] by auto
  qed
qed

definition trim_slashes :: "string \<Rightarrow> string" where
  "trim_slashes s =
     rev (dropWhile (\<lambda>c. c = CHR ''/'') (rev (dropWhile (\<lambda>c. c = CHR ''/'') s)))"

fun split_slash :: "string \<Rightarrow> string list" where
  "split_slash [] = [[]]"
| "split_slash (c # s) =
     (if c = CHR ''/'' then [] # split_slash s
      else (case split_slash s of [] \<Rightarrow> [[c]] | w # ws \<Rightarrow> (c # w) # ws))"

definition path_segments :: "string \<Rightarrow> string list" where
  "path_segments s = filter (\<lambda>w. w \<noteq> []) (split_slash s)"

section \<open>Slices\<close>

text \<open>\<open>slice::chunks(n)\<close>: runs of \<open>n\<close> elements, the last one possibly shorter.\<close>

function chunks :: "nat \<Rightarrow> 'a list \<Rightarrow> 'a list list" where
  "chunks n xs = (if n = 0 \<or> xs = [] then [] else take n xs # chunks n (drop n xs))"
  by pat_completeness auto
termination
  by (relation "measure (\<lambda>(n, xs). length xs)") auto

declare chunks.simps [simp del]

lemma chunks_Nil [simp]: "chunks n [] = []"
  by (simp add: chunks.simps)

lemma chunks_step: "0 < n \<Longrightarrow> xs \<noteq> [] \<Longrightarrow> chunks n xs = take n xs # chunks n (drop n xs)"
  by (subst chunks.simps) simp

text \<open>\<open>div_ceil\<close> on unsigned integers.\<close>

definition div_ceil :: "nat \<Rightarrow> nat \<Rightarrow> nat" where
  "div_ceil a b = a div b + (if a mod b = 0 then 0 else 1)"

lemma div_ceil_0 [simp]: "div_ceil 0 b = 0"
  by (simp add: div_ceil_def)

lemma div_ceil_bounds:
  assumes "0 < b"
  shows "a \<le> div_ceil a b * b \<and> div_ceil a b * b < a + b"
proof -
  have e: "a div b * b + a mod b = a" and l: "a mod b < b"
    using assms by simp_all
  show ?thesis
  proof (cases "a mod b = 0")
    case True
    then have "div_ceil a b * b = a div b * b" by (simp add: div_ceil_def)
    then show ?thesis using e True assms by linarith
  next
    case False
    then have "div_ceil a b * b = a div b * b + b" by (simp add: div_ceil_def)
    then show ?thesis using e l False by linarith
  qed
qed

lemmas div_ceil_ge = div_ceil_bounds [THEN conjunct1]
lemmas div_ceil_less = div_ceil_bounds [THEN conjunct2]

lemma div_ceil_step: "0 < b \<Longrightarrow> 0 < a \<Longrightarrow> div_ceil a b = Suc (div_ceil (a - b) b)"
proof -
  assume b: "0 < b" and a: "0 < a"
  show ?thesis
  proof (cases "b \<le> a")
    case True
    then show ?thesis using b by (simp add: div_ceil_def le_div_geq le_mod_geq)
  next
    case False
    then show ?thesis using a by (simp add: div_ceil_def)
  qed
qed

lemma div_ceil_mono: "0 < b \<Longrightarrow> a \<le> a' \<Longrightarrow> div_ceil a b \<le> div_ceil a' b"
proof -
  assume b: "0 < b" and "a \<le> a'"
  then have "div_ceil a b * b < (div_ceil a' b + 1) * b"
    using div_ceil_less [OF b, of a] div_ceil_ge [OF b, of a'] by (simp add: algebra_simps)
  then show ?thesis using b by (simp only: mult_less_cancel2) simp
qed

lemma length_chunks: "0 < n \<Longrightarrow> length (chunks n xs) = div_ceil (length xs) n"
proof (induction n xs rule: chunks.induct)
  case (1 n xs)
  show ?case
  proof (cases "xs = []")
    case False
    then show ?thesis using 1 by (simp add: chunks_step div_ceil_step [of n "length xs"])
  qed simp
qed

lemma concat_chunks: "0 < n \<Longrightarrow> concat (chunks n xs) = xs"
proof (induction n xs rule: chunks.induct)
  case (1 n xs)
  show ?case
  proof (cases "xs = []")
    case False
    then show ?thesis using 1 by (simp add: chunks_step)
  qed simp
qed

lemma nth_chunks:
  "0 < n \<Longrightarrow> i < length (chunks n xs) \<Longrightarrow> chunks n xs ! i = take n (drop (i * n) xs)"
proof (induction n xs arbitrary: i rule: chunks.induct)
  case (1 n xs)
  have "xs \<noteq> []" using "1.prems"(2) by auto
  then show ?case
    using 1 by (cases i) (simp_all add: chunks_step add.commute)
qed

lemma chunks_lengths: "0 < n \<Longrightarrow> c \<in> set (chunks n xs) \<Longrightarrow> 0 < length c \<and> length c \<le> n"
proof (induction n xs rule: chunks.induct)
  case (1 n xs)
  have "xs \<noteq> []" using "1.prems"(2) by auto
  then show ?case using 1 by (auto simp: chunks_step)
qed

text \<open>\<open>Vec::resize\<close>-style zero padding to a given length (never shortens).\<close>

definition pad_zero :: "nat \<Rightarrow> bytes \<Rightarrow> bytes" where
  "pad_zero n bs = bs @ replicate (n - length bs) 0"

lemma length_pad_zero [simp]: "length bs \<le> n \<Longrightarrow> length (pad_zero n bs) = n"
  by (simp add: pad_zero_def)

lemma take_pad_zero [simp]: "take (length bs) (pad_zero n bs) = bs"
  by (simp add: pad_zero_def)

section \<open>Prefix codecs\<close>

text \<open>
  A loop that reads records off the front of a buffer until it is empty. The fuel bounds the
  number of records; \<open>decode_seq_enough\<close> says when it is enough.
\<close>

fun decode_seq :: "('b list \<Rightarrow> ('a \<times> 'b list) option) \<Rightarrow> nat \<Rightarrow> 'b list \<Rightarrow> 'a list option" where
  "decode_seq d n [] = Some []"
| "decode_seq d 0 (b # bs) = None"
| "decode_seq d (Suc n) (b # bs) =
    (case d (b # bs) of
       None \<Rightarrow> None
     | Some (x, rest) \<Rightarrow> map_option (Cons x) (decode_seq d n rest))"

lemma decode_seq_enough:
  assumes "\<And>bs x rest. d bs = Some (x, rest) \<Longrightarrow> length rest < length bs"
  shows "length bs \<le> m \<Longrightarrow> length bs \<le> n \<Longrightarrow> decode_seq d m bs = decode_seq d n bs"
proof (induction m arbitrary: bs n)
  case 0
  then show ?case by simp
next
  case (Suc m)
  show ?case
  proof (cases bs)
    case (Cons b cs)
    with Suc.prems obtain k where n: "n = Suc k" by (cases n) auto
    have "decode_seq d m rest = decode_seq d k rest" if "d bs = Some (x, rest)" for x rest
      using assms [OF that] Suc.prems n by (intro Suc.IH) auto
    then show ?thesis by (auto simp: Cons n split: option.splits)
  qed simp
qed

text \<open>
  The interface of a record format: \<open>enc\<close> writes a record, \<open>dec\<close> reads one off the front
  and returns what follows it. From the one-record law the locale derives that concatenations
  are unambiguous and that the reading loop recovers the sequence that was written.
\<close>

locale prefix_codec =
  fixes enc :: "'a \<Rightarrow> 'b list"
    and dec :: "'b list \<Rightarrow> ('a \<times> 'b list) option"
    and valid :: "'a \<Rightarrow> bool"
  assumes dec_enc: "valid x \<Longrightarrow> dec (enc x @ rest) = Some (x, rest)"
    and enc_nonempty: "valid x \<Longrightarrow> enc x \<noteq> []"
begin

lemma enc_append_inj:
  assumes "valid x" "valid y" "enc x @ r = enc y @ s"
  shows "x = y \<and> r = s"
proof -
  have "Some (x, r) = Some (y, s)"
    using dec_enc [OF assms(1), of r] dec_enc [OF assms(2), of s] by (simp only: assms(3))
  then show ?thesis by simp
qed

lemma concat_enc_inj:
  "list_all valid xs \<Longrightarrow> list_all valid ys \<Longrightarrow>
   concat (map enc xs) = concat (map enc ys) \<Longrightarrow> xs = ys"
proof (induction xs arbitrary: ys)
  case Nil
  then show ?case using enc_nonempty by (cases ys) auto
next
  case (Cons x xs)
  show ?case
  proof (cases ys)
    case Nil
    then show ?thesis using Cons.prems enc_nonempty by auto
  next
    case (Cons y zs)
    then have v: "valid x" "valid y" "list_all valid xs" "list_all valid zs"
      and e: "enc x @ concat (map enc xs) = enc y @ concat (map enc zs)"
      using Cons.prems by auto
    from enc_append_inj [OF v(1,2) e] Cons.IH [OF v(3,4)] Cons show ?thesis by blast
  qed
qed

lemma decode_seq_concat:
  "list_all valid xs \<Longrightarrow> length (concat (map enc xs)) \<le> n \<Longrightarrow>
   decode_seq dec n (concat (map enc xs)) = Some xs"
proof (induction xs arbitrary: n)
  case (Cons x xs)
  have "enc x \<noteq> []" using Cons.prems(1) enc_nonempty by simp
  then obtain b bs where b: "enc x = b # bs" by (cases "enc x") auto
  with Cons.prems(2) obtain k where n: "n = Suc k" "length (concat (map enc xs)) \<le> k"
    by (cases n) auto
  have "dec (b # bs @ concat (map enc xs)) = Some (x, concat (map enc xs))"
    using dec_enc [of x "concat (map enc xs)"] Cons.prems(1) b by simp
  then show ?case using Cons b n by simp
qed simp

end

end
