(* ===== verification/External.thy ===== *)
theory External
  imports Prelude
begin

text \<open>
  The third-party code the program calls, as one record of functions that every definition
  using it takes as an argument: floating point (\<open>f64\<close>, abstract so that no theorem depends
  on rounding), zstd, HKDF-SHA256 and AES-256-GCM of aws-lc-rs, Reed-Solomon of
  reed-solomon-simd, BLAKE3, the hex crate, Argon2 and Ed25519. What the program relies on is
  stated as named predicates below; theorems that need one have it as a hypothesis. The last
  section gives concrete functions that satisfy them, for the witnesses.
\<close>

record 'f env =
  f64_of_nat :: "nat \<Rightarrow> 'f"
  f64_add :: "'f \<Rightarrow> 'f \<Rightarrow> 'f"
  f64_sub :: "'f \<Rightarrow> 'f \<Rightarrow> 'f"
  f64_mul :: "'f \<Rightarrow> 'f \<Rightarrow> 'f"
  f64_div :: "'f \<Rightarrow> 'f \<Rightarrow> 'f"
  f64_log2 :: "'f \<Rightarrow> 'f"
  f64_lt :: "'f \<Rightarrow> 'f \<Rightarrow> bool"
  f64_le :: "'f \<Rightarrow> 'f \<Rightarrow> bool"
  zstd_encode_all :: "bytes \<Rightarrow> int \<Rightarrow> bytes option"
  zstd_decode_all :: "bytes \<Rightarrow> (bytes, string) result"
  hkdf_expand :: "bytes \<Rightarrow> bytes \<Rightarrow> bytes \<Rightarrow> bytes option"
  aead_new_key :: "bytes \<Rightarrow> bool"
  aead_seal :: "bytes \<Rightarrow> bytes \<Rightarrow> bytes \<Rightarrow> bytes \<Rightarrow> bytes option"
  aead_open :: "bytes \<Rightarrow> bytes \<Rightarrow> bytes \<Rightarrow> bytes \<Rightarrow> bytes option"
  rs_encode :: "nat \<Rightarrow> nat \<Rightarrow> bytes list \<Rightarrow> (bytes list, string) result"
  rs_decode :: "nat \<Rightarrow> nat \<Rightarrow> (nat \<times> bytes) list \<Rightarrow> (nat \<times> bytes) list \<Rightarrow> (nat \<rightharpoonup> bytes, string) result"
  blake3 :: "bytes \<Rightarrow> bytes"
  hex_encode :: "bytes \<Rightarrow> string"
  hex_decode :: "string \<Rightarrow> bytes option"
  argon2id :: "bytes \<Rightarrow> bytes \<Rightarrow> bytes option"
  ed25519_public :: "bytes \<Rightarrow> bytes"
  ed25519_sign :: "bytes \<Rightarrow> bytes \<Rightarrow> bytes option"
  ed25519_verify :: "bytes \<Rightarrow> bytes \<Rightarrow> bytes \<Rightarrow> bool"

text \<open>zstd decompression undoes compression, at any level.\<close>

definition zstd_lossless :: "'f env \<Rightarrow> bool" where
  "zstd_lossless E \<longleftrightarrow>
     (\<forall>d l c. zstd_encode_all E d l = Some c \<longrightarrow> zstd_decode_all E c = Ok d)"

text \<open>HKDF of a 32-byte output never fails and yields 32 bytes, which AES-256 takes as a key.\<close>

definition hkdf_total :: "'f env \<Rightarrow> bool" where
  "hkdf_total E \<longleftrightarrow>
     (\<forall>salt ikm info. \<exists>okm. hkdf_expand E salt ikm info = Some okm \<and> length okm = 32)
     \<and> (\<forall>k. length k = 32 \<longrightarrow> aead_new_key E k)"

text \<open>
  AES-256-GCM: sealing succeeds and appends a 16-byte tag; opening under the same key, nonce
  and additional data gives the plaintext back.
\<close>

definition aead_correct :: "'f env \<Rightarrow> bool" where
  "aead_correct E \<longleftrightarrow>
     (\<forall>k n a p. \<exists>c. aead_seal E k n a p = Some c \<and> length c = length p + 16
        \<and> aead_open E k n a c = Some p)"

text \<open>
  The Reed-Solomon laws for one set of data shards: encoding yields \<open>m\<close> recovery shards of
  the same length, and decoding any selection of at least \<open>k\<close> of the \<open>k + m\<close> shards
  returns every data shard that is not in the selection.
\<close>

definition shards_at :: "nat set \<Rightarrow> nat \<Rightarrow> bytes list \<Rightarrow> (nat \<times> bytes) list" where
  "shards_at S base xs = map (\<lambda>i. (i, xs ! i)) (filter (\<lambda>i. base + i \<in> S) [0..<length xs])"

definition rs_recovers :: "'f env \<Rightarrow> nat \<Rightarrow> nat \<Rightarrow> bytes list \<Rightarrow> bytes list \<Rightarrow> bool" where
  "rs_recovers E k m xs rs \<longleftrightarrow>
     rs_encode E k m xs = Ok rs \<and> length rs = m
     \<and> (\<forall>r \<in> set rs. \<forall>x \<in> set xs. length r = length x)
     \<and> (\<forall>S \<subseteq> {..<k + m}. k \<le> card S \<longrightarrow>
          (\<exists>restored. rs_decode E k m (shards_at S 0 xs) (shards_at S k rs) = Ok restored
             \<and> (\<forall>i < k. i \<notin> S \<longrightarrow> restored i = Some (xs ! i))))"

text \<open>With fewer than \<open>k\<close> shards in all, decoding is refused.\<close>

definition rs_refuses :: "'f env \<Rightarrow> bool" where
  "rs_refuses E \<longleftrightarrow> (\<forall>k m xs rs. length xs + length rs < k \<longrightarrow> (\<exists>e. rs_decode E k m xs rs = Err e))"

text \<open>BLAKE3 digests have 32 bytes; the hex crate decodes what it encodes and writes two
  lowercase digits per byte.\<close>

definition blake3_len :: "'f env \<Rightarrow> bool" where
  "blake3_len E \<longleftrightarrow> (\<forall>bs. length (blake3 E bs) = 32)"

definition lower_hex :: "char \<Rightarrow> bool" where
  "lower_hex c \<longleftrightarrow> (of_char c :: nat) \<in> {48..57} \<union> {97..102}"

definition hex_correct :: "'f env \<Rightarrow> bool" where
  "hex_correct E \<longleftrightarrow>
     (\<forall>bs. hex_decode E (hex_encode E bs) = Some bs \<and> length (hex_encode E bs) = 2 * length bs
          \<and> list_all lower_hex (hex_encode E bs))"

section \<open>Concrete functions for the witnesses\<close>

text \<open>
  A polynomial hash stands for the digests and the tag, and a run-length code of the byte 7
  for the compressor. The erasure code repeats the first shard, which satisfies
  \<open>rs_recovers\<close> exactly for data shards that are all equal.
\<close>

definition poly_hash :: "bytes \<Rightarrow> nat" where
  "poly_hash bs = foldl (\<lambda>h b. h * 31 + unat b) 7 bs"

definition demo_zstd_encode :: "bytes \<Rightarrow> int \<Rightarrow> bytes option" where
  "demo_zstd_encode d l =
     Some (if d = replicate (length d) 7 \<and> length d < 256 then [1, word_of_nat (length d)] else 0 # d)"

definition demo_zstd_decode :: "bytes \<Rightarrow> (bytes, string) result" where
  "demo_zstd_decode c =
     (case c of
        [] \<Rightarrow> Err ''unknown frame''
      | b # r \<Rightarrow> if b = 0 then Ok r
          else (case r of [n] \<Rightarrow> Ok (replicate (unat n) 7) | _ \<Rightarrow> Err ''unknown frame''))"

definition demo_seal :: "bytes \<Rightarrow> bytes \<Rightarrow> bytes \<Rightarrow> bytes \<Rightarrow> bytes option" where
  "demo_seal k n a p = Some (p @ be_bytes 16 (poly_hash (k @ n @ a @ p)))"

definition demo_open :: "bytes \<Rightarrow> bytes \<Rightarrow> bytes \<Rightarrow> bytes \<Rightarrow> bytes option" where
  "demo_open k n a c =
     (let p = take (length c - 16) c
      in if 16 \<le> length c \<and> drop (length c - 16) c = be_bytes 16 (poly_hash (k @ n @ a @ p))
         then Some p else None)"

definition demo_rs_decode :: "nat \<Rightarrow> nat \<Rightarrow> (nat \<times> bytes) list \<Rightarrow> (nat \<times> bytes) list \<Rightarrow> (nat \<rightharpoonup> bytes, string) result" where
  "demo_rs_decode k m xs rs =
     (if length xs + length rs < k then Err ''not enough shards''
      else case xs @ rs of [] \<Rightarrow> Ok (\<lambda>i. None) | (_, s) # _ \<Rightarrow> Ok (\<lambda>i. Some s))"

definition nibble_char :: "nat \<Rightarrow> char" where
  "nibble_char n = char_of (if n < 10 then 48 + n else 87 + n)"

definition char_nibble :: "char \<Rightarrow> nat option" where
  "char_nibble c =
     (let n = of_char c :: nat
      in if 48 \<le> n \<and> n \<le> 57 then Some (n - 48)
         else if 97 \<le> n \<and> n \<le> 102 then Some (n - 87)
         else if 65 \<le> n \<and> n \<le> 70 then Some (n - 55) else None)"

fun demo_hex_encode :: "bytes \<Rightarrow> string" where
  "demo_hex_encode [] = []"
| "demo_hex_encode (b # bs) =
     nibble_char (unat b div 16) # nibble_char (unat b mod 16) # demo_hex_encode bs"

fun demo_hex_decode :: "string \<Rightarrow> bytes option" where
  "demo_hex_decode [] = Some []"
| "demo_hex_decode (c # d # cs) =
     (case (char_nibble c, char_nibble d) of
        (Some h, Some l) \<Rightarrow> map_option (Cons (word_of_nat (h * 16 + l))) (demo_hex_decode cs)
      | _ \<Rightarrow> None)"
| "demo_hex_decode _ = None"

definition demo_env :: "int env" where
  "demo_env =
     \<lparr>f64_of_nat = int, f64_add = (+), f64_sub = (-), f64_mul = (*), f64_div = (div),
      f64_log2 = (\<lambda>x. x), f64_lt = (<), f64_le = (\<le>),
      zstd_encode_all = demo_zstd_encode, zstd_decode_all = demo_zstd_decode,
      hkdf_expand = (\<lambda>salt ikm info. Some (be_bytes 32 (poly_hash (salt @ ikm @ info)))),
      aead_new_key = (\<lambda>k. length k = 32),
      aead_seal = demo_seal, aead_open = demo_open,
      rs_encode = (\<lambda>k m xs. Ok (replicate m (hd xs))), rs_decode = demo_rs_decode,
      blake3 = (\<lambda>bs. be_bytes 16 (poly_hash bs) @ replicate 16 0),
      hex_encode = demo_hex_encode, hex_decode = demo_hex_decode,
      argon2id = (\<lambda>p s. Some (be_bytes 32 (poly_hash (p @ s)))),
      ed25519_public = (\<lambda>seed. seed),
      ed25519_sign = (\<lambda>seed m. Some (be_bytes 64 (poly_hash (seed @ m)))),
      ed25519_verify = (\<lambda>pub m sig. sig = be_bytes 64 (poly_hash (pub @ m)))\<rparr>"

text \<open>The same with a constant tag, so that a sealed buffer can be a constant run of bytes.\<close>

definition flat_env :: "int env" where
  "flat_env = demo_env
     \<lparr>aead_seal := (\<lambda>k n a p. Some (p @ replicate 16 7)),
      aead_open := (\<lambda>k n a c. if 16 \<le> length c \<and> drop (length c - 16) c = replicate 16 7
                              then Some (take (length c - 16) c) else None)\<rparr>"

lemma demo_zstd_lossless: "zstd_lossless demo_env"
  unfolding zstd_lossless_def demo_env_def
  by (auto simp: demo_zstd_encode_def demo_zstd_decode_def unat_of_nat split: if_splits)

lemma demo_hkdf_total: "hkdf_total demo_env"
  by (simp add: hkdf_total_def demo_env_def)

lemma demo_aead_correct: "aead_correct demo_env"
  by (simp add: aead_correct_def demo_env_def demo_seal_def demo_open_def Let_def)

lemma demo_blake3_len: "blake3_len demo_env"
  by (simp add: blake3_len_def demo_env_def)

lemma char_nibble_char [simp]: "n < 16 \<Longrightarrow> char_nibble (nibble_char n) = Some n"
  by (auto simp: char_nibble_def nibble_char_def Let_def)

lemma demo_hex_inverse: "demo_hex_decode (demo_hex_encode bs) = Some bs"
proof (induction bs)
  case (Cons b bs)
  have "unat b < 256" using unsigned_less [where ?'a = nat, of b] by simp
  then show ?case using Cons by (simp add: div_mult_mod_eq del: of_nat_add of_nat_mult)
qed simp

lemma demo_hex_length: "length (demo_hex_encode bs) = 2 * length bs"
  by (induction bs) auto

lemma demo_hex_digits: "list_all lower_hex (demo_hex_encode bs)"
proof -
  have d: "lower_hex (nibble_char n)" if "n < 16" for n
    using that by (auto simp: lower_hex_def nibble_char_def)
  have "unat b < 256" for b :: byte using unsigned_less [where ?'a = nat, of b] by simp
  then have "unat b div 16 < 16" for b :: byte by (simp add: less_mult_imp_div_less)
  then show ?thesis using d by (induction bs) auto
qed

lemma demo_hex_correct: "hex_correct demo_env"
  using demo_hex_digits by (auto simp: hex_correct_def demo_env_def demo_hex_inverse demo_hex_length)

lemma flat_zstd_lossless: "zstd_lossless flat_env"
  using demo_zstd_lossless by (simp add: zstd_lossless_def flat_env_def)

lemma flat_hkdf_total: "hkdf_total flat_env"
  using demo_hkdf_total by (simp add: hkdf_total_def flat_env_def)

lemma flat_aead_correct: "aead_correct flat_env"
  by (simp add: aead_correct_def flat_env_def)

lemma demo_rs_refuses: "rs_decode E = rs_decode demo_env \<Longrightarrow> rs_refuses E"
  by (simp add: rs_refuses_def demo_env_def demo_rs_decode_def)

lemma shards_at_count:
  assumes "S \<subseteq> {..<k + m}" "length xs = k" "length rs = m"
  shows "length (shards_at S 0 xs) + length (shards_at S k rs) = card S"
proof -
  have n: "length (filter P [0..<n]) = card {i. i < n \<and> P i}" for P n
    using distinct_card [of "filter P [0..<n]"] by (simp add: conj_commute)
  have "S = {i. i < k \<and> i \<in> S} \<union> (+) k ` {i. i < m \<and> k + i \<in> S}"
  proof (intro equalityI subsetI)
    fix i assume "i \<in> S"
    then show "i \<in> {i. i < k \<and> i \<in> S} \<union> (+) k ` {i. i < m \<and> k + i \<in> S}"
      using assms(1) by (cases "i < k") (auto intro!: image_eqI [of _ _ "i - k"])
  qed auto
  moreover have "card ({i. i < k \<and> i \<in> S} \<union> (+) k ` {i. i < m \<and> k + i \<in> S})
      = card {i. i < k \<and> i \<in> S} + card ((+) k ` {i. i < m \<and> k + i \<in> S})"
    by (rule card_Un_disjoint) auto
  ultimately show ?thesis using assms(2,3) by (simp add: shards_at_def n card_image)
qed

lemma demo_rs_recovers:
  assumes "rs_encode E = rs_encode demo_env" "rs_decode E = rs_decode demo_env"
    and "xs = replicate k x" "0 < k"
  shows "rs_recovers E k m xs (replicate m x)"
proof -
  have "\<exists>restored. demo_rs_decode k m (shards_at S 0 xs) (shards_at S k (replicate m x)) = Ok restored
          \<and> (\<forall>i < k. i \<notin> S \<longrightarrow> restored i = Some (xs ! i))"
    if S: "S \<subseteq> {..<k + m}" "k \<le> card S" for S
  proof -
    have "S \<noteq> {}" using S(2) assms(4) by auto
    then obtain i where i: "i \<in> S" "i < k + m" using S(1) by auto
    let ?all = "shards_at S 0 xs @ shards_at S k (replicate m x)"
    have x: "snd p = x" if "p \<in> set ?all" for p
      using that assms(3) by (auto simp: shards_at_def)
    have "?all \<noteq> []"
    proof (cases "i < k")
      case True
      then have "(i, xs ! i) \<in> set ?all" using i assms(3) by (auto simp: shards_at_def)
      then show ?thesis by auto
    next
      case False
      then have "(i - k, x) \<in> set ?all" using i by (auto simp: shards_at_def)
      then show ?thesis by auto
    qed
    then obtain p ps where all: "?all = p # ps" by (cases ?all) auto
    with x [of p] obtain j where "p = (j, x)" by (cases p) auto
    then have "demo_rs_decode k m (shards_at S 0 xs) (shards_at S k (replicate m x))
               = Ok (\<lambda>i. Some x)"
      using all shards_at_count [OF S(1), of xs "replicate m x"] S(2) assms(3) by (simp add: demo_rs_decode_def)
    then show ?thesis using assms(3) by simp
  qed
  then show ?thesis using assms by (simp add: rs_recovers_def demo_env_def)
qed

end
