(* ===== verification/Chunker.thy ===== *)
theory Chunker
  imports External
begin

text \<open>
  \<open>core/src/chunker.rs\<close> and \<open>core/src/error.rs\<close>: the error type of the core crate, the
  entropy probe, the gated compression and its inverse, and the split of a file into chunks.
\<close>

datatype core_error = Crypto string | Compression string | Erasure string | Io string

definition DEFAULT_CHUNK_SIZE :: nat where
  "DEFAULT_CHUNK_SIZE = 4 * 1024 * 1024"

definition FAST_ZSTD_LEVEL :: int where
  "FAST_ZSTD_LEVEL = 3"

definition ENTROPY_SAMPLE :: nat where
  "ENTROPY_SAMPLE = 16 * 1024"

definition DEFAULT_ENTROPY_SKIP :: "'f env \<Rightarrow> 'f" where
  "DEFAULT_ENTROPY_SKIP E = f64_div E (f64_of_nat E 78) (f64_of_nat E 10)"

text \<open>The histogram loop, with its wrapping \<open>u32\<close> counters, and the entropy sum over it.\<close>

definition byte_histogram :: "bytes \<Rightarrow> u32 list" where
  "byte_histogram sample =
     foldl (\<lambda>hist b. hist[unat b := hist ! unat b + 1]) (replicate 256 0) sample"

definition sample_entropy :: "'f env \<Rightarrow> bytes \<Rightarrow> 'f" where
  "sample_entropy E sample =
     (if sample = [] then f64_of_nat E 0
      else
        let len = f64_of_nat E (length sample)
        in foldl (\<lambda>h c.
             if c > 0 then
               let p = f64_div E (f64_of_nat E (unat c)) len
               in f64_sub E h (f64_mul E p (f64_log2 E p))
             else h) (f64_of_nat E 0) (byte_histogram sample))"

definition maybe_compress :: "'f env \<Rightarrow> bytes \<Rightarrow> 'f \<Rightarrow> int \<Rightarrow> bytes \<times> bool" where
  "maybe_compress E data entropy_skip level =
     (let sample = take (min (length data) ENTROPY_SAMPLE) data
      in if f64_le E entropy_skip (sample_entropy E sample) then (data, False)
         else (case zstd_encode_all E data level of
                 Some c \<Rightarrow> if length c < length data then (c, True) else (data, False)
               | None \<Rightarrow> (data, False)))"

definition restore :: "'f env \<Rightarrow> bytes \<Rightarrow> bool \<Rightarrow> (bytes, string) result" where
  "restore E data is_compressed = (if is_compressed then zstd_decode_all E data else Ok data)"

text \<open>\<open>slice::chunks\<close> panics on a zero chunk size.\<close>

definition split_chunks :: "bytes \<Rightarrow> nat \<Rightarrow> (bytes list, core_error) result" where
  "split_chunks data chunk_size = (if chunk_size = 0 then Panic else Ok (chunks chunk_size data))"

lemma length_byte_histogram [simp]: "length (byte_histogram sample) = 256"
proof -
  have "length (foldl (\<lambda>hist b. hist[unat b := hist ! unat b + 1]) h s) = length h"
    for h :: "u32 list" and s :: bytes
    by (induction s arbitrary: h) auto
  then show ?thesis by (simp add: byte_histogram_def)
qed

text \<open>Every index the loop writes is in range, so the array access never panics, and each counter
  is the number of occurrences of its byte, modulo the counter's width.\<close>

lemma byte_histogram_count:
  "byte_histogram sample ! unat b = word_of_nat (count_list sample b)"
proof -
  have b: "unat c < 256" for c :: byte
    using unsigned_less [where ?'a = nat, of c] by simp
  have "foldl (\<lambda>hist b. hist[unat b := hist ! unat b + 1]) h s ! unat b
        = h ! unat b + word_of_nat (count_list s b)"
    if "length h = 256" for h :: "u32 list" and s :: bytes
    using that
  proof (induction s arbitrary: h)
    case (Cons c s)
    then show ?case using b [of b] b [of c] by (auto simp: nth_list_update word_unat_eq_iff add.assoc)
  qed simp
  then show ?thesis using b [of b] by (simp add: byte_histogram_def)
qed

lemma maybe_compress_cases:
  assumes "maybe_compress E data skip level = (buf, z)"
  obtains (raw) "\<not> z" "buf = data"
  | (packed) "z" "zstd_encode_all E data level = Some buf" "length buf < length data"
  using assms by (auto simp: maybe_compress_def Let_def split: if_splits option.splits)

lemma maybe_compress_length:
  "maybe_compress E data skip level = (buf, z) \<Longrightarrow> length buf \<le> length data"
  by (auto elim: maybe_compress_cases)

lemma restore_maybe_compress:
  "zstd_lossless E \<Longrightarrow> maybe_compress E data skip level = (buf, z) \<Longrightarrow> restore E buf z = Ok data"
  by (auto simp: restore_def zstd_lossless_def elim!: maybe_compress_cases)

lemma split_chunks_concat:
  "split_chunks data n = Ok cs \<Longrightarrow>
   concat cs = data \<and> length cs = div_ceil (length data) n
   \<and> (\<forall>c \<in> set cs. 0 < length c \<and> length c \<le> n)"
  by (auto simp: split_chunks_def concat_chunks length_chunks dest: chunks_lengths split: if_splits)

end
