(* ===== verification/Crypto.thy ===== *)
theory Crypto
  imports Chunker
begin

text \<open>
  \<open>core/src/crypto.rs\<close>: length-prefixed encodings, the two key schemes, the key derivations,
  the counter nonce, the chunk sealer, the canonical additional data of a chunk and the
  per-file cipher. A \<open>DataKey\<close>, a \<open>FileSubkey\<close> and a \<open>ChunkSealer\<close> are each their key
  bytes; wiping memory on drop has no counterpart.
\<close>

definition KEY_LEN :: nat where
  "KEY_LEN = 32"

definition TAG_LEN :: nat where
  "TAG_LEN = 16"

definition NONCE_LEN :: nat where
  "NONCE_LEN = 12"

definition SUBKEY_INFO :: bytes where
  "SUBKEY_INFO = as_bytes ''p2pnas/file-subkey/v1''"

definition HKDF_SALT_V2 :: bytes where
  "HKDF_SALT_V2 = as_bytes ''p2pnas/hkdf-salt/v2''"

definition FILE_SUBKEY_DOMAIN_V2 :: bytes where
  "FILE_SUBKEY_DOMAIN_V2 = as_bytes ''p2pnas/file-subkey/v2''"

definition CHUNK_AAD_DOMAIN_V2 :: bytes where
  "CHUNK_AAD_DOMAIN_V2 = as_bytes ''p2pnas/chunk-aad/v2''"

definition MAX_CHUNK_INDEX :: u64 where
  "MAX_CHUNK_INDEX = 0xFFFFFFFF"

definition push_lp :: "bytes \<Rightarrow> bytes \<Rightarrow> bytes" where
  "push_lp out part = out @ be_bytes 8 (length part) @ part"

definition lp_concat :: "bytes list \<Rightarrow> bytes" where
  "lp_concat parts = foldl push_lp [] parts"

section \<open>Key schemes and derivations\<close>

datatype key_scheme = V1 | V2

definition KeyScheme_default :: key_scheme where
  "KeyScheme_default = V1"

fun as_u8 :: "key_scheme \<Rightarrow> byte" where
  "as_u8 V1 = 1"
| "as_u8 V2 = 2"

definition as_i64 :: "key_scheme \<Rightarrow> int" where
  "as_i64 s = uint (as_u8 s)"

definition from_i64 :: "int \<Rightarrow> (key_scheme, core_error) result" where
  "from_i64 v = (if v = 1 then Ok V1 else if v = 2 then Ok V2
                 else Err (Crypto ''unknown key scheme''))"

type_synonym data_key = bytes
type_synonym file_subkey = bytes
type_synonym chunk_sealer = bytes

text \<open>HKDF extract with a salt, expand with an info string, and the fill of 32 bytes.\<close>

definition hkdf_fill :: "'f env \<Rightarrow> bytes \<Rightarrow> data_key \<Rightarrow> bytes \<Rightarrow> (bytes, core_error) result" where
  "hkdf_fill E salt key info =
     rbind (ok_or (Crypto ''hkdf expand'') (hkdf_expand E salt key info))
       (\<lambda>okm. if length okm = KEY_LEN then Ok okm else Err (Crypto ''hkdf fill''))"

definition derive_raw :: "'f env \<Rightarrow> data_key \<Rightarrow> bytes \<Rightarrow> (bytes, core_error) result" where
  "derive_raw E key info = hkdf_fill E SUBKEY_INFO key info"

definition file_subkey :: "'f env \<Rightarrow> data_key \<Rightarrow> bytes \<Rightarrow> (file_subkey, core_error) result" where
  "file_subkey E key file_id = derive_raw E key file_id"

definition derive_v2_info :: "bytes \<Rightarrow> bytes list \<Rightarrow> bytes" where
  "derive_v2_info domain parts = foldl push_lp (push_lp [] domain) parts"

definition derive_v2 :: "'f env \<Rightarrow> data_key \<Rightarrow> bytes \<Rightarrow> bytes list \<Rightarrow> (bytes, core_error) result" where
  "derive_v2 E key domain parts = hkdf_fill E HKDF_SALT_V2 key (derive_v2_info domain parts)"

definition file_subkey_v2 :: "'f env \<Rightarrow> data_key \<Rightarrow> bytes \<Rightarrow> bytes \<Rightarrow> (file_subkey, core_error) result" where
  "file_subkey_v2 E key user_id file_id =
     derive_v2 E key FILE_SUBKEY_DOMAIN_V2 [user_id, file_id]"

fun file_subkey_for :: "'f env \<Rightarrow> data_key \<Rightarrow> key_scheme \<Rightarrow> bytes \<Rightarrow> bytes
    \<Rightarrow> (file_subkey, core_error) result" where
  "file_subkey_for E key V1 user_id file_id = file_subkey E key file_id"
| "file_subkey_for E key V2 user_id file_id = file_subkey_v2 E key user_id file_id"

definition subkey_sealer :: "'f env \<Rightarrow> file_subkey \<Rightarrow> (chunk_sealer, core_error) result" where
  "subkey_sealer E k = (if aead_new_key E k then Ok k else Err (Crypto ''aead key init''))"

section \<open>Sealing one chunk\<close>

definition nonce_for :: "u64 \<Rightarrow> bytes" where
  "nonce_for index = replicate (NONCE_LEN - 8) 0 @ u64_be index"

text \<open>Sealing returns the buffer it has rewritten in place and the nonce.\<close>

definition seal_inner :: "'f env \<Rightarrow> chunk_sealer \<Rightarrow> bytes \<Rightarrow> u64 \<Rightarrow> bytes
    \<Rightarrow> (bytes \<times> bytes, core_error) result" where
  "seal_inner E k buf index aad =
     (if index > MAX_CHUNK_INDEX
      then Err (Crypto ''chunk index above the GCM per-key bound'')
      else
        let nonce = nonce_for index
        in rbind (ok_or (Crypto ''seal'') (aead_seal E k nonce aad buf))
             (\<lambda>sealed. Ok (sealed, nonce)))"

definition seal :: "'f env \<Rightarrow> chunk_sealer \<Rightarrow> bytes \<Rightarrow> u64 \<Rightarrow> (bytes \<times> bytes, core_error) result" where
  "seal E k buf index = seal_inner E k buf index []"

definition seal_with_aad :: "'f env \<Rightarrow> chunk_sealer \<Rightarrow> bytes \<Rightarrow> u64 \<Rightarrow> bytes
    \<Rightarrow> (bytes \<times> bytes, core_error) result" where
  "seal_with_aad E k buf index aad = seal_inner E k buf index aad"

definition open_inner :: "'f env \<Rightarrow> chunk_sealer \<Rightarrow> u64 \<Rightarrow> bytes \<Rightarrow> (bytes, core_error) result" where
  "open_inner E k index buf = ok_or (Crypto ''open'') (aead_open E k (nonce_for index) [] buf)"

definition open_with_aad :: "'f env \<Rightarrow> chunk_sealer \<Rightarrow> u64 \<Rightarrow> bytes \<Rightarrow> bytes
    \<Rightarrow> (bytes, core_error) result" where
  "open_with_aad E k index buf aad = ok_or (Crypto ''open'') (aead_open E k (nonce_for index) aad buf)"

section \<open>The per-file cipher\<close>

record chunk_aad =
  ca_scheme :: key_scheme
  ca_user_id :: bytes
  ca_file_id :: bytes
  ca_chunk_count :: u64
  ca_chunk_index :: u64

definition ChunkAad_encode :: "chunk_aad \<Rightarrow> bytes" where
  "ChunkAad_encode a =
     lp_concat [CHUNK_AAD_DOMAIN_V2, [as_u8 (ca_scheme a)], ca_user_id a, ca_file_id a,
                u64_be (ca_chunk_count a), u64_be (ca_chunk_index a)]"

record file_cipher =
  fc_scheme :: key_scheme
  fc_sealer :: chunk_sealer
  fc_aad_prefix :: bytes
  fc_chunk_count :: u64

definition FileCipher_new :: "'f env \<Rightarrow> data_key \<Rightarrow> key_scheme \<Rightarrow> bytes \<Rightarrow> bytes \<Rightarrow> u64
    \<Rightarrow> (file_cipher, core_error) result" where
  "FileCipher_new E key scheme user_id file_id chunk_count =
     rbind (rbind (file_subkey_for E key scheme user_id file_id) (subkey_sealer E))
       (\<lambda>sealer.
         let aad_prefix =
           (case scheme of
              V1 \<Rightarrow> []
            | V2 \<Rightarrow> lp_concat [CHUNK_AAD_DOMAIN_V2, [as_u8 scheme], user_id, file_id,
                               u64_be chunk_count])
         in Ok \<lparr>fc_scheme = scheme, fc_sealer = sealer, fc_aad_prefix = aad_prefix,
                fc_chunk_count = chunk_count\<rparr>)"

definition aad_for :: "file_cipher \<Rightarrow> u64 \<Rightarrow> bytes" where
  "aad_for C index =
     (case fc_scheme C of
        V1 \<Rightarrow> []
      | V2 \<Rightarrow> push_lp (fc_aad_prefix C) (u64_be index))"

definition seal_chunk :: "'f env \<Rightarrow> file_cipher \<Rightarrow> bytes \<Rightarrow> u64 \<Rightarrow> (bytes \<times> bytes, core_error) result" where
  "seal_chunk E C buf index =
     (case fc_scheme C of
        V1 \<Rightarrow> seal E (fc_sealer C) buf index
      | V2 \<Rightarrow> seal_with_aad E (fc_sealer C) buf index (aad_for C index))"

definition open_chunk :: "'f env \<Rightarrow> file_cipher \<Rightarrow> u64 \<Rightarrow> bytes \<Rightarrow> (bytes, core_error) result" where
  "open_chunk E C index buf =
     (case fc_scheme C of
        V1 \<Rightarrow> open_inner E (fc_sealer C) index buf
      | V2 \<Rightarrow>
          if index \<ge> fc_chunk_count C
          then Err (Crypto ''chunk index outside the file's chunk count'')
          else open_with_aad E (fc_sealer C) index buf (aad_for C index))"

definition blake3_hex :: "'f env \<Rightarrow> bytes \<Rightarrow> string" where
  "blake3_hex E data = hex_encode E (blake3 E data)"

section \<open>The length-prefixed encoding\<close>

text \<open>Reading one length-prefixed part back, the inverse the encoding is injective by.\<close>

definition read_lp :: "bytes \<Rightarrow> (bytes \<times> bytes) option" where
  "read_lp bs =
     (let n = of_be (take 8 bs); rest = drop 8 bs
      in if length bs < 8 \<or> length rest < n then None else Some (take n rest, drop n rest))"

definition lp_len_ok :: "bytes \<Rightarrow> bool" where
  "lp_len_ok part \<longleftrightarrow> length part < 2 ^ 64"

lemma foldl_push_lp: "foldl push_lp out parts = out @ concat (map (push_lp []) parts)"
  by (induction parts arbitrary: out) (simp_all add: push_lp_def)

lemma lp_concat_concat: "lp_concat parts = concat (map (push_lp []) parts)"
  by (simp add: lp_concat_def foldl_push_lp)

lemma derive_v2_info_concat: "derive_v2_info domain parts = lp_concat (domain # parts)"
  by (simp add: derive_v2_info_def lp_concat_def)

lemma read_push_lp: "lp_len_ok part \<Longrightarrow> read_lp (push_lp [] part @ rest) = Some (part, rest)"
  by (simp add: read_lp_def push_lp_def lp_len_ok_def of_be_be_bytes_small)

interpretation lp: prefix_codec "push_lp []" read_lp lp_len_ok
proof
  show "push_lp [] x \<noteq> []" if "lp_len_ok x" for x
    using length_be_bytes [of 8 "length x"] by (auto simp: push_lp_def simp del: length_be_bytes)
qed (rule read_push_lp)

lemma lp_concat_eq_iff:
  "list_all lp_len_ok ps \<Longrightarrow> list_all lp_len_ok qs \<Longrightarrow> lp_concat ps = lp_concat qs \<longleftrightarrow> ps = qs"
  by (auto simp: lp_concat_concat dest: lp.concat_enc_inj)

lemma lp_concat_snoc: "lp_concat (ps @ [p]) = push_lp (lp_concat ps) p"
  by (simp add: lp_concat_def)

section \<open>The cipher of a file\<close>

lemma as_u8_inj [simp]: "as_u8 s = as_u8 t \<longleftrightarrow> s = t"
  by (cases s; cases t) auto

lemma from_as_i64 [simp]: "from_i64 (as_i64 s) = Ok s"
  by (cases s) (simp_all add: from_i64_def as_i64_def)

lemma from_i64_Ok_iff: "from_i64 v = Ok s \<longleftrightarrow> v = as_i64 s"
  by (cases s) (auto simp: from_i64_def as_i64_def)

lemma nonce_for_inj [simp]: "nonce_for i = nonce_for j \<longleftrightarrow> i = j"
  by (simp add: nonce_for_def)

lemma length_nonce_for [simp]: "length (nonce_for i) = NONCE_LEN"
  by (simp add: nonce_for_def NONCE_LEN_def)

lemma hkdf_fill_total: "hkdf_total E \<Longrightarrow> \<exists>k. hkdf_fill E salt key info = Ok k \<and> length k = 32"
proof -
  assume "hkdf_total E"
  then obtain k where "hkdf_expand E salt key info = Some k" "length k = 32"
    unfolding hkdf_total_def by blast
  then show ?thesis by (simp add: hkdf_fill_def KEY_LEN_def)
qed

lemma FileCipher_new_total:
  assumes "hkdf_total E"
  obtains C where "FileCipher_new E key scheme uid fid n = Ok C"
proof -
  have "\<exists>k. file_subkey_for E key scheme uid fid = Ok k \<and> length k = 32"
    using hkdf_fill_total [OF assms]
    by (cases scheme) (simp_all add: file_subkey_def derive_raw_def file_subkey_v2_def derive_v2_def)
  then obtain k where "file_subkey_for E key scheme uid fid = Ok k" "aead_new_key E k"
    using assms by (auto simp: hkdf_total_def)
  then have "\<exists>C. FileCipher_new E key scheme uid fid n = Ok C"
    by (simp add: FileCipher_new_def subkey_sealer_def Let_def)
  then show ?thesis using that by blast
qed

lemma FileCipher_new_fields:
  assumes "FileCipher_new E key scheme uid fid n = Ok C"
  shows "fc_scheme C = scheme" "fc_chunk_count C = n"
    "file_subkey_for E key scheme uid fid = Ok (fc_sealer C)"
    "scheme = V2 \<Longrightarrow> fc_aad_prefix C =
       lp_concat [CHUNK_AAD_DOMAIN_V2, [as_u8 V2], uid, fid, u64_be n]"
  using assms by (auto simp: FileCipher_new_def subkey_sealer_def Let_def split: if_splits)

text \<open>The precomputed prefix plus the index is the canonical encoding of the chunk's place.\<close>

lemma aad_for_canonical:
  assumes "FileCipher_new E key V2 uid fid n = Ok C"
  shows "aad_for C i = ChunkAad_encode \<lparr>ca_scheme = V2, ca_user_id = uid, ca_file_id = fid,
                                        ca_chunk_count = n, ca_chunk_index = i\<rparr>"
  using FileCipher_new_fields [OF assms] by (simp add: aad_for_def ChunkAad_encode_def lp_concat_def)

lemma aad_for_V1: "FileCipher_new E key V1 uid fid n = Ok C \<Longrightarrow> aad_for C i = []"
  using FileCipher_new_fields(1) by (fastforce simp: aad_for_def)

lemma lp_len_ok_small [simp]:
  "lp_len_ok CHUNK_AAD_DOMAIN_V2" "lp_len_ok FILE_SUBKEY_DOMAIN_V2" "lp_len_ok [b]"
  "lp_len_ok (be_bytes 8 w)"
  by (simp_all add: lp_len_ok_def CHUNK_AAD_DOMAIN_V2_def FILE_SUBKEY_DOMAIN_V2_def)

lemma ChunkAad_encode_inj:
  assumes "lp_len_ok (ca_user_id a)" "lp_len_ok (ca_file_id a)"
    and "lp_len_ok (ca_user_id b)" "lp_len_ok (ca_file_id b)"
  shows "ChunkAad_encode a = ChunkAad_encode b \<longleftrightarrow> a = (b :: chunk_aad)"
  using assms by (simp add: ChunkAad_encode_def lp_concat_eq_iff) (auto intro: chunk_aad.equality)

lemma seal_chunk_uniform:
  "seal_chunk E C buf i = seal_inner E (fc_sealer C) buf i (aad_for C i)"
  by (cases "fc_scheme C") (simp_all add: seal_chunk_def seal_def seal_with_aad_def aad_for_def)

lemma open_chunk_uniform:
  "fc_scheme C = V1 \<or> i < fc_chunk_count C \<Longrightarrow>
   open_chunk E C i buf = ok_or (Crypto ''open'') (aead_open E (fc_sealer C) (nonce_for i) (aad_for C i) buf)"
  by (cases "fc_scheme C") (auto simp: open_chunk_def open_inner_def open_with_aad_def aad_for_def)

lemma open_chunk_Ok:
  "open_chunk E C i buf = Ok p \<Longrightarrow>
   aead_open E (fc_sealer C) (nonce_for i) (aad_for C i) buf = Some p
   \<and> (fc_scheme C = V2 \<longrightarrow> i < fc_chunk_count C)"
  by (cases "fc_scheme C")
     (auto simp: open_chunk_def open_inner_def open_with_aad_def aad_for_def split: if_splits)

lemma open_chunk_not_Panic [simp]: "open_chunk E C i buf \<noteq> Panic"
  by (auto simp: open_chunk_def open_inner_def open_with_aad_def split: key_scheme.splits)

lemma seal_chunk_total:
  assumes "aead_correct E" "i \<le> MAX_CHUNK_INDEX"
  obtains c where "seal_chunk E C buf i = Ok (c, nonce_for i)"
    "length c = length buf + TAG_LEN"
    "aead_open E (fc_sealer C) (nonce_for i) (aad_for C i) c = Some buf"
proof -
  obtain c where "aead_seal E (fc_sealer C) (nonce_for i) (aad_for C i) buf = Some c"
    "length c = length buf + 16"
    "aead_open E (fc_sealer C) (nonce_for i) (aad_for C i) c = Some buf"
    using assms(1) unfolding aead_correct_def by blast
  then show ?thesis
    using that assms(2) by (simp add: seal_chunk_uniform seal_inner_def Let_def TAG_LEN_def not_less)
qed

lemma seal_chunk_Ok:
  assumes "seal_chunk E C buf i = Ok (c, n)" "aead_correct E"
  shows "n = nonce_for i" "i \<le> MAX_CHUNK_INDEX" "length c = length buf + TAG_LEN"
    "aead_open E (fc_sealer C) (nonce_for i) (aad_for C i) c = Some buf"
proof -
  have i: "i \<le> MAX_CHUNK_INDEX"
    using assms(1) by (auto simp: seal_chunk_uniform seal_inner_def split: if_splits)
  obtain c' where "seal_chunk E C buf i = Ok (c', nonce_for i)"
    "length c' = length buf + TAG_LEN"
    "aead_open E (fc_sealer C) (nonce_for i) (aad_for C i) c' = Some buf"
    using seal_chunk_total [OF assms(2) i] by metis
  then show "n = nonce_for i" "i \<le> MAX_CHUNK_INDEX" "length c = length buf + TAG_LEN"
    "aead_open E (fc_sealer C) (nonce_for i) (aad_for C i) c = Some buf"
    using assms(1) i by auto
qed

lemma open_seal_chunk:
  assumes "aead_correct E" "seal_chunk E C buf i = Ok (c, n)"
    and "fc_scheme C = V1 \<or> i < fc_chunk_count C"
  shows "open_chunk E C i c = Ok buf"
  using seal_chunk_Ok [OF assms(2,1)] by (simp add: open_chunk_uniform [OF assms(3)])

section \<open>Properties\<close>

text \<open>Domain separation of the v2 derivation: the HKDF info string determines the domain and
  every part, for parts of any length a buffer can have, so no two uses of the master key (another
  domain, another user, another file id) share an input.\<close>

theorem derive_v2_info_injective:
  assumes "list_all lp_len_ok (d # ps)" "list_all lp_len_ok (d' # ps')"
    and "derive_v2_info d ps = derive_v2_info d' ps'"
  shows "d = d' \<and> ps = ps'"
  using assms by (simp add: derive_v2_info_concat lp_concat_eq_iff)

theorem derive_v2_info_injective_witness:
  "list_all lp_len_ok [[1, 2], [3]] \<and> list_all lp_len_ok [[1], [2, 3]]
   \<and> derive_v2_info [1, 2] [[3]] \<noteq> derive_v2_info [1] [[2, 3]]"
  using derive_v2_info_injective [of "[1, 2]" "[[3]]" "[1]" "[[2, 3]]"] by (auto simp: lp_len_ok_def)

text \<open>Under either scheme the cipher of a file can be built, seals every chunk whose index is
  at most \<open>MAX_CHUNK_INDEX\<close> by appending exactly the tag, returns the counter nonce of that
  index, and opens the sealed chunk to the same bytes; under v2 the index must be below the
  chunk count the cipher was built for.\<close>

theorem seal_open_roundtrip:
  assumes "hkdf_total E" "aead_correct E"
    and "i \<le> MAX_CHUNK_INDEX" "scheme = V2 \<longrightarrow> i < chunk_count"
  shows "\<exists>C c. FileCipher_new E key scheme uid fid chunk_count = Ok C
     \<and> seal_chunk E C buf i = Ok (c, nonce_for i)
     \<and> length c = length buf + TAG_LEN
     \<and> open_chunk E C i c = Ok buf"
proof -
  obtain C where C: "FileCipher_new E key scheme uid fid chunk_count = Ok C"
    using FileCipher_new_total [OF assms(1)] .
  obtain c where c: "seal_chunk E C buf i = Ok (c, nonce_for i)" "length c = length buf + TAG_LEN"
    using seal_chunk_total [OF assms(2,3)] by metis
  have "open_chunk E C i c = Ok buf"
    using open_seal_chunk [OF assms(2) c(1)] FileCipher_new_fields(1,2) [OF C] assms(4)
    by (cases scheme) auto
  with C c show ?thesis by blast
qed

theorem seal_open_roundtrip_witness:
  "hkdf_total demo_env \<and> aead_correct demo_env \<and> (2 :: u64) \<le> MAX_CHUNK_INDEX \<and> (2 :: u64) < 5
   \<and> (\<exists>C c. FileCipher_new demo_env [1] V2 [2] [3] 5 = Ok C
     \<and> seal_chunk demo_env C [4, 5] 2 = Ok (c, nonce_for 2)
     \<and> length c = length [4 :: byte, 5] + TAG_LEN \<and> open_chunk demo_env C 2 c = Ok [4, 5])"
  using seal_open_roundtrip [OF demo_hkdf_total demo_aead_correct, of 2 V2 5 "[1]" "[2]" "[3]" "[4, 5]"]
  by (simp add: MAX_CHUNK_INDEX_def demo_hkdf_total demo_aead_correct)

text \<open>C7. What the v2 tag authenticates. If the AEAD opens a sealed buffer under no other
  additional data than the one it was sealed with, then a v2 chunk opens only in the place it was
  sealed for: the same owner, the same file, the same chunk count (so a truncated file is
  refused) and the same index.\<close>

theorem v2_chunk_bound_to_place:
  assumes "FileCipher_new E key V2 uid fid n = Ok C" "FileCipher_new E key' V2 uid' fid' n' = Ok C'"
    and "seal_chunk E C buf i = Ok (c, nonce)"
    and "\<forall>k nc aad p. aead_open E k nc aad c = Some p \<longrightarrow> aad = aad_for C i"
    and "list_all lp_len_ok [uid, fid, uid', fid']"
    and "open_chunk E C' j c = Ok p"
  shows "uid' = uid \<and> fid' = fid \<and> n' = n \<and> j = i \<and> j < n"
proof -
  have "aad_for C' j = aad_for C i" "j < n'"
    using open_chunk_Ok [OF assms(6)] assms(4) FileCipher_new_fields(1,2) [OF assms(2)] by auto
  then show ?thesis
    using ChunkAad_encode_inj assms(5)
    by (simp add: aad_for_canonical [OF assms(1)] aad_for_canonical [OF assms(2)])
qed

text \<open>An AEAD whose open accepts one additional data only, for the witness.\<close>

definition one_aad_env :: "int env" where
  "one_aad_env = demo_env
     \<lparr>aead_seal := (\<lambda>k n a p. Some (p @ replicate 16 0)),
      aead_open := (\<lambda>k n a c.
        if a = ChunkAad_encode \<lparr>ca_scheme = V2, ca_user_id = [2], ca_file_id = [3],
                                ca_chunk_count = 5, ca_chunk_index = 1\<rparr>
        then Some (take (length c - 16) c) else None)\<rparr>"

theorem v2_chunk_bound_to_place_witness:
  "\<exists>C c. FileCipher_new one_aad_env [1] V2 [2] [3] 5 = Ok C
     \<and> seal_chunk one_aad_env C [4] 1 = Ok (c, nonce_for 1)
     \<and> open_chunk one_aad_env C 1 c = Ok [4]
     \<and> (\<forall>C' j p. FileCipher_new one_aad_env [1] V2 [2] [3] 4 = Ok C' \<longrightarrow>
           open_chunk one_aad_env C' j c \<noteq> Ok p)"
proof -
  have "hkdf_total one_aad_env"
    using demo_hkdf_total by (simp add: hkdf_total_def one_aad_env_def)
  then obtain C where C: "FileCipher_new one_aad_env [1] V2 [2] [3] 5 = Ok C"
    using FileCipher_new_total by metis
  have a: "aad_for C 1 = ChunkAad_encode \<lparr>ca_scheme = V2, ca_user_id = [2], ca_file_id = [3],
                                ca_chunk_count = 5, ca_chunk_index = 1\<rparr>"
    by (rule aad_for_canonical [OF C])
  have s: "seal_chunk one_aad_env C [4] 1 = Ok (4 # replicate 16 0, nonce_for 1)"
    by (simp add: seal_chunk_uniform seal_inner_def one_aad_env_def MAX_CHUNK_INDEX_def Let_def)
  have o: "open_chunk one_aad_env C 1 (4 # replicate 16 0) = Ok [4]"
    using FileCipher_new_fields(1,2) [OF C]
    by (subst open_chunk_uniform) (simp_all add: a, simp add: one_aad_env_def)
  have "open_chunk one_aad_env C' j (4 # replicate 16 0) \<noteq> Ok p"
    if "FileCipher_new one_aad_env [1] V2 [2] [3] 4 = Ok C'" for C' j p
  proof
    assume q: "open_chunk one_aad_env C' j (4 # replicate 16 0) = Ok p"
    have b: "\<forall>k nc aad p. aead_open one_aad_env k nc aad (4 # replicate 16 0) = Some p
               \<longrightarrow> aad = aad_for C 1"
      unfolding a one_aad_env_def by (simp split: if_splits)
    have "list_all lp_len_ok [[2], [3], [2], [3]]" by simp
    from v2_chunk_bound_to_place [OF C that s b this q] have "(4 :: u64) = 5" by blast
    then show False by simp
  qed
  with C s o show ?thesis by blast
qed

end
