(* ===== verification/Erasure.thy ===== *)
theory Erasure
  imports Chunker
begin

text \<open>
  \<open>core/src/erasure.rs\<close>: striping a sealed chunk into ten data shards, the four Reed-Solomon
  recovery shards, and reconstruction from the surviving shards. The Reed-Solomon codec itself is
  third-party (\<open>rs_encode\<close>, \<open>rs_decode\<close>); out-of-range slices and \<open>copy_from_slice\<close> of
  different lengths are panics.
\<close>

definition DATA_SHARDS :: nat where
  "DATA_SHARDS = 10"

definition PARITY_SHARDS :: nat where
  "PARITY_SHARDS = 4"

definition TOTAL_SHARDS :: nat where
  "TOTAL_SHARDS = DATA_SHARDS + PARITY_SHARDS"

definition STORAGE_BLOCK_SIZE :: nat where
  "STORAGE_BLOCK_SIZE = 4096"

lemmas shard_consts [const_simps] = DATA_SHARDS_def PARITY_SHARDS_def TOTAL_SHARDS_def

definition shard_len :: "nat \<Rightarrow> nat" where
  "shard_len cipher_len =
     (let per = max (div_ceil cipher_len DATA_SHARDS) 64 in div_ceil per 64 * 64)"

definition shard_disk_cost :: "nat \<Rightarrow> nat" where
  "shard_disk_cost len = div_ceil len STORAGE_BLOCK_SIZE * STORAGE_BLOCK_SIZE"

definition data_shards :: "bytes \<Rightarrow> (bytes list \<times> nat, core_error) result" where
  "data_shards cipher =
     (let sl = shard_len (length cipher)
      in if sl * DATA_SHARDS < length cipher then Panic
         else Ok (chunks sl (cipher @ replicate (sl * DATA_SHARDS - length cipher) 0), sl))"

definition rs_error :: "('a, string) result \<Rightarrow> ('a, core_error) result" where
  "rs_error r = map_err Erasure r"

definition recovery_originals :: "bytes \<Rightarrow> bytes list" where
  "recovery_originals cipher =
     (let sl = shard_len (length cipher);
          full = length cipher div sl;
          rem = length cipher - full * sl;
          zero = replicate sl 0;
          partial = (if rem > 0 then drop (full * sl) cipher @ replicate (sl - rem) 0
                     else replicate sl 0)
      in map (\<lambda>i. if i < full then take sl (drop (i * sl) cipher)
                  else if i = full \<and> rem > 0 then partial
                  else zero) [0..<DATA_SHARDS])"

definition encode_recovery :: "'f env \<Rightarrow> bytes \<Rightarrow> (nat \<times> bytes list, core_error) result" where
  "encode_recovery E cipher =
     rbind (rs_error (rs_encode E DATA_SHARDS PARITY_SHARDS (recovery_originals cipher)))
       (\<lambda>recovery. Ok (shard_len (length cipher), recovery))"

definition data_shard :: "bytes \<Rightarrow> nat \<Rightarrow> nat \<Rightarrow> bytes option" where
  "data_shard cipher sl i =
     (let start = i * sl
      in if start \<ge> length cipher then None
         else Some (take (min ((i + 1) * sl) (length cipher) - start) (drop start cipher)))"

definition encode :: "'f env \<Rightarrow> bytes \<Rightarrow> (bytes list, core_error) result" where
  "encode E cipher =
     rbind (data_shards cipher)
       (\<lambda>(shards, sl).
          rbind (rs_error (rs_encode E DATA_SHARDS PARITY_SHARDS shards))
            (\<lambda>recovery. Ok (shards @ recovery)))"

text \<open>\<open>iter().enumerate().filter_map(...)\<close>: the positions that hold a shard.\<close>

definition held_shards :: "bytes option list \<Rightarrow> (nat \<times> bytes) list" where
  "held_shards ps =
     List.map_filter (\<lambda>(i, s). map_option (Pair i) s) (List.enumerate 0 ps)"

definition reconstruct :: "'f env \<Rightarrow> bytes option list \<Rightarrow> nat \<Rightarrow> (bytes, core_error) result" where
  "reconstruct E present cipher_len =
     (if list_all (\<lambda>s. s \<noteq> None) (take DATA_SHARDS present)
      then Ok (take cipher_len (concat (map the (take DATA_SHARDS present))))
      else
        rbind (rs_error (rs_decode E DATA_SHARDS PARITY_SHARDS
                 (held_shards (take DATA_SHARDS present)) (held_shards (drop DATA_SHARDS present))))
          (\<lambda>restored.
        rbind (ok_or (Erasure ''no shards'')
                 (case List.map_filter id present of [] \<Rightarrow> None | v # _ \<Rightarrow> Some (length v)))
          (\<lambda>sl.
        rbind (rmapM (\<lambda>i.
                 if length present \<le> i then Panic
                 else
                   rbind (ok_or (Erasure ''missing data shard after decode'')
                            (case present ! i of Some s \<Rightarrow> Some s | None \<Rightarrow> restored i))
                     (\<lambda>shard. if length shard = sl then Ok shard else Panic))
                 [0..<DATA_SHARDS])
          (\<lambda>out. Ok (take cipher_len (concat out))))))"

section \<open>Shard geometry\<close>

lemma shard_len_bounds:
  "64 \<le> shard_len n" "shard_len n mod 64 = 0" "n \<le> shard_len n * DATA_SHARDS"
proof -
  let ?per = "max (div_ceil n 10) 64"
  have p: "?per \<le> shard_len n"
    unfolding shard_len_def Let_def DATA_SHARDS_def using div_ceil_ge [of 64 ?per] by simp
  then show "64 \<le> shard_len n" by simp
  show "shard_len n mod 64 = 0" by (simp add: shard_len_def Let_def)
  have "n \<le> div_ceil n 10 * 10" using div_ceil_ge [of 10 n] by simp
  also have "\<dots> \<le> shard_len n * 10" using p by simp
  finally show "n \<le> shard_len n * DATA_SHARDS" by (simp add: DATA_SHARDS_def)
qed

lemma shard_len_pos [simp]: "0 < shard_len n"
  using shard_len_bounds(1) [of n] by linarith

lemma shard_len_upper: "shard_len n * DATA_SHARDS < n + 10 * 64 + 10 \<or> shard_len n = 64"
proof (cases "64 < div_ceil n 10")
  case True
  then have "shard_len n < div_ceil n 10 + 64"
    using div_ceil_less [of 64 "div_ceil n 10"] by (simp add: shard_len_def Let_def DATA_SHARDS_def max_def)
  then show ?thesis using div_ceil_less [of 10 n] by (simp add: DATA_SHARDS_def)
next
  case False
  then have "shard_len n = 64"
    by (simp add: shard_len_def Let_def DATA_SHARDS_def max_def div_ceil_def)
  then show ?thesis by blast
qed

definition data_shard_list :: "bytes \<Rightarrow> bytes list" where
  "data_shard_list cipher =
     chunks (shard_len (length cipher)) (pad_zero (shard_len (length cipher) * DATA_SHARDS) cipher)"

lemma data_shards_Ok: "data_shards cipher = Ok (data_shard_list cipher, shard_len (length cipher))"
  using shard_len_bounds(3) [of "length cipher"]
  by (simp add: data_shards_def data_shard_list_def pad_zero_def Let_def not_less)

lemma length_data_shard_list [simp]: "length (data_shard_list cipher) = DATA_SHARDS"
  using shard_len_bounds(3) [of "length cipher"]
  by (simp add: data_shard_list_def length_chunks div_ceil_def)

lemma concat_data_shard_list:
  "concat (data_shard_list cipher) = pad_zero (shard_len (length cipher) * DATA_SHARDS) cipher"
  by (simp add: data_shard_list_def concat_chunks)

lemma nth_data_shard_list:
  "i < DATA_SHARDS \<Longrightarrow> data_shard_list cipher ! i =
     take (shard_len (length cipher))
       (drop (i * shard_len (length cipher)) (pad_zero (shard_len (length cipher) * DATA_SHARDS) cipher))"
  using length_data_shard_list [of cipher]
  by (simp add: data_shard_list_def nth_chunks)

lemma length_nth_data_shard_list:
  assumes "i < DATA_SHARDS"
  shows "length (data_shard_list cipher ! i) = shard_len (length cipher)"
proof -
  let ?sl = "shard_len (length cipher)"
  have "(i + 1) * ?sl \<le> DATA_SHARDS * ?sl" using assms by (intro mult_right_mono) auto
  then have "i * ?sl + ?sl \<le> ?sl * DATA_SHARDS" by (simp add: algebra_simps)
  then show ?thesis
    using assms shard_len_bounds(3) [of "length cipher"] by (simp add: nth_data_shard_list)
qed

lemma data_shard_list_uniform:
  "s \<in> set (data_shard_list cipher) \<Longrightarrow> length s = shard_len (length cipher)"
  by (metis in_set_conv_nth length_data_shard_list length_nth_data_shard_list)

text \<open>The borrowed slice of the hot path, padded to the shard length, is the materialised shard.\<close>

lemma data_shard_pad:
  assumes "i < DATA_SHARDS"
  shows "pad_zero (shard_len (length cipher))
           (case data_shard cipher (shard_len (length cipher)) i of None \<Rightarrow> [] | Some s \<Rightarrow> s)
         = data_shard_list cipher ! i"
proof -
  let ?sl = "shard_len (length cipher)" and ?d = "drop (i * shard_len (length cipher)) cipher"
  have le: "i * ?sl + ?sl \<le> ?sl * DATA_SHARDS"
  proof -
    have "(i + 1) * ?sl \<le> DATA_SHARDS * ?sl" using assms by (intro mult_right_mono) auto
    then show ?thesis by (simp add: algebra_simps)
  qed
  have s: "(case data_shard cipher ?sl i of None \<Rightarrow> [] | Some s \<Rightarrow> s) = take ?sl ?d"
    by (auto simp: data_shard_def Let_def min_def)
  have "data_shard_list cipher ! i
        = take ?sl (?d @ drop (i * ?sl - length cipher) (replicate (?sl * DATA_SHARDS - length cipher) 0))"
    using assms by (simp add: nth_data_shard_list pad_zero_def)
  also have "\<dots> = take ?sl ?d @ replicate (?sl - length ?d) 0"
    using le by (auto simp: min_def)
  finally show ?thesis unfolding s by (auto simp: pad_zero_def min_def)
qed

lemma recovery_originals_eq: "recovery_originals cipher = data_shard_list cipher"
proof (rule nth_equalityI)
  let ?n = "length cipher" and ?sl = "shard_len (length cipher)"
  let ?full = "?n div ?sl"
  fix i assume "i < length (recovery_originals cipher)"
  then have i: "i < DATA_SHARDS" by (simp add: recovery_originals_def Let_def)
  have n: "?full * ?sl + ?n mod ?sl = ?n" by simp
  have rem: "?n - ?full * ?sl = ?n mod ?sl" "?n mod ?sl < ?sl"
    by (metis minus_div_mult_eq_mod) simp
  have s: "pad_zero ?sl (take ?sl (drop (i * ?sl) cipher)) = data_shard_list cipher ! i"
    using data_shard_pad [OF i, of cipher] by (auto simp: data_shard_def Let_def min_def split: if_splits)
  consider (full) "i < ?full" | (partial) "i = ?full" | (zero) "?full < i" by linarith
  then show "recovery_originals cipher ! i = data_shard_list cipher ! i"
  proof cases
    case full
    have "(i + 1) * ?sl \<le> ?full * ?sl" using full by (intro mult_right_mono) auto
    also have "\<dots> \<le> ?n" by simp
    finally have "i * ?sl + ?sl \<le> ?n" by (simp add: algebra_simps)
    then show ?thesis using i full s by (simp add: recovery_originals_def Let_def pad_zero_def)
  next
    case partial
    have "length (drop (?full * ?sl) cipher) = ?n mod ?sl" using rem(1) by simp
    then have "length (drop (?full * ?sl) cipher) \<le> ?sl" using rem(2) by linarith
    then show ?thesis
      using i partial s rem by (auto simp: recovery_originals_def Let_def pad_zero_def)
  next
    case zero
    have "(?full + 1) * ?sl \<le> i * ?sl" using zero by (intro mult_right_mono) auto
    then have "?full * ?sl + ?sl \<le> i * ?sl" by (simp only: add_mult_distrib mult_1)
    then have "?n \<le> i * ?sl" using n rem(2) by linarith
    then show ?thesis using i zero s by (simp add: recovery_originals_def Let_def pad_zero_def)
  qed
qed (simp add: recovery_originals_def Let_def)

section \<open>Reconstruction\<close>

text \<open>What a reader holds: shard \<open>i\<close> for every \<open>i\<close> in \<open>S\<close>.\<close>

definition present_at :: "nat set \<Rightarrow> bytes list \<Rightarrow> bytes option list" where
  "present_at S shards = map (\<lambda>i. if i \<in> S then Some (shards ! i) else None) [0..<length shards]"

lemma length_present_at [simp]: "length (present_at S shards) = length shards"
  by (simp add: present_at_def)

lemma nth_present_at [simp]:
  "i < length shards \<Longrightarrow> present_at S shards ! i = (if i \<in> S then Some (shards ! i) else None)"
  by (simp add: present_at_def)

lemma held_shards_map:
  "held_shards (map (\<lambda>i. if P i then Some (f i) else None) [0..<n])
   = map (\<lambda>i. (i, f i)) (filter P [0..<n])"
proof -
  have "List.map_filter (\<lambda>(i, s). map_option (Pair i) s)
          (List.enumerate 0 (map (\<lambda>i. if P i then Some (f i) else None) [0..<n]))
        = List.map_filter (\<lambda>i. if P i then Some (i, f i) else None) [0..<n]"
    by (simp add: List.map_filter_def enumerate_map_upt filter_map o_def if_distrib cong: if_cong)
  then show ?thesis
    unfolding held_shards_def by (simp add: List.map_filter_def)
qed

lemma present_at_split:
  assumes "length xs = k"
  shows "take k (present_at S (xs @ ys)) = map (\<lambda>i. if i \<in> S then Some (xs ! i) else None) [0..<k]"
    "drop k (present_at S (xs @ ys))
     = map (\<lambda>i. if k + i \<in> S then Some (ys ! i) else None) [0..<length ys]"
  using assms by (auto intro!: nth_equalityI simp: nth_append present_at_def)

lemma held_present_at:
  assumes "length xs = k"
  shows "held_shards (take k (present_at S (xs @ ys))) = shards_at S 0 xs"
    "held_shards (drop k (present_at S (xs @ ys))) = shards_at S k ys"
  using assms by (simp_all add: present_at_split held_shards_map shards_at_def)

lemma first_held_length:
  assumes "\<And>s. s \<in> set shards \<Longrightarrow> length s = sl" "i \<in> S" "i < length shards"
  shows "(case List.map_filter id (present_at S shards) of [] \<Rightarrow> None | v # _ \<Rightarrow> Some (length v))
         = Some sl"
proof -
  have all: "length v = sl" if "v \<in> set (List.map_filter id (present_at S shards))" for v
    using that assms(1) by (auto simp: List.map_filter_def present_at_def split: if_splits)
  have "Some (shards ! i) \<in> set (present_at S shards)"
    using assms(2,3) by (force simp: present_at_def)
  then have "shards ! i \<in> set (List.map_filter id (present_at S shards))"
    by (force simp: List.map_filter_def)
  then show ?thesis using all by (auto split: list.splits)
qed

lemma reconstruct_present_at:
  assumes rs: "rs_recovers E DATA_SHARDS PARITY_SHARDS (data_shard_list cipher) rec"
    and S: "S \<subseteq> {..<TOTAL_SHARDS}" "DATA_SHARDS \<le> card S"
  shows "reconstruct E (present_at S (data_shard_list cipher @ rec)) (length cipher) = Ok cipher"
proof -
  let ?xs = "data_shard_list cipher" and ?sl = "shard_len (length cipher)"
  let ?p = "present_at S (?xs @ rec)"
  have len: "length ?xs = DATA_SHARDS" by simp
  have out: "take (length cipher) (concat ?xs) = cipher" by (simp add: concat_data_shard_list)
  have rec: "length rec = PARITY_SHARDS" "\<And>r. r \<in> set rec \<Longrightarrow> length r = ?sl"
  proof -
    show "length rec = PARITY_SHARDS" using rs by (simp add: rs_recovers_def)
    have "?xs ! 0 \<in> set ?xs" using len by (simp add: DATA_SHARDS_def)
    then show "length r = ?sl" if "r \<in> set rec" for r
      using rs that data_shard_list_uniform by (fastforce simp: rs_recovers_def)
  qed
  show ?thesis
  proof (cases "list_all (\<lambda>s. s \<noteq> None) (take DATA_SHARDS ?p)")
    case True
    then have "i \<in> S" if "i < DATA_SHARDS" for i
      using that len unfolding present_at_split(1) [OF len]
      by (fastforce simp: list_all_iff split: if_splits)
    then have "map the (take DATA_SHARDS ?p) = ?xs"
      using len by (simp add: present_at_split(1)) (auto intro!: nth_equalityI)
    then show ?thesis using True out by (simp add: reconstruct_def)
  next
    case False
    obtain restored where d: "rs_decode E DATA_SHARDS PARITY_SHARDS (shards_at S 0 ?xs)
        (shards_at S DATA_SHARDS rec) = Ok restored"
      and r: "\<And>i. i < DATA_SHARDS \<Longrightarrow> i \<notin> S \<Longrightarrow> restored i = Some (?xs ! i)"
      using rs S unfolding rs_recovers_def TOTAL_SHARDS_def by blast
    have "S \<noteq> {}" using S(2) by (auto simp: DATA_SHARDS_def)
    then obtain i where i: "i \<in> S" "i < length (?xs @ rec)"
      using S(1) rec(1) by (auto simp: TOTAL_SHARDS_def)
    have sl: "(case List.map_filter id ?p of [] \<Rightarrow> None | v # _ \<Rightarrow> Some (length v)) = Some ?sl"
      by (rule first_held_length [OF _ i]) (auto simp: data_shard_list_uniform rec(2))
    have "rmapM (\<lambda>i. if length ?p \<le> i then Panic
            else rbind (ok_or (Erasure ''missing data shard after decode'')
                          (case ?p ! i of Some s \<Rightarrow> Some s | None \<Rightarrow> restored i))
                   (\<lambda>shard. if length shard = ?sl then Ok shard else Panic)) [0..<DATA_SHARDS]
          = Ok (map (\<lambda>i. ?xs ! i) [0..<DATA_SHARDS])"
      by (rule rmapM_map_Ok) (auto simp: nth_append r length_nth_data_shard_list)
    moreover have "map (\<lambda>i. ?xs ! i) [0..<DATA_SHARDS] = ?xs"
      by (metis len map_nth)
    ultimately show ?thesis
      using False out by (simp add: reconstruct_def held_present_at [OF len] d sl rs_error_def)
  qed
qed

lemma data_shard_list_replicate:
  "data_shard_list (replicate 640 b) = replicate DATA_SHARDS (replicate 64 b)"
proof (rule nth_equalityI)
  have sl: "shard_len 640 = 64"
    by (simp add: shard_len_def DATA_SHARDS_def div_ceil_def Let_def)
  fix i assume "i < length (data_shard_list (replicate 640 b))"
  then have "i < 10" by (simp add: DATA_SHARDS_def)
  then show "data_shard_list (replicate 640 b) ! i = replicate DATA_SHARDS (replicate 64 b) ! i"
    by (simp add: nth_data_shard_list pad_zero_def sl DATA_SHARDS_def min_def)
qed simp

lemma reconstruct_subset:
  assumes "encode E cipher = Ok shards"
    and "rs_recovers E DATA_SHARDS PARITY_SHARDS (take DATA_SHARDS shards) (drop DATA_SHARDS shards)"
    and "S \<subseteq> {..<TOTAL_SHARDS}" "DATA_SHARDS \<le> card S"
  shows "length shards = TOTAL_SHARDS
    \<and> reconstruct E (map (\<lambda>i. if i \<in> S then Some (shards ! i) else None) [0..<TOTAL_SHARDS])
        (length cipher) = Ok cipher"
proof -
  obtain rec where s: "shards = data_shard_list cipher @ rec"
    using assms(1) by (auto simp: encode_def data_shards_Ok)
  then have rs: "rs_recovers E DATA_SHARDS PARITY_SHARDS (data_shard_list cipher) rec"
    using assms(2) by simp
  then have "length shards = TOTAL_SHARDS"
    using s by (simp add: rs_recovers_def TOTAL_SHARDS_def)
  then show ?thesis
    using reconstruct_present_at [OF rs assms(3,4)] unfolding present_at_def s by simp
qed

lemma demo_encoded:
  fixes cipher :: bytes and s :: "bytes list"
  defines "cipher \<equiv> replicate 640 7"
  defines "s \<equiv> replicate DATA_SHARDS (replicate 64 7) @ replicate PARITY_SHARDS (replicate 64 7)"
  shows "encode demo_env cipher = Ok s" "length cipher = 640"
    "rs_recovers demo_env DATA_SHARDS PARITY_SHARDS (take DATA_SHARDS s) (drop DATA_SHARDS s)"
    "{4..<14} \<subseteq> {..<TOTAL_SHARDS}" "DATA_SHARDS \<le> card {4..<14 :: nat}"
proof -
  show "encode demo_env cipher = Ok s"
    by (simp add: cipher_def s_def encode_def data_shards_Ok data_shard_list_replicate rs_error_def demo_env_def
        DATA_SHARDS_def)
  show "rs_recovers demo_env DATA_SHARDS PARITY_SHARDS (take DATA_SHARDS s) (drop DATA_SHARDS s)"
    by (simp add: s_def demo_rs_recovers DATA_SHARDS_def PARITY_SHARDS_def)
qed (auto simp: cipher_def shard_consts)

section \<open>Properties\<close>

text \<open>C31. The zero-copy encoder of the upload path produces the same shards as the materialising
  one: the borrowed slices of the sealed buffer, zero-padded to the shard length it returns,
  followed by its recovery shards, are exactly the result of \<open>encode\<close>, and the two fail alike.\<close>

theorem encode_recovery_equiv:
  "encode E cipher =
     rbind (encode_recovery E cipher)
       (\<lambda>(sl, recovery).
          Ok (map (\<lambda>i. pad_zero sl (case data_shard cipher sl i of None \<Rightarrow> [] | Some s \<Rightarrow> s))
                [0..<DATA_SHARDS] @ recovery))"
proof -
  have "map (\<lambda>i. pad_zero (shard_len (length cipher))
          (case data_shard cipher (shard_len (length cipher)) i of None \<Rightarrow> [] | Some s \<Rightarrow> s))
          [0..<DATA_SHARDS] = data_shard_list cipher"
    by (intro nth_equalityI) (simp_all add: data_shard_pad)
  then show ?thesis
    by (cases "rs_encode E DATA_SHARDS PARITY_SHARDS (data_shard_list cipher)")
       (simp_all add: encode_def encode_recovery_def recovery_originals_eq data_shards_Ok rs_error_def)
qed

text \<open>C29. Any ten of the fourteen shards rebuild the sealed buffer, byte for byte and without the
  padding, whichever four are missing: the fast path when the data shards are all held and the
  decoding path otherwise. The hypothesis is the Reed-Solomon law for this buffer's data shards.\<close>

theorem reconstruct_any_ten:
  assumes "encode E cipher = Ok shards"
    and "rs_recovers E DATA_SHARDS PARITY_SHARDS (take DATA_SHARDS shards) (drop DATA_SHARDS shards)"
    and "S \<subseteq> {..<TOTAL_SHARDS}" "DATA_SHARDS \<le> card S"
  shows "length shards = TOTAL_SHARDS
    \<and> reconstruct E (map (\<lambda>i. if i \<in> S then Some (shards ! i) else None) [0..<TOTAL_SHARDS])
        (length cipher) = Ok cipher"
  by (rule reconstruct_subset [OF assms])

theorem reconstruct_any_ten_witness:
  "\<exists>shards. encode demo_env (replicate 640 7) = Ok shards
     \<and> reconstruct demo_env
         (map (\<lambda>i. if i \<in> {4..<14} then Some (shards ! i) else None) [0..<TOTAL_SHARDS]) 640
       = Ok (replicate 640 7)"
  using reconstruct_any_ten [OF demo_encoded(1,3,4,5)] demo_encoded(1,2) by auto

text \<open>Shard geometry: every shard has the length the codec requires (a positive multiple of
  64), ten of them hold the sealed buffer, the padding is less than 650 bytes except for the
  minimum shard of 64 bytes, and the accounted disk cost of a shard is the least multiple of the
  block size that holds it.\<close>

theorem shard_geometry:
  "0 < shard_len n \<and> shard_len n mod 64 = 0 \<and> n \<le> shard_len n * DATA_SHARDS
   \<and> (shard_len n * DATA_SHARDS < n + 650 \<or> shard_len n = 64)
   \<and> shard_disk_cost m mod STORAGE_BLOCK_SIZE = 0
   \<and> m \<le> shard_disk_cost m \<and> shard_disk_cost m < m + STORAGE_BLOCK_SIZE"
  using shard_len_bounds [of n] shard_len_upper [of n] div_ceil_bounds [of STORAGE_BLOCK_SIZE m]
  by (auto simp: shard_disk_cost_def STORAGE_BLOCK_SIZE_def)

end
