(* ===== verification/Pipeline.thy ===== *)
theory Pipeline
  imports Crypto Erasure
begin

text \<open>
  \<open>core/src/pipeline.rs\<close>: compress, seal and erasure-encode every chunk of a file. The worker
  threads share only read-only data, so the parallel map is modelled as the sequential one; with
  several failing chunks the error returned is that of the first.
\<close>

record 'f pipeline_config =
  chunk_size :: nat
  entropy_skip :: 'f
  zstd_level :: int

definition PipelineConfig_default :: "'f env \<Rightarrow> 'f pipeline_config" where
  "PipelineConfig_default E =
     \<lparr>chunk_size = DEFAULT_CHUNK_SIZE, entropy_skip = DEFAULT_ENTROPY_SKIP E,
      zstd_level = FAST_ZSTD_LEVEL\<rparr>"

record processed_chunk =
  pc_index :: nat
  pc_nonce :: bytes
  pc_is_compressed :: bool
  pc_plaintext_len :: nat
  pc_cipher :: bytes
  pc_shard_len :: nat
  pc_recovery :: "bytes list"

definition chunk_count_for :: "nat \<Rightarrow> nat \<Rightarrow> (u64, core_error) result" where
  "chunk_count_for len sz =
     (if sz = 0 then Err (Crypto ''chunk size must be non-zero'')
      else Ok (word_of_nat (div_ceil len sz)))"

definition process_chunk :: "'f env \<Rightarrow> file_cipher \<Rightarrow> 'f pipeline_config \<Rightarrow> nat \<times> bytes
    \<Rightarrow> (processed_chunk, core_error) result" where
  "process_chunk E cipher cfg ic =
     (let (index, chunk) = ic;
          (buf, is_compressed) = maybe_compress E chunk (entropy_skip cfg) (zstd_level cfg)
      in rbind (seal_chunk E cipher buf (word_of_nat index)) (\<lambda>(sealed, nonce).
         rbind (encode_recovery E sealed) (\<lambda>(len, recovery).
         Ok \<lparr>pc_index = index, pc_nonce = nonce, pc_is_compressed = is_compressed,
             pc_plaintext_len = length chunk, pc_cipher = sealed, pc_shard_len = len,
             pc_recovery = recovery\<rparr>)))"

definition process_with_scheme :: "'f env \<Rightarrow> bytes \<Rightarrow> data_key \<Rightarrow> key_scheme \<Rightarrow> bytes \<Rightarrow> bytes
    \<Rightarrow> 'f pipeline_config \<Rightarrow> (processed_chunk list, core_error) result" where
  "process_with_scheme E data key scheme user_id file_id cfg =
     rbind (chunk_count_for (length data) (chunk_size cfg)) (\<lambda>chunk_count.
     rbind (FileCipher_new E key scheme user_id file_id chunk_count) (\<lambda>cipher.
     rmapM (process_chunk E cipher cfg) (List.enumerate 0 (chunks (chunk_size cfg) data))))"

definition process :: "'f env \<Rightarrow> bytes \<Rightarrow> data_key \<Rightarrow> bytes \<Rightarrow> 'f pipeline_config
    \<Rightarrow> (processed_chunk list, core_error) result" where
  "process E data key file_id cfg = process_with_scheme E data key V1 [] file_id cfg"

definition process_v2 :: "'f env \<Rightarrow> bytes \<Rightarrow> data_key \<Rightarrow> bytes \<Rightarrow> bytes \<Rightarrow> 'f pipeline_config
    \<Rightarrow> (processed_chunk list, core_error) result" where
  "process_v2 E data key user_id file_id cfg = process_with_scheme E data key V2 user_id file_id cfg"

section \<open>One chunk\<close>

lemma process_chunk_Ok:
  assumes "process_chunk E C cfg (i, chunk) = Ok p"
  obtains buf where
    "maybe_compress E chunk (entropy_skip cfg) (zstd_level cfg) = (buf, pc_is_compressed p)"
    "seal_chunk E C buf (word_of_nat i) = Ok (pc_cipher p, pc_nonce p)"
    "rs_encode E DATA_SHARDS PARITY_SHARDS (data_shard_list (pc_cipher p)) = Ok (pc_recovery p)"
    "pc_index p = i" "pc_plaintext_len p = length chunk"
    "pc_shard_len p = shard_len (length (pc_cipher p))"
  using assms
  by (auto simp: process_chunk_def encode_recovery_def recovery_originals_eq rs_error_def
      split: prod.splits)

text \<open>Reading one chunk back: open it, then undo the compression.\<close>

definition unprocess_chunk :: "'f env \<Rightarrow> file_cipher \<Rightarrow> nat \<Rightarrow> bytes \<Rightarrow> bool
    \<Rightarrow> (bytes, core_error) result" where
  "unprocess_chunk E C i cipher is_compressed =
     rbind (open_chunk E C (word_of_nat i) cipher)
       (\<lambda>buf. map_err Io (restore E buf is_compressed))"

lemma unprocess_process_chunk:
  assumes "aead_correct E" "zstd_lossless E"
    and "process_chunk E C cfg (i, chunk) = Ok p"
    and "fc_scheme C = V1 \<or> (word_of_nat i :: u64) < fc_chunk_count C"
  shows "unprocess_chunk E C i (pc_cipher p) (pc_is_compressed p) = Ok chunk"
proof -
  from assms(3) obtain buf where
    b: "maybe_compress E chunk (entropy_skip cfg) (zstd_level cfg) = (buf, pc_is_compressed p)"
       "seal_chunk E C buf (word_of_nat i) = Ok (pc_cipher p, pc_nonce p)"
    by (rule process_chunk_Ok)
  have "open_chunk E C (word_of_nat i) (pc_cipher p) = Ok buf"
    by (rule open_seal_chunk [OF assms(1) b(2) assms(4)])
  then show ?thesis
    using restore_maybe_compress [OF assms(2) b(1)] by (simp add: unprocess_chunk_def)
qed

lemma process_chunk_place:
  assumes "process_chunk E C cfg (i, chunk) = Ok p"
  shows "pc_index p = i \<and> pc_plaintext_len p = length chunk"
  using assms by (rule process_chunk_Ok) simp

lemma process_chunk_sizes:
  assumes "aead_correct E" "process_chunk E C cfg (i, chunk) = Ok p"
  shows "length (pc_cipher p) \<le> length chunk + TAG_LEN" "TAG_LEN \<le> length (pc_cipher p)"
    "pc_nonce p = nonce_for (word_of_nat i)" "(word_of_nat i :: u64) \<le> MAX_CHUNK_INDEX"
proof -
  from assms(2) obtain buf where
    b: "maybe_compress E chunk (entropy_skip cfg) (zstd_level cfg) = (buf, pc_is_compressed p)"
       "seal_chunk E C buf (word_of_nat i) = Ok (pc_cipher p, pc_nonce p)"
    by (rule process_chunk_Ok)
  from seal_chunk_Ok [OF b(2) assms(1)] maybe_compress_length [OF b(1)]
  show "length (pc_cipher p) \<le> length chunk + TAG_LEN" "TAG_LEN \<le> length (pc_cipher p)"
    "pc_nonce p = nonce_for (word_of_nat i)" "(word_of_nat i :: u64) \<le> MAX_CHUNK_INDEX"
    by auto
qed

section \<open>A whole file\<close>

lemma process_with_scheme_Ok:
  assumes "process_with_scheme E data key scheme uid fid cfg = Ok ps"
  obtains C where "0 < chunk_size cfg"
    "FileCipher_new E key scheme uid fid (word_of_nat (div_ceil (length data) (chunk_size cfg))) = Ok C"
    "length ps = div_ceil (length data) (chunk_size cfg)"
    "\<forall>i < length ps. process_chunk E C cfg (i, chunks (chunk_size cfg) data ! i) = Ok (ps ! i)"
  using assms
  by (auto simp: process_with_scheme_def chunk_count_for_def rmapM_Ok_iff length_chunks
      nth_enumerate_eq split: if_splits)

text \<open>A chunk index as \<open>u64\<close>, for files of at most \<open>2 ^ 32\<close> chunks.\<close>

lemma chunk_index_u64:
  assumes "i < n" "n \<le> 2 ^ 32"
  shows "(word_of_nat i :: u64) < word_of_nat n" "(word_of_nat i :: u64) \<le> MAX_CHUNK_INDEX"
    "unat (word_of_nat i :: u64) = i"
proof -
  have u: "unat (word_of_nat k :: u64) = k" if "k \<le> 2 ^ 32" for k
    using that by (simp add: unat_of_nat)
  show "(word_of_nat i :: u64) < word_of_nat n" using assms u by (simp add: word_less_nat_alt)
  have "unat MAX_CHUNK_INDEX = 2 ^ 32 - 1" by (simp add: MAX_CHUNK_INDEX_def)
  then show "(word_of_nat i :: u64) \<le> MAX_CHUNK_INDEX" using assms u by (simp add: word_le_nat_alt)
  show "unat (word_of_nat i :: u64) = i" using assms u by simp
qed

lemma process_total:
  assumes "hkdf_total E" "aead_correct E" "0 < chunk_size cfg"
    and "div_ceil (length data) (chunk_size cfg) \<le> 2 ^ 32"
    and "\<And>c. TAG_LEN \<le> length c \<Longrightarrow> length c \<le> chunk_size cfg + TAG_LEN \<Longrightarrow>
           \<exists>rec. rs_encode E DATA_SHARDS PARITY_SHARDS (data_shard_list c) = Ok rec"
  shows "\<exists>ps. process_with_scheme E data key scheme uid fid cfg = Ok ps"
proof -
  let ?n = "div_ceil (length data) (chunk_size cfg)"
  obtain C where C: "FileCipher_new E key scheme uid fid (word_of_nat ?n) = Ok C"
    using FileCipher_new_total [OF assms(1)] .
  have "\<exists>p. process_chunk E C cfg ic = Ok p"
    if ic: "ic \<in> set (List.enumerate 0 (chunks (chunk_size cfg) data))" for ic
  proof -
    obtain i c where i: "ic = (i, c)" by (cases ic)
    have n: "i < ?n" using ic i assms(3) by (auto simp: in_set_enumerate_eq length_chunks)
    have c: "c \<in> set (chunks (chunk_size cfg) data)" using ic i by (auto simp: in_set_enumerate_eq)
    obtain buf z where b: "maybe_compress E c (entropy_skip cfg) (zstd_level cfg) = (buf, z)"
      by fastforce
    have idx: "(word_of_nat i :: u64) \<le> MAX_CHUNK_INDEX"
      using chunk_index_u64(2) [OF n assms(4)] .
    obtain s where s: "seal_chunk E C buf (word_of_nat i) = Ok (s, nonce_for (word_of_nat i))"
      "length s = length buf + TAG_LEN"
      using seal_chunk_total [OF assms(2) idx] by metis
    have "length s \<le> chunk_size cfg + TAG_LEN"
      using s(2) maybe_compress_length [OF b] chunks_lengths [OF assms(3) c] by linarith
    with assms(5) [of s] s(2) obtain rec
      where "rs_encode E DATA_SHARDS PARITY_SHARDS (data_shard_list s) = Ok rec" by auto
    then show ?thesis
      using i b s by (simp add: process_chunk_def encode_recovery_def recovery_originals_eq rs_error_def)
  qed
  then have "\<exists>ps. rmapM (process_chunk E C cfg) (List.enumerate 0 (chunks (chunk_size cfg) data)) = Ok ps"
    by (rule rmapM_all_Ok)
  then show ?thesis
    using C assms(3) by (simp add: process_with_scheme_def chunk_count_for_def)
qed

lemma process_nonces_distinct:
  assumes "aead_correct E" "process_with_scheme E data key scheme uid fid cfg = Ok ps"
    and "length ps \<le> 2 ^ 32"
  shows "distinct (map pc_nonce ps)"
proof -
  from assms(2) obtain C where
    pc: "\<And>i. i < length ps \<Longrightarrow> process_chunk E C cfg (i, chunks (chunk_size cfg) data ! i) = Ok (ps ! i)"
    using process_with_scheme_Ok by metis
  have "pc_nonce (ps ! i) \<noteq> pc_nonce (ps ! j)" if "i < length ps" "j < length ps" "i \<noteq> j" for i j
    using process_chunk_sizes(3) [OF assms(1) pc] chunk_index_u64(3) [OF _ assms(3)] that
    by (metis nonce_for_inj)
  then show ?thesis by (simp add: distinct_conv_nth)
qed

section \<open>Properties\<close>

text \<open>C9. The upload pipeline succeeds on every file of at most \<open>2 ^ 32\<close> chunks and loses nothing.
  It yields one record per chunk, in order and with its index; the counter nonces are pairwise
  different; no sealed buffer exceeds its plaintext by more than the tag; and opening each sealed
  buffer at its index and undoing the compression gives back the chunks, whose concatenation is
  the file.\<close>

theorem pipeline_total_lossless:
  assumes "hkdf_total E" "aead_correct E" "zstd_lossless E"
    and "0 < chunk_size cfg" "div_ceil (length data) (chunk_size cfg) \<le> 2 ^ 32"
    and "\<forall>c. \<exists>rec. rs_encode E DATA_SHARDS PARITY_SHARDS (data_shard_list c) = Ok rec"
  shows "\<exists>C ps parts.
     FileCipher_new E key scheme uid fid (word_of_nat (length ps)) = Ok C
     \<and> process_with_scheme E data key scheme uid fid cfg = Ok ps
     \<and> length ps = div_ceil (length data) (chunk_size cfg)
     \<and> map pc_index ps = [0..<length ps] \<and> distinct (map pc_nonce ps)
     \<and> rmapM (\<lambda>p. rbind (open_chunk E C (word_of_nat (pc_index p)) (pc_cipher p))
                (\<lambda>buf. map_err Io (restore E buf (pc_is_compressed p)))) ps = Ok parts
     \<and> concat parts = data
     \<and> (\<forall>p \<in> set ps. length (pc_cipher p) \<le> pc_plaintext_len p + TAG_LEN)"
proof -
  have "\<exists>ps. process_with_scheme E data key scheme uid fid cfg = Ok ps"
    by (rule process_total [OF assms(1,2,4,5)]) (use assms(6) in blast)
  then obtain ps where ps: "process_with_scheme E data key scheme uid fid cfg = Ok ps" by blast
  from ps obtain C where pos: "0 < chunk_size cfg"
    and C0: "FileCipher_new E key scheme uid fid
               (word_of_nat (div_ceil (length data) (chunk_size cfg))) = Ok C"
    and n: "length ps = div_ceil (length data) (chunk_size cfg)"
    and all: "\<forall>i < length ps. process_chunk E C cfg (i, chunks (chunk_size cfg) data ! i) = Ok (ps ! i)"
    by (rule process_with_scheme_Ok)
  note pc = all [rule_format]
  have C: "FileCipher_new E key scheme uid fid (word_of_nat (length ps)) = Ok C"
    using C0 n by simp
  have n32: "length ps \<le> 2 ^ 32" using n assms(5) by simp
  have idx: "pc_index (ps ! i) = i" "pc_plaintext_len (ps ! i) = length (chunks (chunk_size cfg) data ! i)"
    if "i < length ps" for i
    using process_chunk_place [OF pc [OF that]] by simp_all
  have un: "unprocess_chunk E C i (pc_cipher (ps ! i)) (pc_is_compressed (ps ! i))
        = Ok (chunks (chunk_size cfg) data ! i)" if "i < length ps" for i
    using chunk_index_u64(1) [OF that n32] FileCipher_new_fields(2) [OF C]
    by (intro unprocess_process_chunk [OF assms(2,3) pc [OF that]]) simp
  have opened: "rmapM (\<lambda>p. unprocess_chunk E C (pc_index p) (pc_cipher p) (pc_is_compressed p)) ps
        = Ok (chunks (chunk_size cfg) data)"
    unfolding rmapM_Ok_iff using un idx(1) n length_chunks [OF assms(4)] by simp
  have sizes: "\<forall>p \<in> set ps. length (pc_cipher p) \<le> pc_plaintext_len p + TAG_LEN"
  proof
    fix p assume "p \<in> set ps"
    then obtain i where i: "i < length ps" "p = ps ! i" by (auto simp: in_set_conv_nth)
    show "length (pc_cipher p) \<le> pc_plaintext_len p + TAG_LEN"
      using process_chunk_sizes(1) [OF assms(2) pc [OF i(1)]] idx(2) [OF i(1)] i(2) by simp
  qed
  have ids: "map pc_index ps = [0..<length ps]"
    by (rule nth_equalityI) (simp_all add: idx(1))
  note nonces = process_nonces_distinct [OF assms(2) ps n32]
  show ?thesis
    using C ps n ids nonces opened concat_chunks [OF assms(4), of data] sizes
    unfolding unprocess_chunk_def
    by (intro exI [of _ C] exI [of _ ps] exI [of _ "chunks (chunk_size cfg) data"] conjI)
qed

theorem pipeline_total_lossless_witness:
  "\<exists>C ps parts.
     FileCipher_new demo_env [1] V2 [2] [3] (word_of_nat (length ps)) = Ok C
     \<and> process_with_scheme demo_env [5, 6, 7] [1] V2 [2] [3]
         \<lparr>chunk_size = 2, entropy_skip = 8, zstd_level = 3\<rparr> = Ok ps
     \<and> length ps = 2
     \<and> rmapM (\<lambda>p. rbind (open_chunk demo_env C (word_of_nat (pc_index p)) (pc_cipher p))
                (\<lambda>buf. map_err Io (restore demo_env buf (pc_is_compressed p)))) ps = Ok parts
     \<and> concat parts = [5, 6, 7]"
proof -
  have "\<forall>c. \<exists>rec. rs_encode demo_env DATA_SHARDS PARITY_SHARDS (data_shard_list c) = Ok rec"
    by (simp add: demo_env_def)
  from pipeline_total_lossless [OF demo_hkdf_total demo_aead_correct demo_zstd_lossless _ _ this,
      of "\<lparr>chunk_size = 2, entropy_skip = 8, zstd_level = 3\<rparr>" "[5, 6, 7]" "[1]" V2 "[2]" "[3]"]
  show ?thesis by (auto simp: div_ceil_def)
qed

end
