(* ===== verification/ChunkStore.thy ===== *)
theory ChunkStore
  imports Pipeline
begin

text \<open>
  \<open>store/src/chunkstore.rs\<close> and \<open>store/src/error.rs\<close>: the on-disk shard store. The file system
  is a map from path components to contents, together with what the operating system does to
  each path: a write, read or removal may fail, and a failed write leaves whatever the system left
  (\<open>std::fs::write\<close> truncates before it writes). The locale \<open>shard_store\<close> is the interface
  the storage service relies on.
\<close>

datatype store_error =
    Sqlite string
  | SIo string
  | Core core_error
  | NotFound
  | Integrity string
  | InvalidFragmentId

type_synonym file_path = "string list"

record disk =
  disk_files :: "file_path \<rightharpoonup> bytes"
  mkdir_fault :: "file_path \<Rightarrow> string option"
  write_fault :: "file_path \<Rightarrow> (string \<times> bytes option) option"
  read_fault :: "file_path \<Rightarrow> string option"
  remove_fault :: "file_path \<Rightarrow> string option"

text \<open>\<open>u8::is_ascii_hexdigit\<close>.\<close>

definition is_ascii_hexdigit :: "char \<Rightarrow> bool" where
  "is_ascii_hexdigit c =
     (let n = of_char c :: nat
      in 48 \<le> n \<and> n \<le> 57 \<or> 65 \<le> n \<and> n \<le> 70 \<or> 97 \<le> n \<and> n \<le> 102)"

definition is_valid_fragment_id :: "string \<Rightarrow> bool" where
  "is_valid_fragment_id fragment_id \<longleftrightarrow>
     length fragment_id = 32 \<and> list_all is_ascii_hexdigit fragment_id"

definition shard_path :: "file_path \<Rightarrow> string \<Rightarrow> (file_path, store_error) result" where
  "shard_path root fragment_id =
     (if \<not> is_valid_fragment_id fragment_id then Err InvalidFragmentId
      else Ok (root @ [take 2 fragment_id, fragment_id]))"

definition write_file :: "file_path \<Rightarrow> bytes \<Rightarrow> (disk, unit, store_error) op" where
  "write_file p data D =
     (case write_fault D p of
        Some (e, left) \<Rightarrow> (Err (SIo e), D\<lparr>disk_files := (disk_files D)(p := left)\<rparr>)
      | None \<Rightarrow> (Ok (), D\<lparr>disk_files := (disk_files D)(p \<mapsto> data)\<rparr>))"

definition store_write :: "file_path \<Rightarrow> string \<Rightarrow> bytes \<Rightarrow> (disk, unit, store_error) op" where
  "store_write root fragment_id data =
     sbind (slift (shard_path root fragment_id)) (\<lambda>p D.
       case mkdir_fault D (butlast p) of
         Some e \<Rightarrow> (Err (SIo e), D)
       | None \<Rightarrow> write_file p data D)"

definition store_read :: "file_path \<Rightarrow> disk \<Rightarrow> string \<Rightarrow> (bytes, store_error) result" where
  "store_read root D fragment_id =
     rbind (shard_path root fragment_id) (\<lambda>p.
       case disk_files D p of
         None \<Rightarrow> Err NotFound
       | Some b \<Rightarrow> (case read_fault D p of Some e \<Rightarrow> Err (SIo e) | None \<Rightarrow> Ok b))"

definition store_delete :: "file_path \<Rightarrow> string \<Rightarrow> (disk, unit, store_error) op" where
  "store_delete root fragment_id =
     sbind (slift (shard_path root fragment_id)) (\<lambda>p D.
       case disk_files D p of
         None \<Rightarrow> (Ok (), D)
       | Some b \<Rightarrow>
           (case remove_fault D p of
              Some e \<Rightarrow> (Err (SIo e), D)
            | None \<Rightarrow> (Ok (), D\<lparr>disk_files := (disk_files D)(p := None)\<rparr>)))"

definition store_exists :: "file_path \<Rightarrow> disk \<Rightarrow> string \<Rightarrow> bool" where
  "store_exists root D fragment_id =
     (case shard_path root fragment_id of
        Ok p \<Rightarrow> disk_files D p \<noteq> None
      | Err _ \<Rightarrow> False
      | Panic \<Rightarrow> False)"

section \<open>The interface of a shard store\<close>

text \<open>
  What a client relies on: \<open>get\<close> is the content under a key; a write that returns has stored
  its value; a removal that returns has removed it; whatever the outcome, the other keys keep
  their content. The client lemmas are about the loops of the service: a sequence of writes that
  stops at the first failure, and a best-effort sequence of removals.
\<close>

locale shard_store =
  fixes get :: "'s \<Rightarrow> 'k \<Rightarrow> 'v option"
    and put :: "'k \<Rightarrow> 'v \<Rightarrow> ('s, unit, 'e) op"
    and remove :: "'k \<Rightarrow> ('s, unit, 'e) op"
  assumes put_stores: "put k v s = (Ok (), t) \<Longrightarrow> get t k = Some v"
    and put_other: "put k v s = (r, t) \<Longrightarrow> j \<noteq> k \<Longrightarrow> get t j = get s j"
    and remove_removes: "remove k s = (Ok (), t) \<Longrightarrow> get t k = None"
    and remove_other: "remove k s = (r, t) \<Longrightarrow> j \<noteq> k \<Longrightarrow> get t j = get s j"
    and remove_shrinks: "remove k s = (r, t) \<Longrightarrow> get t k = None \<or> get t k = get s k"
begin

definition put_all :: "('k \<times> 'v) list \<Rightarrow> ('s, unit, 'e) op" where
  "put_all = sforM (\<lambda>(k, v). put k v)"

definition remove_all :: "'k list \<Rightarrow> 's \<Rightarrow> 's" where
  "remove_all ks s = fold (\<lambda>k s. snd (remove k s)) ks s"

lemma put_all_other:
  "put_all kvs s = (r, t) \<Longrightarrow> j \<notin> fst ` set kvs \<Longrightarrow> get t j = get s j"
  unfolding put_all_def
proof (rule sforM_preserves [where P = "\<lambda>u. get u j = get s j"])
  fix kv u r t
  assume "j \<notin> fst ` set kvs" "kv \<in> set kvs" "get u j = get s j" "(case kv of (k, v) \<Rightarrow> put k v) u = (r, t)"
  moreover from this have "j \<noteq> fst kv" by auto
  ultimately show "get t j = get s j" using put_other by (cases kv) fastforce
qed auto

lemma put_all_stores:
  "put_all kvs s = (Ok (), t) \<Longrightarrow> distinct (map fst kvs) \<Longrightarrow> (k, v) \<in> set kvs \<Longrightarrow> get t k = Some v"
proof (induction kvs arbitrary: s)
  case (Cons kv kvs)
  obtain k' v' where kv: "kv = (k', v')" by (cases kv)
  with Cons.prems(1) obtain u where u: "put k' v' s = (Ok (), u)" "put_all kvs u = (Ok (), t)"
    by (auto simp: put_all_def sbind_Ok_iff)
  show ?case
  proof (cases "(k, v) = kv")
    case True
    then have "k \<notin> fst ` set kvs" using Cons.prems(2) by (auto simp: image_iff)
    then have "get t k = get u k" by (rule put_all_other [OF u(2)])
    then show ?thesis using put_stores [OF u(1)] True kv by simp
  next
    case False
    then show ?thesis using Cons u(2) by auto
  qed
qed simp

lemma remove_all_other: "k \<notin> set ks \<Longrightarrow> get (remove_all ks s) k = get s k"
proof (induction ks arbitrary: s)
  case (Cons j ks)
  have "get (snd (remove j s)) k = get s k"
    using Cons.prems remove_other [of j s "fst (remove j s)" "snd (remove j s)" k] by simp
  then show ?case using Cons by (simp add: remove_all_def)
qed (simp add: remove_all_def)

lemma remove_shrinks': "get (snd (remove j s)) k = None \<or> get (snd (remove j s)) k = get s k"
  using remove_other [of j s "fst (remove j s)" "snd (remove j s)" k]
    remove_shrinks [of j s "fst (remove j s)" "snd (remove j s)"]
  by (cases "k = j") auto

lemma remove_all_shrinks: "get (remove_all ks s) k = None \<or> get (remove_all ks s) k = get s k"
proof (induction ks arbitrary: s)
  case (Cons j ks)
  show ?case using Cons [of "snd (remove j s)"] remove_shrinks' [of j s k] by (auto simp: remove_all_def)
qed (simp add: remove_all_def)

lemma remove_all_removes:
  assumes "\<And>j u. j \<in> set ks \<Longrightarrow> fst (remove j u) = Ok ()" "k \<in> set ks"
  shows "get (remove_all ks s) k = None"
  using assms
proof (induction ks arbitrary: s)
  case (Cons j ks)
  show ?case
  proof (cases "k = j")
    case True
    have "remove j s = (Ok (), snd (remove j s))"
      using Cons.prems(1) [of j s] by (metis list.set_intros(1) prod.collapse)
    then have "get (snd (remove j s)) k = None" unfolding True by (rule remove_removes)
    then show ?thesis
      using remove_all_shrinks [of ks "snd (remove j s)" k] by (simp add: remove_all_def)
  next
    case False
    then show ?thesis using Cons by (simp add: remove_all_def)
  qed
qed simp

end

section \<open>The disk store implements it\<close>

definition shard_bytes :: "file_path \<Rightarrow> disk \<Rightarrow> string \<Rightarrow> bytes option" where
  "shard_bytes root D fragment_id =
     (if is_valid_fragment_id fragment_id
      then disk_files D (root @ [take 2 fragment_id, fragment_id]) else None)"

lemma write_file_cases:
  assumes "write_file p data D = (r, D')"
  obtains (failed) e left where "r = Err e" "disk_files D' = (disk_files D)(p := left)"
  | (written) "r = Ok ()" "disk_files D' = (disk_files D)(p \<mapsto> data)"
  using assms by (auto simp: write_file_def split: option.splits)

lemma store_write_invalid: "\<not> is_valid_fragment_id k \<Longrightarrow> store_write root k v D = (Err InvalidFragmentId, D)"
  by (simp add: store_write_def shard_path_def slift_def sbind_def)

lemma store_delete_invalid: "\<not> is_valid_fragment_id k \<Longrightarrow> store_delete root k D = (Err InvalidFragmentId, D)"
  by (simp add: store_delete_def shard_path_def slift_def sbind_def)

lemma store_write_valid:
  assumes "is_valid_fragment_id k"
  shows "store_write root k v D =
     (case mkdir_fault D (root @ [take 2 k]) of
        Some e \<Rightarrow> (Err (SIo e), D)
      | None \<Rightarrow> write_file (root @ [take 2 k, k]) v D)"
  using assms by (simp add: store_write_def shard_path_def slift_def sbind_def butlast_append)

lemma store_delete_valid:
  assumes "is_valid_fragment_id k"
  shows "store_delete root k D =
     (case disk_files D (root @ [take 2 k, k]) of
        None \<Rightarrow> (Ok (), D)
      | Some b \<Rightarrow>
          (case remove_fault D (root @ [take 2 k, k]) of
             Some e \<Rightarrow> (Err (SIo e), D)
           | None \<Rightarrow> (Ok (), D\<lparr>disk_files := (disk_files D)(root @ [take 2 k, k] := None)\<rparr>)))"
  using assms by (simp add: store_delete_def shard_path_def slift_def sbind_def)

lemma store_write_get:
  assumes "store_write root k v D = (r, D')"
  shows "r = Ok () \<Longrightarrow> shard_bytes root D' k = Some v"
    "j \<noteq> k \<Longrightarrow> shard_bytes root D' j = shard_bytes root D j"
  using assms
  by (cases "is_valid_fragment_id k";
      auto simp: store_write_invalid store_write_valid shard_bytes_def
        split: option.splits elim!: write_file_cases)+

lemma store_delete_get:
  assumes "store_delete root k D = (r, D')"
  shows "r = Ok () \<Longrightarrow> shard_bytes root D' k = None"
    "j \<noteq> k \<Longrightarrow> shard_bytes root D' j = shard_bytes root D j"
    "shard_bytes root D' k = None \<or> shard_bytes root D' k = shard_bytes root D k"
  using assms
  by (cases "is_valid_fragment_id k";
      auto simp: store_delete_invalid store_delete_valid shard_bytes_def split: option.splits)+

interpretation cs: shard_store "shard_bytes root" "store_write root" "store_delete root" for root
  by unfold_locales (auto dest: store_write_get store_delete_get)

lemma store_read_Ok:
  "store_read root D k = Ok b \<longleftrightarrow>
   shard_bytes root D k = Some b \<and> read_fault D (root @ [take 2 k, k]) = None"
  by (auto simp: store_read_def shard_path_def shard_bytes_def split: option.splits if_splits)

lemma store_read_not_Panic [simp]: "store_read root D k \<noteq> Panic"
  by (auto simp: store_read_def shard_path_def res_simps split: option.splits)

lemma store_read_cong:
  "shard_bytes root D j = shard_bytes root D' j \<Longrightarrow> read_fault D = read_fault D' \<Longrightarrow>
   store_read root D j = store_read root D' j"
  by (cases "is_valid_fragment_id j")
     (simp_all add: store_read_def shard_path_def shard_bytes_def split: option.split)

lemma store_exists_iff: "store_exists root D k \<longleftrightarrow> shard_bytes root D k \<noteq> None"
  by (auto simp: store_exists_def shard_path_def shard_bytes_def)

text \<open>The operating system's behaviour does not change while the store runs.\<close>

definition same_faults :: "disk \<Rightarrow> disk \<Rightarrow> bool" where
  "same_faults D D' \<longleftrightarrow>
     mkdir_fault D' = mkdir_fault D \<and> write_fault D' = write_fault D
     \<and> read_fault D' = read_fault D \<and> remove_fault D' = remove_fault D"

lemma same_faults_refl [simp]: "same_faults D D"
  by (simp add: same_faults_def)

lemma same_faults_trans: "same_faults D D' \<Longrightarrow> same_faults D' D'' \<Longrightarrow> same_faults D D''"
  by (simp add: same_faults_def)

lemma store_write_faults: "store_write root k v D = (r, D') \<Longrightarrow> same_faults D D'"
  by (cases "is_valid_fragment_id k")
     (auto simp: store_write_invalid store_write_valid write_file_def same_faults_def
       split: option.splits prod.splits)

lemma store_delete_faults: "store_delete root k D = (r, D') \<Longrightarrow> same_faults D D'"
  by (cases "is_valid_fragment_id k")
     (auto simp: store_delete_invalid store_delete_valid same_faults_def split: option.splits)

lemma hexdigit_not_sep:
  "is_ascii_hexdigit c \<Longrightarrow> c \<noteq> CHR ''/'' \<and> c \<noteq> CHR ''.'' \<and> c \<noteq> CHR 0x5C \<and> c \<noteq> CHR 0x00"
  by (auto simp: is_ascii_hexdigit_def)

section \<open>Properties\<close>

text \<open>C30. Path confinement. An id from the network never reaches a path unless it is 32 hex digits;
  then the path is the root followed by a two-character directory and the id itself, neither of
  which can hold a separator, a dot or a NUL. Any other id is refused by every operation with the
  disk unchanged, and a write or a removal changes at most that one path.\<close>

theorem fragment_path_confined:
  "(case shard_path root k of
      Ok p \<Rightarrow> p = root @ [take 2 k, k] \<and> length k = 32
        \<and> list_all (\<lambda>c. c \<noteq> CHR ''/'' \<and> c \<noteq> CHR ''.'' \<and> c \<noteq> CHR 0x5C \<and> c \<noteq> CHR 0x00) k
    | Err e \<Rightarrow> e = InvalidFragmentId
        \<and> store_write root k v D = (Err InvalidFragmentId, D)
        \<and> store_delete root k D = (Err InvalidFragmentId, D)
        \<and> store_read root D k = Err InvalidFragmentId \<and> \<not> store_exists root D k
    | Panic \<Rightarrow> False)
   \<and> {p. disk_files (snd (store_write root k v D)) p \<noteq> disk_files D p} \<subseteq> {root @ [take 2 k, k]}
   \<and> {p. disk_files (snd (store_delete root k D)) p \<noteq> disk_files D p} \<subseteq> {root @ [take 2 k, k]}"
proof (cases "is_valid_fragment_id k")
  case True
  then have "list_all (\<lambda>c. c \<noteq> CHR ''/'' \<and> c \<noteq> CHR ''.'' \<and> c \<noteq> CHR 0x5C \<and> c \<noteq> CHR 0x00) k"
    using hexdigit_not_sep by (auto simp: is_valid_fragment_id_def list_all_iff)
  moreover have "{p. disk_files (snd (store_write root k v D)) p \<noteq> disk_files D p}
                 \<subseteq> {root @ [take 2 k, k]}"
    by (auto simp: store_write_valid [OF True] write_file_def split: option.splits if_splits)
  moreover have "{p. disk_files (snd (store_delete root k D)) p \<noteq> disk_files D p}
                 \<subseteq> {root @ [take 2 k, k]}"
    by (auto simp: store_delete_valid [OF True] split: option.splits if_splits)
  ultimately show ?thesis
    using True by (simp add: shard_path_def is_valid_fragment_id_def)
next
  case False
  then show ?thesis
    by (simp add: shard_path_def store_write_invalid store_delete_invalid store_read_def store_exists_def)
qed

text \<open>Read your writes. After a write that returned, reading the same id gives the bytes
  written (or the operating system's read error), every other id reads as before, and deleting it
  makes it read as not found; deleting is idempotent.\<close>

theorem store_read_after_write:
  assumes "store_write root k v D = (Ok (), D')" "store_delete root k D' = (Ok (), D'')"
  shows "store_read root D' k =
           (case read_fault D (root @ [take 2 k, k]) of None \<Rightarrow> Ok v | Some e \<Rightarrow> Err (SIo e))
     \<and> store_read root D'' k = Err NotFound
     \<and> store_delete root k D'' = (Ok (), D'')
     \<and> {j. j \<noteq> k \<and> store_read root D'' j \<noteq> store_read root D j} = {}"
proof -
  have v: "is_valid_fragment_id k"
    using assms(1) store_write_invalid by (metis prod.inject result.distinct(1))
  have f: "read_fault D' = read_fault D" "read_fault D'' = read_fault D"
    using store_write_faults [OF assms(1)] store_delete_faults [OF assms(2)]
    by (simp_all add: same_faults_def)
  have b: "disk_files D' (root @ [take 2 k, k]) = Some v" "disk_files D'' (root @ [take 2 k, k]) = None"
    using store_write_get(1) [OF assms(1)] store_delete_get(1) [OF assms(2)] v
    by (simp_all add: shard_bytes_def)
  have "shard_bytes root D'' j = shard_bytes root D j" if "j \<noteq> k" for j
    using store_write_get(2) [OF assms(1) that] store_delete_get(2) [OF assms(2) that] by simp
  then have "store_read root D'' j = store_read root D j" if "j \<noteq> k" for j
    using that f by (intro store_read_cong) simp_all
  then have "{j. j \<noteq> k \<and> store_read root D'' j \<noteq> store_read root D j} = {}" by blast
  moreover have "store_read root D'' k = Err NotFound" "store_delete root k D'' = (Ok (), D'')"
    using v b by (simp_all add: store_read_def shard_path_def store_delete_valid)
  moreover have "store_read root D' k =
      (case read_fault D (root @ [take 2 k, k]) of None \<Rightarrow> Ok v | Some e \<Rightarrow> Err (SIo e))"
    using v b f by (simp add: store_read_def shard_path_def split: option.split)
  ultimately show ?thesis by blast
qed

definition healthy_disk :: disk where
  "healthy_disk = \<lparr>disk_files = Map.empty, mkdir_fault = (\<lambda>_. None), write_fault = (\<lambda>_. None),
                   read_fault = (\<lambda>_. None), remove_fault = (\<lambda>_. None)\<rparr>"

theorem store_read_after_write_witness:
  "let k = replicate 32 (CHR ''a'');
       D' = snd (store_write [''data''] k [1, 2] healthy_disk)
   in store_write [''data''] k [1, 2] healthy_disk = (Ok (), D')
      \<and> store_read [''data''] D' k = Ok [1, 2]
      \<and> store_read [''data''] (snd (store_delete [''data''] k D')) k = Err NotFound"
proof -
  let ?k = "replicate 32 (CHR ''a'')"
  have v: "is_valid_fragment_id ?k"
    by (simp add: is_valid_fragment_id_def list_all_iff is_ascii_hexdigit_def)
  obtain D' where D': "store_write [''data''] ?k [1, 2] healthy_disk = (Ok (), D')"
    by (simp add: store_write_valid [OF v] write_file_def healthy_disk_def)
  then have f: "remove_fault D' = (\<lambda>_. None)"
    using store_write_faults [OF D'] by (simp add: same_faults_def healthy_disk_def)
  obtain D'' where D'': "store_delete [''data''] ?k D' = (Ok (), D'')"
    using f by (cases "disk_files D' ([''data''] @ [take 2 ?k, ?k])")
      (simp_all add: store_delete_valid [OF v])
  show ?thesis
    using store_read_after_write [OF D' D''] D' D'' by (simp add: healthy_disk_def Let_def)
qed

end
