(* ===== verification/Manifest.thy ===== *)
theory Manifest
  imports ChunkStore "HOL-Library.List_Lexorder" "HOL-Library.Char_ord" "HOL-Library.Product_Lexorder"
begin

text \<open>
  \<open>store/src/manifest.rs\<close>: the index of files, chunks, shards and folders. The SQLite engine is
  trusted: a table is the list of its rows in insertion order, a statement fails exactly when it
  breaks a constraint of the schema (primary keys, \<open>UNIQUE (user_id, path)\<close>, foreign keys) and
  then changes nothing, \<open>ON DELETE CASCADE\<close> and the operator \<open>LIKE\<close> (ASCII case-insensitive,
  with its wildcards) are written out. Opening the database, its encryption and the additive column
  migrations are not modelled.
\<close>

section \<open>Rows\<close>

text \<open>A row of table \<open>files\<close> with its raw columns, and the \<open>FileRow\<close> that a query returns.\<close>

record db_file =
  d_file_id :: string
  d_user_id :: string
  d_path :: string
  d_size :: int
  d_stored_bytes :: int
  d_chunk_count :: int
  d_created_at :: string
  d_retired_path :: "string option"
  d_deleted_at :: "string option"
  d_superseded_at :: "string option"
  d_lineage :: "string option"
  d_key_scheme :: int
  d_content_hash :: "string option"
  d_pack_id :: "string option"
  d_pack_offset :: "int option"
  d_pack_len :: "int option"

record file_row =
  f_file_id :: string
  f_user_id :: string
  f_path :: string
  f_size :: int
  f_stored_bytes :: int
  f_chunk_count :: int
  f_created_at :: string
  f_deleted_at :: "string option"
  f_superseded_at :: "string option"
  f_lineage :: string
  f_key_scheme :: int
  f_content_hash :: "string option"
  f_pack_id :: "string option"
  f_pack_offset :: "int option"
  f_pack_len :: "int option"

record chunk_row =
  c_chunk_id :: string
  c_file_id :: string
  c_idx :: int
  c_nonce :: bytes
  c_is_compressed :: bool
  c_plaintext_len :: int
  c_cipher_len :: int
  c_shard_len :: int

record shard_row =
  s_fragment_id :: string
  s_chunk_id :: string
  s_shard_index :: int
  s_location :: string
  s_hash :: string

record folder_row =
  fo_user_id :: string
  fo_path :: string
  fo_parent :: string

record manifest =
  m_files :: "db_file list"
  m_chunks :: "chunk_row list"
  m_shards :: "shard_row list"
  m_folders :: "folder_row list"

definition empty_manifest :: manifest where
  "empty_manifest = \<lparr>m_files = [], m_chunks = [], m_shards = [], m_folders = []\<rparr>"

section \<open>Keys, paths and LIKE\<close>

definition RETIRED_PATH_PREFIX :: string where
  "RETIRED_PATH_PREFIX = CHR 0x01 # ''retired/''"

definition retired_key :: "string \<Rightarrow> string" where
  "retired_key file_id = RETIRED_PATH_PREFIX @ file_id"

definition PACK_PATH_PREFIX :: string where
  "PACK_PATH_PREFIX = CHR 0x01 # ''pack/''"

definition pack_key :: "string \<Rightarrow> string" where
  "pack_key pack_id = PACK_PATH_PREFIX @ pack_id"

text \<open>SQLite's \<open>LIKE\<close>: \<open>%\<close> matches any run of characters, \<open>_\<close> one character (a UTF-8 lead
  byte with its continuation bytes), any other character itself, up to ASCII case.\<close>

definition is_utf8_cont :: "char \<Rightarrow> bool" where
  "is_utf8_cont c \<longleftrightarrow> 128 \<le> (of_char c :: nat) \<and> (of_char c :: nat) < 192"

definition ascii_lower :: "char \<Rightarrow> char" where
  "ascii_lower c =
     (let n = of_char c :: nat in if 65 \<le> n \<and> n \<le> 90 then char_of (n + 32) else c)"

function sql_like :: "string \<Rightarrow> string \<Rightarrow> bool" where
  "sql_like [] s = (s = [])"
| "sql_like (p # ps) s =
     (if p = CHR ''%'' then
        sql_like ps s
        \<or> (case s of [] \<Rightarrow> False | c # t \<Rightarrow> sql_like (p # ps) (dropWhile is_utf8_cont t))
      else if p = CHR ''_'' then
        (case s of [] \<Rightarrow> False | c # t \<Rightarrow> sql_like ps (dropWhile is_utf8_cont t))
      else
        (case s of [] \<Rightarrow> False | c # t \<Rightarrow> ascii_lower c = ascii_lower p \<and> sql_like ps t))"
  by pat_completeness auto
termination
  by (relation "measure (\<lambda>(p, s). length p + length s)") (auto simp: less_Suc_eq_le le_SucI length_dropWhile_le)

declare sql_like.simps(2) [simp del]

definition not_pack :: "db_file \<Rightarrow> bool" where
  "not_pack r \<longleftrightarrow> \<not> sql_like (PACK_PATH_PREFIX @ ''%'') (d_path r)"

definition LIVE :: "db_file \<Rightarrow> bool" where
  "LIVE r \<longleftrightarrow> d_deleted_at r = None \<and> d_superseded_at r = None"

definition coalesce :: "'a option \<Rightarrow> 'a \<Rightarrow> 'a" where
  "coalesce a b = (case a of Some x \<Rightarrow> x | None \<Rightarrow> b)"

definition dirname :: "string \<Rightarrow> string" where
  "dirname path =
     (case dropWhile (\<lambda>c. c \<noteq> CHR ''/'') (rev path) of [] \<Rightarrow> [] | _ # r \<Rightarrow> rev r)"

definition basename :: "string \<Rightarrow> string" where
  "basename path = rev (takeWhile (\<lambda>c. c \<noteq> CHR ''/'') (rev path))"

text \<open>Row to \<open>FileRow\<close>, in the order of \<open>FILE_COLS\<close>.\<close>

definition map_file :: "db_file \<Rightarrow> file_row" where
  "map_file r =
     \<lparr>f_file_id = d_file_id r, f_user_id = d_user_id r,
      f_path = coalesce (d_retired_path r) (d_path r),
      f_size = d_size r, f_stored_bytes = d_stored_bytes r, f_chunk_count = d_chunk_count r,
      f_created_at = d_created_at r, f_deleted_at = d_deleted_at r,
      f_superseded_at = d_superseded_at r, f_lineage = coalesce (d_lineage r) (d_file_id r),
      f_key_scheme = d_key_scheme r, f_content_hash = d_content_hash r,
      f_pack_id = d_pack_id r, f_pack_offset = d_pack_offset r, f_pack_len = d_pack_len r\<rparr>"

definition is_live :: "file_row \<Rightarrow> bool" where
  "is_live f \<longleftrightarrow> f_deleted_at f = None \<and> f_superseded_at f = None"

definition is_pack :: "file_row \<Rightarrow> bool" where
  "is_pack f \<longleftrightarrow> prefix PACK_PATH_PREFIX (f_path f)"

definition shard_hash :: "'f env \<Rightarrow> bytes \<Rightarrow> string" where
  "shard_hash E bs = hex_encode E (take 16 (blake3 E bs))"

definition fragment_id :: "'f env \<Rightarrow> string \<Rightarrow> nat \<Rightarrow> string" where
  "fragment_id E cid shard_index =
     hex_encode E (take 16 (blake3 E (as_bytes cid @ as_bytes '':'' @ be_bytes 4 shard_index)))"

definition chunk_id :: "string \<Rightarrow> nat \<Rightarrow> string" where
  "chunk_id file_id idx = file_id @ '':'' @ show_nat idx"

section \<open>Inserting and updating rows\<close>

type_synonym 'a db_op = "(manifest, 'a, store_error) op"

text \<open>A query does not change the database.\<close>

definition query :: "(manifest \<Rightarrow> 'a) \<Rightarrow> 'a db_op" where
  "query q M = (Ok (q M), M)"

definition uniq_paths :: "db_file list \<Rightarrow> bool" where
  "uniq_paths rows \<longleftrightarrow> distinct (map (\<lambda>r. (d_user_id r, d_path r)) rows)"

definition insert_file :: "file_row \<Rightarrow> unit db_op" where
  "insert_file f M =
     (let r = \<lparr>d_file_id = f_file_id f, d_user_id = f_user_id f, d_path = f_path f,
               d_size = f_size f, d_stored_bytes = f_stored_bytes f,
               d_chunk_count = f_chunk_count f, d_created_at = f_created_at f,
               d_retired_path = None, d_deleted_at = None, d_superseded_at = None,
               d_lineage = Some (f_lineage f), d_key_scheme = f_key_scheme f,
               d_content_hash = f_content_hash f, d_pack_id = f_pack_id f,
               d_pack_offset = f_pack_offset f, d_pack_len = f_pack_len f\<rparr>
      in if d_file_id r \<in> set (map d_file_id (m_files M))
         then (Err (Sqlite ''UNIQUE constraint failed: files.file_id''), M)
         else if \<not> uniq_paths (m_files M @ [r])
         then (Err (Sqlite ''UNIQUE constraint failed: files.user_id, files.path''), M)
         else (Ok (), M\<lparr>m_files := m_files M @ [r]\<rparr>))"

definition insert_chunk :: "chunk_row \<Rightarrow> unit db_op" where
  "insert_chunk c M =
     (if c_chunk_id c \<in> set (map c_chunk_id (m_chunks M))
      then (Err (Sqlite ''UNIQUE constraint failed: chunks.chunk_id''), M)
      else if c_file_id c \<notin> set (map d_file_id (m_files M))
      then (Err (Sqlite ''FOREIGN KEY constraint failed''), M)
      else (Ok (), M\<lparr>m_chunks := m_chunks M @ [c]\<rparr>))"

definition insert_shard :: "shard_row \<Rightarrow> unit db_op" where
  "insert_shard s M =
     (if s_fragment_id s \<in> set (map s_fragment_id (m_shards M))
      then (Err (Sqlite ''UNIQUE constraint failed: shards.fragment_id''), M)
      else if s_chunk_id s \<notin> set (map c_chunk_id (m_chunks M))
      then (Err (Sqlite ''FOREIGN KEY constraint failed''), M)
      else (Ok (), M\<lparr>m_shards := m_shards M @ [s]\<rparr>))"

definition set_shard_location :: "string \<Rightarrow> string \<Rightarrow> unit db_op" where
  "set_shard_location frag location M =
     (Ok (), M\<lparr>m_shards := map (\<lambda>s. if s_fragment_id s = frag
                                  then s\<lparr>s_location := location\<rparr> else s) (m_shards M)\<rparr>)"

text \<open>\<open>UPDATE files\<close>: returns the number of rows changed.\<close>

definition update_files :: "(db_file \<Rightarrow> bool) \<Rightarrow> (db_file \<Rightarrow> db_file) \<Rightarrow> nat db_op" where
  "update_files p f M =
     (let rows = map (\<lambda>r. if p r then f r else r) (m_files M)
      in if \<not> uniq_paths rows
         then (Err (Sqlite ''UNIQUE constraint failed: files.user_id, files.path''), M)
         else (Ok (length (filter p (m_files M))), M\<lparr>m_files := rows\<rparr>))"

text \<open>\<open>DELETE FROM files\<close> and \<open>DELETE FROM chunks\<close>, with the cascade.\<close>

definition delete_chunks :: "(chunk_row \<Rightarrow> bool) \<Rightarrow> manifest \<Rightarrow> manifest" where
  "delete_chunks p M =
     M\<lparr>m_chunks := filter (\<lambda>c. \<not> p c) (m_chunks M),
       m_shards := filter (\<lambda>s. s_chunk_id s \<notin> set (map c_chunk_id (filter p (m_chunks M)))) (m_shards M)\<rparr>"

definition delete_files :: "(db_file \<Rightarrow> bool) \<Rightarrow> manifest \<Rightarrow> manifest" where
  "delete_files p M =
     delete_chunks (\<lambda>c. c_file_id c \<in> set (map d_file_id (filter p (m_files M))))
       (M\<lparr>m_files := filter (\<lambda>r. \<not> p r) (m_files M)\<rparr>)"

section \<open>Selecting files\<close>

definition list_files :: "string \<Rightarrow> manifest \<Rightarrow> file_row list" where
  "list_files user_id M =
     sort_key f_path (map map_file
       (filter (\<lambda>r. d_user_id r = user_id \<and> LIVE r \<and> not_pack r) (m_files M)))"

definition list_trashed :: "string \<Rightarrow> manifest \<Rightarrow> file_row list" where
  "list_trashed user_id M =
     sort_desc (\<lambda>f. coalesce (f_deleted_at f) []) (sort_key f_path (map map_file
       (filter (\<lambda>r. d_user_id r = user_id \<and> d_deleted_at r \<noteq> None \<and> not_pack r) (m_files M))))"

definition list_lineage :: "string \<Rightarrow> string \<Rightarrow> manifest \<Rightarrow> file_row list" where
  "list_lineage user_id lineage M =
     sort_desc (\<lambda>f. (f_created_at f, f_file_id f)) (map map_file
       (filter (\<lambda>r. d_user_id r = user_id \<and> coalesce (d_lineage r) (d_file_id r) = lineage) (m_files M)))"

definition list_user_rows :: "string \<Rightarrow> manifest \<Rightarrow> file_row list" where
  "list_user_rows user_id M =
     sort_key f_path (map map_file (filter (\<lambda>r. d_user_id r = user_id) (m_files M)))"

definition list_all_files :: "manifest \<Rightarrow> file_row list" where
  "list_all_files M = sort_key (\<lambda>f. (f_user_id f, f_path f)) (map map_file (m_files M))"

definition optional_row :: "'a list \<Rightarrow> 'a option" where
  "optional_row rows = (case rows of [] \<Rightarrow> None | r # _ \<Rightarrow> Some r)"

definition get_file :: "string \<Rightarrow> string \<Rightarrow> manifest \<Rightarrow> file_row option" where
  "get_file user_id file_id M =
     optional_row (map map_file (filter (\<lambda>r. d_user_id r = user_id \<and> d_file_id r = file_id) (m_files M)))"

definition get_file_by_path :: "string \<Rightarrow> string \<Rightarrow> manifest \<Rightarrow> file_row option" where
  "get_file_by_path user_id path M =
     optional_row (map map_file
       (filter (\<lambda>r. d_user_id r = user_id \<and> d_path r = path \<and> LIVE r \<and> not_pack r) (m_files M)))"

definition get_chunks :: "string \<Rightarrow> manifest \<Rightarrow> chunk_row list" where
  "get_chunks file_id M = sort_key c_idx (filter (\<lambda>c. c_file_id c = file_id) (m_chunks M))"

definition get_shards :: "string \<Rightarrow> manifest \<Rightarrow> shard_row list" where
  "get_shards cid M = sort_key s_shard_index (filter (\<lambda>s. s_chunk_id s = cid) (m_shards M))"

section \<open>Trash and versions\<close>

datatype state_column = Deleted_at | Superseded_at

fun column_value :: "state_column \<Rightarrow> db_file \<Rightarrow> string option" where
  "column_value Deleted_at r = d_deleted_at r"
| "column_value Superseded_at r = d_superseded_at r"

fun set_column :: "state_column \<Rightarrow> string \<Rightarrow> db_file \<Rightarrow> db_file" where
  "set_column Deleted_at at r = r\<lparr>d_deleted_at := Some at\<rparr>"
| "set_column Superseded_at at r = r\<lparr>d_superseded_at := Some at\<rparr>"

definition retire_row :: "string \<Rightarrow> string \<Rightarrow> state_column \<Rightarrow> string \<Rightarrow> bool db_op" where
  "retire_row user_id file_id column at =
     sbind (update_files
              (\<lambda>r. d_user_id r = user_id \<and> d_file_id r = file_id \<and> column_value column r = None)
              (\<lambda>r. (set_column column at r)
                     \<lparr>d_retired_path := Some (coalesce (d_retired_path r) (d_path r)),
                      d_path := retired_key file_id\<rparr>))
       (\<lambda>n. sreturn (n > 0))"

definition trash_file :: "string \<Rightarrow> string \<Rightarrow> string \<Rightarrow> bool db_op" where
  "trash_file user_id file_id at = retire_row user_id file_id Deleted_at at"

definition supersede_file :: "string \<Rightarrow> string \<Rightarrow> string \<Rightarrow> bool db_op" where
  "supersede_file user_id file_id at = retire_row user_id file_id Superseded_at at"

definition restore_file :: "string \<Rightarrow> string \<Rightarrow> string \<Rightarrow> bool db_op" where
  "restore_file user_id file_id path =
     sbind (update_files (\<lambda>r. d_user_id r = user_id \<and> d_file_id r = file_id)
              (\<lambda>r. r\<lparr>d_deleted_at := None, d_superseded_at := None, d_retired_path := None,
                      d_path := path\<rparr>))
       (\<lambda>n. sreturn (n > 0))"

type_synonym purge_candidate = "string \<times> string \<times> int \<times> int"

definition purge_candidates :: "db_file list \<Rightarrow> purge_candidate list" where
  "purge_candidates rows = map (\<lambda>r. (d_user_id r, d_file_id r, d_size r, d_stored_bytes r)) rows"

definition before_cutoff :: "string option \<Rightarrow> string \<Rightarrow> bool" where
  "before_cutoff at cutoff = (case at of None \<Rightarrow> False | Some t \<Rightarrow> t < cutoff)"

definition trashed_before :: "string \<Rightarrow> manifest \<Rightarrow> purge_candidate list" where
  "trashed_before cutoff M =
     purge_candidates (filter (\<lambda>r. before_cutoff (d_deleted_at r) cutoff) (m_files M))"

definition superseded_before :: "string \<Rightarrow> manifest \<Rightarrow> purge_candidate list" where
  "superseded_before cutoff M =
     purge_candidates (filter (\<lambda>r. before_cutoff (d_superseded_at r) cutoff) (m_files M))"

text \<open>\<open>ROW_NUMBER()\<close> over the superseded rows of the same user and lineage, newest first. The file
  id is unique, so the rank is one more than the number of rows that come before.\<close>

definition version_rank :: "db_file list \<Rightarrow> db_file \<Rightarrow> int" where
  "version_rank rows r =
     1 + int (length (filter (\<lambda>q.
           d_user_id q = d_user_id r
           \<and> coalesce (d_lineage q) (d_file_id q) = coalesce (d_lineage r) (d_file_id r)
           \<and> (d_created_at r, d_file_id r) < (d_created_at q, d_file_id q)) rows))"

definition superseded_beyond :: "int \<Rightarrow> manifest \<Rightarrow> purge_candidate list" where
  "superseded_beyond keep M =
     (let rows = filter (\<lambda>r. d_superseded_at r \<noteq> None) (m_files M)
      in purge_candidates (filter (\<lambda>r. version_rank rows r > keep) rows))"

definition superseded_orphans :: "manifest \<Rightarrow> purge_candidate list" where
  "superseded_orphans M =
     purge_candidates (filter (\<lambda>f.
        d_superseded_at f \<noteq> None
        \<and> \<not> list_ex (\<lambda>l. d_user_id l = d_user_id f
               \<and> coalesce (d_lineage l) (d_file_id l) = coalesce (d_lineage f) (d_file_id f)
               \<and> d_superseded_at l = None) (m_files M)) (m_files M))"

text \<open>The shards of a file of this user, through the joins over chunks and files.\<close>

definition file_fragments :: "string \<Rightarrow> string \<Rightarrow> manifest \<Rightarrow> (string \<times> string) list" where
  "file_fragments user_id file_id M =
     map (\<lambda>s. (s_fragment_id s, s_location s))
       (filter (\<lambda>s. list_ex (\<lambda>c. c_chunk_id c = s_chunk_id s \<and> c_file_id c = file_id
                \<and> list_ex (\<lambda>r. d_file_id r = c_file_id c \<and> d_user_id r = user_id) (m_files M))
              (m_chunks M)) (m_shards M))"

definition purge_file_row :: "string \<Rightarrow> string \<Rightarrow> (string \<times> string) list db_op" where
  "purge_file_row user_id file_id M =
     (Ok (file_fragments user_id file_id M),
      delete_files (\<lambda>r. d_user_id r = user_id \<and> d_file_id r = file_id) M)"

section \<open>Packs\<close>

definition assign_to_pack :: "string \<Rightarrow> string \<Rightarrow> string \<Rightarrow> int \<Rightarrow> int \<Rightarrow> bool db_op" where
  "assign_to_pack user_id file_id pack_id offset len =
     sbind (update_files (\<lambda>r. d_user_id r = user_id \<and> d_file_id r = file_id)
              (\<lambda>r. r\<lparr>d_pack_id := Some pack_id, d_pack_offset := Some offset,
                      d_pack_len := Some len, d_chunk_count := 0, d_stored_bytes := 0\<rparr>))
       (\<lambda>n. sreturn (n > 0))"

definition strip_file_chunks :: "string \<Rightarrow> string \<Rightarrow> (string \<times> string) list db_op" where
  "strip_file_chunks user_id file_id M =
     (Ok (file_fragments user_id file_id M),
      delete_chunks (\<lambda>c. c_file_id c \<in> set (map d_file_id
          (filter (\<lambda>r. d_file_id r = file_id \<and> d_user_id r = user_id) (m_files M)))) M)"

definition packable :: "int \<Rightarrow> db_file \<Rightarrow> bool" where
  "packable max_size r \<longleftrightarrow>
     LIVE r \<and> d_pack_id r = None \<and> d_chunk_count r > 0 \<and> d_size r \<le> max_size \<and> not_pack r"

definition packable_files :: "string \<Rightarrow> int \<Rightarrow> manifest \<Rightarrow> file_row list" where
  "packable_files user_id max_size M =
     sort_key f_path (map map_file
       (filter (\<lambda>r. d_user_id r = user_id \<and> packable max_size r) (m_files M)))"

definition packable_user_ids :: "int \<Rightarrow> manifest \<Rightarrow> string list" where
  "packable_user_ids max_size M =
     sort (remdups (map d_user_id (filter (packable max_size) (m_files M))))"

definition pack_members :: "string \<Rightarrow> string \<Rightarrow> manifest \<Rightarrow> file_row list" where
  "pack_members user_id pack_id M =
     sort_key (\<lambda>f. coalesce (f_pack_offset f) (- (2 ^ 63) - 1)) (map map_file
       (filter (\<lambda>r. d_user_id r = user_id \<and> d_pack_id r = Some pack_id) (m_files M)))"

definition pack_occupancy :: "manifest \<Rightarrow> (file_row \<times> int \<times> int) list" where
  "pack_occupancy M =
     map (\<lambda>p. let ms = filter (\<lambda>r. d_pack_id r = Some (d_file_id p)) (m_files M)
               in (map_file p, sum_list (map (\<lambda>r. coalesce (d_pack_len r) 0) ms), int (length ms)))
       (sort_key (\<lambda>p. (d_user_id p, d_file_id p)) (filter (\<lambda>p. \<not> not_pack p) (m_files M)))"

section \<open>Folders\<close>

definition insert_folder_row :: "string \<Rightarrow> string \<Rightarrow> string \<Rightarrow> manifest \<Rightarrow> manifest" where
  "insert_folder_row user_id path parent M =
     (if (user_id, path) \<in> set (map (\<lambda>f. (fo_user_id f, fo_path f)) (m_folders M)) then M
      else M\<lparr>m_folders := m_folders M @ [\<lparr>fo_user_id = user_id, fo_path = path, fo_parent = parent\<rparr>]\<rparr>)"

fun insert_ancestors :: "string \<Rightarrow> string \<Rightarrow> string list \<Rightarrow> manifest \<Rightarrow> manifest" where
  "insert_ancestors user_id acc [] M = M"
| "insert_ancestors user_id acc (seg # segs) M =
     (let acc' = (if acc = [] then seg else acc @ ''/'' @ seg)
      in insert_ancestors user_id acc' segs (insert_folder_row user_id acc' (dirname acc') M))"

definition insert_folder :: "string \<Rightarrow> string \<Rightarrow> unit db_op" where
  "insert_folder user_id path M =
     (let path = trim_slashes path
      in if path = [] then (Ok (), M)
         else (Ok (), insert_ancestors user_id [] (path_segments path) M))"

definition folders_in :: "string \<Rightarrow> string \<Rightarrow> manifest \<Rightarrow> string list" where
  "folders_in user_id parent M =
     sort (map fo_path (filter (\<lambda>f. fo_user_id f = user_id \<and> fo_parent f = parent) (m_folders M)))"

definition folder_exists :: "string \<Rightarrow> string \<Rightarrow> manifest \<Rightarrow> bool" where
  "folder_exists user_id path M \<longleftrightarrow>
     length (filter (\<lambda>f. fo_user_id f = user_id \<and> fo_path f = path) (m_folders M)) > 0"

definition delete_folder_row :: "string \<Rightarrow> string \<Rightarrow> unit db_op" where
  "delete_folder_row user_id path M =
     (Ok (), M\<lparr>m_folders := filter (\<lambda>f. \<not> (fo_user_id f = user_id \<and> fo_path f = path)) (m_folders M)\<rparr>)"

text \<open>The subtree test shared by the folder queries: \<open>path = ?2 OR path LIKE '{path}/%'\<close>.\<close>

definition at_or_under :: "string \<Rightarrow> string \<Rightarrow> bool" where
  "at_or_under path p \<longleftrightarrow> p = path \<or> sql_like (path @ ''/'' @ ''%'') p"

definition delete_folder_subtree :: "string \<Rightarrow> string \<Rightarrow> unit db_op" where
  "delete_folder_subtree user_id path M =
     (Ok (), M\<lparr>m_folders :=
        filter (\<lambda>f. \<not> (fo_user_id f = user_id \<and> at_or_under path (fo_path f))) (m_folders M)\<rparr>)"

definition files_under :: "string \<Rightarrow> string \<Rightarrow> manifest \<Rightarrow> (string \<times> string) list" where
  "files_under user_id path M =
     sort_key snd (map (\<lambda>r. (d_file_id r, d_path r))
       (filter (\<lambda>r. d_user_id r = user_id \<and> at_or_under path (d_path r) \<and> LIVE r) (m_files M)))"

definition folders_under :: "string \<Rightarrow> string \<Rightarrow> manifest \<Rightarrow> string list" where
  "folders_under user_id path M =
     sort (map fo_path (filter (\<lambda>f. fo_user_id f = user_id \<and> at_or_under path (fo_path f)) (m_folders M)))"

definition update_file_path :: "string \<Rightarrow> string \<Rightarrow> string \<Rightarrow> unit db_op" where
  "update_file_path user_id file_id new_path =
     sbind (update_files (\<lambda>r. d_user_id r = user_id \<and> d_file_id r = file_id)
              (\<lambda>r. r\<lparr>d_path := new_path\<rparr>))
       (\<lambda>n. sreturn ())"

definition update_folder_path :: "string \<Rightarrow> string \<Rightarrow> string \<Rightarrow> unit db_op" where
  "update_folder_path user_id old new M =
     (let rows = map (\<lambda>f. if fo_user_id f = user_id \<and> fo_path f = old
                       then f\<lparr>fo_path := new, fo_parent := dirname new\<rparr> else f) (m_folders M)
      in if \<not> distinct (map (\<lambda>f. (fo_user_id f, fo_path f)) rows)
         then (Err (Sqlite ''UNIQUE constraint failed: folders.user_id, folders.path''), M)
         else (Ok (), M\<lparr>m_folders := rows\<rparr>))"

section \<open>The invariant\<close>

text \<open>
  The schema's constraints, and the discipline of the path column: a row is retired (trashed or
  superseded) exactly when it has a retired path, and then its path is the tombstone key of its
  id, so that \<open>UNIQUE (user_id, path)\<close> guards the live namespace alone.
\<close>

definition retired :: "db_file \<Rightarrow> bool" where
  "retired r \<longleftrightarrow> d_deleted_at r \<noteq> None \<or> d_superseded_at r \<noteq> None"

definition row_ok :: "db_file \<Rightarrow> bool" where
  "row_ok r \<longleftrightarrow>
     (d_retired_path r \<noteq> None \<longleftrightarrow> retired r)
     \<and> (retired r \<longrightarrow> d_path r = retired_key (d_file_id r))"

definition manifest_inv :: "manifest \<Rightarrow> bool" where
  "manifest_inv M \<longleftrightarrow>
     distinct (map d_file_id (m_files M)) \<and> uniq_paths (m_files M)
     \<and> list_all row_ok (m_files M)
     \<and> distinct (map c_chunk_id (m_chunks M))
     \<and> (\<forall>c \<in> set (m_chunks M). c_file_id c \<in> d_file_id ` set (m_files M))
     \<and> distinct (map s_fragment_id (m_shards M))
     \<and> (\<forall>s \<in> set (m_shards M). s_chunk_id s \<in> c_chunk_id ` set (m_chunks M))
     \<and> distinct (map (\<lambda>f. (fo_user_id f, fo_path f)) (m_folders M))"

lemma not_LIVE_iff: "\<not> LIVE r \<longleftrightarrow> retired r"
  by (simp add: LIVE_def retired_def)

lemma inv_shard_chunk:
  "manifest_inv M \<Longrightarrow> s \<in> set (m_shards M) \<Longrightarrow> s_chunk_id s \<in> c_chunk_id ` set (m_chunks M)"
  by (simp add: manifest_inv_def)

lemma inv_chunk_file:
  "manifest_inv M \<Longrightarrow> c \<in> set (m_chunks M) \<Longrightarrow> c_file_id c \<in> d_file_id ` set (m_files M)"
  by (simp add: manifest_inv_def)

lemma inv_file_ids:
  "manifest_inv M \<Longrightarrow> x \<in> set (m_files M) \<Longrightarrow> y \<in> set (m_files M) \<Longrightarrow>
   d_file_id x = d_file_id y \<Longrightarrow> x = y"
  by (auto simp: manifest_inv_def distinct_map dest: inj_onD)

lemma inv_chunk_ids:
  "manifest_inv M \<Longrightarrow> x \<in> set (m_chunks M) \<Longrightarrow> y \<in> set (m_chunks M) \<Longrightarrow>
   c_chunk_id x = c_chunk_id y \<Longrightarrow> x = y"
  by (auto simp: manifest_inv_def distinct_map dest: inj_onD)

lemma inv_fragment_ids:
  "manifest_inv M \<Longrightarrow> x \<in> set (m_shards M) \<Longrightarrow> y \<in> set (m_shards M) \<Longrightarrow>
   s_fragment_id x = s_fragment_id y \<Longrightarrow> x = y"
  by (auto simp: manifest_inv_def distinct_map dest: inj_onD)

lemma inv_fragments_distinct: "manifest_inv M \<Longrightarrow> distinct (map s_fragment_id (m_shards M))"
  by (simp add: manifest_inv_def)

lemma inv_chunks_distinct: "manifest_inv M \<Longrightarrow> distinct (map c_chunk_id (m_chunks M))"
  by (simp add: manifest_inv_def)

lemma empty_manifest_inv: "manifest_inv empty_manifest"
  by (simp add: manifest_inv_def empty_manifest_def uniq_paths_def)

lemma distinct_map_filter': "distinct (map f xs) \<Longrightarrow> distinct (map f (filter p xs))"
  by (simp add: distinct_map inj_on_def)

lemma insert_file_inv:
  assumes "manifest_inv M" "insert_file f M = (r, M')"
  shows "manifest_inv M'"
  using assms
  by (auto simp: insert_file_def Let_def manifest_inv_def row_ok_def retired_def split: if_splits)

lemma insert_chunk_inv:
  "manifest_inv M \<Longrightarrow> insert_chunk c M = (r, M') \<Longrightarrow> manifest_inv M'"
  by (auto simp: insert_chunk_def manifest_inv_def split: if_splits)

lemma insert_shard_inv:
  "manifest_inv M \<Longrightarrow> insert_shard s M = (r, M') \<Longrightarrow> manifest_inv M'"
  by (auto simp: insert_shard_def manifest_inv_def split: if_splits)

lemma set_shard_location_inv:
  assumes "manifest_inv M" "set_shard_location fid loc M = (r, M')"
  shows "manifest_inv M'"
proof -
  have "map s_fragment_id (m_shards M') = map s_fragment_id (m_shards M)"
    using assms(2) by (auto simp: set_shard_location_def)
  then show ?thesis using assms by (auto simp: set_shard_location_def manifest_inv_def)
qed

lemma update_files_Ok:
  "update_files p f M = (r, M') \<Longrightarrow>
   M' = M \<and> (\<exists>e. r = Err e)
   \<or> M' = M\<lparr>m_files := map (\<lambda>r. if p r then f r else r) (m_files M)\<rparr>
     \<and> r = Ok (length (filter p (m_files M)))
     \<and> uniq_paths (map (\<lambda>r. if p r then f r else r) (m_files M))"
  by (auto simp: update_files_def Let_def split: if_splits)

lemma update_files_inv:
  assumes "manifest_inv M" "update_files p f M = (r, M')"
    and "\<And>x. d_file_id (f x) = d_file_id x"
    and "\<And>x. x \<in> set (m_files M) \<Longrightarrow> p x \<Longrightarrow> row_ok x \<Longrightarrow> row_ok (f x)"
  shows "manifest_inv M'"
  using update_files_Ok [OF assms(2)]
proof
  assume "M' = M \<and> (\<exists>e. r = Err e)"
  then show ?thesis using assms(1) by simp
next
  define rows where "rows = map (\<lambda>r. if p r then f r else r) (m_files M)"
  assume "M' = M\<lparr>m_files := map (\<lambda>r. if p r then f r else r) (m_files M)\<rparr>
    \<and> r = Ok (length (filter p (m_files M)))
    \<and> uniq_paths (map (\<lambda>r. if p r then f r else r) (m_files M))"
  then have u: "M' = M\<lparr>m_files := rows\<rparr>" "uniq_paths rows" by (simp_all add: rows_def)
  have ids: "map d_file_id rows = map d_file_id (m_files M)" using assms(3) by (simp add: rows_def)
  then have "d_file_id ` set rows = d_file_id ` set (m_files M)" by (metis set_map)
  moreover have "list_all row_ok rows"
    using assms(1,4) by (auto simp: rows_def manifest_inv_def list_all_iff)
  ultimately show ?thesis using u assms(1) ids by (simp add: manifest_inv_def)
qed

lemma retire_row_inv:
  assumes "manifest_inv M" "retire_row u fid col at M = (r, M')"
  shows "manifest_inv M'"
proof -
  obtain n where "update_files
      (\<lambda>r. d_user_id r = u \<and> d_file_id r = fid \<and> column_value col r = None)
      (\<lambda>r. (set_column col at r)\<lparr>d_retired_path := Some (coalesce (d_retired_path r) (d_path r)),
             d_path := retired_key fid\<rparr>) M = (n, M')"
    using assms(2) by (auto simp: retire_row_def sbind_def split: prod.splits result.splits)
  from assms(1) this show ?thesis
  proof (rule update_files_inv)
    show "row_ok ((set_column col at x)\<lparr>d_retired_path := Some (coalesce (d_retired_path x) (d_path x)),
             d_path := retired_key fid\<rparr>)"
      if "d_user_id x = u \<and> d_file_id x = fid \<and> column_value col x = None" for x
      using that by (cases col) (simp_all add: row_ok_def retired_def)
  qed (cases col, auto)
qed

lemmas trash_file_inv = retire_row_inv [where col = Deleted_at, folded trash_file_def]
lemmas supersede_file_inv = retire_row_inv [where col = Superseded_at, folded supersede_file_def]

lemma restore_file_inv:
  assumes "manifest_inv M" "restore_file u fid path M = (r, M')"
  shows "manifest_inv M'"
proof -
  obtain n where "update_files (\<lambda>r. d_user_id r = u \<and> d_file_id r = fid)
      (\<lambda>r. r\<lparr>d_deleted_at := None, d_superseded_at := None, d_retired_path := None,
             d_path := path\<rparr>) M = (n, M')"
    using assms(2) by (auto simp: restore_file_def sbind_def split: prod.splits result.splits)
  then show ?thesis
    by (rule update_files_inv [OF assms(1)]) (auto simp: row_ok_def retired_def)
qed

lemma assign_to_pack_inv:
  assumes "manifest_inv M" "assign_to_pack u fid pid off len M = (r, M')"
  shows "manifest_inv M'"
proof -
  obtain n where "update_files (\<lambda>r. d_user_id r = u \<and> d_file_id r = fid)
      (\<lambda>r. r\<lparr>d_pack_id := Some pid, d_pack_offset := Some off,
                      d_pack_len := Some len, d_chunk_count := 0, d_stored_bytes := 0\<rparr>) M = (n, M')"
    using assms(2) by (auto simp: assign_to_pack_def sbind_def split: prod.splits result.splits)
  then show ?thesis
    by (rule update_files_inv [OF assms(1)]) (auto simp: row_ok_def retired_def)
qed

lemma update_file_path_inv:
  assumes "manifest_inv M" "update_file_path u fid path M = (r, M')"
    and "\<And>x. x \<in> set (m_files M) \<Longrightarrow> d_user_id x = u \<Longrightarrow> d_file_id x = fid \<Longrightarrow> LIVE x"
  shows "manifest_inv M'"
proof -
  obtain n where "update_files (\<lambda>r. d_user_id r = u \<and> d_file_id r = fid)
      (\<lambda>r. r\<lparr>d_path := path\<rparr>) M = (n, M')"
    using assms(2) by (auto simp: update_file_path_def sbind_def split: prod.splits result.splits)
  then show ?thesis
    by (rule update_files_inv [OF assms(1)]) (use assms(3) in \<open>auto simp: row_ok_def retired_def LIVE_def\<close>)
qed

lemma delete_chunks_inv:
  assumes "manifest_inv M"
  shows "manifest_inv (delete_chunks p M)"
proof -
  have "s_chunk_id s \<in> c_chunk_id ` set (filter (\<lambda>c. \<not> p c) (m_chunks M))"
    if "s \<in> set (m_shards M)" "s_chunk_id s \<notin> c_chunk_id ` set (filter p (m_chunks M))" for s
    using that assms by (force simp: manifest_inv_def)
  then show ?thesis
    using assms by (auto simp: manifest_inv_def delete_chunks_def distinct_map_filter')
qed

lemma delete_files_inv:
  assumes "manifest_inv M"
  shows "manifest_inv (delete_files p M)"
proof -
  have "c_file_id c \<in> d_file_id ` set (filter (\<lambda>r. \<not> p r) (m_files M))"
    if "c \<in> set (m_chunks M)" "c_file_id c \<notin> d_file_id ` set (filter p (m_files M))" for c
    using that assms by (force simp: manifest_inv_def)
  moreover have "s_chunk_id s \<in> c_chunk_id ` set (filter (\<lambda>c. \<not> q c) (m_chunks M))"
    if "s \<in> set (m_shards M)" "s_chunk_id s \<notin> c_chunk_id ` set (filter q (m_chunks M))" for s q
    using that assms by (force simp: manifest_inv_def)
  ultimately show ?thesis
    using assms
    by (auto simp: manifest_inv_def delete_files_def delete_chunks_def distinct_map_filter'
        uniq_paths_def list_all_iff)
qed

lemma purge_file_row_inv: "manifest_inv M \<Longrightarrow> purge_file_row u fid M = (r, M') \<Longrightarrow> manifest_inv M'"
  by (auto simp: purge_file_row_def delete_files_inv)

lemma strip_file_chunks_inv:
  "manifest_inv M \<Longrightarrow> strip_file_chunks u fid M = (r, M') \<Longrightarrow> manifest_inv M'"
  by (auto simp: strip_file_chunks_def delete_chunks_inv)

lemma insert_ancestors_inv: "manifest_inv M \<Longrightarrow> manifest_inv (insert_ancestors u acc segs M)"
proof (induction segs arbitrary: acc M)
  case (Cons seg segs)
  have "manifest_inv (insert_folder_row u p q M)" for p q
    using Cons.prems by (auto simp: insert_folder_row_def manifest_inv_def)
  then show ?case using Cons.IH by (simp add: Let_def)
qed simp

lemma insert_folder_inv: "manifest_inv M \<Longrightarrow> insert_folder u path M = (r, M') \<Longrightarrow> manifest_inv M'"
  by (auto simp: insert_folder_def Let_def insert_ancestors_inv split: if_splits)

lemma delete_folder_inv:
  "manifest_inv M \<Longrightarrow> delete_folder_row u path M = (r, M') \<Longrightarrow> manifest_inv M'"
  "manifest_inv M \<Longrightarrow> delete_folder_subtree u path M = (r, M') \<Longrightarrow> manifest_inv M'"
  by (auto simp: delete_folder_row_def delete_folder_subtree_def manifest_inv_def distinct_map_filter')

lemma update_folder_path_inv:
  "manifest_inv M \<Longrightarrow> update_folder_path u old new M = (r, M') \<Longrightarrow> manifest_inv M'"
  by (auto simp: update_folder_path_def manifest_inv_def Let_def split: if_splits)

lemmas manifest_inv_intros =
  insert_file_inv insert_chunk_inv insert_shard_inv set_shard_location_inv trash_file_inv
  supersede_file_inv restore_file_inv assign_to_pack_inv purge_file_row_inv strip_file_chunks_inv
  insert_folder_inv delete_folder_inv update_folder_path_inv

end
