(* ===== verification/Packing.thy ===== *)
theory Packing
  imports Manifest
begin

text \<open>
  The pack container format and the pack planner of \<open>store/src/service.rs\<close>: members' bytes, an
  index trailer that describes them, its length and a magic. Writing and rewriting packs through
  the manifest is in theory \<open>Repack\<close>.
\<close>

definition SMALL_MAX :: nat where
  "SMALL_MAX = 256 * 1024"

definition PACK_TARGET :: nat where
  "PACK_TARGET = 1024 * 1024"

definition PACK_MAGIC :: bytes where
  "PACK_MAGIC = as_bytes ''P2PNPAK1''"

record pack_entry =
  pe_file_id :: string
  pe_data :: bytes

type_synonym pack_index_entry = "string \<times> u64 \<times> u64"
type_synonym pack_range = "u64 \<times> u64"

fun pack_ranges :: "nat \<Rightarrow> pack_entry list \<Rightarrow> pack_range list" where
  "pack_ranges at [] = []"
| "pack_ranges at (e # es) =
     (word_of_nat at, word_of_nat (length (pe_data e))) # pack_ranges (at + length (pe_data e)) es"

definition index_record :: "pack_index_entry \<Rightarrow> (bytes, store_error) result" where
  "index_record ent =
     (let (fid, off, len) = ent; idb = as_bytes fid
      in if length idb \<ge> 2 ^ 32
         then Err (Integrity (''file id of '' @ fid @ '' too long for a pack index''))
         else Ok (be_bytes 4 (length idb) @ idb @ u64_be off @ u64_be len))"

definition build_pack :: "pack_entry list \<Rightarrow> (bytes \<times> pack_range list, store_error) result" where
  "build_pack entries =
     (let payload = concat (map pe_data entries); ranges = pack_ranges 0 entries
      in rbind (rmapM index_record (zip (map pe_file_id entries) ranges)) (\<lambda>recs.
         let index = concat recs
         in if length index \<ge> 2 ^ 32 then Err (Integrity ''pack index too large'')
            else Ok (payload @ index @ be_bytes 4 (length index) @ PACK_MAGIC, ranges)))"

definition take_front :: "nat \<Rightarrow> bytes \<Rightarrow> (bytes \<times> bytes) option" where
  "take_front n cur = (if length cur < n then None else Some (take n cur, drop n cur))"

definition read_index_entry :: "bytes \<Rightarrow> (pack_index_entry \<times> bytes) option" where
  "read_index_entry cur =
     Option.bind (take_front 4 cur) (\<lambda>(id_len, cur).
     Option.bind (take_front (of_be id_len) cur) (\<lambda>(idb, cur).
     Option.bind (take_front 8 cur) (\<lambda>(off, cur).
     Option.bind (take_front 8 cur) (\<lambda>(len, cur).
     Option.bind (from_utf8 idb) (\<lambda>fid.
     Some ((fid, word_of_nat (of_be off), word_of_nat (of_be len)), cur))))))"

definition pack_corrupt :: "string \<Rightarrow> store_error" where
  "pack_corrupt what = Integrity (''pack trailer: '' @ what)"

text \<open>The reading loop: every entry takes at least twenty bytes, so the length of the index is
  enough fuel (\<open>index_fuel_enough\<close>).\<close>

definition parse_pack_index :: "bytes \<Rightarrow> (pack_index_entry list, store_error) result" where
  "parse_pack_index plain =
     (let n = length plain; ml = length PACK_MAGIC
      in if n < ml \<or> drop (n - ml) plain \<noteq> PACK_MAGIC then Err (pack_corrupt ''missing magic'')
         else
           let magic_at = n - ml
           in if magic_at < 4 then Err (pack_corrupt ''truncated before index length'')
              else
                let len_at = magic_at - 4;
                    index_len = of_be (take 4 (drop len_at plain))
                in if len_at < index_len then Err (pack_corrupt ''index longer than the pack'')
                   else
                     let cur = take index_len (drop (len_at - index_len) plain)
                     in ok_or (pack_corrupt ''malformed index entry'')
                          (decode_seq read_index_entry (length cur) cur))"

definition member_slice :: "bytes \<Rightarrow> file_row \<Rightarrow> (bytes, store_error) result" where
  "member_slice plain member =
     (let range_err = Integrity (''member '' @ f_file_id member @ '' has an invalid pack range'')
      in case (f_pack_offset member, f_pack_len member) of
           (Some off, Some len) \<Rightarrow>
             if off < 0 \<or> len < 0 then Err range_err
             else if nat off + nat len \<ge> 2 ^ 64 then Err range_err
             else if nat off + nat len > length plain then Err range_err
             else Ok (take (nat len) (drop (nat off) plain))
         | _ \<Rightarrow> Err range_err)"

text \<open>The grouping loop of the planner: the open group, its bytes, the closed groups.\<close>

fun plan_groups :: "int \<Rightarrow> file_row list \<Rightarrow> int \<Rightarrow> file_row list \<Rightarrow> file_row list list" where
  "plan_groups target grp bytes [] = (if grp = [] then [] else [grp])"
| "plan_groups target grp bytes (f # fs) =
     (if grp \<noteq> [] \<and> bytes + f_size f > target
      then grp # plan_groups target [f] (f_size f) fs
      else plan_groups target (grp @ [f]) (bytes + f_size f) fs)"

definition plan_packs :: "file_row list \<Rightarrow> int \<Rightarrow> file_row list list" where
  "plan_packs files target = filter (\<lambda>g. length g \<ge> 2) (plan_groups target [] 0 files)"

section \<open>The index format\<close>

definition index_bytes :: "pack_index_entry \<Rightarrow> bytes" where
  "index_bytes ent =
     (case ent of (fid, off, len) \<Rightarrow>
        be_bytes 4 (length fid) @ as_bytes fid @ u64_be off @ u64_be len)"

definition index_entry_ok :: "pack_index_entry \<Rightarrow> bool" where
  "index_entry_ok ent \<longleftrightarrow> length (fst ent) < 2 ^ 32 \<and> utf8_valid (as_bytes (fst ent))"

lemma index_record_Ok: "index_record ent = Ok bs \<longleftrightarrow> bs = index_bytes ent \<and> length (fst ent) < 2 ^ 32"
  by (cases ent) (auto simp: index_record_def index_bytes_def Let_def)

lemma take_front_append [simp]: "length a = n \<Longrightarrow> take_front n (a @ b) = Some (a, b)"
  by (simp add: take_front_def)

lemma read_index_bytes:
  "index_entry_ok ent \<Longrightarrow> read_index_entry (index_bytes ent @ rest) = Some (ent, rest)"
  by (cases ent)
     (simp add: read_index_entry_def index_bytes_def index_entry_ok_def of_be_be_bytes_small
       from_utf8_as_bytes)

interpretation pk: prefix_codec index_bytes read_index_entry index_entry_ok
proof
  show "index_bytes x \<noteq> []" if "index_entry_ok x" for x
  proof -
    have "0 < length (index_bytes x)" by (cases x) (simp add: index_bytes_def)
    then show ?thesis by auto
  qed
qed (rule read_index_bytes)

lemma read_index_entry_consumes:
  "read_index_entry bs = Some (x, rest) \<Longrightarrow> length rest < length bs"
  by (auto simp: read_index_entry_def take_front_def bind_eq_Some_conv split: if_splits prod.splits)

lemma index_fuel_enough:
  "length bs \<le> n \<Longrightarrow> decode_seq read_index_entry n bs = decode_seq read_index_entry (length bs) bs"
  by (rule decode_seq_enough) (auto dest: read_index_entry_consumes)

lemma length_pack_ranges [simp]: "length (pack_ranges at es) = length es"
  by (induction es arbitrary: at) auto

lemma nth_pack_ranges:
  "i < length es \<Longrightarrow> pack_ranges at es ! i =
     (word_of_nat (at + length (concat (map pe_data (take i es)))), word_of_nat (length (pe_data (es ! i))))"
proof (induction es arbitrary: at i)
  case (Cons e es)
  then show ?case by (cases i) (simp_all add: add.assoc)
qed simp

lemma concat_slice:
  "i < length xs \<Longrightarrow> take (length (xs ! i)) (drop (length (concat (take i xs))) (concat xs @ ys)) = xs ! i"
proof (induction xs arbitrary: i)
  case (Cons x xs)
  then show ?case by (cases i) simp_all
qed simp

lemma concat_slice_bound:
  "i < length xs \<Longrightarrow> length (concat (take i xs)) + length (xs ! i) \<le> length (concat xs)"
proof (induction xs arbitrary: i)
  case (Cons x xs)
  then show ?case by (cases i) (simp_all add: add.assoc)
qed simp

lemma build_pack_Ok:
  assumes "build_pack es = Ok (plain, ranges)"
  shows "ranges = pack_ranges 0 es"
    "plain = concat (map pe_data es)
       @ concat (map index_bytes (zip (map pe_file_id es) ranges))
       @ be_bytes 4 (length (concat (map index_bytes (zip (map pe_file_id es) ranges)))) @ PACK_MAGIC"
    "length (concat (map index_bytes (zip (map pe_file_id es) ranges))) < 2 ^ 32"
    "\<forall>i < length es. length (pe_file_id (es ! i)) < 2 ^ 32"
proof -
  let ?z = "zip (map pe_file_id es) (pack_ranges 0 es)"
  obtain recs where r: "rmapM index_record ?z = Ok recs"
    and p: "length (concat recs) < 2 ^ 32" "ranges = pack_ranges 0 es"
      "plain = concat (map pe_data es) @ concat recs @ be_bytes 4 (length (concat recs)) @ PACK_MAGIC"
    using assms by (auto simp: build_pack_def Let_def split: if_splits)
  have n: "length recs = length ?z" "\<And>i. i < length ?z \<Longrightarrow> recs ! i = index_bytes (?z ! i) \<and> length (fst (?z ! i)) < 2 ^ 32"
    using r by (auto simp: rmapM_Ok_iff index_record_Ok)
  then have "recs = map index_bytes ?z" by (intro nth_equalityI) auto
  with p show "ranges = pack_ranges 0 es"
    "plain = concat (map pe_data es)
       @ concat (map index_bytes (zip (map pe_file_id es) ranges))
       @ be_bytes 4 (length (concat (map index_bytes (zip (map pe_file_id es) ranges)))) @ PACK_MAGIC"
    "length (concat (map index_bytes (zip (map pe_file_id es) ranges))) < 2 ^ 32"
    by simp_all
  show "\<forall>i < length es. length (pe_file_id (es ! i)) < 2 ^ 32" using n(2) by auto
qed

lemma build_pack_parse:
  assumes b: "build_pack es = Ok (plain, ranges)"
    and utf: "\<forall>e \<in> set es. utf8_valid (as_bytes (pe_file_id e))"
  shows "parse_pack_index plain = Ok (zip (map pe_file_id es) ranges)"
proof -
  let ?z = "zip (map pe_file_id es) ranges"
  let ?ix = "concat (map index_bytes ?z)"
  note p = build_pack_Ok [OF b]
  have ok: "list_all index_entry_ok ?z"
    using p(1,4) utf by (auto simp: list_all_length index_entry_ok_def)
  have ml: "length PACK_MAGIC = 8" by (simp add: PACK_MAGIC_def)
  have "decode_seq read_index_entry (length ?ix) ?ix = Some ?z"
    by (rule pk.decode_seq_concat [OF ok]) simp
  then show ?thesis
    using p(3) unfolding p(2)
    by (simp add: parse_pack_index_def Let_def ml of_be_be_bytes_small del: length_concat)
qed

lemma build_pack_slice:
  assumes b: "build_pack es = Ok (plain, ranges)" and len: "length plain < 2 ^ 63"
    and i: "i < length es"
    and row: "f_pack_offset m = Some (sint (fst (ranges ! i)))" "f_pack_len m = Some (sint (snd (ranges ! i)))"
  shows "member_slice plain m = Ok (pe_data (es ! i))"
proof -
  note p = build_pack_Ok [OF b]
  let ?ds = "map pe_data es"
  let ?off = "length (concat (take i ?ds))" and ?len = "length (pe_data (es ! i))"
  have bound: "?off + ?len \<le> length plain"
    using concat_slice_bound [of i ?ds] i unfolding p(2) by simp
  have s: "sint (word_of_nat n :: u64) = int n" if "n < 2 ^ 63" for n
    using that by (simp add: sint_sbintrunc' signed_take_bit_int_eq_self take_bit_nat_eq_self signed_of_nat)
  have "ranges ! i = (word_of_nat ?off, word_of_nat ?len)"
    using p(1) nth_pack_ranges [OF i, of 0] by (simp add: take_map)
  then have o: "f_pack_offset m = Some (int ?off)" "f_pack_len m = Some (int ?len)"
    using row s bound len by simp_all
  obtain tail where "plain = concat ?ds @ tail" using p(2) by blast
  then have "take ?len (drop ?off plain) = pe_data (es ! i)"
    using concat_slice [of i ?ds tail] i by simp
  then show ?thesis
    using o bound len by (simp add: member_slice_def Let_def)
qed

section \<open>The planner\<close>

lemma concat_plan_groups: "concat (plan_groups t g b fs) = g @ fs"
  by (induction t g b fs rule: plan_groups.induct) auto

lemma plan_groups_nonempty: "x \<in> set (plan_groups t g b fs) \<Longrightarrow> x \<noteq> []"
  by (induction t g b fs rule: plan_groups.induct) (auto split: if_splits)

text \<open>Every group fits the target or is a single file.\<close>

lemma plan_groups_fit:
  assumes "x \<in> set (plan_groups t g b fs)" "b = sum_list (map f_size g)" "g = [] \<or> length g = 1 \<or> b \<le> t"
  shows "length x = 1 \<or> sum_list (map f_size x) \<le> t"
  using assms
proof (induction fs arbitrary: g b)
  case Nil
  then have "x = g" "g \<noteq> []" by (simp_all split: if_splits)
  then show ?case using Nil.prems(2,3) by metis
next
  case (Cons f fs)
  show ?case
  proof (cases "g \<noteq> [] \<and> b + f_size f > t")
    case True
    then have "x = g \<or> x \<in> set (plan_groups t [f] (f_size f) fs)" using Cons.prems(1) by simp
    then show ?thesis
    proof
      assume "x = g"
      then show ?thesis using Cons.prems(2,3) True by metis
    next
      assume "x \<in> set (plan_groups t [f] (f_size f) fs)"
      then show ?thesis by (rule Cons.IH) simp_all
    qed
  next
    case False
    then have "x \<in> set (plan_groups t (g @ [f]) (b + f_size f) fs)"
      using Cons.prems(1) by (simp only: plan_groups.simps if_False)
    then show ?thesis
    proof (rule Cons.IH)
      show "b + f_size f = sum_list (map f_size (g @ [f]))" using Cons.prems(2) by simp
      show "g @ [f] = [] \<or> length (g @ [f]) = 1 \<or> b + f_size f \<le> t" using False by auto
    qed
  qed
qed

lemma subseq_concat_filter: "subseq (concat (filter p xs)) (concat xs)"
  by (induction xs) (auto intro: list_emb_append_mono list_emb_append2)

section \<open>Properties\<close>

text \<open>A pack describes itself. From the container's bytes alone the index reader recovers every
  member's id and range in order, and cutting the plaintext at a range, taken as the signed column
  values the manifest stores, gives exactly that member's bytes.\<close>

theorem pack_roundtrip:
  assumes "build_pack es = Ok (plain, ranges)" "length plain < 2 ^ 63"
    and "\<forall>e \<in> set es. utf8_valid (as_bytes (pe_file_id e))"
  shows "parse_pack_index plain = Ok (zip (map pe_file_id es) ranges)
     \<and> map (\<lambda>i. member_slice plain (m\<lparr>f_pack_offset := Some (sint (fst (ranges ! i))),
                                      f_pack_len := Some (sint (snd (ranges ! i)))\<rparr>)) [0..<length es]
       = map (\<lambda>e. Ok (pe_data e)) es"
proof
  show "parse_pack_index plain = Ok (zip (map pe_file_id es) ranges)"
    by (rule build_pack_parse [OF assms(1,3)])
  show "map (\<lambda>i. member_slice plain (m\<lparr>f_pack_offset := Some (sint (fst (ranges ! i))),
                                      f_pack_len := Some (sint (snd (ranges ! i)))\<rparr>)) [0..<length es]
       = map (\<lambda>e. Ok (pe_data e)) es"
    by (rule nth_equalityI) (simp_all add: build_pack_slice [OF assms(1,2)])
qed

definition demo_entries :: "pack_entry list" where
  "demo_entries = [\<lparr>pe_file_id = ''a'', pe_data = [1, 2]\<rparr>, \<lparr>pe_file_id = ''b'', pe_data = [3]\<rparr>]"

theorem pack_roundtrip_witness:
  "\<exists>plain ranges. build_pack demo_entries = Ok (plain, ranges)
     \<and> parse_pack_index plain = Ok [(''a'', 0, 2), (''b'', 2, 1)]"
proof -
  obtain plain where b: "build_pack demo_entries = Ok (plain, [(0, 2), (2, 1)])"
    and n: "length plain < 2 ^ 63"
    by (simp add: build_pack_def demo_entries_def index_record_def Let_def PACK_MAGIC_def)
  have "\<forall>e \<in> set demo_entries. utf8_valid (as_bytes (pe_file_id e))"
    by (simp add: demo_entries_def as_bytes_def)
  from pack_roundtrip [OF b n this] b show ?thesis by (simp add: demo_entries_def)
qed

text \<open>The pack planner. Its groups, in order, are a subsequence of the candidates (no file is
  taken twice or reordered), each has at least two files and fits the target, and no grouping loses a
  file other than by dropping groups of one.\<close>

theorem plan_packs_sound:
  "subseq (concat (plan_packs files target)) files
   \<and> list_all (\<lambda>g. 2 \<le> length g \<and> sum_list (map f_size g) \<le> target) (plan_packs files target)
   \<and> (\<exists>gs. concat gs = files \<and> plan_packs files target = filter (\<lambda>g. length g \<noteq> 1) gs)"
proof -
  let ?gs = "plan_groups target [] 0 files"
  have c: "concat ?gs = files" by (simp add: concat_plan_groups)
  have "subseq (concat (plan_packs files target)) files"
    using subseq_concat_filter [of "\<lambda>g. length g \<ge> 2" ?gs] c by (simp add: plan_packs_def)
  moreover have "list_all (\<lambda>g. 2 \<le> length g \<and> sum_list (map f_size g) \<le> target) (plan_packs files target)"
    using plan_groups_fit [of _ target "[]" 0 files] by (fastforce simp: plan_packs_def list_all_iff)
  moreover have "plan_packs files target = filter (\<lambda>g. length g \<noteq> 1) ?gs"
    unfolding plan_packs_def
  proof (rule filter_cong)
    fix g assume "g \<in> set ?gs"
    then have "g \<noteq> []" by (rule plan_groups_nonempty)
    then show "(2 \<le> length g) = (length g \<noteq> 1)" by (cases g) (auto simp: Suc_le_eq)
  qed simp
  ultimately show ?thesis using c by blast
qed

end
