(* ===== verification/Service.thy ===== *)
theory Service
  imports Packing
begin

text \<open>
  \<open>store/src/service.rs\<close> up to the packing section, and the identity it reads: storing and reading
  files, trash and versions, permanent deletion, the retention sweep, folders and renames. The state
  is the manifest and the disk. A transaction that does not commit leaves the manifest as it was;
  what it wrote to the disk stays. The clock and the random file id are arguments.
\<close>

record node_identity =
  id_data_key :: data_key
  id_manifest_key_hex :: string
  id_peer_id :: string

record node =
  nd_manifest :: manifest
  nd_disk :: disk

type_synonym 'a node_op = "(node, 'a, store_error) op"

definition on_db :: "'a db_op \<Rightarrow> 'a node_op" where
  "on_db m S = (case m (nd_manifest S) of (r, M) \<Rightarrow> (r, S\<lparr>nd_manifest := M\<rparr>))"

definition on_disk :: "(disk, 'a, store_error) op \<Rightarrow> 'a node_op" where
  "on_disk m S = (case m (nd_disk S) of (r, D) \<Rightarrow> (r, S\<lparr>nd_disk := D\<rparr>))"

definition transaction :: "'a node_op \<Rightarrow> 'a node_op" where
  "transaction m S =
     (case m S of
        (Ok x, T) \<Rightarrow> (Ok x, T)
      | (r, T) \<Rightarrow> (r, T\<lparr>nd_manifest := nd_manifest S\<rparr>))"

definition db_transaction :: "'a db_op \<Rightarrow> 'a db_op" where
  "db_transaction m M = (case m M of (Ok x, M') \<Rightarrow> (Ok x, M') | (r, _) \<Rightarrow> (r, M))"

type_synonym remote_shard = "string \<times> string"

record push_result =
  pr_file_id :: string
  pr_size :: int
  pr_stored_bytes :: int
  pr_superseded_file_id :: "string option"
  pr_superseded_size :: int
  pr_superseded_stored :: int
  pr_unchanged :: bool

section \<open>Storing a file\<close>

definition mint_file_id :: "'f env \<Rightarrow> bytes \<Rightarrow> string" where
  "mint_file_id E rnd = hex_encode E rnd"

definition pad_shard :: "bytes \<Rightarrow> nat \<Rightarrow> (bytes, store_error) result" where
  "pad_shard sl len =
     (if length sl = len then Ok sl
      else if length sl > len then Panic
      else Ok (sl @ replicate (len - length sl) 0))"

definition chunk_shard :: "processed_chunk \<Rightarrow> nat \<Rightarrow> (bytes, store_error) result" where
  "chunk_shard c i =
     (if i < DATA_SHARDS
      then pad_shard (case data_shard (pc_cipher c) (pc_shard_len c) i of Some s \<Rightarrow> s | None \<Rightarrow> [])
             (pc_shard_len c)
      else if i - DATA_SHARDS < length (pc_recovery c) then Ok (pc_recovery c ! (i - DATA_SHARDS))
      else Panic)"

definition write_shard :: "'f env \<Rightarrow> file_path \<Rightarrow> string \<Rightarrow> processed_chunk \<Rightarrow> nat \<Rightarrow> unit node_op" where
  "write_shard E root cid c i =
     (let frag = fragment_id E cid i
      in sbind (slift (chunk_shard c i)) (\<lambda>bytes.
         sbind (on_disk (store_write root frag bytes)) (\<lambda>_.
         on_db (insert_shard \<lparr>s_fragment_id = frag, s_chunk_id = cid, s_shard_index = int i,
                              s_location = ''local'', s_hash = shard_hash E bytes\<rparr>))))"

definition chunk_row_of :: "string \<Rightarrow> processed_chunk \<Rightarrow> chunk_row" where
  "chunk_row_of file_id c =
     \<lparr>c_chunk_id = chunk_id file_id (pc_index c), c_file_id = file_id, c_idx = int (pc_index c),
      c_nonce = pc_nonce c, c_is_compressed = pc_is_compressed c,
      c_plaintext_len = int (pc_plaintext_len c), c_cipher_len = int (length (pc_cipher c)),
      c_shard_len = int (pc_shard_len c)\<rparr>"

definition write_chunk :: "'f env \<Rightarrow> file_path \<Rightarrow> string \<Rightarrow> processed_chunk \<Rightarrow> unit node_op" where
  "write_chunk E root file_id c =
     sbind (on_db (insert_chunk (chunk_row_of file_id c))) (\<lambda>_.
     sforM (write_shard E root (chunk_id file_id (pc_index c)) c) [0..<TOTAL_SHARDS])"

definition write_chunk_rows :: "'f env \<Rightarrow> file_path \<Rightarrow> string \<Rightarrow> processed_chunk list \<Rightarrow> unit node_op" where
  "write_chunk_rows E root file_id cs = sforM (write_chunk E root file_id) cs"

definition chunks_disk_cost :: "processed_chunk list \<Rightarrow> int" where
  "chunks_disk_cost cs = sum_list (map (\<lambda>c. int (TOTAL_SHARDS * shard_disk_cost (pc_shard_len c))) cs)"

definition push_tx :: "'f env \<Rightarrow> file_path \<Rightarrow> string \<Rightarrow> string \<Rightarrow> string \<Rightarrow> string \<Rightarrow> bytes
    \<Rightarrow> processed_chunk list \<Rightarrow> push_result node_op" where
  "push_tx E root file_id now user_id path data cs =
     (let stored_bytes = chunks_disk_cost cs
      in transaction (
         sbind (on_db (query (get_file_by_path user_id path))) (\<lambda>prev.
         sbind (case prev of
                  Some p \<Rightarrow>
                    sbind (on_db (supersede_file user_id (f_file_id p) now)) (\<lambda>_.
                    sreturn (Some (f_file_id p), f_size p, f_stored_bytes p, f_lineage p))
                | None \<Rightarrow> sreturn (None, 0, 0, file_id))
           (\<lambda>(superseded_file_id, superseded_size, superseded_stored, lineage).
         sbind (on_db (insert_file
                  \<lparr>f_file_id = file_id, f_user_id = user_id, f_path = path,
                   f_size = int (length data), f_stored_bytes = stored_bytes,
                   f_chunk_count = int (length cs), f_created_at = now,
                   f_deleted_at = None, f_superseded_at = None, f_lineage = lineage,
                   f_key_scheme = as_i64 V2, f_content_hash = Some (blake3_hex E data),
                   f_pack_id = None, f_pack_offset = None, f_pack_len = None\<rparr>)) (\<lambda>_.
         sbind (write_chunk_rows E root file_id cs) (\<lambda>_.
         sreturn \<lparr>pr_file_id = file_id, pr_size = int (length data),
                   pr_stored_bytes = stored_bytes, pr_superseded_file_id = superseded_file_id,
                   pr_superseded_size = superseded_size, pr_superseded_stored = superseded_stored,
                   pr_unchanged = False\<rparr>))))))"

definition push :: "'f env \<Rightarrow> node_identity \<Rightarrow> file_path \<Rightarrow> bytes \<Rightarrow> string \<Rightarrow> string \<Rightarrow> string \<Rightarrow> bytes
    \<Rightarrow> push_result node_op" where
  "push E ident root rnd now user_id path data S =
     (let content_hash = blake3_hex E data;
          file_id = mint_file_id E rnd;
          store_new =
            sbind (slift (map_err Core
                     (process_v2 E data (id_data_key ident) (as_bytes user_id) (as_bytes file_id)
                        (PipelineConfig_default E))))
              (push_tx E root file_id now user_id path data)
      in case get_file_by_path user_id path (nd_manifest S) of
           Some prev \<Rightarrow>
             if f_size prev = int (length data) \<and> f_content_hash prev = Some content_hash
             then (Ok \<lparr>pr_file_id = f_file_id prev, pr_size = f_size prev, pr_stored_bytes = 0,
                       pr_superseded_file_id = None, pr_superseded_size = 0,
                       pr_superseded_stored = 0, pr_unchanged = True\<rparr>, S)
             else store_new S
         | None \<Rightarrow> store_new S)"

section \<open>Reading a file\<close>

text \<open>\<open>as usize\<close> of an \<open>i64\<close>.\<close>

definition usize_of_i64 :: "int \<Rightarrow> nat" where
  "usize_of_i64 v = unat (word_of_int v :: u64)"

text \<open>The loop that fills the slots from the local store: a row whose index is out of range is
  skipped, a shard that cannot be read fails the whole call.\<close>

fun fill_present :: "file_path \<Rightarrow> disk \<Rightarrow> shard_row list \<Rightarrow> bytes option list
    \<Rightarrow> (bytes option list, store_error) result" where
  "fill_present root D [] present = Ok present"
| "fill_present root D (s # ss) present =
     (let i = usize_of_i64 (s_shard_index s)
      in if i < length present
         then rbind (store_read root D (s_fragment_id s))
                (\<lambda>b. fill_present root D ss (present[i := Some b]))
         else fill_present root D ss present)"

definition file_cipher_of :: "'f env \<Rightarrow> node_identity \<Rightarrow> file_row \<Rightarrow> (file_cipher, store_error) result" where
  "file_cipher_of E ident file =
     map_err Core (rbind (from_i64 (f_key_scheme file)) (\<lambda>scheme.
       FileCipher_new E (id_data_key ident) scheme (as_bytes (f_user_id file))
         (as_bytes (f_file_id file)) (word_of_int (f_chunk_count file))))"

definition open_chunk_row :: "'f env \<Rightarrow> file_cipher \<Rightarrow> chunk_row \<Rightarrow> bytes option list
    \<Rightarrow> (bytes, store_error) result" where
  "open_chunk_row E cipher_ctx c present =
     rbind (map_err Core (reconstruct E present (usize_of_i64 (c_cipher_len c)))) (\<lambda>cipher.
     rbind (map_err Core (open_chunk E cipher_ctx (word_of_int (c_idx c)) cipher)) (\<lambda>plain.
     map_err SIo (restore E plain (c_is_compressed c))))"

definition pull_contained :: "'f env \<Rightarrow> node_identity \<Rightarrow> file_path \<Rightarrow> node \<Rightarrow> file_row
    \<Rightarrow> (bytes, store_error) result" where
  "pull_contained E ident root S file =
     rbind (file_cipher_of E ident file) (\<lambda>cipher_ctx.
       if f_size file < 0 then Panic
       else
         rbind (rmapM (\<lambda>c.
                  rbind (fill_present root (nd_disk S) (get_shards (c_chunk_id c) (nd_manifest S))
                           (replicate TOTAL_SHARDS None))
                    (open_chunk_row E cipher_ctx c))
                  (get_chunks (f_file_id file) (nd_manifest S)))
           (\<lambda>parts. Ok (concat parts)))"

text \<open>The recursion of the source stops after one step, by the guard on nested packs.\<close>

definition pull :: "'f env \<Rightarrow> node_identity \<Rightarrow> file_path \<Rightarrow> string \<Rightarrow> string \<Rightarrow> node
    \<Rightarrow> (bytes, store_error) result" where
  "pull E ident root user_id file_id S =
     rbind (ok_or NotFound (get_file user_id file_id (nd_manifest S))) (\<lambda>file.
       case f_pack_id file of
         Some pack_id \<Rightarrow>
           rbind (ok_or (Integrity (''pack '' @ pack_id @ '' of member '' @ file_id @ '' is missing''))
                    (get_file user_id pack_id (nd_manifest S))) (\<lambda>pack_row.
             if f_pack_id pack_row \<noteq> None
             then Err (Integrity (''pack '' @ pack_id @ '' is itself a pack member''))
             else rbind (pull_contained E ident root S pack_row)
                    (\<lambda>plain. member_slice plain file))
       | None \<Rightarrow> pull_contained E ident root S file)"

definition pull_plan :: "string \<Rightarrow> string \<Rightarrow> manifest
    \<Rightarrow> (file_row \<times> (chunk_row \<times> shard_row list) list, store_error) result" where
  "pull_plan user_id file_id M =
     rbind (ok_or NotFound (get_file user_id file_id M)) (\<lambda>file.
       Ok (file, map (\<lambda>c. (c, get_shards (c_chunk_id c) M)) (get_chunks file_id M)))"

definition reassemble :: "'f env \<Rightarrow> node_identity \<Rightarrow> file_row \<Rightarrow> (chunk_row \<times> bytes option list) list
    \<Rightarrow> (bytes, store_error) result" where
  "reassemble E ident file cs =
     rbind (file_cipher_of E ident file) (\<lambda>cipher_ctx.
     rbind (rmapM (\<lambda>(c, present). open_chunk_row E cipher_ctx c present) cs)
       (\<lambda>parts. Ok (concat parts)))"

section \<open>Listings\<close>

definition service_list :: "manifest \<Rightarrow> string \<Rightarrow> file_row list" where
  "service_list M user_id = list_files user_id M"

definition list_trash :: "manifest \<Rightarrow> string \<Rightarrow> file_row list" where
  "list_trash M user_id = list_trashed user_id M"

definition list_versions :: "manifest \<Rightarrow> string \<Rightarrow> string \<Rightarrow> (file_row list, store_error) result" where
  "list_versions M user_id file_id =
     rbind (ok_or NotFound (get_file user_id file_id M)) (\<lambda>file.
       Ok (list_lineage user_id (f_lineage file) M))"

definition list_all_of_user :: "manifest \<Rightarrow> string \<Rightarrow> file_row list" where
  "list_all_of_user M user_id = list_user_rows user_id M"

definition node_stats :: "manifest \<Rightarrow> int \<times> int \<times> int" where
  "node_stats M =
     (let files = list_all_files M
      in (int (length files), sum_list (map f_chunk_count files), sum_list (map f_stored_bytes files)))"

section \<open>Trash, restore, purge\<close>

text \<open>Freed locally, returned for the peers: a failed local removal is ignored.\<close>

fun purge_local_collect_remote :: "file_path \<Rightarrow> remote_shard list \<Rightarrow> disk \<Rightarrow> remote_shard list \<times> disk" where
  "purge_local_collect_remote root [] D = ([], D)"
| "purge_local_collect_remote root ((frag, location) # fs) D =
     (if location = ''local''
      then purge_local_collect_remote root fs (snd (store_delete root frag D))
      else (let (remote, D') = purge_local_collect_remote root fs D
            in ((frag, location) # remote, D')))"

definition trash :: "string \<Rightarrow> string \<Rightarrow> string \<Rightarrow> file_row db_op" where
  "trash now user_id file_id =
     sbind (query (get_file user_id file_id)) (\<lambda>found.
     sbind (slift (ok_or NotFound found)) (\<lambda>file.
       if f_deleted_at file \<noteq> None then sreturn file
       else if f_superseded_at file \<noteq> None then slift (Err NotFound)
       else sbind (trash_file user_id file_id now) (\<lambda>_.
            sbind (query (get_file user_id file_id)) (\<lambda>r. slift (ok_or NotFound r)))))"

record trash_summary =
  ts_files :: nat
  ts_size :: int
  ts_stored_bytes :: int

definition TrashSummary_default :: trash_summary where
  "TrashSummary_default = \<lparr>ts_files = 0, ts_size = 0, ts_stored_bytes = 0\<rparr>"

definition summary_add :: "file_row \<Rightarrow> trash_summary \<Rightarrow> trash_summary" where
  "summary_add f s =
     \<lparr>ts_files = ts_files s + 1, ts_size = ts_size s + f_size f,
      ts_stored_bytes = ts_stored_bytes s + f_stored_bytes f\<rparr>"

fun trash_each :: "string \<Rightarrow> string \<Rightarrow> (string \<times> string) list \<Rightarrow> trash_summary \<Rightarrow> trash_summary db_op" where
  "trash_each now user_id [] summary M = (Ok summary, M)"
| "trash_each now user_id ((file_id, p) # fs) summary M =
     (let summary' = (case get_file user_id file_id M of
                        Some f \<Rightarrow> summary_add f summary | None \<Rightarrow> summary)
      in sbind (trash_file user_id file_id now) (\<lambda>_. trash_each now user_id fs summary') M)"

definition trash_path :: "string \<Rightarrow> string \<Rightarrow> string \<Rightarrow> trash_summary db_op" where
  "trash_path now user_id path0 =
     (let path = trim_slashes path0
      in db_transaction (\<lambda>M.
           case get_file_by_path user_id path M of
             Some file \<Rightarrow>
               sbind (trash_file user_id (f_file_id file) now)
                 (\<lambda>_. sreturn (summary_add file TrashSummary_default)) M
           | None \<Rightarrow>
               let files = files_under user_id path M
               in if files = [] \<and> \<not> folder_exists user_id path M then (Err NotFound, M)
                  else sbind (trash_each now user_id files TrashSummary_default) (\<lambda>summary.
                       sbind (delete_folder_subtree user_id path) (\<lambda>_. sreturn summary)) M))"

definition service_restore :: "string \<Rightarrow> string \<Rightarrow> string \<Rightarrow> string option \<Rightarrow> file_row db_op" where
  "service_restore now user_id file_id new_path =
     sbind (db_transaction (
       sbind (query (get_file user_id file_id)) (\<lambda>found.
       sbind (slift (ok_or NotFound found)) (\<lambda>file.
         if is_live file then slift (Err NotFound)
         else
           let target = trim_slashes (coalesce new_path (f_path file))
           in if target = [] then slift (Err NotFound)
              else
                sbind (query (get_file_by_path user_id target)) (\<lambda>current.
                sbind (case current of
                         Some c \<Rightarrow>
                           if f_file_id c \<noteq> f_file_id file
                           then sbind (supersede_file user_id (f_file_id c) now) (\<lambda>_. sreturn ())
                           else sreturn ()
                       | None \<Rightarrow> sreturn ()) (\<lambda>_.
                sbind (insert_folder user_id (dirname target)) (\<lambda>_.
                sbind (restore_file user_id file_id target) (\<lambda>_.
                sreturn ()))))))))
       (\<lambda>_. sbind (query (get_file user_id file_id)) (\<lambda>r. slift (ok_or NotFound r)))"

definition purge_file :: "file_path \<Rightarrow> string \<Rightarrow> string \<Rightarrow> (file_row \<times> remote_shard list) node_op" where
  "purge_file root user_id file_id =
     sbind (on_db (query (get_file user_id file_id))) (\<lambda>found.
     sbind (slift (ok_or NotFound found)) (\<lambda>file.
     sbind (on_db (purge_file_row user_id file_id)) (\<lambda>frags S.
       let (remote, D) = purge_local_collect_remote root frags (nd_disk S)
       in (Ok (file, remote), S\<lparr>nd_disk := D\<rparr>))))"

fun purge_each :: "string \<Rightarrow> file_row list \<Rightarrow> trash_summary \<Rightarrow> remote_shard list
    \<Rightarrow> (trash_summary \<times> remote_shard list) db_op" where
  "purge_each user_id [] summary frags M = (Ok (summary, frags), M)"
| "purge_each user_id (f # fs) summary frags M =
     sbind (purge_file_row user_id (f_file_id f))
       (\<lambda>more. purge_each user_id fs (summary_add f summary) (frags @ more)) M"

definition empty_trash :: "file_path \<Rightarrow> string \<Rightarrow> (trash_summary \<times> remote_shard list) node_op" where
  "empty_trash root user_id =
     sbind (transaction (on_db (\<lambda>M. purge_each user_id (list_trashed user_id M) TrashSummary_default [] M)))
       (\<lambda>(summary, frags) S.
          let (remote, D) = purge_local_collect_remote root frags (nd_disk S)
          in (Ok (summary, remote), S\<lparr>nd_disk := D\<rparr>))"

section \<open>The retention sweep\<close>

record retention_policy =
  rp_trash_days :: int
  rp_version_days :: int
  rp_keep_versions :: int

definition RetentionPolicy_default :: retention_policy where
  "RetentionPolicy_default = \<lparr>rp_trash_days = 30, rp_version_days = 90, rp_keep_versions = 3\<rparr>"

record purge_report =
  pu_files :: nat
  pu_freed :: "(string \<times> int \<times> int) list"
  pu_remote :: "remote_shard list"

text \<open>\<open>days_ago d\<close> is the RFC 3339 text of the instant \<open>d\<close> days before now; the clock library is a
  parameter.\<close>

definition cutoff :: "(int \<Rightarrow> string) \<Rightarrow> int \<Rightarrow> string" where
  "cutoff days_ago days = days_ago (max 0 (min days 36500))"

record sweep =
  sw_seen :: "string set"
  sw_freed :: "string \<rightharpoonup> int \<times> int"
  sw_frags :: "remote_shard list"
  sw_files :: nat

fun sweep_each :: "purge_candidate list \<Rightarrow> sweep \<Rightarrow> sweep db_op" where
  "sweep_each [] w M = (Ok w, M)"
| "sweep_each ((user_id, file_id, sz, stored) # cs) w M =
     (if file_id \<in> sw_seen w then sweep_each cs w M
      else
        sbind (purge_file_row user_id file_id) (\<lambda>frags.
          let entry = coalesce (sw_freed w user_id) (0, 0)
          in sweep_each cs
               \<lparr>sw_seen = insert file_id (sw_seen w),
                sw_freed = (sw_freed w)(user_id \<mapsto> (fst entry + sz, snd entry + stored)),
                sw_frags = sw_frags w @ frags,
                sw_files = sw_files w + 1\<rparr>) M)"

definition sweep_candidates :: "(int \<Rightarrow> string) \<Rightarrow> retention_policy \<Rightarrow> manifest \<Rightarrow> purge_candidate list" where
  "sweep_candidates days_ago policy M =
     trashed_before (cutoff days_ago (rp_trash_days policy)) M
     @ superseded_before (cutoff days_ago (rp_version_days policy)) M
     @ superseded_beyond (max (rp_keep_versions policy) 0) M
     @ superseded_orphans M"

definition sweep_start :: sweep where
  "sweep_start = \<lparr>sw_seen = {}, sw_freed = Map.empty, sw_frags = [], sw_files = 0\<rparr>"

text \<open>The ordered map of freed bytes, listed in key order over the users it can hold.\<close>

definition freed_list :: "purge_candidate list \<Rightarrow> (string \<rightharpoonup> int \<times> int) \<Rightarrow> (string \<times> int \<times> int) list" where
  "freed_list cands m =
     List.map_filter (\<lambda>u. map_option (\<lambda>(s, st). (u, s, st)) (m u)) (sort (remdups (map fst cands)))"

definition purge_retired :: "file_path \<Rightarrow> (int \<Rightarrow> string) \<Rightarrow> retention_policy \<Rightarrow> purge_report node_op" where
  "purge_retired root days_ago policy =
     sbind (transaction (on_db (\<lambda>M.
              let cands = sweep_candidates days_ago policy M
              in sbind (sweep_each cands sweep_start) (\<lambda>w. sreturn (cands, w)) M)))
       (\<lambda>(cands, w) S.
          let (remote, D) = purge_local_collect_remote root (sw_frags w) (nd_disk S)
          in (Ok \<lparr>pu_files = sw_files w, pu_freed = freed_list cands (sw_freed w),
                  pu_remote = remote\<rparr>, S\<lparr>nd_disk := D\<rparr>))"

section \<open>Folders and renames\<close>

record dir_listing =
  dl_folders :: "string list"
  dl_files :: "file_row list"

definition strip_prefix :: "string \<Rightarrow> string \<Rightarrow> string option" where
  "strip_prefix p s = (if prefix p s then Some (drop (length p) s) else None)"

definition relative_to :: "string \<Rightarrow> string \<Rightarrow> string option" where
  "relative_to dir p =
     (if dir = [] then Some p
      else Option.bind (strip_prefix dir p) (strip_prefix ''/''))"

definition child_folder :: "string \<Rightarrow> string \<Rightarrow> string option" where
  "child_folder dir rel =
     (if CHR ''/'' \<in> set rel
      then (let child = takeWhile (\<lambda>c. c \<noteq> CHR ''/'') rel
            in Some (if dir = [] then child else dir @ ''/'' @ child))
      else None)"

definition browse :: "manifest \<Rightarrow> string \<Rightarrow> string \<Rightarrow> dir_listing" where
  "browse M user_id dir0 =
     (let dir = trim_slashes dir0;
          entries = List.map_filter (\<lambda>f. Option.bind (relative_to dir (f_path f))
                      (\<lambda>rel. if rel = [] then None else Some (f, rel))) (list_files user_id M)
      in \<lparr>dl_folders = sort (remdups (folders_in user_id dir M
                         @ List.map_filter (\<lambda>(f, rel). child_folder dir rel) entries)),
          dl_files = map fst (filter (\<lambda>(f, rel). child_folder dir rel = None) entries)\<rparr>)"

definition mkdir :: "string \<Rightarrow> string \<Rightarrow> unit db_op" where
  "mkdir user_id path = insert_folder user_id (trim_slashes path)"

text \<open>\<open>&s[n..]\<close>: panics past the end and off a character boundary.\<close>

definition str_from :: "string \<Rightarrow> nat \<Rightarrow> (string, store_error) result" where
  "str_from s n =
     (if length s < n \<or> (n < length s \<and> is_utf8_cont (s ! n)) then Panic else Ok (drop n s))"

definition rename_file_under :: "string \<Rightarrow> string \<Rightarrow> string \<Rightarrow> string \<times> string \<Rightarrow> unit db_op" where
  "rename_file_under user_id src dst fp =
     sbind (slift (str_from (snd fp) (length src)))
       (\<lambda>suffix. update_file_path user_id (fst fp) (dst @ suffix))"

definition rename_folder_under :: "string \<Rightarrow> string \<Rightarrow> string \<Rightarrow> string \<Rightarrow> unit db_op" where
  "rename_folder_under user_id src dst p =
     sbind (slift (str_from p (length src)))
       (\<lambda>suffix. update_folder_path user_id p (dst @ suffix))"

definition rename_body :: "string \<Rightarrow> string \<Rightarrow> string \<Rightarrow> unit db_op" where
  "rename_body user_id src dst M =
     (case get_file_by_path user_id src M of
        Some file \<Rightarrow> update_file_path user_id (f_file_id file) dst M
      | None \<Rightarrow>
          let files = files_under user_id src M; folders = folders_under user_id src M
          in if files = [] \<and> folders = [] then (Err NotFound, M)
             else sbind (sforM (rename_file_under user_id src dst) files) (\<lambda>_.
                  sbind (sforM (rename_folder_under user_id src dst) folders) (\<lambda>_.
                  insert_folder user_id dst)) M)"

definition rename :: "string \<Rightarrow> string \<Rightarrow> string \<Rightarrow> unit db_op" where
  "rename user_id src0 dst0 =
     (let src = trim_slashes src0; dst = trim_slashes dst0
      in if src = [] \<or> dst = [] \<or> src = dst then slift (Err NotFound)
         else db_transaction
           (sbind (insert_folder user_id (dirname dst)) (\<lambda>_. rename_body user_id src dst)))"

section \<open>Shards\<close>

definition regen_chunk_shards :: "'f env \<Rightarrow> bytes option list \<Rightarrow> nat \<Rightarrow> (bytes list, store_error) result" where
  "regen_chunk_shards E present cipher_len =
     rbind (map_err Core (reconstruct E present cipher_len)) (\<lambda>cipher. map_err Core (encode E cipher))"

definition write_local :: "file_path \<Rightarrow> string \<Rightarrow> bytes \<Rightarrow> (disk, unit, store_error) op" where
  "write_local root frag bytes = store_write root frag bytes"

definition set_location :: "string \<Rightarrow> string \<Rightarrow> unit db_op" where
  "set_location frag location = set_shard_location frag location"

definition read_local :: "file_path \<Rightarrow> disk \<Rightarrow> string \<Rightarrow> bytes option" where
  "read_local root D frag = ok (store_read root D frag)"

definition verify_hash :: "'f env \<Rightarrow> bytes \<Rightarrow> string \<Rightarrow> bool" where
  "verify_hash E bytes expected \<longleftrightarrow> expected = [] \<or> shard_hash E bytes = expected"

definition read_local_verified :: "'f env \<Rightarrow> file_path \<Rightarrow> disk \<Rightarrow> string \<Rightarrow> string \<Rightarrow> bytes option" where
  "read_local_verified E root D frag expected =
     Option.bind (ok (store_read root D frag))
       (\<lambda>bytes. if verify_hash E bytes expected then Some bytes else None)"

end
