(* ===== verification/ServiceLaws.thy ===== *)
theory ServiceLaws
  imports Service
begin

text \<open>
  What the storage service guarantees: the manifest invariant over every operation, the round trip
  of storing and reading, that nothing but an explicit purge loses a file, and the accounting of
  the purges.
\<close>

section \<open>Writing the chunks of a file\<close>

text \<open>The bytes of shard \<open>i\<close> as the upload writes them.\<close>

definition shard_content :: "processed_chunk \<Rightarrow> nat \<Rightarrow> bytes" where
  "shard_content c i =
     (case chunk_shard c i of Ok b \<Rightarrow> b | _ \<Rightarrow> [])"

definition shard_row_of :: "'f env \<Rightarrow> string \<Rightarrow> processed_chunk \<Rightarrow> nat \<Rightarrow> shard_row" where
  "shard_row_of E cid c i =
     \<lparr>s_fragment_id = fragment_id E cid i, s_chunk_id = cid, s_shard_index = int i,
      s_location = ''local'', s_hash = shard_hash E (shard_content c i)\<rparr>"

definition shard_rows :: "'f env \<Rightarrow> string \<Rightarrow> processed_chunk \<Rightarrow> shard_row list" where
  "shard_rows E fid c = map (shard_row_of E (chunk_id fid (pc_index c)) c) [0..<TOTAL_SHARDS]"

definition shard_files :: "'f env \<Rightarrow> string \<Rightarrow> processed_chunk \<Rightarrow> (string \<times> bytes) list" where
  "shard_files E fid c =
     map (\<lambda>i. (fragment_id E (chunk_id fid (pc_index c)) i, shard_content c i)) [0..<TOTAL_SHARDS]"

lemma on_db_Ok: "on_db m S = (Ok x, T) \<longleftrightarrow> (\<exists>M. m (nd_manifest S) = (Ok x, M) \<and> T = S\<lparr>nd_manifest := M\<rparr>)"
  by (auto simp: on_db_def split: prod.splits)

lemma on_disk_Ok: "on_disk m S = (Ok x, T) \<longleftrightarrow> (\<exists>D. m (nd_disk S) = (Ok x, D) \<and> T = S\<lparr>nd_disk := D\<rparr>)"
  by (auto simp: on_disk_def split: prod.splits)

lemma sforM_Cons_Ok:
  "sforM f (x # xs) s = (Ok (), u) \<longleftrightarrow> (\<exists>t. f x s = (Ok (), t) \<and> sforM f xs t = (Ok (), u))"
  by (auto simp: sbind_Ok_iff)

lemma insert_chunk_Ok:
  "insert_chunk c M = (Ok (), M') \<longleftrightarrow>
   c_chunk_id c \<notin> c_chunk_id ` set (m_chunks M) \<and> c_file_id c \<in> d_file_id ` set (m_files M)
   \<and> M' = M\<lparr>m_chunks := m_chunks M @ [c]\<rparr>"
  by (auto simp: insert_chunk_def)

lemma insert_shard_Ok:
  "insert_shard s M = (Ok (), M') \<longleftrightarrow>
   s_fragment_id s \<notin> s_fragment_id ` set (m_shards M) \<and> s_chunk_id s \<in> c_chunk_id ` set (m_chunks M)
   \<and> M' = M\<lparr>m_shards := m_shards M @ [s]\<rparr>"
  by (auto simp: insert_shard_def)

lemma write_shard_Ok:
  assumes "write_shard E root cid c i S = (Ok (), T)"
  shows "chunk_shard c i = Ok (shard_content c i)"
    "store_write root (fragment_id E cid i) (shard_content c i) (nd_disk S) = (Ok (), nd_disk T)"
    "nd_manifest T = (nd_manifest S)\<lparr>m_shards := m_shards (nd_manifest S) @ [shard_row_of E cid c i]\<rparr>"
  using assms
  by (auto simp: write_shard_def Let_def sbind_Ok_iff on_disk_Ok on_db_Ok insert_shard_Ok
      shard_content_def shard_row_of_def)

lemma write_shards_Ok:
  assumes "sforM (write_shard E root cid c) is S = (Ok (), T)"
  shows "\<forall>i \<in> set is. chunk_shard c i = Ok (shard_content c i)"
    "cs.put_all root (map (\<lambda>i. (fragment_id E cid i, shard_content c i)) is) (nd_disk S) = (Ok (), nd_disk T)"
    "nd_manifest T = (nd_manifest S)\<lparr>m_shards := m_shards (nd_manifest S) @ map (shard_row_of E cid c) is\<rparr>"
  using assms
proof (induction "is" arbitrary: S)
  case Nil
  {
    case 1 then show ?case by simp
  next
    case 2 then show ?case by (simp add: cs.put_all_def)
  next
    case 3 then show ?case by simp
  }
next
  case (Cons i "is")
  {
    case 1
    then obtain U where U: "write_shard E root cid c i S = (Ok (), U)"
      "sforM (write_shard E root cid c) is U = (Ok (), T)" by (auto simp: sbind_Ok_iff)
    show ?case using write_shard_Ok(1) [OF U(1)] Cons.IH(1) [OF U(2)] by simp
  next
    case 2
    then obtain U where U: "write_shard E root cid c i S = (Ok (), U)"
      "sforM (write_shard E root cid c) is U = (Ok (), T)" by (auto simp: sbind_Ok_iff)
    show ?case
      using write_shard_Ok(2) [OF U(1)] Cons.IH(2) [OF U(2)] by (auto simp: cs.put_all_def sbind_Ok_iff)
  next
    case 3
    then obtain U where U: "write_shard E root cid c i S = (Ok (), U)"
      "sforM (write_shard E root cid c) is U = (Ok (), T)" by (auto simp: sbind_Ok_iff)
    show ?case using write_shard_Ok(3) [OF U(1)] Cons.IH(3) [OF U(2)] by simp
  }
qed

lemma put_all_append:
  "cs.put_all root (xs @ ys) D = (Ok (), D'') \<longleftrightarrow>
   (\<exists>D'. cs.put_all root xs D = (Ok (), D') \<and> cs.put_all root ys D' = (Ok (), D''))"
  by (induction xs arbitrary: D) (auto simp: cs.put_all_def sbind_Ok_iff)

definition all_written :: "processed_chunk \<Rightarrow> bool" where
  "all_written c \<longleftrightarrow> (\<forall>i < TOTAL_SHARDS. chunk_shard c i = Ok (shard_content c i))"

lemma write_chunk_Ok:
  assumes "write_chunk E root fid c S = (Ok (), T)"
  shows "all_written c"
    "cs.put_all root (shard_files E fid c) (nd_disk S) = (Ok (), nd_disk T)"
    "nd_manifest T = (nd_manifest S)
       \<lparr>m_chunks := m_chunks (nd_manifest S) @ [chunk_row_of fid c],
        m_shards := m_shards (nd_manifest S) @ shard_rows E fid c\<rparr>"
proof -
  let ?M = "(nd_manifest S)\<lparr>m_chunks := m_chunks (nd_manifest S) @ [chunk_row_of fid c]\<rparr>"
  from assms have w: "sforM (write_shard E root (chunk_id fid (pc_index c)) c) [0..<TOTAL_SHARDS]
      (S\<lparr>nd_manifest := ?M\<rparr>) = (Ok (), T)"
    by (auto simp: write_chunk_def sbind_Ok_iff on_db_Ok insert_chunk_Ok)
  show "all_written c" using write_shards_Ok(1) [OF w] by (auto simp: all_written_def)
  show "cs.put_all root (shard_files E fid c) (nd_disk S) = (Ok (), nd_disk T)"
    using write_shards_Ok(2) [OF w] by (simp add: shard_files_def)
  show "nd_manifest T = (nd_manifest S)
       \<lparr>m_chunks := m_chunks (nd_manifest S) @ [chunk_row_of fid c],
        m_shards := m_shards (nd_manifest S) @ shard_rows E fid c\<rparr>"
    using write_shards_Ok(3) [OF w] by (simp add: shard_rows_def)
qed

lemma write_chunk_rows_Ok:
  assumes "write_chunk_rows E root fid cs S = (Ok (), T)"
  shows "list_all all_written cs"
    "cs.put_all root (concat (map (shard_files E fid) cs)) (nd_disk S) = (Ok (), nd_disk T)"
    "nd_manifest T = (nd_manifest S)
       \<lparr>m_chunks := m_chunks (nd_manifest S) @ map (chunk_row_of fid) cs,
        m_shards := m_shards (nd_manifest S) @ concat (map (shard_rows E fid) cs)\<rparr>"
proof -
  have "list_all all_written cs
    \<and> cs.put_all root (concat (map (shard_files E fid) cs)) (nd_disk S) = (Ok (), nd_disk T)
    \<and> nd_manifest T = (nd_manifest S)
       \<lparr>m_chunks := m_chunks (nd_manifest S) @ map (chunk_row_of fid) cs,
        m_shards := m_shards (nd_manifest S) @ concat (map (shard_rows E fid) cs)\<rparr>"
    using assms
  proof (induction cs arbitrary: S)
    case Nil
    then show ?case by (simp add: write_chunk_rows_def cs.put_all_def)
  next
    case (Cons c cs)
    then obtain U where U: "write_chunk E root fid c S = (Ok (), U)"
      "write_chunk_rows E root fid cs U = (Ok (), T)"
      by (auto simp: write_chunk_rows_def sbind_Ok_iff)
    show ?case
      using write_chunk_Ok [OF U(1)] Cons.IH [OF U(2)] by (auto simp: put_all_append)
  qed
  then show "list_all all_written cs"
    "cs.put_all root (concat (map (shard_files E fid) cs)) (nd_disk S) = (Ok (), nd_disk T)"
    "nd_manifest T = (nd_manifest S)
       \<lparr>m_chunks := m_chunks (nd_manifest S) @ map (chunk_row_of fid) cs,
        m_shards := m_shards (nd_manifest S) @ concat (map (shard_rows E fid) cs)\<rparr>"
    by blast+
qed

text \<open>Whatever the outcome, the invariant holds and the disk answers as it did.\<close>

lemma write_shard_inv:
  assumes "write_shard E root cid c i S = (r, T)" "manifest_inv (nd_manifest S)"
  shows "manifest_inv (nd_manifest T)"
  using assms insert_shard_inv
  by (fastforce simp: write_shard_def Let_def sbind_def on_disk_def on_db_def slift_def
      split: prod.splits result.splits)

lemma write_chunk_rows_inv:
  assumes "write_chunk_rows E root fid cs S = (r, T)" "manifest_inv (nd_manifest S)"
  shows "manifest_inv (nd_manifest T)"
  using assms unfolding write_chunk_rows_def
proof (rule sforM_preserves [where P = "\<lambda>S. manifest_inv (nd_manifest S)"])
  fix c S r T
  assume inv: "manifest_inv (nd_manifest S)" and w: "write_chunk E root fid c S = (r, T)"
  show "manifest_inv (nd_manifest T)"
    using w unfolding write_chunk_def
  proof (rule sbind_preserves [where P = "\<lambda>S. manifest_inv (nd_manifest S)"])
    show "manifest_inv (nd_manifest t)" if "on_db (insert_chunk (chunk_row_of fid c)) S = (r', t)" for r' t
      using that inv insert_chunk_inv by (auto simp: on_db_def split: prod.splits)
    show "manifest_inv (nd_manifest T)"
      if "manifest_inv (nd_manifest t)"
        "sforM (write_shard E root (chunk_id fid (pc_index c)) c) [0..<TOTAL_SHARDS] t = (r, T)" for t
      using that(2,1) by (rule sforM_preserves) (rule write_shard_inv)
  qed (rule inv)
qed

section \<open>What a read depends on\<close>

text \<open>The columns a read uses, and the shards of a file with what reading each of them returns.\<close>

definition same_core :: "file_row \<Rightarrow> file_row \<Rightarrow> bool" where
  "same_core f f' \<longleftrightarrow>
     f_file_id f' = f_file_id f \<and> f_user_id f' = f_user_id f \<and> f_size f' = f_size f
     \<and> f_chunk_count f' = f_chunk_count f \<and> f_key_scheme f' = f_key_scheme f
     \<and> f_pack_id f' = f_pack_id f \<and> f_pack_offset f' = f_pack_offset f \<and> f_pack_len f' = f_pack_len f"

definition shard_reads :: "file_path \<Rightarrow> node \<Rightarrow> string \<Rightarrow> (int \<times> (bytes, store_error) result) list" where
  "shard_reads root S cid =
     map (\<lambda>s. (s_shard_index s, store_read root (nd_disk S) (s_fragment_id s)))
       (get_shards cid (nd_manifest S))"

definition chunk_view :: "file_path \<Rightarrow> node \<Rightarrow> string \<Rightarrow> (chunk_row \<times> (int \<times> (bytes, store_error) result) list) list" where
  "chunk_view root S fid = map (\<lambda>c. (c, shard_reads root S (c_chunk_id c))) (get_chunks fid (nd_manifest S))"

fun fill_reads :: "(int \<times> (bytes, store_error) result) list \<Rightarrow> bytes option list
    \<Rightarrow> (bytes option list, store_error) result" where
  "fill_reads [] present = Ok present"
| "fill_reads ((j, r) # rs) present =
     (let i = usize_of_i64 j
      in if i < length present then rbind r (\<lambda>b. fill_reads rs (present[i := Some b]))
         else fill_reads rs present)"

lemma fill_present_reads:
  "fill_present root D ss present = fill_reads (map (\<lambda>s. (s_shard_index s, store_read root D (s_fragment_id s))) ss) present"
proof (induction ss arbitrary: present)
  case (Cons s ss)
  then show ?case by (simp add: Let_def)
qed simp

lemma rmapM_map: "rmapM f (map g xs) = rmapM (\<lambda>x. f (g x)) xs"
  by (induction xs) auto

lemma pull_contained_view:
  "pull_contained E ident root S file =
     rbind (file_cipher_of E ident file) (\<lambda>cipher_ctx.
       if f_size file < 0 then Panic
       else rbind (rmapM (\<lambda>(c, rs). rbind (fill_reads rs (replicate TOTAL_SHARDS None))
                            (open_chunk_row E cipher_ctx c)) (chunk_view root S (f_file_id file)))
              (\<lambda>parts. Ok (concat parts)))"
  by (simp add: pull_contained_def chunk_view_def rmapM_map fill_present_reads shard_reads_def
      cong: if_cong)

lemma pull_contained_cong:
  assumes "same_core f f'" "chunk_view root S' (f_file_id f) = chunk_view root S (f_file_id f)"
  shows "pull_contained E ident root S' f' = pull_contained E ident root S f"
  using assms by (simp add: pull_contained_view same_core_def file_cipher_of_def cong: if_cong)

lemma member_slice_cong: "same_core f f' \<Longrightarrow> member_slice b f' = member_slice b f"
  by (simp add: member_slice_def same_core_def)

lemma same_core_refl [simp]: "same_core f f"
  by (simp add: same_core_def)

lemma same_core_trans: "same_core f g \<Longrightarrow> same_core g h \<Longrightarrow> same_core f h"
  by (simp add: same_core_def)

text \<open>The files a read of \<open>g\<close> looks at: itself and its pack.\<close>

definition needed :: "string \<Rightarrow> string \<Rightarrow> manifest \<Rightarrow> string set" where
  "needed u g M =
     insert g (case get_file u g M of Some f \<Rightarrow> set_option (f_pack_id f) | None \<Rightarrow> {})"

lemma pull_cong:
  assumes "\<And>h. h \<in> needed u g (nd_manifest S) \<Longrightarrow>
      rel_option same_core (get_file u h (nd_manifest S)) (get_file u h (nd_manifest S'))
      \<and> chunk_view root S' h = chunk_view root S h"
  shows "pull E ident root u g S' = pull E ident root u g S"
proof (cases "get_file u g (nd_manifest S)")
  case None
  then show ?thesis using assms [of g] by (simp add: needed_def pull_def)
next
  case (Some f)
  then obtain f' where f': "get_file u g (nd_manifest S') = Some f'" and c: "same_core f f'"
    and v: "chunk_view root S' g = chunk_view root S g"
    using assms [of g] by (auto simp: needed_def option_rel_Some1)
  have id: "f_file_id f = g"
    using Some by (auto simp: get_file_def optional_row_def map_file_def filter_eq_Cons_iff split: list.splits)
  show ?thesis
  proof (cases "f_pack_id f")
    case None
    then show ?thesis
      using Some f' c v id pull_contained_cong [OF c] by (simp add: pull_def same_core_def)
  next
    case (Some p)
    have p: "rel_option same_core (get_file u p (nd_manifest S)) (get_file u p (nd_manifest S'))"
      "chunk_view root S' p = chunk_view root S p"
      using assms [of p] Some \<open>get_file u g (nd_manifest S) = Some f\<close> by (auto simp: needed_def)
    have p': "f_pack_id f' = Some p" using c Some by (simp add: same_core_def)
    show ?thesis
    proof (cases "get_file u p (nd_manifest S)")
      case None
      then show ?thesis using p(1) p' Some \<open>get_file u g (nd_manifest S) = Some f\<close> f' by (simp add: pull_def)
    next
      case (Some q)
      then obtain q' where q': "get_file u p (nd_manifest S') = Some q'" and cq: "same_core q q'"
        using p(1) by (auto simp: option_rel_Some1)
      have idq: "f_file_id q = p"
        using Some by (auto simp: get_file_def optional_row_def map_file_def filter_eq_Cons_iff split: list.splits)
      have "pull_contained E ident root S' q' = pull_contained E ident root S q"
        by (rule pull_contained_cong [OF cq]) (simp add: idq p(2))
      moreover have "f_pack_id q' = f_pack_id q" using cq by (simp add: same_core_def)
      ultimately show ?thesis
        using Some q' p' \<open>f_pack_id f = Some p\<close> \<open>get_file u g (nd_manifest S) = Some f\<close> f'
          member_slice_cong [OF c] by (simp add: pull_def)
    qed
  qed
qed

section \<open>Operations on metadata\<close>

text \<open>Two manifests between which no read can tell the difference.\<close>

definition meta_same :: "manifest \<Rightarrow> manifest \<Rightarrow> bool" where
  "meta_same M M' \<longleftrightarrow>
     m_chunks M' = m_chunks M \<and> m_shards M' = m_shards M
     \<and> (\<forall>u h. rel_option same_core (get_file u h M) (get_file u h M'))"

lemma meta_same_refl [simp]: "meta_same M M"
  by (simp add: meta_same_def rel_option_reflI)

lemma meta_same_trans: "meta_same M M' \<Longrightarrow> meta_same M' M'' \<Longrightarrow> meta_same M M''"
proof -
  assume "meta_same M M'" "meta_same M' M''"
  moreover have "rel_option same_core a c" if "rel_option same_core a b" "rel_option same_core b c" for a b c
    using that by (cases a; cases b; cases c) (auto intro: same_core_trans)
  ultimately show ?thesis unfolding meta_same_def by metis
qed

lemma get_file_find:
  "get_file u h M = map_option map_file (List.find (\<lambda>r. d_user_id r = u \<and> d_file_id r = h) (m_files M))"
proof -
  have "optional_row (map g (filter P xs)) = map_option g (List.find P xs)"
    for g :: "db_file \<Rightarrow> file_row" and P xs
    by (induction xs) (auto simp: optional_row_def)
  then show ?thesis by (simp add: get_file_def)
qed

definition keeps_core :: "(db_file \<Rightarrow> db_file) \<Rightarrow> bool" where
  "keeps_core k \<longleftrightarrow> (\<forall>r. same_core (map_file r) (map_file (k r)))"

lemma find_update:
  assumes "keeps_core k"
  shows "rel_option same_core
     (map_option map_file (List.find (\<lambda>r. d_user_id r = u \<and> d_file_id r = h) xs))
     (map_option map_file (List.find (\<lambda>r. d_user_id r = u \<and> d_file_id r = h)
        (map (\<lambda>r. if p r then k r else r) xs)))"
proof (induction xs)
  case (Cons x xs)
  have "d_user_id (k x) = d_user_id x \<and> d_file_id (k x) = d_file_id x"
    using assms by (simp add: keeps_core_def same_core_def map_file_def)
  then show ?case using Cons assms by (auto simp: keeps_core_def)
qed simp

lemma update_files_meta:
  assumes "keeps_core k" "update_files p k M = (r, M')"
  shows "meta_same M M'"
  using update_files_Ok [OF assms(2)]
  by (auto simp: meta_same_def get_file_find find_update [OF assms(1)] rel_option_reflI)

lemma update_then_meta:
  assumes "sbind (update_files p k) (\<lambda>n. sreturn (g n)) M = (r, M')" "keeps_core k"
  shows "meta_same M M'"
  using assms(1)
  by (rule sbind_preserves [where P = "meta_same M"]) (auto intro: update_files_meta [OF assms(2)])

lemma retire_row_meta: "retire_row u fid col at M = (r, M') \<Longrightarrow> meta_same M M'"
  unfolding retire_row_def
  by (erule update_then_meta) (cases col; simp add: keeps_core_def same_core_def map_file_def)

lemma restore_file_meta: "restore_file u fid path M = (r, M') \<Longrightarrow> meta_same M M'"
  unfolding restore_file_def
  by (erule update_then_meta) (simp add: keeps_core_def same_core_def map_file_def)

lemma update_file_path_meta: "update_file_path u fid path M = (r, M') \<Longrightarrow> meta_same M M'"
  unfolding update_file_path_def
  by (erule update_then_meta) (simp add: keeps_core_def same_core_def map_file_def)

lemma insert_ancestors_tables:
  "m_files (insert_ancestors u acc segs M) = m_files M
   \<and> m_chunks (insert_ancestors u acc segs M) = m_chunks M
   \<and> m_shards (insert_ancestors u acc segs M) = m_shards M"
  by (induction segs arbitrary: acc M) (simp_all add: Let_def insert_folder_row_def)

lemma meta_same_tables:
  "m_files M' = m_files M \<Longrightarrow> m_chunks M' = m_chunks M \<Longrightarrow> m_shards M' = m_shards M \<Longrightarrow> meta_same M M'"
  by (simp add: meta_same_def get_file_find rel_option_reflI)

lemma folder_ops_meta:
  "insert_folder u path M = (r, M') \<Longrightarrow> meta_same M M'"
  "delete_folder_subtree u path M = (r', M') \<Longrightarrow> meta_same M M'"
  "update_folder_path u old new M = (r'', M') \<Longrightarrow> meta_same M M'"
  by (auto simp: insert_folder_def delete_folder_subtree_def update_folder_path_def Let_def
      insert_ancestors_tables intro!: meta_same_tables split: if_splits)

lemma meta_same_pull:
  assumes "meta_same (nd_manifest S) (nd_manifest S')" "nd_disk S' = nd_disk S"
  shows "pull E ident root u g S' = pull E ident root u g S"
  using assms
  by (intro pull_cong) (simp add: meta_same_def chunk_view_def shard_reads_def get_chunks_def get_shards_def)

section \<open>Preserved by every operation on metadata\<close>

lemma preserves_query [preserve]: "preserves P (query q)"
  by (simp add: preserves_def query_def)

lemma preserves_db_transaction [preserve]: "preserves P m \<Longrightarrow> preserves P (db_transaction m)"
  unfolding preserves_def db_transaction_def by (fastforce split: prod.splits result.splits)

lemma preserves_inv [preserve]:
  "preserves manifest_inv (insert_file f)" "preserves manifest_inv (trash_file u fid at)"
  "preserves manifest_inv (supersede_file u fid at)" "preserves manifest_inv (restore_file u fid path)"
  "preserves manifest_inv (insert_folder u path)" "preserves manifest_inv (delete_folder_subtree u path)"
  "preserves manifest_inv (update_folder_path u old new)" "preserves manifest_inv (purge_file_row u fid)"
  "preserves manifest_inv (set_shard_location frag loc)"
  "preserves manifest_inv (assign_to_pack u fid pid off len)"
  "preserves manifest_inv (strip_file_chunks u fid)"
  by (rule preservesI; erule manifest_inv_intros, assumption)+

lemma preserves_meta [preserve]:
  "preserves (meta_same M) (trash_file u fid at)" "preserves (meta_same M) (supersede_file u fid at)"
  "preserves (meta_same M) (restore_file u fid path)" "preserves (meta_same M) (insert_folder u path)"
  "preserves (meta_same M) (delete_folder_subtree u path)"
  "preserves (meta_same M) (update_folder_path u old new)"
  "preserves (meta_same M) (update_file_path u fid path)"
  unfolding trash_file_def supersede_file_def
  by (rule preservesI; erule meta_same_trans; erule retire_row_meta restore_file_meta folder_ops_meta
      update_file_path_meta)+

lemma preserves_trash [preserve]:
  "preserves manifest_inv (trash now u fid)" "preserves (meta_same M) (trash now u fid)"
  unfolding trash_def by (intro preserve)+

lemma preserves_trash_each [preserve]:
  "(\<And>fid. preserves P (trash_file u fid now)) \<Longrightarrow> preserves P (trash_each now u fs sm)"
proof (induction fs arbitrary: sm)
  case (Cons fp fs)
  obtain fid p where "fp = (fid, p)" by (cases fp)
  moreover have "preserves P (\<lambda>M. sbind (trash_file u fid now) (\<lambda>_. trash_each now u fs
      (case get_file u fid M of Some f \<Rightarrow> summary_add f sm | None \<Rightarrow> sm)) M)"
    by (rule preserves_at) (intro preserve Cons)
  ultimately show ?case by (simp add: Let_def fun_eq_iff preserves_def)
qed (simp add: preserves_def)

lemma preserves_trash_path:
  assumes "\<And>fid. preserves P (trash_file u fid now)" "preserves P (delete_folder_subtree u (trim_slashes path))"
  shows "preserves P (trash_path now u path)"
  unfolding trash_path_def Let_def
proof (intro preserves_db_transaction)
  show "preserves P (\<lambda>M. case get_file_by_path u (trim_slashes path) M of
      None \<Rightarrow> if files_under u (trim_slashes path) M = [] \<and> \<not> folder_exists u (trim_slashes path) M
               then (Err NotFound, M)
               else sbind (trash_each now u (files_under u (trim_slashes path) M) TrashSummary_default)
                 (\<lambda>summary. sbind (delete_folder_subtree u (trim_slashes path)) (\<lambda>_. sreturn summary)) M
    | Some file \<Rightarrow> sbind (trash_file u (f_file_id file) now)
        (\<lambda>_. sreturn (summary_add file TrashSummary_default)) M)"
    (is "preserves P (\<lambda>M. ?f M)")
  proof (rule preservesI)
    fix M r M' assume "P M" "?f M = (r, M')"
    moreover have "preserves P (sbind (trash_each now u (files_under u (trim_slashes path) M) TrashSummary_default)
        (\<lambda>summary. sbind (delete_folder_subtree u (trim_slashes path)) (\<lambda>_. sreturn summary)))"
      by (intro preserve assms)
    moreover have "preserves P (sbind (trash_file u fid now) (\<lambda>_. sreturn s))"
      for fid and s :: trash_summary by (intro preserve assms)
    ultimately show "P M'" by (auto split: option.splits if_splits dest: preservesD)
  qed
qed

lemma preserves_restore:
  assumes "\<And>fid. preserves P (supersede_file u fid now)" "\<And>p. preserves P (insert_folder u p)"
    "\<And>p. preserves P (restore_file u fid p)"
  shows "preserves P (service_restore now u fid new_path)"
  unfolding service_restore_def Let_def by (intro preserve assms)

lemma preserves_mkdir: "preserves P (insert_folder u (trim_slashes path)) \<Longrightarrow> preserves P (mkdir u path)"
  by (simp add: mkdir_def)

text \<open>A rename touches live rows only, so it keeps the invariant.\<close>

definition all_live :: "string set \<Rightarrow> manifest \<Rightarrow> bool" where
  "all_live ids M \<longleftrightarrow> (\<forall>x \<in> set (m_files M). d_file_id x \<in> ids \<longrightarrow> LIVE x)"

lemma update_file_path_live:
  assumes "fid \<in> ids"
  shows "preserves (\<lambda>M. manifest_inv M \<and> all_live ids M) (update_file_path u fid path)"
proof (rule preservesI)
  fix M r M' assume M: "manifest_inv M \<and> all_live ids M" and u: "update_file_path u fid path M = (r, M')"
  have "manifest_inv M'"
    using M u assms by (intro update_file_path_inv [of M u fid path r M']) (auto simp: all_live_def)
  moreover have "all_live ids M'"
  proof -
    obtain n where "update_files (\<lambda>r. d_user_id r = u \<and> d_file_id r = fid)
        (\<lambda>r. r\<lparr>d_path := path\<rparr>) M = (n, M')"
      using u by (auto simp: update_file_path_def sbind_def split: prod.splits result.splits)
    from update_files_Ok [OF this] M show ?thesis by (auto simp: all_live_def LIVE_def)
  qed
  ultimately show "manifest_inv M' \<and> all_live ids M'" ..
qed

lemma folder_path_live:
  "preserves (\<lambda>M. manifest_inv M \<and> all_live ids M) (update_folder_path u old new)"
  "preserves (\<lambda>M. manifest_inv M \<and> all_live ids M) (insert_folder u path)"
proof -
  have f: "m_files M' = m_files M" if "update_folder_path u old new M = (r, M')" for M M' r
    using that by (auto simp: update_folder_path_def Let_def split: if_splits)
  show "preserves (\<lambda>M. manifest_inv M \<and> all_live ids M) (update_folder_path u old new)"
    using f by (auto intro!: preservesI intro: update_folder_path_inv simp: all_live_def)
  have g: "m_files M' = m_files M" if "insert_folder u path M = (r, M')" for M M' r
    using that by (auto simp: insert_folder_def Let_def insert_ancestors_tables split: if_splits)
  show "preserves (\<lambda>M. manifest_inv M \<and> all_live ids M) (insert_folder u path)"
    using g by (auto intro!: preservesI intro: insert_folder_inv simp: all_live_def)
qed

lemma live_row_ids:
  assumes "manifest_inv M" "r \<in> set (m_files M)" "LIVE r" "x \<in> set (m_files M)" "d_file_id x = d_file_id r"
  shows "LIVE x"
proof -
  have "inj_on d_file_id (set (m_files M))" using assms(1) by (simp add: manifest_inv_def distinct_map)
  then have "x = r" using assms(2,4,5) by (auto dest: inj_onD)
  then show ?thesis using assms(3) by simp
qed

lemma files_under_live:
  assumes "manifest_inv M"
  shows "all_live (fst ` set (files_under u path M)) M"
proof -
  have "fst ` set (files_under u path M) \<subseteq> d_file_id ` {r \<in> set (m_files M). LIVE r}"
    by (auto simp: files_under_def)
  then show ?thesis unfolding all_live_def using live_row_ids [OF assms] by blast
qed

lemma optional_row_filter:
  "optional_row (map g (filter P xs)) = Some y \<Longrightarrow> \<exists>x \<in> set xs. P x \<and> y = g x"
  by (induction xs) (auto simp: optional_row_def split: if_splits)

lemma get_file_by_path_Some:
  "get_file_by_path u path M = Some f \<Longrightarrow>
   \<exists>r \<in> set (m_files M). f = map_file r \<and> d_user_id r = u \<and> d_path r = path \<and> LIVE r \<and> not_pack r"
  unfolding get_file_by_path_def by (drule optional_row_filter) blast

lemma get_file_Some:
  "get_file u fid M = Some f \<Longrightarrow>
   \<exists>r \<in> set (m_files M). f = map_file r \<and> d_user_id r = u \<and> d_file_id r = fid"
  unfolding get_file_def by (drule optional_row_filter) blast

lemma preserves_rename_body_inv: "preserves manifest_inv (rename_body u src dst)"
proof (rule preservesI)
  fix M r M' assume inv: "manifest_inv M" and r: "rename_body u src dst M = (r, M')"
  show "manifest_inv M'"
  proof (cases "get_file_by_path u src M")
    case (Some f)
    then obtain row where row: "row \<in> set (m_files M)" "f = map_file row" "LIVE row"
      using get_file_by_path_Some by metis
    show ?thesis
      using inv r Some row
      by (intro update_file_path_inv [of M u "f_file_id f" dst r M'])
         (auto simp: rename_body_def map_file_def intro: live_row_ids)
  next
    case None
    let ?fs = "files_under u src M"
    let ?P = "\<lambda>M. manifest_inv M \<and> all_live (fst ` set ?fs) M"
    have "preserves ?P (rename_file_under u src dst fp)" if "fp \<in> set ?fs" for fp
      unfolding rename_file_under_def using that by (intro preserve update_file_path_live) auto
    then have "preserves ?P (sbind (sforM (rename_file_under u src dst) ?fs) (\<lambda>_.
        sbind (sforM (rename_folder_under u src dst) (folders_under u src M)) (\<lambda>_. insert_folder u dst)))"
      unfolding rename_folder_under_def by (intro preserve folder_path_live)
    then show ?thesis
      using inv r None files_under_live [OF inv, of u src]
      by (auto simp: rename_body_def Let_def split: if_splits dest: preservesD)
  qed
qed

lemma preserves_rename_body_meta: "preserves (meta_same M0) (rename_body u src dst)"
proof (rule preservesI)
  fix M r M' assume M: "meta_same M0 M" and r: "rename_body u src dst M = (r, M')"
  have "preserves (meta_same M0) (sbind (sforM (rename_file_under u src dst) fs) (\<lambda>_.
              sbind (sforM (rename_folder_under u src dst) ds) (\<lambda>_. insert_folder u dst)))" for fs ds
    unfolding rename_file_under_def rename_folder_under_def by (intro preserve)
  note p = preservesD [OF this M] preservesD [OF preserves_meta(7) M]
  show "meta_same M0 M'"
    using M r p by (auto simp: rename_body_def Let_def split: option.splits if_splits)
qed

lemma preserves_rename:
  assumes "preserves P (insert_folder u (dirname (trim_slashes dst)))"
    "preserves P (rename_body u (trim_slashes src) (trim_slashes dst))"
  shows "preserves P (rename u src dst)"
  unfolding rename_def Let_def by (intro preserve assms)

section \<open>Preserved by every operation on the node\<close>

abbreviation node_inv :: "node \<Rightarrow> bool" where
  "node_inv S \<equiv> manifest_inv (nd_manifest S)"

lemma preserves_on_db [preserve]:
  "preserves P m \<Longrightarrow> preserves (\<lambda>S. P (nd_manifest S)) (on_db m)"
  unfolding preserves_def on_db_def by (fastforce split: prod.splits)

lemma preserves_transaction [preserve]:
  "preserves (\<lambda>S. P (nd_manifest S)) m \<Longrightarrow> preserves (\<lambda>S. P (nd_manifest S)) (transaction m)"
  unfolding preserves_def transaction_def by (fastforce split: prod.splits result.splits)

lemma preserves_free [preserve]:
  "preserves (\<lambda>S. P (nd_manifest S))
     (\<lambda>S. let (remote, D) = purge_local_collect_remote root frags (nd_disk S)
          in (Ok (g remote), S\<lparr>nd_disk := D\<rparr>))"
  by (auto simp: preserves_def split: prod.splits)

lemma preserves_write_chunk_rows [preserve]: "preserves node_inv (write_chunk_rows E root fid cs)"
  by (rule preservesI) (rule write_chunk_rows_inv)

lemma preserves_push_tx [preserve]: "preserves node_inv (push_tx E root fid now u path data cs)"
  unfolding push_tx_def Let_def by (intro preserve)

lemma preserves_push [preserve]: "preserves node_inv (push E ident root rnd now u path data)"
proof (rule preservesI)
  fix S r T assume S: "node_inv S" and r: "push E ident root rnd now u path data S = (r, T)"
  have "preserves node_inv (sbind (slift (map_err Core
      (process_v2 E data (id_data_key ident) (as_bytes u) (as_bytes (mint_file_id E rnd))
         (PipelineConfig_default E)))) (push_tx E root (mint_file_id E rnd) now u path data))"
    by (intro preserve)
  from preservesD [OF this S] S r show "node_inv T"
    by (auto simp: push_def Let_def split: option.splits if_splits)
qed

lemma preserves_purge_file [preserve]: "preserves node_inv (purge_file root u fid)"
  unfolding purge_file_def by (intro preserve)

lemma preserves_purge_each [preserve]: "preserves manifest_inv (purge_each u fs sm frags)"
proof (induction fs arbitrary: sm frags)
  case (Cons f fs)
  have "preserves manifest_inv (sbind (purge_file_row u (f_file_id f))
      (\<lambda>more. purge_each u fs (summary_add f sm) (frags @ more)))"
    by (intro preserve Cons)
  then show ?case by (simp add: preserves_def)
qed (simp add: preserves_def)

lemma preserves_empty_trash [preserve]: "preserves node_inv (empty_trash root u)"
proof -
  have "preserves manifest_inv (\<lambda>M. purge_each u (list_trashed u M) TrashSummary_default [] M)"
    by (rule preserves_at [where f = "\<lambda>M. purge_each u (list_trashed u M) TrashSummary_default []"])
       (rule preserves_purge_each)
  then show ?thesis unfolding empty_trash_def by (intro preserve)
qed

lemma preserves_sweep_each [preserve]: "preserves manifest_inv (sweep_each cs w)"
proof (induction cs arbitrary: w)
  case (Cons c cs)
  obtain u fid sz st where c: "c = (u, fid, sz, st)" by (cases c)
  have "preserves manifest_inv (sbind (purge_file_row u fid) (\<lambda>frags. sweep_each cs (g frags)))" for g
    by (intro preserve Cons)
  note p = this [THEN preservesD] Cons.IH [THEN preservesD]
  show ?case
  proof (rule preservesI)
    fix M r M' assume M: "manifest_inv M" and r: "sweep_each (c # cs) w M = (r, M')"
    show "manifest_inv M'"
    proof (cases "fid \<in> sw_seen w")
      case True
      then show ?thesis using M r c p(2) by auto
    next
      case False
      then show ?thesis
        using M r c by (simp add: Let_def) (erule (1) p(1))
    qed
  qed
qed (simp add: preserves_def)

lemma preserves_purge_retired [preserve]: "preserves node_inv (purge_retired root days_ago policy)"
proof -
  have "preserves manifest_inv (\<lambda>M. let cands = sweep_candidates days_ago policy M
      in sbind (sweep_each cands sweep_start) (\<lambda>w. sreturn (cands, w)) M)"
    unfolding Let_def
    by (rule preserves_at [where f = "\<lambda>M. sbind (sweep_each (sweep_candidates days_ago policy M) sweep_start)
          (\<lambda>w. sreturn (sweep_candidates days_ago policy M, w))"]) (intro preserve)
  then show ?thesis
    unfolding purge_retired_def by (intro preserve)
qed

end
