(* ===== verification/PushPull.thy ===== *)
theory PushPull
  imports ServiceLaws
begin

text \<open>
  Storing a file and reading it back: the state after a successful \<open>push\<close>, the read of the new
  file, and that every other file still reads the same.
\<close>

section \<open>The state after a push\<close>

lemma transaction_Ok [simp]: "transaction m S = (Ok x, T) \<longleftrightarrow> m S = (Ok x, T)"
  by (auto simp: transaction_def split: prod.splits result.splits)

lemma query_iff [simp]: "query q M = (r, M') \<longleftrightarrow> r = Ok (q M) \<and> M' = M"
  by (auto simp: query_def)

text \<open>The row that \<open>push\<close> inserts.\<close>

definition pushed_row :: "'f env \<Rightarrow> string \<Rightarrow> string \<Rightarrow> string \<Rightarrow> string \<Rightarrow> bytes \<Rightarrow> nat \<Rightarrow> int \<Rightarrow> string \<Rightarrow> file_row" where
  "pushed_row E fid now u path data n stored lineage =
     \<lparr>f_file_id = fid, f_user_id = u, f_path = path, f_size = int (length data),
      f_stored_bytes = stored, f_chunk_count = int n, f_created_at = now,
      f_deleted_at = None, f_superseded_at = None, f_lineage = lineage,
      f_key_scheme = as_i64 V2, f_content_hash = Some (blake3_hex E data),
      f_pack_id = None, f_pack_offset = None, f_pack_len = None\<rparr>"

lemma retire_row_ids:
  assumes "retire_row u fid col at M = (r, M')"
  shows "map d_file_id (m_files M') = map d_file_id (m_files M)"
proof -
  obtain n where "update_files
      (\<lambda>r. d_user_id r = u \<and> d_file_id r = fid \<and> column_value col r = None)
      (\<lambda>r. (set_column col at r)\<lparr>d_retired_path := Some (coalesce (d_retired_path r) (d_path r)),
             d_path := retired_key fid\<rparr>) M = (n, M')"
    using assms by (auto simp: retire_row_def sbind_def split: prod.splits result.splits)
  from update_files_Ok [OF this] show ?thesis by (cases col) auto
qed

lemma push_tx_Ok:
  assumes "push_tx E root fid now u path data cs S = (Ok r, T)"
  obtains M1 M2 lineage where "meta_same (nd_manifest S) M1"
    "manifest_inv (nd_manifest S) \<longrightarrow> manifest_inv M1"
    "map d_file_id (m_files M1) = map d_file_id (m_files (nd_manifest S))"
    "insert_file (pushed_row E fid now u path data (length cs) (chunks_disk_cost cs) lineage) M1 = (Ok (), M2)"
    "write_chunk_rows E root fid cs (S\<lparr>nd_manifest := M2\<rparr>) = (Ok (), T)"
    "pr_file_id r = fid" "\<not> pr_unchanged r" "pr_size r = int (length data)"
proof (cases "get_file_by_path u path (nd_manifest S)")
  case None
  with assms obtain M2 where
    i: "insert_file (pushed_row E fid now u path data (length cs) (chunks_disk_cost cs) fid) (nd_manifest S) = (Ok (), M2)"
    and w: "write_chunk_rows E root fid cs (S\<lparr>nd_manifest := M2\<rparr>) = (Ok (), T)"
    and r: "pr_file_id r = fid" "\<not> pr_unchanged r" "pr_size r = int (length data)"
    by (auto simp: push_tx_def Let_def sbind_Ok_iff on_db_Ok pushed_row_def)
  show ?thesis by (rule that [OF meta_same_refl _ _ i w r]) simp_all
next
  case (Some p)
  with assms obtain b M1 M2 where
    s: "supersede_file u (f_file_id p) now (nd_manifest S) = (Ok b, M1)"
    and i: "insert_file (pushed_row E fid now u path data (length cs) (chunks_disk_cost cs) (f_lineage p)) M1 = (Ok (), M2)"
    and w: "write_chunk_rows E root fid cs (S\<lparr>nd_manifest := M2\<rparr>) = (Ok (), T)"
    and r: "pr_file_id r = fid" "\<not> pr_unchanged r" "pr_size r = int (length data)"
    by (auto simp: push_tx_def Let_def sbind_Ok_iff on_db_Ok pushed_row_def)
  have "meta_same (nd_manifest S) M1" "map d_file_id (m_files M1) = map d_file_id (m_files (nd_manifest S))"
    using s retire_row_meta retire_row_ids by (simp_all add: supersede_file_def)
  then show ?thesis using supersede_file_inv [OF _ s] by (intro that [OF _ _ _ i w r]) simp_all
qed

lemma push_Ok:
  assumes "push E ident root rnd now u path data S = (Ok r, T)" "\<not> pr_unchanged r"
  obtains cs where
    "process_v2 E data (id_data_key ident) (as_bytes u) (as_bytes (mint_file_id E rnd))
       (PipelineConfig_default E) = Ok cs"
    "push_tx E root (mint_file_id E rnd) now u path data cs S = (Ok r, T)"
  using assms by (auto simp: push_def Let_def sbind_Ok_iff split: option.splits if_splits)

lemma insert_file_Ok:
  assumes "insert_file f M = (Ok (), M')"
  obtains row where "M' = M\<lparr>m_files := m_files M @ [row]\<rparr>" "same_core f (map_file row)"
    "f_file_id f \<notin> d_file_id ` set (m_files M)" "LIVE row" "d_path row = f_path f"
  using assms
  by (auto simp: insert_file_def Let_def same_core_def map_file_def LIVE_def split: if_splits)

section \<open>Chunk and fragment identifiers\<close>

lemma chunk_id_inj [simp]: "chunk_id fid i = chunk_id fid j \<longleftrightarrow> i = j"
  by (simp add: chunk_id_def)

text \<open>A chunk id determines the file as well: the last colon separates them.\<close>

lemma chunk_id_inj2: "chunk_id f i = chunk_id g j \<longleftrightarrow> f = g \<and> i = j"
proof
  assume e: "chunk_id f i = chunk_id g j"
  have nc: "CHR '':'' \<notin> set (rev (show_nat k))" for k using show_nat_digits by fastforce
  have tw: "takeWhile (\<lambda>c. c \<noteq> CHR '':'') (rev (chunk_id h k)) = rev (show_nat k)" for h k
  proof -
    have "takeWhile (\<lambda>c. c \<noteq> CHR '':'') (rev (show_nat k) @ CHR '':'' # rev h)
          = rev (show_nat k) @ takeWhile (\<lambda>c. c \<noteq> CHR '':'') (CHR '':'' # rev h)"
      by (rule takeWhile_append2) (use nc [of k] in auto)
    then show ?thesis by (simp add: chunk_id_def)
  qed
  have "show_nat i = show_nat j" using e tw by (metis rev_rev_ident)
  then have "i = j" by simp
  then show "f = g \<and> i = j" using e by (simp add: chunk_id_def)
qed simp

lemma shard_files_ids:
  "map fst (concat (map (shard_files E fid) cs)) = map s_fragment_id (concat (map (shard_rows E fid) cs))"
  by (simp add: map_concat shard_files_def shard_rows_def shard_row_of_def o_def)

lemma put_all_faults: "cs.put_all root kvs D = (r, D') \<Longrightarrow> same_faults D D'"
  unfolding cs.put_all_def
  by (rule sforM_preserves [where P = "same_faults D"])
     (auto intro: same_faults_trans dest: store_write_faults)

section \<open>Reading the shards of a pushed chunk\<close>

lemma usize_of_nat: "n < 2 ^ 64 \<Longrightarrow> usize_of_i64 (int n) = n"
  by (simp add: usize_of_i64_def unat_of_nat)

lemma fill_reads_all:
  assumes "n < 2 ^ 64" "k \<le> n"
  shows "fill_reads (map (\<lambda>i. (int i, Ok (b i))) [k..<n]) (map (\<lambda>i. Some (b i)) [0..<k] @ replicate (n - k) None)
         = Ok (map (\<lambda>i. Some (b i)) [0..<n])"
  using assms(2)
proof (induction "n - k" arbitrary: k)
  case 0
  then show ?case by simp
next
  case (Suc m)
  then have k: "k < n" by simp
  have "(map (\<lambda>i. Some (b i)) [0..<k] @ replicate (n - k) None)[k := Some (b k)]
        = map (\<lambda>i. Some (b i)) [0..<Suc k] @ replicate (n - Suc k) None"
  proof -
    have "replicate (n - k) None = None # replicate (n - Suc k) (None :: bytes option)"
      using k by (metis Suc_diff_Suc replicate_Suc)
    then show ?thesis by (simp add: list_update_append)
  qed
  moreover have "usize_of_i64 (int k) = k" using k assms(1) by (intro usize_of_nat) simp
  ultimately show ?case
    using Suc k by (simp add: upt_conv_Cons [of k n] Let_def del: upt_Suc)
qed

lemma shard_content_data:
  assumes "pc_shard_len c = shard_len (length (pc_cipher c))" "i < DATA_SHARDS"
  shows "shard_content c i = data_shard_list (pc_cipher c) ! i"
proof -
  let ?sl = "shard_len (length (pc_cipher c))"
  let ?s = "case data_shard (pc_cipher c) ?sl i of Some s \<Rightarrow> s | None \<Rightarrow> []"
  have s: "?s = (case data_shard (pc_cipher c) ?sl i of None \<Rightarrow> [] | Some s \<Rightarrow> s)"
    by (simp split: option.splits)
  have "length ?s \<le> ?sl"
    by (auto simp: data_shard_def Let_def split: option.splits if_splits)
  then have "pad_shard ?s ?sl = Ok (pad_zero ?sl ?s)"
    by (auto simp: pad_shard_def pad_zero_def)
  then show ?thesis
    using assms data_shard_pad [OF assms(2), of "pc_cipher c"] s
    by (simp add: shard_content_def chunk_shard_def)
qed

lemma reconstruct_pushed:
  assumes "pc_shard_len c = shard_len (length (pc_cipher c))"
  shows "reconstruct E (map (\<lambda>i. Some (shard_content c i)) [0..<TOTAL_SHARDS]) (length (pc_cipher c))
         = Ok (pc_cipher c)"
proof -
  let ?p = "map (\<lambda>i. Some (shard_content c i)) [0..<TOTAL_SHARDS]"
  have t: "take DATA_SHARDS ?p = map (\<lambda>i. Some (shard_content c i)) [0..<DATA_SHARDS]"
    by (simp add: take_map TOTAL_SHARDS_def)
  have "map the (take DATA_SHARDS ?p) = data_shard_list (pc_cipher c)"
    unfolding t by (intro nth_equalityI) (simp_all add: shard_content_data [OF assms])
  moreover have "list_all (\<lambda>s. s \<noteq> None) (take DATA_SHARDS ?p)"
    unfolding t by (simp add: list_all_iff)
  ultimately show ?thesis by (simp add: reconstruct_def concat_data_shard_list)
qed

lemma filter_concat_one:
  assumes "distinct (map key cs)" "c \<in> set cs"
    and "\<And>c s. c \<in> set cs \<Longrightarrow> s \<in> set (g c) \<Longrightarrow> tag s = key c"
  shows "filter (\<lambda>s. tag s = key c) (concat (map g cs)) = g c"
  using assms
proof (induction cs)
  case (Cons d cs)
  show ?case
  proof (cases "c = d")
    case True
    have "tag s \<noteq> key c" if "e \<in> set cs" "s \<in> set (g e)" for e s
      using Cons.prems(1) Cons.prems(3) [of e s] True that by (auto simp: image_iff)
    then have "filter (\<lambda>s. tag s = key c) (concat (map g cs)) = []"
      by (auto simp: filter_empty_conv)
    moreover have "filter (\<lambda>s. tag s = key c) (g c) = g c"
      using Cons.prems(3) True by (auto simp: filter_id_conv)
    ultimately show ?thesis using True by simp
  next
    case False
    then have "c \<in> set cs" using Cons.prems(2) by simp
    moreover have "filter (\<lambda>s. tag s = key c) (g d) = []"
      using Cons.prems(1) Cons.prems(3) [of d] \<open>c \<in> set cs\<close> by (auto simp: filter_empty_conv)
    ultimately show ?thesis using Cons by simp
  qed
qed simp

lemma chunk_view_old:
  assumes w: "write_chunk_rows E root fid cs S = (Ok (), T)" and inv: "node_inv S" and h: "h \<noteq> fid"
  shows "chunk_view root T h = chunk_view root S h"
proof -
  note t = write_chunk_rows_Ok [OF w]
  let ?M = "nd_manifest S" and ?new = "concat (map (shard_rows E fid) cs)"
  have invT: "manifest_inv (nd_manifest T)" by (rule write_chunk_rows_inv [OF w inv])
  have ch: "get_chunks h (nd_manifest T) = get_chunks h ?M"
    using h t(3) by (simp add: get_chunks_def chunk_row_of_def o_def)
  have "shard_reads root T (c_chunk_id c) = shard_reads root S (c_chunk_id c)"
    if c: "c \<in> set (get_chunks h ?M)" for c
  proof -
    have "c \<in> set (m_chunks ?M)" using c by (simp add: get_chunks_def)
    then have "chunk_id fid (pc_index d) \<noteq> c_chunk_id c" if "d \<in> set cs" for d
      using invT t(3) that by (auto simp: manifest_inv_def chunk_row_of_def)
    then have "filter (\<lambda>s. s_chunk_id s = c_chunk_id c) ?new = []"
      by (auto simp: filter_empty_conv shard_rows_def shard_row_of_def)
    then have sh: "get_shards (c_chunk_id c) (nd_manifest T) = get_shards (c_chunk_id c) ?M"
      using t(3) by (simp add: get_shards_def)
    have "store_read root (nd_disk T) (s_fragment_id s) = store_read root (nd_disk S) (s_fragment_id s)"
      if "s \<in> set (m_shards ?M)" for s
    proof (rule store_read_cong)
      have "distinct (map s_fragment_id (m_shards ?M @ ?new))"
        using inv_fragments_distinct [OF invT] t(3) by simp
      then have "s_fragment_id s \<notin> s_fragment_id ` set ?new"
        using that unfolding map_append distinct_append set_map by blast
      then have "s_fragment_id s \<notin> fst ` set (concat (map (shard_files E fid) cs))"
        by (metis shard_files_ids set_map)
      then show "shard_bytes root (nd_disk T) (s_fragment_id s) = shard_bytes root (nd_disk S) (s_fragment_id s)"
        by (rule cs.put_all_other [OF t(2)])
      show "read_fault (nd_disk T) = read_fault (nd_disk S)"
        using put_all_faults [OF t(2)] by (simp add: same_faults_def)
    qed
    then show ?thesis
      unfolding shard_reads_def sh by (auto simp: get_shards_def)
  qed
  then show ?thesis unfolding chunk_view_def ch by simp
qed

lemma pushed_rows:
  assumes w: "write_chunk_rows E root fid cs S = (Ok (), T)" and inv: "node_inv S"
    and fresh: "\<forall>c \<in> set (m_chunks (nd_manifest S)). c_file_id c \<noteq> fid"
    and idx: "map pc_index cs = [0..<length cs]"
  shows "get_chunks fid (nd_manifest T) = map (chunk_row_of fid) cs"
    "c \<in> set cs \<Longrightarrow> get_shards (chunk_id fid (pc_index c)) (nd_manifest T) = shard_rows E fid c"
proof -
  note t = write_chunk_rows_Ok [OF w]
  let ?M = "nd_manifest S" and ?new = "concat (map (shard_rows E fid) cs)"
  have invT: "manifest_inv (nd_manifest T)" by (rule write_chunk_rows_inv [OF w inv])
  have dist: "distinct (map pc_index cs)" using idx by simp
  have "filter (\<lambda>c. c_file_id c = fid) (m_chunks (nd_manifest T)) = map (chunk_row_of fid) cs"
    using t(3) fresh by (auto simp: filter_empty_conv filter_map o_def chunk_row_of_def)
  moreover have "sorted (map c_idx (map (chunk_row_of fid) cs))"
  proof -
    have "map c_idx (map (chunk_row_of fid) cs) = map int (map pc_index cs)"
      by (simp add: chunk_row_of_def o_def)
    then show ?thesis by (simp add: idx sorted_map sorted_wrt_upt)
  qed
  ultimately show "get_chunks fid (nd_manifest T) = map (chunk_row_of fid) cs"
    by (simp add: get_chunks_def sorted_sort_id sort_key_id_if_sorted)
  assume c: "c \<in> set cs"
  have "filter (\<lambda>s. s_chunk_id s = chunk_id fid (pc_index c)) ?new = shard_rows E fid c"
    by (rule filter_concat_one [where key = "\<lambda>c. chunk_id fid (pc_index c)" and tag = s_chunk_id])
       (use dist c in \<open>auto simp: distinct_map inj_on_def shard_rows_def shard_row_of_def\<close>)
  moreover have "filter (\<lambda>s. s_chunk_id s = chunk_id fid (pc_index c)) (m_shards ?M) = []"
  proof -
    have "chunk_id fid (pc_index c) \<notin> c_chunk_id ` set (m_chunks ?M)"
      using invT t(3) c by (auto simp: manifest_inv_def chunk_row_of_def)
    then show ?thesis using inv_shard_chunk [OF inv] by (metis (mono_tags, lifting) filter_False)
  qed
  ultimately have "filter (\<lambda>s. s_chunk_id s = chunk_id fid (pc_index c)) (m_shards (nd_manifest T)) = shard_rows E fid c"
    using t(3) by simp
  moreover have "sorted (map s_shard_index (shard_rows E fid c))"
    by (simp add: shard_rows_def shard_row_of_def o_def sorted_map sorted_wrt_upt)
  ultimately show "get_shards (chunk_id fid (pc_index c)) (nd_manifest T) = shard_rows E fid c"
    by (simp add: get_shards_def sort_key_id_if_sorted)
qed

lemma chunk_view_new:
  assumes w: "write_chunk_rows E root fid cs S = (Ok (), T)" and inv: "node_inv S"
    and fresh: "\<forall>c \<in> set (m_chunks (nd_manifest S)). c_file_id c \<noteq> fid"
    and idx: "map pc_index cs = [0..<length cs]"
    and nofault: "read_fault (nd_disk S) = (\<lambda>_. None)"
  shows "chunk_view root T fid =
     map (\<lambda>c. (chunk_row_of fid c, map (\<lambda>i. (int i, Ok (shard_content c i))) [0..<TOTAL_SHARDS])) cs"
proof -
  note t = write_chunk_rows_Ok [OF w] and rows = pushed_rows [OF w inv fresh idx]
  have invT: "manifest_inv (nd_manifest T)" by (rule write_chunk_rows_inv [OF w inv])
  have "shard_reads root T (chunk_id fid (pc_index c)) = map (\<lambda>i. (int i, Ok (shard_content c i))) [0..<TOTAL_SHARDS]"
    if c: "c \<in> set cs" for c
  proof -
    have "store_read root (nd_disk T) (fragment_id E (chunk_id fid (pc_index c)) i) = Ok (shard_content c i)"
      if "i < TOTAL_SHARDS" for i
    proof -
      have "distinct (map fst (concat (map (shard_files E fid) cs)))"
        unfolding shard_files_ids using invT t(3) by (simp add: manifest_inv_def)
      moreover have "(fragment_id E (chunk_id fid (pc_index c)) i, shard_content c i)
          \<in> set (concat (map (shard_files E fid) cs))"
        using c that by (auto simp: shard_files_def intro!: bexI [of _ c])
      ultimately have "shard_bytes root (nd_disk T) (fragment_id E (chunk_id fid (pc_index c)) i)
          = Some (shard_content c i)"
        by (rule cs.put_all_stores [OF t(2)])
      moreover have "read_fault (nd_disk T) = (\<lambda>_. None)"
        using put_all_faults [OF t(2)] nofault by (simp add: same_faults_def)
      ultimately show ?thesis by (simp add: store_read_Ok)
    qed
    then show ?thesis
      unfolding shard_reads_def rows(2) [OF c] by (simp add: shard_rows_def shard_row_of_def)
  qed
  then show ?thesis unfolding chunk_view_def rows(1) by (simp add: chunk_row_of_def)
qed

section \<open>Reading back\<close>

lemma process_v2_count:
  assumes "process_v2 E data key uid fid cfg = Ok cs" "aead_correct E" "length data < 2 ^ 63"
  shows "length cs \<le> 2 ^ 32"
proof (rule ccontr)
  assume n: "\<not> length cs \<le> 2 ^ 32"
  from assms(1) have p: "process_with_scheme E data key V2 uid fid cfg = Ok cs"
    by (simp add: process_v2_def)
  then obtain C where
    pos: "0 < chunk_size cfg" and len: "length cs = div_ceil (length data) (chunk_size cfg)"
    and all: "\<forall>i < length cs. process_chunk E C cfg (i, chunks (chunk_size cfg) data ! i) = Ok (cs ! i)"
    by (rule process_with_scheme_Ok)
  have "process_chunk E C cfg (2 ^ 32, chunks (chunk_size cfg) data ! (2 ^ 32)) = Ok (cs ! (2 ^ 32))"
    using all n by (metis linorder_not_le)
  from process_chunk_sizes(4) [OF assms(2) this]
  have "unat (word_of_nat (2 ^ 32) :: u64) \<le> unat MAX_CHUNK_INDEX" by (simp only: word_le_nat_alt)
  then show False by (simp add: MAX_CHUNK_INDEX_def)
qed

lemma pull_pushed_chunks:
  assumes laws: "aead_correct E" "zstd_lossless E"
    and p: "process_v2 E data (id_data_key ident) (as_bytes u) (as_bytes fid) cfg = Ok cs"
    and n: "length cs \<le> 2 ^ 32"
    and f: "f_file_id f = fid" "f_user_id f = u" "f_chunk_count f = int (length cs)"
      "f_key_scheme f = as_i64 V2" "f_size f = int (length data)"
    and view: "chunk_view root T fid =
     map (\<lambda>c. (chunk_row_of fid c, map (\<lambda>i. (int i, Ok (shard_content c i))) [0..<TOTAL_SHARDS])) cs"
    and small: "\<forall>c \<in> set cs. length (pc_cipher c) < 2 ^ 64"
  shows "pull_contained E ident root T f = Ok data"
proof -
  from p have ps: "process_with_scheme E data (id_data_key ident) V2 (as_bytes u) (as_bytes fid) cfg = Ok cs"
    by (simp add: process_v2_def)
  then obtain C where pos: "0 < chunk_size cfg"
    and C0: "FileCipher_new E (id_data_key ident) V2 (as_bytes u) (as_bytes fid)
               (word_of_nat (div_ceil (length data) (chunk_size cfg))) = Ok C"
    and len: "length cs = div_ceil (length data) (chunk_size cfg)"
    and all: "\<forall>i < length cs. process_chunk E C cfg (i, chunks (chunk_size cfg) data ! i) = Ok (cs ! i)"
    by (rule process_with_scheme_Ok)
  have C: "file_cipher_of E ident f = Ok C"
    using C0 f len by (simp add: file_cipher_of_def)
  have open_i: "rbind (fill_reads (map (\<lambda>i. (int i, Ok (shard_content (cs ! k) i))) [0..<TOTAL_SHARDS])
                     (replicate TOTAL_SHARDS None)) (open_chunk_row E C (chunk_row_of fid (cs ! k)))
        = Ok (chunks (chunk_size cfg) data ! k)" if k: "k < length cs" for k
  proof -
    note pk = all [rule_format, OF k]
    from pk have pl: "pc_index (cs ! k) = k" using process_chunk_place by blast
    from pk obtain buf where sl: "pc_shard_len (cs ! k) = shard_len (length (pc_cipher (cs ! k)))"
      by (rule process_chunk_Ok)
    have fr: "fill_reads (map (\<lambda>i. (int i, Ok (shard_content (cs ! k) i))) [0..<TOTAL_SHARDS])
        (replicate TOTAL_SHARDS None) = Ok (map (\<lambda>i. Some (shard_content (cs ! k) i)) [0..<TOTAL_SHARDS])"
      using fill_reads_all [of TOTAL_SHARDS 0 "shard_content (cs ! k)"] by (simp add: shard_consts)
    have un: "unprocess_chunk E C k (pc_cipher (cs ! k)) (pc_is_compressed (cs ! k))
        = Ok (chunks (chunk_size cfg) data ! k)"
      using chunk_index_u64(1) [OF k n] FileCipher_new_fields(2) [OF C0] len
      by (intro unprocess_process_chunk [OF laws pk]) simp
    have us: "usize_of_i64 (int (length (pc_cipher (cs ! k)))) = length (pc_cipher (cs ! k))"
      using small k by (intro usize_of_nat) simp
    show ?thesis
      using un reconstruct_pushed [OF sl, of E] us pl
      by (auto simp: fr open_chunk_row_def chunk_row_of_def unprocess_chunk_def)
  qed
  have "rmapM (\<lambda>(c, rs). rbind (fill_reads rs (replicate TOTAL_SHARDS None)) (open_chunk_row E C c))
          (chunk_view root T fid) = Ok (chunks (chunk_size cfg) data)"
    unfolding view rmapM_map rmapM_Ok_iff using open_i len by (simp add: length_chunks [OF pos])
  then show ?thesis
    using C f concat_chunks [OF pos] by (simp add: pull_contained_view)
qed

end
