(* ===== verification/PushTotal.thy ===== *)
theory PushTotal
  imports PushPull
begin

text \<open>
  When \<open>push\<close> succeeds, and the properties of storing and reading back.
\<close>

section \<open>A push succeeds\<close>

text \<open>The conditions: the operating system serves every path, and the identifiers are new.\<close>

definition no_faults :: "disk \<Rightarrow> bool" where
  "no_faults D \<longleftrightarrow>
     mkdir_fault D = (\<lambda>_. None) \<and> write_fault D = (\<lambda>_. None)
     \<and> read_fault D = (\<lambda>_. None) \<and> remove_fault D = (\<lambda>_. None)"

lemma store_write_total:
  assumes "no_faults D" "is_valid_fragment_id k"
  obtains D' where "store_write root k v D = (Ok (), D')" "no_faults D'"
  using assms by (simp add: store_write_valid write_file_def no_faults_def)

lemma write_shards_total:
  assumes "no_faults (nd_disk S)" "cid \<in> c_chunk_id ` set (m_chunks (nd_manifest S))"
    and "\<forall>i \<in> set is. chunk_shard c i = Ok (shard_content c i) \<and> is_valid_fragment_id (fragment_id E cid i)"
    and "distinct (map (fragment_id E cid) is)"
    and "fragment_id E cid ` set is \<inter> s_fragment_id ` set (m_shards (nd_manifest S)) = {}"
  shows "\<exists>T. sforM (write_shard E root cid c) is S = (Ok (), T) \<and> no_faults (nd_disk T)"
  using assms
proof (induction "is" arbitrary: S)
  case (Cons i "is")
  obtain D where D: "store_write root (fragment_id E cid i) (shard_content c i) (nd_disk S) = (Ok (), D)" "no_faults D"
    using store_write_total Cons.prems(1,3) by (metis list.set_intros(1))
  let ?M = "(nd_manifest S)\<lparr>m_shards := m_shards (nd_manifest S) @ [shard_row_of E cid c i]\<rparr>"
  let ?U = "S\<lparr>nd_disk := D, nd_manifest := ?M\<rparr>"
  have "insert_shard (shard_row_of E cid c i) (nd_manifest S) = (Ok (), ?M)"
    unfolding insert_shard_Ok using Cons.prems(2,5) by (auto simp: shard_row_of_def)
  then have w: "write_shard E root cid c i S = (Ok (), ?U)"
    using Cons.prems(3) D(1)
    by (auto simp: write_shard_def Let_def sbind_def slift_def on_disk_def on_db_def shard_row_of_def)
  have "\<exists>T. sforM (write_shard E root cid c) is ?U = (Ok (), T) \<and> no_faults (nd_disk T)"
    by (rule Cons.IH) (use Cons.prems D(2) in \<open>auto simp: shard_row_of_def\<close>)
  then show ?case using w by (auto simp: sbind_Ok_iff)
qed simp

lemma write_chunk_rows_total:
  assumes "no_faults (nd_disk S)" "fid \<in> d_file_id ` set (m_files (nd_manifest S))"
    and "\<forall>c \<in> set cs. all_written c"
    and "distinct (map pc_index cs)"
    and "(\<lambda>c. chunk_id fid (pc_index c)) ` set cs \<inter> c_chunk_id ` set (m_chunks (nd_manifest S)) = {}"
    and "\<forall>s \<in> set (concat (map (shard_rows E fid) cs)). is_valid_fragment_id (s_fragment_id s)"
    and "distinct (map s_fragment_id (concat (map (shard_rows E fid) cs)))"
    and "s_fragment_id ` set (concat (map (shard_rows E fid) cs)) \<inter> s_fragment_id ` set (m_shards (nd_manifest S)) = {}"
  shows "\<exists>T. write_chunk_rows E root fid cs S = (Ok (), T)"
  using assms
proof (induction cs arbitrary: S)
  case Nil
  then show ?case by (simp add: write_chunk_rows_def)
next
  case (Cons c cs)
  let ?cid = "chunk_id fid (pc_index c)"
  let ?M = "(nd_manifest S)\<lparr>m_chunks := m_chunks (nd_manifest S) @ [chunk_row_of fid c]\<rparr>"
  let ?U = "S\<lparr>nd_manifest := ?M\<rparr>"
  have i: "insert_chunk (chunk_row_of fid c) (nd_manifest S) = (Ok (), ?M)"
    unfolding insert_chunk_Ok using Cons.prems(2,5) by (auto simp: chunk_row_of_def)
  have frag: "s_fragment_id ` set (shard_rows E fid c) = fragment_id E ?cid ` {0..<TOTAL_SHARDS}"
    "map s_fragment_id (shard_rows E fid c) = map (fragment_id E ?cid) [0..<TOTAL_SHARDS]"
    by (force simp: shard_rows_def shard_row_of_def) (simp add: shard_rows_def shard_row_of_def)
  have "\<exists>T. sforM (write_shard E root ?cid c) [0..<TOTAL_SHARDS] ?U = (Ok (), T) \<and> no_faults (nd_disk T)"
  proof (rule write_shards_total)
    show "\<forall>i \<in> set [0..<TOTAL_SHARDS]. chunk_shard c i = Ok (shard_content c i)
            \<and> is_valid_fragment_id (fragment_id E ?cid i)"
    proof -
      have "\<forall>k \<in> s_fragment_id ` set (shard_rows E fid c). is_valid_fragment_id k"
        using Cons.prems(6) by auto
      then show ?thesis using Cons.prems(3) unfolding frag(1) by (auto simp: all_written_def)
    qed
    show "distinct (map (fragment_id E ?cid) [0..<TOTAL_SHARDS])"
      using Cons.prems(7) unfolding frag(2) [symmetric] by simp
    show "fragment_id E ?cid ` set [0..<TOTAL_SHARDS] \<inter> s_fragment_id ` set (m_shards (nd_manifest ?U)) = {}"
      using Cons.prems(8) unfolding set_upt frag(1) [symmetric] by auto
  qed (use Cons.prems(1) in \<open>auto simp: chunk_row_of_def\<close>)
  then obtain T where T: "sforM (write_shard E root ?cid c) [0..<TOTAL_SHARDS] ?U = (Ok (), T)"
    "no_faults (nd_disk T)" by blast
  have w: "write_chunk E root fid c S = (Ok (), T)"
    unfolding write_chunk_def sbind_Ok_iff on_db_Ok using i T(1) by blast
  note t = write_chunk_Ok(3) [OF w]
  have "\<exists>T'. write_chunk_rows E root fid cs T = (Ok (), T')"
  proof (rule Cons.IH)
    show "(\<lambda>c. chunk_id fid (pc_index c)) ` set cs \<inter> c_chunk_id ` set (m_chunks (nd_manifest T)) = {}"
      using Cons.prems(4,5) t by (auto simp: chunk_row_of_def)
    show "s_fragment_id ` set (concat (map (shard_rows E fid) cs)) \<inter> s_fragment_id ` set (m_shards (nd_manifest T)) = {}"
    proof -
      have "s_fragment_id ` set (shard_rows E fid c)
          \<inter> s_fragment_id ` set (concat (map (shard_rows E fid) cs)) = {}"
        using Cons.prems(7) unfolding list.map concat.simps map_append distinct_append set_map by blast
      moreover have "s_fragment_id ` set (concat (map (shard_rows E fid) cs))
          \<inter> s_fragment_id ` set (m_shards (nd_manifest S)) = {}"
        using Cons.prems(8) by auto
      moreover have "set (m_shards (nd_manifest T)) = set (m_shards (nd_manifest S)) \<union> set (shard_rows E fid c)"
        using t by simp
      ultimately show ?thesis by blast
    qed
  qed (use Cons.prems T(2) t in auto)
  then show ?case using w by (auto simp: write_chunk_rows_def sbind_Ok_iff)
qed

lemma fragment_id_valid:
  assumes "blake3_len E" "hex_correct E"
  shows "is_valid_fragment_id (fragment_id E cid i)"
proof -
  have "is_ascii_hexdigit c" if "lower_hex c" for c
    using that by (auto simp: lower_hex_def is_ascii_hexdigit_def Let_def)
  then show ?thesis
    using assms by (auto simp: is_valid_fragment_id_def fragment_id_def hex_correct_def blake3_len_def list_all_iff)
qed

lemma process_chunk_written:
  assumes "process_chunk E C cfg (i, chunk) = Ok p" "length (pc_recovery p) = PARITY_SHARDS"
  shows "all_written p"
proof -
  from assms(1) obtain buf where sl: "pc_shard_len p = shard_len (length (pc_cipher p))"
    by (rule process_chunk_Ok)
  have "\<exists>b. chunk_shard p k = Ok b" if "k < TOTAL_SHARDS" for k
  proof (cases "k < DATA_SHARDS")
    case True
    let ?s = "case data_shard (pc_cipher p) (pc_shard_len p) k of Some s \<Rightarrow> s | None \<Rightarrow> []"
    have "length ?s \<le> pc_shard_len p"
      by (auto simp: data_shard_def Let_def split: option.splits if_splits)
    then show ?thesis using True by (auto simp: chunk_shard_def pad_shard_def)
  next
    case False
    then show ?thesis using that assms(2) by (auto simp: chunk_shard_def TOTAL_SHARDS_def)
  qed
  then have "chunk_shard p k = Ok (shard_content p k)" if "k < TOTAL_SHARDS" for k
    using that by (fastforce simp: shard_content_def)
  then show ?thesis by (simp add: all_written_def)
qed

text \<open>The identifiers of the new file are new to the manifest and do not collide.\<close>

definition fresh_ids :: "'f env \<Rightarrow> string \<Rightarrow> nat \<Rightarrow> manifest \<Rightarrow> bool" where
  "fresh_ids E fid n M \<longleftrightarrow>
     fid \<notin> d_file_id ` set (m_files M)
     \<and> chunk_id fid ` {..<n} \<inter> c_chunk_id ` set (m_chunks M) = {}
     \<and> distinct (concat (map (\<lambda>k. map (fragment_id E (chunk_id fid k)) [0..<TOTAL_SHARDS]) [0..<n]))
     \<and> set (concat (map (\<lambda>k. map (fragment_id E (chunk_id fid k)) [0..<TOTAL_SHARDS]) [0..<n]))
         \<inter> s_fragment_id ` set (m_shards M) = {}"

text \<open>No user-visible path starts with the control character that marks the hidden keys.\<close>

definition visible_path :: "string \<Rightarrow> bool" where
  "visible_path p \<longleftrightarrow> p = [] \<or> hd p \<noteq> CHR 0x01"

definition visible_paths :: "manifest \<Rightarrow> bool" where
  "visible_paths M \<longleftrightarrow> (\<forall>r \<in> set (m_files M). LIVE r \<longrightarrow> not_pack r \<longrightarrow> visible_path (d_path r))"

lemma ascii_lower_soh: "ascii_lower c = CHR 0x01 \<longleftrightarrow> c = CHR 0x01"
proof
  assume a: "ascii_lower c = CHR 0x01"
  show "c = CHR 0x01"
  proof (cases "65 \<le> (of_char c :: nat) \<and> (of_char c :: nat) \<le> 90")
    case True
    then have "ascii_lower c = char_of ((of_char c :: nat) + 32)" by (simp add: ascii_lower_def)
    then have "of_char (char_of ((of_char c :: nat) + 32) :: char) = (of_char (CHR 0x01) :: nat)"
      using a by simp
    then have "(of_char c + 32 :: nat) mod 256 = 1" by simp
    then show ?thesis using True by simp
  qed (use a in \<open>auto simp: ascii_lower_def Let_def split: if_splits\<close>)
qed (simp add: ascii_lower_def)

lemma pack_path_soh: "\<not> not_pack r \<Longrightarrow> \<not> visible_path (d_path r)"
  using ascii_lower_soh
  by (cases "d_path r")
     (auto simp: not_pack_def PACK_PATH_PREFIX_def sql_like.simps(2) visible_path_def ascii_lower_def
       split: if_splits)

lemma retired_key_soh: "\<not> visible_path (retired_key fid)"
  by (simp add: visible_path_def retired_key_def RETIRED_PATH_PREFIX_def)

lemma get_file_by_path_None:
  assumes "manifest_inv M" "get_file_by_path u path M = None" "visible_path path" "r \<in> set (m_files M)"
  shows "(d_user_id r, d_path r) \<noteq> (u, path)"
proof
  assume e: "(d_user_id r, d_path r) = (u, path)"
  have "LIVE r"
    using assms(1,3,4) e retired_key_soh not_LIVE_iff
    by (fastforce simp: manifest_inv_def list_all_iff row_ok_def)
  moreover have "not_pack r" using e assms(3) pack_path_soh by auto
  ultimately have "r \<in> set (filter (\<lambda>r. d_user_id r = u \<and> d_path r = path \<and> LIVE r \<and> not_pack r) (m_files M))"
    using e assms(4) by simp
  moreover have "filter (\<lambda>r. d_user_id r = u \<and> d_path r = path \<and> LIVE r \<and> not_pack r) (m_files M) = []"
    using assms(2) by (simp add: get_file_by_path_def optional_row_def split: list.splits)
  ultimately show False by simp
qed

text \<open>Retiring a live row succeeds and changes that row alone.\<close>

definition retire :: "state_column \<Rightarrow> string \<Rightarrow> db_file \<Rightarrow> db_file" where
  "retire col at r = (set_column col at r)
     \<lparr>d_retired_path := Some (coalesce (d_retired_path r) (d_path r)), d_path := retired_key (d_file_id r)\<rparr>"

lemma hidden_key_free:
  assumes inv: "manifest_inv M" and vis: "visible_paths M"
    and y: "y \<in> set (m_files M)" "x \<in> set (m_files M)" "y \<noteq> x"
  shows "d_path y \<noteq> retired_key (d_file_id x)"
proof (cases "LIVE y")
  case True
  then show ?thesis
    using vis y(1) retired_key_soh
    by (cases "not_pack y") (auto simp: visible_paths_def not_pack_def retired_key_def
      RETIRED_PATH_PREFIX_def PACK_PATH_PREFIX_def sql_like.simps(2) ascii_lower_def)
next
  case False
  then have "d_path y = retired_key (d_file_id y)"
    using inv y(1) not_LIVE_iff by (auto simp: manifest_inv_def list_all_iff row_ok_def)
  then show ?thesis using inv_file_ids [OF inv y(1,2)] y(3) by (auto simp: retired_key_def)
qed

lemma uniq_retired:
  assumes inv: "manifest_inv M" and vis: "visible_paths M" and x: "x \<in> set (m_files M)"
  shows "uniq_paths (map (\<lambda>r. if r = x then retire col at r else r) (m_files M))"
  unfolding uniq_paths_def map_map distinct_map
proof
  show "distinct (m_files M)" using inv by (auto simp: manifest_inv_def distinct_map)
  have k: "d_user_id (retire col at r) = d_user_id r" "d_path (retire col at r) = retired_key (d_file_id r)" for r
    by (cases col; simp add: retire_def)+
  have inj: "inj_on (\<lambda>r. (d_user_id r, d_path r)) (set (m_files M))"
    using inv by (simp add: manifest_inv_def uniq_paths_def distinct_map)
  show "inj_on ((\<lambda>r. (d_user_id r, d_path r)) \<circ> (\<lambda>r. if r = x then retire col at r else r)) (set (m_files M))"
  proof (rule inj_onI)
    fix y z
    assume y: "y \<in> set (m_files M)" and z: "z \<in> set (m_files M)"
      and e: "((\<lambda>r. (d_user_id r, d_path r)) \<circ> (\<lambda>r. if r = x then retire col at r else r)) y
            = ((\<lambda>r. (d_user_id r, d_path r)) \<circ> (\<lambda>r. if r = x then retire col at r else r)) z"
    show "y = z"
      using e k hidden_key_free [OF inv vis y x] hidden_key_free [OF inv vis z x] inj_onD [OF inj _ y z]
      by (cases "y = x"; cases "z = x") auto
  qed
qed

lemma retire_total:
  assumes inv: "manifest_inv M" and vis: "visible_paths M"
    and row: "x \<in> set (m_files M)" "LIVE x" "d_user_id x = u"
  shows "retire_row u (d_file_id x) col at M
    = (Ok True, M\<lparr>m_files := map (\<lambda>r. if r = x then retire col at r else r) (m_files M)\<rparr>)"
proof -
  let ?p = "\<lambda>r. d_user_id r = u \<and> d_file_id r = d_file_id x \<and> column_value col r = None"
  let ?k = "\<lambda>r. (set_column col at r)
      \<lparr>d_retired_path := Some (coalesce (d_retired_path r) (d_path r)), d_path := retired_key (d_file_id x)\<rparr>"
  have p: "?p r \<longleftrightarrow> r = x" if "r \<in> set (m_files M)" for r
    using that row inv_file_ids [OF inv that row(1)] by (cases col) (auto simp: LIVE_def)
  have m: "map (\<lambda>r. if ?p r then ?k r else r) (m_files M) = map (\<lambda>r. if r = x then retire col at r else r) (m_files M)"
    using p by (auto simp: retire_def)
  have u: "update_files ?p ?k M = (Ok (length (filter ?p (m_files M))),
      M\<lparr>m_files := map (\<lambda>r. if r = x then retire col at r else r) (m_files M)\<rparr>)"
    unfolding update_files_def Let_def m using uniq_retired [OF inv vis row(1)] by simp
  have "x \<in> set (filter ?p (m_files M))" using p [OF row(1)] row(1) by simp
  then have n: "length (filter ?p (m_files M)) > 0" by (metis length_pos_if_in_set)
  show ?thesis unfolding retire_row_def sbind_def u using n by (simp add: sreturn_def)
qed

lemma retired_path_free:
  assumes inv: "manifest_inv M" and vis: "visible_paths M" and row: "x \<in> set (m_files M)" "LIVE x" "not_pack x"
  shows "\<forall>r \<in> set (map (\<lambda>r. if r = x then retire col at r else r) (m_files M)).
    (d_user_id r, d_path r) \<noteq> (d_user_id x, d_path x)"
proof -
  have "(d_user_id y, d_path y) \<noteq> (d_user_id x, d_path x)" if "y \<in> set (m_files M)" "y \<noteq> x" for y
    using inv that row(1) by (auto simp: manifest_inv_def uniq_paths_def distinct_map dest: inj_onD)
  moreover have "d_path (retire col at x) \<noteq> d_path x"
  proof -
    have "visible_path (d_path x)" using vis row by (simp add: visible_paths_def)
    then have "d_path x \<noteq> retired_key (d_file_id x)" using retired_key_soh by metis
    then show ?thesis by (cases col) (simp_all add: retire_def)
  qed
  ultimately show ?thesis by auto
qed

lemma supersede_total:
  assumes inv: "manifest_inv M" and vis: "visible_paths M"
    and row: "x \<in> set (m_files M)" "LIVE x" "not_pack x" "d_user_id x = u"
  obtains M1 where "supersede_file u (d_file_id x) now M = (Ok True, M1)"
    "\<forall>r \<in> set (m_files M1). (d_user_id r, d_path r) \<noteq> (u, d_path x)"
  using retire_total [OF inv vis row(1,2,4)] retired_path_free [OF inv vis row(1-3)] row(4)
  by (intro that [of "M\<lparr>m_files := map (\<lambda>r. if r = x then retire Superseded_at now r else r) (m_files M)\<rparr>"])
     (simp_all add: supersede_file_def)

lemma rmapM_process_recovery:
  assumes "process_with_scheme E data key scheme uid fid cfg = Ok cs"
    and "\<And>c rec. rs_encode E DATA_SHARDS PARITY_SHARDS (data_shard_list c) = Ok rec \<Longrightarrow> length rec = PARITY_SHARDS"
  shows "\<forall>c \<in> set cs. all_written c"
proof
  fix c assume "c \<in> set cs"
  then obtain i where i: "i < length cs" "c = cs ! i" by (auto simp: in_set_conv_nth)
  from assms(1) obtain C where
    "\<forall>i < length cs. process_chunk E C cfg (i, chunks (chunk_size cfg) data ! i) = Ok (cs ! i)"
    by (rule process_with_scheme_Ok)
  with i have p: "process_chunk E C cfg (i, chunks (chunk_size cfg) data ! i) = Ok c" by simp
  from p obtain buf where "rs_encode E DATA_SHARDS PARITY_SHARDS (data_shard_list (pc_cipher c)) = Ok (pc_recovery c)"
    by (rule process_chunk_Ok)
  then show "all_written c" using process_chunk_written [OF p] assms(2) by blast
qed

lemma process_index_list:
  assumes "process_with_scheme E data key scheme uid fid cfg = Ok cs"
  shows "map pc_index cs = [0..<length cs]"
proof -
  from assms obtain C where
    "\<forall>i < length cs. process_chunk E C cfg (i, chunks (chunk_size cfg) data ! i) = Ok (cs ! i)"
    by (rule process_with_scheme_Ok)
  then have "pc_index (cs ! i) = i" if "i < length cs" for i using that process_chunk_place by blast
  then show ?thesis by (intro nth_equalityI) simp_all
qed

lemma shard_rows_fragments:
  assumes "map pc_index cs = [0..<length cs]"
  shows "map s_fragment_id (concat (map (shard_rows E fid) cs))
    = concat (map (\<lambda>k. map (fragment_id E (chunk_id fid k)) [0..<TOTAL_SHARDS]) [0..<length cs])"
proof -
  have "map s_fragment_id (concat (map (shard_rows E fid) cs))
      = concat (map (\<lambda>k. map (fragment_id E (chunk_id fid k)) [0..<TOTAL_SHARDS]) (map pc_index cs))"
    by (simp add: map_concat shard_rows_def shard_row_of_def o_def)
  then show ?thesis using assms by simp
qed

text \<open>Writing a file row and its chunks under a new id, at a path that is free.\<close>

lemma inserted_total:
  assumes M1: "manifest_inv M1" "\<forall>r \<in> set (m_files M1). (d_user_id r, d_path r) \<noteq> (u, path)"
    and disk: "no_faults (nd_disk S)"
    and ids: "fresh_ids E fid (length cs) M1" "blake3_len E" "hex_correct E"
    and cs: "map pc_index cs = [0..<length cs]" "\<forall>c \<in> set cs. all_written c"
  shows "\<exists>T. sbind (on_db (insert_file (pushed_row E fid now u path data (length cs) (chunks_disk_cost cs) lin)))
      (\<lambda>_. write_chunk_rows E root fid cs) (S\<lparr>nd_manifest := M1\<rparr>) = (Ok (), T)"
proof -
  have f: "fid \<notin> d_file_id ` set (m_files M1)" using ids(1) by (simp add: fresh_ids_def)
  have "\<exists>row. insert_file (pushed_row E fid now u path data (length cs) (chunks_disk_cost cs) lin) M1
      = (Ok (), M1\<lparr>m_files := m_files M1 @ [row]\<rparr>) \<and> d_file_id row = fid"
    using f M1 by (auto simp: insert_file_def Let_def pushed_row_def uniq_paths_def manifest_inv_def)
  then obtain row where r: "insert_file (pushed_row E fid now u path data (length cs) (chunks_disk_cost cs) lin) M1
      = (Ok (), M1\<lparr>m_files := m_files M1 @ [row]\<rparr>)" "d_file_id row = fid" by blast
  let ?S2 = "S\<lparr>nd_manifest := M1\<lparr>m_files := m_files M1 @ [row]\<rparr>\<rparr>"
  have "\<exists>T. write_chunk_rows E root fid cs ?S2 = (Ok (), T)"
  proof (rule write_chunk_rows_total)
    show "(\<lambda>c. chunk_id fid (pc_index c)) ` set cs \<inter> c_chunk_id ` set (m_chunks (nd_manifest ?S2)) = {}"
    proof -
      have "(\<lambda>c. chunk_id fid (pc_index c)) ` set cs = chunk_id fid ` set (map pc_index cs)" by auto
      also have "\<dots> = chunk_id fid ` {..<length cs}" unfolding cs(1) by auto
      finally show ?thesis using ids(1) by (simp add: fresh_ids_def)
    qed
    show "\<forall>s \<in> set (concat (map (shard_rows E fid) cs)). is_valid_fragment_id (s_fragment_id s)"
      using fragment_id_valid [OF ids(2,3)] by (auto simp: shard_rows_def shard_row_of_def)
    show "distinct (map s_fragment_id (concat (map (shard_rows E fid) cs)))"
      using ids(1) unfolding shard_rows_fragments [OF cs(1)] fresh_ids_def by blast
    show "s_fragment_id ` set (concat (map (shard_rows E fid) cs)) \<inter> s_fragment_id ` set (m_shards (nd_manifest ?S2)) = {}"
      using ids(1) unfolding set_map [symmetric] shard_rows_fragments [OF cs(1)] fresh_ids_def by simp
  qed (use disk cs r(2) in auto)
  then obtain T where T: "write_chunk_rows E root fid cs ?S2 = (Ok (), T)" by blast
  have "on_db (insert_file (pushed_row E fid now u path data (length cs) (chunks_disk_cost cs) lin))
      (S\<lparr>nd_manifest := M1\<rparr>) = (Ok (), ?S2)"
    unfolding on_db_Ok using r(1) by auto
  then show ?thesis unfolding sbind_Ok_iff using T by blast
qed

lemma push_tx_total:
  assumes inv: "node_inv S" and disk: "no_faults (nd_disk S)"
    and vis: "visible_paths (nd_manifest S)"
    and free: "get_file_by_path u path (nd_manifest S) = None \<longrightarrow> (\<forall>r \<in> set (m_files (nd_manifest S)). (d_user_id r, d_path r) \<noteq> (u, path))"
    and ids: "fresh_ids E fid (length cs) (nd_manifest S)" "blake3_len E" "hex_correct E"
    and cs: "map pc_index cs = [0..<length cs]" "\<forall>c \<in> set cs. all_written c"
  shows "\<exists>r T. push_tx E root fid now u path data cs S = (Ok r, T)"
proof -
  let ?M = "nd_manifest S"
  note step = inserted_total [OF _ _ disk _ ids(2,3) cs]
  show ?thesis
  proof (cases "get_file_by_path u path ?M")
    case None
    from step [OF inv, of u path fid now data fid root] free None ids(1)
    obtain T where "sbind (on_db (insert_file (pushed_row E fid now u path data (length cs) (chunks_disk_cost cs) fid)))
      (\<lambda>_. write_chunk_rows E root fid cs) S = (Ok (), T)" by auto
    then show ?thesis
      using None by (auto simp: push_tx_def Let_def sbind_Ok_iff on_db_Ok pushed_row_def)
  next
    case (Some p)
    then obtain x where x: "x \<in> set (m_files ?M)" "p = map_file x" "d_user_id x = u" "d_path x = path" "LIVE x" "not_pack x"
      using get_file_by_path_Some by metis
    obtain M1 where M1: "supersede_file u (d_file_id x) now ?M = (Ok True, M1)"
      "\<forall>r \<in> set (m_files M1). (d_user_id r, d_path r) \<noteq> (u, d_path x)"
      using supersede_total [OF inv vis x(1,5,6,3)] by blast
    have "d_file_id ` set (m_files M1) = d_file_id ` set (m_files ?M)"
      using retire_row_ids [OF M1(1) [unfolded supersede_file_def]] by (metis set_map)
    moreover have "meta_same ?M M1" and inv1: "manifest_inv M1"
      using M1(1) retire_row_meta supersede_file_inv [OF inv M1(1)] by (simp_all add: supersede_file_def)
    ultimately have "fresh_ids E fid (length cs) M1" using ids(1) by (simp add: fresh_ids_def meta_same_def)
    then obtain T where
      "sbind (on_db (insert_file (pushed_row E fid now u path data (length cs) (chunks_disk_cost cs) (f_lineage p))))
      (\<lambda>_. write_chunk_rows E root fid cs) (S\<lparr>nd_manifest := M1\<rparr>) = (Ok (), T)"
      using step [OF inv1, of u path fid] M1(2) x(4) by blast
    moreover have "f_file_id p = d_file_id x" using x(2) by (simp add: map_file_def)
    ultimately show ?thesis
      using Some M1(1) by (auto simp: push_tx_def Let_def sbind_Ok_iff on_db_Ok pushed_row_def)
  qed
qed

lemma processed_total:
  assumes laws: "hkdf_total E" "aead_correct E"
    and rs: "\<forall>c. \<exists>rec. rs_encode E DATA_SHARDS PARITY_SHARDS (data_shard_list c) = Ok rec \<and> length rec = PARITY_SHARDS"
    and n: "div_ceil (length data) DEFAULT_CHUNK_SIZE \<le> 2 ^ 32"
  shows "\<exists>cs. process_v2 E data key uid fid (PipelineConfig_default E) = Ok cs
    \<and> length cs = div_ceil (length data) DEFAULT_CHUNK_SIZE
    \<and> map pc_index cs = [0..<length cs] \<and> (\<forall>c \<in> set cs. all_written c)"
proof -
  let ?cfg = "PipelineConfig_default E"
  have cfg: "chunk_size ?cfg = DEFAULT_CHUNK_SIZE" by (simp add: PipelineConfig_default_def)
  have "\<exists>cs. process_with_scheme E data key V2 uid fid ?cfg = Ok cs"
    by (rule process_total [OF laws(1,2)]) (use n rs cfg in \<open>auto simp: DEFAULT_CHUNK_SIZE_def\<close>)
  then obtain cs where p: "process_with_scheme E data key V2 uid fid ?cfg = Ok cs" by blast
  from p have "length cs = div_ceil (length data) DEFAULT_CHUNK_SIZE"
    by (rule process_with_scheme_Ok) (simp add: cfg)
  moreover have "\<forall>c \<in> set cs. all_written c"
    by (rule rmapM_process_recovery [OF p]) (use rs in \<open>metis result.inject(1)\<close>)
  ultimately show ?thesis using p process_index_list [OF p] by (auto simp: process_v2_def)
qed

lemma push_total_at:
  assumes laws: "hkdf_total E" "aead_correct E" "blake3_len E" "hex_correct E"
    and rs: "\<forall>c. \<exists>rec. rs_encode E DATA_SHARDS PARITY_SHARDS (data_shard_list c) = Ok rec \<and> length rec = PARITY_SHARDS"
    and st: "node_inv S" "no_faults (nd_disk S)" "visible_paths (nd_manifest S)"
      "get_file_by_path u path (nd_manifest S) = None \<longrightarrow> (\<forall>r \<in> set (m_files (nd_manifest S)). (d_user_id r, d_path r) \<noteq> (u, path))"
    and ids: "fresh_ids E (mint_file_id E rnd) (div_ceil (length data) DEFAULT_CHUNK_SIZE) (nd_manifest S)"
    and n: "div_ceil (length data) DEFAULT_CHUNK_SIZE \<le> 2 ^ 32"
    and new: "\<forall>f. get_file_by_path u path (nd_manifest S) = Some f \<longrightarrow> f_content_hash f \<noteq> Some (blake3_hex E data)"
  shows "\<exists>r T. push E ident root rnd now u path data S = (Ok r, T) \<and> \<not> pr_unchanged r"
proof -
  let ?fid = "mint_file_id E rnd" and ?cfg = "PipelineConfig_default E"
  from processed_total [OF laws(1,2) rs n, of "id_data_key ident" "as_bytes u" "as_bytes ?fid"] obtain cs where
    p: "process_v2 E data (id_data_key ident) (as_bytes u) (as_bytes ?fid) ?cfg = Ok cs"
    and len: "length cs = div_ceil (length data) DEFAULT_CHUNK_SIZE"
    and c: "map pc_index cs = [0..<length cs]" "\<forall>c \<in> set cs. all_written c" by blast
  then obtain r T where t: "push_tx E root ?fid now u path data cs S = (Ok r, T)"
    using push_tx_total [OF st ids [folded len] laws(3,4) c] by blast
  have "push E ident root rnd now u path data S
      = sbind (slift (map_err Core (process_v2 E data (id_data_key ident) (as_bytes u) (as_bytes ?fid) ?cfg)))
          (push_tx E root ?fid now u path data) S"
    using new by (auto simp: push_def Let_def split: option.splits)
  then have "push E ident root rnd now u path data S = (Ok r, T)"
    using p t by (simp add: sbind_def slift_def)
  moreover have "\<not> pr_unchanged r" using t by (rule push_tx_Ok)
  ultimately show ?thesis by blast
qed

lemma push_total:
  assumes laws: "hkdf_total E" "aead_correct E" "blake3_len E" "hex_correct E"
    and rs: "\<forall>c. \<exists>rec. rs_encode E DATA_SHARDS PARITY_SHARDS (data_shard_list c) = Ok rec \<and> length rec = PARITY_SHARDS"
    and st: "node_inv S" "no_faults (nd_disk S)" "visible_paths (nd_manifest S)" "visible_path path"
    and ids: "fresh_ids E (mint_file_id E rnd) (div_ceil (length data) DEFAULT_CHUNK_SIZE) (nd_manifest S)"
    and n: "div_ceil (length data) DEFAULT_CHUNK_SIZE \<le> 2 ^ 32"
    and new: "\<forall>f. get_file_by_path u path (nd_manifest S) = Some f \<longrightarrow> f_content_hash f \<noteq> Some (blake3_hex E data)"
  shows "\<exists>r T. push E ident root rnd now u path data S = (Ok r, T) \<and> \<not> pr_unchanged r"
  by (rule push_total_at [OF laws rs st(1-3) _ ids n new]) (use get_file_by_path_None [OF st(1) _ st(4)] in blast)

section \<open>The round trip\<close>

lemma get_file_new_row:
  assumes "manifest_inv M" "m_files M = xs @ [row]" "d_file_id row \<notin> d_file_id ` set xs"
  shows "get_file (d_user_id row) (d_file_id row) M = Some (map_file row)"
proof -
  have "List.find (\<lambda>r. d_user_id r = d_user_id row \<and> d_file_id r = d_file_id row) (xs @ [row]) = Some row"
    using assms(3) by (induction xs) auto
  then show ?thesis using assms(2) by (simp add: get_file_find)
qed

lemma get_file_other_row:
  assumes "m_files M = xs @ [row]" "h \<noteq> d_file_id row"
  shows "get_file u h M = map_option map_file (List.find (\<lambda>r. d_user_id r = u \<and> d_file_id r = h) xs)"
proof -
  have "List.find (\<lambda>r. d_user_id r = u \<and> d_file_id r = h) (xs @ [row])
        = List.find (\<lambda>r. d_user_id r = u \<and> d_file_id r = h) xs"
    using assms(2) by (induction xs) auto
  then show ?thesis using assms(1) by (simp add: get_file_find)
qed

lemma process_cipher_small:
  assumes "process_with_scheme E data key scheme uid fid cfg = Ok cs" "aead_correct E" "c \<in> set cs"
  shows "length (pc_cipher c) \<le> chunk_size cfg + TAG_LEN"
proof -
  from assms(3) obtain i where i: "i < length cs" "c = cs ! i" by (auto simp: in_set_conv_nth)
  from assms(1) obtain C where pos: "0 < chunk_size cfg"
    and C: "FileCipher_new E key scheme uid fid (word_of_nat (div_ceil (length data) (chunk_size cfg))) = Ok C"
    and n: "length cs = div_ceil (length data) (chunk_size cfg)"
    and all: "\<forall>i < length cs. process_chunk E C cfg (i, chunks (chunk_size cfg) data ! i) = Ok (cs ! i)"
    by (rule process_with_scheme_Ok)
  have "chunks (chunk_size cfg) data ! i \<in> set (chunks (chunk_size cfg) data)"
    using i n pos by (simp add: length_chunks)
  from chunks_lengths [OF pos this] process_chunk_sizes(1) [OF assms(2) all [rule_format, OF i(1)]] i(2)
  show ?thesis by simp
qed

text \<open>A file row and its chunks, once written, read back; every other file is as it was.\<close>

lemma inserted_reads:
  assumes laws: "aead_correct E" "zstd_lossless E"
    and st: "manifest_inv M1" "read_fault D = (\<lambda>_. None)" "length data < 2 ^ 63"
    and pr: "process_v2 E data (id_data_key ident) (as_bytes u) (as_bytes fid) (PipelineConfig_default E) = Ok cs"
    and i: "insert_file (pushed_row E fid now u path data (length cs) (chunks_disk_cost cs) lin) M1 = (Ok (), M2)"
    and w: "write_chunk_rows E root fid cs \<lparr>nd_manifest = M2, nd_disk = D\<rparr> = (Ok (), T)"
  shows "\<exists>f. get_file u fid (nd_manifest T) = Some f \<and> f_pack_id f = None \<and> pull_contained E ident root T f = Ok data"
    "fid \<notin> d_file_id ` set (m_files M1)"
    "\<And>v g. g \<noteq> fid \<Longrightarrow> get_file v g (nd_manifest T) = get_file v g M1
         \<and> chunk_view root T g = chunk_view root \<lparr>nd_manifest = M1, nd_disk = D\<rparr> g"
    "node_inv T"
proof -
  from i obtain row where M2: "M2 = M1\<lparr>m_files := m_files M1 @ [row]\<rparr>"
    and core: "same_core (pushed_row E fid now u path data (length cs) (chunks_disk_cost cs) lin) (map_file row)"
    and new0: "f_file_id (pushed_row E fid now u path data (length cs) (chunks_disk_cost cs) lin) \<notin> d_file_id ` set (m_files M1)"
    and l: "LIVE row" "d_path row = f_path (pushed_row E fid now u path data (length cs) (chunks_disk_cost cs) lin)"
    by (rule insert_file_Ok)
  show new: "fid \<notin> d_file_id ` set (m_files M1)" using new0 by (simp add: pushed_row_def)
  have inv2: "node_inv \<lparr>nd_manifest = M2, nd_disk = D\<rparr>" using insert_file_inv [OF st(1) i] by simp
  show invT: "node_inv T" using write_chunk_rows_inv [OF w inv2] .
  have rid: "d_file_id row = fid" "d_user_id row = u"
    using core by (simp_all add: same_core_def pushed_row_def map_file_def)
  have fileT: "m_files (nd_manifest T) = m_files M1 @ [row]"
    using write_chunk_rows_Ok(3) [OF w] M2 by simp
  show "get_file v g (nd_manifest T) = get_file v g M1
         \<and> chunk_view root T g = chunk_view root \<lparr>nd_manifest = M1, nd_disk = D\<rparr> g" if g: "g \<noteq> fid" for v g
  proof
    show "get_file v g (nd_manifest T) = get_file v g M1"
      using get_file_other_row [OF fileT, of g v] g rid by (simp add: get_file_find)
    have "chunk_view root T g = chunk_view root \<lparr>nd_manifest = M2, nd_disk = D\<rparr> g"
      using chunk_view_old [OF w inv2] g by simp
    also have "\<dots> = chunk_view root \<lparr>nd_manifest = M1, nd_disk = D\<rparr> g"
      using M2 by (simp add: chunk_view_def shard_reads_def get_chunks_def get_shards_def)
    finally show "chunk_view root T g = chunk_view root \<lparr>nd_manifest = M1, nd_disk = D\<rparr> g" .
  qed
  have ps: "process_with_scheme E data (id_data_key ident) V2 (as_bytes u) (as_bytes fid) (PipelineConfig_default E) = Ok cs"
    using pr by (simp add: process_v2_def)
  have view: "chunk_view root T fid = map (\<lambda>c. (chunk_row_of fid c,
      map (\<lambda>i. (int i, Ok (shard_content c i))) [0..<TOTAL_SHARDS])) cs"
  proof (rule chunk_view_new [OF w inv2 _ process_index_list [OF ps]])
    show "\<forall>c \<in> set (m_chunks (nd_manifest \<lparr>nd_manifest = M2, nd_disk = D\<rparr>)). c_file_id c \<noteq> fid"
    proof
      fix c assume "c \<in> set (m_chunks (nd_manifest \<lparr>nd_manifest = M2, nd_disk = D\<rparr>))"
      then have "c_file_id c \<in> d_file_id ` set (m_files M1)"
        using st(1) M2 inv_chunk_file by simp
      then show "c_file_id c \<noteq> fid" using new by metis
    qed
  qed (use st(2) in simp)
  have f: "get_file u fid (nd_manifest T) = Some (map_file row)"
    using get_file_new_row [OF _ fileT] invT new rid by simp
  have "pull_contained E ident root T (map_file row) = Ok data"
  proof (rule pull_pushed_chunks [OF laws pr process_v2_count [OF pr laws(1) st(3)] _ _ _ _ _ view])
    show "\<forall>c \<in> set cs. length (pc_cipher c) < 2 ^ 64"
    proof
      fix c assume "c \<in> set cs"
      from process_cipher_small [OF ps laws(1) this]
      have "length (pc_cipher c) \<le> 4194320"
        by (simp add: PipelineConfig_default_def DEFAULT_CHUNK_SIZE_def TAG_LEN_def)
      then show "length (pc_cipher c) < 2 ^ 64" by simp
    qed
  qed (use core in \<open>simp_all add: same_core_def pushed_row_def\<close>)
  moreover have "f_pack_id (map_file row) = None" using core by (simp add: same_core_def pushed_row_def)
  ultimately show "\<exists>f. get_file u fid (nd_manifest T) = Some f \<and> f_pack_id f = None \<and> pull_contained E ident root T f = Ok data"
    using f by blast
qed

lemma pushed_file_reads:
  assumes laws: "aead_correct E" "zstd_lossless E"
    and st: "node_inv S" "read_fault (nd_disk S) = (\<lambda>_. None)" "length data < 2 ^ 63"
    and p: "push E ident root rnd now u path data S = (Ok r, T)" "\<not> pr_unchanged r"
  shows "pull E ident root u (pr_file_id r) T = Ok data"
    "\<And>v g. get_file v g (nd_manifest S) \<noteq> None \<Longrightarrow> g \<noteq> pr_file_id r"
    "\<And>v g. g \<noteq> pr_file_id r \<Longrightarrow> rel_option same_core (get_file v g (nd_manifest S)) (get_file v g (nd_manifest T))
         \<and> chunk_view root T g = chunk_view root S g"
proof -
  let ?fid = "mint_file_id E rnd"
  obtain cs where pr: "process_v2 E data (id_data_key ident) (as_bytes u) (as_bytes ?fid) (PipelineConfig_default E) = Ok cs"
    and tx: "push_tx E root ?fid now u path data cs S = (Ok r, T)"
    using push_Ok [OF p] by blast
  from tx obtain M1 M2 lin where m: "meta_same (nd_manifest S) M1"
    and inv1: "manifest_inv (nd_manifest S) \<longrightarrow> manifest_inv M1"
    and ids1: "map d_file_id (m_files M1) = map d_file_id (m_files (nd_manifest S))"
    and i: "insert_file (pushed_row E ?fid now u path data (length cs) (chunks_disk_cost cs) lin) M1 = (Ok (), M2)"
    and w: "write_chunk_rows E root ?fid cs (S\<lparr>nd_manifest := M2\<rparr>) = (Ok (), T)"
    and fid: "pr_file_id r = ?fid" and fl: "\<not> pr_unchanged r" "pr_size r = int (length data)"
    by (rule push_tx_Ok)
  have "S\<lparr>nd_manifest := M2\<rparr> = \<lparr>nd_manifest = M2, nd_disk = nd_disk S\<rparr>" by (cases S) simp
  note r = inserted_reads [OF laws _ st(2,3) pr i w [unfolded this]]
  have inv: "manifest_inv M1" using inv1 st(1) by simp
  show "pull E ident root u (pr_file_id r) T = Ok data"
    using r(1) [OF inv] by (auto simp: pull_def fid)
  show "g \<noteq> pr_file_id r" if "get_file v g (nd_manifest S) \<noteq> None" for v g
  proof -
    have "g \<in> d_file_id ` set (m_files (nd_manifest S))" using that get_file_Some by fastforce
    also have "\<dots> = d_file_id ` set (m_files M1)" using ids1 by (metis set_map)
    finally show ?thesis using r(2) [OF inv] fid by metis
  qed
  show "rel_option same_core (get_file v g (nd_manifest S)) (get_file v g (nd_manifest T))
         \<and> chunk_view root T g = chunk_view root S g" if "g \<noteq> pr_file_id r" for v g
    using r(3) [OF inv, of g v] that fid m
    by (simp add: meta_same_def chunk_view_def shard_reads_def get_chunks_def get_shards_def)
qed

section \<open>A concrete push\<close>

lemma poly_hash_snoc: "poly_hash (xs @ [b]) = poly_hash xs * 31 + unat b"
  by (simp add: poly_hash_def)

lemma be_bytes_4_small: "i < 256 \<Longrightarrow> be_bytes 4 i = [0, 0, 0, word_of_nat i]"
proof -
  assume "i < 256"
  then have "i div 256 = 0" by simp
  moreover have "(4 :: nat) = Suc (Suc (Suc (Suc 0)))" by simp
  ultimately show ?thesis by (simp only: be_bytes.simps) simp
qed

lemma poly_hash_index: "i < 256 \<Longrightarrow> poly_hash (xs @ be_bytes 4 i) = poly_hash xs * 31 ^ 4 + i"
proof -
  assume i: "i < 256"
  have "poly_hash (xs @ [0, 0, 0, word_of_nat i]) = poly_hash (((xs @ [0]) @ [0]) @ [0]) * 31 + i"
    using i poly_hash_snoc [of "((xs @ [0]) @ [0]) @ [0]" "word_of_nat i"] by (simp add: unat_of_nat)
  then show ?thesis unfolding be_bytes_4_small [OF i] poly_hash_snoc by simp
qed

lemma mod_shift_le:
  assumes "(K + j) mod N = (K + i) mod N" "i \<le> j" "j < N"
  shows "j = (i :: nat)"
proof (rule ccontr)
  assume "j \<noteq> i"
  then have "0 < j - i" "j - i < N" using assms(2,3) by simp_all
  moreover have "N dvd (K + j) - (K + i)"
    using assms(1,2) mod_eq_dvd_iff_nat [of "K + i" "K + j" N] by simp
  ultimately show False by (auto dest: dvd_imp_le)
qed

lemma mod_shift_inj:
  assumes "(K + i) mod N = (K + j) mod N" "i < N" "j < N"
  shows "i = (j :: nat)"
proof (cases "i \<le> j")
  case True
  show ?thesis by (rule mod_shift_le [OF assms(1) [symmetric] True assms(3), symmetric])
next
  case False
  then show ?thesis by (intro mod_shift_le [OF assms(1) _ assms(2)]) simp
qed

lemma demo_fragment_ids: "distinct (map (fragment_id demo_env cid) [0..<TOTAL_SHARDS])"
proof -
  have "i = j" if ij: "i < 14" "j < 14" and e: "fragment_id demo_env cid i = fragment_id demo_env cid j" for i j
  proof -
    let ?K = "poly_hash (as_bytes cid @ as_bytes '':'') * 31 ^ 4"
    have "demo_hex_encode (be_bytes 16 (?K + i)) = demo_hex_encode (be_bytes 16 (?K + j))"
      using e ij poly_hash_index [of i "as_bytes cid @ as_bytes '':''"]
        poly_hash_index [of j "as_bytes cid @ as_bytes '':''"]
      by (simp add: fragment_id_def demo_env_def)
    then have "be_bytes 16 (?K + i) = be_bytes 16 (?K + j)"
      by (metis demo_hex_inverse option.inject)
    then have "(?K + i) mod 256 ^ 16 = (?K + j) mod 256 ^ 16" by (simp only: be_bytes_eq_iff)
    then show ?thesis by (rule mod_shift_inj) (use ij in simp_all)
  qed
  then show ?thesis by (auto simp: distinct_map inj_on_def shard_consts)
qed

definition fresh_node :: node where
  "fresh_node = \<lparr>nd_manifest = empty_manifest, nd_disk = healthy_disk\<rparr>"

definition demo_identity :: node_identity where
  "demo_identity = \<lparr>id_data_key = replicate 32 9, id_manifest_key_hex = [], id_peer_id = ''me''\<rparr>"

lemma fresh_node_ok:
  "node_inv fresh_node" "no_faults (nd_disk fresh_node)" "visible_paths (nd_manifest fresh_node)"
  "read_fault (nd_disk fresh_node) = (\<lambda>_. None)" "get_file_by_path u p (nd_manifest fresh_node) = None"
  by (simp_all add: fresh_node_def empty_manifest_inv no_faults_def healthy_disk_def visible_paths_def
      get_file_by_path_def optional_row_def) (simp_all add: empty_manifest_def)

lemma demo_fresh_ids: "fresh_ids demo_env fid (Suc 0) (nd_manifest fresh_node)"
  using demo_fragment_ids by (simp add: fresh_ids_def fresh_node_def empty_manifest_def)

lemma demo_rs_total:
  "\<forall>c. \<exists>rec. rs_encode demo_env DATA_SHARDS PARITY_SHARDS (data_shard_list c) = Ok rec \<and> length rec = PARITY_SHARDS"
  by (simp add: demo_env_def)

lemma demo_one_chunk: "div_ceil (length [1, 2, 3 :: byte]) DEFAULT_CHUNK_SIZE = Suc 0"
  by (simp add: div_ceil_def DEFAULT_CHUNK_SIZE_def)

section \<open>Properties\<close>

text \<open>C8. Storing succeeds: on a node whose disk serves every path, for a visible path, new
  identifiers and content that is not what the path already holds, \<open>push\<close> stores a new version. The
  identifiers are those of the minted file id: its chunk and fragment ids must not collide.\<close>

theorem push_succeeds:
  assumes "hkdf_total E" "aead_correct E" "blake3_len E" "hex_correct E"
    and "\<forall>c. \<exists>rec. rs_encode E DATA_SHARDS PARITY_SHARDS (data_shard_list c) = Ok rec \<and> length rec = PARITY_SHARDS"
    and "manifest_inv (nd_manifest S)" "no_faults (nd_disk S)"
    and "visible_paths (nd_manifest S)" "visible_path path"
    and "fresh_ids E (mint_file_id E rnd) (div_ceil (length data) DEFAULT_CHUNK_SIZE) (nd_manifest S)"
    and "div_ceil (length data) DEFAULT_CHUNK_SIZE \<le> 2 ^ 32"
    and "\<forall>f. get_file_by_path u path (nd_manifest S) = Some f \<longrightarrow> f_content_hash f \<noteq> Some (blake3_hex E data)"
  shows "\<exists>r T. push E ident root rnd now u path data S = (Ok r, T)
    \<and> \<not> pr_unchanged r \<and> pr_file_id r = mint_file_id E rnd"
proof -
  obtain r T where p: "push E ident root rnd now u path data S = (Ok r, T)" "\<not> pr_unchanged r"
    using push_total [OF assms] by blast
  then obtain cs where "push_tx E root (mint_file_id E rnd) now u path data cs S = (Ok r, T)"
    by (rule push_Ok)
  then have "pr_file_id r = mint_file_id E rnd" by (rule push_tx_Ok)
  with p show ?thesis by blast
qed

theorem push_succeeds_witness:
  "\<exists>r T. push demo_env demo_identity [''d''] [7] ''t'' ''u'' ''a.txt'' [1, 2, 3] fresh_node = (Ok r, T)
    \<and> \<not> pr_unchanged r \<and> pr_file_id r = mint_file_id demo_env [7]"
  by (rule push_succeeds [OF demo_hkdf_total demo_aead_correct demo_blake3_len demo_hex_correct demo_rs_total
        fresh_node_ok(1-3) _ demo_fresh_ids [folded demo_one_chunk]])
     (simp_all add: demo_one_chunk [simplified] fresh_node_ok(5) visible_path_def)

text \<open>C1. What is stored is what is read, and storing never disturbs another file. After a \<open>push\<close> that
  stored a version, reading the returned id gives exactly the bytes pushed; and every file that could
  be read before, the replaced version of this path included, still reads to the same bytes.\<close>

theorem push_pull_roundtrip:
  assumes "aead_correct E" "zstd_lossless E"
    and "manifest_inv (nd_manifest S)" "read_fault (nd_disk S) = (\<lambda>_. None)" "length data < 2 ^ 63"
    and "push E ident root rnd now u path data S = (Ok r, T)" "\<not> pr_unchanged r"
  shows "pull E ident root u (pr_file_id r) T = Ok data
    \<and> (\<forall>v g b. pull E ident root v g S = Ok b \<longrightarrow> pull E ident root v g T = Ok b)"
proof (intro conjI allI impI)
  note r = pushed_file_reads [OF assms]
  show "pull E ident root u (pr_file_id r) T = Ok data" by (rule r(1))
  fix v g b assume b: "pull E ident root v g S = Ok b"
  then obtain f where f: "get_file v g (nd_manifest S) = Some f" by (auto simp: pull_def)
  have "h \<noteq> pr_file_id r" if "h \<in> needed v g (nd_manifest S)" for h
  proof -
    have "get_file v h (nd_manifest S) \<noteq> None"
      using that b f by (auto simp: needed_def pull_def split: option.splits)
    then show ?thesis by (rule r(2))
  qed
  then have "pull E ident root v g T = pull E ident root v g S"
    by (intro pull_cong) (simp add: r(3))
  then show "pull E ident root v g T = Ok b" using b by simp
qed

theorem push_pull_roundtrip_witness:
  "\<exists>r T. push demo_env demo_identity [''d''] [7] ''t'' ''u'' ''a.txt'' [1, 2, 3] fresh_node = (Ok r, T)
    \<and> pull demo_env demo_identity [''d''] ''u'' (pr_file_id r) T = Ok [1, 2, 3]"
proof -
  have "\<exists>r T. push demo_env demo_identity [''d''] [7] ''t'' ''u'' ''a.txt'' [1, 2, 3] fresh_node = (Ok r, T)
    \<and> \<not> pr_unchanged r"
    by (rule push_total [OF demo_hkdf_total demo_aead_correct demo_blake3_len demo_hex_correct demo_rs_total
        fresh_node_ok(1-3) _ demo_fresh_ids [folded demo_one_chunk]])
       (simp_all add: demo_one_chunk [simplified] fresh_node_ok(5) visible_path_def)
  then obtain r T where p: "push demo_env demo_identity [''d''] [7] ''t'' ''u'' ''a.txt'' [1, 2, 3] fresh_node = (Ok r, T)"
    "\<not> pr_unchanged r" by blast
  from push_pull_roundtrip [OF demo_aead_correct demo_zstd_lossless fresh_node_ok(1,4) _ p] p(1)
  show ?thesis by auto
qed

end
