(* ===== verification/StoreLaws.thy ===== *)
theory StoreLaws
  imports PushTotal "HOL-Library.Multiset"
begin

text \<open>
  The laws of the storage service beyond storing and reading: the trash, permanent deletion, the
  retention sweep and the versions it keeps.
\<close>

section \<open>Trash and restore\<close>

lemma get_file_row:
  assumes "manifest_inv M" "x \<in> set (m_files M)"
  shows "get_file (d_user_id x) (d_file_id x) M = Some (map_file x)"
proof -
  have "List.find (\<lambda>r. d_user_id r = d_user_id x \<and> d_file_id r = d_file_id x) (m_files M) = Some x"
    unfolding find_Some_iff
  proof -
    obtain i where i: "i < length (m_files M)" "m_files M ! i = x" using assms(2) by (auto simp: in_set_conv_nth)
    have "m_files M ! j \<noteq> x" if "j < i" for j
      using assms(1) i that by (auto simp: manifest_inv_def distinct_map nth_eq_iff_index_eq)
    then have "\<not> (d_user_id (m_files M ! j) = d_user_id x \<and> d_file_id (m_files M ! j) = d_file_id x)" if "j < i" for j
      using inv_file_ids [OF assms(1) _ assms(2), of "m_files M ! j"] i that by fastforce
    with i show "\<exists>i < length (m_files M). (d_user_id (m_files M ! i) = d_user_id x \<and> d_file_id (m_files M ! i) = d_file_id x)
        \<and> x = m_files M ! i \<and> (\<forall>j < i. \<not> (d_user_id (m_files M ! j) = d_user_id x \<and> d_file_id (m_files M ! j) = d_file_id x))"
      by auto
  qed
  then show ?thesis by (simp add: get_file_find)
qed

lemma retire_keeps [simp]:
  "d_user_id (retire col at r) = d_user_id r" "d_file_id (retire col at r) = d_file_id r"
  by (cases col; simp add: retire_def)+

lemma trash_live:
  assumes inv: "manifest_inv M" and vis: "visible_paths M"
    and row: "x \<in> set (m_files M)" "LIVE x" "not_pack x"
  shows "trash t (d_user_id x) (d_file_id x) M
    = (Ok (map_file (retire Deleted_at t x)),
       M\<lparr>m_files := map (\<lambda>r. if r = x then retire Deleted_at t r else r) (m_files M)\<rparr>)" (is "_ = (_, ?M1)")
proof -
  have r: "trash_file (d_user_id x) (d_file_id x) t M = (Ok True, ?M1)"
    unfolding trash_file_def by (rule retire_total [OF inv vis row(1,2) refl])
  then have inv1: "manifest_inv ?M1" by (rule trash_file_inv [OF inv])
  have "retire Deleted_at t x \<in> set (m_files ?M1)" using row(1) by force
  from get_file_row [OF inv1 this]
  have g: "get_file (d_user_id x) (d_file_id x) ?M1 = Some (map_file (retire Deleted_at t x))" by simp
  have l: "f_deleted_at (map_file x) = None" "f_superseded_at (map_file x) = None"
    using row(2) by (simp_all add: LIVE_def map_file_def)
  show ?thesis
    using r g l get_file_row [OF inv row(1)] by (simp add: trash_def sbind_def query_def slift_def)
qed

lemma insert_folder_files: "\<exists>M'. insert_folder u p M = (Ok (), M') \<and> m_files M' = m_files M"
  by (auto simp: insert_folder_def Let_def insert_ancestors_tables)

lemma is_live_LIVE [simp]: "is_live (map_file r) = LIVE r"
  by (simp add: is_live_def LIVE_def map_file_def)

lemma trashed_path_free:
  assumes inv: "manifest_inv M" and vis: "visible_paths M"
    and row: "x \<in> set (m_files M)" "LIVE x" "not_pack x"
    and M1: "m_files M1 = map (\<lambda>r. if r = x then retire Deleted_at t r else r) (m_files M)"
  shows "get_file_by_path (d_user_id x) (d_path x) M1 = None"
proof (rule ccontr)
  assume "get_file_by_path (d_user_id x) (d_path x) M1 \<noteq> None"
  then obtain f where "get_file_by_path (d_user_id x) (d_path x) M1 = Some f" by blast
  from get_file_by_path_Some [OF this] obtain r where
    "r \<in> set (m_files M1)" "d_user_id r = d_user_id x" "d_path r = d_path x" by blast
  then show False using retired_path_free [OF inv vis row, of Deleted_at t] by (auto simp: M1)
qed

text \<open>A trashed file comes back under its path less the slashes at its ends, if no other row has that path.\<close>

lemma restore_retired:
  assumes inv: "manifest_inv M" and vis: "visible_paths M"
    and row: "x \<in> set (m_files M)" "LIVE x" "not_pack x"
    and path: "trim_slashes (d_path x) \<noteq> []"
      "\<forall>r \<in> set (m_files M). (d_user_id r, d_path r) = (d_user_id x, trim_slashes (d_path x)) \<longrightarrow> r = x"
    and M1_def: "M1 = M\<lparr>m_files := map (\<lambda>r. if r = x then retire Deleted_at t r else r) (m_files M)\<rparr>"
  shows "\<exists>M2. service_restore t' (d_user_id x) (d_file_id x) None M1 = (Ok (map_file (x\<lparr>d_path := trim_slashes (d_path x)\<rparr>)), M2)
    \<and> m_files M2 = map (\<lambda>r. if r = x then r\<lparr>d_path := trim_slashes (d_path x)\<rparr> else r) (m_files M)"
proof -
  let ?u = "d_user_id x" and ?f = "d_file_id x" and ?p = "trim_slashes (d_path x)"
  let ?y = "x\<lparr>d_path := ?p\<rparr>" and ?rows = "map (\<lambda>r. if r = x then r\<lparr>d_path := trim_slashes (d_path x)\<rparr> else r) (m_files M)"
  have "trash_file ?u ?f t M = (Ok True, M1)"
    unfolding trash_file_def M1_def by (rule retire_total [OF inv vis row(1,2) refl])
  then have inv1: "manifest_inv M1" by (rule trash_file_inv [OF inv])
  have x1: "retire Deleted_at t x \<in> set (m_files M1)" using row(1) by (force simp: M1_def)
  have ok: "row_ok x" using inv row(1) by (simp add: manifest_inv_def list_all_iff)
  have g: "get_file ?u ?f M1 = Some (map_file (retire Deleted_at t x))"
    using get_file_row [OF inv1 x1] by simp
  have nl: "\<not> LIVE (retire Deleted_at t x)" by (simp add: LIVE_def retire_def)
  have fp: "f_path (map_file (retire Deleted_at t x)) = d_path x"
    using row(2) ok by (simp add: map_file_def retire_def coalesce_def row_ok_def retired_def LIVE_def)
  have free: "get_file_by_path ?u ?p M1 = None"
  proof (rule ccontr)
    assume "get_file_by_path ?u ?p M1 \<noteq> None"
    then obtain r where r: "r \<in> set (m_files M1)" "d_user_id r = ?u" "d_path r = ?p" "LIVE r"
      using get_file_by_path_Some by (metis option.exhaust)
    then obtain q where q: "q \<in> set (m_files M)" "r = (if q = x then retire Deleted_at t q else q)" by (auto simp: M1_def)
    then have "q \<noteq> x" using nl r(4) by auto
    then show False using path(2) q r(2,3) by auto
  qed
  obtain M1' where f: "insert_folder ?u (dirname ?p) M1 = (Ok (), M1')" "m_files M1' = m_files M1"
    using insert_folder_files by blast
  have inv1': "manifest_inv M1'" by (rule insert_folder_inv [OF inv1 f(1)])
  let ?un = "\<lambda>r. r\<lparr>d_deleted_at := None, d_superseded_at := None, d_retired_path := None, d_path := ?p\<rparr>"
  have back_rows: "map (\<lambda>r. if d_user_id r = ?u \<and> d_file_id r = ?f then ?un r else r) (m_files M1') = ?rows"
  proof -
    have "?un (retire Deleted_at t x) = ?y"
      using row(2) ok by (simp add: retire_def LIVE_def row_ok_def retired_def) 
    then have "(\<lambda>r. if d_user_id r = ?u \<and> d_file_id r = ?f then ?un r else r) (if r = x then retire Deleted_at t r else r)
        = (if r = x then r\<lparr>d_path := ?p\<rparr> else r)" if r: "r \<in> set (m_files M)" for r
      using inv_file_ids [OF inv r row(1)] by auto
    then show ?thesis using f(2) by (simp add: M1_def)
  qed
  have uniq: "uniq_paths ?rows"
  proof -
    have "inj_on (\<lambda>r. (d_user_id r, d_path r)) (set (m_files M))" "distinct (m_files M)"
      using inv by (simp_all add: manifest_inv_def uniq_paths_def distinct_map)
    then have "inj_on (\<lambda>r. (d_user_id r, if r = x then ?p else d_path r)) (set (m_files M))"
      using path(2) by (auto simp: inj_on_def split: if_splits)
    moreover have "map (\<lambda>r. (d_user_id r, d_path r)) ?rows = map (\<lambda>r. (d_user_id r, if r = x then ?p else d_path r)) (m_files M)" by simp
    ultimately show ?thesis using \<open>distinct (m_files M)\<close> unfolding uniq_paths_def by (simp only: distinct_map simp_thms)
  qed
  let ?M2 = "M1'\<lparr>m_files := ?rows\<rparr>"
  have "retire Deleted_at t x \<in> set (filter (\<lambda>r. d_user_id r = ?u \<and> d_file_id r = ?f) (m_files M1'))"
    using x1 f(2) by simp
  then have "length (filter (\<lambda>r. d_user_id r = ?u \<and> d_file_id r = ?f) (m_files M1')) > 0"
    by (metis length_pos_if_in_set)
  then have rs: "restore_file ?u ?f ?p M1' = (Ok True, ?M2)"
    unfolding restore_file_def sbind_def update_files_def back_rows Let_def
    using uniq by (simp add: sreturn_def)
  have inv2: "manifest_inv ?M2" by (rule restore_file_inv [OF inv1' rs])
  have "?y \<in> set (m_files ?M2)" using row(1) by (force simp: image_iff)
  then have g2: "get_file ?u ?f ?M2 = Some (map_file ?y)" using get_file_row [OF inv2, of ?y] by simp
  have "service_restore t' ?u ?f None M1 = (Ok (map_file ?y), ?M2)"
    using g nl fp path(1) free f(1) rs g2
    by (simp add: service_restore_def sbind_def db_transaction_def query_def slift_def sreturn_def coalesce_def Let_def)
  then show ?thesis by auto
qed

section \<open>Permanent deletion\<close>

lemma purge_local_disk:
  "purge_local_collect_remote root frags D
   = (filter (\<lambda>f. snd f \<noteq> ''local'') frags,
      cs.remove_all root (map fst (filter (\<lambda>f. snd f = ''local'') frags)) D)"
  by (induction frags arbitrary: D) (auto simp: cs.remove_all_def split: prod.splits)

lemma remove_all_faults: "same_faults D (cs.remove_all root ks D)"
proof (induction ks arbitrary: D)
  case (Cons k ks)
  obtain r D' where d: "store_delete root k D = (r, D')" by fastforce
  from same_faults_trans [OF store_delete_faults [OF d] Cons [of D']] d
  show ?case by (simp add: cs.remove_all_def)
qed (simp add: cs.remove_all_def)

text \<open>The rows a deletion takes away: a file, its chunks, their shards.\<close>

definition file_shards :: "string \<Rightarrow> manifest \<Rightarrow> shard_row list" where
  "file_shards fid M =
     filter (\<lambda>s. \<exists>c \<in> set (m_chunks M). c_file_id c = fid \<and> s_chunk_id s = c_chunk_id c) (m_shards M)"

lemma file_fragments_shards:
  assumes "manifest_inv M" "x \<in> set (m_files M)"
  shows "file_fragments (d_user_id x) (d_file_id x) M
    = map (\<lambda>s. (s_fragment_id s, s_location s)) (file_shards (d_file_id x) M)"
proof -
  have eq: "list_ex (\<lambda>c. c_chunk_id c = s_chunk_id s \<and> c_file_id c = d_file_id x
          \<and> list_ex (\<lambda>r. d_file_id r = c_file_id c \<and> d_user_id r = d_user_id x) (m_files M)) (m_chunks M)
        \<longleftrightarrow> (\<exists>c \<in> set (m_chunks M). c_file_id c = d_file_id x \<and> s_chunk_id s = c_chunk_id c)" for s
    using assms(2) unfolding list_ex_iff by metis
  show ?thesis unfolding file_fragments_def file_shards_def
    by (rule arg_cong [where f = "map (\<lambda>s. (s_fragment_id s, s_location s))"], rule filter_cong [OF refl], rule eq)
qed

lemma delete_one_file:
  assumes "manifest_inv M" "x \<in> set (m_files M)"
  shows "delete_files (\<lambda>r. d_user_id r = d_user_id x \<and> d_file_id r = d_file_id x) M
    = M\<lparr>m_files := filter (\<lambda>r. d_file_id r \<noteq> d_file_id x) (m_files M),
        m_chunks := filter (\<lambda>c. c_file_id c \<noteq> d_file_id x) (m_chunks M),
        m_shards := filter (\<lambda>s. s \<notin> set (file_shards (d_file_id x) M)) (m_shards M)\<rparr>"
proof -
  let ?p = "\<lambda>r. d_user_id r = d_user_id x \<and> d_file_id r = d_file_id x"
  have p: "?p r \<longleftrightarrow> d_file_id r = d_file_id x" if "r \<in> set (m_files M)" for r
    using inv_file_ids [OF assms(1) that assms(2)] by auto
  have f: "filter (\<lambda>r. \<not> ?p r) (m_files M) = filter (\<lambda>r. d_file_id r \<noteq> d_file_id x) (m_files M)"
    using p by (intro filter_cong) auto
  have ids: "set (map d_file_id (filter ?p (m_files M))) = {d_file_id x}"
    using assms(2) p by auto
  have s: "s_chunk_id s \<notin> set (map c_chunk_id (filter (\<lambda>c. c_file_id c \<in> {d_file_id x}) (m_chunks M)))
      \<longleftrightarrow> s \<notin> set (file_shards (d_file_id x) M)" if "s \<in> set (m_shards M)" for s
    using that by (auto simp: file_shards_def image_iff)
  have sh: "filter (\<lambda>s. s_chunk_id s \<notin> set (map c_chunk_id (filter (\<lambda>c. c_file_id c \<in> {d_file_id x}) (m_chunks M)))) (m_shards M)
      = filter (\<lambda>s. s \<notin> set (file_shards (d_file_id x) M)) (m_shards M)"
    by (rule filter_cong [OF refl]) (rule s)
  show ?thesis
    unfolding delete_files_def delete_chunks_def ids f using sh by simp
qed

text \<open>The tables of the files that stay, when the chunks and shards of one file are taken away.\<close>

lemma purged_tables:
  assumes inv: "manifest_inv M" and h: "h \<noteq> fid"
    and M': "m_chunks M' = filter (\<lambda>c. c_file_id c \<noteq> fid) (m_chunks M)"
      "m_shards M' = filter (\<lambda>s. s \<notin> set (file_shards fid M)) (m_shards M)"
  shows "get_chunks h M' = get_chunks h M"
    "c \<in> set (get_chunks h M) \<Longrightarrow> get_shards (c_chunk_id c) M' = get_shards (c_chunk_id c) M"
    "c \<in> set (get_chunks h M) \<Longrightarrow> s \<in> set (get_shards (c_chunk_id c) M) \<Longrightarrow>
       s_fragment_id s \<notin> s_fragment_id ` set (file_shards fid M)"
proof -
  show "get_chunks h M' = get_chunks h M"
    unfolding get_chunks_def M' using h by (auto intro!: arg_cong [where f = "sort_key c_idx"] filter_cong)
  have keep: "s \<notin> set (file_shards fid M)" if "c \<in> set (get_chunks h M)" "s_chunk_id s = c_chunk_id c" for c s
  proof -
    have "c \<in> set (m_chunks M)" "c_file_id c = h" using that(1) by (simp_all add: get_chunks_def)
    then show ?thesis using inv_chunk_ids [OF inv] h that(2) by (auto simp: file_shards_def)
  qed
  show "get_shards (c_chunk_id c) M' = get_shards (c_chunk_id c) M" if "c \<in> set (get_chunks h M)"
    unfolding get_shards_def M' using keep [OF that]
    by (auto intro!: arg_cong [where f = "sort_key s_shard_index"] filter_cong)
  show "s_fragment_id s \<notin> s_fragment_id ` set (file_shards fid M)"
    if "c \<in> set (get_chunks h M)" "s \<in> set (get_shards (c_chunk_id c) M)"
  proof -
    have "s \<in> set (m_shards M)" "s \<notin> set (file_shards fid M)"
      using that keep by (simp_all add: get_shards_def)
    then show ?thesis using inv_fragment_ids [OF inv] by (auto simp: file_shards_def)
  qed
qed

lemma chunk_view_purged:
  assumes inv: "manifest_inv M" and h: "h \<noteq> fid"
    and M': "m_chunks M' = filter (\<lambda>c. c_file_id c \<noteq> fid) (m_chunks M)"
      "m_shards M' = filter (\<lambda>s. s \<notin> set (file_shards fid M)) (m_shards M)"
    and D': "\<And>k. k \<notin> s_fragment_id ` set (file_shards fid M) \<Longrightarrow> store_read root D' k = store_read root D k"
  shows "chunk_view root \<lparr>nd_manifest = M', nd_disk = D'\<rparr> h = chunk_view root \<lparr>nd_manifest = M, nd_disk = D\<rparr> h"
proof -
  note t = purged_tables [OF inv h M']
  have "shard_reads root \<lparr>nd_manifest = M', nd_disk = D'\<rparr> (c_chunk_id c)
      = shard_reads root \<lparr>nd_manifest = M, nd_disk = D\<rparr> (c_chunk_id c)" if c: "c \<in> set (get_chunks h M)" for c
    unfolding shard_reads_def using t(2) [OF c] D' t(3) [OF c] by simp
  then show ?thesis unfolding chunk_view_def by (simp add: t(1))
qed

lemma purge_file_effect:
  assumes inv: "node_inv S" and x: "x \<in> set (m_files (nd_manifest S))"
  defines "fid \<equiv> d_file_id x"
  shows "purge_file root (d_user_id x) fid S =
     (Ok (map_file x, filter (\<lambda>f. snd f \<noteq> ''local'')
              (map (\<lambda>s. (s_fragment_id s, s_location s)) (file_shards fid (nd_manifest S)))),
      \<lparr>nd_manifest = (nd_manifest S)
          \<lparr>m_files := filter (\<lambda>r. d_file_id r \<noteq> fid) (m_files (nd_manifest S)),
           m_chunks := filter (\<lambda>c. c_file_id c \<noteq> fid) (m_chunks (nd_manifest S)),
           m_shards := filter (\<lambda>s. s \<notin> set (file_shards fid (nd_manifest S))) (m_shards (nd_manifest S))\<rparr>,
       nd_disk = cs.remove_all root (map s_fragment_id
          (filter (\<lambda>s. s_location s = ''local'') (file_shards fid (nd_manifest S)))) (nd_disk S)\<rparr>)"
proof -
  have m: "map fst (filter (\<lambda>f. snd f = ''local'') (map (\<lambda>s. (s_fragment_id s, s_location s)) ss))
      = map s_fragment_id (filter (\<lambda>s. s_location s = ''local'') ss)" for ss :: "shard_row list"
    by (induction ss) auto
  show ?thesis
    using get_file_row [OF inv x] file_fragments_shards [OF inv x] delete_one_file [OF inv x]
    by (simp add: purge_file_def sbind_def on_db_def query_def slift_def purge_file_row_def
        purge_local_disk m fid_def)
qed

section \<open>The retention sweep\<close>

text \<open>A row falls to the sweep by one of the four rules.\<close>

definition expired :: "(int \<Rightarrow> string) \<Rightarrow> retention_policy \<Rightarrow> manifest \<Rightarrow> db_file \<Rightarrow> bool" where
  "expired days_ago policy M r \<longleftrightarrow>
     before_cutoff (d_deleted_at r) (cutoff days_ago (rp_trash_days policy))
     \<or> before_cutoff (d_superseded_at r) (cutoff days_ago (rp_version_days policy))
     \<or> d_superseded_at r \<noteq> None
       \<and> version_rank (filter (\<lambda>r. d_superseded_at r \<noteq> None) (m_files M)) r > max (rp_keep_versions policy) 0
     \<or> d_superseded_at r \<noteq> None
       \<and> (\<forall>l \<in> set (m_files M). d_user_id l = d_user_id r
            \<and> coalesce (d_lineage l) (d_file_id l) = coalesce (d_lineage r) (d_file_id r)
            \<longrightarrow> d_superseded_at l \<noteq> None)"

definition cand_of :: "db_file \<Rightarrow> purge_candidate" where
  "cand_of r = (d_user_id r, d_file_id r, d_size r, d_stored_bytes r)"

lemma expired_retired: "expired days_ago policy M r \<Longrightarrow> retired r"
  by (auto simp: expired_def retired_def before_cutoff_def split: option.splits)

lemma sweep_candidates_set:
  "set (sweep_candidates days_ago policy M) = cand_of ` {r \<in> set (m_files M). expired days_ago policy M r}"
  unfolding sweep_candidates_def trashed_before_def superseded_before_def superseded_beyond_def
    superseded_orphans_def purge_candidates_def cand_of_def expired_def Let_def set_append set_map set_filter
    list_ex_iff
  by auto

text \<open>What the sweep has done when the ids in \<open>done\<close> are behind it: their rows are gone.\<close>

definition sweep_rows :: "string set \<Rightarrow> manifest \<Rightarrow> db_file list" where
  "sweep_rows ids M = filter (\<lambda>r. d_file_id r \<in> ids) (m_files M)"

lemma purge_row_files:
  assumes "manifest_inv M" "x \<in> set (m_files M)" "purge_file_row (d_user_id x) (d_file_id x) M = (r, M')"
  shows "m_files M' = filter (\<lambda>r. d_file_id r \<noteq> d_file_id x) (m_files M)"
proof -
  have "M' = delete_files (\<lambda>r. d_user_id r = d_user_id x \<and> d_file_id r = d_file_id x) M"
    using assms(3) by (auto simp: purge_file_row_def)
  then show ?thesis unfolding delete_one_file [OF assms(1,2)] by simp
qed

text \<open>Taking one row out of the table takes it out of every selection.\<close>

lemma sweep_rows_insert:
  assumes "manifest_inv M" "x \<in> set (m_files M)" "d_file_id x \<notin> ids"
    and "m_files M1 = filter (\<lambda>r. d_file_id r \<noteq> d_file_id x) (m_files M)"
  shows "mset (sweep_rows (insert (d_file_id x) ids) M) = add_mset x (mset (sweep_rows ids M1))"
proof -
  obtain ys zs where yz: "m_files M = ys @ x # zs" using assms(2) split_list by metis
  have d: "distinct (map d_file_id (m_files M))" using assms(1) by (simp add: manifest_inv_def)
  have y: "d_file_id r \<noteq> d_file_id x" if "r \<in> set ys \<union> set zs" for r
    using d that unfolding yz by (auto simp: image_iff)
  have f: "filter (\<lambda>r. d_file_id r = d_file_id x \<or> d_file_id r \<in> ids) rs = filter (\<lambda>r. d_file_id r \<in> ids) rs"
    "filter (\<lambda>r. d_file_id r \<noteq> d_file_id x \<and> d_file_id r \<in> ids) rs = filter (\<lambda>r. d_file_id r \<in> ids) rs"
    if "set rs \<subseteq> set ys \<union> set zs" for rs
    using y that by (auto intro!: filter_cong)
  show ?thesis
    using assms(3,4) f [of ys] f [of zs] by (simp add: sweep_rows_def yz conj_commute)
qed

lemma sum_rows: "sum_list (map f (filter p rs)) = (\<Sum>r \<in># filter_mset p (mset rs). f r)"
  by (simp add: sum_mset_sum_list [symmetric])

lemma sweep_each_effect:
  assumes "manifest_inv M" "\<And>c. c \<in> set cs \<Longrightarrow> fst (snd c) \<notin> sw_seen w \<Longrightarrow> \<exists>x \<in> set (m_files M). c = cand_of x"
    and "\<And>x. x \<in> set (m_files M) \<Longrightarrow> d_file_id x \<notin> sw_seen w"
  defines "ids \<equiv> (fst \<circ> snd) ` set cs - sw_seen w"
  shows "\<exists>w' M'. sweep_each cs w M = (Ok w', M')
    \<and> m_files M' = filter (\<lambda>r. d_file_id r \<notin> ids) (m_files M)
    \<and> sw_files w' = sw_files w + length (sweep_rows ids M)
    \<and> (\<forall>u. coalesce (sw_freed w' u) (0, 0) =
          (fst (coalesce (sw_freed w u) (0, 0)) + (\<Sum>r\<leftarrow>filter (\<lambda>r. d_user_id r = u) (sweep_rows ids M). d_size r),
           snd (coalesce (sw_freed w u) (0, 0)) + (\<Sum>r\<leftarrow>filter (\<lambda>r. d_user_id r = u) (sweep_rows ids M). d_stored_bytes r)))"
  using assms(1-3) unfolding ids_def
proof (induction cs arbitrary: w M)
  case Nil
  then show ?case by (simp add: sweep_rows_def)
next
  case (Cons c cs)
  obtain u fid sz st where c: "c = (u, fid, sz, st)" by (cases c)
  show ?case
  proof (cases "fid \<in> sw_seen w")
    case True
    then have i: "(fst \<circ> snd) ` set (c # cs) - sw_seen w = (fst \<circ> snd) ` set cs - sw_seen w"
      using c by auto
    have "sweep_each (c # cs) w M = sweep_each cs w M" using True c by simp
    then show ?thesis unfolding i using Cons.IH [OF Cons.prems(1)] Cons.prems(2,3) by simp
  next
    case False
    then obtain x where x: "x \<in> set (m_files M)" "c = cand_of x" using Cons.prems(2) c by force
    then have cx: "u = d_user_id x" "fid = d_file_id x" "sz = d_size x" "st = d_stored_bytes x"
      using c by (simp_all add: cand_of_def)
    obtain fr M1 where p: "purge_file_row u fid M = (Ok fr, M1)" by (simp add: purge_file_row_def)
    have f1: "m_files M1 = filter (\<lambda>r. d_file_id r \<noteq> fid) (m_files M)"
      using purge_row_files [OF Cons.prems(1) x(1)] p cx by simp
    have inv1: "manifest_inv M1" by (rule purge_file_row_inv [OF Cons.prems(1) p])
    let ?e = "coalesce (sw_freed w u) (0, 0)"
    let ?w = "\<lparr>sw_seen = insert fid (sw_seen w), sw_freed = (sw_freed w)(u \<mapsto> (fst ?e + sz, snd ?e + st)),
               sw_frags = sw_frags w @ fr, sw_files = sw_files w + 1\<rparr>"
    let ?ids1 = "(fst \<circ> snd) ` set cs - sw_seen ?w" and ?ids = "(fst \<circ> snd) ` set (c # cs) - sw_seen w"
    have st: "sweep_each (c # cs) w M = sweep_each cs ?w M1"
      using False c p by (simp add: sbind_def Let_def)
    have prem: "\<And>d. d \<in> set cs \<Longrightarrow> fst (snd d) \<notin> sw_seen ?w \<Longrightarrow> \<exists>x \<in> set (m_files M1). d = cand_of x"
      using Cons.prems(2) f1 by (fastforce simp: cand_of_def)
    have prem3: "\<And>x. x \<in> set (m_files M1) \<Longrightarrow> d_file_id x \<notin> sw_seen ?w"
      using Cons.prems(3) f1 by auto
    from Cons.IH [OF inv1 prem prem3] obtain w' M' where
      ih: "sweep_each cs ?w M1 = (Ok w', M')"
        "m_files M' = filter (\<lambda>r. d_file_id r \<notin> ?ids1) (m_files M1)"
        "sw_files w' = sw_files ?w + length (sweep_rows ?ids1 M1)"
        "\<And>v. coalesce (sw_freed w' v) (0, 0) =
          (fst (coalesce (sw_freed ?w v) (0, 0)) + (\<Sum>r\<leftarrow>filter (\<lambda>r. d_user_id r = v) (sweep_rows ?ids1 M1). d_size r),
           snd (coalesce (sw_freed ?w v) (0, 0)) + (\<Sum>r\<leftarrow>filter (\<lambda>r. d_user_id r = v) (sweep_rows ?ids1 M1). d_stored_bytes r))"
      by blast
    have ids: "?ids = insert fid ?ids1" "fid \<notin> ?ids1" using c False by auto
    have files: "m_files M' = filter (\<lambda>r. d_file_id r \<notin> ?ids) (m_files M)"
      unfolding ih(2) f1 ids(1) by (auto intro!: filter_cong)
    have rows: "mset (sweep_rows ?ids M) = add_mset x (mset (sweep_rows ?ids1 M1))"
      unfolding ids(1) cx(2) by (rule sweep_rows_insert [OF Cons.prems(1) x(1)]) (use ids(2) f1 cx(2) in auto)
    then have len: "length (sweep_rows ?ids M) = Suc (length (sweep_rows ?ids1 M1))"
      by (metis size_add_mset size_mset)
    have sums: "(\<Sum>r\<leftarrow>filter (\<lambda>r. d_user_id r = v) (sweep_rows ?ids M). g r)
        = (if v = u then g x else 0) + (\<Sum>r\<leftarrow>filter (\<lambda>r. d_user_id r = v) (sweep_rows ?ids1 M1). g r)"
      for v and g :: "db_file \<Rightarrow> int"
      unfolding sum_rows rows using cx(1) by simp
    have freed: "coalesce (sw_freed ?w v) (0, 0)
        = (fst (coalesce (sw_freed w v) (0, 0)) + (if v = u then d_size x else 0),
           snd (coalesce (sw_freed w v) (0, 0)) + (if v = u then d_stored_bytes x else 0))" for v
      using cx by (simp add: coalesce_def)
    show ?thesis
      unfolding st ih(1) by (intro exI conjI allI, rule refl, rule files)
        (simp_all only: ih(3,4) len sums freed, simp_all)
  qed
qed


lemma remove_all_local:
  assumes "remove_fault D = (\<lambda>_. None)" "k \<in> set ks"
  shows "shard_bytes root (cs.remove_all root ks D) k = None"
  using assms
proof (induction ks arbitrary: D)
  case (Cons j ks)
  obtain r D' where d: "store_delete root j D = (r, D')" by fastforce
  have f: "remove_fault D' = (\<lambda>_. None)"
    using store_delete_faults [OF d] Cons.prems(1) by (simp add: same_faults_def)
  have "shard_bytes root D' j = None"
    using d Cons.prems(1)
    by (cases "is_valid_fragment_id j")
       (auto simp: store_delete_invalid store_delete_valid shard_bytes_def split: option.splits)
  then show ?case
    using Cons.IH [OF f] Cons.prems(2) d cs.remove_all_shrinks [of root ks D' j]
    by (auto simp: cs.remove_all_def)
qed simp

lemma get_file_purged:
  assumes "h \<noteq> fid" "m_files M' = filter (\<lambda>r. d_file_id r \<noteq> fid) (m_files M)"
  shows "get_file v h M' = get_file v h M"
proof -
  have "filter (\<lambda>r. d_user_id r = v \<and> d_file_id r = h) (filter (\<lambda>r. d_file_id r \<noteq> fid) (m_files M))
      = filter (\<lambda>r. d_user_id r = v \<and> d_file_id r = h) (m_files M)"
    using assms(1) by (auto intro!: filter_cong)
  then show ?thesis by (simp add: get_file_def assms(2))
qed

section \<open>The versions the sweep keeps\<close>

text \<open>\<open>version_rank\<close> numbers the superseded rows of one lineage from 1, newest first.\<close>

definition superseded_of :: "string \<Rightarrow> string \<Rightarrow> manifest \<Rightarrow> db_file list" where
  "superseded_of u l M =
     filter (\<lambda>r. d_superseded_at r \<noteq> None \<and> d_user_id r = u \<and> coalesce (d_lineage r) (d_file_id r) = l) (m_files M)"

lemma count_above:
  fixes A :: "'a :: linorder set"
  assumes "finite A"
  shows "card {x \<in> A. card {y \<in> A. x < y} < k} = min k (card A)"
  using assms
proof (induction "card A" arbitrary: A k)
  case (Suc n)
  then have "A \<noteq> {}" by auto
  with Suc.prems obtain m B where A: "A = insert m B" "m \<notin> B" "\<forall>x \<in> B. m < x"
    by (metis Min_in Min_le finite_insert insert_iff mk_disjoint_insert order_le_imp_less_or_eq)
  have B: "finite B" "card B = n" using Suc.prems Suc.hyps(2) A by simp_all
  have top: "{y \<in> A. m < y} = B" using A by auto
  have same: "{y \<in> A. x < y} = {y \<in> B. x < y}" if "x \<in> B" for x using A that by auto
  let ?K = "{x \<in> B. card {y \<in> B. x < y} < k}"
  have split: "{x \<in> A. card {y \<in> A. x < y} < k} = (if n < k then insert m ?K else ?K)"
    using top same B(2) A(1) by auto
  have "card ?K = min k n" using Suc.hyps(1) [OF B(2) [symmetric] B(1)] B(2) by simp
  moreover have "m \<notin> ?K" "finite ?K" using A(2) B(1) by simp_all
  ultimately show ?case unfolding split using Suc.hyps(2) by auto
qed simp


definition version_key :: "db_file \<Rightarrow> string \<times> string" where
  "version_key r = (d_created_at r, d_file_id r)"

lemma superseded_of_distinct:
  assumes "manifest_inv M"
  shows "distinct (map d_file_id (superseded_of u l M))" "distinct (map version_key (superseded_of u l M))"
proof -
  show d: "distinct (map d_file_id (superseded_of u l M))"
    using assms by (simp add: manifest_inv_def superseded_of_def distinct_map_filter)
  then have "distinct (map snd (map version_key (superseded_of u l M)))" by (simp add: version_key_def comp_def)
  then show "distinct (map version_key (superseded_of u l M))" by (simp only: distinct_map)
qed

lemma version_rank_card:
  assumes "manifest_inv M" "r \<in> set (superseded_of u l M)"
  shows "version_rank (filter (\<lambda>r. d_superseded_at r \<noteq> None) (m_files M)) r
    = 1 + int (card {y \<in> version_key ` set (superseded_of u l M). version_key r < y})"
proof -
  have r: "d_user_id r = u" "coalesce (d_lineage r) (d_file_id r) = l"
    using assms(2) by (simp_all add: superseded_of_def)
  let ?above = "filter (\<lambda>q. version_key r < version_key q) (superseded_of u l M)"
  have "filter (\<lambda>q. d_user_id q = d_user_id r
           \<and> coalesce (d_lineage q) (d_file_id q) = coalesce (d_lineage r) (d_file_id r)
           \<and> (d_created_at r, d_file_id r) < (d_created_at q, d_file_id q))
        (filter (\<lambda>r. d_superseded_at r \<noteq> None) (m_files M)) = ?above"
    unfolding superseded_of_def filter_filter r version_key_def by (rule filter_cong) auto
  moreover have "length ?above = card (version_key ` set ?above)"
    using superseded_of_distinct(2) [OF assms(1), of u l]
    by (metis distinct_card distinct_map_filter length_map list.set_map)
  moreover have "version_key ` set ?above = {y \<in> version_key ` set (superseded_of u l M). version_key r < y}"
    by auto
  ultimately show ?thesis unfolding version_rank_def by simp
qed

lemma cand_of_inj:
  "manifest_inv M \<Longrightarrow> q \<in> set (m_files M) \<Longrightarrow> r \<in> set (m_files M) \<Longrightarrow> cand_of q = cand_of r \<Longrightarrow> q = r"
  using inv_file_ids by (simp add: cand_of_def)

lemma beyond_iff:
  assumes "manifest_inv M" "r \<in> set (superseded_of u l M)"
  shows "cand_of r \<in> set (superseded_beyond keep M)
    \<longleftrightarrow> keep < 1 + int (card {y \<in> version_key ` set (superseded_of u l M). version_key r < y})"
proof -
  have r: "r \<in> set (m_files M)" "d_superseded_at r \<noteq> None" using assms(2) by (simp_all add: superseded_of_def)
  let ?rows = "filter (\<lambda>r. d_superseded_at r \<noteq> None) (m_files M)"
  have "set (superseded_beyond keep M) = cand_of ` {q \<in> set ?rows. keep < version_rank ?rows q}"
    unfolding superseded_beyond_def purge_candidates_def cand_of_def Let_def set_map set_filter ..
  moreover have "cand_of r \<in> cand_of ` {q \<in> set ?rows. keep < version_rank ?rows q} \<longleftrightarrow> keep < version_rank ?rows r"
  proof
    assume "cand_of r \<in> cand_of ` {q \<in> set ?rows. keep < version_rank ?rows q}"
    then obtain q where q: "cand_of r = cand_of q" "q \<in> set ?rows" "keep < version_rank ?rows q" by blast
    have "q = r" by (rule cand_of_inj [OF assms(1) _ r(1) q(1) [symmetric]]) (use q(2) in simp)
    with q(3) show "keep < version_rank ?rows r" by simp
  next
    assume "keep < version_rank ?rows r"
    then show "cand_of r \<in> cand_of ` {q \<in> set ?rows. keep < version_rank ?rows q}" using r by (intro imageI) simp
  qed
  ultimately show ?thesis by (simp only: version_rank_card [OF assms])
qed

end
