(* ===== verification/Repack.thy ===== *)
theory Repack
  imports StoreLaws
begin

text \<open>
  The pack writer of \<open>store/src/service.rs\<close>: moving small files into one container, rewriting a
  container around the members that are left, and the local repacking pass. What a fresh random id is
  and what time it is are arguments; the pass takes one of each per pack.
\<close>

record pack_result =
  pk_pack_id :: "string option"
  pk_pack_size :: int
  pk_pack_stored_bytes :: int
  pk_members :: nat
  pk_freed_stored_bytes :: int
  pk_remote :: "remote_shard list"

record repack_report =
  rr_packs :: nat
  rr_files_packed :: nat
  rr_bytes_packed :: int
  rr_stored_freed :: int
  rr_stored_added :: int
  rr_remote :: "remote_shard list"

definition RepackReport_default :: repack_report where
  "RepackReport_default =
     \<lparr>rr_packs = 0, rr_files_packed = 0, rr_bytes_packed = 0, rr_stored_freed = 0,
      rr_stored_added = 0, rr_remote = []\<rparr>"

definition insert_pack_row :: "'f env \<Rightarrow> node_identity \<Rightarrow> file_path \<Rightarrow> string \<Rightarrow> string \<Rightarrow> string \<Rightarrow> bytes
    \<Rightarrow> int node_op" where
  "insert_pack_row E ident root now user_id pack_id plain =
     sbind (slift (map_err Core
              (process_v2 E plain (id_data_key ident) (as_bytes user_id) (as_bytes pack_id)
                 (PipelineConfig_default E)))) (\<lambda>cs.
     let stored_bytes = chunks_disk_cost cs
     in sbind (on_db (insert_file
                 \<lparr>f_file_id = pack_id, f_user_id = user_id, f_path = pack_key pack_id,
                  f_size = int (length plain), f_stored_bytes = stored_bytes,
                  f_chunk_count = int (length cs), f_created_at = now,
                  f_deleted_at = None, f_superseded_at = None, f_lineage = pack_id,
                  f_key_scheme = as_i64 V2, f_content_hash = Some (blake3_hex E plain),
                  f_pack_id = None, f_pack_offset = None, f_pack_len = None\<rparr>)) (\<lambda>_.
        sbind (write_chunk_rows E root pack_id cs) (\<lambda>_.
        sreturn stored_bytes)))"

text \<open>The loop of \<open>pack_files\<close> over its members: re-check the row, drop its chunks, point it at the
  pack. It carries the bytes freed and the shards to give back.\<close>

fun pack_each :: "string \<Rightarrow> string \<Rightarrow> (pack_entry \<times> pack_range) list \<Rightarrow> int \<Rightarrow> remote_shard list
    \<Rightarrow> (int \<times> remote_shard list) db_op" where
  "pack_each user_id pack_id [] freed frags M = (Ok (freed, frags), M)"
| "pack_each user_id pack_id ((e, off, len) # es) freed frags M =
     (case get_file user_id (pe_file_id e) M of
        None \<Rightarrow> (Err (Integrity (''file '' @ pe_file_id e @ '' vanished while being packed'')), M)
      | Some row \<Rightarrow>
          if f_pack_id row \<noteq> None \<or> f_size row \<noteq> int (length (pe_data e))
          then (Err (Integrity (''file '' @ pe_file_id e @ '' changed while being packed'')), M)
          else
            sbind (strip_file_chunks user_id (pe_file_id e)) (\<lambda>more.
            sbind (assign_to_pack user_id (pe_file_id e) pack_id (sint off) (sint len)) (\<lambda>_.
            pack_each user_id pack_id es (freed + f_stored_bytes row) (frags @ more))) M)"

definition pack_files :: "'f env \<Rightarrow> node_identity \<Rightarrow> file_path \<Rightarrow> bytes \<Rightarrow> string \<Rightarrow> string \<Rightarrow> pack_entry list
    \<Rightarrow> pack_result node_op" where
  "pack_files E ident root rnd now user_id entries =
     (if entries = [] then slift (Err (Integrity ''cannot build an empty pack''))
      else
        sbind (slift (build_pack entries)) (\<lambda>(plain, ranges).
        let pack_id = mint_file_id E rnd
        in sbind (transaction (
              sbind (on_db (pack_each user_id pack_id (zip entries ranges) 0 [])) (\<lambda>(freed, frags).
              sbind (insert_pack_row E ident root now user_id pack_id plain) (\<lambda>stored.
              sreturn (freed, frags, stored)))))
             (\<lambda>(freed, frags, stored) S.
                let (remote, D) = purge_local_collect_remote root frags (nd_disk S)
                in (Ok \<lparr>pk_pack_id = Some pack_id, pk_pack_size = int (length plain),
                        pk_pack_stored_bytes = stored, pk_members = length entries,
                        pk_freed_stored_bytes = freed, pk_remote = remote\<rparr>, S\<lparr>nd_disk := D\<rparr>))))"

fun repoint_each :: "string \<Rightarrow> string \<Rightarrow> string \<Rightarrow> (pack_entry \<times> pack_range) list \<Rightarrow> unit db_op" where
  "repoint_each user_id old_pack_id new_pack_id [] M = (Ok (), M)"
| "repoint_each user_id old_pack_id new_pack_id ((e, off, len) # es) M =
     (case get_file user_id (pe_file_id e) M of
        None \<Rightarrow> (Err (Integrity (''file '' @ pe_file_id e @ '' vanished while being compacted'')), M)
      | Some row \<Rightarrow>
          if f_pack_id row \<noteq> Some old_pack_id \<or> f_size row \<noteq> int (length (pe_data e))
          then (Err (Integrity (''file '' @ pe_file_id e @ '' changed while being compacted'')), M)
          else
            sbind (assign_to_pack user_id (pe_file_id e) new_pack_id (sint off) (sint len)) (\<lambda>_.
            repoint_each user_id old_pack_id new_pack_id es) M)"

text \<open>The guard that every member row of the old pack is carried over: the first missing one.\<close>

definition missing_member :: "file_row list \<Rightarrow> pack_entry list \<Rightarrow> file_row option" where
  "missing_member members survivors =
     List.find (\<lambda>m. f_file_id m \<notin> set (map pe_file_id survivors)) members"

definition compact_tx :: "'f env \<Rightarrow> node_identity \<Rightarrow> file_path \<Rightarrow> bytes \<Rightarrow> string \<Rightarrow> string \<Rightarrow> string
    \<Rightarrow> pack_entry list \<Rightarrow> (remote_shard list \<times> pack_result) node_op" where
  "compact_tx E ident root rnd now user_id old_pack_id survivors S =
     (case get_file user_id old_pack_id (nd_manifest S) of
        None \<Rightarrow> (Err NotFound, S)
      | Some old \<Rightarrow>
          if \<not> is_pack old then (Err (Integrity (old_pack_id @ '' is not a pack'')), S)
          else
            case missing_member (pack_members user_id old_pack_id (nd_manifest S)) survivors of
              Some m \<Rightarrow> (Err (Integrity (''member '' @ f_file_id m @ '' of pack '' @ old_pack_id
                                 @ '' is not among the compaction survivors'')), S)
            | None \<Rightarrow>
                if survivors = []
                then sbind (on_db (purge_file_row user_id old_pack_id)) (\<lambda>frags.
                     sreturn (frags, \<lparr>pk_pack_id = None, pk_pack_size = 0, pk_pack_stored_bytes = 0,
                       pk_members = 0, pk_freed_stored_bytes = f_stored_bytes old, pk_remote = []\<rparr>)) S
                else
                  sbind (slift (build_pack survivors)) (\<lambda>(plain, ranges).
                  let new_pack_id = mint_file_id E rnd
                  in sbind (on_db (repoint_each user_id old_pack_id new_pack_id (zip survivors ranges))) (\<lambda>_.
                     sbind (insert_pack_row E ident root now user_id new_pack_id plain) (\<lambda>stored.
                     sbind (on_db (purge_file_row user_id old_pack_id)) (\<lambda>frags.
                     sreturn (frags, \<lparr>pk_pack_id = Some new_pack_id, pk_pack_size = int (length plain),
                       pk_pack_stored_bytes = stored, pk_members = length survivors,
                       pk_freed_stored_bytes = f_stored_bytes old, pk_remote = []\<rparr>))))) S)"

definition compact_pack :: "'f env \<Rightarrow> node_identity \<Rightarrow> file_path \<Rightarrow> bytes \<Rightarrow> string \<Rightarrow> string \<Rightarrow> string
    \<Rightarrow> pack_entry list \<Rightarrow> pack_result node_op" where
  "compact_pack E ident root rnd now user_id old_pack_id survivors =
     sbind (transaction (compact_tx E ident root rnd now user_id old_pack_id survivors))
       (\<lambda>(frags, res) S.
          let (remote, D) = purge_local_collect_remote root frags (nd_disk S)
          in (Ok (res\<lparr>pk_remote := remote\<rparr>), S\<lparr>nd_disk := D\<rparr>))"

definition list_packable :: "manifest \<Rightarrow> string \<Rightarrow> file_row list" where
  "list_packable M user_id = packable_files user_id (int SMALL_MAX) M"

definition users_with_packable :: "manifest \<Rightarrow> string list" where
  "users_with_packable M = packable_user_ids (int SMALL_MAX) M"

definition list_pack_occupancy :: "manifest \<Rightarrow> (file_row \<times> int \<times> int) list" where
  "list_pack_occupancy M = pack_occupancy M"

definition list_pack_members :: "manifest \<Rightarrow> string \<Rightarrow> string \<Rightarrow> file_row list" where
  "list_pack_members M user_id pack_id = pack_members user_id pack_id M"

definition read_entries :: "'f env \<Rightarrow> node_identity \<Rightarrow> file_path \<Rightarrow> string \<Rightarrow> file_row list \<Rightarrow> node
    \<Rightarrow> (pack_entry list, store_error) result" where
  "read_entries E ident root user_id grp S =
     rmapM (\<lambda>f. rbind (pull E ident root user_id (f_file_id f) S)
                  (\<lambda>b. Ok \<lparr>pe_file_id = f_file_id f, pe_data = b\<rparr>)) grp"

fun repack_groups :: "'f env \<Rightarrow> node_identity \<Rightarrow> file_path \<Rightarrow> (nat \<Rightarrow> bytes \<times> string) \<Rightarrow> nat \<Rightarrow> string
    \<Rightarrow> file_row list list \<Rightarrow> repack_report \<Rightarrow> repack_report node_op" where
  "repack_groups E ident root src n user_id [] rep S = (Ok rep, S)"
| "repack_groups E ident root src n user_id (g # gs) rep S =
     sbind (slift (read_entries E ident root user_id g S)) (\<lambda>entries.
     sbind (pack_files E ident root (fst (src n)) (snd (src n)) user_id entries) (\<lambda>r.
     repack_groups E ident root src (Suc n) user_id gs
       \<lparr>rr_packs = rr_packs rep + 1,
        rr_files_packed = rr_files_packed rep + pk_members r,
        rr_bytes_packed = rr_bytes_packed rep + sum_list (map (\<lambda>e. int (length (pe_data e))) entries),
        rr_stored_freed = rr_stored_freed rep + pk_freed_stored_bytes r,
        rr_stored_added = rr_stored_added rep + pk_pack_stored_bytes r,
        rr_remote = rr_remote rep @ pk_remote r\<rparr>)) S"

text \<open>\<open>src n\<close> is the random id and the time of the \<open>n\<close>th pack.\<close>

definition repack_small_files :: "'f env \<Rightarrow> node_identity \<Rightarrow> file_path \<Rightarrow> (nat \<Rightarrow> bytes \<times> string) \<Rightarrow> string
    \<Rightarrow> repack_report node_op" where
  "repack_small_files E ident root src user_id S =
     repack_groups E ident root src 0 user_id
       (plan_packs (packable_files user_id (int SMALL_MAX) (nd_manifest S)) (int PACK_TARGET))
       RepackReport_default S"

section \<open>Moving files into a pack\<close>

text \<open>What the member loop does to the tables: only the files in \<open>ids\<close> change, and the shards in \<open>ks\<close>
  are the ones that have left the index.\<close>

definition repacked :: "string set \<Rightarrow> manifest \<Rightarrow> manifest \<Rightarrow> string set \<Rightarrow> bool" where
  "repacked ids M M' ks \<longleftrightarrow>
     manifest_inv M' \<and> set (m_shards M') \<subseteq> set (m_shards M)
     \<and> map d_file_id (m_files M') = map d_file_id (m_files M)
     \<and> (\<forall>v h. h \<notin> ids \<longrightarrow> get_file v h M' = get_file v h M)
     \<and> (\<forall>h. h \<notin> ids \<longrightarrow> get_chunks h M' = get_chunks h M
          \<and> (\<forall>c \<in> set (get_chunks h M). get_shards (c_chunk_id c) M' = get_shards (c_chunk_id c) M))
     \<and> ks \<subseteq> s_fragment_id ` set (m_shards M) \<and> ks \<inter> s_fragment_id ` set (m_shards M') = {}"

lemma repacked_refl: "manifest_inv M \<Longrightarrow> repacked {} M M {}"
  by (simp add: repacked_def)

lemma repackedD:
  assumes "repacked ids M M' ks"
  shows "manifest_inv M'" "set (m_shards M') \<subseteq> set (m_shards M)"
    "map d_file_id (m_files M') = map d_file_id (m_files M)"
    "h \<notin> ids \<Longrightarrow> get_file v h M' = get_file v h M"
    "h \<notin> ids \<Longrightarrow> get_chunks h M' = get_chunks h M"
    "h \<notin> ids \<Longrightarrow> c \<in> set (get_chunks h M) \<Longrightarrow> get_shards (c_chunk_id c) M' = get_shards (c_chunk_id c) M"
    "ks \<subseteq> s_fragment_id ` set (m_shards M)" "ks \<inter> s_fragment_id ` set (m_shards M') = {}"
  using assms unfolding repacked_def by simp_all

lemma repacked_trans:
  assumes a: "repacked A M M1 ks" and b: "repacked B M1 M2 ls"
  shows "repacked (A \<union> B) M M2 (ks \<union> ls)"
  unfolding repacked_def
proof (intro conjI allI impI ballI)
  have sub: "s_fragment_id ` set (m_shards M2) \<subseteq> s_fragment_id ` set (m_shards M1)"
    "s_fragment_id ` set (m_shards M1) \<subseteq> s_fragment_id ` set (m_shards M)"
    using repackedD(2) [OF a] repackedD(2) [OF b] by (simp_all add: image_mono)
  show "ks \<union> ls \<subseteq> s_fragment_id ` set (m_shards M)"
    using repackedD(7) [OF a] repackedD(7) [OF b] sub(2) by (meson Un_least subset_trans)
  show "(ks \<union> ls) \<inter> s_fragment_id ` set (m_shards M2) = {}"
    using repackedD(8) [OF a] repackedD(8) [OF b] sub(1) by (meson disjoint_iff UnE subsetD)
  show "manifest_inv M2" by (rule repackedD(1) [OF b])
  show "set (m_shards M2) \<subseteq> set (m_shards M)"
    by (rule subset_trans [OF repackedD(2) [OF b] repackedD(2) [OF a]])
  show "map d_file_id (m_files M2) = map d_file_id (m_files M)"
    by (simp only: repackedD(3) [OF a] repackedD(3) [OF b])
  fix h assume "h \<notin> A \<union> B"
  then have h: "h \<notin> A" "h \<notin> B" by blast+
  show ch: "get_chunks h M2 = get_chunks h M"
    by (simp only: repackedD(5) [OF a h(1)] repackedD(5) [OF b h(2)])
  show "get_file v h M2 = get_file v h M" for v
    by (simp only: repackedD(4) [OF a h(1)] repackedD(4) [OF b h(2)])
  fix c assume c: "c \<in> set (get_chunks h M)"
  then have "c \<in> set (get_chunks h M1)" by (simp only: repackedD(5) [OF a h(1)])
  then show "get_shards (c_chunk_id c) M2 = get_shards (c_chunk_id c) M"
    by (simp only: repackedD(6) [OF a h(1) c] repackedD(6) [OF b h(2)])
qed

lemma get_file_row_user:
  assumes "manifest_inv M" "get_file u fid M = Some f" "get_file v fid M \<noteq> None"
  shows "v = u"
proof -
  obtain r where "r \<in> set (m_files M)" "d_user_id r = u" "d_file_id r = fid"
    using get_file_Some [OF assms(2)] by blast
  moreover obtain q where "q \<in> set (m_files M)" "d_user_id q = v" "d_file_id q = fid"
    using assms(3) get_file_Some by blast
  ultimately show ?thesis using inv_file_ids [OF assms(1)] by blast
qed

lemma assign_to_pack_Ok:
  assumes "assign_to_pack u fid pid off len M = (Ok b, M')"
  shows "M' = M\<lparr>m_files := map (\<lambda>r. if d_user_id r = u \<and> d_file_id r = fid
      then r\<lparr>d_pack_id := Some pid, d_pack_offset := Some off, d_pack_len := Some len, d_chunk_count := 0,
             d_stored_bytes := 0\<rparr> else r) (m_files M)\<rparr>"
  using assms by (auto simp: assign_to_pack_def sbind_Ok_iff dest!: update_files_Ok)

lemma assign_effect:
  assumes "manifest_inv M" "assign_to_pack u fid pid off len M = (Ok b, M')" "get_file u fid M = Some row"
  shows "repacked {fid} M M' {}"
    "get_file u fid M' = Some (row\<lparr>f_pack_id := Some pid, f_pack_offset := Some off, f_pack_len := Some len,
       f_chunk_count := 0, f_stored_bytes := 0\<rparr>)"
proof -
  note M' = assign_to_pack_Ok [OF assms(2)]
  let ?k = "\<lambda>r. r\<lparr>d_pack_id := Some pid, d_pack_offset := Some off, d_pack_len := Some len, d_chunk_count := 0,
             d_stored_bytes := 0\<rparr>"
  have f: "List.find (\<lambda>r. d_user_id r = v \<and> d_file_id r = h)
        (map (\<lambda>r. if d_user_id r = u \<and> d_file_id r = fid then ?k r else r) xs)
      = map_option (\<lambda>r. if d_user_id r = u \<and> d_file_id r = fid then ?k r else r)
          (List.find (\<lambda>r. d_user_id r = v \<and> d_file_id r = h) xs)" for v h xs
    by (induction xs) auto
  have g: "get_file v h M' = get_file v h M" if "h \<noteq> fid" for v h
  proof -
    have e: "List.find (\<lambda>r. d_user_id r = v \<and> d_file_id r = h)
        (map (\<lambda>r. if d_user_id r = u \<and> d_file_id r = fid then ?k r else r) xs)
      = List.find (\<lambda>r. d_user_id r = v \<and> d_file_id r = h) xs" for xs
      using that by (induction xs) auto
    have "m_files M' = map (\<lambda>r. if d_user_id r = u \<and> d_file_id r = fid then ?k r else r) (m_files M)"
      by (simp add: M')
    then show ?thesis by (simp only: get_file_find e)
  qed
  show "repacked {fid} M M' {}"
    unfolding repacked_def using assign_to_pack_inv [OF assms(1,2)] g
    by (auto simp: M' get_chunks_def get_shards_def)
  obtain x where x: "List.find (\<lambda>r. d_user_id r = u \<and> d_file_id r = fid) (m_files M) = Some x" "row = map_file x"
    using assms(3) unfolding get_file_find by blast
  have "d_user_id x = u" "d_file_id x = fid" using x(1) by (auto simp: find_Some_iff)
  then show "get_file u fid M' = Some (row\<lparr>f_pack_id := Some pid, f_pack_offset := Some off, f_pack_len := Some len,
       f_chunk_count := 0, f_stored_bytes := 0\<rparr>)"
    unfolding M' get_file_find using x by (simp add: f map_file_def)
qed

lemma strip_effect:
  assumes "manifest_inv M" "strip_file_chunks u fid M = (Ok gone, M')" "get_file u fid M = Some row"
  shows "repacked {fid} M M' (fst ` set gone)" "get_file v h M' = get_file v h M"
proof -
  obtain x where x: "x \<in> set (m_files M)" "d_user_id x = u" "d_file_id x = fid"
    using get_file_Some [OF assms(3)] by blast
  have ids: "set (map d_file_id (filter (\<lambda>r. d_file_id r = fid \<and> d_user_id r = u) (m_files M))) = {fid}"
    using x by auto
  have M': "gone = file_fragments u fid M" "M' = delete_chunks (\<lambda>c. c_file_id c \<in> {fid}) M"
    using assms(2) unfolding strip_file_chunks_def ids by auto
  have gone: "fst ` set gone = s_fragment_id ` set (file_shards fid M)"
    unfolding M'(1) using file_fragments_shards [OF assms(1) x(1)] x by (simp add: image_image)
  have c: "m_chunks M' = filter (\<lambda>c. c_file_id c \<noteq> fid) (m_chunks M)"
    unfolding M'(2) by (simp add: delete_chunks_def)
  have "s_chunk_id s \<notin> set (map c_chunk_id (filter (\<lambda>c. c_file_id c \<in> {fid}) (m_chunks M)))
      \<longleftrightarrow> s \<notin> set (file_shards fid M)" if "s \<in> set (m_shards M)" for s
    using that by (auto simp: file_shards_def image_iff)
  then have s: "m_shards M' = filter (\<lambda>s. s \<notin> set (file_shards fid M)) (m_shards M)"
    unfolding M'(2) delete_chunks_def by (simp, intro filter_cong) auto
  show g: "get_file v h M' = get_file v h M" for v h
    unfolding M'(2) by (simp add: get_file_find delete_chunks_def)
  have "s_fragment_id ` set (file_shards fid M) \<inter> s_fragment_id ` set (m_shards M') = {}"
    unfolding s using inv_fragment_ids [OF assms(1)] by (auto simp: file_shards_def)
  moreover have "m_files M' = m_files M" unfolding M'(2) by (simp add: delete_chunks_def)
  ultimately show "repacked {fid} M M' (fst ` set gone)"
    unfolding repacked_def gone using strip_file_chunks_inv [OF assms(1,2)] g purged_tables [OF assms(1) _ c s]
    by (auto simp: s file_shards_def)
qed

lemma repacked_view:
  assumes "repacked ids M M' ks" "h \<notin> ids"
  shows "chunk_view root \<lparr>nd_manifest = M', nd_disk = D\<rparr> h = chunk_view root \<lparr>nd_manifest = M, nd_disk = D\<rparr> h"
  unfolding chunk_view_def shard_reads_def
  using repackedD(5,6) [OF assms] by simp

lemma pack_each_effect:
  assumes "manifest_inv M" "pack_each u pid es freed frags M = (Ok (freed', frags'), M')"
  shows "\<exists>new. frags' = frags @ new \<and> repacked ((pe_file_id \<circ> fst) ` set es) M M' (fst ` set new)"
    "e \<in> set es \<Longrightarrow> \<exists>row. get_file u (pe_file_id (fst e)) M = Some row \<and> f_pack_id row = None"
    "e \<in> set es \<Longrightarrow> \<exists>row. get_file u (pe_file_id (fst e)) M' = Some row \<and> f_pack_id row = Some pid
       \<and> f_pack_offset row = Some (sint (fst (snd e))) \<and> f_pack_len row = Some (sint (snd (snd e)))"
proof -
  have "(\<exists>new. frags' = frags @ new \<and> repacked ((pe_file_id \<circ> fst) ` set es) M M' (fst ` set new))
    \<and> (\<forall>e \<in> set es. \<exists>row. get_file u (pe_file_id (fst e)) M = Some row \<and> f_pack_id row = None)
    \<and> (\<forall>e \<in> set es. \<exists>row. get_file u (pe_file_id (fst e)) M' = Some row \<and> f_pack_id row = Some pid
       \<and> f_pack_offset row = Some (sint (fst (snd e))) \<and> f_pack_len row = Some (sint (snd (snd e))))"
    using assms
  proof (induction es arbitrary: freed frags M)
    case Nil
    then show ?case by (auto intro!: repacked_refl)
  next
    case (Cons x es)
    obtain e off len where x: "x = (e, off, len)" by (cases x)
    let ?id = "pe_file_id e" and ?ids = "(pe_file_id \<circ> fst) ` set es"
    from Cons.prems(2) obtain row gone b M1 M2 where row: "get_file u ?id M = Some row" "f_pack_id row = None"
      and s: "strip_file_chunks u ?id M = (Ok gone, M1)"
      and a: "assign_to_pack u ?id pid (sint off) (sint len) M1 = (Ok b, M2)"
      and rest: "pack_each u pid es (freed + f_stored_bytes row) (frags @ gone) M2 = (Ok (freed', frags'), M')"
      by (auto simp: x sbind_Ok_iff split: option.splits if_splits)
    note se = strip_effect [OF Cons.prems(1) s row(1)]
    have row1: "get_file u ?id M1 = Some row" using se(2) row(1) by simp
    note ae = assign_effect [OF repackedD(1) [OF se(1)] a row1]
    have R1: "repacked {?id} M M2 (fst ` set gone)" using repacked_trans [OF se(1) ae(1)] by simp
    from Cons.IH [OF repackedD(1) [OF R1] rest] obtain new where
      n: "frags' = (frags @ gone) @ new" and R2: "repacked ?ids M2 M' (fst ` set new)"
      and pre: "\<And>e. e \<in> set es \<Longrightarrow> \<exists>row. get_file u (pe_file_id (fst e)) M2 = Some row \<and> f_pack_id row = None"
      and post: "\<And>e. e \<in> set es \<Longrightarrow> \<exists>row. get_file u (pe_file_id (fst e)) M' = Some row \<and> f_pack_id row = Some pid
       \<and> f_pack_offset row = Some (sint (fst (snd e))) \<and> f_pack_len row = Some (sint (snd (snd e)))"
      by blast
    have fresh: "?id \<notin> ?ids" using pre ae(2) by fastforce
    have "repacked ((pe_file_id \<circ> fst) ` set (x # es)) M M' (fst ` set (gone @ new))"
      using repacked_trans [OF R1 R2] by (simp add: x image_Un)
    moreover have "\<exists>row. get_file u ?id M' = Some row \<and> f_pack_id row = Some pid
       \<and> f_pack_offset row = Some (sint off) \<and> f_pack_len row = Some (sint len)"
      using repackedD(4) [OF R2 fresh] ae(2) by simp
    moreover have "\<exists>row. get_file u (pe_file_id (fst q)) M = Some row \<and> f_pack_id row = None" if q: "q \<in> set es" for q
    proof -
      have "pe_file_id (fst q) \<noteq> ?id" using q fresh by (metis comp_apply imageI)
      then show ?thesis using pre [OF q] repackedD(4) [OF R1, of "pe_file_id (fst q)" u] by simp
    qed
    ultimately show ?case using n post row x by (auto intro!: exI [of _ "gone @ new"])
  qed
  then show "\<exists>new. frags' = frags @ new \<and> repacked ((pe_file_id \<circ> fst) ` set es) M M' (fst ` set new)"
    "e \<in> set es \<Longrightarrow> \<exists>row. get_file u (pe_file_id (fst e)) M = Some row \<and> f_pack_id row = None"
    "e \<in> set es \<Longrightarrow> \<exists>row. get_file u (pe_file_id (fst e)) M' = Some row \<and> f_pack_id row = Some pid
       \<and> f_pack_offset row = Some (sint (fst (snd e))) \<and> f_pack_len row = Some (sint (snd (snd e)))"
    by blast+
qed

lemma removed_view:
  assumes "purge_local_collect_remote root frags (nd_disk T) = (remote, D)"
    and "fst ` set frags \<inter> s_fragment_id ` set (m_shards (nd_manifest T)) = {}"
  shows "chunk_view root (T\<lparr>nd_disk := D\<rparr>) h = chunk_view root T h"
proof -
  let ?ks = "map fst (filter (\<lambda>f. snd f = ''local'') frags)"
  have D: "D = cs.remove_all root ?ks (nd_disk T)" using assms(1) by (simp add: purge_local_disk)
  have "store_read root D (s_fragment_id s) = store_read root (nd_disk T) (s_fragment_id s)"
    if "s \<in> set (m_shards (nd_manifest T))" for s
  proof (rule store_read_cong)
    have "s_fragment_id s \<notin> set ?ks" using assms(2) that by auto
    then show "shard_bytes root D (s_fragment_id s) = shard_bytes root (nd_disk T) (s_fragment_id s)"
      unfolding D by (rule cs.remove_all_other)
    show "read_fault D = read_fault (nd_disk T)"
      using remove_all_faults [of "nd_disk T" root ?ks] by (simp add: D same_faults_def)
  qed
  then show ?thesis unfolding chunk_view_def shard_reads_def by (simp add: get_shards_def)
qed

lemma insert_pack_row_Ok:
  assumes "insert_pack_row E ident root now u pid plain S = (Ok stored, T)"
  obtains cs M2 where
    "process_v2 E plain (id_data_key ident) (as_bytes u) (as_bytes pid) (PipelineConfig_default E) = Ok cs"
    "insert_file (pushed_row E pid now u (pack_key pid) plain (length cs) (chunks_disk_cost cs) pid) (nd_manifest S) = (Ok (), M2)"
    "write_chunk_rows E root pid cs \<lparr>nd_manifest = M2, nd_disk = nd_disk S\<rparr> = (Ok (), T)"
proof -
  have u: "S\<lparr>nd_manifest := M\<rparr> = \<lparr>nd_manifest = M, nd_disk = nd_disk S\<rparr>" for M by (cases S) simp
  show ?thesis
    using assms that by (auto simp: insert_pack_row_def sbind_Ok_iff on_db_Ok Let_def pushed_row_def u)
qed

lemma pack_files_Ok:
  assumes "pack_files E ident root rnd now u entries S = (Ok r, T)"
  obtains plain ranges freed frags M1 U where "build_pack entries = Ok (plain, ranges)"
    "pack_each u (mint_file_id E rnd) (zip entries ranges) 0 [] (nd_manifest S) = (Ok (freed, frags), M1)"
    "insert_pack_row E ident root now u (mint_file_id E rnd) plain (S\<lparr>nd_manifest := M1\<rparr>) = (Ok (pk_pack_stored_bytes r), U)"
    "T = U\<lparr>nd_disk := snd (purge_local_collect_remote root frags (nd_disk U))\<rparr>"
    "entries \<noteq> []" "pk_freed_stored_bytes r = freed"
  using assms
  by (auto simp: pack_files_def sbind_Ok_iff on_db_Ok Let_def case_prod_beta split: if_splits)

text \<open>The pack's shards are new to the index the members were taken from.\<close>

lemma fresh_fragments:
  assumes "fresh_ids E fid n M" "length cs = n" "map pc_index cs = [0..<length cs]" "ks \<subseteq> s_fragment_id ` set (m_shards M)"
  shows "ks \<inter> s_fragment_id ` set (concat (map (shard_rows E fid) cs)) = {}"
proof -
  let ?new = "concat (map (\<lambda>k. map (fragment_id E (chunk_id fid k)) [0..<TOTAL_SHARDS]) [0..<n])"
  have "s_fragment_id ` set (concat (map (shard_rows E fid) cs)) = set ?new"
    using shard_rows_fragments [OF assms(3), of E fid] unfolding assms(2) by (metis set_map)
  moreover have "set ?new \<inter> s_fragment_id ` set (m_shards M) = {}" using assms(1) by (simp only: fresh_ids_def)
  ultimately show ?thesis using assms(4) by blast
qed

lemma packed_reads:
  assumes laws: "aead_correct E" "zstd_lossless E"
    and st: "node_inv S" "read_fault (nd_disk S) = (\<lambda>_. None)"
    and b: "build_pack entries = Ok (plain, ranges)" "length plain < 2 ^ 63"
    and fresh: "fresh_ids E (mint_file_id E rnd) (div_ceil (length plain) DEFAULT_CHUNK_SIZE) (nd_manifest S)"
    and p: "pack_files E ident root rnd now u entries S = (Ok r, T)"
  shows "e \<in> set entries \<Longrightarrow> pull E ident root u (pe_file_id e) T = Ok (pe_data e)"
    "h \<notin> pe_file_id ` set entries \<Longrightarrow> h \<noteq> mint_file_id E rnd \<Longrightarrow>
       get_file v h (nd_manifest T) = get_file v h (nd_manifest S) \<and> chunk_view root T h = chunk_view root S h"
    "node_inv T" "e \<in> set entries \<Longrightarrow> \<exists>row. get_file u (pe_file_id e) (nd_manifest S) = Some row"
proof -
  let ?pid = "mint_file_id E rnd" and ?ids = "pe_file_id ` set entries"
  from p obtain plain' ranges' freed frags M1 U where b': "build_pack entries = Ok (plain', ranges')"
    and m: "pack_each u ?pid (zip entries ranges') 0 [] (nd_manifest S) = (Ok (freed, frags), M1)"
    and ins: "insert_pack_row E ident root now u ?pid plain' (S\<lparr>nd_manifest := M1\<rparr>) = (Ok (pk_pack_stored_bytes r), U)"
    and T: "T = U\<lparr>nd_disk := snd (purge_local_collect_remote root frags (nd_disk U))\<rparr>"
    and x: "entries \<noteq> []" "pk_freed_stored_bytes r = freed"
    by (rule pack_files_Ok)
  from b(1) b' have pl: "plain' = plain" "ranges' = ranges" by simp_all
  have len: "length ranges = length entries" using build_pack_Ok(1) [OF b(1)] by simp
  have z: "(pe_file_id \<circ> fst) ` set (zip entries ranges) = ?ids"
    using len by (metis image_comp list.set_map map_fst_zip)
  note me = pack_each_effect [OF st(1) m [unfolded pl]]
  have R: "repacked ?ids (nd_manifest S) M1 (fst ` set frags)" using me(1) unfolding z by auto
  from ins [unfolded pl] obtain cs M2 where
    pr: "process_v2 E plain (id_data_key ident) (as_bytes u) (as_bytes ?pid) (PipelineConfig_default E) = Ok cs"
    and i0: "insert_file (pushed_row E ?pid now u (pack_key ?pid) plain (length cs) (chunks_disk_cost cs) ?pid)
        (nd_manifest (S\<lparr>nd_manifest := M1\<rparr>)) = (Ok (), M2)"
    and w0: "write_chunk_rows E root ?pid cs \<lparr>nd_manifest = M2, nd_disk = nd_disk (S\<lparr>nd_manifest := M1\<rparr>)\<rparr> = (Ok (), U)"
    by (rule insert_pack_row_Ok)
  have i: "insert_file (pushed_row E ?pid now u (pack_key ?pid) plain (length cs) (chunks_disk_cost cs) ?pid) M1 = (Ok (), M2)"
    and w: "write_chunk_rows E root ?pid cs \<lparr>nd_manifest = M2, nd_disk = nd_disk S\<rparr> = (Ok (), U)"
    using i0 w0 by simp_all
  note ir = inserted_reads [OF laws repackedD(1) [OF R] st(2) b(2) pr i w]
  have ps: "process_with_scheme E plain (id_data_key ident) V2 (as_bytes u) (as_bytes ?pid) (PipelineConfig_default E) = Ok cs"
    using pr by (simp add: process_v2_def)
  have n: "length cs = div_ceil (length plain) DEFAULT_CHUNK_SIZE"
    using process_with_scheme_Ok [OF ps] by (metis PipelineConfig_default_def pipeline_config.select_convs(1))
  have mshards: "m_shards (nd_manifest U) = m_shards M1 @ concat (map (shard_rows E ?pid) cs)"
    using write_chunk_rows_Ok(3) [OF w] insert_file_Ok [OF i] by fastforce
  have disj: "fst ` set frags \<inter> s_fragment_id ` set (m_shards (nd_manifest U)) = {}"
    using repackedD(8) [OF R] fresh_fragments [OF fresh n process_index_list [OF ps] repackedD(7) [OF R]]
    unfolding mshards set_append image_Un by blast
  obtain remote D where d: "purge_local_collect_remote root frags (nd_disk U) = (remote, D)" by fastforce
  have TU: "T = U\<lparr>nd_disk := D\<rparr>" using T d by simp
  have view: "chunk_view root T h = chunk_view root U h" for h unfolding TU by (rule removed_view [OF d disj])
  have files: "nd_manifest T = nd_manifest U" unfolding TU by simp
  show "node_inv T" using ir(4) files by simp
  have S: "\<lparr>nd_manifest = nd_manifest S, nd_disk = nd_disk S\<rparr> = S" by simp
  show others: "get_file v h (nd_manifest T) = get_file v h (nd_manifest S) \<and> chunk_view root T h = chunk_view root S h"
    if "h \<notin> ?ids" "h \<noteq> ?pid" for v h
    using ir(3) [OF that(2), of v] repackedD(4) [OF R that(1), of v] repacked_view [OF R that(1), of root "nd_disk S"]
    by (simp add: view files S)
  obtain pf where pf: "get_file u ?pid (nd_manifest U) = Some pf" "f_pack_id pf = None"
    "pull_contained E ident root U pf = Ok plain" using ir(1) by blast
  have pidf: "f_file_id pf = ?pid" using get_file_Some [OF pf(1)] by (auto simp: map_file_def)
  have pc: "pull_contained E ident root T pf = Ok plain"
    using pull_contained_cong [of pf pf root T U E ident] view pf(3) by simp
  show "\<exists>row. get_file u (pe_file_id e) (nd_manifest S) = Some row" if "e \<in> set entries" for e
    using that me(2) len by (metis in_set_impl_in_set_zip1 fst_conv)
  show "pull E ident root u (pe_file_id e) T = Ok (pe_data e)" if "e \<in> set entries" for e
  proof -
    obtain k where k: "k < length entries" "entries ! k = e" using \<open>e \<in> set entries\<close> by (auto simp: in_set_conv_nth)
    then have "(e, ranges ! k) \<in> set (zip entries ranges)" using len by (metis length_zip min.idem nth_mem nth_zip)
    from me(3) [OF this] obtain row where row: "get_file u (pe_file_id e) M1 = Some row" "f_pack_id row = Some ?pid"
      "f_pack_offset row = Some (sint (fst (ranges ! k)))" "f_pack_len row = Some (sint (snd (ranges ! k)))" by auto
    have ne: "pe_file_id e \<noteq> ?pid" using get_file_Some [OF row(1)] ir(2) by (metis imageI)
    have "get_file u (pe_file_id e) (nd_manifest T) = Some row" using ir(3) [OF ne, of u] row(1) files by simp
    moreover have "get_file u ?pid (nd_manifest T) = Some pf" using pf(1) files by simp
    moreover have "member_slice plain row = Ok (pe_data e)"
      using build_pack_slice [OF b k(1) row(3,4)] k(2) by simp
    ultimately show ?thesis using row(2) pf(2) pc by (simp add: pull_def)
  qed
qed

lemma packed_same_content:
  assumes laws: "aead_correct E" "zstd_lossless E"
    and st: "node_inv S" "read_fault (nd_disk S) = (\<lambda>_. None)"
    and b: "build_pack entries = Ok (plain, ranges)" "length plain < 2 ^ 63"
    and fresh: "fresh_ids E (mint_file_id E rnd) (div_ceil (length plain) DEFAULT_CHUNK_SIZE) (nd_manifest S)"
    and data: "\<forall>e \<in> set entries. pull E ident root u (pe_file_id e) S = Ok (pe_data e)"
    and nopack: "\<forall>v g f. get_file v g (nd_manifest S) = Some f \<longrightarrow> f_pack_id f \<notin> Some ` pe_file_id ` set entries"
    and p: "pack_files E ident root rnd now u entries S = (Ok r, T)"
    and old: "pull E ident root v g S = Ok c"
  shows "pull E ident root v g T = Ok c"
proof -
  note r = packed_reads [OF laws st b fresh p]
  obtain f where f: "get_file v g (nd_manifest S) = Some f" using old by (auto simp: pull_def)
  show ?thesis
  proof (cases "g \<in> pe_file_id ` set entries")
    case True
    then obtain e where e: "e \<in> set entries" "g = pe_file_id e" by blast
    obtain row where "get_file u g (nd_manifest S) = Some row" using r(4) [OF e(1)] e(2) by blast
    from get_file_row_user [OF st(1) this] f have "v = u" by simp
    then show ?thesis using r(1) [OF e(1)] data e old by simp
  next
    case False
    have "pull E ident root v g T = pull E ident root v g S"
    proof (rule pull_cong)
      fix h assume h: "h \<in> needed v g (nd_manifest S)"
      have "h \<notin> pe_file_id ` set entries"
        using h False nopack [rule_format, OF f] f by (auto simp: needed_def)
      moreover have "h \<noteq> mint_file_id E rnd"
      proof -
        have "get_file v h (nd_manifest S) \<noteq> None"
          using h old f by (auto simp: needed_def pull_def split: option.splits)
        then obtain q where "q \<in> set (m_files (nd_manifest S))" "d_file_id q = h" using get_file_Some by blast
        then show ?thesis using fresh unfolding fresh_ids_def by (metis imageI)
      qed
      ultimately show "rel_option same_core (get_file v h (nd_manifest S)) (get_file v h (nd_manifest T))
          \<and> chunk_view root T h = chunk_view root S h"
        using r(2) [of h v] by (simp add: option.rel_refl)
    qed
    then show ?thesis using old by simp
  qed
qed

section \<open>Compaction\<close>

lemma repoint_each_effect:
  assumes "manifest_inv M" "old \<noteq> new" "repoint_each u old new es M = (Ok (), M')"
  shows "repacked ((pe_file_id \<circ> fst) ` set es) M M' {}"
    "e \<in> set es \<Longrightarrow> \<exists>row. get_file u (pe_file_id (fst e)) M = Some row \<and> f_pack_id row = Some old"
    "e \<in> set es \<Longrightarrow> \<exists>row. get_file u (pe_file_id (fst e)) M' = Some row \<and> f_pack_id row = Some new
       \<and> f_pack_offset row = Some (sint (fst (snd e))) \<and> f_pack_len row = Some (sint (snd (snd e)))"
proof -
  have "repacked ((pe_file_id \<circ> fst) ` set es) M M' {}
    \<and> (\<forall>e \<in> set es. \<exists>row. get_file u (pe_file_id (fst e)) M = Some row \<and> f_pack_id row = Some old)
    \<and> (\<forall>e \<in> set es. \<exists>row. get_file u (pe_file_id (fst e)) M' = Some row \<and> f_pack_id row = Some new
       \<and> f_pack_offset row = Some (sint (fst (snd e))) \<and> f_pack_len row = Some (sint (snd (snd e))))"
    using assms(1,3)
  proof (induction es arbitrary: M)
    case Nil
    then show ?case by (auto intro!: repacked_refl)
  next
    case (Cons x es)
    obtain e off len where x: "x = (e, off, len)" by (cases x)
    let ?id = "pe_file_id e" and ?ids = "(pe_file_id \<circ> fst) ` set es"
    from Cons.prems(2) obtain row b M2 where row: "get_file u ?id M = Some row" "f_pack_id row = Some old"
      and a: "assign_to_pack u ?id new (sint off) (sint len) M = (Ok b, M2)"
      and rest: "repoint_each u old new es M2 = (Ok (), M')"
      by (auto simp: x sbind_Ok_iff split: option.splits if_splits)
    note ae = assign_effect [OF Cons.prems(1) a row(1)]
    from Cons.IH [OF repackedD(1) [OF ae(1)] rest] have
      R2: "repacked ?ids M2 M' {}"
      and pre: "\<And>e. e \<in> set es \<Longrightarrow> \<exists>row. get_file u (pe_file_id (fst e)) M2 = Some row \<and> f_pack_id row = Some old"
      and post: "\<And>e. e \<in> set es \<Longrightarrow> \<exists>row. get_file u (pe_file_id (fst e)) M' = Some row \<and> f_pack_id row = Some new
       \<and> f_pack_offset row = Some (sint (fst (snd e))) \<and> f_pack_len row = Some (sint (snd (snd e)))"
      by blast+
    have fresh: "?id \<notin> ?ids" using pre ae(2) assms(2) by fastforce
    have "repacked ((pe_file_id \<circ> fst) ` set (x # es)) M M' {}"
      using repacked_trans [OF ae(1) R2] by (simp add: x)
    moreover have "\<exists>row. get_file u ?id M' = Some row \<and> f_pack_id row = Some new
       \<and> f_pack_offset row = Some (sint off) \<and> f_pack_len row = Some (sint len)"
      using repackedD(4) [OF R2 fresh] ae(2) by simp
    moreover have "\<exists>row. get_file u (pe_file_id (fst q)) M = Some row \<and> f_pack_id row = Some old" if q: "q \<in> set es" for q
    proof -
      have "pe_file_id (fst q) \<noteq> ?id" using q fresh by (metis comp_apply imageI)
      then show ?thesis using pre [OF q] repackedD(4) [OF ae(1), of "pe_file_id (fst q)" u] by simp
    qed
    ultimately show ?case using post row x by auto
  qed
  then show "repacked ((pe_file_id \<circ> fst) ` set es) M M' {}"
    "e \<in> set es \<Longrightarrow> \<exists>row. get_file u (pe_file_id (fst e)) M = Some row \<and> f_pack_id row = Some old"
    "e \<in> set es \<Longrightarrow> \<exists>row. get_file u (pe_file_id (fst e)) M' = Some row \<and> f_pack_id row = Some new
       \<and> f_pack_offset row = Some (sint (fst (snd e))) \<and> f_pack_len row = Some (sint (snd (snd e)))"
    by blast+
qed

text \<open>Dropping a file from the index and its local shards from the disk: what the rest reads.\<close>

lemma dropped_view:
  assumes inv: "node_inv U" and x: "x \<in> set (m_files (nd_manifest U))"
    and p: "purge_file_row (d_user_id x) (d_file_id x) (nd_manifest U) = (Ok frags, M3)"
    and d: "purge_local_collect_remote root frags (nd_disk U) = (remote, D)"
    and h: "h \<noteq> d_file_id x"
  shows "get_file v h M3 = get_file v h (nd_manifest U)"
    "chunk_view root \<lparr>nd_manifest = M3, nd_disk = D\<rparr> h = chunk_view root U h"
proof -
  let ?M = "nd_manifest U" and ?fid = "d_file_id x"
  have M3: "M3 = delete_files (\<lambda>r. d_user_id r = d_user_id x \<and> d_file_id r = ?fid) ?M"
    and fr: "frags = file_fragments (d_user_id x) ?fid ?M"
    using p by (auto simp: purge_file_row_def)
  note del = delete_one_file [OF inv x]
  have t: "m_files M3 = filter (\<lambda>r. d_file_id r \<noteq> ?fid) (m_files ?M)"
    "m_chunks M3 = filter (\<lambda>c. c_file_id c \<noteq> ?fid) (m_chunks ?M)"
    "m_shards M3 = filter (\<lambda>s. s \<notin> set (file_shards ?fid ?M)) (m_shards ?M)"
    unfolding M3 del by simp_all
  show "get_file v h M3 = get_file v h ?M" by (rule get_file_purged [OF h t(1)])
  have ks: "fst ` set frags = s_fragment_id ` set (file_shards ?fid ?M)"
    unfolding fr file_fragments_shards [OF inv x] by (simp add: image_image)
  have "store_read root D k = store_read root (nd_disk U) k"
    if "k \<notin> s_fragment_id ` set (file_shards ?fid ?M)" for k
  proof (rule store_read_cong)
    have D: "D = cs.remove_all root (map fst (filter (\<lambda>f. snd f = ''local'') frags)) (nd_disk U)"
      using d by (simp add: purge_local_disk)
    have "k \<notin> set (map fst (filter (\<lambda>f. snd f = ''local'') frags))" using that ks by auto
    then show "shard_bytes root D k = shard_bytes root (nd_disk U) k" unfolding D by (rule cs.remove_all_other)
    show "read_fault D = read_fault (nd_disk U)"
      using remove_all_faults [of "nd_disk U"] by (simp add: D same_faults_def)
  qed
  from chunk_view_purged [OF inv h t(2,3) this]
  have "chunk_view root \<lparr>nd_manifest = M3, nd_disk = D\<rparr> h
      = chunk_view root \<lparr>nd_manifest = nd_manifest U, nd_disk = nd_disk U\<rparr> h" .
  moreover have "\<lparr>nd_manifest = nd_manifest U, nd_disk = nd_disk U\<rparr> = U" by simp
  ultimately show "chunk_view root \<lparr>nd_manifest = M3, nd_disk = D\<rparr> h = chunk_view root U h" by (simp only:)
qed

lemma missing_member_None:
  assumes "missing_member (pack_members u old M) survivors = None"
    and "get_file u g M = Some f" "f_pack_id f = Some old"
  shows "g \<in> pe_file_id ` set survivors"
proof -
  obtain r where r: "r \<in> set (m_files M)" "f = map_file r" "d_user_id r = u" "d_file_id r = g"
    using get_file_Some [OF assms(2)] by blast
  then have "f \<in> set (pack_members u old M)" using assms(3) by (auto simp: pack_members_def map_file_def)
  then have "f_file_id f \<in> set (map pe_file_id survivors)"
    using assms(1) by (auto simp: missing_member_def find_None_iff)
  then show ?thesis using r by (simp add: map_file_def)
qed

lemma compact_pack_Ok:
  assumes "compact_pack E ident root rnd now u old survivors S = (Ok r, T)"
  obtains (purged) frags M3 where
    "missing_member (pack_members u old (nd_manifest S)) survivors = None" "survivors = []"
    "get_file u old (nd_manifest S) \<noteq> None"
    "purge_file_row u old (nd_manifest S) = (Ok frags, M3)"
    "T = \<lparr>nd_manifest = M3, nd_disk = snd (purge_local_collect_remote root frags (nd_disk S))\<rparr>"
  | (rewritten) plain ranges M1 stored U frags M3 where
    "missing_member (pack_members u old (nd_manifest S)) survivors = None"
    "get_file u old (nd_manifest S) \<noteq> None" "build_pack survivors = Ok (plain, ranges)"
    "repoint_each u old (mint_file_id E rnd) (zip survivors ranges) (nd_manifest S) = (Ok (), M1)"
    "insert_pack_row E ident root now u (mint_file_id E rnd) plain (S\<lparr>nd_manifest := M1\<rparr>) = (Ok stored, U)"
    "purge_file_row u old (nd_manifest U) = (Ok frags, M3)"
    "T = \<lparr>nd_manifest = M3, nd_disk = snd (purge_local_collect_remote root frags (nd_disk U))\<rparr>"
proof -
  have up: "S\<lparr>nd_manifest := M, nd_disk := D\<rparr> = \<lparr>nd_manifest = M, nd_disk = D\<rparr>" for S :: node and M D
    by (cases S) simp
  from assms obtain frags res V where
    c: "compact_tx E ident root rnd now u old survivors S = (Ok (frags, res), V)"
    and T: "T = V\<lparr>nd_disk := snd (purge_local_collect_remote root frags (nd_disk V))\<rparr>"
    by (auto simp: compact_pack_def sbind_Ok_iff Let_def case_prod_beta)
  show ?thesis
  proof (cases "survivors = []")
    case True
    with c have g: "get_file u old (nd_manifest S) \<noteq> None"
      "missing_member (pack_members u old (nd_manifest S)) survivors = None"
      "\<exists>M. purge_file_row u old (nd_manifest S) = (Ok frags, M) \<and> V = S\<lparr>nd_manifest := M\<rparr>"
      by (auto simp: compact_tx_def sbind_Ok_iff on_db_Ok split: option.splits if_splits)
    then obtain M where M: "purge_file_row u old (nd_manifest S) = (Ok frags, M)" "V = S\<lparr>nd_manifest := M\<rparr>" by blast
    show ?thesis by (rule purged [OF g(2) True g(1) M(1)]) (use T M(2) up in simp)
  next
    case False
    with c have g: "get_file u old (nd_manifest S) \<noteq> None"
      "missing_member (pack_members u old (nd_manifest S)) survivors = None"
      by (auto simp: compact_tx_def split: option.splits if_splits)
    from c False obtain plain ranges M1 stored U M where
      b: "build_pack survivors = Ok (plain, ranges)"
      and m: "repoint_each u old (mint_file_id E rnd) (zip survivors ranges) (nd_manifest S) = (Ok (), M1)"
      and i: "insert_pack_row E ident root now u (mint_file_id E rnd) plain (S\<lparr>nd_manifest := M1\<rparr>) = (Ok stored, U)"
      and q: "purge_file_row u old (nd_manifest U) = (Ok frags, M)" "V = U\<lparr>nd_manifest := M\<rparr>"
      by (auto simp: compact_tx_def sbind_Ok_iff on_db_Ok Let_def split: option.splits if_splits)
    show ?thesis by (rule rewritten [OF g(2,1) b m i q(1)]) (use T q(2) up in simp)
  qed
qed

lemma repoint_ids:
  "repoint_each u old new es M = (Ok (), M') \<Longrightarrow> map d_file_id (m_files M') = map d_file_id (m_files M)"
proof (induction es arbitrary: M)
  case (Cons x es)
  obtain e off len where x: "x = (e, off, len)" by (cases x)
  from Cons.prems obtain b M2 where a: "assign_to_pack u (pe_file_id e) new (sint off) (sint len) M = (Ok b, M2)"
    and rest: "repoint_each u old new es M2 = (Ok (), M')"
    by (auto simp: x sbind_Ok_iff split: option.splits if_splits)
  have "map d_file_id (m_files M2) = map d_file_id (m_files M)" unfolding assign_to_pack_Ok [OF a] by simp
  then show ?case using Cons.IH [OF rest] by simp
qed simp

lemma dropped_pull:
  assumes "node_inv U" "x \<in> set (m_files (nd_manifest U))"
    and "purge_file_row (d_user_id x) (d_file_id x) (nd_manifest U) = (Ok frags, M3)"
    and "T = \<lparr>nd_manifest = M3, nd_disk = snd (purge_local_collect_remote root frags (nd_disk U))\<rparr>"
    and "d_file_id x \<notin> needed v g (nd_manifest U)"
  shows "pull E ident root v g T = pull E ident root v g U"
proof (rule pull_cong)
  fix h assume "h \<in> needed v g (nd_manifest U)"
  then have h: "h \<noteq> d_file_id x" using assms(5) by blast
  obtain remote D where d: "purge_local_collect_remote root frags (nd_disk U) = (remote, D)" by fastforce
  from dropped_view [OF assms(1,2,3) d h]
  show "rel_option same_core (get_file v h (nd_manifest U)) (get_file v h (nd_manifest T))
      \<and> chunk_view root T h = chunk_view root U h"
    using assms(4) d by (simp add: option.rel_refl)
qed

text \<open>The state between writing the new pack and dropping the old one.\<close>

lemma rewritten_reads:
  assumes laws: "aead_correct E" "zstd_lossless E"
    and st: "node_inv S" "read_fault (nd_disk S) = (\<lambda>_. None)"
    and b: "build_pack survivors = Ok (plain, ranges)" "length plain < 2 ^ 63"
    and old: "get_file u old (nd_manifest S) = Some oldf"
    and m: "repoint_each u old (mint_file_id E rnd) (zip survivors ranges) (nd_manifest S) = (Ok (), M1)"
    and ins: "insert_pack_row E ident root now u (mint_file_id E rnd) plain (S\<lparr>nd_manifest := M1\<rparr>) = (Ok stored, U)"
  shows "node_inv U" "mint_file_id E rnd \<notin> d_file_id ` set (m_files (nd_manifest S))"
    "\<And>v h. h \<notin> pe_file_id ` set survivors \<Longrightarrow> h \<noteq> mint_file_id E rnd \<Longrightarrow>
       get_file v h (nd_manifest U) = get_file v h (nd_manifest S) \<and> chunk_view root U h = chunk_view root S h"
    "\<And>e. e \<in> set survivors \<Longrightarrow> \<exists>row. get_file u (pe_file_id e) (nd_manifest S) = Some row \<and> f_pack_id row = Some old"
    "\<And>e. e \<in> set survivors \<Longrightarrow> \<exists>row. get_file u (pe_file_id e) (nd_manifest U) = Some row
       \<and> f_pack_id row = Some (mint_file_id E rnd) \<and> pull E ident root u (pe_file_id e) U = Ok (pe_data e)"
proof -
  let ?pid = "mint_file_id E rnd" and ?ids = "pe_file_id ` set survivors"
  have len: "length ranges = length survivors" using build_pack_Ok(1) [OF b(1)] by simp
  have z: "(pe_file_id \<circ> fst) ` set (zip survivors ranges) = ?ids"
    using len by (metis image_comp list.set_map map_fst_zip)
  from ins obtain cs M2 where
    pr: "process_v2 E plain (id_data_key ident) (as_bytes u) (as_bytes ?pid) (PipelineConfig_default E) = Ok cs"
    and i0: "insert_file (pushed_row E ?pid now u (pack_key ?pid) plain (length cs) (chunks_disk_cost cs) ?pid)
        (nd_manifest (S\<lparr>nd_manifest := M1\<rparr>)) = (Ok (), M2)"
    and w0: "write_chunk_rows E root ?pid cs \<lparr>nd_manifest = M2, nd_disk = nd_disk (S\<lparr>nd_manifest := M1\<rparr>)\<rparr> = (Ok (), U)"
    by (rule insert_pack_row_Ok)
  have i: "insert_file (pushed_row E ?pid now u (pack_key ?pid) plain (length cs) (chunks_disk_cost cs) ?pid) M1 = (Ok (), M2)"
    and w: "write_chunk_rows E root ?pid cs \<lparr>nd_manifest = M2, nd_disk = nd_disk S\<rparr> = (Ok (), U)"
    using i0 w0 by simp_all
  have ids1: "d_file_id ` set (m_files M1) = d_file_id ` set (m_files (nd_manifest S))"
    using repoint_ids [OF m] by (metis set_map)
  have "?pid \<notin> d_file_id ` set (m_files M1)" using insert_file_Ok [OF i] by (auto simp: pushed_row_def)
  then show pid: "?pid \<notin> d_file_id ` set (m_files (nd_manifest S))" using ids1 by simp
  then have ne: "old \<noteq> ?pid" using get_file_Some [OF old] by (metis imageI)
  note me = repoint_each_effect [OF st(1) ne m]
  note R = me(1) [unfolded z]
  note ir = inserted_reads [OF laws repackedD(1) [OF R] st(2) b(2) pr i w]
  show "node_inv U" by (rule ir(4))
  show "get_file v h (nd_manifest U) = get_file v h (nd_manifest S) \<and> chunk_view root U h = chunk_view root S h"
    if h: "h \<notin> ?ids" "h \<noteq> ?pid" for v h
    using ir(3) [OF h(2), of v] repackedD(4) [OF R h(1), of v] repacked_view [OF R h(1), of root "nd_disk S"]
    by (simp add: chunk_view_def shard_reads_def)
  fix e assume "e \<in> set survivors"
  then obtain k where k: "k < length survivors" "survivors ! k = e" by (auto simp: in_set_conv_nth)
  then have mem: "(e, ranges ! k) \<in> set (zip survivors ranges)" using len by (metis length_zip min.idem nth_mem nth_zip)
  show "\<exists>row. get_file u (pe_file_id e) (nd_manifest S) = Some row \<and> f_pack_id row = Some old"
    using me(2) [OF mem] by auto
  from me(3) [OF mem] obtain row where row: "get_file u (pe_file_id e) M1 = Some row" "f_pack_id row = Some ?pid"
    "f_pack_offset row = Some (sint (fst (ranges ! k)))" "f_pack_len row = Some (sint (snd (ranges ! k)))"
    by auto
  obtain pf where pf: "get_file u ?pid (nd_manifest U) = Some pf" "f_pack_id pf = None"
    "pull_contained E ident root U pf = Ok plain" using ir(1) by blast
  have gp: "pe_file_id e \<noteq> ?pid" using get_file_Some [OF row(1)] ir(2) by (metis imageI)
  have gU: "get_file u (pe_file_id e) (nd_manifest U) = Some row" using ir(3) [OF gp, of u] row(1) by simp
  have "member_slice plain row = Ok (pe_data e)"
    using build_pack_slice [OF b k(1) row(3,4)] k(2) by simp
  then show "\<exists>row. get_file u (pe_file_id e) (nd_manifest U) = Some row
       \<and> f_pack_id row = Some ?pid \<and> pull E ident root u (pe_file_id e) U = Ok (pe_data e)"
    using gU pf row(2) by (simp add: pull_def)
qed

text \<open>A file of the old pack, as long as it could be read, is one of the survivors.\<close>

lemma carried_over:
  assumes "manifest_inv (nd_manifest S)" "missing_member (pack_members u old (nd_manifest S)) survivors = None"
    and "get_file u old (nd_manifest S) \<noteq> None"
    and "pull E ident root v g S = Ok c" "get_file v g (nd_manifest S) = Some f" "f_pack_id f = Some old"
  shows "g \<in> pe_file_id ` set survivors"
proof -
  have "get_file v old (nd_manifest S) \<noteq> None" using assms(4-6) by (auto simp: pull_def)
  with assms(3) have "v = u" using get_file_row_user [OF assms(1)] by (metis not_None_eq)
  then show ?thesis using missing_member_None [OF assms(2) _ assms(6)] assms(5) by simp
qed

lemma compacted_same_content:
  assumes laws: "aead_correct E" "zstd_lossless E"
    and st: "node_inv S" "read_fault (nd_disk S) = (\<lambda>_. None)"
    and small: "\<forall>plain ranges. build_pack survivors = Ok (plain, ranges) \<longrightarrow> length plain < 2 ^ 63"
    and data: "\<forall>e \<in> set survivors. pull E ident root u (pe_file_id e) S = Ok (pe_data e)"
    and p: "compact_pack E ident root rnd now u old survivors S = (Ok r, T)"
    and g: "pull E ident root v g S = Ok c" "g \<noteq> old"
  shows "pull E ident root v g T = Ok c"
proof -
  obtain f where f: "get_file v g (nd_manifest S) = Some f" using g(1) by (auto simp: pull_def)
  note carried = carried_over [OF st(1) _ _ g(1) f]
  from p show ?thesis
  proof (cases rule: compact_pack_Ok)
    case (purged frags M3)
    then obtain x where x: "x \<in> set (m_files (nd_manifest S))" "d_user_id x = u" "d_file_id x = old"
      using get_file_Some by blast
    have "old \<notin> needed v g (nd_manifest S)"
      using g(2) carried [OF purged(1,3)] purged(2) f by (auto simp: needed_def)
    then have "pull E ident root v g T = pull E ident root v g S"
      by (rule dropped_pull [OF st(1) x(1), unfolded x(2,3), OF purged(4,5)])
    then show ?thesis using g(1) by simp
  next
    case (rewritten plain ranges M1 stored U frags M3)
    let ?pid = "mint_file_id E rnd" and ?ids = "pe_file_id ` set survivors"
    obtain oldf where old: "get_file u old (nd_manifest S) = Some oldf" using rewritten(2) by blast
    note rr = rewritten_reads [OF laws st rewritten(3) small [rule_format, OF rewritten(3)] old rewritten(4,5)]
    have exists_S: "h \<noteq> ?pid" if "get_file v h (nd_manifest S) \<noteq> None" for v h
      using that get_file_Some rr(2) by (metis imageI not_None_eq)
    have inner: "f_pack_id oldf = Some old" if "old \<in> ?ids"
      using that rr(4) old by fastforce
    have oldid: "old \<notin> ?ids"
      using inner data old by (auto simp: pull_def)
    then have "get_file u old (nd_manifest U) = Some oldf" using rr(3) [of old u] exists_S [of u old] old by simp
    then obtain x where x: "x \<in> set (m_files (nd_manifest U))" "d_user_id x = u" "d_file_id x = old"
      using get_file_Some by metis
    note dp = dropped_pull [OF rr(1) x(1), unfolded x(2,3), OF rewritten(6,7), where E = E and ident = ident]
    show ?thesis
    proof (cases "g \<in> ?ids")
      case True
      then obtain e where e: "e \<in> set survivors" "g = pe_file_id e" by auto
      obtain row0 where "get_file u g (nd_manifest S) = Some row0" using rr(4) [OF e(1)] e(2) by auto
      from get_file_row_user [OF st(1) this] f have v: "v = u" by simp
      obtain row where row: "get_file u g (nd_manifest U) = Some row" "f_pack_id row = Some ?pid"
        "pull E ident root u g U = Ok (pe_data e)" using rr(5) [OF e(1)] e(2) by auto
      have "old \<noteq> ?pid" using exists_S old by blast
      then have "old \<notin> needed u g (nd_manifest U)" using g(2) row(1,2) by (simp add: needed_def)
      then show ?thesis using dp v data e g(1) row(3) by simp
    next
      case False
      then have np: "f_pack_id f \<noteq> Some old" using carried [OF rewritten(1,2)] by blast
      have same: "get_file v h (nd_manifest U) = get_file v h (nd_manifest S) \<and> chunk_view root U h = chunk_view root S h"
        if h: "h \<in> needed v g (nd_manifest S)" for h
      proof (rule rr(3))
        have ex: "get_file v h (nd_manifest S) \<noteq> None"
          using h g(1) f by (auto simp: needed_def pull_def split: option.splits)
        then show "h \<noteq> ?pid" by (rule exists_S)
        show "h \<notin> ?ids"
        proof
          assume "h \<in> ?ids"
          then obtain row where row: "get_file u h (nd_manifest S) = Some row" "f_pack_id row = Some old"
            using rr(4) by auto
          have "f_pack_id f = Some h" using False h f \<open>h \<in> ?ids\<close> by (auto simp: needed_def)
          moreover have "get_file v h (nd_manifest S) = Some row"
            using get_file_row_user [OF st(1) row(1) ex] row(1) by simp
          ultimately show False using g(1) f row(2) by (simp add: pull_def)
        qed
      qed
      have "pull E ident root v g U = pull E ident root v g S"
        by (rule pull_cong) (simp add: same option.rel_refl)
      moreover have "old \<notin> needed v g (nd_manifest U)"
        using same [of g] g(2) np f by (simp add: needed_def)
      ultimately show ?thesis using dp g(1) by simp
    qed
  qed
qed


lemma insert_pack_row_total:
  assumes laws: "hkdf_total E" "aead_correct E" "blake3_len E" "hex_correct E"
    and rs: "\<forall>c. \<exists>rec. rs_encode E DATA_SHARDS PARITY_SHARDS (data_shard_list c) = Ok rec \<and> length rec = PARITY_SHARDS"
    and st: "manifest_inv (nd_manifest S)" "no_faults (nd_disk S)"
    and free: "\<forall>r \<in> set (m_files (nd_manifest S)). (d_user_id r, d_path r) \<noteq> (u, pack_key pid)"
    and ids: "fresh_ids E pid (div_ceil (length plain) DEFAULT_CHUNK_SIZE) (nd_manifest S)"
    and n: "div_ceil (length plain) DEFAULT_CHUNK_SIZE \<le> 2 ^ 32"
  shows "\<exists>stored T. insert_pack_row E ident root now u pid plain S = (Ok stored, T)"
proof -
  from processed_total [OF laws(1,2) rs n, of "id_data_key ident" "as_bytes u" "as_bytes pid"] obtain cs where
    p: "process_v2 E plain (id_data_key ident) (as_bytes u) (as_bytes pid) (PipelineConfig_default E) = Ok cs"
    and len: "length cs = div_ceil (length plain) DEFAULT_CHUNK_SIZE"
    and c: "map pc_index cs = [0..<length cs]" "\<forall>c \<in> set cs. all_written c" by blast
  from inserted_total [OF st(1) free st(2) ids [folded len] laws(3,4) c, of now plain pid root] obtain T where
    "sbind (on_db (insert_file (pushed_row E pid now u (pack_key pid) plain (length cs) (chunks_disk_cost cs) pid)))
      (\<lambda>_. write_chunk_rows E root pid cs) S = (Ok (), T)" by auto
  then show ?thesis
    using p by (auto simp: insert_pack_row_def Let_def sbind_Ok_iff on_db_Ok pushed_row_def)
qed

section \<open>The invariant\<close>

lemma preserves_pack_each [preserve]: "preserves manifest_inv (pack_each u pid es freed frags)"
proof (induction es arbitrary: freed frags)
  case (Cons x es)
  obtain e off len where x: "x = (e, off, len)" by (cases x)
  have "preserves manifest_inv (sbind (strip_file_chunks u (pe_file_id e)) (\<lambda>gone.
      sbind (assign_to_pack u (pe_file_id e) pid (sint off) (sint len)) (\<lambda>_. pack_each u pid es n (frags @ gone))))" for n
    by (intro preserve Cons)
  then show ?case
    by (fastforce intro!: preservesI dest: preservesD simp: x split: option.splits if_splits)
qed (simp add: preserves_def)

lemma preserves_repoint_each [preserve]: "preserves manifest_inv (repoint_each u old new es)"
proof (induction es)
  case (Cons x es)
  obtain e off len where x: "x = (e, off, len)" by (cases x)
  have "preserves manifest_inv (sbind (assign_to_pack u (pe_file_id e) new (sint off) (sint len)) (\<lambda>_.
      repoint_each u old new es))"
    by (intro preserve Cons)
  then show ?case
    by (fastforce intro!: preservesI dest: preservesD simp: x split: option.splits if_splits)
qed (simp add: preserves_def)

lemma preserves_insert_pack_row [preserve]: "preserves node_inv (insert_pack_row E ident root now u pid plain)"
  unfolding insert_pack_row_def Let_def by (intro preserve)

lemma preserves_pack_files [preserve]: "preserves node_inv (pack_files E ident root rnd now u entries)"
  unfolding pack_files_def Let_def [of "mint_file_id E rnd"] by (intro preserve)

lemma preserves_compact_tx [preserve]: "preserves node_inv (compact_tx E ident root rnd now u old survivors)"
proof (rule preservesI)
  fix S r T assume S: "node_inv S" and c: "compact_tx E ident root rnd now u old survivors S = (r, T)"
  have run: "node_inv T" if "m S = (r, T)" "preserves node_inv m" for m :: "(remote_shard list \<times> pack_result) node_op"
    by (rule preservesD [OF that(2) S that(1)])
  show "node_inv T"
  proof (cases "get_file u old (nd_manifest S)")
    case None
    then show ?thesis using c S by (simp add: compact_tx_def)
  next
    case (Some oldf)
    let ?m = "missing_member (pack_members u old (nd_manifest S)) survivors"
    consider "\<not> is_pack oldf" | x where "is_pack oldf" "?m = Some x" | "is_pack oldf" "?m = None" by fastforce
    then show ?thesis
    proof cases
      case 3
      show ?thesis
      proof (cases "survivors = []")
        case True
        from c [unfolded compact_tx_def] Some 3 True show ?thesis by (simp, elim run) (intro preserve)
      next
        case False
        from c [unfolded compact_tx_def Let_def] Some 3 False show ?thesis by (simp, elim run) (intro preserve)
      qed
    qed (use Some c S in \<open>simp_all add: compact_tx_def\<close>)
  qed
qed

lemma preserves_compact_pack [preserve]: "preserves node_inv (compact_pack E ident root rnd now u old survivors)"
  unfolding compact_pack_def by (intro preserve)

lemma preserves_repack_groups [preserve]: "preserves node_inv (repack_groups E ident root src n u gs rep)"
proof (induction gs arbitrary: n rep)
  case (Cons g gs)
  have "preserves node_inv (\<lambda>S. sbind (slift (read_entries E ident root u g S)) (\<lambda>entries.
     sbind (pack_files E ident root (fst (src n)) (snd (src n)) u entries) (\<lambda>r.
     repack_groups E ident root src (Suc n) u gs (k entries r))) S)" for k
    by (rule preserves_at [where f = "\<lambda>S. sbind (slift (read_entries E ident root u g S)) (\<lambda>entries.
     sbind (pack_files E ident root (fst (src n)) (snd (src n)) u entries) (\<lambda>r.
     repack_groups E ident root src (Suc n) u gs (k entries r)))"]) (intro preserve Cons)
  then show ?case by (simp add: preserves_def)
qed (simp add: preserves_def)

lemma preserves_repack_small_files [preserve]: "preserves node_inv (repack_small_files E ident root src u)"
  unfolding repack_small_files_def
  by (rule preserves_at [where f = "\<lambda>S. repack_groups E ident root src 0 u
       (plan_packs (packable_files u (int SMALL_MAX) (nd_manifest S)) (int PACK_TARGET)) RepackReport_default"])
     (intro preserve)

section \<open>Properties\<close>

text \<open>C27. Packing loses nothing. When the entries are the contents of the files they name and no file
  reads through one of them, a pack that was written leaves every readable file of the node readable,
  with the same bytes: the members now as ranges of the pack, whose own shards must not share an id
  with a shard of the index.\<close>

theorem pack_files_keep_content:
  assumes "aead_correct E" "zstd_lossless E"
    and "manifest_inv (nd_manifest S)" "read_fault (nd_disk S) = (\<lambda>_. None)"
    and "build_pack entries = Ok (plain, ranges)" "length plain < 2 ^ 63"
    and "fresh_ids E (mint_file_id E rnd) (div_ceil (length plain) DEFAULT_CHUNK_SIZE) (nd_manifest S)"
    and "\<forall>e \<in> set entries. pull E ident root u (pe_file_id e) S = Ok (pe_data e)"
    and "\<forall>v g f. get_file v g (nd_manifest S) = Some f \<longrightarrow> f_pack_id f \<notin> Some ` pe_file_id ` set entries"
    and "pack_files E ident root rnd now u entries S = (Ok r, T)"
  shows "manifest_inv (nd_manifest T)
    \<and> (\<forall>v g c. pull E ident root v g S = Ok c \<longrightarrow> pull E ident root v g T = Ok c)"
  using packed_same_content [OF assms] packed_reads(3) [OF assms(1-7,10)] by blast

text \<open>C28. Compaction loses nothing. When the survivors carry the bytes of the files they name, a
  compaction that returned leaves every file readable as before, except the old container itself: a
  row of the pack that the caller forgot would have aborted it.\<close>

theorem compact_pack_keeps_content:
  assumes "aead_correct E" "zstd_lossless E"
    and "manifest_inv (nd_manifest S)" "read_fault (nd_disk S) = (\<lambda>_. None)"
    and "\<forall>plain ranges. build_pack survivors = Ok (plain, ranges) \<longrightarrow> length plain < 2 ^ 63"
    and "\<forall>e \<in> set survivors. pull E ident root u (pe_file_id e) S = Ok (pe_data e)"
    and "compact_pack E ident root rnd now u old survivors S = (Ok r, T)"
  shows "\<forall>v g c. pull E ident root v g S = Ok c \<longrightarrow> g \<noteq> old \<longrightarrow> pull E ident root v g T = Ok c"
  using compacted_same_content [OF assms] by blast

section \<open>A run\<close>

text \<open>Two empty files of one user, packed together; then the pack compacted around both.\<close>

definition empty_file_row :: "string \<Rightarrow> string \<Rightarrow> db_file" where
  "empty_file_row fid path =
     \<lparr>d_file_id = fid, d_user_id = ''u'', d_path = path, d_size = 0, d_stored_bytes = 0,
      d_chunk_count = 0, d_created_at = ''1'', d_retired_path = None, d_deleted_at = None,
      d_superseded_at = None, d_lineage = Some fid, d_key_scheme = 2, d_content_hash = None,
      d_pack_id = None, d_pack_offset = None, d_pack_len = None\<rparr>"

definition two_files :: node where
  "two_files =
     \<lparr>nd_manifest = \<lparr>m_files = [empty_file_row ''x'' ''a'', empty_file_row ''y'' ''b''],
                     m_chunks = [], m_shards = [], m_folders = []\<rparr>,
      nd_disk = healthy_disk\<rparr>"

definition two_entries :: "pack_entry list" where
  "two_entries = [\<lparr>pe_file_id = ''x'', pe_data = []\<rparr>, \<lparr>pe_file_id = ''y'', pe_data = []\<rparr>]"


definition packed_files :: node where
  "packed_files =
     \<lparr>nd_manifest = \<lparr>m_files = [(empty_file_row ''p'' (pack_key ''p''))\<lparr>d_lineage := Some ''p''\<rparr>,
          (empty_file_row ''x'' ''a'')\<lparr>d_pack_id := Some ''p'', d_pack_offset := Some 0, d_pack_len := Some 0\<rparr>,
          (empty_file_row ''y'' ''b'')\<lparr>d_pack_id := Some ''p'', d_pack_offset := Some 0, d_pack_len := Some 0\<rparr>],
                     m_chunks = [], m_shards = [], m_folders = []\<rparr>,
      nd_disk = healthy_disk\<rparr>"

lemmas run_defs = two_files_def packed_files_def two_entries_def empty_file_row_def

lemma two_files_ok: "node_inv two_files" "no_faults (nd_disk two_files)" "node_inv packed_files" "no_faults (nd_disk packed_files)"
  by (simp_all add: run_defs manifest_inv_def uniq_paths_def row_ok_def retired_def no_faults_def healthy_disk_def
      pack_key_def PACK_PATH_PREFIX_def)

lemma demo_pid: "mint_file_id demo_env [7] = ''07''"
  by (simp add: mint_file_id_def demo_env_def) code_simp

lemma two_entries_pack:
  "\<exists>plain. build_pack two_entries = Ok (plain, [(0, 0), (0, 0)]) \<and> length plain = 54"
  by (simp add: build_pack_def two_entries_def index_record_def Let_def PACK_MAGIC_def)

lemma empty_contained:
  assumes "f_size f = 0" "f_key_scheme f = 2" "get_chunks (f_file_id f) (nd_manifest S) = []"
  shows "pull_contained demo_env demo_identity root S f = Ok []"
proof -
  obtain c where "FileCipher_new demo_env (id_data_key demo_identity) V2 (as_bytes (f_user_id f)) (as_bytes (f_file_id f))
      (word_of_int (f_chunk_count f)) = Ok c"
    using FileCipher_new_total [OF demo_hkdf_total] by metis
  then have "file_cipher_of demo_env demo_identity f = Ok c"
    using assms(2) by (simp add: file_cipher_of_def from_i64_def)
  then show ?thesis using assms by (simp add: pull_contained_def)
qed

lemma run_reads:
  assumes "e \<in> set two_entries"
  shows "pull demo_env demo_identity root ''u'' (pe_file_id e) two_files = Ok (pe_data e)"
    "pull demo_env demo_identity root ''u'' (pe_file_id e) packed_files = Ok (pe_data e)"
  using assms
  by (auto simp: run_defs pull_def get_file_def optional_row_def map_file_def get_chunks_def member_slice_def
      empty_contained)

lemma run_fresh:
  "fresh_ids demo_env ''07'' (div_ceil 54 DEFAULT_CHUNK_SIZE) (nd_manifest two_files)"
  "fresh_ids demo_env ''07'' (div_ceil 54 DEFAULT_CHUNK_SIZE) (nd_manifest packed_files)"
  using demo_fragment_ids
  by (simp_all add: fresh_ids_def run_defs div_ceil_def DEFAULT_CHUNK_SIZE_def)

lemma run_writes:
  assumes "S = \<lparr>nd_manifest = M, nd_disk = healthy_disk\<rparr>" "manifest_inv M" "length plain = 54"
    and "''07'' \<notin> d_file_id ` set (m_files M)" "m_chunks M = []" "m_shards M = []"
    and "\<forall>r \<in> set (m_files M). d_path r \<noteq> pack_key ''07''"
  shows "\<exists>stored T. insert_pack_row demo_env demo_identity root now ''u'' ''07'' plain S = (Ok stored, T)"
  by (rule insert_pack_row_total [OF demo_hkdf_total demo_aead_correct demo_blake3_len demo_hex_correct demo_rs_total])
     (use assms demo_fragment_ids in \<open>simp_all add: fresh_ids_def div_ceil_def DEFAULT_CHUNK_SIZE_def no_faults_def
        healthy_disk_def\<close>)

lemma pack_run_tables:
  "\<exists>freed frags M1. pack_each ''u'' ''07'' (zip two_entries [(0, 0), (0, 0)]) 0 [] (nd_manifest two_files)
      = (Ok (freed, frags), M1) \<and> map d_path (m_files M1) = [''a'', ''b''] \<and> map d_file_id (m_files M1) = [''x'', ''y'']
      \<and> m_chunks M1 = [] \<and> m_shards M1 = []"
    by (simp add: run_defs get_file_def optional_row_def map_file_def strip_file_chunks_def delete_chunks_def
        assign_to_pack_def update_files_def sbind_def Let_def uniq_paths_def sreturn_def)

lemma repoint_run_tables:
  "\<exists>M1. repoint_each ''u'' ''p'' ''07'' (zip two_entries [(0, 0), (0, 0)]) (nd_manifest packed_files) = (Ok (), M1)
      \<and> map d_path (m_files M1) = [pack_key ''p'', ''a'', ''b''] \<and> map d_file_id (m_files M1) = [''p'', ''x'', ''y'']
      \<and> m_chunks M1 = [] \<and> m_shards M1 = []"
    by (simp add: run_defs get_file_def optional_row_def map_file_def pack_key_def PACK_PATH_PREFIX_def
        assign_to_pack_def update_files_def sbind_def Let_def uniq_paths_def sreturn_def)

lemma free_pack_path:
  assumes "list_all (\<lambda>p. p \<noteq> pack_key ''07'') (map d_path fs)" "''07'' \<notin> set (map d_file_id fs)"
  shows "\<forall>r \<in> set fs. d_path r \<noteq> pack_key ''07''" "''07'' \<notin> d_file_id ` set fs"
  using assms by (simp_all add: list_all_iff)

lemma pack_run:
  "\<exists>r T. pack_files demo_env demo_identity [''d''] [7] ''t'' ''u'' two_entries two_files = (Ok r, T)"
proof -
  obtain plain where b: "build_pack two_entries = Ok (plain, [(0, 0), (0, 0)])" "length plain = 54"
    using two_entries_pack by blast
  from pack_run_tables obtain freed frags M1 where
    m: "pack_each ''u'' ''07'' (zip two_entries [(0, 0), (0, 0)]) 0 [] (nd_manifest two_files) = (Ok (freed, frags), M1)"
    and t: "map d_path (m_files M1) = [''a'', ''b'']" "map d_file_id (m_files M1) = [''x'', ''y'']"
      "m_chunks M1 = []" "m_shards M1 = []" by (elim exE conjE) (rule that)
  have inv: "manifest_inv M1"
    using pack_each_effect(1) [OF two_files_ok(1) m] repackedD(1) by blast
  have f: "\<forall>r \<in> set (m_files M1). d_path r \<noteq> pack_key ''07''" "''07'' \<notin> d_file_id ` set (m_files M1)"
    by (rule free_pack_path; simp only: t; simp add: pack_key_def PACK_PATH_PREFIX_def)+
  obtain stored U where
    i: "insert_pack_row demo_env demo_identity [''d''] ''t'' ''u'' ''07'' plain \<lparr>nd_manifest = M1, nd_disk = healthy_disk\<rparr> = (Ok stored, U)"
    using run_writes [OF refl inv b(2) f(2) t(3,4) f(1)] by blast
  have S: "two_files\<lparr>nd_manifest := M1\<rparr> = \<lparr>nd_manifest = M1, nd_disk = healthy_disk\<rparr>" by (simp add: two_files_def)
  have "two_entries \<noteq> []" by (simp add: two_entries_def)
  then show ?thesis
    using b(1) m i unfolding S [symmetric]
    by (simp add: pack_files_def demo_pid slift_def sbind_def transaction_def on_db_def Let_def sreturn_def case_prod_beta)
qed

lemma compact_run:
  "\<exists>r T. compact_pack demo_env demo_identity [''d''] [7] ''t'' ''u'' ''p'' two_entries packed_files = (Ok r, T)"
proof -
  obtain plain where b: "build_pack two_entries = Ok (plain, [(0, 0), (0, 0)])" "length plain = 54"
    using two_entries_pack by blast
  from repoint_run_tables obtain M1 where
    m: "repoint_each ''u'' ''p'' ''07'' (zip two_entries [(0, 0), (0, 0)]) (nd_manifest packed_files) = (Ok (), M1)"
    and t: "map d_path (m_files M1) = [pack_key ''p'', ''a'', ''b'']" "map d_file_id (m_files M1) = [''p'', ''x'', ''y'']"
      "m_chunks M1 = []" "m_shards M1 = []" by (elim exE conjE) (rule that)
  have inv: "manifest_inv M1"
    by (rule repackedD(1) [OF repoint_each_effect(1) [OF two_files_ok(3) _ m]]) simp
  have f: "\<forall>r \<in> set (m_files M1). d_path r \<noteq> pack_key ''07''" "''07'' \<notin> d_file_id ` set (m_files M1)"
    by (rule free_pack_path; simp only: t; simp add: pack_key_def PACK_PATH_PREFIX_def)+
  obtain stored U where
    i: "insert_pack_row demo_env demo_identity [''d''] ''t'' ''u'' ''07'' plain \<lparr>nd_manifest = M1, nd_disk = healthy_disk\<rparr> = (Ok stored, U)"
    using run_writes [OF refl inv b(2) f(2) t(3,4) f(1)] by blast
  have S: "packed_files\<lparr>nd_manifest := M1\<rparr> = \<lparr>nd_manifest = M1, nd_disk = healthy_disk\<rparr>" by (simp add: packed_files_def)
  obtain oldf where o: "get_file ''u'' ''p'' (nd_manifest packed_files) = Some oldf" "is_pack oldf"
    by (simp add: run_defs get_file_def optional_row_def map_file_def is_pack_def pack_key_def coalesce_def)
  have mm: "missing_member (pack_members ''u'' ''p'' (nd_manifest packed_files)) two_entries = None"
    by (simp add: missing_member_def pack_members_def run_defs map_file_def)
  have "two_entries \<noteq> []" by (simp add: two_entries_def)
  then show ?thesis
    using b(1) m i o mm unfolding S [symmetric]
    by (simp add: compact_pack_def compact_tx_def demo_pid slift_def sbind_def transaction_def on_db_def
        Let_def sreturn_def case_prod_beta purge_file_row_def)
qed

theorem pack_files_keep_content_witness:
  "\<exists>r T. pack_files demo_env demo_identity [''d''] [7] ''t'' ''u'' two_entries two_files = (Ok r, T)
     \<and> pull demo_env demo_identity [''d''] ''u'' ''x'' T = Ok []"
proof -
  obtain r T where p: "pack_files demo_env demo_identity [''d''] [7] ''t'' ''u'' two_entries two_files = (Ok r, T)"
    using pack_run by blast
  obtain plain where b: "build_pack two_entries = Ok (plain, [(0, 0), (0, 0)])" "length plain = 54"
    using two_entries_pack by blast
  have np: "\<forall>v g f. get_file v g (nd_manifest two_files) = Some f \<longrightarrow> f_pack_id f \<notin> Some ` pe_file_id ` set two_entries"
  proof (intro allI impI)
    fix v g f assume "get_file v g (nd_manifest two_files) = Some f"
    from get_file_Some [OF this] have "f_pack_id f = None" by (auto simp: run_defs map_file_def)
    then show "f_pack_id f \<notin> Some ` pe_file_id ` set two_entries" by simp
  qed
  have rf: "read_fault (nd_disk two_files) = (\<lambda>_. None)" using two_files_ok(2) by (simp add: no_faults_def)
  have fr: "fresh_ids demo_env (mint_file_id demo_env [7]) (div_ceil (length plain) DEFAULT_CHUNK_SIZE) (nd_manifest two_files)"
    unfolding demo_pid b(2) by (rule run_fresh(1))
  have l: "length plain < 2 ^ 63" by (simp add: b(2))
  have d: "\<forall>e \<in> set two_entries. pull demo_env demo_identity [''d''] ''u'' (pe_file_id e) two_files = Ok (pe_data e)"
    using run_reads(1) by blast
  have "pull demo_env demo_identity [''d''] ''u'' ''x'' two_files = Ok []"
    using run_reads(1) [of "\<lparr>pe_file_id = ''x'', pe_data = []\<rparr>" "[''d'']"] by (simp add: two_entries_def)
  with pack_files_keep_content [OF demo_aead_correct demo_zstd_lossless two_files_ok(1) rf b(1) l fr d np p] p
  show ?thesis by blast
qed

theorem compact_pack_keeps_content_witness:
  "\<exists>r T. compact_pack demo_env demo_identity [''d''] [7] ''t'' ''u'' ''p'' two_entries packed_files = (Ok r, T)
     \<and> pull demo_env demo_identity [''d''] ''u'' ''x'' T = Ok []"
proof -
  obtain r T where p: "compact_pack demo_env demo_identity [''d''] [7] ''t'' ''u'' ''p'' two_entries packed_files = (Ok r, T)"
    using compact_run by blast
  obtain plain where b: "build_pack two_entries = Ok (plain, [(0, 0), (0, 0)])" "length plain = 54"
    using two_entries_pack by blast
  have l: "\<forall>pl rs. build_pack two_entries = Ok (pl, rs) \<longrightarrow> length pl < 2 ^ 63" using b by simp
  have rf: "read_fault (nd_disk packed_files) = (\<lambda>_. None)" using two_files_ok(4) by (simp add: no_faults_def)
  have d: "\<forall>e \<in> set two_entries. pull demo_env demo_identity [''d''] ''u'' (pe_file_id e) packed_files = Ok (pe_data e)"
    using run_reads(2) by blast
  have "pull demo_env demo_identity [''d''] ''u'' ''x'' packed_files = Ok []"
    using run_reads(2) [of "\<lparr>pe_file_id = ''x'', pe_data = []\<rparr>" "[''d'']"] by (simp add: two_entries_def)
  moreover have "''x'' \<noteq> ''p''" by simp
  ultimately have "pull demo_env demo_identity [''d''] ''u'' ''x'' T = Ok []"
    using compact_pack_keeps_content [OF demo_aead_correct demo_zstd_lossless two_files_ok(3) rf l d p] by blast
  then show ?thesis using p by blast
qed

end
