(* ===== verification/StoreProps.thy ===== *)
theory StoreProps
  imports Repack
begin

text \<open>
  The properties of the storage service beyond storing and reading: the invariant over every
  sequence of operations, that operations on metadata change no content, the trash, the purges, and
  what a rename does with a path that SQL reads as a pattern.
\<close>

section \<open>Sequences of operations\<close>

text \<open>One call of the service, whatever it returns.\<close>

inductive service_step :: "'f env \<Rightarrow> node_identity \<Rightarrow> file_path \<Rightarrow> node \<Rightarrow> node \<Rightarrow> bool"
  for E ident root where
  step_push: "push E ident root rnd now u path data S = (r, T) \<Longrightarrow> service_step E ident root S T"
| step_trash: "on_db (trash now u fid) S = (r, T) \<Longrightarrow> service_step E ident root S T"
| step_trash_path: "on_db (trash_path now u path) S = (r, T) \<Longrightarrow> service_step E ident root S T"
| step_restore: "on_db (service_restore now u fid new_path) S = (r, T) \<Longrightarrow> service_step E ident root S T"
| step_purge: "purge_file root u fid S = (r, T) \<Longrightarrow> service_step E ident root S T"
| step_empty_trash: "empty_trash root u S = (r, T) \<Longrightarrow> service_step E ident root S T"
| step_purge_retired: "purge_retired root days_ago policy S = (r, T) \<Longrightarrow> service_step E ident root S T"
| step_mkdir: "on_db (mkdir u path) S = (r, T) \<Longrightarrow> service_step E ident root S T"
| step_rename: "on_db (rename u src dst) S = (r, T) \<Longrightarrow> service_step E ident root S T"
| step_pack: "pack_files E ident root rnd now u entries S = (r, T) \<Longrightarrow> service_step E ident root S T"
| step_compact: "compact_pack E ident root rnd now u old survivors S = (r, T) \<Longrightarrow> service_step E ident root S T"
| step_repack: "repack_small_files E ident root src u S = (r, T) \<Longrightarrow> service_step E ident root S T"
| step_set_location: "on_db (set_location frag loc) S = (r, T) \<Longrightarrow> service_step E ident root S T"

lemma trash_path_inv: "preserves manifest_inv (trash_path now u path)"
  by (intro preserves_trash_path preserve)

lemma restore_inv: "preserves manifest_inv (service_restore now u fid new_path)"
  by (intro preserves_restore preserve)

lemma mkdir_inv: "preserves manifest_inv (mkdir u path)"
  by (intro preserves_mkdir preserve)

lemma rename_inv: "preserves manifest_inv (rename u src dst)"
  by (intro preserves_rename preserve preserves_rename_body_inv)

lemma set_location_inv: "preserves manifest_inv (set_location frag loc)"
  unfolding set_location_def by (intro preserve)

lemma on_db_inv: "preserves manifest_inv m \<Longrightarrow> node_inv S \<Longrightarrow> on_db m S = (r, T) \<Longrightarrow> node_inv T"
  by (rule preservesD [OF preserves_on_db])

lemmas service_inv =
  preserves_push [THEN preservesD] preserves_purge_file [THEN preservesD]
  preserves_pack_files [THEN preservesD] preserves_compact_pack [THEN preservesD]
  preserves_repack_small_files [THEN preservesD] preserves_empty_trash [THEN preservesD] preserves_purge_retired [THEN preservesD]
  on_db_inv [OF preserves_trash(1)] on_db_inv [OF trash_path_inv] on_db_inv [OF restore_inv]
  on_db_inv [OF mkdir_inv] on_db_inv [OF rename_inv] on_db_inv [OF set_location_inv]

lemma service_step_inv:
  assumes "service_step E ident root S T" "node_inv S"
  shows "node_inv T"
  using assms
  by cases (rule service_inv; assumption)+

section \<open>A concrete node\<close>

text \<open>Three versions of one path and a second file, as rows without content, and one shard.\<close>

definition demo_row :: "string \<Rightarrow> string \<Rightarrow> string \<Rightarrow> db_file" where
  "demo_row fid path at =
     \<lparr>d_file_id = fid, d_user_id = ''u'', d_path = path, d_size = 5, d_stored_bytes = 14,
      d_chunk_count = 1, d_created_at = at, d_retired_path = None, d_deleted_at = None,
      d_superseded_at = None, d_lineage = Some ''v1'', d_key_scheme = 2, d_content_hash = None,
      d_pack_id = None, d_pack_offset = None, d_pack_len = None\<rparr>"

definition demo_old :: "string \<Rightarrow> string \<Rightarrow> db_file" where
  "demo_old fid at =
     (demo_row fid (retired_key fid) at)\<lparr>d_retired_path := Some ''a'', d_superseded_at := Some ''7''\<rparr>"

definition demo_w :: db_file where
  "demo_w = (demo_row ''w'' ''b'' ''4'')\<lparr>d_lineage := Some ''w''\<rparr>"

definition demo_manifest :: manifest where
  "demo_manifest =
     \<lparr>m_files = [demo_old ''v1'' ''1'', demo_old ''v2'' ''2'', demo_row ''v3'' ''a'' ''3'',
                 demo_w],
      m_chunks = [\<lparr>c_chunk_id = ''v1:0'', c_file_id = ''v1'', c_idx = 0, c_nonce = [],
                   c_is_compressed = False, c_plaintext_len = 5, c_cipher_len = 21, c_shard_len = 4\<rparr>],
      m_shards = [\<lparr>s_fragment_id = replicate 32 (CHR ''a''), s_chunk_id = ''v1:0'', s_shard_index = 0,
                   s_location = ''local'', s_hash = []\<rparr>],
      m_folders = []\<rparr>"

lemma demo_manifest_inv: "manifest_inv demo_manifest"
  by (simp add: demo_manifest_def demo_w_def manifest_inv_def demo_old_def demo_row_def row_ok_def retired_def
      uniq_paths_def retired_key_def RETIRED_PATH_PREFIX_def)

definition demo_node :: node where
  "demo_node = \<lparr>nd_manifest = demo_manifest, nd_disk = healthy_disk\<rparr>"

lemma on_db_pull:
  assumes "preserves (meta_same (nd_manifest S)) m"
  shows "pull E ident root v g (snd (on_db m S)) = pull E ident root v g S"
proof -
  obtain r M where m: "m (nd_manifest S) = (r, M)" by fastforce
  from preservesD [OF assms _ this] have "meta_same (nd_manifest S) M" by simp
  then show ?thesis using m by (simp add: on_db_def meta_same_pull)
qed

lemma freed_list_lookup:
  "map_of (freed_list cands m) u = (if u \<in> fst ` set cands then m u else None)"
proof -
  have "map_of (List.map_filter (\<lambda>u. map_option (\<lambda>(s, st). (u, s, st)) (m u)) us) u
      = (if u \<in> set us then m u else None)" for us
    by (induction us) (auto simp: map_filter_simps split: option.splits)
  then show ?thesis unfolding freed_list_def by simp
qed

section \<open>Properties\<close>

text \<open>How many versions survive. Of the superseded versions of one file, the rule that keeps
  \<open>keep\<close> versions leaves exactly the smaller of \<open>keep\<close> and their number, and every version it leaves
  is newer than every version it drops.\<close>

theorem newest_versions_kept:
  assumes "manifest_inv M" "0 \<le> keep"
  shows "length (filter (\<lambda>r. cand_of r \<notin> set (superseded_beyond keep M)) (superseded_of u l M))
       = min (nat keep) (length (superseded_of u l M))
    \<and> (\<forall>r q. r \<in> set (superseded_of u l M) \<longrightarrow> q \<in> set (superseded_of u l M)
        \<longrightarrow> cand_of r \<notin> set (superseded_beyond keep M) \<longrightarrow> cand_of q \<in> set (superseded_beyond keep M)
        \<longrightarrow> (d_created_at q, d_file_id q) < (d_created_at r, d_file_id r))"
proof -
  define rows where "rows = superseded_of u l M"
  define bad where "bad = set (superseded_beyond keep M)"
  define A where "A = version_key ` set rows"
  define n where "n = (\<lambda>x. card {y \<in> A. x < y})"
  have kept: "cand_of r \<notin> bad \<longleftrightarrow> n (version_key r) < nat keep" if "r \<in> set rows" for r
    using beyond_iff [OF assms(1), of r u l keep] that assms(2)
    unfolding bad_def n_def A_def rows_def by (simp add: not_less) linarith
  have d: "distinct (map version_key rows)"
    unfolding rows_def by (rule superseded_of_distinct(2) [OF assms(1)])
  have cardA: "card A = length rows" unfolding A_def using distinct_card [OF d] by simp
  have "distinct (map version_key (filter (\<lambda>r. cand_of r \<notin> bad) rows))" using d by (rule distinct_map_filter)
  then have "length (filter (\<lambda>r. cand_of r \<notin> bad) rows) = card (version_key ` set (filter (\<lambda>r. cand_of r \<notin> bad) rows))"
    using distinct_card by fastforce
  also have "version_key ` set (filter (\<lambda>r. cand_of r \<notin> bad) rows) = {x \<in> A. n x < nat keep}"
    unfolding A_def using kept by auto
  also have "card \<dots> = min (nat keep) (length rows)"
    unfolding n_def cardA [symmetric] by (rule count_above) (simp add: A_def)
  finally have len: "length (filter (\<lambda>r. cand_of r \<notin> bad) rows) = min (nat keep) (length rows)" .
  have newer: "version_key q < version_key r"
    if "r \<in> set rows" "q \<in> set rows" "cand_of r \<notin> bad" "cand_of q \<in> bad" for r q
  proof (rule ccontr)
    assume "\<not> version_key q < version_key r"
    then have "{y \<in> A. version_key q < y} \<subseteq> {y \<in> A. version_key r < y}" by auto
    then have "n (version_key q) \<le> n (version_key r)" unfolding n_def by (intro card_mono) (simp add: A_def)
    with kept [OF that(1)] kept [OF that(2)] that(3,4) show False by simp
  qed
  show ?thesis
    using len newer unfolding rows_def bad_def version_key_def by blast
qed


theorem newest_versions_kept_witness:
  "length (filter (\<lambda>r. cand_of r \<notin> set (superseded_beyond 1 demo_manifest)) (superseded_of ''u'' ''v1'' demo_manifest)) = 1"
proof -
  have "length (superseded_of ''u'' ''v1'' demo_manifest) = 2"
    by (simp add: superseded_of_def demo_manifest_def demo_w_def demo_old_def demo_row_def coalesce_def)
  then show ?thesis
    using newest_versions_kept [OF demo_manifest_inv, of 1 "''u''" "''v1''"] by simp
qed

text \<open>C6. The index stays sound. Along every sequence of calls of the service, whatever each returns
  (stores, trashing a file or a folder, restores, purges, retention sweeps, packing and compaction, new
  folders, renames, moves of shards), the manifest keeps its keys, its foreign keys and the link between a row's state
  and the path it is parked under.\<close>

theorem service_keeps_invariant:
  assumes "manifest_inv (nd_manifest S)" "(service_step E ident root)\<^sup>*\<^sup>* S T"
  shows "manifest_inv (nd_manifest T)"
  using assms(2,1) by (induction rule: rtranclp_induct) (auto intro: service_step_inv)

theorem service_keeps_invariant_witness:
  "\<exists>r T U. push demo_env demo_identity [''d''] [7] ''t'' ''u'' ''a.txt'' [1, 2, 3] fresh_node = (Ok r, T)
     \<and> on_db (trash ''t2'' ''u'' (pr_file_id r)) T = U \<and> manifest_inv (nd_manifest (snd U))"
proof -
  have "\<exists>r T. push demo_env demo_identity [''d''] [7] ''t'' ''u'' ''a.txt'' [1, 2, 3] fresh_node = (Ok r, T)
    \<and> \<not> pr_unchanged r"
    by (rule push_total [OF demo_hkdf_total demo_aead_correct demo_blake3_len demo_hex_correct demo_rs_total
        fresh_node_ok(1-3) _ demo_fresh_ids [folded demo_one_chunk]])
       (simp_all add: demo_one_chunk [simplified] fresh_node_ok(5) visible_path_def)
  then obtain r T where p: "push demo_env demo_identity [''d''] [7] ''t'' ''u'' ''a.txt'' [1, 2, 3] fresh_node = (Ok r, T)"
    by blast
  let ?U = "on_db (trash ''t2'' ''u'' (pr_file_id r)) T"
  have "service_step demo_env demo_identity [''d''] fresh_node T" by (rule step_push [OF p])
  moreover have "service_step demo_env demo_identity [''d''] T (snd ?U)"
    by (rule step_trash [where r = "fst ?U"]) simp
  ultimately have "(service_step demo_env demo_identity [''d''])\<^sup>*\<^sup>* fresh_node (snd ?U)" by simp
  from service_keeps_invariant [OF fresh_node_ok(1) this] p show ?thesis by blast
qed

text \<open>C15. Operations on metadata change no content: after trashing a file or a folder, restoring,
  making a folder or renaming, whatever the call returned, every file of every user reads exactly as
  it did before, to the same bytes or to the same error.\<close>

theorem metadata_ops_keep_content:
  "pull E ident root v g (snd (on_db (trash now u fid) S)) = pull E ident root v g S
   \<and> pull E ident root v g (snd (on_db (trash_path now u path) S)) = pull E ident root v g S
   \<and> pull E ident root v g (snd (on_db (service_restore now u fid new_path) S)) = pull E ident root v g S
   \<and> pull E ident root v g (snd (on_db (mkdir u path) S)) = pull E ident root v g S
   \<and> pull E ident root v g (snd (on_db (rename u src dst) S)) = pull E ident root v g S"
proof -
  have "preserves (meta_same (nd_manifest S)) (trash_path now u path)" by (intro preserves_trash_path preserve)
  moreover have "preserves (meta_same (nd_manifest S)) (service_restore now u fid new_path)"
    by (intro preserves_restore preserve)
  moreover have "preserves (meta_same (nd_manifest S)) (mkdir u path)" by (intro preserves_mkdir preserve)
  moreover have "preserves (meta_same (nd_manifest S)) (rename u src dst)"
    by (intro preserves_rename preserve preserves_rename_body_meta)
  ultimately show ?thesis using preserves_trash(2) by (simp add: on_db_pull)
qed




text \<open>C10. Permanent deletion is exact. Purging a file removes its row, its chunks and its shards from
  the index and every local copy of its shards from the disk, reports precisely the shards that other
  peers hold, and leaves every file that does not read through it as it was.\<close>

theorem purge_file_exact:
  assumes "manifest_inv (nd_manifest S)" "no_faults (nd_disk S)" "x \<in> set (m_files (nd_manifest S))"
  shows "\<exists>remote T. purge_file root (d_user_id x) (d_file_id x) S = (Ok (map_file x, remote), T)
    \<and> get_file (d_user_id x) (d_file_id x) (nd_manifest T) = None
    \<and> get_chunks (d_file_id x) (nd_manifest T) = []
    \<and> remote = map (\<lambda>s. (s_fragment_id s, s_location s))
        (filter (\<lambda>s. s_location s \<noteq> ''local'') (file_shards (d_file_id x) (nd_manifest S)))
    \<and> (\<forall>s. s \<in> set (file_shards (d_file_id x) (nd_manifest S)) \<longrightarrow>
        s \<notin> set (m_shards (nd_manifest T))
        \<and> (s_location s = ''local'' \<longrightarrow> \<not> store_exists root (nd_disk T) (s_fragment_id s)))
    \<and> (\<forall>v g. d_file_id x \<notin> needed v g (nd_manifest S) \<longrightarrow> pull E ident root v g T = pull E ident root v g S)"
proof -
  let ?fid = "d_file_id x" and ?M = "nd_manifest S"
  let ?M' = "?M\<lparr>m_files := filter (\<lambda>r. d_file_id r \<noteq> ?fid) (m_files ?M),
               m_chunks := filter (\<lambda>c. c_file_id c \<noteq> ?fid) (m_chunks ?M),
               m_shards := filter (\<lambda>s. s \<notin> set (file_shards ?fid ?M)) (m_shards ?M)\<rparr>"
  let ?ks = "map s_fragment_id (filter (\<lambda>s. s_location s = ''local'') (file_shards ?fid ?M))"
  let ?T = "\<lparr>nd_manifest = ?M', nd_disk = cs.remove_all root ?ks (nd_disk S)\<rparr>"
  have gone: "\<not> store_exists root (nd_disk ?T) (s_fragment_id s)"
    if "s \<in> set (file_shards ?fid ?M)" "s_location s = ''local''" for s
    using remove_all_local [of "nd_disk S" "s_fragment_id s" ?ks root] that assms(2)
    by (simp add: store_exists_iff no_faults_def)
  have rd: "store_read root (nd_disk ?T) k = store_read root (nd_disk S) k"
    if "k \<notin> s_fragment_id ` set (file_shards ?fid ?M)" for k
  proof (rule store_read_cong)
    show "shard_bytes root (nd_disk ?T) k = shard_bytes root (nd_disk S) k"
      using that by (simp, intro cs.remove_all_other) auto
    show "read_fault (nd_disk ?T) = read_fault (nd_disk S)"
      using remove_all_faults [of "nd_disk S" root ?ks] by (simp add: same_faults_def)
  qed
  have S: "\<lparr>nd_manifest = ?M, nd_disk = nd_disk S\<rparr> = S" by simp
  have others: "pull E ident root v g ?T = pull E ident root v g S" if n: "?fid \<notin> needed v g ?M" for v g
  proof (rule pull_cong)
    fix h assume "h \<in> needed v g ?M"
    with n have h: "h \<noteq> ?fid" by blast
    have "get_file v h ?M' = get_file v h ?M" by (rule get_file_purged [OF h]) simp
    moreover have "chunk_view root ?T h = chunk_view root S h"
      using chunk_view_purged [OF assms(1) h, of ?M' root "nd_disk ?T" "nd_disk S"] rd by (simp add: S)
    ultimately show "rel_option same_core (get_file v h ?M) (get_file v h (nd_manifest ?T))
        \<and> chunk_view root ?T h = chunk_view root S h"
      by (simp add: option.rel_refl)
  qed
  have none: "get_file (d_user_id x) ?fid ?M' = None" "get_chunks ?fid ?M' = []"
    by (simp_all add: get_file_def optional_row_def get_chunks_def)
  have m: "filter (\<lambda>f. snd f \<noteq> ''local'') (map (\<lambda>s. (s_fragment_id s, s_location s)) ss)
      = map (\<lambda>s. (s_fragment_id s, s_location s)) (filter (\<lambda>s. s_location s \<noteq> ''local'') ss)" for ss
    by (induction ss) auto
  have shape: "purge_file root (d_user_id x) ?fid S
      = (Ok (map_file x, map (\<lambda>s. (s_fragment_id s, s_location s))
          (filter (\<lambda>s. s_location s \<noteq> ''local'') (file_shards ?fid ?M))), ?T)"
    by (simp only: purge_file_effect [OF assms(1,3)] m)
  have rows: "s \<notin> set (m_shards (nd_manifest ?T))" if "s \<in> set (file_shards ?fid ?M)" for s
    using that by simp
  show ?thesis
    by (rule exI, rule exI [where x = ?T], intro conjI allI impI, rule shape)
       ((simp only: none others node.select_convs; fail) | (erule others; fail) | (erule rows; fail) | (erule gone, assumption))+
qed

theorem purge_file_exact_witness:
  "\<exists>T. purge_file [''d''] ''u'' ''v1'' demo_node = (Ok (map_file (demo_old ''v1'' ''1''), []), T)
    \<and> get_chunks ''v1'' (nd_manifest T) = []
    \<and> pull demo_env demo_identity [''d''] ''u'' ''w'' T = pull demo_env demo_identity [''d''] ''u'' ''w'' demo_node"
proof -
  have d: "d_user_id (demo_old ''v1'' ''1'') = ''u''" "d_file_id (demo_old ''v1'' ''1'') = ''v1''"
    "demo_old ''v1'' ''1'' \<in> set (m_files (nd_manifest demo_node))"
    by (simp_all add: demo_old_def demo_row_def demo_node_def demo_manifest_def)
  have f: "filter (\<lambda>s. s_location s \<noteq> ''local'') (file_shards ''v1'' (nd_manifest demo_node)) = []"
    by (simp add: file_shards_def demo_node_def demo_manifest_def)
  have n: "''v1'' \<notin> needed ''u'' ''w'' (nd_manifest demo_node)"
    by (simp add: needed_def get_file_def optional_row_def demo_node_def demo_manifest_def demo_w_def demo_old_def
        demo_row_def map_file_def)
  have nf: "no_faults (nd_disk demo_node)" by (simp add: demo_node_def no_faults_def healthy_disk_def)
  have inv: "manifest_inv (nd_manifest demo_node)" by (simp add: demo_node_def demo_manifest_inv)
  from purge_file_exact [OF inv nf d(3), of "[''d'']" demo_env demo_identity] n show ?thesis
    unfolding d f by auto
qed


lemma freed_list_users: "distinct (map fst (freed_list cands m))"
proof -
  have "distinct (map fst (List.map_filter (\<lambda>u. map_option (\<lambda>(s, st). (u, s, st)) (m u)) us)) \<and>
      fst ` set (List.map_filter (\<lambda>u. map_option (\<lambda>(s, st). (u, s, st)) (m u)) us) \<subseteq> set us" if "distinct us" for us
    using that by (induction us) (auto simp: List.map_filter_simps split: option.splits)
  from this [of "sort (remdups (map fst cands))"] show ?thesis by (simp add: freed_list_def)
qed

lemma purge_retired_run:
  assumes "manifest_inv (nd_manifest S)"
  shows "\<exists>rep T. purge_retired root days_ago policy S = (Ok rep, T)
    \<and> m_files (nd_manifest T)
        = filter (\<lambda>r. \<not> expired days_ago policy (nd_manifest S) r) (m_files (nd_manifest S))
    \<and> filter LIVE (m_files (nd_manifest T)) = filter LIVE (m_files (nd_manifest S))
    \<and> pu_files rep = length (filter (expired days_ago policy (nd_manifest S)) (m_files (nd_manifest S)))
    \<and> (\<forall>u. coalesce (map_of (pu_freed rep) u) (0, 0) =
        (let gone = filter (\<lambda>r. expired days_ago policy (nd_manifest S) r \<and> d_user_id r = u) (m_files (nd_manifest S))
         in (sum_list (map d_size gone), sum_list (map d_stored_bytes gone))))
    \<and> distinct (map fst (pu_freed rep))"
proof -
  let ?M = "nd_manifest S"
  let ?exp = "expired days_ago policy ?M" and ?cands = "sweep_candidates days_ago policy ?M"
  let ?ids = "(fst \<circ> snd) ` set ?cands - sw_seen sweep_start"
  have ids: "?ids = d_file_id ` {r \<in> set (m_files ?M). ?exp r}"
    by (auto simp: sweep_candidates_set sweep_start_def cand_of_def image_iff)
  have mem: "d_file_id r \<in> ?ids \<longleftrightarrow> ?exp r" if "r \<in> set (m_files ?M)" for r
    unfolding ids using inv_file_ids [OF assms that] that by auto
  have rows: "sweep_rows ?ids ?M = filter ?exp (m_files ?M)"
    "filter (\<lambda>r. d_file_id r \<notin> ?ids) (m_files ?M) = filter (\<lambda>r. \<not> ?exp r) (m_files ?M)"
    unfolding sweep_rows_def using mem by (auto intro!: filter_cong)
  have "\<exists>w' M'. sweep_each ?cands sweep_start ?M = (Ok w', M')
    \<and> m_files M' = filter (\<lambda>r. d_file_id r \<notin> ?ids) (m_files ?M)
    \<and> sw_files w' = sw_files sweep_start + length (sweep_rows ?ids ?M)
    \<and> (\<forall>u. coalesce (sw_freed w' u) (0, 0) =
          (fst (coalesce (sw_freed sweep_start u) (0, 0)) + (\<Sum>r\<leftarrow>filter (\<lambda>r. d_user_id r = u) (sweep_rows ?ids ?M). d_size r),
           snd (coalesce (sw_freed sweep_start u) (0, 0)) + (\<Sum>r\<leftarrow>filter (\<lambda>r. d_user_id r = u) (sweep_rows ?ids ?M). d_stored_bytes r)))"
    by (rule sweep_each_effect [OF assms]) (auto simp: sweep_candidates_set sweep_start_def)
  then obtain w M' where w: "sweep_each ?cands sweep_start ?M = (Ok w, M')"
    "m_files M' = filter (\<lambda>r. \<not> ?exp r) (m_files ?M)" "sw_files w = length (filter ?exp (m_files ?M))"
    "\<And>u. coalesce (sw_freed w u) (0, 0) =
       (\<Sum>r\<leftarrow>filter (\<lambda>r. ?exp r \<and> d_user_id r = u) (m_files ?M). d_size r,
        \<Sum>r\<leftarrow>filter (\<lambda>r. ?exp r \<and> d_user_id r = u) (m_files ?M). d_stored_bytes r)"
    unfolding rows by (auto simp: sweep_start_def coalesce_def conj_commute)
  obtain remote D where d: "purge_local_collect_remote root (sw_frags w) (nd_disk S) = (remote, D)" by fastforce
  let ?rep = "\<lparr>pu_files = sw_files w, pu_freed = freed_list ?cands (sw_freed w), pu_remote = remote\<rparr>"
  have run: "purge_retired root days_ago policy S = (Ok ?rep, S\<lparr>nd_manifest := M', nd_disk := D\<rparr>)"
    using w(1) d by (simp add: purge_retired_def sbind_def transaction_def on_db_def Let_def sreturn_def)
  have "LIVE r \<longrightarrow> \<not> ?exp r" for r
    using expired_retired [of days_ago policy ?M r] by (auto simp: LIVE_def retired_def)
  then have live: "filter LIVE (filter (\<lambda>r. \<not> ?exp r) (m_files ?M)) = filter LIVE (m_files ?M)"
    unfolding filter_filter by (intro filter_cong) auto
  have freed: "coalesce (map_of (freed_list ?cands (sw_freed w)) u) (0, 0) = coalesce (sw_freed w u) (0, 0)" for u
  proof (cases "u \<in> fst ` set ?cands")
    case False
    then have "filter (\<lambda>r. ?exp r \<and> d_user_id r = u) (m_files ?M) = []"
      by (auto simp: sweep_candidates_set cand_of_def filter_empty_conv image_iff)
    then show ?thesis using False w(4) [of u] by (simp add: freed_list_lookup coalesce_def)
  qed (simp add: freed_list_lookup)
  show ?thesis
    by (rule exI, rule exI, intro conjI allI, rule run) (simp_all add: w(2,3,4) live freed freed_list_users Let_def del: filter_filter)
qed

text \<open>C11. The retention sweep removes what has expired and nothing else. It always completes; the rows
  left are those that none of the four rules names, in their order; a live file is never among the
  removed; and the report counts the removed rows and adds up, for each user, their sizes and stored
  bytes, a row that two rules name being counted once.\<close>

theorem retention_sweep_exact:
  assumes "manifest_inv (nd_manifest S)"
  shows "\<exists>rep T. purge_retired root days_ago policy S = (Ok rep, T)
    \<and> m_files (nd_manifest T)
        = filter (\<lambda>r. \<not> expired days_ago policy (nd_manifest S) r) (m_files (nd_manifest S))
    \<and> filter LIVE (m_files (nd_manifest T)) = filter LIVE (m_files (nd_manifest S))
    \<and> pu_files rep = length (filter (expired days_ago policy (nd_manifest S)) (m_files (nd_manifest S)))
    \<and> (\<forall>u. coalesce (map_of (pu_freed rep) u) (0, 0) =
        (let gone = filter (\<lambda>r. expired days_ago policy (nd_manifest S) r \<and> d_user_id r = u) (m_files (nd_manifest S))
         in (sum_list (map d_size gone), sum_list (map d_stored_bytes gone))))"
  using purge_retired_run [OF assms, of root days_ago policy] by blast

theorem retention_sweep_exact_witness:
  "\<exists>rep T. purge_retired [''d''] (\<lambda>_. ''0'') \<lparr>rp_trash_days = 30, rp_version_days = 90, rp_keep_versions = 1\<rparr> demo_node = (Ok rep, T)
    \<and> map d_file_id (m_files (nd_manifest T)) = [''v2'', ''v3'', ''w''] \<and> pu_files rep = 1"
proof -
  let ?pol = "\<lparr>rp_trash_days = 30, rp_version_days = 90, rp_keep_versions = 1\<rparr>"
  have e: "expired (\<lambda>_. ''0'') ?pol demo_manifest (demo_old ''v1'' ''1'')"
    "\<not> expired (\<lambda>_. ''0'') ?pol demo_manifest (demo_old ''v2'' ''2'')"
    "\<not> expired (\<lambda>_. ''0'') ?pol demo_manifest (demo_row ''v3'' ''a'' ''3'')"
    "\<not> expired (\<lambda>_. ''0'') ?pol demo_manifest demo_w"
    by (simp_all add: expired_def demo_manifest_def demo_w_def demo_old_def demo_row_def cutoff_def before_cutoff_def
        version_rank_def coalesce_def less_char_def)
  have ids: "d_file_id (demo_old ''v2'' ''2'') = ''v2''" "d_file_id (demo_row ''v3'' ''a'' ''3'') = ''v3''"
    "d_file_id demo_w = ''w''"
    by (simp_all add: demo_w_def demo_old_def demo_row_def)
  have f: "filter (expired (\<lambda>_. ''0'') ?pol demo_manifest) (m_files demo_manifest) = [demo_old ''v1'' ''1'']"
    "filter (\<lambda>r. \<not> expired (\<lambda>_. ''0'') ?pol demo_manifest r) (m_files demo_manifest)
      = [demo_old ''v2'' ''2'', demo_row ''v3'' ''a'' ''3'', demo_w]"
    using e by (simp_all add: demo_manifest_def)
  have n: "nd_manifest demo_node = demo_manifest" by (simp add: demo_node_def)
  from retention_sweep_exact [of demo_node "[''d'']" "\<lambda>_. ''0''" ?pol] demo_manifest_inv show ?thesis
    unfolding n f by (auto simp: ids)
qed

section \<open>Patterns in paths\<close>

text \<open>With no wildcard in it, a subtree pattern means what the code intends, up to ASCII case.\<close>

definition plain_pattern :: "string \<Rightarrow> bool" where
  "plain_pattern p \<longleftrightarrow> CHR ''%'' \<notin> set p \<and> CHR ''_'' \<notin> set p"

lemma like_any: "sql_like ''%'' s"
proof (induction "length s" arbitrary: s rule: less_induct)
  case less
  show ?case
  proof (cases s)
    case (Cons c t)
    have "length (dropWhile is_utf8_cont t) < length s" using Cons by (simp add: length_dropWhile_le le_imp_less_Suc)
    from less [OF this] Cons show ?thesis by (subst sql_like.simps(2)) simp
  qed (simp add: sql_like.simps)
qed

lemma like_plain:
  "plain_pattern p \<Longrightarrow> sql_like (p @ ''%'') s \<longleftrightarrow> map ascii_lower (take (length p) s) = map ascii_lower p"
proof (induction p arbitrary: s)
  case (Cons c p)
  then show ?case
    by (cases s) (auto simp: sql_like.simps(2) plain_pattern_def)
qed (simp add: like_any)

lemma under_plain:
  assumes "plain_pattern path" "sql_like (path @ ''/'' @ ''%'') p"
  shows "length path < length p" "map ascii_lower (take (length path + 1) p) = map ascii_lower (path @ ''/'')"
proof -
  have "plain_pattern (path @ ''/'')" using assms(1) by (simp add: plain_pattern_def)
  from like_plain [OF this, of p] assms(2)
  show e: "map ascii_lower (take (length path + 1) p) = map ascii_lower (path @ ''/'')" by simp
  then have "length (take (length path + 1) p) = length path + 1" by (metis length_append_singleton length_map Suc_eq_plus1)
  then show "length path < length p" by simp
qed

text \<open>A wildcard in a folder name reaches other folders. The folder \<open>a_b\<close> exists and is empty; the
  only file is \<open>axb/n\<close>. Trashing the folder \<open>a_b\<close> trashes that file, because the subtree test puts the
  path into a \<open>LIKE\<close> pattern without escaping it.\<close>

theorem trash_folder_wildcard:
  "let M = \<lparr>m_files = [demo_row ''f'' ''axb/n'' ''1''], m_chunks = [], m_shards = [],
            m_folders = [\<lparr>fo_user_id = ''u'', fo_path = ''a_b'', fo_parent = []\<rparr>]\<rparr>
   in manifest_inv M
      \<and> fst (trash_path ''t'' ''u'' ''a_b'' M) = Ok \<lparr>ts_files = 1, ts_size = 5, ts_stored_bytes = 14\<rparr>
      \<and> map d_deleted_at (m_files (snd (trash_path ''t'' ''u'' ''a_b'' M))) = [Some ''t'']"
  by code_simp

text \<open>A wildcard in the source of a rename brings the process down. The user has the file
  \<open>ab/x\<close>; renaming the folder \<open>a%%%%b\<close> to \<open>c\<close> finds it through the pattern, and slicing its path at
  the length of the source is out of range, which panics.\<close>

theorem rename_wildcard_panics:
  "let M = \<lparr>m_files = [demo_row ''f'' ''ab/x'' ''1''], m_chunks = [], m_shards = [], m_folders = []\<rparr>
   in manifest_inv M \<and> fst (rename ''u'' ''a%%%%b'' ''c'' M) = Panic"
  by code_simp


lemma str_from_under:
  assumes "plain_pattern src" "at_or_under src p"
  shows "str_from p (length src) \<noteq> Panic"
proof (cases "p = src")
  case False
  then have l: "sql_like (src @ ''/'' @ ''%'') p" using assms(2) by (simp add: at_or_under_def)
  note u = under_plain [OF assms(1) l]
  have "map ascii_lower (take (length src + 1) p) ! length src = map ascii_lower (src @ ''/'') ! length src"
    using u(2) by (simp only:)
  then have "ascii_lower (p ! length src) = CHR ''/''"
    using u(1) by (simp add: nth_append ascii_lower_def)
  then have "of_char (p ! length src) < (128 :: nat)"
    by (cases "65 \<le> (of_char (p ! length src) :: nat) \<and> of_char (p ! length src) \<le> (90 :: nat)")
       (auto simp: ascii_lower_def Let_def split: if_splits)
  then show ?thesis using u(1) by (simp add: str_from_def is_utf8_cont_def)
qed (simp add: str_from_def)

lemma sforM_no_panic:
  assumes "\<And>x s. x \<in> set xs \<Longrightarrow> fst (f x s) \<noteq> Panic"
  shows "fst (sforM f xs s) \<noteq> Panic"
  using assms
proof (induction xs arbitrary: s)
  case (Cons x xs)
  obtain r t where r: "f x s = (r, t)" by fastforce
  then show ?case using Cons.prems [of x s] Cons.IH [of t] Cons.prems
    by (cases r) (simp_all add: sbind_def)
qed (simp add: sreturn_def)

lemma sbind_no_panic:
  "fst (m s) \<noteq> Panic \<Longrightarrow> (\<And>x t. fst (k x t) \<noteq> Panic) \<Longrightarrow> fst (sbind m k s) \<noteq> Panic"
  by (auto simp: sbind_def split: prod.splits result.splits)

lemma update_no_panic:
  "fst (update_file_path u fid p M) \<noteq> Panic" "fst (update_folder_path u old new M) \<noteq> Panic"
  "fst (insert_folder u path M) \<noteq> Panic"
  by (simp_all add: update_file_path_def update_files_def update_folder_path_def insert_folder_def Let_def
      sbind_def sreturn_def)

lemma rename_under_no_panic:
  assumes "str_from p (length src) \<noteq> Panic"
  shows "fst (rename_file_under u src dst (fid, p) M) \<noteq> Panic" "fst (rename_folder_under u src dst p M) \<noteq> Panic"
  unfolding rename_file_under_def rename_folder_under_def
  by (rule sbind_no_panic; use assms in \<open>simp add: slift_def update_no_panic\<close>)+

lemma rename_body_no_panic:
  assumes "plain_pattern src"
  shows "fst (rename_body u src dst M) \<noteq> Panic"
proof -
  have "fst (rename_file_under u src dst fp M') \<noteq> Panic" if "fp \<in> set (files_under u src M)" for fp M'
  proof -
    obtain fid p where fp: "fp = (fid, p)" by fastforce
    then have "at_or_under src p" using that by (auto simp: files_under_def)
    then show ?thesis unfolding fp by (intro rename_under_no_panic str_from_under assms)
  qed
  moreover have "fst (rename_folder_under u src dst p M') \<noteq> Panic" if "p \<in> set (folders_under u src M)" for p M'
    using that by (intro rename_under_no_panic str_from_under assms) (auto simp: folders_under_def)
  ultimately have "fst (sbind (sforM (rename_file_under u src dst) (files_under u src M)) (\<lambda>_.
      sbind (sforM (rename_folder_under u src dst) (folders_under u src M)) (\<lambda>_. insert_folder u dst)) M) \<noteq> Panic"
    by (intro sbind_no_panic sforM_no_panic update_no_panic)
  then show ?thesis unfolding rename_body_def by (auto simp: Let_def update_no_panic split: option.splits)
qed

text \<open>Without a wildcard in the source path a rename never panics, whatever the index holds: it
  succeeds, or it reports an error and leaves the index as it was.\<close>

theorem rename_plain_no_panic:
  assumes "plain_pattern (trim_slashes src)"
  shows "(\<exists>M'. rename u src dst M = (Ok (), M')) \<or> (\<exists>e. rename u src dst M = (Err e, M))"
proof -
  let ?m = "sbind (insert_folder u (dirname (trim_slashes dst))) (\<lambda>_. rename_body u (trim_slashes src) (trim_slashes dst))"
  have "fst (?m M) \<noteq> Panic"
    by (intro sbind_no_panic update_no_panic rename_body_no_panic assms)
  moreover obtain r M' where "?m M = (r, M')" by fastforce
  ultimately show ?thesis
    by (cases r) (simp_all add: rename_def Let_def db_transaction_def slift_def)
qed

theorem rename_plain_no_panic_witness:
  "\<exists>M'. rename ''u'' ''/b'' ''c'' demo_manifest = (Ok (), M') \<and> map d_path (m_files M') ! 3 = ''c''"
proof -
  have "plain_pattern (trim_slashes ''/b'')" by code_simp
  from rename_plain_no_panic [OF this, of "''u''" "''c''" demo_manifest]
  show ?thesis
  proof
    assume "\<exists>e. rename ''u'' ''/b'' ''c'' demo_manifest = (Err e, demo_manifest)"
    moreover have "fst (rename ''u'' ''/b'' ''c'' demo_manifest) = Ok ()" by code_simp
    ultimately show ?thesis by auto
  next
    assume "\<exists>M'. rename ''u'' ''/b'' ''c'' demo_manifest = (Ok (), M')"
    moreover have "map d_path (m_files (snd (rename ''u'' ''/b'' ''c'' demo_manifest))) ! 3 = ''c''" by code_simp
    ultimately show ?thesis by force
  qed
qed

text \<open>Repair rebuilds the very shards. From any ten shards of a chunk, \<open>regen_chunk_shards\<close>
  returns all fourteen, byte for byte those that were stored.\<close>

theorem regen_rebuilds_shards:
  assumes "encode E cipher = Ok shards"
    and "rs_recovers E DATA_SHARDS PARITY_SHARDS (take DATA_SHARDS shards) (drop DATA_SHARDS shards)"
    and "S \<subseteq> {..<TOTAL_SHARDS}" "DATA_SHARDS \<le> card S"
  shows "regen_chunk_shards E (map (\<lambda>i. if i \<in> S then Some (shards ! i) else None) [0..<TOTAL_SHARDS]) (length cipher)
    = Ok shards"
  using reconstruct_subset [OF assms] by (simp add: regen_chunk_shards_def assms(1))

theorem regen_rebuilds_shards_witness:
  "\<exists>shards. encode demo_env (replicate 640 7) = Ok shards
     \<and> regen_chunk_shards demo_env
         (map (\<lambda>i. if i \<in> {4..<14} then Some (shards ! i) else None) [0..<TOTAL_SHARDS]) 640 = Ok shards"
  using regen_rebuilds_shards [OF demo_encoded(1,3,4,5)] demo_encoded(1,2) by auto

end
