(* ===== verification/Dht.thy ===== *)
theory Dht
  imports External "HOL-Library.List_Lexorder" "HOL-Library.Product_Lexorder" "HOL-Library.AList"
begin

text \<open>
  \<open>p2p/src/dht.rs\<close>: the discovery overlay. Addresses and the address policy, node ids and their
  distance, the routing table, the bookkeeping per source, and the handler of a datagram with the
  datagrams it sends.

  Time is a natural number of nanoseconds; the readings of the clock made while one call runs are one
  reading, the argument \<open>now\<close>. A call runs to its end before the next (the receive loop handles one
  datagram at a time; the periodic tasks take the same locks). The JSON text of a message is the
  third-party serde's: the handler takes the message it parsed, and \<open>send\<close> hands over the message.
  The text of an IP address is a parameter of the handlers.
\<close>

unbundle bit_operations_syntax

definition secs :: "nat \<Rightarrow> nat" where
  "secs n = n * 10 ^ 9"

definition ID_LEN :: nat where "ID_LEN = 20"
definition K :: nat where "K = 8"
definition K_UNVERIFIED :: nat where "K_UNVERIFIED = 2"
definition MAX_NODES_PER_MSG :: nat where "MAX_NODES_PER_MSG = K"
definition STALE_AFTER :: nat where "STALE_AFTER = secs (15 * 60)"
definition LEARN_PER_WINDOW :: nat where "LEARN_PER_WINDOW = 16"
definition LEARN_WINDOW :: nat where "LEARN_WINDOW = secs 60"
definition PENDING_TTL :: nat where "PENDING_TTL = secs 120"
definition PING_MIN_INTERVAL :: nat where "PING_MIN_INTERVAL = secs 30"
definition VERIFY_BATCH :: nat where "VERIFY_BATCH = 8"
definition MAX_TRACKED_SOURCES :: nat where "MAX_TRACKED_SOURCES = 4096"
definition MAX_PERSIST_NODES :: nat where "MAX_PERSIST_NODES = 512"

lemmas dht_consts [const_simps] =
  ID_LEN_def K_def K_UNVERIFIED_def MAX_NODES_PER_MSG_def LEARN_PER_WINDOW_def
  VERIFY_BATCH_def MAX_TRACKED_SOURCES_def MAX_PERSIST_NODES_def

type_synonym node_id = bytes

section \<open>Addresses\<close>

datatype ip_addr =
    IpV4 byte byte byte byte
  | IpV6 u16 u16 u16 u16 u16 u16 u16 u16

type_synonym sock_addr = "ip_addr \<times> u16"

text \<open>The classification of addresses by \<open>std::net\<close>.\<close>

fun is_unspecified :: "ip_addr \<Rightarrow> bool" where
  "is_unspecified (IpV4 a b c d) \<longleftrightarrow> a = 0 \<and> b = 0 \<and> c = 0 \<and> d = 0"
| "is_unspecified (IpV6 s0 s1 s2 s3 s4 s5 s6 s7) \<longleftrightarrow> list_all (\<lambda>s. s = 0) [s0, s1, s2, s3, s4, s5, s6, s7]"

fun is_loopback :: "ip_addr \<Rightarrow> bool" where
  "is_loopback (IpV4 a b c d) \<longleftrightarrow> a = 127"
| "is_loopback (IpV6 s0 s1 s2 s3 s4 s5 s6 s7) \<longleftrightarrow> list_all (\<lambda>s. s = 0) [s0, s1, s2, s3, s4, s5, s6] \<and> s7 = 1"

fun is_multicast :: "ip_addr \<Rightarrow> bool" where
  "is_multicast (IpV4 a b c d) \<longleftrightarrow> 224 \<le> a \<and> a \<le> 239"
| "is_multicast (IpV6 s0 s1 s2 s3 s4 s5 s6 s7) \<longleftrightarrow> s0 AND 0xff00 = 0xff00"

definition v4_private :: "byte \<Rightarrow> byte \<Rightarrow> bool" where
  "v4_private a b \<longleftrightarrow> a = 10 \<or> (a = 172 \<and> 16 \<le> b \<and> b \<le> 31) \<or> (a = 192 \<and> b = 168)"

definition v4_link_local :: "byte \<Rightarrow> byte \<Rightarrow> bool" where
  "v4_link_local a b \<longleftrightarrow> a = 169 \<and> b = 254"

definition v4_documentation :: "byte \<Rightarrow> byte \<Rightarrow> byte \<Rightarrow> bool" where
  "v4_documentation a b c \<longleftrightarrow>
     (a = 192 \<and> b = 0 \<and> c = 2) \<or> (a = 198 \<and> b = 51 \<and> c = 100) \<or> (a = 203 \<and> b = 0 \<and> c = 113)"

fun is_broadcast :: "ip_addr \<Rightarrow> bool" where
  "is_broadcast (IpV4 a b c d) \<longleftrightarrow> a = 255 \<and> b = 255 \<and> c = 255 \<and> d = 255"
| "is_broadcast (IpV6 _ _ _ _ _ _ _ _) \<longleftrightarrow> False"

definition is_routable_v4 :: "byte \<Rightarrow> byte \<Rightarrow> byte \<Rightarrow> byte \<Rightarrow> bool" where
  "is_routable_v4 a b c d \<longleftrightarrow>
     (let ip = IpV4 a b c d;
          this_network = a = 0;
          cgnat = a = 100 \<and> 64 \<le> b \<and> b < 128;
          benchmarking = a = 198 \<and> (b = 18 \<or> b = 19);
          reserved = a \<ge> 240
      in \<not> (is_unspecified ip \<or> is_loopback ip \<or> v4_private a b \<or> v4_link_local a b
            \<or> is_broadcast ip \<or> is_multicast ip \<or> v4_documentation a b c
            \<or> this_network \<or> cgnat \<or> benchmarking \<or> reserved))"

text \<open>The high and the low byte of a segment.\<close>

definition hi_byte :: "u16 \<Rightarrow> byte" where "hi_byte s = ucast (drop_bit 8 s)"
definition lo_byte :: "u16 \<Rightarrow> byte" where "lo_byte s = ucast s"

definition is_routable_v6 :: "u16 \<Rightarrow> u16 \<Rightarrow> u16 \<Rightarrow> u16 \<Rightarrow> u16 \<Rightarrow> u16 \<Rightarrow> u16 \<Rightarrow> u16 \<Rightarrow> bool" where
  "is_routable_v6 s0 s1 s2 s3 s4 s5 s6 s7 \<longleftrightarrow>
     (if list_all (\<lambda>s. s = 0) [s0, s1, s2, s3, s4] \<and> s5 = 0xffff
      then is_routable_v4 (hi_byte s6) (lo_byte s6) (hi_byte s7) (lo_byte s7)
      else
        let ip = IpV6 s0 s1 s2 s3 s4 s5 s6 s7;
            unique_local = s0 AND 0xfe00 = 0xfc00;
            link_local = s0 AND 0xffc0 = 0xfe80;
            documentation = s0 = 0x2001 \<and> s1 = 0x0db8;
            discard = s0 = 0x0100 \<and> s1 = 0 \<and> s2 = 0 \<and> s3 = 0;
            embedded_v4_or_special = list_all (\<lambda>s. s = 0) [s0, s1, s2, s3, s4, s5]
        in \<not> (is_unspecified ip \<or> is_loopback ip \<or> is_multicast ip \<or> unique_local \<or> link_local
              \<or> documentation \<or> discard \<or> embedded_v4_or_special))"

fun is_routable_ip :: "ip_addr \<Rightarrow> bool" where
  "is_routable_ip (IpV4 a b c d) = is_routable_v4 a b c d"
| "is_routable_ip (IpV6 s0 s1 s2 s3 s4 s5 s6 s7) = is_routable_v6 s0 s1 s2 s3 s4 s5 s6 s7"

definition is_contactable_port :: "u16 \<Rightarrow> bool" where
  "is_contactable_port port \<longleftrightarrow> port \<ge> 1024"

datatype addr_policy = PublicOnly | AllowPrivate

definition AddrPolicy_from_env :: "string option \<Rightarrow> addr_policy" where
  "AddrPolicy_from_env v =
     (if v = Some ''1'' \<or> v = Some ''true'' \<or> v = Some ''yes'' then AllowPrivate else PublicOnly)"

definition accepts_ip :: "addr_policy \<Rightarrow> ip_addr \<Rightarrow> bool" where
  "accepts_ip policy ip =
     (case policy of
        PublicOnly \<Rightarrow> is_routable_ip ip
      | AllowPrivate \<Rightarrow> \<not> (is_unspecified ip \<or> is_multicast ip \<or> is_broadcast ip))"

definition accepts :: "addr_policy \<Rightarrow> ip_addr \<Rightarrow> u16 \<Rightarrow> bool" where
  "accepts policy ip port \<longleftrightarrow> is_contactable_port port \<and> accepts_ip policy ip"

text \<open>\<open>parse\<close> reads an \<open>ip:port\<close> text.\<close>

definition is_routable_peer_addr :: "(string \<Rightarrow> sock_addr option) \<Rightarrow> string \<Rightarrow> bool" where
  "is_routable_peer_addr parse addr =
     (case parse addr of
        Some (ip, port) \<Rightarrow> is_contactable_port port \<and> is_routable_ip ip
      | None \<Rightarrow> False)"

section \<open>Ids and distance\<close>

definition id_from_peer :: "'f env \<Rightarrow> string \<Rightarrow> node_id" where
  "id_from_peer E peer_id = take ID_LEN (blake3 E (as_bytes peer_id))"

definition xor_id :: "node_id \<Rightarrow> node_id \<Rightarrow> node_id" where
  "xor_id a b = map2 (XOR) a b"

definition leading_zeros8 :: "byte \<Rightarrow> nat" where
  "leading_zeros8 b = length (takeWhile (\<lambda>i. \<not> bit b i) [7, 6, 5, 4, 3, 2, 1, 0])"

fun bucket_from :: "nat \<Rightarrow> node_id \<Rightarrow> nat option" where
  "bucket_from i [] = None"
| "bucket_from i (b # bs) = (if b \<noteq> 0 then Some (i * 8 + leading_zeros8 b) else bucket_from (Suc i) bs)"

definition bucket_index :: "node_id \<Rightarrow> nat option" where
  "bucket_index distance = bucket_from 0 distance"

definition hex_digit :: "nat \<Rightarrow> char" where
  "hex_digit n = (if n < 10 then char_of (48 + n) else char_of (87 + n))"

definition hex_id :: "node_id \<Rightarrow> string" where
  "hex_id i = concat (map (\<lambda>b. [hex_digit (unat b div 16), hex_digit (unat b mod 16)]) i)"

definition hex_value :: "char \<Rightarrow> nat option" where
  "hex_value c =
     (let n = of_char c :: nat
      in if 48 \<le> n \<and> n \<le> 57 then Some (n - 48)
         else if 65 \<le> n \<and> n \<le> 70 then Some (n - 55)
         else if 97 \<le> n \<and> n \<le> 102 then Some (n - 87)
         else None)"

text \<open>\<open>u8::from_str_radix(s, 16)\<close> on two characters: a leading plus sign is allowed.\<close>

fun byte_of_hex :: "char \<Rightarrow> char \<Rightarrow> byte option" where
  "byte_of_hex c d =
     (if c = CHR ''+'' then map_option word_of_nat (hex_value d)
      else case (hex_value c, hex_value d) of
             (Some x, Some y) \<Rightarrow> Some (word_of_nat (16 * x + y))
           | _ \<Rightarrow> None)"

fun unhex_pairs :: "string \<Rightarrow> node_id option" where
  "unhex_pairs (c # d # s) =
     (case (byte_of_hex c d, unhex_pairs s) of (Some b, Some bs) \<Rightarrow> Some (b # bs) | _ \<Rightarrow> None)"
| "unhex_pairs [] = Some []"
| "unhex_pairs [c] = None"

definition unhex :: "string \<Rightarrow> node_id option" where
  "unhex s = (if length s \<noteq> ID_LEN * 2 then None else unhex_pairs s)"

section \<open>The routing table\<close>

record dht_entry =
  n_id :: node_id
  n_udp :: sock_addr
  n_p2p_port :: u16
  n_verified :: bool
  n_last_seen :: nat

record routing_table =
  rt_self_id :: node_id
  rt_buckets :: "dht_entry list list"

definition RoutingTable_new :: "node_id \<Rightarrow> routing_table" where
  "RoutingTable_new self_id = \<lparr>rt_self_id = self_id, rt_buckets = replicate (ID_LEN * 8) []\<rparr>"

text \<open>\<open>self.buckets[idx]\<close> is in range: \<open>bucket_index\<close> is below 160 for an id of twenty bytes.\<close>

definition rt_contains :: "routing_table \<Rightarrow> node_id \<Rightarrow> bool" where
  "rt_contains t i =
     (case bucket_index (xor_id (rt_self_id t) i) of
        Some idx \<Rightarrow> list_ex (\<lambda>n. n_id n = i) (rt_buckets t ! idx)
      | None \<Rightarrow> False)"

text \<open>The first entry with the least key among the stale ones; unverified comes before verified.\<close>

fun oldest_stale :: "nat \<Rightarrow> dht_entry list \<Rightarrow> dht_entry option" where
  "oldest_stale now [] = None"
| "oldest_stale now (n # ns) =
     (if now - n_last_seen n > STALE_AFTER
      then (case oldest_stale now ns of
              None \<Rightarrow> Some n
            | Some m \<Rightarrow> if (n_verified m, n_last_seen m) < (n_verified n, n_last_seen n) then Some m else Some n)
      else oldest_stale now ns)"

definition refreshed :: "dht_entry \<Rightarrow> dht_entry \<Rightarrow> dht_entry" where
  "refreshed old_entry node =
     (let e = old_entry\<lparr>n_last_seen := n_last_seen node\<rparr>
      in if n_verified node
         then e\<lparr>n_udp := n_udp node, n_p2p_port := n_p2p_port node, n_verified := True\<rparr>
         else e)"

definition bucket_add :: "dht_entry \<Rightarrow> dht_entry list \<Rightarrow> bool \<times> dht_entry list" where
  "bucket_add node b =
     (case List.find (\<lambda>n. n_id n = n_id node) b of
        Some e \<Rightarrow> (False, remove1 e b @ [refreshed e node])
      | None \<Rightarrow>
          if length b < K then (True, b @ [node])
          else case oldest_stale (n_last_seen node) b of
                 Some v \<Rightarrow> (True, takeWhile (\<lambda>n. n \<noteq> v) b @ node # tl (dropWhile (\<lambda>n. n \<noteq> v) b))
               | None \<Rightarrow> (False, b))"

definition rt_add :: "dht_entry \<Rightarrow> routing_table \<Rightarrow> bool \<times> routing_table" where
  "rt_add node t =
     (case bucket_index (xor_id (rt_self_id t) (n_id node)) of
        None \<Rightarrow> (False, t)
      | Some idx \<Rightarrow>
          let (added, b) = bucket_add node (rt_buckets t ! idx)
          in (added, t\<lparr>rt_buckets := (rt_buckets t)[idx := b]\<rparr>))"

definition mark_verified :: "nat \<Rightarrow> sock_addr \<Rightarrow> routing_table \<Rightarrow> routing_table" where
  "mark_verified now addr t =
     t\<lparr>rt_buckets := map (map (\<lambda>n. if n_udp n = addr
                                  then n\<lparr>n_verified := True, n_last_seen := now\<rparr> else n)) (rt_buckets t)\<rparr>"

definition is_verified_source :: "routing_table \<Rightarrow> sock_addr \<Rightarrow> bool" where
  "is_verified_source t addr \<longleftrightarrow> list_ex (\<lambda>n. n_udp n = addr \<and> n_verified n) (concat (rt_buckets t))"

definition rt_all :: "routing_table \<Rightarrow> dht_entry list" where
  "rt_all t = concat (rt_buckets t)"

definition closest :: "routing_table \<Rightarrow> node_id \<Rightarrow> nat \<Rightarrow> dht_entry list" where
  "closest t target count = take count (sort_key (\<lambda>n. xor_id (n_id n) target) (rt_all t))"

section \<open>Bookkeeping per source\<close>

text \<open>A hash map is an association list with distinct keys; its order is never looked at.\<close>

record source_state =
  ss_learn :: "(ip_addr \<times> nat \<times> nat) list"
  ss_pending :: "(sock_addr \<times> nat) list"
  ss_pinged :: "(sock_addr \<times> nat) list"

definition SourceState_default :: source_state where
  "SourceState_default = \<lparr>ss_learn = [], ss_pending = [], ss_pinged = []\<rparr>"

definition bounded :: "('v \<Rightarrow> bool) \<Rightarrow> ('k \<times> 'v) list \<Rightarrow> ('k \<times> 'v) list" where
  "bounded fresh m =
     (if length m \<ge> MAX_TRACKED_SOURCES
      then (let kept = filter (\<lambda>(k, v). fresh v) m
            in if length kept \<ge> MAX_TRACKED_SOURCES then [] else kept)
      else m)"

definition prune :: "nat \<Rightarrow> source_state \<Rightarrow> source_state" where
  "prune now s =
     \<lparr>ss_learn = bounded (\<lambda>(start, n). now - start \<le> LEARN_WINDOW) (ss_learn s),
      ss_pending = bounded (\<lambda>t. now - t \<le> PENDING_TTL) (ss_pending s),
      ss_pinged = bounded (\<lambda>t. now - t \<le> PING_MIN_INTERVAL) (ss_pinged s)\<rparr>"

definition allow_learn :: "ip_addr \<Rightarrow> nat \<Rightarrow> source_state \<Rightarrow> bool \<times> source_state" where
  "allow_learn ip now s0 =
     (let s = prune now s0;
          slot0 = (case map_of (ss_learn s) ip of Some v \<Rightarrow> v | None \<Rightarrow> (now, 0));
          slot = (if now - fst slot0 > LEARN_WINDOW then (now, 0) else slot0)
      in if snd slot \<ge> LEARN_PER_WINDOW
         then (False, s\<lparr>ss_learn := AList.update ip slot (ss_learn s)\<rparr>)
         else (True, s\<lparr>ss_learn := AList.update ip (fst slot, snd slot + 1) (ss_learn s)\<rparr>))"

definition note_query :: "sock_addr \<Rightarrow> nat \<Rightarrow> source_state \<Rightarrow> source_state" where
  "note_query addr now s0 =
     (let s = prune now s0 in s\<lparr>ss_pending := AList.update addr now (ss_pending s)\<rparr>)"

definition take_pending :: "sock_addr \<Rightarrow> nat \<Rightarrow> source_state \<Rightarrow> bool \<times> source_state" where
  "take_pending addr now s =
     (case map_of (ss_pending s) addr of
        Some t \<Rightarrow> (now - t \<le> PENDING_TTL, s\<lparr>ss_pending := AList.delete addr (ss_pending s)\<rparr>)
      | None \<Rightarrow> (False, s))"

definition allow_ping :: "sock_addr \<Rightarrow> nat \<Rightarrow> source_state \<Rightarrow> bool \<times> source_state" where
  "allow_ping addr now s0 =
     (let s = prune now s0;
          go = (True, s\<lparr>ss_pinged := AList.update addr now (ss_pinged s)\<rparr>)
      in case map_of (ss_pinged s) addr of
           Some t \<Rightarrow> if now - t < PING_MIN_INTERVAL then (False, s) else go
         | None \<Rightarrow> go)"

section \<open>Messages\<close>

record node_rec =
  r_id :: string
  r_ip :: string
  r_udp_port :: u16
  r_p2p_port :: u16

datatype dht_msg =
    Ping string u16
  | Pong string u16
  | FindNode string u16 string
  | Nodes string u16 "node_rec list"

fun msg_sender :: "dht_msg \<Rightarrow> string \<times> u16" where
  "msg_sender (Ping sender p2p) = (sender, p2p)"
| "msg_sender (Pong sender p2p) = (sender, p2p)"
| "msg_sender (FindNode sender p2p _) = (sender, p2p)"
| "msg_sender (Nodes sender p2p _) = (sender, p2p)"

fun is_answer :: "dht_msg \<Rightarrow> bool" where
  "is_answer (Pong _ _) \<longleftrightarrow> True"
| "is_answer (Nodes _ _ _) \<longleftrightarrow> True"
| "is_answer _ \<longleftrightarrow> False"

section \<open>The node\<close>

text \<open>The state, with the datagrams handed to the socket so far, the latest last.\<close>

record dht_node =
  dn_self_id :: node_id
  dn_p2p_port :: u16
  dn_policy :: addr_policy
  dn_table :: routing_table
  dn_sources :: source_state
  dn_sent :: "(dht_msg \<times> sock_addr) list"

record ip_text =
  ip_to_string :: "ip_addr \<Rightarrow> string"
  ip_parse :: "string \<Rightarrow> ip_addr option"

definition DhtNode_new :: "'f env \<Rightarrow> string \<Rightarrow> u16 \<Rightarrow> addr_policy \<Rightarrow> dht_node" where
  "DhtNode_new E peer_id p2p_port policy =
     (let self_id = id_from_peer E peer_id
      in \<lparr>dn_self_id = self_id, dn_p2p_port = p2p_port, dn_policy = policy,
          dn_table = RoutingTable_new self_id, dn_sources = SourceState_default, dn_sent = []\<rparr>)"

definition node_rec_of :: "ip_text \<Rightarrow> dht_entry \<Rightarrow> node_rec" where
  "node_rec_of A n =
     \<lparr>r_id = hex_id (n_id n), r_ip = ip_to_string A (fst (n_udp n)), r_udp_port = snd (n_udp n),
      r_p2p_port = n_p2p_port n\<rparr>"

definition export_nodes :: "ip_text \<Rightarrow> dht_node \<Rightarrow> node_rec list" where
  "export_nodes A d =
     map (node_rec_of A)
       (take MAX_PERSIST_NODES
         (filter (\<lambda>n. n_verified n \<and> accepts (dn_policy d) (fst (n_udp n)) (n_p2p_port n))
           (rt_all (dn_table d))))"

fun import_each :: "ip_text \<Rightarrow> nat \<Rightarrow> node_rec list \<Rightarrow> dht_node \<Rightarrow> dht_node" where
  "import_each A now [] d = d"
| "import_each A now (r # rs) d =
     import_each A now rs
       (case (unhex (r_id r), ip_parse A (r_ip r)) of
          (Some i, Some ip) \<Rightarrow>
            if i = dn_self_id d \<or> \<not> accepts (dn_policy d) ip (r_udp_port r)
               \<or> \<not> is_contactable_port (r_p2p_port r) then d
            else d\<lparr>dn_table := snd (rt_add
                   \<lparr>n_id = i, n_udp = (ip, r_udp_port r), n_p2p_port = r_p2p_port r,
                    n_verified = False, n_last_seen = now\<rparr> (dn_table d))\<rparr>
        | _ \<Rightarrow> d)"

definition import_nodes :: "ip_text \<Rightarrow> nat \<Rightarrow> node_rec list \<Rightarrow> dht_node \<Rightarrow> dht_node" where
  "import_nodes A now nodes d = import_each A now (take MAX_PERSIST_NODES nodes) d"

text \<open>\<open>show_port\<close> is the decimal text of the port.\<close>

definition collect_addrs :: "ip_text \<Rightarrow> bool \<Rightarrow> dht_node \<Rightarrow> string list" where
  "collect_addrs A verified_only d =
     map (\<lambda>n. ip_to_string A (fst (n_udp n)) @ '':'' @ show_nat (unat (n_p2p_port n)))
       (filter (\<lambda>n. accepts (dn_policy d) (fst (n_udp n)) (n_p2p_port n))
         (filter (\<lambda>n. \<not> verified_only \<or> n_verified n) (rt_all (dn_table d))))"

definition peer_addrs :: "ip_text \<Rightarrow> dht_node \<Rightarrow> string list" where
  "peer_addrs A d = collect_addrs A False d"

definition peer_addrs_verified :: "ip_text \<Rightarrow> dht_node \<Rightarrow> string list" where
  "peer_addrs_verified A d = collect_addrs A True d"

definition dht_send :: "nat \<Rightarrow> dht_msg \<Rightarrow> sock_addr \<Rightarrow> dht_node \<Rightarrow> dht_node" where
  "dht_send now msg addr d =
     (if \<not> accepts_ip (dn_policy d) (fst addr) then d
      else
        (if is_answer msg then d else d\<lparr>dn_sources := note_query addr now (dn_sources d)\<rparr>)
          \<lparr>dn_sent := dn_sent d @ [(msg, addr)]\<rparr>)"

definition my_find :: "dht_node \<Rightarrow> node_id \<Rightarrow> dht_msg" where
  "my_find d target = FindNode (hex_id (dn_self_id d)) (dn_p2p_port d) (hex_id target)"

definition my_ping :: "dht_node \<Rightarrow> dht_msg" where
  "my_ping d = Ping (hex_id (dn_self_id d)) (dn_p2p_port d)"

text \<open>\<open>resolve\<close> is the parsed address of a bootstrap entry, or the first answer of the name lookup.\<close>

definition bootstrap :: "(string \<Rightarrow> sock_addr option) \<Rightarrow> nat \<Rightarrow> string list \<Rightarrow> dht_node \<Rightarrow> dht_node" where
  "bootstrap resolve now addrs d =
     fold (\<lambda>a d. case resolve a of Some sa \<Rightarrow> dht_send now (my_find d (dn_self_id d)) sa d | None \<Rightarrow> d) addrs d"

definition refresh_targets :: "node_id \<Rightarrow> node_id list" where
  "refresh_targets self =
     self # map (\<lambda>bt. self[bt div 8 := (self ! (bt div 8)) XOR drop_bit (bt mod 8) 0x80]) [0, 1, 2, 4]"

definition refresh :: "nat \<Rightarrow> dht_node \<Rightarrow> dht_node" where
  "refresh now d =
     (let targets = refresh_targets (dn_self_id d);
          unverified = take VERIFY_BATCH (map n_udp (filter (\<lambda>n. \<not> n_verified n) (rt_all (dn_table d))));
          close = closest (dn_table d) (dn_self_id d) K;
          d1 = fold (\<lambda>t. fold (\<lambda>n d. dht_send now (my_find d t) (n_udp n) d) close) targets d
      in fold (\<lambda>addr d.
             let (allowed, s) = allow_ping addr now (dn_sources d); d' = d\<lparr>dn_sources := s\<rparr>
             in if allowed then dht_send now (my_ping d') addr d' else d') unverified d1)"

definition learn :: "dht_entry \<Rightarrow> dht_node \<Rightarrow> bool \<times> dht_node" where
  "learn node d =
     (if n_id node = dn_self_id d \<or> \<not> accepts (dn_policy d) (fst (n_udp node)) (n_p2p_port node) then (False, d)
      else
        let (allowed, s) =
              (if rt_contains (dn_table d) (n_id node) then (True, dn_sources d)
               else allow_learn (fst (n_udp node)) (n_last_seen node) (dn_sources d));
            d' = d\<lparr>dn_sources := s\<rparr>
        in if \<not> allowed then (False, d')
           else let (added, t) = rt_add node (dn_table d') in (added, d'\<lparr>dn_table := t\<rparr>))"

fun absorb_each :: "ip_text \<Rightarrow> nat \<Rightarrow> node_rec list \<Rightarrow> dht_node \<Rightarrow> dht_node" where
  "absorb_each A now [] d = d"
| "absorb_each A now (r # rs) d =
     absorb_each A now rs
       (case (unhex (r_id r), ip_parse A (r_ip r)) of
          (Some i, Some ip) \<Rightarrow>
            snd (learn \<lparr>n_id = i, n_udp = (ip, r_udp_port r), n_p2p_port = r_p2p_port r,
                        n_verified = False, n_last_seen = now\<rparr> d)
        | _ \<Rightarrow> d)"

text \<open>Steps 1 and 2 of the handler: what the datagram proves, and learning its sender.\<close>

definition hear_sender :: "nat \<Rightarrow> dht_msg \<Rightarrow> sock_addr \<Rightarrow> dht_node \<Rightarrow> dht_node" where
  "hear_sender now msg src d =
     (let (solicited, s) =
            (if is_answer msg then take_pending src now (dn_sources d) else (False, dn_sources d));
          d1 = d\<lparr>dn_sources := s\<rparr>;
          d2 = (if solicited then d1\<lparr>dn_table := mark_verified now src (dn_table d1)\<rparr> else d1);
          (sender, p2p) = msg_sender msg
      in case unhex sender of
           Some i \<Rightarrow> snd (learn \<lparr>n_id = i, n_udp = src, n_p2p_port = p2p, n_verified = solicited,
                                n_last_seen = now\<rparr> d2)
         | None \<Rightarrow> d2)"

definition answer_find :: "ip_text \<Rightarrow> nat \<Rightarrow> string \<Rightarrow> sock_addr \<Rightarrow> dht_node \<Rightarrow> dht_node" where
  "answer_find A now target src d =
     (let verified_src = is_verified_source (dn_table d) src;
          want = (if verified_src then K else K_UNVERIFIED);
          tgt = (case unhex target of Some t \<Rightarrow> t | None \<Rightarrow> dn_self_id d);
          recs = map (node_rec_of A) (closest (dn_table d) tgt want);
          d1 = dht_send now (Nodes (hex_id (dn_self_id d)) (dn_p2p_port d) recs) src d
      in if verified_src then d1
         else
           let (allowed, s) = allow_ping src now (dn_sources d1); d2 = d1\<lparr>dn_sources := s\<rparr>
           in if allowed then dht_send now (my_ping d2) src d2 else d2)"

definition handle :: "ip_text \<Rightarrow> nat \<Rightarrow> dht_msg \<Rightarrow> sock_addr \<Rightarrow> dht_node \<Rightarrow> dht_node" where
  "handle A now msg src d =
     (if \<not> accepts_ip (dn_policy d) (fst src) then d
      else
        let d1 = hear_sender now msg src d
        in case msg of
             Ping _ _ \<Rightarrow> dht_send now (Pong (hex_id (dn_self_id d1)) (dn_p2p_port d1)) src d1
           | FindNode _ _ target \<Rightarrow> answer_find A now target src d1
           | Nodes _ _ nodes \<Rightarrow> absorb_each A now (take MAX_NODES_PER_MSG nodes) d1
           | Pong _ _ \<Rightarrow> d1)"

end
