(* ===== verification/DhtLaws.thy ===== *)
theory DhtLaws
  imports Dht
begin

text \<open>
  Laws of the overlay: what a bucket is, the invariant of the routing table, the bounds of the
  bookkeeping, and that both hold in every state a node can reach.
\<close>

section \<open>Distance\<close>

lemma length_xor_id [simp]: "length (xor_id a b) = min (length a) (length b)"
  by (simp add: xor_id_def)

lemma nth_xor_id [simp]: "i < length a \<Longrightarrow> i < length b \<Longrightarrow> xor_id a b ! i = a ! i XOR b ! i"
  by (simp add: xor_id_def)

lemma xor_id_zero:
  assumes "length a = length b"
  shows "list_all (\<lambda>x. x = 0) (xor_id a b) \<longleftrightarrow> a = b"
proof -
  have z: "x XOR y = 0 \<longleftrightarrow> x = y" for x y :: byte
    by (metis xor_self_eq bit.xor_left_self xor.right_neutral)
  show ?thesis using assms by (induction a b rule: list_induct2) (auto simp: xor_id_def z)
qed

lemma length_takeWhile_less: "\<exists>x \<in> set xs. \<not> P x \<Longrightarrow> length (takeWhile P xs) < length xs"
  by (induction xs) auto

lemma leading_zeros8_lt: "b \<noteq> 0 \<Longrightarrow> leading_zeros8 b < 8"
proof -
  assume "b \<noteq> 0"
  then obtain i where i: "bit b i" by (metis bit_eqI bit_0_eq bot_apply bot_bool_def)
  then have "i < 8" using bit_imp_le_length [OF i] by simp
  then have "i \<in> set [7, 6, 5, 4, 3, 2, 1, 0]" by auto
  with i have "\<exists>x \<in> set [7, 6, 5, 4, 3, 2, 1, 0]. \<not> \<not> bit b x" by blast
  from length_takeWhile_less [OF this] show ?thesis by (simp add: leading_zeros8_def)
qed

lemma bucket_from_None: "bucket_from i bs = None \<longleftrightarrow> list_all (\<lambda>b. b = 0) bs"
  by (induction i bs rule: bucket_from.induct) auto

lemma bucket_from_lt: "bucket_from i bs = Some k \<Longrightarrow> k < (i + length bs) * 8"
proof (induction i bs rule: bucket_from.induct)
  case (2 i b bs)
  then show ?case using leading_zeros8_lt [of b] by (auto split: if_splits)
qed simp

lemma bucket_index_None: "length a = length b \<Longrightarrow> bucket_index (xor_id a b) = None \<longleftrightarrow> a = b"
  by (simp add: bucket_index_def bucket_from_None xor_id_zero)

lemma bucket_index_lt: "length a = ID_LEN \<Longrightarrow> length b = ID_LEN \<Longrightarrow> bucket_index (xor_id a b) = Some k \<Longrightarrow> k < 160"
  using bucket_from_lt [of 0 "xor_id a b" k] by (simp add: bucket_index_def ID_LEN_def)

section \<open>A bucket\<close>

definition bucket_ok :: "(dht_entry \<Rightarrow> bool) \<Rightarrow> dht_entry list \<Rightarrow> bool" where
  "bucket_ok p b \<longleftrightarrow> length b \<le> K \<and> distinct (map n_id b) \<and> list_all p b"

definition evict_key :: "dht_entry \<Rightarrow> bool \<times> nat" where
  "evict_key n = (n_verified n, n_last_seen n)"

lemma oldest_stale_None:
  "oldest_stale now b = None \<longleftrightarrow> (\<forall>n \<in> set b. \<not> now - n_last_seen n > STALE_AFTER)"
  by (induction b) (simp_all split: option.split)

lemma oldest_stale_Some:
  assumes "oldest_stale now b = Some v"
  shows "v \<in> set b" "now - n_last_seen v > STALE_AFTER"
    "n \<in> set b \<Longrightarrow> now - n_last_seen n > STALE_AFTER \<Longrightarrow> evict_key v \<le> evict_key n"
proof -
  have "v \<in> set b \<and> now - n_last_seen v > STALE_AFTER
    \<and> (\<forall>n \<in> set b. now - n_last_seen n > STALE_AFTER \<longrightarrow> evict_key v \<le> evict_key n)"
    using assms
  proof (induction b arbitrary: v)
    case (Cons m ms)
    show ?case
    proof (cases "now - n_last_seen m > STALE_AFTER")
      case stale: True
      show ?thesis
      proof (cases "oldest_stale now ms")
        case None
        then have "v = m" using Cons.prems stale by simp
        then show ?thesis using None stale by (simp add: oldest_stale_None)
      next
        case (Some w)
        note w = Cons.IH [OF Some]
        show ?thesis
        proof (cases "evict_key w < evict_key m")
          case True
          then have "v = w" using Cons.prems stale Some by (simp add: evict_key_def)
          then show ?thesis using w less_imp_le [OF True] by simp
        next
          case False
          then have "v = m" using Cons.prems stale Some by (auto simp: evict_key_def split: if_splits)
          moreover have "evict_key m \<le> evict_key n" if "n \<in> set ms" "now - n_last_seen n > STALE_AFTER" for n
            using w that False by (meson linorder_not_less order.trans)
          ultimately show ?thesis using stale by simp
        qed
      qed
    next
      case False
      then show ?thesis using Cons by simp
    qed
  qed simp
  then show "v \<in> set b" "now - n_last_seen v > STALE_AFTER"
    "n \<in> set b \<Longrightarrow> now - n_last_seen n > STALE_AFTER \<Longrightarrow> evict_key v \<le> evict_key n" by blast+
qed

lemma replace_entry:
  assumes "v \<in> set b"
  obtains xs ys where "b = xs @ v # ys" "v \<notin> set xs"
    "takeWhile (\<lambda>n. n \<noteq> v) b @ node # tl (dropWhile (\<lambda>n. n \<noteq> v) b) = xs @ node # ys"
proof -
  obtain xs ys where b: "b = xs @ v # ys" "v \<notin> set xs" using split_list_first [OF assms] by blast
  have "takeWhile (\<lambda>n. n \<noteq> v) (xs @ v # ys) = xs \<and> dropWhile (\<lambda>n. n \<noteq> v) (xs @ v # ys) = v # ys"
    using b(2) by (induction xs) auto
  with b that show ?thesis by simp
qed

lemma find_id_Some: "List.find (\<lambda>n. n_id n = i) b = Some e \<Longrightarrow> e \<in> set b \<and> n_id e = i"
  by (auto simp: find_Some_iff)

lemma bucket_add_cases:
  assumes "bucket_add node b = (added, b')"
  obtains (seen) e where "e \<in> set b" "n_id e = n_id node" "\<not> added" "b' = remove1 e b @ [refreshed e node]"
  | (room) "n_id node \<notin> n_id ` set b" "length b < K" "added" "b' = b @ [node]"
  | (evict) v xs ys where "n_id node \<notin> n_id ` set b" "\<not> length b < K"
      "oldest_stale (n_last_seen node) b = Some v" "b = xs @ v # ys" "added" "b' = xs @ node # ys"
  | (full) "n_id node \<notin> n_id ` set b" "\<not> length b < K" "oldest_stale (n_last_seen node) b = None" "\<not> added" "b' = b"
proof (cases "List.find (\<lambda>n. n_id n = n_id node) b")
  case (Some e)
  with assms find_id_Some [OF Some] show ?thesis by (intro seen [of e]) (auto simp: bucket_add_def)
next
  case None
  then have new: "n_id node \<notin> n_id ` set b" by (auto simp: find_None_iff)
  show ?thesis
  proof (cases "length b < K")
    case True
    with None assms new show ?thesis by (intro room) (auto simp: bucket_add_def)
  next
    case False
    show ?thesis
    proof (cases "oldest_stale (n_last_seen node) b")
      case None2: None
      with None assms new False show ?thesis by (intro full) (auto simp: bucket_add_def)
    next
      case (Some v)
      then have "v \<in> set b" using oldest_stale_Some by blast
      then obtain xs ys where "b = xs @ v # ys"
        "takeWhile (\<lambda>n. n \<noteq> v) b @ node # tl (dropWhile (\<lambda>n. n \<noteq> v) b) = xs @ node # ys"
        by (rule replace_entry)
      with None assms new False Some show ?thesis by (intro evict [of v xs ys]) (auto simp: bucket_add_def)
    qed
  qed
qed

lemma refreshed_fields [simp]:
  "n_id (refreshed e node) = n_id e"
  "n_udp (refreshed e node) = (if n_verified node then n_udp node else n_udp e)"
  "n_p2p_port (refreshed e node) = (if n_verified node then n_p2p_port node else n_p2p_port e)"
  "n_verified (refreshed e node) \<longleftrightarrow> n_verified node \<or> n_verified e"
  by (auto simp: refreshed_def Let_def)

lemma bucket_add_ok:
  assumes "bucket_ok p b" "bucket_add node b = (added, b')" "p node"
    and "\<And>e. p e \<Longrightarrow> n_id e = n_id node \<Longrightarrow> p (refreshed e node)"
  shows "bucket_ok p b'"
  using assms(2)
proof (cases rule: bucket_add_cases)
  case (seen e)
  have d: "distinct (map n_id b)" using assms(1) by (simp add: bucket_ok_def)
  obtain xs ys where b: "b = xs @ e # ys" "e \<notin> set xs" using split_list_first [OF seen(1)] by blast
  then have "b' = xs @ ys @ [refreshed e node]" using seen(4) by (simp add: remove1_append)
  then show ?thesis using assms(1,4) seen(2) b by (auto simp: bucket_ok_def)
next
  case room
  then show ?thesis using assms(1,3) by (auto simp: bucket_ok_def)
next
  case (evict v xs ys)
  then show ?thesis using assms(1,3) by (auto simp: bucket_ok_def)
next
  case full
  then show ?thesis using assms(1) by simp
qed

section \<open>The table\<close>

text \<open>Every entry lies in the bucket of its distance and has an address the policy accepts.\<close>

definition entry_ok :: "addr_policy \<Rightarrow> node_id \<Rightarrow> nat \<Rightarrow> dht_entry \<Rightarrow> bool" where
  "entry_ok policy self idx n \<longleftrightarrow>
     length (n_id n) = ID_LEN \<and> bucket_index (xor_id self (n_id n)) = Some idx
     \<and> accepts policy (fst (n_udp n)) (n_p2p_port n)"

definition table_inv :: "addr_policy \<Rightarrow> routing_table \<Rightarrow> bool" where
  "table_inv policy t \<longleftrightarrow>
     length (rt_self_id t) = ID_LEN \<and> length (rt_buckets t) = 160
     \<and> (\<forall>idx < 160. bucket_ok (entry_ok policy (rt_self_id t) idx) (rt_buckets t ! idx))"

lemma table_inv_new: "length self = ID_LEN \<Longrightarrow> table_inv policy (RoutingTable_new self)"
  by (simp add: table_inv_def RoutingTable_new_def bucket_ok_def ID_LEN_def)

lemma rt_add_inv:
  assumes inv: "table_inv policy t" and node: "length (n_id node) = ID_LEN" "accepts policy (fst (n_udp node)) (n_p2p_port node)"
    and add: "rt_add node t = (added, t')"
  shows "table_inv policy t'" "rt_self_id t' = rt_self_id t"
proof -
  have "table_inv policy t' \<and> rt_self_id t' = rt_self_id t"
  proof (cases "bucket_index (xor_id (rt_self_id t) (n_id node))")
    case None
    then show ?thesis using add inv by (simp add: rt_add_def)
  next
    case (Some idx)
    then have idx: "idx < 160" using inv node(1) by (intro bucket_index_lt) (auto simp: table_inv_def)
    obtain b' where b: "bucket_add node (rt_buckets t ! idx) = (added, b')"
      "t' = t\<lparr>rt_buckets := (rt_buckets t)[idx := b']\<rparr>"
      using add Some by (auto simp: rt_add_def split: prod.splits)
    have "bucket_ok (entry_ok policy (rt_self_id t) idx) b'"
      by (rule bucket_add_ok [OF _ b(1)]) (use inv idx node Some in \<open>auto simp: table_inv_def entry_ok_def\<close>)
    then show ?thesis using inv idx b(2) by (auto simp: table_inv_def nth_list_update)
  qed
  then show "table_inv policy t'" "rt_self_id t' = rt_self_id t" by blast+
qed

lemma mark_verified_inv:
  assumes "table_inv policy t"
  shows "table_inv policy (mark_verified now addr t)"
proof -
  let ?f = "\<lambda>n. if n_udp n = addr then n\<lparr>n_verified := True, n_last_seen := now\<rparr> else n"
  have "bucket_ok (entry_ok policy self idx) (map ?f b)" if "bucket_ok (entry_ok policy self idx) b" for self idx b
  proof -
    have "map n_id (map ?f b) = map n_id b" by simp
    then have "distinct (map n_id (map ?f b))" using that by (simp only: bucket_ok_def)
    moreover have "list_all (entry_ok policy self idx) (map ?f b)"
      using that by (auto simp: bucket_ok_def entry_ok_def list_all_iff)
    ultimately show ?thesis using that by (simp only: bucket_ok_def length_map)
  qed
  then show ?thesis using assms by (auto simp: table_inv_def mark_verified_def)
qed

lemma rt_all_entries: "table_inv policy t \<Longrightarrow> n \<in> set (rt_all t) \<Longrightarrow> \<exists>idx < 160. n \<in> set (rt_buckets t ! idx) \<and> entry_ok policy (rt_self_id t) idx n"
  by (fastforce simp: rt_all_def in_set_conv_nth table_inv_def bucket_ok_def list_all_iff)

lemma rt_contains_iff:
  assumes "table_inv policy t" "length i = ID_LEN"
  shows "rt_contains t i \<longleftrightarrow> i \<in> n_id ` set (rt_all t)"
proof
  assume "rt_contains t i"
  then obtain idx n where n: "bucket_index (xor_id (rt_self_id t) i) = Some idx" "n \<in> set (rt_buckets t ! idx)" "n_id n = i"
    by (auto simp: rt_contains_def list_ex_iff split: option.splits)
  have "idx < 160" by (rule bucket_index_lt [OF _ assms(2) n(1)]) (use assms(1) in \<open>simp add: table_inv_def\<close>)
  then have "rt_buckets t ! idx \<in> set (rt_buckets t)" using assms(1) by (simp add: table_inv_def)
  then show "i \<in> n_id ` set (rt_all t)" using n by (auto simp: rt_all_def)
next
  assume "i \<in> n_id ` set (rt_all t)"
  then obtain n where n: "n \<in> set (rt_all t)" "n_id n = i" by blast
  from rt_all_entries [OF assms(1) n(1)] n(2) show "rt_contains t i"
    by (auto simp: rt_contains_def entry_ok_def list_ex_iff)
qed

section \<open>Bookkeeping\<close>

definition small_map :: "('k \<times> 'v) list \<Rightarrow> bool" where
  "small_map m \<longleftrightarrow> distinct (map fst m) \<and> length m \<le> MAX_TRACKED_SOURCES"

definition sources_inv :: "source_state \<Rightarrow> bool" where
  "sources_inv s \<longleftrightarrow> small_map (ss_learn s) \<and> small_map (ss_pending s) \<and> small_map (ss_pinged s)"

lemma length_update_le: "length (AList.update k v m) \<le> Suc (length m)"
  by (induction m) auto

lemma bounded_small: "small_map m \<Longrightarrow> distinct (map fst (bounded f m)) \<and> length (bounded f m) < MAX_TRACKED_SOURCES"
  by (auto simp: bounded_def small_map_def MAX_TRACKED_SOURCES_def Let_def distinct_map_filter)

lemma bounded_update: "small_map m \<Longrightarrow> small_map (AList.update k v (bounded f m))"
  using bounded_small [of m f] length_update_le [of k v "bounded f m"]
  by (simp add: small_map_def distinct_update)

lemma bounded_keys: "fst ` set (bounded f m) \<subseteq> fst ` set m"
  by (auto simp: bounded_def Let_def)

lemma bounded_inv: "small_map m \<Longrightarrow> small_map (bounded f m)"
  using bounded_small [of m f] by (simp add: small_map_def)

lemma prune_inv: "sources_inv s \<Longrightarrow> sources_inv (prune now s)"
  by (simp add: sources_inv_def prune_def bounded_inv)

lemma sources_steps:
  assumes "sources_inv s"
  shows "sources_inv (snd (allow_learn ip now s))" "sources_inv (note_query addr now s)"
    "sources_inv (snd (take_pending addr now s))" "sources_inv (snd (allow_ping addr now s))"
proof -
  show "sources_inv (snd (allow_learn ip now s))" "sources_inv (note_query addr now s)"
    using assms by (auto simp: allow_learn_def note_query_def Let_def sources_inv_def prune_def bounded_inv bounded_update)
  show "sources_inv (snd (allow_ping addr now s))"
    using assms by (auto simp: allow_ping_def Let_def sources_inv_def prune_def bounded_inv bounded_update split: option.splits)
  have "small_map m \<Longrightarrow> small_map (AList.delete k m)" for k :: sock_addr and m :: "(sock_addr \<times> nat) list"
    by (simp add: small_map_def AList.delete_eq distinct_map_filter le_trans [OF length_filter_le])
  then show "sources_inv (snd (take_pending addr now s))"
    using assms by (auto simp: take_pending_def sources_inv_def split: option.splits)
qed

section \<open>The node\<close>

text \<open>The addresses this node has put a question to.\<close>

definition queried :: "dht_node \<Rightarrow> sock_addr set" where
  "queried d = {a. \<exists>m. (m, a) \<in> set (dn_sent d) \<and> \<not> is_answer m}"

definition dht_inv :: "dht_node \<Rightarrow> bool" where
  "dht_inv d \<longleftrightarrow>
     table_inv (dn_policy d) (dn_table d) \<and> rt_self_id (dn_table d) = dn_self_id d
     \<and> sources_inv (dn_sources d)
     \<and> (\<forall>(m, a) \<in> set (dn_sent d). accepts_ip (dn_policy d) (fst a))
     \<and> fst ` set (ss_pending (dn_sources d)) \<subseteq> queried d
     \<and> (\<forall>n \<in> set (rt_all (dn_table d)). n_verified n \<longrightarrow> n_udp n \<in> queried d)"

text \<open>From one state to the next: the identity stays, \<open>l\<close> is sent, and the invariant holds again.\<close>

definition evolves :: "dht_node \<Rightarrow> (dht_msg \<times> sock_addr) list \<Rightarrow> dht_node \<Rightarrow> bool" where
  "evolves d l d' \<longleftrightarrow>
     dn_self_id d' = dn_self_id d \<and> dn_p2p_port d' = dn_p2p_port d \<and> dn_policy d' = dn_policy d
     \<and> dn_sent d' = dn_sent d @ l \<and> dht_inv d'"

lemma evolves_refl [intro, simp]: "dht_inv d \<Longrightarrow> evolves d [] d"
  by (simp add: evolves_def)

lemma evolves_inv: "evolves d l d' \<Longrightarrow> dht_inv d'"
  by (simp add: evolves_def)

lemma evolves_trans: "evolves d l d' \<Longrightarrow> evolves d' l' d'' \<Longrightarrow> evolves d (l @ l') d''"
  by (simp add: evolves_def)

lemma evolves_silent: "evolves d [] d' \<Longrightarrow> evolves d' l d'' \<Longrightarrow> evolves d l d''"
  by (simp add: evolves_def)

lemma evolves_fold:
  assumes "dht_inv d" and "\<And>x d. dht_inv d \<Longrightarrow> \<exists>l. evolves d l (f x d)"
  shows "\<exists>l. evolves d l (fold f xs d)"
  using assms(1)
proof (induction xs arbitrary: d)
  case (Cons x xs)
  obtain l where l: "evolves d l (f x d)" using assms(2) [OF Cons.prems] by blast
  moreover obtain l' where "evolves (f x d) l' (fold f xs (f x d))" using Cons.IH [OF evolves_inv [OF l]] by blast
  ultimately show ?case using evolves_trans by fastforce
qed auto

lemma queried_append: "dn_sent d' = dn_sent d @ l \<Longrightarrow> queried d \<subseteq> queried d'"
  by (auto simp: queried_def)

lemma evolves_queried: "evolves d l d' \<Longrightarrow> queried d \<subseteq> queried d'"
  by (rule queried_append) (simp add: evolves_def)

lemma note_query_keys: "fst ` set (ss_pending (note_query addr now s)) \<subseteq> insert addr (fst ` set (ss_pending s))"
  using bounded_keys [of "\<lambda>t. now - t \<le> PENDING_TTL" "ss_pending s"]
  by (auto simp: note_query_def prune_def dom_update)

lemma send_evolves:
  assumes inv: "dht_inv d"
  shows "evolves d (if accepts_ip (dn_policy d) (fst addr) then [(msg, addr)] else []) (dht_send now msg addr d)"
proof (cases "accepts_ip (dn_policy d) (fst addr)")
  case True
  let ?d = "dht_send now msg addr d"
  have sent: "dn_sent ?d = dn_sent d @ [(msg, addr)]" using True by (simp add: dht_send_def)
  have q: "\<not> is_answer msg \<Longrightarrow> addr \<in> queried ?d" by (auto simp: queried_def sent)
  have src: "dn_sources ?d = (if is_answer msg then dn_sources d else note_query addr now (dn_sources d))"
    using True by (simp add: dht_send_def)
  have mono: "queried d \<subseteq> queried ?d" by (rule queried_append [OF sent])
  have "dht_inv ?d"
    unfolding dht_inv_def
  proof (intro conjI)
    show "sources_inv (dn_sources ?d)" using inv by (simp add: dht_inv_def src sources_steps)
    show "fst ` set (ss_pending (dn_sources ?d)) \<subseteq> queried ?d"
      unfolding src using q inv mono note_query_keys [of addr now "dn_sources d"]
      by (simp add: dht_inv_def) blast
    show "\<forall>n \<in> set (rt_all (dn_table ?d)). n_verified n \<longrightarrow> n_udp n \<in> queried ?d"
      using inv mono True by (auto simp: dht_inv_def dht_send_def)
  qed (use inv True sent in \<open>auto simp: dht_inv_def dht_send_def\<close>)
  then show ?thesis using True sent by (simp add: evolves_def dht_send_def)
qed (use inv in \<open>simp add: dht_send_def\<close>)

lemma unhex_pairs_length: "unhex_pairs s = Some i \<Longrightarrow> length s = 2 * length i"
  by (induction s arbitrary: i rule: unhex_pairs.induct) (auto split: option.splits)

lemma unhex_length: "unhex s = Some i \<Longrightarrow> length i = ID_LEN"
  using unhex_pairs_length [of s i] by (simp add: unhex_def split: if_splits)

lemma rt_add_entries:
  assumes "table_inv policy t" "length (n_id node) = ID_LEN" "rt_add node t = (added, t')" "n \<in> set (rt_all t')"
  shows "n \<in> set (rt_all t) \<or> n = node \<or> (\<exists>e \<in> set (rt_all t). n = refreshed e node)"
proof (cases "bucket_index (xor_id (rt_self_id t) (n_id node))")
  case None
  then show ?thesis using assms by (simp add: rt_add_def)
next
  case (Some idx)
  then have idx: "idx < length (rt_buckets t)"
    using bucket_index_lt [of "rt_self_id t" "n_id node" idx] assms(1,2) by (simp add: table_inv_def)
  obtain b' where b: "bucket_add node (rt_buckets t ! idx) = (added, b')"
    "t' = t\<lparr>rt_buckets := (rt_buckets t)[idx := b']\<rparr>"
    using assms(3) Some by (auto simp: rt_add_def split: prod.splits)
  have sub: "set (rt_buckets t ! idx) \<subseteq> set (rt_all t)" using nth_mem [OF idx] by (auto simp: rt_all_def)
  have "n \<in> set (rt_all t) \<or> n \<in> set b'"
    using assms(4) b(2) set_update_subset_insert [of "rt_buckets t" idx b'] by (auto simp: rt_all_def)
  moreover have ?thesis if n: "n \<in> set b'" using b(1)
  proof (cases rule: bucket_add_cases)
    case (seen e)
    then show ?thesis using n sub set_remove1_subset [of e "rt_buckets t ! idx"] by auto
  qed (use n sub in auto)
  ultimately show ?thesis by blast
qed

text \<open>What the node relies on of its table: an insertion keeps the invariant and leaves no entry that was not
  there, is not the new one, and is not an old one refreshed by it. So only a verified newcomer adds to the
  addresses that count as proved.\<close>

locale contact_table =
  fixes table_ok :: "'t \<Rightarrow> bool" and entries :: "'t \<Rightarrow> dht_entry set" and fit :: "dht_entry \<Rightarrow> bool"
    and put :: "dht_entry \<Rightarrow> 't \<Rightarrow> bool \<times> 't"
  assumes put_ok: "table_ok t \<Longrightarrow> fit node \<Longrightarrow> table_ok (snd (put node t))"
    and put_entries: "table_ok t \<Longrightarrow> fit node \<Longrightarrow> n \<in> entries (snd (put node t)) \<Longrightarrow>
      n \<in> entries t \<or> n = node \<or> (\<exists>e \<in> entries t. n = refreshed e node)"
begin

lemma put_verified:
  assumes "table_ok t" "fit node" "n \<in> entries (snd (put node t))" "n_verified n"
  shows "(\<exists>e \<in> entries t. n_verified e \<and> n_udp e = n_udp n) \<or> n_verified node \<and> n_udp n = n_udp node"
  using put_entries [OF assms(1-3)] assms(4) by (cases "n_verified node") auto

lemma put_keeps:
  assumes "table_ok t" "fit node" "\<forall>e \<in> entries t. n_verified e \<longrightarrow> n_udp e \<in> Q" "n_verified node \<Longrightarrow> n_udp node \<in> Q"
  shows "\<forall>e \<in> entries (snd (put node t)). n_verified e \<longrightarrow> n_udp e \<in> Q"
  using put_verified [OF assms(1,2)] assms(3,4) by metis

end

definition entry_fit :: "addr_policy \<Rightarrow> dht_entry \<Rightarrow> bool" where
  "entry_fit policy node \<longleftrightarrow> length (n_id node) = ID_LEN \<and> accepts policy (fst (n_udp node)) (n_p2p_port node)"

interpretation rt: contact_table "table_inv policy" "\<lambda>t. set (rt_all t)" "entry_fit policy" rt_add for policy
proof unfold_locales
  show "table_inv policy (snd (rt_add node t))" if "table_inv policy t" "entry_fit policy node" for t node
    using rt_add_inv(1) [OF that(1)] that(2) by (cases "rt_add node t") (auto simp: entry_fit_def)
  show "n \<in> set (rt_all t) \<or> n = node \<or> (\<exists>e \<in> set (rt_all t). n = refreshed e node)"
    if "table_inv policy t" "entry_fit policy node" "n \<in> set (rt_all (snd (rt_add node t)))" for t node n
    using rt_add_entries [OF that(1) _ _ that(3)] that(2) by (cases "rt_add node t") (auto simp: entry_fit_def)
qed

lemma put_evolves:
  assumes inv: "dht_inv d" and fit: "entry_fit (dn_policy d) node"
    and "n_verified node \<Longrightarrow> n_udp node \<in> queried d"
  shows "evolves d [] (d\<lparr>dn_table := snd (rt_add node (dn_table d))\<rparr>)"
proof -
  obtain added t' where add: "rt_add node (dn_table d) = (added, t')" by fastforce
  have t: "table_inv (dn_policy d) (dn_table d)" using inv by (simp add: dht_inv_def)
  have "rt_self_id t' = rt_self_id (dn_table d)" using rt_add_inv(2) [OF t _ _ add] fit by (simp add: entry_fit_def)
  moreover have "table_inv (dn_policy d) t'" using rt.put_ok [OF t fit] by (simp add: add)
  moreover have "\<forall>n \<in> set (rt_all t'). n_verified n \<longrightarrow> n_udp n \<in> queried d"
    using rt.put_keeps [OF t fit, of "queried d"] assms inv by (simp add: add dht_inv_def)
  ultimately show ?thesis using inv by (auto simp: evolves_def add dht_inv_def queried_def)
qed

lemma sources_evolve:
  assumes "dht_inv d" "sources_inv s"
    and "fst ` set (ss_pending s) \<subseteq> fst ` set (ss_pending (dn_sources d))"
  shows "evolves d [] (d\<lparr>dn_sources := s\<rparr>)"
proof -
  have "queried (d\<lparr>dn_sources := s\<rparr>) = queried d" by (simp add: queried_def)
  then show ?thesis using assms subset_trans [OF assms(3)] by (simp add: evolves_def dht_inv_def)
qed

lemma inv_sources: "dht_inv d \<Longrightarrow> sources_inv (dn_sources d)"
  by (simp add: dht_inv_def)

lemma allow_learn_pending: "ss_pending (snd (allow_learn ip now s)) = ss_pending (prune now s)"
  by (simp add: allow_learn_def Let_def)

lemma allow_ping_pending: "ss_pending (snd (allow_ping addr now s)) = ss_pending (prune now s)"
  by (simp add: allow_ping_def Let_def split: option.splits)

lemma prune_keys: "fst ` set (ss_pending (prune now s)) \<subseteq> fst ` set (ss_pending s)"
  by (simp add: prune_def bounded_keys)

lemma allow_learn_evolves: "dht_inv d \<Longrightarrow> evolves d [] (d\<lparr>dn_sources := snd (allow_learn ip now (dn_sources d))\<rparr>)"
  by (rule sources_evolve) (simp_all add: inv_sources sources_steps allow_learn_pending prune_keys)

lemma allow_ping_evolves: "dht_inv d \<Longrightarrow> evolves d [] (d\<lparr>dn_sources := snd (allow_ping addr now (dn_sources d))\<rparr>)"
  by (rule sources_evolve) (simp_all add: inv_sources sources_steps allow_ping_pending prune_keys)

lemma learn_evolves:
  assumes inv: "dht_inv d" and "length (n_id node) = ID_LEN" "n_verified node \<Longrightarrow> n_udp node \<in> queried d"
  shows "evolves d [] (snd (learn node d))"
proof (cases "n_id node = dn_self_id d \<or> \<not> accepts (dn_policy d) (fst (n_udp node)) (n_p2p_port node)")
  case True
  then show ?thesis using inv by (simp add: learn_def)
next
  case False
  define s where "s = (if rt_contains (dn_table d) (n_id node) then (True, dn_sources d)
               else allow_learn (fst (n_udp node)) (n_last_seen node) (dn_sources d))"
  let ?d = "d\<lparr>dn_sources := snd s\<rparr>"
  have d: "evolves d [] ?d" using allow_learn_evolves [OF inv] inv by (simp add: s_def)
  have "evolves ?d [] (?d\<lparr>dn_table := snd (rt_add node (dn_table ?d))\<rparr>)"
    by (rule put_evolves [OF evolves_inv [OF d]]) (use False assms in \<open>auto simp: queried_def entry_fit_def\<close>)
  then have put: "evolves d [] (?d\<lparr>dn_table := snd (rt_add node (dn_table ?d))\<rparr>)" by (rule evolves_silent [OF d])
  have "snd (learn node d) = (if fst s then ?d\<lparr>dn_table := snd (rt_add node (dn_table ?d))\<rparr> else ?d)"
    using False by (simp add: learn_def s_def [symmetric] Let_def case_prod_beta)
  then show ?thesis using d put by simp
qed

end
