(* ===== verification/DhtTable.thy ===== *)
theory DhtTable
  imports DhtLaws "HOL-Library.Multiset"
begin

text \<open>
  The routing table against its specifications: the order of distances, the nearest entries, the table
  as a map from ids to contacts, the text form of an id, and the address filter as a list of networks.
\<close>

lemma unat_byte_lt: "unat (b :: byte) < 256"
proof -
  have "unat b < 2 ^ LENGTH(8)" by (rule unsigned_less)
  then show ?thesis by simp
qed

section \<open>Distance and buckets\<close>

lemma leading_zeros8_bounds:
  assumes "b \<noteq> 0"
  shows "2 ^ (7 - leading_zeros8 b) \<le> unat b" "unat b < 2 ^ (8 - leading_zeros8 b)"
proof -
  have "list_all (\<lambda>n. n = 0 \<or> (2 ^ (7 - leading_zeros8 (word_of_nat n)) \<le> n
    \<and> n < 2 ^ (8 - leading_zeros8 (word_of_nat n)))) [0..<256]" by code_simp
  then have "\<forall>n \<in> set [0..<256]. n = 0 \<or> (2 ^ (7 - leading_zeros8 (word_of_nat n)) \<le> n
    \<and> n < 2 ^ (8 - leading_zeros8 (word_of_nat n)))" by (simp only: list_all_iff)
  from bspec [OF this, of "unat b"] have "unat b = 0 \<or> (2 ^ (7 - leading_zeros8 (word_of_nat (unat b))) \<le> unat b
    \<and> unat b < 2 ^ (8 - leading_zeros8 (word_of_nat (unat b))))"
    using unsigned_less [of b] by simp
  then show "2 ^ (7 - leading_zeros8 b) \<le> unat b" "unat b < 2 ^ (8 - leading_zeros8 b)"
    using assms by (auto simp: unat_eq_0)
qed

lemma leading_zeros8_order:
  assumes "x \<noteq> 0" "y \<noteq> 0" "leading_zeros8 x < leading_zeros8 y"
  shows "y < x"
proof -
  have "8 - leading_zeros8 y \<le> 7 - leading_zeros8 x" using assms(3) by simp
  then have "unat y < 2 ^ (7 - leading_zeros8 x)"
    using leading_zeros8_bounds(2) [OF assms(2)] power_increasing [of _ _ "2::nat"] by (meson less_le_trans one_le_numeral)
  then show ?thesis using leading_zeros8_bounds(1) [OF assms(1)] by (simp add: word_less_nat_alt)
qed

lemma bucket_from_ge: "bucket_from i bs = Some k \<Longrightarrow> i * 8 \<le> k"
  by (induction i bs rule: bucket_from.induct) (auto split: if_splits)

lemma bucket_from_order:
  assumes "length xs = length ys" "bucket_from i xs = Some k" "bucket_from i ys = Some l" "k < l"
  shows "ys < xs"
  using assms
proof (induction xs ys arbitrary: i rule: list_induct2)
  case (Cons x xs y ys)
  show ?case
  proof (cases "x = 0")
    case True
    then have k: "bucket_from (Suc i) xs = Some k" using Cons.prems by simp
    have "y = 0"
    proof (rule ccontr)
      assume "y \<noteq> 0"
      then show False using Cons.prems bucket_from_ge [OF k] leading_zeros8_lt [of y] by simp
    qed
    then show ?thesis using Cons.IH [OF k] Cons.prems True by simp
  next
    case False
    then have "y < x"
      using Cons.prems leading_zeros8_order [of x y] word_gt_0 by (cases "y = 0") auto
    then show ?thesis by simp
  qed
qed simp

text \<open>The order of the buckets: of two nodes in different buckets, the one in the bucket with the larger
  index is the nearer one. (The comment at \<open>bucket_index\<close> has it the other way round.)\<close>

lemma bucket_order:
  assumes "length self = ID_LEN" "length a = ID_LEN" "length b = ID_LEN"
    and "bucket_index (xor_id self a) = Some i" "bucket_index (xor_id self b) = Some j" "i < j"
  shows "xor_id self b < xor_id self a"
  using assms bucket_from_order [of "xor_id self a" "xor_id self b" 0 i j] by (simp add: bucket_index_def)

section \<open>The nearest entries\<close>

text \<open>\<open>closest\<close> returns the nearest entries of the whole table: as many as asked for (or all), none twice,
  ordered by distance, and no entry left out is nearer than one returned.\<close>

theorem closest_nearest:
  "\<exists>rest. mset (closest t target want @ rest) = mset (rt_all t)
    \<and> length (closest t target want) = min want (length (rt_all t))
    \<and> sorted (map (\<lambda>n. xor_id (n_id n) target) (closest t target want @ rest))"
proof -
  let ?s = "sort_key (\<lambda>n. xor_id (n_id n) target) (rt_all t)"
  show ?thesis by (rule exI [of _ "drop want ?s"]) (simp add: closest_def)
qed

section \<open>The table as a map\<close>

text \<open>The contacts of a table, by id.\<close>

definition table_map :: "routing_table \<Rightarrow> node_id \<rightharpoonup> dht_entry" where
  "table_map t = map_of (map (\<lambda>n. (n_id n, n)) (rt_all t))"

text \<open>The specification of an insertion: a known contact is refreshed; a new one is stored where its bucket
  has room, or in the place of a contact of its bucket silent for too long, the unverified and then the
  longest silent first; it is turned away when every contact of the bucket is fresh.\<close>

definition bucket_of :: "node_id \<Rightarrow> (node_id \<rightharpoonup> dht_entry) \<Rightarrow> node_id \<Rightarrow> dht_entry set" where
  "bucket_of self m i = {n \<in> ran m. bucket_index (xor_id self (n_id n)) = bucket_index (xor_id self i)}"

definition add_spec :: "node_id \<Rightarrow> dht_entry \<Rightarrow> (node_id \<rightharpoonup> dht_entry) \<Rightarrow> bool \<Rightarrow> (node_id \<rightharpoonup> dht_entry) \<Rightarrow> bool" where
  "add_spec self node m added m' \<longleftrightarrow>
     (let mates = bucket_of self m (n_id node);
          stale = {n \<in> mates. n_last_seen node - n_last_seen n > STALE_AFTER}
      in if n_id node = self then \<not> added \<and> m' = m
         else case m (n_id node) of
           Some e \<Rightarrow> \<not> added \<and> m' = m(n_id node \<mapsto> refreshed e node)
         | None \<Rightarrow>
             if card mates < K then added \<and> m' = m(n_id node \<mapsto> node)
             else if stale = {} then \<not> added \<and> m' = m
             else added \<and> (\<exists>v \<in> stale. (\<forall>n \<in> stale. evict_key v \<le> evict_key n)
                    \<and> m' = m(n_id v := None, n_id node \<mapsto> node)))"

lemma map_of_ids_iff:
  assumes "distinct (map n_id ns)"
  shows "map_of (map (\<lambda>n. (n_id n, n)) ns) i = Some n \<longleftrightarrow> n \<in> set ns \<and> n_id n = i"
proof -
  have "distinct (map fst (map (\<lambda>n. (n_id n, n)) ns))" using assms by (simp add: comp_def)
  from map_of_eq_Some_iff [OF this, of i n] show ?thesis by auto
qed

lemma bucket_member:
  assumes "table_inv policy t" "i < 160" "n \<in> set (rt_buckets t ! i)"
  shows "bucket_index (xor_id (rt_self_id t) (n_id n)) = Some i"
  using assms by (simp add: table_inv_def bucket_ok_def list_all_iff entry_ok_def)

lemma table_ids_distinct:
  assumes "table_inv policy t"
  shows "distinct (map n_id (rt_all t))"
proof -
  have len: "length (rt_buckets t) = 160" using assms by (simp add: table_inv_def)
  have each: "distinct (map n_id (rt_buckets t ! i))" if "i < 160" for i
    using assms that by (simp add: table_inv_def bucket_ok_def)
  have apart: "i = j" if ij: "i < 160" "j < 160" and n: "n \<in> set (rt_buckets t ! i)" "m \<in> set (rt_buckets t ! j)" "n_id n = n_id m" for i j n m
    using bucket_member [OF assms ij(1) n(1)] bucket_member [OF assms ij(2) n(2)] n(3) by simp
  have "distinct (concat (map (\<lambda>i. map n_id (rt_buckets t ! i)) is))" if "distinct is" "set is \<subseteq> {..<160}" for "is"
    using that by (induction "is") (use each apart in \<open>fastforce\<close>)+
  moreover have "set [0..<160] \<subseteq> {..<160}" by auto
  ultimately have "distinct (concat (map (\<lambda>i. map n_id (rt_buckets t ! i)) [0..<160]))" using distinct_upt by blast
  moreover have "map (\<lambda>i. map n_id (rt_buckets t ! i)) [0..<160] = map (map n_id) (rt_buckets t)"
    by (rule nth_equalityI) (simp_all add: len)
  ultimately show ?thesis by (simp add: rt_all_def map_concat)
qed

lemma table_map_iff: "table_inv policy t \<Longrightarrow> table_map t i = Some n \<longleftrightarrow> n \<in> set (rt_all t) \<and> n_id n = i"
  unfolding table_map_def by (rule map_of_ids_iff [OF table_ids_distinct])

lemma table_map_eqI:
  assumes "table_inv policy t" "\<And>i n. n \<in> set (rt_all t) \<and> n_id n = i \<longleftrightarrow> m i = Some n"
  shows "table_map t = m"
proof
  show "table_map t i = m i" for i
    using assms(2) [of _ i] table_map_iff [OF assms(1), of i] by (metis not_None_eq)
qed

text \<open>The members of one bucket, and the entries outside it.\<close>

lemma bucket_of_table:
  assumes "table_inv policy t" "bucket_index (xor_id (rt_self_id t) i) = Some idx" "idx < 160"
  shows "bucket_of (rt_self_id t) (table_map t) i = set (rt_buckets t ! idx)"
proof -
  have "rt_buckets t ! idx \<in> set (rt_buckets t)" using assms(1,3) by (simp add: table_inv_def)
  then have sub: "set (rt_buckets t ! idx) \<subseteq> set (rt_all t)" by (auto simp: rt_all_def)
  have "ran (table_map t) = set (rt_all t)" using table_map_iff [OF assms(1)] by (auto simp: ran_def)
  then show ?thesis
    using sub bucket_member [OF assms(1,3)] rt_all_entries [OF assms(1)] assms(2)
    by (fastforce simp: bucket_of_def entry_ok_def)
qed

lemma rt_all_update:
  assumes "table_inv policy t" "idx < 160"
  shows "set (rt_all (t\<lparr>rt_buckets := (rt_buckets t)[idx := b]\<rparr>))
    = {n \<in> set (rt_all t). bucket_index (xor_id (rt_self_id t) (n_id n)) \<noteq> Some idx} \<union> set b"
proof -
  have len: "length (rt_buckets t) = 160" using assms by (simp add: table_inv_def)
  have "(\<exists>j < 160. n \<in> set ((rt_buckets t)[idx := b] ! j)) \<longleftrightarrow>
      (\<exists>j < 160. n \<in> set (rt_buckets t ! j) \<and> j \<noteq> idx) \<or> n \<in> set b" for n
    using assms(2) len by (auto simp: nth_list_update split: if_splits)
  moreover have "(\<exists>j < 160. n \<in> set (rt_buckets t ! j) \<and> j \<noteq> idx) \<longleftrightarrow>
      (\<exists>j < 160. n \<in> set (rt_buckets t ! j)) \<and> bucket_index (xor_id (rt_self_id t) (n_id n)) \<noteq> Some idx" for n
    using bucket_member [OF assms(1)] by (metis option.inject)
  moreover have "n \<in> set (concat bs) \<longleftrightarrow> (\<exists>j < 160. n \<in> set (bs ! j))" if "length bs = 160" for n and bs :: "dht_entry list list"
    using that by (auto simp: in_set_conv_nth [of _ bs]) (metis nth_mem)
  ultimately show ?thesis by (auto simp: rt_all_def len simp del: set_concat)
qed


text \<open>C34. The routing table refines a map from ids to contacts: \<open>add\<close> on buckets does what the specification
  of an insertion says, the returned flag included.\<close>

theorem rt_add_refines:
  assumes inv: "table_inv policy t" and node: "length (n_id node) = ID_LEN" "accepts policy (fst (n_udp node)) (n_p2p_port node)"
  shows "add_spec (rt_self_id t) node (table_map t) (fst (rt_add node t)) (table_map (snd (rt_add node t)))"
proof (cases "bucket_index (xor_id (rt_self_id t) (n_id node))")
  case None
  then have "n_id node = rt_self_id t" using bucket_index_None [of "rt_self_id t" "n_id node"] inv node(1) by (simp add: table_inv_def)
  then show ?thesis using None by (simp add: add_spec_def rt_add_def)
next
  case (Some idx)
  have idx: "idx < 160" by (rule bucket_index_lt [OF _ node(1) Some]) (use inv in \<open>simp add: table_inv_def\<close>)
  have other: "n_id node \<noteq> rt_self_id t" using Some bucket_index_None [of "rt_self_id t" "n_id node"] inv node(1) by (auto simp: table_inv_def)
  let ?b = "rt_buckets t ! idx"
  obtain added b' where b: "bucket_add node ?b = (added, b')" by fastforce
  then have add: "rt_add node t = (added, t\<lparr>rt_buckets := (rt_buckets t)[idx := b']\<rparr>)" by (simp add: rt_add_def Some)
  note inv' = rt_add_inv(1) [OF inv node add]
  have mates: "bucket_of (rt_self_id t) (table_map t) (n_id node) = set ?b" by (rule bucket_of_table [OF inv Some idx])
  have dist: "distinct (map n_id ?b)" using inv idx by (simp add: table_inv_def bucket_ok_def)
  have card: "card (set ?b) = length ?b" using dist by (simp add: distinct_map distinct_card)
  have mem: "n \<in> set ?b \<longleftrightarrow> n \<in> set (rt_all t) \<and> bucket_index (xor_id (rt_self_id t) (n_id n)) = Some idx" for n
    using rt_all_update [OF inv idx, of ?b] bucket_member [OF inv idx] by auto
  have find: "table_map t (n_id node) = Some e \<longleftrightarrow> e \<in> set ?b \<and> n_id e = n_id node" for e
    using table_map_iff [OF inv] mem Some by auto
  have new: "table_map (snd (rt_add node t)) = m" if "\<And>i n. ((n \<in> set (rt_all t) \<and> bucket_index (xor_id (rt_self_id t) (n_id n)) \<noteq> Some idx) \<or> n \<in> set b') \<and> n_id n = i \<longleftrightarrow> m i = Some n" for m
    using table_map_eqI [OF inv', of m] rt_all_update [OF inv idx, of b'] that add by simp
  have one: "m = n" if "m \<in> set ?b" "n \<in> set ?b" "n_id m = n_id n" for m n
    using dist that by (auto simp: distinct_map dest: inj_onD)
  note spec = add_spec_def Let_def mates card add fst_conv if_not_P [OF other]
  from b show ?thesis
  proof (cases rule: bucket_add_cases)
    case (seen e)
    have "set b' = set ?b - {e} \<union> {refreshed e node}" using seen(4) dist by (simp add: distinct_map)
    then have "table_map (snd (rt_add node t)) = (table_map t)(n_id node \<mapsto> refreshed e node)"
      by (intro new) (use seen(1,2) one mem table_map_iff [OF inv] Some in auto)
    then show ?thesis using seen find [of e] by (simp add: spec)
  next
    case room
    then have none: "table_map t (n_id node) = None" using find by (metis image_eqI not_None_eq)
    then have absent: "n \<in> set (rt_all t) \<Longrightarrow> n_id n \<noteq> n_id node" for n using table_map_iff [OF inv, of "n_id node" n] by auto
    have "table_map (snd (rt_add node t)) = (table_map t)(n_id node \<mapsto> node)"
      by (intro new) (use room absent mem table_map_iff [OF inv] Some in auto)
    then show ?thesis using room none by (simp add: spec)
  next
    case (evict v xs ys)
    then have none: "table_map t (n_id node) = None" using find by (metis image_eqI not_None_eq)
    then have absent: "n \<in> set (rt_all t) \<Longrightarrow> n_id n \<noteq> n_id node" for n using table_map_iff [OF inv, of "n_id node" n] by auto
    note v = oldest_stale_Some [OF evict(3)]
    have vn: "n_id v \<noteq> n_id node" using v(1) evict(1) by (metis image_eqI)
    have "set b' = set ?b - {v} \<union> {node}" using evict(4,6) dist by auto
    then have "table_map (snd (rt_add node t)) = (table_map t)(n_id v := None, n_id node \<mapsto> node)"
      by (intro new) (use v(1) vn vn [symmetric] absent one mem table_map_iff [OF inv] Some in auto)
    then show ?thesis using evict(2,5) none v by (auto simp: spec)
  next
    case full
    then have none: "table_map t (n_id node) = None" using find by (metis image_eqI not_None_eq)
    have "table_map (snd (rt_add node t)) = table_map t"
      by (intro new) (use full mem table_map_iff [OF inv] in auto)
    then show ?thesis using full none by (auto simp: spec oldest_stale_None)
  qed
qed


text \<open>A table of two nodes: the second replaces nothing, the first is refreshed.\<close>

definition demo_entry :: "byte \<Rightarrow> dht_entry" where
  "demo_entry b = \<lparr>n_id = b # replicate 19 0, n_udp = (IpV4 9 9 9 b, 4000), n_p2p_port = 4001, n_verified = False, n_last_seen = 0\<rparr>"

theorem rt_add_refines_witness:
  "add_spec (replicate 20 0) (demo_entry 7) (table_map (RoutingTable_new (replicate 20 0))) True
     (table_map (snd (rt_add (demo_entry 7) (RoutingTable_new (replicate 20 0)))))"
proof -
  let ?t = "RoutingTable_new (replicate 20 0)"
  have "accepts PublicOnly (fst (n_udp (demo_entry 7))) (n_p2p_port (demo_entry 7))" by code_simp
  moreover have "length (n_id (demo_entry 7)) = ID_LEN" by (simp add: demo_entry_def ID_LEN_def)
  moreover have "table_inv PublicOnly ?t" by (rule table_inv_new) (simp add: ID_LEN_def)
  ultimately have "add_spec (rt_self_id ?t) (demo_entry 7) (table_map ?t) (fst (rt_add (demo_entry 7) ?t))
      (table_map (snd (rt_add (demo_entry 7) ?t)))" by (intro rt_add_refines)
  moreover have "fst (rt_add (demo_entry 7) ?t)" by code_simp
  ultimately show ?thesis by (simp add: RoutingTable_new_def)
qed

section \<open>The text of an id\<close>

lemma of_hex_digit: "n < 16 \<Longrightarrow> of_char (hex_digit n) = (if n < 10 then 48 + n else 87 + n)"
  by (simp add: hex_digit_def)

lemma hex_value_digit: "n < 16 \<Longrightarrow> hex_value (hex_digit n) = Some n"
  by (simp add: hex_value_def of_hex_digit)

lemma hex_digit_plus: "n < 16 \<Longrightarrow> hex_digit n \<noteq> CHR ''+''"
  using of_hex_digit [of n] by (auto split: if_splits)

lemma byte_of_hex_digits: "byte_of_hex (hex_digit (unat b div 16)) (hex_digit (unat b mod 16)) = Some b"
proof -
  have "unat b div 16 < 16" using unat_byte_lt [of b] by simp
  then show ?thesis by (simp add: hex_value_digit hex_digit_plus)
qed

lemma unhex_pairs_hex: "unhex_pairs (hex_id i) = Some i"
  by (induction i) (simp_all add: hex_id_def byte_of_hex_digits del: byte_of_hex.simps)

lemma length_hex_id: "length (hex_id i) = 2 * length i"
  by (induction i) (simp_all add: hex_id_def)

lemma unhex_hex: "length i = ID_LEN \<Longrightarrow> unhex (hex_id i) = Some i"
  by (simp add: unhex_def unhex_pairs_hex length_hex_id)

section \<open>The address filter\<close>

text \<open>An IPv4 address as a number, and the networks \<open>base/len\<close> it may lie in.\<close>

definition v4_number :: "byte \<Rightarrow> byte \<Rightarrow> byte \<Rightarrow> byte \<Rightarrow> nat" where
  "v4_number a b c d = ((unat a * 256 + unat b) * 256 + unat c) * 256 + unat d"

definition in_network :: "nat \<Rightarrow> (byte \<times> byte \<times> byte \<times> byte) \<times> nat \<Rightarrow> bool" where
  "in_network x net = (case net of ((a, b, c, d), len) \<Rightarrow> x div 2 ^ (32 - len) = v4_number a b c d div 2 ^ (32 - len))"

text \<open>The special-purpose registry, as far as the filter covers it.\<close>

definition special_v4 :: "((byte \<times> byte \<times> byte \<times> byte) \<times> nat) list" where
  "special_v4 =
     [((0, 0, 0, 0), 8), ((10, 0, 0, 0), 8), ((100, 64, 0, 0), 10), ((127, 0, 0, 0), 8),
      ((169, 254, 0, 0), 16), ((172, 16, 0, 0), 12), ((192, 0, 2, 0), 24), ((192, 168, 0, 0), 16),
      ((198, 18, 0, 0), 15), ((198, 51, 100, 0), 24), ((203, 0, 113, 0), 24), ((224, 0, 0, 0), 4),
      ((240, 0, 0, 0), 4)]"

lemma v4_prefix:
  "v4_number a b c d div 2 ^ 24 = unat a"
  "v4_number a b c d div 2 ^ 28 = unat a div 16"
  "v4_number a b c d div 2 ^ 22 = unat a * 4 + unat b div 64"
  "v4_number a b c d div 2 ^ 20 = unat a * 16 + unat b div 16"
  "v4_number a b c d div 2 ^ 17 = unat a * 128 + unat b div 2"
  "v4_number a b c d div 2 ^ 16 = unat a * 256 + unat b"
  "v4_number a b c d div 2 ^ 8 = (unat a * 256 + unat b) * 256 + unat c"
proof -
  have "unat a < 256" "unat b < 256" "unat c < 256" "unat d < 256" by (rule unat_byte_lt)+
  then show "v4_number a b c d div 2 ^ 24 = unat a"
  "v4_number a b c d div 2 ^ 28 = unat a div 16"
  "v4_number a b c d div 2 ^ 22 = unat a * 4 + unat b div 64"
  "v4_number a b c d div 2 ^ 20 = unat a * 16 + unat b div 16"
  "v4_number a b c d div 2 ^ 17 = unat a * 128 + unat b div 2"
  "v4_number a b c d div 2 ^ 16 = unat a * 256 + unat b"
  "v4_number a b c d div 2 ^ 8 = (unat a * 256 + unat b) * 256 + unat c"
    unfolding v4_number_def by simp_all
qed


lemma mult_add_eq_iff:
  fixes a x m k :: nat
  assumes "x < m"
  shows "a * m + x = k \<longleftrightarrow> a = k div m \<and> x = k mod m"
  using assms by auto

lemma special_v4_ranges:
  "list_ex (in_network (v4_number a b c d)) special_v4 \<longleftrightarrow>
      unat a = 0 \<or> unat a = 10 \<or> unat a = 100 \<and> unat b div 64 = 1 \<or> unat a = 127
      \<or> unat a = 169 \<and> unat b = 254 \<or> unat a = 172 \<and> unat b div 16 = 1
      \<or> unat a = 192 \<and> unat b = 0 \<and> unat c = 2 \<or> unat a = 192 \<and> unat b = 168
      \<or> unat a = 198 \<and> unat b div 2 = 9 \<or> unat a = 198 \<and> unat b = 51 \<and> unat c = 100
      \<or> unat a = 203 \<and> unat b = 0 \<and> unat c = 113 \<or> unat a div 16 = 14 \<or> unat a div 16 = 15"
proof -
  have lt: "unat b div 64 < 4" "unat b div 16 < 16" "unat b div 2 < 128" "unat b < 256" "unat c < 256"
    using unat_byte_lt [of b] unat_byte_lt [of c] by auto
  have "65536 * unat a + unat b * 256 + unat c = (unat a * 256 + unat b) * 256 + unat c" by simp
  then have "65536 * unat a + unat b * 256 + unat c = k
      \<longleftrightarrow> unat a = k div 256 div 256 \<and> unat b = k div 256 mod 256 \<and> unat c = k mod 256" for k
    by (simp only: lt(4,5) [THEN mult_add_eq_iff] conj_assoc)
  then show ?thesis
    by (simp add: special_v4_def in_network_def v4_prefix [simplified] lt [THEN mult_add_eq_iff])
qed

lemma is_routable_v4_ranges:
  "is_routable_v4 a b c d \<longleftrightarrow> \<not> ((unat a = 0 \<and> unat b = 0 \<and> unat c = 0 \<and> unat d = 0) \<or> unat a = 127
      \<or> (unat a = 10 \<or> unat a = 172 \<and> 16 \<le> unat b \<and> unat b \<le> 31 \<or> unat a = 192 \<and> unat b = 168)
      \<or> unat a = 169 \<and> unat b = 254
      \<or> unat a = 255 \<and> unat b = 255 \<and> unat c = 255 \<and> unat d = 255
      \<or> 224 \<le> unat a \<and> unat a \<le> 239
      \<or> (unat a = 192 \<and> unat b = 0 \<and> unat c = 2 \<or> unat a = 198 \<and> unat b = 51 \<and> unat c = 100
          \<or> unat a = 203 \<and> unat b = 0 \<and> unat c = 113)
      \<or> unat a = 0 \<or> unat a = 100 \<and> 64 \<le> unat b \<and> unat b < 128 \<or> unat a = 198 \<and> (unat b = 18 \<or> unat b = 19) \<or> 240 \<le> unat a)"
  by (simp add: is_routable_v4_def v4_private_def v4_link_local_def v4_documentation_def Let_def
      word_unat_eq_iff word_le_nat_alt word_less_nat_alt)

text \<open>The IPv4 filter is exactly membership in none of the listed networks: this network, the private,
  shared, loopback, link-local, documentation, benchmarking, multicast and reserved ranges.\<close>

theorem is_routable_v4_networks:
  "is_routable_v4 a b c d \<longleftrightarrow> \<not> list_ex (in_network (v4_number a b c d)) special_v4"
proof -
  have b: "unat b div 64 = 1 \<longleftrightarrow> 64 \<le> unat b \<and> unat b < 128" "unat b div 16 = 1 \<longleftrightarrow> 16 \<le> unat b \<and> unat b \<le> 31"
    "unat b div 2 = 9 \<longleftrightarrow> unat b = 18 \<or> unat b = 19" by auto
  have a: "unat a div 16 = 14 \<longleftrightarrow> 224 \<le> unat a \<and> unat a \<le> 239" "unat a div 16 = 15 \<longleftrightarrow> 240 \<le> unat a"
    using unat_byte_lt [of a] by auto
  have "unat a = 255 \<Longrightarrow> 240 \<le> unat a" by simp
  then show ?thesis unfolding is_routable_v4_ranges special_v4_ranges a b by argo
qed

end
