(* ===== verification/DhtProps.thy ===== *)
theory DhtProps
  imports DhtTable "HOL-Library.Code_Target_Nat"
begin

text \<open>
  The overlay as a state machine: the periodic tasks and the arrival of a datagram, in any order, with
  any contents; and what holds in every state so reached.
\<close>

lemma absorb_evolves: "dht_inv d \<Longrightarrow> evolves d [] (absorb_each A now recs d)"
proof (induction recs arbitrary: d)
  case (Cons r rs)
  let ?d = "case (unhex (r_id r), ip_parse A (r_ip r)) of
          (Some i, Some ip) \<Rightarrow>
            snd (learn \<lparr>n_id = i, n_udp = (ip, r_udp_port r), n_p2p_port = r_p2p_port r,
                        n_verified = False, n_last_seen = now\<rparr> d)
        | _ \<Rightarrow> d"
  have d: "evolves d [] ?d"
    using Cons.prems by (auto split: option.split intro!: learn_evolves dest: unhex_length)
  show ?case using evolves_silent [OF d Cons.IH [OF evolves_inv [OF d]]] by simp
qed simp

lemma import_evolves: "dht_inv d \<Longrightarrow> evolves d [] (import_each A now recs d)"
proof (induction recs arbitrary: d)
  case (Cons r rs)
  let ?d = "case (unhex (r_id r), ip_parse A (r_ip r)) of
          (Some i, Some ip) \<Rightarrow>
            if i = dn_self_id d \<or> \<not> accepts (dn_policy d) ip (r_udp_port r)
               \<or> \<not> is_contactable_port (r_p2p_port r) then d
            else d\<lparr>dn_table := snd (rt_add
                   \<lparr>n_id = i, n_udp = (ip, r_udp_port r), n_p2p_port = r_p2p_port r,
                    n_verified = False, n_last_seen = now\<rparr> (dn_table d))\<rparr>
        | _ \<Rightarrow> d"
  have d: "evolves d [] ?d"
    using Cons.prems by (auto split: option.split intro!: put_evolves dest: unhex_length simp: accepts_def entry_fit_def)
  show ?case using evolves_silent [OF d Cons.IH [OF evolves_inv [OF d]]] by simp
qed simp

lemma verify_evolves:
  assumes inv: "dht_inv d" and "src \<in> queried d"
  shows "evolves d [] (d\<lparr>dn_table := mark_verified now src (dn_table d)\<rparr>)"
proof -
  have "n_udp n \<in> queried d" if n: "n \<in> set (rt_all (mark_verified now src (dn_table d)))" "n_verified n" for n
    using n inv assms(2) by (auto simp: rt_all_def mark_verified_def dht_inv_def split: if_splits)
  then show ?thesis using inv mark_verified_inv [of "dn_policy d" "dn_table d" now src]
    by (auto simp: evolves_def dht_inv_def queried_def mark_verified_def)
qed

lemma take_pending_key: "fst (take_pending addr now s) \<Longrightarrow> addr \<in> fst ` set (ss_pending s)"
  by (auto simp: take_pending_def dest!: map_of_SomeD split: option.splits intro: rev_image_eqI)

lemma take_pending_keys: "fst ` set (ss_pending (snd (take_pending addr now s))) \<subseteq> fst ` set (ss_pending s)"
  by (auto simp: take_pending_def AList.delete_eq split: option.splits)

text \<open>The handler's first two steps: \<open>d2\<close> is the state once the source has been judged.\<close>

lemma hear_sender_cases:
  assumes inv: "dht_inv d"
  obtains sol s d2 where
    "sol \<Longrightarrow> is_answer msg \<and> src \<in> queried d" "evolves d [] d2"
    "d2 = (if sol then d\<lparr>dn_sources := s, dn_table := mark_verified now src (dn_table d)\<rparr> else d\<lparr>dn_sources := s\<rparr>)"
    "unhex (fst (msg_sender msg)) = None \<Longrightarrow> hear_sender now msg src d = d2"
    "\<And>i. unhex (fst (msg_sender msg)) = Some i \<Longrightarrow> hear_sender now msg src d =
       snd (learn \<lparr>n_id = i, n_udp = src, n_p2p_port = snd (msg_sender msg), n_verified = sol, n_last_seen = now\<rparr> d2)"
proof -
  define tp where "tp = (if is_answer msg then take_pending src now (dn_sources d) else (False, dn_sources d))"
  obtain sol s where tp: "tp = (sol, s)" by fastforce
  obtain a p where m: "msg_sender msg = (a, p)" by fastforce
  have s: "s = snd tp" and sol: "sol = fst tp" using tp by simp_all
  let ?d1 = "d\<lparr>dn_sources := s\<rparr>"
  have d1: "evolves d [] ?d1"
    by (rule sources_evolve [OF inv]) (use inv_sources [OF inv] take_pending_keys in \<open>auto simp: s tp_def sources_steps\<close>)
  have q: "is_answer msg \<and> src \<in> queried d" if sol
    using that take_pending_key [of src now "dn_sources d"] inv by (auto simp: sol tp_def dht_inv_def split: if_splits)
  let ?d2 = "if sol then d\<lparr>dn_sources := s, dn_table := mark_verified now src (dn_table d)\<rparr> else ?d1"
  have "evolves ?d1 [] ?d2"
    using verify_evolves [OF evolves_inv [OF d1], of src now] evolves_inv [OF d1] q evolves_queried [OF d1] by auto
  then have d2: "evolves d [] ?d2" by (rule evolves_silent [OF d1])
  show thesis
    by (rule that [OF q d2 refl]) (simp_all add: hear_sender_def tp_def [symmetric] tp m Let_def)
qed

lemma hear_sender_evolves:
  assumes inv: "dht_inv d"
  shows "evolves d [] (hear_sender now msg src d)"
proof (rule hear_sender_cases [OF inv, of msg src now])
  fix sol d2
  assume q: "sol \<Longrightarrow> is_answer msg \<and> src \<in> queried d" and d2: "evolves d [] d2"
    and none: "unhex (fst (msg_sender msg)) = None \<Longrightarrow> hear_sender now msg src d = d2"
    and some: "\<And>i. unhex (fst (msg_sender msg)) = Some i \<Longrightarrow> hear_sender now msg src d =
       snd (learn \<lparr>n_id = i, n_udp = src, n_p2p_port = snd (msg_sender msg), n_verified = sol, n_last_seen = now\<rparr> d2)"
  show ?thesis
  proof (cases "unhex (fst (msg_sender msg))")
    case (Some i)
    have "evolves d [] (snd (learn \<lparr>n_id = i, n_udp = src, n_p2p_port = snd (msg_sender msg), n_verified = sol, n_last_seen = now\<rparr> d2))"
      by (rule evolves_silent [OF d2 learn_evolves [OF evolves_inv [OF d2]]])
        (use unhex_length [OF Some] q evolves_queried [OF d2] in auto)
    then show ?thesis using some [OF Some] by simp
  qed (use none d2 in simp)
qed

lemma challenge_evolves:
  assumes inv: "dht_inv d"
  shows "\<exists>l. set l \<subseteq> {(my_ping d, addr)} \<and> length l \<le> 1 \<and>
    evolves d l (let (allowed, s) = allow_ping addr now (dn_sources d); d' = d\<lparr>dn_sources := s\<rparr>
      in if allowed then dht_send now (my_ping d') addr d' else d')"
proof -
  let ?d = "d\<lparr>dn_sources := snd (allow_ping addr now (dn_sources d))\<rparr>"
  note d = allow_ping_evolves [OF inv, of addr now]
  note s = evolves_silent [OF d send_evolves [OF evolves_inv [OF d], of addr "my_ping ?d" now]]
  have m: "my_ping ?d = my_ping d" by (simp add: my_ping_def)
  show ?thesis
  proof (cases "fst (allow_ping addr now (dn_sources d))")
    case True
    then show ?thesis using s by (intro exI conjI) (auto simp: case_prod_beta Let_def m split: if_splits)
  next
    case False
    then show ?thesis using d by (intro exI [of _ "[]"]) (simp add: case_prod_beta Let_def)
  qed
qed


text \<open>The most records an answer carries.\<close>

fun record_count :: "dht_msg \<Rightarrow> nat" where
  "record_count (Nodes _ _ recs) = length recs"
| "record_count _ = 0"

text \<open>What a handler may send: to the source alone, at most two datagrams, and more than the two
  records of an unproved source only to an address that was queried.\<close>

definition modest :: "dht_node \<Rightarrow> sock_addr \<Rightarrow> (dht_msg \<times> sock_addr) list \<Rightarrow> bool" where
  "modest d src l \<longleftrightarrow> length l \<le> 2 \<and> list_all (\<lambda>(m, a). a = src
     \<and> record_count m \<le> (if is_verified_source (dn_table d) src then K else K_UNVERIFIED)) l"

lemma modest_send:
  assumes "dht_inv d" "record_count m \<le> (if is_verified_source (dn_table d) src then K else K_UNVERIFIED)"
  shows "\<exists>l. modest d src l \<and> length l \<le> 1 \<and> evolves d l (dht_send now m src d)"
  using send_evolves [OF assms(1), of src m now] assms(2)
  by (intro exI [of _ "if accepts_ip (dn_policy d) (fst src) then [(m, src)] else []"]) (auto simp: modest_def)

lemma answer_find_evolves:
  assumes inv: "dht_inv d"
  shows "\<exists>l. modest d src l \<and> evolves d l (answer_find A now target src d)"
proof -
  define v where "v = is_verified_source (dn_table d) src"
  define tgt where "tgt = (case unhex target of Some t \<Rightarrow> t | None \<Rightarrow> dn_self_id d)"
  define m where "m = Nodes (hex_id (dn_self_id d)) (dn_p2p_port d)
    (map (node_rec_of A) (closest (dn_table d) tgt (if v then K else K_UNVERIFIED)))"
  define d1 where "d1 = dht_send now m src d"
  have "record_count m \<le> (if is_verified_source (dn_table d) src then K else K_UNVERIFIED)"
    by (simp add: m_def closest_def v_def)
  then obtain l where l: "modest d src l" "length l \<le> 1" "evolves d l d1"
    using modest_send [OF inv] unfolding d1_def by blast
  from challenge_evolves [OF evolves_inv [OF l(3)], of src now] obtain l' where
    l': "set l' \<subseteq> {(my_ping d1, src)}" "length l' \<le> 1" and
    e: "evolves d1 l' (let (allowed, s) = allow_ping src now (dn_sources d1); d' = d1\<lparr>dn_sources := s\<rparr>
      in if allowed then dht_send now (my_ping d') src d' else d')" by blast
  have "modest d src (l @ l')" using l l' by (auto simp: modest_def my_ping_def list_all_iff K_def K_UNVERIFIED_def)
  moreover have "answer_find A now target src d = (if v then d1 else
    (let (allowed, s) = allow_ping src now (dn_sources d1); d' = d1\<lparr>dn_sources := s\<rparr>
      in if allowed then dht_send now (my_ping d') src d' else d'))"
    by (simp add: answer_find_def v_def d1_def m_def tgt_def Let_def)
  ultimately show ?thesis using l(1,3) evolves_trans [OF l(3) e] by (cases v) auto
qed

lemma handle_evolves:
  assumes inv: "dht_inv d"
  shows "\<exists>l. modest (hear_sender now msg src d) src l \<and> evolves d l (handle A now msg src d)"
proof -
  let ?d = "hear_sender now msg src d"
  have nil: "modest ?d src []" by (simp add: modest_def)
  note d1 = hear_sender_evolves [OF inv, of now msg src]
  note inv1 = evolves_inv [OF d1]
  show ?thesis
  proof (cases "accepts_ip (dn_policy d) (fst src)")
    case False
    then show ?thesis using inv nil by (auto simp: handle_def)
  next
    case ok: True
    have "\<exists>l. modest ?d src l \<and> evolves ?d l (handle A now msg src d)"
    proof (cases msg)
      case (Ping a b)
      show ?thesis using modest_send [OF inv1, of "Pong (hex_id (dn_self_id ?d)) (dn_p2p_port ?d)" src now] ok Ping
        by (auto simp: handle_def Let_def)
    next
      case (FindNode a b t)
      then show ?thesis using answer_find_evolves [OF inv1] ok by (simp add: handle_def)
    next
      case (Nodes a b recs)
      then show ?thesis using absorb_evolves [OF inv1] nil ok by (auto simp: handle_def)
    next
      case (Pong a b)
      then show ?thesis using inv1 nil ok by (auto simp: handle_def)
    qed
    then show ?thesis using evolves_silent [OF d1] by blast
  qed
qed

lemma bootstrap_evolves: "dht_inv d \<Longrightarrow> \<exists>l. evolves d l (bootstrap resolve now addrs d)"
  unfolding bootstrap_def by (rule evolves_fold) (auto split: option.split intro: send_evolves)

lemma refresh_evolves:
  assumes "dht_inv d"
  shows "\<exists>l. evolves d l (refresh now d)"
proof -
  have inner: "dht_inv d \<Longrightarrow> \<exists>l. evolves d l (fold (\<lambda>n d. dht_send now (my_find d t) (n_udp n) d) ns d)" for t ns d
    by (rule evolves_fold, assumption, rule exI, erule send_evolves)
  obtain l where l: "evolves d l (fold (\<lambda>t. fold (\<lambda>n d. dht_send now (my_find d t) (n_udp n) d)
      (closest (dn_table d) (dn_self_id d) K)) (refresh_targets (dn_self_id d)) d)" (is "evolves d l ?d1")
    using evolves_fold [OF assms, of "\<lambda>t. fold (\<lambda>n d. dht_send now (my_find d t) (n_udp n) d)
      (closest (dn_table d) (dn_self_id d) K)"] inner by blast
  let ?ping = "\<lambda>addr d. let (allowed, s) = allow_ping addr now (dn_sources d); d' = d\<lparr>dn_sources := s\<rparr>
    in if allowed then dht_send now (my_ping d') addr d' else d'"
  have "\<exists>l. evolves d l (?ping addr d)" if "dht_inv d" for addr d
    using challenge_evolves [OF that, of addr now] by blast
  then obtain l' where "evolves ?d1 l' (refresh now d)"
    using evolves_fold [OF evolves_inv [OF l], of ?ping] unfolding refresh_def Let_def by blast
  then show ?thesis using evolves_trans [OF l] by blast
qed


section \<open>Runs\<close>

text \<open>\<open>heard\<close> is what has arrived so far, the latest last. The clock is not assumed to advance.\<close>

inductive dht_run :: "'f env \<Rightarrow> ip_text \<Rightarrow> (string \<Rightarrow> sock_addr option) \<Rightarrow> string \<Rightarrow> u16 \<Rightarrow> addr_policy
    \<Rightarrow> (dht_msg \<times> sock_addr) list \<Rightarrow> dht_node \<Rightarrow> bool"
  for E A resolve peer port policy where
  start: "dht_run E A resolve peer port policy [] (DhtNode_new E peer port policy)"
| datagram: "dht_run E A resolve peer port policy heard d \<Longrightarrow>
    dht_run E A resolve peer port policy (heard @ [(msg, src)]) (handle A now msg src d)"
| refreshes: "dht_run E A resolve peer port policy heard d \<Longrightarrow>
    dht_run E A resolve peer port policy heard (refresh now d)"
| bootstraps: "dht_run E A resolve peer port policy heard d \<Longrightarrow>
    dht_run E A resolve peer port policy heard (bootstrap resolve now addrs d)"
| restores: "dht_run E A resolve peer port policy heard d \<Longrightarrow>
    dht_run E A resolve peer port policy heard (import_nodes A now recs d)"

lemma new_inv: "blake3_len E \<Longrightarrow> dht_inv (DhtNode_new E peer port policy)"
  using table_inv_new [of "id_from_peer E peer" policy]
  by (simp add: dht_inv_def DhtNode_new_def Let_def id_from_peer_def blake3_len_def const_simps
      RoutingTable_new_def rt_all_def SourceState_default_def sources_inv_def small_map_def)

lemma run_inv:
  assumes "dht_run E A resolve peer port policy heard d" "blake3_len E"
  shows "dht_inv d \<and> dn_policy d = policy \<and> dn_self_id d = id_from_peer E peer"
  using assms
proof induction
  case start
  then show ?case using new_inv by (simp add: DhtNode_new_def Let_def)
next
  case (datagram heard d msg src now)
  then show ?case using handle_evolves [of d now msg src A] by (auto simp: evolves_def)
next
  case (refreshes heard d now)
  then show ?case using refresh_evolves [of d now] by (auto simp: evolves_def)
next
  case (bootstraps heard d now addrs)
  then show ?case using bootstrap_evolves [of d resolve now addrs] by (auto simp: evolves_def)
next
  case (restores heard d now recs)
  then show ?case using import_evolves [of d A now] by (auto simp: evolves_def import_nodes_def)
qed


section \<open>Proved addresses\<close>

definition proved :: "dht_node \<Rightarrow> sock_addr set" where
  "proved d = {n_udp n |n. n \<in> set (rt_all (dn_table d)) \<and> n_verified n}"

lemma proved_put:
  assumes inv: "dht_inv d" and fit: "entry_fit (dn_policy d) node"
  shows "proved (d\<lparr>dn_table := snd (rt_add node (dn_table d))\<rparr>) \<subseteq> proved d \<union> (if n_verified node then {n_udp node} else {})"
proof -
  have t: "table_inv (dn_policy d) (dn_table d)" using inv by (simp add: dht_inv_def)
  show ?thesis
  proof
    fix a assume "a \<in> proved (d\<lparr>dn_table := snd (rt_add node (dn_table d))\<rparr>)"
    then obtain n where n: "n \<in> set (rt_all (snd (rt_add node (dn_table d))))" "n_verified n" "a = n_udp n" by (auto simp: proved_def)
    from rt.put_verified [OF t fit n(1,2)] show "a \<in> proved d \<union> (if n_verified node then {n_udp node} else {})"
    proof
      assume "\<exists>e \<in> set (rt_all (dn_table d)). n_verified e \<and> n_udp e = n_udp n"
      then have "a \<in> proved d" by (auto simp: proved_def n(3) intro: sym)
      then show ?thesis by simp
    qed (simp add: n(3))
  qed
qed

lemma proved_sources [simp]: "proved (d\<lparr>dn_sources := s\<rparr>) = proved d"
  by (simp add: proved_def)

lemma proved_learn:
  assumes inv: "dht_inv d" and len: "length (n_id node) = ID_LEN"
  shows "proved (snd (learn node d)) \<subseteq> proved d \<union> (if n_verified node then {n_udp node} else {})"
proof (cases "n_id node = dn_self_id d \<or> \<not> accepts (dn_policy d) (fst (n_udp node)) (n_p2p_port node)")
  case True
  then show ?thesis by (auto simp: learn_def)
next
  case ok: False
  then have fit: "entry_fit (dn_policy d) node" using len by (simp add: entry_fit_def)
  let ?d = "d\<lparr>dn_sources := snd (allow_learn (fst (n_udp node)) (n_last_seen node) (dn_sources d))\<rparr>"
  have "dht_inv ?d" using evolves_inv [OF allow_learn_evolves [OF inv]] by blast
  from proved_put [OF this, of node] fit proved_put [OF inv fit] ok show ?thesis
    by (cases "rt_contains (dn_table d) (n_id node)") (auto simp: learn_def case_prod_beta Let_def)
qed

lemma proved_absorb: "dht_inv d \<Longrightarrow> proved (absorb_each A now recs d) \<subseteq> proved d"
proof (induction recs arbitrary: d)
  case (Cons r rs)
  show ?case
  proof (cases "\<exists>i ip. unhex (r_id r) = Some i \<and> ip_parse A (r_ip r) = Some ip")
    case True
    then obtain i ip where ip: "unhex (r_id r) = Some i" "ip_parse A (r_ip r) = Some ip" by blast
    let ?n = "\<lparr>n_id = i, n_udp = (ip, r_udp_port r), n_p2p_port = r_p2p_port r, n_verified = False, n_last_seen = now\<rparr>"
    have "dht_inv (snd (learn ?n d))"
      by (rule evolves_inv [OF learn_evolves [OF Cons.prems]]) (use unhex_length [OF ip(1)] in auto)
    from Cons.IH [OF this] proved_learn [OF Cons.prems, of ?n] unhex_length [OF ip(1)] ip show ?thesis by auto
  next
    case False
    then show ?thesis using Cons by (auto split: option.split)
  qed
qed simp

lemma proved_import: "dht_inv d \<Longrightarrow> proved (import_each A now recs d) \<subseteq> proved d"
proof (induction recs arbitrary: d)
  case (Cons r rs)
  note step = import_evolves [OF Cons.prems, of A now "[r]"]
  have "proved (import_each A now [r] d) \<subseteq> proved d"
  proof (cases "unhex (r_id r)")
    case (Some i)
    then show ?thesis using proved_put [OF Cons.prems, of "\<lparr>n_id = i, n_udp = (ip, r_udp_port r),
      n_p2p_port = r_p2p_port r, n_verified = False, n_last_seen = now\<rparr>" for ip] unhex_length [OF Some]
      by (simp add: entry_fit_def accepts_def split: option.split)
  qed simp
  with Cons.IH [OF evolves_inv [OF step]] show ?case by (auto split: option.splits)
qed simp

lemma proved_sent [simp]: "proved (dht_send now m a d) = proved d"
  by (simp add: proved_def dht_send_def)

lemma proved_verify: "proved (d\<lparr>dn_table := mark_verified now src (dn_table d)\<rparr>) \<subseteq> proved d \<union> {src}"
  by (auto simp: proved_def rt_all_def mark_verified_def split: if_splits)

lemma proved_hear:
  assumes inv: "dht_inv d"
  shows "proved (hear_sender now msg src d) \<subseteq> proved d \<union> (if is_answer msg then {src} else {})"
proof (rule hear_sender_cases [OF inv, of msg src now])
  fix sol s d2
  assume q: "sol \<Longrightarrow> is_answer msg \<and> src \<in> queried d" and d2: "evolves d [] d2"
    and d2_def: "d2 = (if sol then d\<lparr>dn_sources := s, dn_table := mark_verified now src (dn_table d)\<rparr> else d\<lparr>dn_sources := s\<rparr>)"
    and none: "unhex (fst (msg_sender msg)) = None \<Longrightarrow> hear_sender now msg src d = d2"
    and some: "\<And>i. unhex (fst (msg_sender msg)) = Some i \<Longrightarrow> hear_sender now msg src d =
       snd (learn \<lparr>n_id = i, n_udp = src, n_p2p_port = snd (msg_sender msg), n_verified = sol, n_last_seen = now\<rparr> d2)"
  have p2: "proved d2 \<subseteq> proved d \<union> (if is_answer msg then {src} else {})"
    using proved_verify [where d = "d\<lparr>dn_sources := s\<rparr>" and now = now and src = src] q by (auto simp: d2_def)
  show ?thesis
  proof (cases "unhex (fst (msg_sender msg))")
    case (Some i)
    let ?n = "\<lparr>n_id = i, n_udp = src, n_p2p_port = snd (msg_sender msg), n_verified = sol, n_last_seen = now\<rparr>"
    have "proved (snd (learn ?n d2)) \<subseteq> proved d2 \<union> (if sol then {src} else {})"
      using proved_learn [OF evolves_inv [OF d2], of ?n] unhex_length [OF Some] by (cases sol) simp_all
    also have "\<dots> \<subseteq> proved d \<union> (if is_answer msg then {src} else {})" using p2 q by (cases sol) auto
    finally show ?thesis unfolding some [OF Some] .
  qed (use none p2 in simp)
qed

lemma proved_handle:
  assumes inv: "dht_inv d"
  shows "proved (handle A now msg src d) \<subseteq> proved d \<union> (if is_answer msg then {src} else {})"
proof -
  let ?d = "hear_sender now msg src d"
  have "proved (handle A now msg src d) \<subseteq> proved ?d \<union> proved d"
    using proved_absorb [OF evolves_inv [OF hear_sender_evolves [OF inv, of now msg src]], of A now]
    by (cases msg) (auto simp: handle_def answer_find_def Let_def case_prod_beta split: if_splits)
  then show ?thesis using proved_hear [OF inv] by blast
qed

lemma proved_fold: "(\<And>x d. proved (f x d) = proved d) \<Longrightarrow> proved (fold f xs d) = proved d"
  by (induction xs arbitrary: d) auto

lemma proved_bootstrap: "proved (bootstrap resolve now addrs d) = proved d"
  unfolding bootstrap_def by (rule proved_fold) (simp split: option.split)

lemma proved_refresh: "proved (refresh now d) = proved d"
proof -
  have "proved (fold (\<lambda>t. fold (\<lambda>n d. dht_send now (my_find d t) (n_udp n) d) ns) ts d) = proved d" for ns ts d
    by (intro proved_fold) simp
  moreover have "proved (fold (\<lambda>addr d. let (allowed, s) = allow_ping addr now (dn_sources d); d' = d\<lparr>dn_sources := s\<rparr>
      in if allowed then dht_send now (my_ping d') addr d' else d') as d) = proved d" for as d
    by (rule proved_fold) (simp add: case_prod_beta Let_def)
  ultimately show ?thesis unfolding refresh_def Let_def by simp
qed

lemma run_proved:
  assumes "dht_run E A resolve peer port policy heard d" "blake3_len E"
  shows "proved d \<subseteq> {a. \<exists>m. (m, a) \<in> set heard \<and> is_answer m}"
  using assms
proof induction
  case start
  then show ?case by (simp add: proved_def DhtNode_new_def Let_def RoutingTable_new_def rt_all_def)
next
  case (datagram heard d msg src now)
  then show ?case using proved_handle [of d A now msg src] run_inv [OF datagram(1)] by (fastforce split: if_splits)
next
  case (restores heard d now recs)
  then show ?case using proved_import [of d A now "take MAX_PERSIST_NODES recs"] run_inv [OF restores(1)]
    by (auto simp: import_nodes_def)
qed (simp_all add: proved_refresh proved_bootstrap)


section \<open>Properties\<close>

text \<open>C32. Whatever arrives and in whatever order the tasks run, the routing table stays sound: 160
  buckets of at most eight entries with distinct ids, each entry in the bucket of its distance with an
  IP and a TCP port that the policy accepts, this node itself never among them; each map of the
  bookkeeping stays below its cap; and no datagram ever goes to an IP the policy refuses.\<close>

theorem dht_node_sound:
  assumes "dht_run E A resolve peer port policy heard d" "blake3_len E"
  shows "table_inv policy (dn_table d) \<and> id_from_peer E peer \<notin> n_id ` set (rt_all (dn_table d))
    \<and> sources_inv (dn_sources d) \<and> list_all (\<lambda>(m, a). accepts_ip policy (fst a)) (dn_sent d)"
proof -
  have inv: "dht_inv d" and p: "dn_policy d = policy" and self: "dn_self_id d = id_from_peer E peer"
    using run_inv [OF assms] by blast+
  have t: "table_inv policy (dn_table d)" "rt_self_id (dn_table d) = id_from_peer E peer"
    using inv p self by (auto simp: dht_inv_def)
  have "n_id n \<noteq> id_from_peer E peer" if "n \<in> set (rt_all (dn_table d))" for n
    using rt_all_entries [OF t(1) that] bucket_index_None [of "rt_self_id (dn_table d)" "n_id n"] t
    by (auto simp: entry_ok_def table_inv_def)
  then have "id_from_peer E peer \<notin> n_id ` set (rt_all (dn_table d))" by (metis imageE)
  then show ?thesis using inv p t by (auto simp: dht_inv_def list_all_iff)
qed

text \<open>A node is marked verified only for an address that this node questioned and from which an
  answer has arrived: a forged source address or a hearsay record never becomes verified.\<close>

theorem dht_verified_answered:
  assumes "dht_run E A resolve peer port policy heard d" "blake3_len E"
    and "n \<in> set (rt_all (dn_table d))" "n_verified n"
  shows "(\<exists>m. (m, n_udp n) \<in> set heard \<and> is_answer m) \<and> (\<exists>q. (q, n_udp n) \<in> set (dn_sent d) \<and> \<not> is_answer q)"
  using run_proved [OF assms(1,2)] run_inv [OF assms(1,2)] assms(3,4)
  by (auto simp: proved_def dht_inv_def queried_def)

text \<open>C33. The reflection bound: handling one datagram sends at most two datagrams, all back to its source;
  an answer carries at most eight records, and more than two only when this node had questioned that
  source before.\<close>

theorem dht_reflection_bound:
  assumes "dht_run E A resolve peer port policy heard d" "blake3_len E"
  shows "\<exists>l. dn_sent (handle A now msg src d) = dn_sent d @ l \<and> length l \<le> 2
    \<and> (\<forall>(m, a) \<in> set l. a = src \<and> record_count m \<le> K
        \<and> (record_count m > K_UNVERIFIED \<longrightarrow> (\<exists>q. (q, src) \<in> set (dn_sent d) \<and> \<not> is_answer q)))"
proof -
  have inv: "dht_inv d" using run_inv [OF assms] by blast
  let ?d = "hear_sender now msg src d"
  note e = hear_sender_evolves [OF inv, of now msg src]
  have v: "\<exists>q. (q, src) \<in> set (dn_sent d) \<and> \<not> is_answer q" if "is_verified_source (dn_table ?d) src"
    using that evolves_inv [OF e] e
    by (fastforce simp: is_verified_source_def list_ex_iff dht_inv_def rt_all_def queried_def evolves_def)
  obtain l where l: "modest ?d src l" "evolves d l (handle A now msg src d)" using handle_evolves [OF inv] by blast
  have "a = src \<and> record_count m \<le> K
      \<and> (record_count m > K_UNVERIFIED \<longrightarrow> (\<exists>q. (q, src) \<in> set (dn_sent d) \<and> \<not> is_answer q))"
    if "(m, a) \<in> set l" for m a
    using l(1) that v by (fastforce simp: modest_def list_all_iff K_def K_UNVERIFIED_def split: if_splits)
  then show ?thesis using l by (intro exI [of _ l]) (auto simp: modest_def evolves_def)
qed


section \<open>The learning budget\<close>

text \<open>How often a series of requests, each for some IP at some time, is granted to \<open>ip\<close>.\<close>

fun grants :: "ip_addr \<Rightarrow> (ip_addr \<times> nat) list \<Rightarrow> source_state \<Rightarrow> nat" where
  "grants ip [] s = 0"
| "grants ip ((who, now) # calls) s =
     (let (ok, s') = allow_learn who now s in (if ok \<and> who = ip then 1 else 0) + grants ip calls s')"

lemma prune_idle: "length (ss_learn s) < MAX_TRACKED_SOURCES \<Longrightarrow> ss_learn (prune now s) = ss_learn s"
  by (simp add: prune_def bounded_def)

lemma allow_learn_slot:
  assumes "length (ss_learn s) < MAX_TRACKED_SOURCES" "t0 \<le> now" "now \<le> t0 + LEARN_WINDOW"
    and slot: "slot = (case map_of (ss_learn s) who of None \<Rightarrow> (now, 0) | Some v \<Rightarrow> v)" "t0 \<le> fst slot"
  shows "fst (allow_learn who now s) \<longleftrightarrow> snd slot < LEARN_PER_WINDOW"
    "map_of (ss_learn (snd (allow_learn who now s))) who = Some (fst slot, if snd slot < LEARN_PER_WINDOW then snd slot + 1 else snd slot)"
    "ip \<noteq> who \<Longrightarrow> map_of (ss_learn (snd (allow_learn who now s))) ip = map_of (ss_learn s) ip"
    "length (ss_learn (snd (allow_learn who now s))) \<le> Suc (length (ss_learn s))"
proof -
  have "\<not> now - fst slot > LEARN_WINDOW" using assms by simp
  then show "fst (allow_learn who now s) \<longleftrightarrow> snd slot < LEARN_PER_WINDOW"
    "map_of (ss_learn (snd (allow_learn who now s))) who = Some (fst slot, if snd slot < LEARN_PER_WINDOW then snd slot + 1 else snd slot)"
    "ip \<noteq> who \<Longrightarrow> map_of (ss_learn (snd (allow_learn who now s))) ip = map_of (ss_learn s) ip"
    "length (ss_learn (snd (allow_learn who now s))) \<le> Suc (length (ss_learn s))"
    using assms(1) slot length_update_le
    by (auto simp: allow_learn_def Let_def prune_idle update_conv' split: option.splits)
qed

definition slot_used :: "ip_addr \<Rightarrow> source_state \<Rightarrow> nat" where
  "slot_used ip s = (case map_of (ss_learn s) ip of None \<Rightarrow> 0 | Some v \<Rightarrow> snd v)"

definition in_window :: "nat \<Rightarrow> source_state \<Rightarrow> bool" where
  "in_window t0 s \<longleftrightarrow> (\<forall>ip v. map_of (ss_learn s) ip = Some v \<longrightarrow> t0 \<le> fst v \<and> snd v \<le> LEARN_PER_WINDOW)"

lemma grants_slot:
  assumes "in_window t0 s" "length (ss_learn s) + length calls < MAX_TRACKED_SOURCES"
    and "list_all (\<lambda>(who, now). t0 \<le> now \<and> now \<le> t0 + LEARN_WINDOW) calls"
  shows "grants ip calls s = min (LEARN_PER_WINDOW - slot_used ip s) (length (filter (\<lambda>c. fst c = ip) calls))"
  using assms
proof (induction ip calls s rule: grants.induct)
  case (2 ip who now calls s)
  define slot where "slot = (case map_of (ss_learn s) who of None \<Rightarrow> (now, 0) | Some v \<Rightarrow> v)"
  have len: "length (ss_learn s) < MAX_TRACKED_SOURCES" and t: "t0 \<le> now" "now \<le> t0 + LEARN_WINDOW" using 2 by auto
  have sl: "t0 \<le> fst slot" "snd slot \<le> LEARN_PER_WINDOW" "snd slot = slot_used who s"
    using 2(2) t by (auto simp: slot_def in_window_def slot_used_def split: option.splits)
  obtain ok s' where a: "allow_learn who now s = (ok, s')" by fastforce
  note step = allow_learn_slot [OF len t slot_def sl(1), unfolded a fst_conv snd_conv]
  have win: "in_window t0 s'" unfolding in_window_def
  proof (intro allI impI)
    fix i v assume v: "map_of (ss_learn s') i = Some v"
    show "t0 \<le> fst v \<and> snd v \<le> LEARN_PER_WINDOW"
    proof (cases "i = who")
      case True
      then show ?thesis using v step(2) sl by auto
    next
      case False
      then have "map_of (ss_learn s) i = Some v" using v step(3) by simp
      then show ?thesis using 2(2) unfolding in_window_def by blast
    qed
  qed
  have IH: "grants ip calls s' = min (LEARN_PER_WINDOW - slot_used ip s') (length (filter (\<lambda>c. fst c = ip) calls))"
    by (rule 2(1) [OF a [symmetric] refl win]) (use 2 step(4) in auto)
  have g: "grants ip ((who, now) # calls) s = (if ok \<and> who = ip then 1 else 0) + grants ip calls s'" by (simp add: a)
  show ?case
  proof (cases "who = ip")
    case True
    have "slot_used who s' = (if snd slot < LEARN_PER_WINDOW then snd slot + 1 else snd slot)"
      using step(2) by (simp add: slot_used_def)
    then show ?thesis unfolding g using IH step(1) sl True by auto
  next
    case False
    then have "slot_used ip s' = slot_used ip s" using step(3) by (simp add: slot_used_def)
    then show ?thesis unfolding g using IH False by simp
  qed
qed simp

text \<open>The learning budget of an IP: in a window, with no more requests than the bookkeeping has room for, an
  IP not seen before is granted exactly its first sixteen requests, whatever the other IPs ask.\<close>

theorem learn_budget:
  assumes "ss_learn s = []" "length calls < MAX_TRACKED_SOURCES"
    and "list_all (\<lambda>(who, now). t0 \<le> now \<and> now \<le> t0 + LEARN_WINDOW) calls"
  shows "grants ip calls s = min LEARN_PER_WINDOW (length (filter (\<lambda>c. fst c = ip) calls))"
  using grants_slot [of t0 s calls ip] assms by (simp add: in_window_def slot_used_def)


theorem learn_budget_witness:
  "grants (IpV4 8 8 8 8) (replicate 20 (IpV4 8 8 8 8, 5)) SourceState_default = 16"
  using learn_budget [of SourceState_default "replicate 20 (IpV4 8 8 8 8, 5)" 0 "IpV4 8 8 8 8"]
  by (simp add: SourceState_default_def const_simps LEARN_WINDOW_def secs_def list_all_iff)

section \<open>A node at work\<close>

text \<open>Dotted text of IPv4 addresses, and a few concrete nodes, for concrete runs.\<close>

fun dotted :: "string \<Rightarrow> string \<Rightarrow> nat list" where
  "dotted cur [] = [read_nat cur]"
| "dotted cur (c # cs) = (if c = CHR ''.'' then read_nat cur # dotted [] cs else dotted (cur @ [c]) cs)"

fun demo_ip_string :: "ip_addr \<Rightarrow> string" where
  "demo_ip_string (IpV4 a b c d) =
     show_nat (unat a) @ ''.'' @ show_nat (unat b) @ ''.'' @ show_nat (unat c) @ ''.'' @ show_nat (unat d)"
| "demo_ip_string (IpV6 _ _ _ _ _ _ _ _) = ''::''"

definition demo_ip_text :: ip_text where
  "demo_ip_text = \<lparr>ip_to_string = demo_ip_string,
     ip_parse = (\<lambda>s. case dotted [] s of
         [a, b, c, d] \<Rightarrow> Some (IpV4 (word_of_nat a) (word_of_nat b) (word_of_nat c) (word_of_nat d))
       | _ \<Rightarrow> None)\<rparr>"

text \<open>The id with the single bit \<open>k\<close> set, and a record that announces it at the address \<open>11.0.0.k\<close>.\<close>

definition bit_id :: "nat \<Rightarrow> node_id" where
  "bit_id k = (replicate 20 0)[k div 8 := drop_bit (k mod 8) 0x80]"

definition demo_rec :: "nat \<Rightarrow> node_rec" where
  "demo_rec k = \<lparr>r_id = hex_id (bit_id k), r_ip = demo_ip_string (IpV4 11 0 0 (word_of_nat k)), r_udp_port = 4000, r_p2p_port = 4001\<rparr>"

definition null_hash_env :: "int env" where
  "null_hash_env = demo_env\<lparr>blake3 := \<lambda>bs. replicate 32 0\<rparr>"

definition demo_node :: dht_node where
  "demo_node = DhtNode_new null_hash_env ''me'' 4001 PublicOnly"

lemma demo_node_eq [code]: "demo_node = \<lparr>dn_self_id = replicate 20 0, dn_p2p_port = 4001, dn_policy = PublicOnly,
    dn_table = RoutingTable_new (replicate 20 0), dn_sources = SourceState_default, dn_sent = []\<rparr>"
  by (simp add: demo_node_def DhtNode_new_def id_from_peer_def null_hash_env_def Let_def ID_LEN_def take_replicate)

lemma null_hash_len: "blake3_len null_hash_env"
  by (simp add: null_hash_env_def blake3_len_def)

definition demo_src :: sock_addr where
  "demo_src = (IpV4 9 9 9 9, 4000)"

text \<open>A peer that announces eight nodes at a time, in two datagrams at one moment.\<close>

definition hearsay :: dht_node where
  "hearsay = fold (\<lambda>k. handle demo_ip_text 0 (Nodes (hex_id (bit_id 30)) 4001 (map demo_rec [k ..< k + 8])) demo_src)
     [0, 8] demo_node"



definition demo_heard :: "nat \<Rightarrow> dht_entry" where
  "demo_heard k = \<lparr>n_id = bit_id k, n_udp = (IpV4 11 0 0 (word_of_nat k), 4000), n_p2p_port = 4001, n_verified = False, n_last_seen = 0\<rparr>"

lemma demo_rec_read:
  assumes "k < 16"
  shows "unhex (r_id (demo_rec k)) = Some (bit_id k)"
    "ip_parse demo_ip_text (r_ip (demo_rec k)) = Some (IpV4 11 0 0 (word_of_nat k))"
proof -
  show "unhex (r_id (demo_rec k)) = Some (bit_id k)" by (simp add: demo_rec_def bit_id_def unhex_hex ID_LEN_def)
  have "list_all (\<lambda>k. ip_parse demo_ip_text (r_ip (demo_rec k)) = Some (IpV4 11 0 0 (word_of_nat k))) [0..<16]" by code_simp
  then show "ip_parse demo_ip_text (r_ip (demo_rec k)) = Some (IpV4 11 0 0 (word_of_nat k))"
    using assms by (simp only: list_all_iff) simp
qed

lemma absorb_demo:
  "list_all (\<lambda>k. k < 16) ks \<Longrightarrow> absorb_each demo_ip_text 0 (map demo_rec ks) d = fold (\<lambda>k d. snd (learn (demo_heard k) d)) ks d"
  by (induction ks arbitrary: d) (simp_all add: demo_rec_read demo_heard_def, simp add: demo_rec_def)

lemma handle_demo:
  assumes "list_all (\<lambda>k. k < 16) ks" "length ks \<le> 8" "dn_policy d = PublicOnly"
  shows "handle demo_ip_text 0 (Nodes s p (map demo_rec ks)) demo_src d
    = fold (\<lambda>k d. snd (learn (demo_heard k) d)) ks (hear_sender 0 (Nodes s p []) demo_src d)"
proof -
  have "accepts_ip PublicOnly (fst demo_src)" by code_simp
  moreover have "hear_sender 0 (Nodes s p (map demo_rec ks)) demo_src d = hear_sender 0 (Nodes s p []) demo_src d"
    by (simp add: hear_sender_def)
  ultimately show ?thesis using assms by (simp add: handle_def Let_def MAX_NODES_PER_MSG_def K_def absorb_demo)
qed

lemma hearsay_eq:
  "hearsay = (let hear = hear_sender 0 (Nodes (hex_id (bit_id 30)) 4001 []) demo_src;
     absorb = fold (\<lambda>k d. snd (learn (demo_heard k) d)) in absorb [8..<16] (hear (absorb [0..<8] (hear demo_node))))"
proof -
  have inv: "dht_inv demo_node" unfolding demo_node_def by (rule new_inv [OF null_hash_len])
  have p: "dn_policy demo_node = PublicOnly" by (simp add: demo_node_eq)
  define d1 where "d1 = handle demo_ip_text 0 (Nodes (hex_id (bit_id 30)) 4001 (map demo_rec [0..<8])) demo_src demo_node"
  have "dn_policy d1 = PublicOnly"
    using handle_evolves [OF inv, of 0 _ demo_src demo_ip_text] p by (auto simp: evolves_def d1_def)
  then have "handle demo_ip_text 0 (Nodes (hex_id (bit_id 30)) 4001 (map demo_rec [8..<16])) demo_src d1
      = fold (\<lambda>k d. snd (learn (demo_heard k) d)) [8..<16] (hear_sender 0 (Nodes (hex_id (bit_id 30)) 4001 []) demo_src d1)"
    by (intro handle_demo) (simp_all add: list_all_iff)
  moreover have "d1 = fold (\<lambda>k d. snd (learn (demo_heard k) d)) [0..<8] (hear_sender 0 (Nodes (hex_id (bit_id 30)) 4001 []) demo_src demo_node)"
    unfolding d1_def by (rule handle_demo [OF _ _ p]) (simp_all add: list_all_iff)
  ultimately show ?thesis by (simp add: hearsay_def Let_def d1_def [symmetric] del: upt_rec_numeral)
qed

text \<open>The budget is charged to the address announced, not to the one announcing: one source that speaks of
  nodes at different IPs makes seventeen entries at one moment, past the sixteen a source may make per
  minute by the module's documentation.\<close>

theorem hearsay_outruns_budget:
  "length (rt_all (dn_table hearsay)) = 17 \<and> length (rt_all (dn_table hearsay)) > LEARN_PER_WINDOW"
proof -
  have "length (rt_all (dn_table hearsay)) = 17" unfolding hearsay_eq by code_simp
  then show ?thesis by (simp add: LEARN_PER_WINDOW_def)
qed

text \<open>A node that asks one bootstrap peer and hears its answer.\<close>

definition demo_msg :: dht_msg where
  "demo_msg = Pong (hex_id (bit_id 30)) 4001"

definition demo_answered :: dht_node where
  "demo_answered = handle demo_ip_text 7 demo_msg demo_src (bootstrap (\<lambda>_. Some demo_src) 5 [''boot''] demo_node)"

lemma demo_answered_run:
  "dht_run null_hash_env demo_ip_text (\<lambda>_. Some demo_src) ''me'' 4001 PublicOnly [(demo_msg, demo_src)] demo_answered"
  unfolding demo_answered_def demo_node_def
  using dht_run.datagram [OF dht_run.bootstraps [OF dht_run.start]] by fastforce

lemma demo_answered_table: "map n_udp (filter n_verified (rt_all (dn_table demo_answered))) = [demo_src]"
  by code_simp

theorem dht_node_sound_witness:
  "table_inv PublicOnly (dn_table demo_answered) \<and> sources_inv (dn_sources demo_answered)
    \<and> list_all (\<lambda>(m, a). accepts_ip PublicOnly (fst a)) (dn_sent demo_answered)
    \<and> length (dn_sent demo_answered) = 1"
proof -
  have "length (dn_sent demo_answered) = 1" by code_simp
  then show ?thesis using dht_node_sound [OF demo_answered_run null_hash_len] by blast
qed

theorem dht_verified_answered_witness:
  "\<exists>n \<in> set (rt_all (dn_table demo_answered)). n_verified n \<and> n_udp n = demo_src
    \<and> (\<exists>q. (q, n_udp n) \<in> set (dn_sent demo_answered) \<and> \<not> is_answer q)"
proof -
  have "demo_src \<in> set (map n_udp (filter n_verified (rt_all (dn_table demo_answered))))"
    by (simp only: demo_answered_table) simp
  then obtain n where n: "n \<in> set (rt_all (dn_table demo_answered))" "n_verified n" "n_udp n = demo_src" by auto
  from dht_verified_answered [OF demo_answered_run null_hash_len n(1,2)] n show ?thesis by blast
qed

theorem dht_reflection_bound_witness:
  "\<exists>l. dn_sent (handle demo_ip_text 9 (FindNode (hex_id (bit_id 3)) 4001 ''x'') (IpV4 8 8 8 8, 4000) demo_answered)
       = dn_sent demo_answered @ l \<and> length l = 2"
proof -
  let ?d = "handle demo_ip_text 9 (FindNode (hex_id (bit_id 3)) 4001 ''x'') (IpV4 8 8 8 8, 4000) demo_answered"
  have "length (dn_sent ?d) = 3" "length (dn_sent demo_answered) = 1" by code_simp+
  with dht_reflection_bound [OF demo_answered_run null_hash_len, of 9 "FindNode (hex_id (bit_id 3)) 4001 ''x''" "(IpV4 8 8 8 8, 4000)"]
  show ?thesis by (auto)
qed

end
