(* ===== verification/Protocol.thy ===== *)
theory Protocol
  imports External
begin

text \<open>
  \<open>p2p/src/protocol.rs\<close>: the messages between nodes, the byte strings that are signed, the
  challenge and response state of a connection, and the frames on the wire. The payload of a frame is
  the third-party bincode's, a parameter; Ed25519 and the random generator are parameters of \<open>env\<close> and
  arguments.
\<close>

definition MAX_MESSAGE_BYTES :: nat where "MAX_MESSAGE_BYTES = 16 * 1024 * 1024"
definition PEER_NONCE_LEN :: nat where "PEER_NONCE_LEN = 32"
definition ED25519_SEED_LEN :: nat where "ED25519_SEED_LEN = 32"
definition ED25519_PUBLIC_KEY_LEN :: nat where "ED25519_PUBLIC_KEY_LEN = 32"
definition ED25519_SIGNATURE_LEN :: nat where "ED25519_SIGNATURE_LEN = 64"

definition HANDSHAKE_CONTEXT :: bytes where "HANDSHAKE_CONTEXT = as_bytes ''p2pnas/handshake/v1''"
definition PROOF_CONTEXT :: bytes where "PROOF_CONTEXT = as_bytes ''p2pnas/peer-proof/v1''"

lemmas protocol_consts [const_simps] =
  MAX_MESSAGE_BYTES_def PEER_NONCE_LEN_def ED25519_SEED_LEN_def ED25519_PUBLIC_KEY_LEN_def ED25519_SIGNATURE_LEN_def

section \<open>Messages\<close>

datatype p2p_message =
    Ping (peer_id: string) (api_port: u16)
  | Pong (peer_id: string) (api_port: u16) (observed_addr: "string option")
  | StoreShard (frag: string) (owner_peer_id: string) (shard_index: int) (payload: bytes)
  | Ack (frag: string)
  | GetShard (frag: string)
  | ShardData (frag: string) (payload: bytes)
  | ShardNotFound (frag: string)
  | HasShard (frag: string)
  | HasShardResult (frag: string) (present: bool)
  | AuditShard (frag: string)
  | AuditResult (frag: string) (digest: string)
  | DeleteShard (frag: string) (owner_peer_id: string)
  | Error (message: string)
  | AuthPing (peer_id: string) (api_port: u16) (nonce: bytes)
  | AuthPong (peer_id: string) (api_port: u16) (observed_addr: "string option")
      (public_key: string) (signature: string) (challenge: bytes)
  | AuthProof (peer_id: string) (public_key: string) (signature: string)
  | AuthOk (peer_id: string)

datatype io_error = UnexpectedEof | InvalidData string | PermissionDenied string | TimedOut string | OtherIo string

datatype auth_error = AuthKey | AuthSign | AuthRng

fun auth_error_text :: "auth_error \<Rightarrow> string" where
  "auth_error_text AuthKey = ''invalid peer signing key''"
| "auth_error_text AuthSign = ''peer signature failed''"
| "auth_error_text AuthRng = ''system rng failed''"

definition io_of_auth :: "auth_error \<Rightarrow> io_error" where
  "io_of_auth e = OtherIo (auth_error_text e)"

section \<open>Signing\<close>

record authenticated_peer =
  ap_peer_id :: string
  ap_public_key :: string

text \<open>The key pair is its seed.\<close>

record peer_signer =
  ps_seed :: bytes
  ps_public_key_hex :: string

definition PeerSigner_from_seed :: "'f env \<Rightarrow> bytes \<Rightarrow> (peer_signer, auth_error) result" where
  "PeerSigner_from_seed E seed =
     (if length seed \<noteq> ED25519_SEED_LEN then Err AuthKey
      else Ok \<lparr>ps_seed = seed, ps_public_key_hex = hex_encode E (ed25519_public E seed)\<rparr>)"

definition sign_hex :: "'f env \<Rightarrow> peer_signer \<Rightarrow> bytes \<Rightarrow> (string, auth_error) result" where
  "sign_hex E s msg =
     (case ed25519_sign E (ps_seed s) msg of
        Some sg \<Rightarrow> Ok (hex_encode E sg)
      | None \<Rightarrow> Err AuthSign)"

text \<open>\<open>rng\<close> is what the system generator returns, if it does.\<close>

definition random_nonce :: "bytes option \<Rightarrow> (bytes, auth_error) result" where
  "random_nonce rng = ok_or AuthRng rng"

text \<open>A length is written as a \<open>u32\<close>: \<open>le_bytes 4\<close> takes it modulo \<open>2 ^ 32\<close>, as the cast does.\<close>

definition push_part :: "bytes \<Rightarrow> bytes \<Rightarrow> bytes" where
  "push_part out part = out @ le_bytes 4 (length part) @ part"

definition transcript :: "bytes \<Rightarrow> bytes list \<Rightarrow> bytes" where
  "transcript ctx parts = foldl push_part (le_bytes 4 (length ctx) @ ctx) parts"

definition pong_transcript :: "string \<Rightarrow> u16 \<Rightarrow> bytes \<Rightarrow> string option \<Rightarrow> bytes" where
  "pong_transcript pid port n observed =
     transcript HANDSHAKE_CONTEXT
       [as_bytes pid, be_bytes 2 (unat port), n, as_bytes (case observed of Some a \<Rightarrow> a | None \<Rightarrow> '''')]"

definition proof_transcript :: "string \<Rightarrow> string \<Rightarrow> bytes \<Rightarrow> bytes" where
  "proof_transcript verifier claimed ch = transcript PROOF_CONTEXT [as_bytes verifier, as_bytes claimed, ch]"

definition verify_signature :: "'f env \<Rightarrow> string \<Rightarrow> bytes \<Rightarrow> string \<Rightarrow> bool" where
  "verify_signature E public_key_hex msg signature_hex =
     (case (hex_decode E public_key_hex, hex_decode E signature_hex) of
        (Some key, Some sg) \<Rightarrow>
          if length key \<noteq> ED25519_PUBLIC_KEY_LEN \<or> length sg \<noteq> ED25519_SIGNATURE_LEN then False
          else ed25519_verify E key msg sg
      | _ \<Rightarrow> False)"

section \<open>The state of a connection\<close>

record auth_session =
  as_challenge :: "bytes option"
  as_peer :: "authenticated_peer option"

definition PeerAuthSession_new :: auth_session where
  "PeerAuthSession_new = \<lparr>as_challenge = None, as_peer = None\<rparr>"

definition issue_challenge :: "bytes option \<Rightarrow> auth_session \<Rightarrow> (bytes, auth_error) result \<times> auth_session" where
  "issue_challenge rng s =
     (case random_nonce rng of
        Ok n \<Rightarrow> (Ok n, s\<lparr>as_challenge := Some n\<rparr>)
      | r \<Rightarrow> (r, s))"

definition accept_proof :: "'f env \<Rightarrow> string \<Rightarrow> string \<Rightarrow> string \<Rightarrow> string \<Rightarrow> auth_session \<Rightarrow> bool \<times> auth_session" where
  "accept_proof E local_peer_id pid public_key_hex signature_hex s =
     (case as_challenge s of
        None \<Rightarrow> (False, s)
      | Some ch \<Rightarrow>
          let s' = s\<lparr>as_challenge := None\<rparr>
          in if \<not> verify_signature E public_key_hex (proof_transcript local_peer_id pid ch) signature_hex
             then (False, s')
             else (True, s'\<lparr>as_peer := Some \<lparr>ap_peer_id = pid, ap_public_key = public_key_hex\<rparr>\<rparr>))"

section \<open>Frames\<close>

record wire =
  bincode_serialize :: "p2p_message \<Rightarrow> bytes option"
  bincode_deserialize :: "bytes \<Rightarrow> p2p_message option"

definition of_le :: "bytes \<Rightarrow> nat" where
  "of_le bs = of_be (rev bs)"

text \<open>Reading from the bytes that arrive before the stream ends; what is left comes back.\<close>

definition read_message :: "wire \<Rightarrow> bytes \<Rightarrow> (p2p_message, io_error) result \<times> bytes" where
  "read_message W stream =
     (if length stream < 4 then (Err UnexpectedEof, [])
      else
        let len = of_le (take 4 stream); rest = drop 4 stream
        in if len > MAX_MESSAGE_BYTES then (Err (InvalidData ''p2p frame too large''), rest)
           else if length rest < len then (Err UnexpectedEof, [])
           else (ok_or (InvalidData ''bincode'') (bincode_deserialize W (take len rest)), drop len rest))"

definition write_message :: "wire \<Rightarrow> p2p_message \<Rightarrow> (bytes, io_error) result" where
  "write_message W msg =
     rbind (ok_or (InvalidData ''bincode'') (bincode_serialize W msg)) (\<lambda>data.
       Ok (le_bytes 4 (length data) @ data))"

section \<open>What is signed is unambiguous\<close>

definition read_part :: "bytes \<Rightarrow> (bytes \<times> bytes) option" where
  "read_part bs =
     (if length bs < 4 then None
      else let n = of_le (take 4 bs); rest = drop 4 bs
           in if length rest < n then None else Some (take n rest, drop n rest))"

definition part_ok :: "bytes \<Rightarrow> bool" where
  "part_ok part \<longleftrightarrow> length part < 2 ^ 32"

lemma of_le_le_bytes: "of_le (le_bytes k n) = n mod 256 ^ k"
  by (simp add: of_le_def le_bytes_def of_be_be_bytes)

lemma push_part_append: "push_part out part = out @ push_part [] part"
  by (simp add: push_part_def)

interpretation tp: prefix_codec "push_part []" read_part part_ok
proof
  fix x rest :: bytes
  assume "part_ok x"
  then show "read_part (push_part [] x @ rest) = Some (x, rest)"
    by (simp add: read_part_def push_part_def part_ok_def of_le_le_bytes Let_def)
  show "push_part [] x \<noteq> []"
    using length_le_bytes [of 4 "length x"] by (auto simp: push_part_def simp del: length_le_bytes)
qed

lemma transcript_concat: "transcript ctx parts = concat (map (push_part []) (ctx # parts))"
proof -
  have "foldl push_part out parts = out @ concat (map (push_part []) parts)" for out
    by (induction parts arbitrary: out) (simp_all add: push_part_def)
  then show ?thesis by (simp add: transcript_def push_part_def)
qed

lemma transcript_inj:
  assumes "list_all part_ok (ctx # parts)" "list_all part_ok (ctx' # parts')" "transcript ctx parts = transcript ctx' parts'"
  shows "ctx = ctx' \<and> parts = parts'"
  using tp.concat_enc_inj [OF assms(1,2)] assms(3) by (simp add: transcript_concat)

section \<open>Frames arrive whole\<close>

lemma write_message_Ok: "write_message W msg = Ok frame \<longleftrightarrow> (\<exists>data. bincode_serialize W msg = Some data \<and> frame = le_bytes 4 (length data) @ data)"
  by (auto simp: write_message_def)

text \<open>A frame is read back as it was written, with nothing of what follows it consumed, when bincode decodes what
  it encoded and the message is within the limit; every proper prefix of a frame is an unexpected end of the
  stream, and a longer message is refused by the length alone.\<close>

theorem frame_roundtrip:
  assumes "write_message W msg = Ok frame" "bincode_serialize W msg = Some data" "bincode_deserialize W data = Some msg"
    and "length data < 2 ^ 32"
  shows "read_message W (frame @ rest) =
      (if length data \<le> MAX_MESSAGE_BYTES then (Ok msg, rest) else (Err (InvalidData ''p2p frame too large''), data @ rest))
    \<and> (length data \<le> MAX_MESSAGE_BYTES \<longrightarrow> k < length frame \<longrightarrow> read_message W (take k frame) = (Err UnexpectedEof, []))"
proof -
  have frame: "frame = le_bytes 4 (length data) @ data" using assms(1,2) by (auto simp: write_message_Ok)
  have len: "of_le (le_bytes 4 (length data)) = length data" using assms(4) by (simp add: of_le_le_bytes)
  have "read_message W (take k frame) = (Err UnexpectedEof, [])" if "length data \<le> MAX_MESSAGE_BYTES" "k < length frame"
    using that len by (auto simp: read_message_def frame Let_def min_def)
  then show ?thesis using assms(3) len by (auto simp: read_message_def frame Let_def)
qed

theorem frame_roundtrip_witness:
  "read_message \<lparr>bincode_serialize = (\<lambda>m. Some [7]), bincode_deserialize = (\<lambda>bs. Some (Ack ''x''))\<rparr> ([1, 0, 0, 0, 7] @ [9]) = (Ok (Ack ''x''), [9])"
proof -
  let ?W = "\<lparr>bincode_serialize = (\<lambda>m. Some [7]), bincode_deserialize = (\<lambda>bs. Some (Ack ''x''))\<rparr>"
  have "write_message ?W (Ack ''x'') = Ok [1, 0, 0, 0, 7]" by code_simp
  from frame_roundtrip [OF this, of "[7]" "[9]"] show ?thesis by (simp add: MAX_MESSAGE_BYTES_def)
qed

end
