(* ===== verification/PeerLink.thy ===== *)
theory PeerLink
  imports Protocol
begin

text \<open>
  \<open>p2p/src/server.rs\<close> and \<open>p2p/src/client.rs\<close>: the listener's side of a connection, over the
  handler a host provides, and the requests of a client.

  The handler trait is a record of functions over the host's state. A connection is the sequence of what
  happens on it: what each read returned (nothing after the read timeout), what the random generator gave,
  and whether the answer could be written. The accept loop, with its limit of open connections, spawns one
  such run per connection. To a client the network is a link: connecting, and an exchange that
  writes a message and reads the answer, each of which may fail (the timeouts included).
\<close>

section \<open>The listener\<close>

record 'h shard_handler =
  sh_peer_id :: string
  sh_api_port :: u16
  sh_signer :: "peer_signer option"
  sh_store_from :: "authenticated_peer option \<Rightarrow> string \<Rightarrow> string \<Rightarrow> int \<Rightarrow> bytes \<Rightarrow> 'h \<Rightarrow> bool \<times> 'h"
  sh_delete_from :: "authenticated_peer option \<Rightarrow> string \<Rightarrow> string \<Rightarrow> 'h \<Rightarrow> bool \<times> 'h"
  sh_get :: "string \<Rightarrow> 'h \<Rightarrow> bytes option"
  sh_has :: "string \<Rightarrow> 'h \<Rightarrow> bool"
  sh_audit :: "string \<Rightarrow> 'h \<Rightarrow> string"

definition auth_pong :: "'f env \<Rightarrow> 'h shard_handler \<Rightarrow> bytes \<Rightarrow> string \<Rightarrow> bytes option \<Rightarrow> auth_session
    \<Rightarrow> p2p_message \<times> auth_session" where
  "auth_pong E H n peer_ip rng s =
     (if length n \<noteq> PEER_NONCE_LEN then (Error ''bad challenge length'', s)
      else case sh_signer H of
        None \<Rightarrow> (Error ''peer authentication unavailable'', s)
      | Some signer \<Rightarrow>
          (case sign_hex E signer (pong_transcript (sh_peer_id H) (sh_api_port H) n (Some peer_ip)) of
             Ok sg \<Rightarrow>
               (case issue_challenge rng s of
                  (Ok ch, s') \<Rightarrow>
                    (AuthPong (sh_peer_id H) (sh_api_port H) (Some peer_ip) (ps_public_key_hex signer) sg ch, s')
                | (_, s') \<Rightarrow> (Error ''challenge unavailable'', s'))
           | _ \<Rightarrow> (Error ''signing failed'', s)))"

text \<open>The answer to one request.\<close>

definition respond :: "'f env \<Rightarrow> 'h shard_handler \<Rightarrow> string \<Rightarrow> bytes option \<Rightarrow> p2p_message
    \<Rightarrow> auth_session \<times> 'h \<Rightarrow> p2p_message \<times> auth_session \<times> 'h" where
  "respond E H peer_ip rng msg st =
     (case st of (s, h) \<Rightarrow>
       (case msg of
          Ping _ _ \<Rightarrow> (Pong (sh_peer_id H) (sh_api_port H) (Some peer_ip), s, h)
        | AuthPing _ _ n \<Rightarrow> (case auth_pong E H n peer_ip rng s of (r, s') \<Rightarrow> (r, s', h))
        | AuthProof pid pk sg \<Rightarrow>
            (case accept_proof E (sh_peer_id H) pid pk sg s of
               (good, s') \<Rightarrow> (if good then AuthOk pid else Error ''auth proof rejected'', s', h))
        | StoreShard f owner idx data \<Rightarrow>
            (case sh_store_from H (as_peer s) f owner idx data h of
               (good, h') \<Rightarrow> (if good then Ack f else Error ''store rejected'', s, h'))
        | GetShard f \<Rightarrow> (case sh_get H f h of Some data \<Rightarrow> ShardData f data | None \<Rightarrow> ShardNotFound f, s, h)
        | HasShard f \<Rightarrow> (HasShardResult f (sh_has H f h), s, h)
        | AuditShard f \<Rightarrow> (AuditResult f (sh_audit H f h), s, h)
        | DeleteShard f owner \<Rightarrow>
            (case sh_delete_from H (as_peer s) f owner h of
               (good, h') \<Rightarrow> (if good then Ack f else Error ''delete rejected'', s, h'))
        | _ \<Rightarrow> (Error ''unsupported request'', s, h)))"

record conn_event =
  ev_read :: "(p2p_message, io_error) result option"
  ev_rng :: "bytes option"
  ev_write :: "io_error option"

text \<open>The loop: how the connection ended (or \<open>None\<close> while it is open), the answers written, the state.\<close>

fun conn_loop :: "'f env \<Rightarrow> 'h shard_handler \<Rightarrow> string \<Rightarrow> conn_event list \<Rightarrow> auth_session \<times> 'h
    \<Rightarrow> (unit, io_error) result option \<times> p2p_message list \<times> auth_session \<times> 'h" where
  "conn_loop E H peer_ip [] st = (None, [], st)"
| "conn_loop E H peer_ip (ev # evs) st =
     (case ev_read ev of
        None \<Rightarrow> (Some (Ok ()), [], st)
      | Some (Err UnexpectedEof) \<Rightarrow> (Some (Ok ()), [], st)
      | Some (Err e) \<Rightarrow> (Some (Err e), [], st)
      | Some Panic \<Rightarrow> (Some Panic, [], st)
      | Some (Ok msg) \<Rightarrow>
          (case respond E H peer_ip (ev_rng ev) msg st of
             (resp, st') \<Rightarrow>
               (case ev_write ev of
                  Some e \<Rightarrow> (Some (Err e), [], st')
                | None \<Rightarrow>
                    (case conn_loop E H peer_ip evs st' of (fin, rs, st'') \<Rightarrow> (fin, resp # rs, st'')))))"

definition handle_conn :: "'f env \<Rightarrow> 'h shard_handler \<Rightarrow> string \<Rightarrow> conn_event list \<Rightarrow> 'h
    \<Rightarrow> (unit, io_error) result option \<times> p2p_message list \<times> auth_session \<times> 'h" where
  "handle_conn E H peer_ip evs h = conn_loop E H peer_ip evs (PeerAuthSession_new, h)"

section \<open>The client\<close>

text \<open>\<open>'w\<close> is what lies behind the socket.\<close>

record 'w link =
  ln_connect :: "('w, unit, io_error) op"
  ln_exchange :: "p2p_message \<Rightarrow> ('w, p2p_message, io_error) op"

definition request :: "'w link \<Rightarrow> p2p_message \<Rightarrow> ('w, p2p_message, io_error) op" where
  "request L msg = sbind (ln_connect L) (\<lambda>_. ln_exchange L msg)"

definition has_shard :: "'w link \<Rightarrow> string \<Rightarrow> ('w, bool, io_error) op" where
  "has_shard L f =
     sbind (request L (HasShard f)) (\<lambda>r. slift (
       case r of HasShardResult _ p \<Rightarrow> Ok p | _ \<Rightarrow> Err (InvalidData ''expected HasShardResult'')))"

definition audit_shard :: "'w link \<Rightarrow> string \<Rightarrow> ('w, string, io_error) op" where
  "audit_shard L f =
     sbind (request L (AuditShard f)) (\<lambda>r. slift (
       case r of AuditResult _ d \<Rightarrow> Ok d | _ \<Rightarrow> Err (InvalidData ''expected AuditResult'')))"

definition handshake :: "'w link \<Rightarrow> string \<Rightarrow> u16 \<Rightarrow> ('w, string \<times> u16, io_error) op" where
  "handshake L my_id my_port =
     sbind (request L (Ping my_id my_port)) (\<lambda>r. slift (
       case r of Pong pid port _ \<Rightarrow> Ok (pid, port) | _ \<Rightarrow> Err (InvalidData ''expected Pong'')))"

definition ping :: "'w link \<Rightarrow> string \<Rightarrow> u16 \<Rightarrow> ('w, unit, io_error) op" where
  "ping L my_id my_port = sbind (handshake L my_id my_port) (\<lambda>_. slift (Ok ()))"

text \<open>The round-trip times that \<open>ping_rtt\<close> and \<open>ping_observed\<close> measure are left out.\<close>

definition ping_observed :: "'w link \<Rightarrow> string \<Rightarrow> u16 \<Rightarrow> ('w, string option, io_error) op" where
  "ping_observed L my_id my_port =
     sbind (request L (Ping my_id my_port)) (\<lambda>r. slift (
       case r of Pong _ _ seen \<Rightarrow> Ok seen | _ \<Rightarrow> Err (InvalidData ''expected Pong'')))"

record verified_peer =
  vp_peer_id :: string
  vp_api_port :: u16
  vp_observed_addr :: "string option"
  vp_public_key :: "string option"

definition is_authenticated :: "verified_peer \<Rightarrow> bool" where
  "is_authenticated p \<longleftrightarrow> vp_public_key p \<noteq> None"

definition legacy_handshake :: "'w link \<Rightarrow> string \<Rightarrow> u16 \<Rightarrow> ('w, string \<times> u16 \<times> string option, io_error) op" where
  "legacy_handshake L my_id my_port =
     sbind (request L (Ping my_id my_port)) (\<lambda>r. slift (
       case r of Pong pid port seen \<Rightarrow> Ok (pid, port, seen) | _ \<Rightarrow> Err (InvalidData ''expected Pong'')))"

definition handshake_verified :: "'f env \<Rightarrow> bytes option \<Rightarrow> 'w link \<Rightarrow> string \<Rightarrow> u16 \<Rightarrow> ('w, verified_peer, io_error) op" where
  "handshake_verified E rng L my_id my_port =
     sbind (slift (map_err io_of_auth (random_nonce rng))) (\<lambda>n w.
       case request L (AuthPing my_id my_port n) w of
         (Ok (AuthPong pid port seen pk sg _), w') \<Rightarrow>
           if \<not> verify_signature E pk (pong_transcript pid port n seen) sg
           then (Err (PermissionDenied ''handshake signature rejected''), w')
           else (Ok \<lparr>vp_peer_id = pid, vp_api_port = port, vp_observed_addr = seen, vp_public_key = Some pk\<rparr>, w')
       | (Panic, w') \<Rightarrow> (Panic, w')
       | (_, w') \<Rightarrow>
           sbind (legacy_handshake L my_id my_port) (\<lambda>(pid, port, seen).
             slift (Ok \<lparr>vp_peer_id = pid, vp_api_port = port, vp_observed_addr = seen, vp_public_key = None\<rparr>)) w')"

text \<open>One connection: challenge, signed answer, signed proof, request.\<close>

definition authenticated_session :: "'f env \<Rightarrow> bytes option \<Rightarrow> 'w link \<Rightarrow> peer_signer \<Rightarrow> string \<Rightarrow> u16 \<Rightarrow> p2p_message
    \<Rightarrow> ('w, p2p_message, io_error) op" where
  "authenticated_session E rng L signer my_id my_port msg =
     sbind (ln_connect L) (\<lambda>_.
     sbind (slift (map_err io_of_auth (random_nonce rng))) (\<lambda>n.
     sbind (ln_exchange L (AuthPing my_id my_port n)) (\<lambda>m1.
     sbind (slift (case m1 of
              AuthPong pid port seen pk sg ch \<Rightarrow>
                if \<not> verify_signature E pk (pong_transcript pid port n seen) sg
                then Err (PermissionDenied ''peer handshake signature rejected'')
                else Ok (pid, ch)
            | _ \<Rightarrow> Err (InvalidData ''expected AuthPong''))) (\<lambda>(remote, ch).
     sbind (slift (map_err io_of_auth (sign_hex E signer (proof_transcript remote my_id ch)))) (\<lambda>sg.
     sbind (ln_exchange L (AuthProof my_id (ps_public_key_hex signer) sg)) (\<lambda>m2.
       case m2 of
         AuthOk _ \<Rightarrow> ln_exchange L msg
       | _ \<Rightarrow> slift (Err (InvalidData ''identity proof refused''))))))))"

definition authenticated_request :: "'f env \<Rightarrow> bytes option \<Rightarrow> 'w link \<Rightarrow> peer_signer \<Rightarrow> string \<Rightarrow> u16 \<Rightarrow> p2p_message
    \<Rightarrow> ('w, p2p_message, io_error) op" where
  "authenticated_request E rng L signer my_id my_port msg w =
     (case authenticated_session E rng L signer my_id my_port msg w of
        (Err (PermissionDenied e), w') \<Rightarrow> (Err (PermissionDenied e), w')
      | (Err _, w') \<Rightarrow> request L msg w'
      | r \<Rightarrow> r)"

section \<open>A client at a listener\<close>

text \<open>The link to a host: connecting starts a session, an exchange is one turn of the listener's loop. \<open>rng\<close>
  is what the host's random generator gives.\<close>

definition link_to :: "'f env \<Rightarrow> 'h shard_handler \<Rightarrow> string \<Rightarrow> bytes option \<Rightarrow> (auth_session \<times> 'h) link" where
  "link_to E H peer_ip rng =
     \<lparr>ln_connect = (\<lambda>(s, h). (Ok (), PeerAuthSession_new, h)),
      ln_exchange = (\<lambda>msg st. case respond E H peer_ip rng msg st of (resp, st') \<Rightarrow> (Ok resp, st'))\<rparr>"

end
