(* ===== verification/ShardHost.thy ===== *)
theory ShardHost
  imports PeerLink Service
begin

text \<open>
  \<open>server/src/p2p.rs\<close>: hosting shards for other nodes. The state is the peer table with the pinned keys,
  the table of hosted shards, the row of this node's contribution, and the shard store, which also holds
  this node's own shards. Each database call of the code is named, and \<open>hs_up\<close> says which of them the
  database answers; a call it does not answer is the \<open>Err\<close> the code handles. The counters are \<open>i64\<close> in the
  code and integers here.
\<close>

definition MAX_HOSTED_SHARD :: int where "MAX_HOSTED_SHARD = 8 * 1024 * 1024"
definition P2P_KEY_INFO :: bytes where "P2P_KEY_INFO = as_bytes ''p2pnas/p2p-ed25519/v1''"

record hosted_row =
  hr_owner_peer_id :: string
  hr_size_bytes :: int
  hr_shard_index :: int

datatype db_call =
    SelectPublicKey | SelectKnownPeer | SelectCapacity | SelectHostedSize | UpsertHosted | UpdateHostedBytes
  | SelectHosted | SelectOwner | DeleteHosted

record shard_host =
  hs_peers :: "string \<rightharpoonup> string option"
  hs_hosted :: "string \<rightharpoonup> hosted_row"
  hs_contributed_bytes :: int
  hs_hosted_bytes :: int
  hs_disk :: disk
  hs_up :: "db_call \<Rightarrow> bool"

definition strict_peer_auth :: "string option \<Rightarrow> bool" where
  "strict_peer_auth v \<longleftrightarrow> v = Some ''1'' \<or> v = Some ''true'' \<or> v = Some ''yes''"

definition node_signer :: "'f env \<Rightarrow> node_identity \<Rightarrow> peer_signer option" where
  "node_signer E ident =
     (case derive_raw E (id_data_key ident) P2P_KEY_INFO of
        Ok seed \<Rightarrow> (case PeerSigner_from_seed E seed of Ok s \<Rightarrow> Some s | _ \<Rightarrow> None)
      | _ \<Rightarrow> None)"

definition signed_request :: "'f env \<Rightarrow> bytes option \<Rightarrow> node_identity \<Rightarrow> u16 \<Rightarrow> 'w link \<Rightarrow> p2p_message
    \<Rightarrow> ('w, p2p_message, io_error) op" where
  "signed_request E rng ident port L msg =
     (case node_signer E ident of
        Some signer \<Rightarrow> authenticated_request E rng L signer (id_peer_id ident) port msg
      | None \<Rightarrow> request L msg)"

section \<open>The handler\<close>

definition hosted_size :: "string \<Rightarrow> shard_host \<Rightarrow> int" where
  "hosted_size f h =
     (if hs_up h SelectHostedSize
      then (case hs_hosted h f of Some row \<Rightarrow> hr_size_bytes row | None \<Rightarrow> 0)
      else 0)"

definition authorize_owner :: "bool \<Rightarrow> authenticated_peer option \<Rightarrow> string \<Rightarrow> shard_host \<Rightarrow> bool" where
  "authorize_owner strict authenticated owner h =
     (case authenticated of
        None \<Rightarrow> \<not> strict
      | Some caller \<Rightarrow>
          if ap_peer_id caller \<noteq> owner then False
          else case (if hs_up h SelectPublicKey then hs_peers h owner else None) of
                 None \<Rightarrow> False
               | Some None \<Rightarrow> \<not> strict
               | Some (Some known) \<Rightarrow> known = ap_public_key caller)"

text \<open>\<open>store\<close> in its two halves: the checks, which give the cost on disk and the size of the row replaced,
  and what is done when they pass. Between the two the handler of another connection may run.\<close>

definition store_admit :: "string \<Rightarrow> string \<Rightarrow> bytes \<Rightarrow> shard_host \<Rightarrow> (int \<times> int) option" where
  "store_admit f owner data h =
     (let disk_cost = int (shard_disk_cost (length data))
      in if int (length data) > MAX_HOSTED_SHARD then None
         else if \<not> hs_up h SelectKnownPeer \<or> hs_peers h owner = None then None
         else
           let (contributed, hosted) =
                 (if hs_up h SelectCapacity then (hs_contributed_bytes h, hs_hosted_bytes h) else (0, 0));
               old_size = hosted_size f h
           in if hosted - old_size + disk_cost > contributed then None
              else Some (disk_cost, old_size))"

definition store_commit :: "file_path \<Rightarrow> string \<Rightarrow> string \<Rightarrow> int \<Rightarrow> bytes \<Rightarrow> int \<times> int \<Rightarrow> shard_host \<Rightarrow> bool \<times> shard_host" where
  "store_commit root f owner idx data costs h =
     (case (costs, store_write root f data (hs_disk h)) of
        ((disk_cost, old_size), (Ok _, D)) \<Rightarrow>
          let h1 = h\<lparr>hs_disk := D\<rparr>
          in if \<not> hs_up h UpsertHosted then (False, h1)
             else
               let h2 = h1\<lparr>hs_hosted := (hs_hosted h1)(f \<mapsto>
                          \<lparr>hr_owner_peer_id = owner, hr_size_bytes = disk_cost, hr_shard_index = idx\<rparr>)\<rparr>
               in (True,
                   if hs_up h UpdateHostedBytes
                   then h2\<lparr>hs_hosted_bytes := max (hs_hosted_bytes h2 + (disk_cost - old_size)) 0\<rparr>
                   else h2)
      | (_, (_, D)) \<Rightarrow> (False, h\<lparr>hs_disk := D\<rparr>))"

definition host_store :: "file_path \<Rightarrow> string \<Rightarrow> string \<Rightarrow> int \<Rightarrow> bytes \<Rightarrow> shard_host \<Rightarrow> bool \<times> shard_host" where
  "host_store root f owner idx data h =
     (case store_admit f owner data h of
        None \<Rightarrow> (False, h)
      | Some costs \<Rightarrow> store_commit root f owner idx data costs h)"

definition host_get :: "file_path \<Rightarrow> string \<Rightarrow> shard_host \<Rightarrow> bytes option" where
  "host_get root f h =
     (if \<not> hs_up h SelectHosted \<or> hs_hosted h f = None then None
      else ok (store_read root (hs_disk h) f))"

definition host_has :: "file_path \<Rightarrow> string \<Rightarrow> shard_host \<Rightarrow> bool" where
  "host_has root f h = store_exists root (hs_disk h) f"

definition host_audit :: "'f env \<Rightarrow> file_path \<Rightarrow> string \<Rightarrow> shard_host \<Rightarrow> string" where
  "host_audit E root f h =
     (case store_read root (hs_disk h) f of Ok b \<Rightarrow> shard_hash E b | _ \<Rightarrow> '''')"

definition host_delete :: "file_path \<Rightarrow> string \<Rightarrow> string \<Rightarrow> shard_host \<Rightarrow> bool \<times> shard_host" where
  "host_delete root f owner h =
     (case (if hs_up h SelectOwner then hs_hosted h f else None) of
        None \<Rightarrow> (True, h)
      | Some row \<Rightarrow>
          if hr_owner_peer_id row \<noteq> owner then (False, h)
          else
            let old_size = hosted_size f h;
                h1 = h\<lparr>hs_disk := snd (store_delete root f (hs_disk h))\<rparr>;
                h2 = (if hs_up h DeleteHosted then h1\<lparr>hs_hosted := (hs_hosted h1)(f := None)\<rparr> else h1)
            in (True,
                if hs_up h UpdateHostedBytes
                then h2\<lparr>hs_hosted_bytes := max (hs_hosted_bytes h2 - old_size) 0\<rparr>
                else h2))"

definition store_from :: "file_path \<Rightarrow> bool \<Rightarrow> authenticated_peer option \<Rightarrow> string \<Rightarrow> string \<Rightarrow> int \<Rightarrow> bytes
    \<Rightarrow> shard_host \<Rightarrow> bool \<times> shard_host" where
  "store_from root strict authenticated f owner idx data h =
     (if \<not> authorize_owner strict authenticated owner h then (False, h)
      else host_store root f owner idx data h)"

definition delete_from :: "file_path \<Rightarrow> bool \<Rightarrow> authenticated_peer option \<Rightarrow> string \<Rightarrow> string
    \<Rightarrow> shard_host \<Rightarrow> bool \<times> shard_host" where
  "delete_from root strict authenticated f owner h =
     (if \<not> authorize_owner strict authenticated owner h then (False, h)
      else host_delete root f owner h)"

definition p2p_shard_handler :: "'f env \<Rightarrow> file_path \<Rightarrow> bool \<Rightarrow> string \<Rightarrow> u16 \<Rightarrow> peer_signer option
    \<Rightarrow> shard_host shard_handler" where
  "p2p_shard_handler E root strict pid port signer =
     \<lparr>sh_peer_id = pid, sh_api_port = port, sh_signer = signer,
      sh_store_from = store_from root strict, sh_delete_from = delete_from root strict,
      sh_get = host_get root, sh_has = host_has root, sh_audit = host_audit E root\<rparr>"

end
