(* ===== verification/HostProps.thy ===== *)
theory HostProps
  imports ShardHost "HOL-Library.Code_Target_Nat"
begin

text \<open>
  The listener over the shard host: the accounting of hosted bytes along any connection, what a
  connection has to prove before it changes anything, the handshake end to end, and two weaknesses of
  the host.
\<close>

section \<open>Connections\<close>

text \<open>The turns of an open connection: each request with its answer, and the state after them.\<close>

inductive conn_reach :: "'f env \<Rightarrow> 'h shard_handler \<Rightarrow> string \<Rightarrow> 'h \<Rightarrow> (p2p_message \<times> p2p_message) list
    \<Rightarrow> auth_session \<Rightarrow> 'h \<Rightarrow> bool"
  for E H peer_ip h0 where
  opened: "conn_reach E H peer_ip h0 [] PeerAuthSession_new h0"
| turn: "conn_reach E H peer_ip h0 tr s h \<Longrightarrow> respond E H peer_ip rng msg (s, h) = (resp, s', h') \<Longrightarrow>
    conn_reach E H peer_ip h0 (tr @ [(msg, resp)]) s' h'"

inductive_cases conn_reachE: "conn_reach E H peer_ip h0 tr s h"

text \<open>The loop of the listener takes such turns.\<close>

lemma conn_loop_reach:
  assumes "conn_reach E H peer_ip h0 tr s h" "conn_loop E H peer_ip evs (s, h) = (fin, rs, s', h')"
  shows "\<exists>tr'. conn_reach E H peer_ip h0 (tr @ tr') s' h' \<and> length rs \<le> length tr' \<and> map snd (take (length rs) tr') = rs"
  using assms
proof (induction evs arbitrary: tr s h rs fin)
  case Nil
  then show ?case by (intro exI [of _ "[]"]) simp
next
  case (Cons ev evs)
  show ?case
  proof (cases "\<exists>msg. ev_read ev = Some (Ok msg)")
    case False
    then have "s' = s \<and> h' = h \<and> rs = []"
      using Cons.prems(2) by (auto split: option.splits result.splits io_error.splits)
    then show ?thesis using Cons.prems(1) by (intro exI [of _ "[]"]) simp
  next
    case True
    then obtain msg where msg: "ev_read ev = Some (Ok msg)" by blast
    obtain resp s1 h1 where r: "respond E H peer_ip (ev_rng ev) msg (s, h) = (resp, s1, h1)" by (metis prod_cases3)
    note step = conn_reach.turn [OF Cons.prems(1) r]
    show ?thesis
    proof (cases "ev_write ev")
      case None
      obtain e2 rs2 where l: "conn_loop E H peer_ip evs (s1, h1) = (e2, rs2, s', h')" "rs = resp # rs2"
        using Cons.prems(2) msg r None by (auto split: prod.splits)
      from Cons.IH [OF step l(1)] obtain tr' where "conn_reach E H peer_ip h0 ((tr @ [(msg, resp)]) @ tr') s' h'"
        "length rs2 \<le> length tr'" "map snd (take (length rs2) tr') = rs2" by blast
      then show ?thesis using l(2) by (intro exI [of _ "(msg, resp) # tr'"]) simp
    next
      case (Some e)
      then have "s' = s1 \<and> h' = h1 \<and> rs = []" using Cons.prems(2) msg r by simp
      then show ?thesis using step by (intro exI [of _ "[(msg, resp)]"]) simp
    qed
  qed
qed

text \<open>What a handler must keep for a connection to keep it.\<close>

locale kept_by_handler =
  fixes H :: "'h shard_handler" and good :: "'h \<Rightarrow> bool"
  assumes store_keeps: "good h \<Longrightarrow> good (snd (sh_store_from H a f owner i d h))"
    and delete_keeps: "good h \<Longrightarrow> good (snd (sh_delete_from H a f owner h))"
begin

lemma respond_keeps: "good h \<Longrightarrow> respond E H peer_ip rng msg (s, h) = (resp, s', h') \<Longrightarrow> good h'"
proof -
  assume h: "good h" and r: "respond E H peer_ip rng msg (s, h) = (resp, s', h')"
  show "good h'"
  proof (cases msg)
    case (StoreShard f owner i d)
    then show ?thesis using r store_keeps [OF h, of "as_peer s" f owner i d] by (simp add: respond_def split: prod.splits)
  next
    case (DeleteShard f owner)
    then show ?thesis using r delete_keeps [OF h, of "as_peer s" f owner] by (simp add: respond_def split: prod.splits)
  qed (use h r in \<open>auto simp: respond_def split: prod.splits\<close>)
qed

lemma reach_keeps: "conn_reach E H peer_ip h0 tr s h \<Longrightarrow> good h0 \<Longrightarrow> good h"
  by (induction rule: conn_reach.induct) (auto dest: respond_keeps)

lemma conn_keeps:
  assumes "good h" "handle_conn E H peer_ip evs h = (fin, rs, s', h')"
  shows "good h'"
  using conn_loop_reach [OF conn_reach.opened] assms(2) reach_keeps assms(1) by (metis handle_conn_def)

end

section \<open>Accounting\<close>

definition hosting_ok :: "shard_host \<Rightarrow> bool" where
  "hosting_ok h \<longleftrightarrow>
     (\<forall>c. hs_up h c) \<and> finite (dom (hs_hosted h)) \<and> (\<forall>row \<in> ran (hs_hosted h). 0 \<le> hr_size_bytes row)
     \<and> hs_hosted_bytes h = (\<Sum>f \<in> dom (hs_hosted h). hr_size_bytes (the (hs_hosted h f)))
     \<and> hs_hosted_bytes h \<le> hs_contributed_bytes h"

lemma hosted_sum_put:
  assumes "finite (dom m)"
  shows "(\<Sum>f \<in> dom (m(g \<mapsto> row)). hr_size_bytes (the ((m(g \<mapsto> row)) f)))
    = (\<Sum>f \<in> dom m. hr_size_bytes (the (m f))) - (case m g of Some r \<Rightarrow> hr_size_bytes r | None \<Rightarrow> 0) + hr_size_bytes row"
proof -
  have "(\<Sum>f \<in> dom (m(g \<mapsto> row)). hr_size_bytes (the ((m(g \<mapsto> row)) f)))
      = hr_size_bytes row + (\<Sum>f \<in> dom m - {g}. hr_size_bytes (the (m f)))"
    using assms by (simp add: sum.insert_remove)
  moreover have "(\<Sum>f \<in> dom m. hr_size_bytes (the (m f)))
      = (\<Sum>f \<in> dom m - {g}. hr_size_bytes (the (m f))) + (case m g of Some r \<Rightarrow> hr_size_bytes r | None \<Rightarrow> 0)"
    using sum.remove [OF assms, of g "\<lambda>f. hr_size_bytes (the (m f))"]
    by (cases "m g") (auto simp: domI domIff Diff_insert0)
  ultimately show ?thesis by simp
qed

lemma hosted_sum_drop:
  assumes "finite (dom m)" "m g = Some row"
  shows "(\<Sum>f \<in> dom (m(g := None)). hr_size_bytes (the ((m(g := None)) f)))
    = (\<Sum>f \<in> dom m. hr_size_bytes (the (m f))) - hr_size_bytes row"
proof -
  have "(\<Sum>f \<in> dom (m(g := None)). hr_size_bytes (the ((m(g := None)) f)))
      = (\<Sum>f \<in> dom m - {g}. hr_size_bytes (the (m f)))"
    by (rule sum.cong) auto
  then show ?thesis
    using sum.remove [OF assms(1), of g "\<lambda>f. hr_size_bytes (the (m f))"] assms(2) by (simp add: domI)
qed


lemma admit_costs:
  assumes "store_admit f owner data h = Some (cost, old_size)"
  shows "0 \<le> cost" "old_size = hosted_size f h"
    "(if hs_up h SelectCapacity then hs_hosted_bytes h else 0) - old_size + cost \<le> (if hs_up h SelectCapacity then hs_contributed_bytes h else 0)"
    "hs_up h SelectKnownPeer \<and> hs_peers h owner \<noteq> None"
  using assms by (auto simp: store_admit_def Let_def split: if_splits)

lemma store_ok: "hosting_ok h \<Longrightarrow> hosting_ok (snd (host_store root f owner i d h))"
proof -
  assume ok: "hosting_ok h"
  show ?thesis
  proof (cases "store_admit f owner d h")
    case None
    then show ?thesis using ok by (simp add: host_store_def)
  next
    case (Some costs)
    obtain cost old_size where c: "costs = (cost, old_size)" by fastforce
    note admit = admit_costs [OF Some [unfolded c]]
    obtain r D where w: "store_write root f d (hs_disk h) = (r, D)" by fastforce
    let ?row = "\<lparr>hr_owner_peer_id = owner, hr_size_bytes = cost, hr_shard_index = i\<rparr>"
    have up: "hs_up h c" for c using ok by (simp add: hosting_ok_def)
    have disk: "hosting_ok (h\<lparr>hs_disk := D\<rparr>)" using ok by (simp add: hosting_ok_def)
    have sum: "(\<Sum>g \<in> dom ((hs_hosted h)(f \<mapsto> ?row)). hr_size_bytes (the (((hs_hosted h)(f \<mapsto> ?row)) g)))
        = hs_hosted_bytes h - old_size + cost"
      using hosted_sum_put [of "hs_hosted h" f ?row] ok up admit(2) by (simp add: hosting_ok_def hosted_size_def)
    have nonneg: "\<forall>row \<in> ran ((hs_hosted h)(f \<mapsto> ?row)). 0 \<le> hr_size_bytes row"
      using ok admit(1) by (auto simp: hosting_ok_def ran_def split: if_splits)
    then have "0 \<le> (\<Sum>g \<in> dom ((hs_hosted h)(f \<mapsto> ?row)). hr_size_bytes (the (((hs_hosted h)(f \<mapsto> ?row)) g)))"
      by (intro sum_nonneg) (auto simp: ran_def split: if_splits)
    then have "hosting_ok (h\<lparr>hs_disk := D, hs_hosted := (hs_hosted h)(f \<mapsto> ?row), hs_hosted_bytes := max (hs_hosted_bytes h + (cost - old_size)) 0\<rparr>)"
      using ok sum nonneg admit(3) up by (auto simp: hosting_ok_def)
    then show ?thesis using disk up Some c w by (cases r) (auto simp: host_store_def store_commit_def Let_def)
  qed
qed

lemma delete_ok: "hosting_ok h \<Longrightarrow> hosting_ok (snd (host_delete root f owner h))"
proof -
  assume ok: "hosting_ok h"
  have up: "hs_up h c" for c using ok by (simp add: hosting_ok_def)
  show ?thesis
  proof (cases "hs_hosted h f")
    case None
    then show ?thesis using ok by (simp add: host_delete_def)
  next
    case (Some row)
    have sum: "(\<Sum>g \<in> dom ((hs_hosted h)(f := None)). hr_size_bytes (the (((hs_hosted h)(f := None)) g)))
        = hs_hosted_bytes h - hr_size_bytes row"
      using hosted_sum_drop [of "hs_hosted h" f row] ok Some by (simp add: hosting_ok_def)
    have nonneg: "\<forall>row \<in> ran ((hs_hosted h)(f := None)). 0 \<le> hr_size_bytes row"
      using ok by (auto simp: hosting_ok_def ran_def split: if_splits)
    then have "0 \<le> (\<Sum>g \<in> dom ((hs_hosted h)(f := None)). hr_size_bytes (the (((hs_hosted h)(f := None)) g)))"
      by (intro sum_nonneg) (auto simp: ran_def split: if_splits)
    moreover have "0 \<le> hr_size_bytes row" using ok Some by (auto simp: hosting_ok_def ran_def)
    ultimately show ?thesis
      using ok Some sum nonneg up by (auto simp: host_delete_def Let_def hosting_ok_def hosted_size_def)
  qed
qed

interpretation hosting: kept_by_handler "p2p_shard_handler E root strict pid port signer" hosting_ok
  for E root strict pid port signer
  by unfold_locales
    (simp_all add: p2p_shard_handler_def store_from_def delete_from_def store_ok delete_ok)

text \<open>C18. The accounts of a host balance along every connection: while the database answers, after any
  requests from anyone \<open>hosted_bytes\<close> is exactly the sum of the sizes of the hosted rows and never exceeds
  what the node contributes.\<close>

theorem hosting_accounts:
  assumes "hosting_ok h"
    and "handle_conn E (p2p_shard_handler E root strict pid port signer) peer_ip evs h = (fin, rs, s', h')"
  shows "hs_hosted_bytes h' = (\<Sum>f \<in> dom (hs_hosted h'). hr_size_bytes (the (hs_hosted h' f)))
    \<and> hs_hosted_bytes h' \<le> hs_contributed_bytes h'"
  using hosting.conn_keeps [OF assms] by (simp add: hosting_ok_def)


section \<open>What a connection has proved\<close>

text \<open>A challenge this host issued, and one later answered with a signature that verifies for the peer.\<close>

definition issued :: "string \<Rightarrow> (p2p_message \<times> p2p_message) list \<Rightarrow> bytes \<Rightarrow> bool" where
  "issued me tr ch \<longleftrightarrow> (\<exists>q port seen hk hs. (q, AuthPong me port seen hk hs ch) \<in> set tr)"

definition proved_on :: "'f env \<Rightarrow> string \<Rightarrow> (p2p_message \<times> p2p_message) list \<Rightarrow> authenticated_peer \<Rightarrow> bool" where
  "proved_on E me tr p \<longleftrightarrow>
     (\<exists>tr1 tr2 ch sg. issued me tr1 ch
        \<and> tr = tr1 @ (AuthProof (ap_peer_id p) (ap_public_key p) sg, AuthOk (ap_peer_id p)) # tr2
        \<and> verify_signature E (ap_public_key p) (proof_transcript me (ap_peer_id p) ch) sg)"

lemma issued_snoc: "issued me tr ch \<Longrightarrow> issued me (tr @ [t]) ch"
  unfolding issued_def set_append by blast

lemma issued_last: "issued me (tr @ [(q, AuthPong me port seen hk hs ch)]) ch"
  unfolding issued_def by (simp only: set_append list.set Un_iff insert_iff) blast

lemma proved_on_snoc: "proved_on E me tr p \<Longrightarrow> proved_on E me (tr @ [t]) p"
  unfolding proved_on_def by (metis append.assoc append_Cons)

definition session_inv :: "'f env \<Rightarrow> string \<Rightarrow> (p2p_message \<times> p2p_message) list \<Rightarrow> auth_session \<Rightarrow> bool" where
  "session_inv E me tr s \<longleftrightarrow>
     (\<forall>ch. as_challenge s = Some ch \<longrightarrow> issued me tr ch)
     \<and> (\<forall>p. as_peer s = Some p \<longrightarrow> proved_on E me tr p)
     \<and> length (filter (\<lambda>t. is_AuthOk (snd t)) tr) + (if as_challenge s = None then 0 else 1)
         \<le> length (filter (\<lambda>t. is_AuthPong (snd t)) tr)"

lemma session_inv_same:
  assumes "session_inv E me tr s" "\<not> is_AuthOk resp"
  shows "session_inv E me (tr @ [(msg, resp)]) s"
  using assms proved_on_snoc [of E me tr] issued_snoc [of me tr] unfolding session_inv_def by auto

lemma ping_session:
  assumes inv: "session_inv E (sh_peer_id H) tr s" and a: "auth_pong E H n peer_ip rng s = (resp, s')"
  shows "session_inv E (sh_peer_id H) (tr @ [(msg, resp)]) s'"
proof (cases "is_AuthPong resp")
  case True
  then obtain port seen hk hs ch where resp: "resp = AuthPong (sh_peer_id H) port seen hk hs ch" and s': "s' = s\<lparr>as_challenge := Some ch\<rparr>"
    using a by (auto simp: auth_pong_def issue_challenge_def random_nonce_def split: if_splits option.splits result.splits)
  show ?thesis using inv proved_on_snoc [of E "sh_peer_id H" tr] issued_last [of "sh_peer_id H" tr]
    unfolding session_inv_def resp s' by (auto split: if_splits)
next
  case False
  then have "s' = s \<and> \<not> is_AuthOk resp"
    using a by (auto simp: auth_pong_def issue_challenge_def random_nonce_def split: if_splits option.splits result.splits)
  then show ?thesis using session_inv_same [OF inv] by simp
qed

lemma proof_session:
  assumes inv: "session_inv E me tr s" and a: "accept_proof E me pid pk sg s = (good, s')"
  shows "session_inv E me (tr @ [(AuthProof pid pk sg, if good then AuthOk pid else Error e)]) s'"
proof (cases "as_challenge s")
  case None
  then show ?thesis using a session_inv_same [OF inv, of "Error e"] by (auto simp: accept_proof_def)
next
  case (Some ch)
  let ?s = "s\<lparr>as_challenge := None\<rparr>"
  have ch: "issued me tr ch" using inv Some by (simp add: session_inv_def)
  have less: "length (filter (\<lambda>t. is_AuthOk (snd t)) tr) < length (filter (\<lambda>t. is_AuthPong (snd t)) tr)"
    using inv Some by (simp add: session_inv_def)
  have none: "session_inv E me tr ?s" using inv by (auto simp: session_inv_def split: if_splits)
  show ?thesis
  proof (cases good)
    case True
    then have v: "verify_signature E pk (proof_transcript me pid ch) sg" and s': "s' = ?s\<lparr>as_peer := Some \<lparr>ap_peer_id = pid, ap_public_key = pk\<rparr>\<rparr>"
      using a Some by (auto simp: accept_proof_def Let_def split: if_splits)
    have "proved_on E me (tr @ [(AuthProof pid pk sg, AuthOk pid)]) \<lparr>ap_peer_id = pid, ap_public_key = pk\<rparr>"
      unfolding proved_on_def using ch v by (intro exI [of _ tr] exI [of _ "[]"] exI [of _ ch] exI [of _ sg]) simp
    then show ?thesis using True less by (simp add: session_inv_def s')
  next
    case False
    then have "s' = ?s" using a Some by (auto simp: accept_proof_def Let_def split: if_splits)
    then show ?thesis using False session_inv_same [OF none, of "Error e"] by simp
  qed
qed

lemma respond_session:
  assumes inv: "session_inv E (sh_peer_id H) tr s" and r: "respond E H peer_ip rng msg (s, h) = (resp, s', h')"
  shows "session_inv E (sh_peer_id H) (tr @ [(msg, resp)]) s'"
proof (cases msg)
  case (AuthPing a b n)
  then show ?thesis using r ping_session [OF inv] by (auto simp: respond_def split: prod.splits)
next
  case (AuthProof pid pk sg)
  then show ?thesis using r proof_session [OF inv] by (auto simp: respond_def split: prod.splits)
qed (use r session_inv_same [OF inv] in \<open>auto simp: respond_def split: prod.splits option.splits\<close>)

lemma reach_session: "conn_reach E H peer_ip h0 tr s h \<Longrightarrow> session_inv E (sh_peer_id H) tr s"
proof (induction rule: conn_reach.induct)
  case opened
  then show ?case by (simp add: session_inv_def PeerAuthSession_new_def)
next
  case (turn tr s h rng msg resp s' h')
  then show ?case by (intro respond_session)
qed

text \<open>C16. With strict peer authentication, a request changes anything on the host only if it is a store or a
  delete in the name of a peer whose pinned key signed, earlier on this very connection, a challenge this
  host had issued on it, bound to this host's id; and no challenge is answered twice.\<close>

theorem strict_changes_proved:
  assumes "conn_reach E (p2p_shard_handler E root True me port signer) peer_ip h0 tr s h"
    and "respond E (p2p_shard_handler E root True me port signer) peer_ip rng msg (s, h) = (resp, s', h')" "h' \<noteq> h"
  shows "(is_StoreShard msg \<or> is_DeleteShard msg)
    \<and> (\<exists>pk. hs_peers h (owner_peer_id msg) = Some (Some pk)
         \<and> proved_on E me tr \<lparr>ap_peer_id = owner_peer_id msg, ap_public_key = pk\<rparr>)
    \<and> length (filter (\<lambda>t. is_AuthOk (snd t)) tr) \<le> length (filter (\<lambda>t. is_AuthPong (snd t)) tr)"
proof -
  let ?H = "p2p_shard_handler E root True me port signer"
  have inv: "session_inv E me tr s" using reach_session [OF assms(1)] by (simp add: p2p_shard_handler_def)
  have auth: "\<exists>p. as_peer s = Some p \<and> ap_peer_id p = owner \<and> hs_peers h owner = Some (Some (ap_public_key p))"
    if "authorize_owner True (as_peer s) owner h" for owner
    using that by (auto simp: authorize_owner_def split: option.splits if_splits)
  have m: "(is_StoreShard msg \<or> is_DeleteShard msg) \<and> authorize_owner True (as_peer s) (owner_peer_id msg) h"
    using assms(2,3) by (cases msg)
      (auto simp: respond_def p2p_shard_handler_def store_from_def delete_from_def split: prod.splits if_splits)
  then obtain p where p: "as_peer s = Some p" "ap_peer_id p = owner_peer_id msg" "hs_peers h (owner_peer_id msg) = Some (Some (ap_public_key p))"
    using auth by blast
  then have "proved_on E me tr \<lparr>ap_peer_id = owner_peer_id msg, ap_public_key = ap_public_key p\<rparr>"
    using inv by (cases p) (auto simp: session_inv_def)
  then show ?thesis using m p inv by (auto simp: session_inv_def split: if_splits)
qed


section \<open>The handshake end to end\<close>

text \<open>Ed25519: a 32-byte seed has a 32-byte public key, signing gives 64 bytes, and they verify.\<close>

definition ed25519_correct :: "'f env \<Rightarrow> bool" where
  "ed25519_correct E \<longleftrightarrow>
     (\<forall>seed m. length seed = 32 \<longrightarrow> length (ed25519_public E seed) = 32
        \<and> (\<exists>sg. ed25519_sign E seed m = Some sg \<and> length sg = 64 \<and> ed25519_verify E (ed25519_public E seed) m sg))"

definition signer_ok :: "'f env \<Rightarrow> peer_signer \<Rightarrow> bool" where
  "signer_ok E s \<longleftrightarrow> PeerSigner_from_seed E (ps_seed s) = Ok s"

lemma signer_signs:
  assumes "ed25519_correct E" "hex_correct E" "signer_ok E s"
  obtains sg where "sign_hex E s m = Ok sg" "verify_signature E (ps_public_key_hex s) m sg"
proof -
  have len: "length (ps_seed s) = 32" and pk: "ps_public_key_hex s = hex_encode E (ed25519_public E (ps_seed s))"
    using assms(3) by (cases s; auto simp: signer_ok_def PeerSigner_from_seed_def ED25519_SEED_LEN_def split: if_splits)+
  obtain sg where "ed25519_sign E (ps_seed s) m = Some sg" "length sg = 64"
    "ed25519_verify E (ed25519_public E (ps_seed s)) m sg" "length (ed25519_public E (ps_seed s)) = 32"
    using assms(1) len unfolding ed25519_correct_def by blast
  then show thesis using assms(2)
    by (intro that [of "hex_encode E sg"]) (auto simp: sign_hex_def verify_signature_def pk hex_correct_def const_simps)
qed

lemma node_signer_ok: "node_signer E ident = Some s \<Longrightarrow> signer_ok E s"
  by (auto simp: node_signer_def signer_ok_def PeerSigner_from_seed_def split: result.splits if_splits)

text \<open>The two exchanges that authenticate the caller, as turns of the listener.\<close>

lemma authenticating_turns:
  assumes laws: "ed25519_correct E" "hex_correct E" and keys: "sh_signer H = Some hk" "signer_ok E hk" "signer_ok E me_key"
    and n: "length n = PEER_NONCE_LEN"
  obtains g1 g2 where
    "verify_signature E (ps_public_key_hex hk) (pong_transcript (sh_peer_id H) (sh_api_port H) n (Some peer_ip)) g1"
    "sign_hex E me_key (proof_transcript (sh_peer_id H) me ch) = Ok g2"
    "respond E H peer_ip (Some ch) (AuthPing me port n) (s, h) =
       (AuthPong (sh_peer_id H) (sh_api_port H) (Some peer_ip) (ps_public_key_hex hk) g1 ch, s\<lparr>as_challenge := Some ch\<rparr>, h)"
    "respond E H peer_ip (Some ch) (AuthProof me (ps_public_key_hex me_key) g2) (s\<lparr>as_challenge := Some ch\<rparr>, h) =
       (AuthOk me, \<lparr>as_challenge = None, as_peer = Some \<lparr>ap_peer_id = me, ap_public_key = ps_public_key_hex me_key\<rparr>\<rparr>, h)"
proof -
  obtain g1 where g1: "sign_hex E hk (pong_transcript (sh_peer_id H) (sh_api_port H) n (Some peer_ip)) = Ok g1"
    "verify_signature E (ps_public_key_hex hk) (pong_transcript (sh_peer_id H) (sh_api_port H) n (Some peer_ip)) g1"
    using signer_signs [OF laws keys(2)] .
  obtain g2 where g2: "sign_hex E me_key (proof_transcript (sh_peer_id H) me ch) = Ok g2"
    "verify_signature E (ps_public_key_hex me_key) (proof_transcript (sh_peer_id H) me ch) g2"
    using signer_signs [OF laws keys(3)] .
  show thesis
    by (rule that [OF g1(2) g2(1)])
      (use n keys(1) g1 g2 in \<open>simp_all add: respond_def auth_pong_def issue_challenge_def random_nonce_def accept_proof_def\<close>)
qed

lemma authenticated_reach:
  assumes "ed25519_correct E" "hex_correct E" "sh_signer H = Some hk" "signer_ok E hk" "signer_ok E me_key" "length (n :: bytes) = PEER_NONCE_LEN"
  shows "\<exists>tr. conn_reach E H peer_ip h tr \<lparr>as_challenge = None, as_peer = Some \<lparr>ap_peer_id = me, ap_public_key = ps_public_key_hex me_key\<rparr>\<rparr> h"
proof -
  obtain g1 g2 where r1: "respond E H peer_ip (Some []) (AuthPing me 0 n) (PeerAuthSession_new, h) =
       (AuthPong (sh_peer_id H) (sh_api_port H) (Some peer_ip) (ps_public_key_hex hk) g1 [], PeerAuthSession_new\<lparr>as_challenge := Some []\<rparr>, h)"
    and r2: "respond E H peer_ip (Some []) (AuthProof me (ps_public_key_hex me_key) g2) (PeerAuthSession_new\<lparr>as_challenge := Some []\<rparr>, h) =
       (AuthOk me, \<lparr>as_challenge = None, as_peer = Some \<lparr>ap_peer_id = me, ap_public_key = ps_public_key_hex me_key\<rparr>\<rparr>, h)"
    by (rule authenticating_turns [OF assms])
  show ?thesis by (rule exI, rule conn_reach.turn [OF conn_reach.turn [OF conn_reach.opened r1] r2])
qed

lemma session_completes:
  assumes laws: "ed25519_correct E" "hex_correct E" and keys: "sh_signer H = Some hk" "signer_ok E hk" "signer_ok E me_key"
    and n: "length n = PEER_NONCE_LEN"
  shows "authenticated_session E (Some n) (link_to E H peer_ip (Some ch)) me_key me port msg (s, h)
    = (case respond E H peer_ip (Some ch) msg
         (\<lparr>as_challenge = None, as_peer = Some \<lparr>ap_peer_id = me, ap_public_key = ps_public_key_hex me_key\<rparr>\<rparr>, h)
       of (resp, st) \<Rightarrow> (Ok resp, st))"
proof -
  obtain g1 g2 where g: "verify_signature E (ps_public_key_hex hk) (pong_transcript (sh_peer_id H) (sh_api_port H) n (Some peer_ip)) g1"
    "sign_hex E me_key (proof_transcript (sh_peer_id H) me ch) = Ok g2"
    "respond E H peer_ip (Some ch) (AuthPing me port n) (PeerAuthSession_new, h) =
       (AuthPong (sh_peer_id H) (sh_api_port H) (Some peer_ip) (ps_public_key_hex hk) g1 ch, PeerAuthSession_new\<lparr>as_challenge := Some ch\<rparr>, h)"
    "respond E H peer_ip (Some ch) (AuthProof me (ps_public_key_hex me_key) g2) (PeerAuthSession_new\<lparr>as_challenge := Some ch\<rparr>, h) =
       (AuthOk me, \<lparr>as_challenge = None, as_peer = Some \<lparr>ap_peer_id = me, ap_public_key = ps_public_key_hex me_key\<rparr>\<rparr>, h)"
    by (rule authenticating_turns [OF assms])
  show ?thesis
    by (simp add: authenticated_session_def link_to_def sbind_def slift_def random_nonce_def g)
qed

text \<open>C17. Placing a shard on a host works end to end: a node whose key the host pinned, sending a shard the host
  has room for, is acknowledged over the authenticated connection, whatever else the host holds; the shard
  can then be read back byte for byte by anyone who asks for it, and the audit of the host is the hash the
  owner keeps in its manifest.\<close>

theorem place_and_read_back:
  assumes laws: "ed25519_correct E" "hex_correct E"
    and me: "node_signer E ident = Some me_key" "length n = PEER_NONCE_LEN"
    and H: "H = p2p_shard_handler E root strict hid hport (Some hk)" "signer_ok E hk"
    and host: "\<forall>c. hs_up h c" "hs_peers h (id_peer_id ident) = Some (Some (ps_public_key_hex me_key))"
    and room: "store_admit f (id_peer_id ident) data h = Some costs" "store_write root f data (hs_disk h) = (Ok (), D)"
      "read_fault (hs_disk h) (root @ [take 2 f, f]) = None"
  shows "\<exists>w. signed_request E (Some n) ident port (link_to E H ip (Some ch)) (StoreShard f (id_peer_id ident) idx data) (s, h) = (Ok (Ack f), w)
    \<and> fst (request (link_to E H ip (Some ch)) (GetShard f) w) = Ok (ShardData f data)
    \<and> fst (audit_shard (link_to E H ip (Some ch)) f w) = Ok (shard_hash E data)"
proof -
  have key: "signer_ok E me_key" by (rule node_signer_ok [OF me(1)])
  have hs: "sh_signer H = Some hk" by (simp add: H(1) p2p_shard_handler_def)
  let ?s = "\<lparr>as_challenge = None, as_peer = Some \<lparr>ap_peer_id = id_peer_id ident, ap_public_key = ps_public_key_hex me_key\<rparr>\<rparr>"
  obtain h' where h': "store_from root strict (as_peer ?s) f (id_peer_id ident) idx data h = (True, h')"
    "hs_up h' = hs_up h" "hs_disk h' = D" "hs_hosted h' f \<noteq> None"
    using host room by (cases costs) (auto simp: store_from_def authorize_owner_def host_store_def store_commit_def Let_def)
  have faults: "read_fault D = read_fault (hs_disk h)"
    using store_write_faults [OF room(2)] by (simp add: same_faults_def)
  have bytes: "store_read root D f = Ok data"
    using cs.put_stores [OF room(2)] room(3) faults by (simp add: store_read_Ok)
  have "respond E H ip (Some ch) (StoreShard f (id_peer_id ident) idx data) (?s, h) = (Ack f, ?s, h')"
    using h'(1) by (simp add: respond_def H(1) p2p_shard_handler_def)
  then have "signed_request E (Some n) ident port (link_to E H ip (Some ch)) (StoreShard f (id_peer_id ident) idx data) (s, h) = (Ok (Ack f), ?s, h')"
    using session_completes [OF laws hs H(2) key me(2)] by (simp add: signed_request_def me(1) authenticated_request_def)
  moreover have "fst (request (link_to E H ip (Some ch)) (GetShard f) (?s, h')) = Ok (ShardData f data)"
    using h' host(1) bytes by (simp add: request_def link_to_def sbind_def respond_def H(1) p2p_shard_handler_def host_get_def)
  moreover have "fst (audit_shard (link_to E H ip (Some ch)) f (?s, h')) = Ok (shard_hash E data)"
    using h' bytes by (simp add: audit_shard_def request_def link_to_def sbind_def slift_def respond_def H(1) p2p_shard_handler_def host_audit_def)
  ultimately show ?thesis by blast
qed

section \<open>Two weaknesses\<close>

text \<open>A store does not look at who owns the row it replaces: a peer that proved its own identity takes over a
  shard hosted for another, with strict authentication too. Its bytes replace the hosted ones (and those of
  the host's own shard of that id, which lie in the same store), and the former owner can no longer delete it.\<close>

theorem hosted_shard_takeover:
  assumes "hs_hosted h f = Some row" "hr_owner_peer_id row = victim" "victim \<noteq> thief"
    and "\<forall>c. hs_up h c" "hs_peers h thief = Some (Some pk)"
    and "store_admit f thief data h = Some costs" "store_write root f data (hs_disk h) = (Ok (), D)"
  shows "\<exists>h'. store_from root True (Some \<lparr>ap_peer_id = thief, ap_public_key = pk\<rparr>) f thief idx data h = (True, h')
    \<and> map_option hr_owner_peer_id (hs_hosted h' f) = Some thief \<and> shard_bytes root (hs_disk h') f = Some data
    \<and> (\<forall>p. \<not> fst (delete_from root True p f victim h'))"
proof -
  obtain h' where h': "store_from root True (Some \<lparr>ap_peer_id = thief, ap_public_key = pk\<rparr>) f thief idx data h = (True, h')"
    "hs_up h' = hs_up h" "hs_disk h' = D" "map_option hr_owner_peer_id (hs_hosted h' f) = Some thief"
    using assms(4-7) by (cases costs) (auto simp: store_from_def authorize_owner_def host_store_def store_commit_def Let_def)
  moreover have "\<not> fst (delete_from root True p f victim h')" for p
    using h'(2,4) assms(3,4) by (auto simp: delete_from_def host_delete_def)
  moreover have "shard_bytes root D f = Some data" by (rule cs.put_stores [OF assms(7)])
  ultimately show ?thesis by (intro exI [of _ h']) simp
qed


section \<open>A host at work\<close>

definition host_disk :: disk where
  "host_disk = \<lparr>disk_files = Map.empty, mkdir_fault = (\<lambda>_. None), write_fault = (\<lambda>_. None), read_fault = (\<lambda>_. None),
     remove_fault = (\<lambda>_. None)\<rparr>"

definition host_ident :: node_identity where
  "host_ident = \<lparr>id_data_key = replicate 32 1, id_manifest_key_hex = ''00'', id_peer_id = ''alice''\<rparr>"

definition host_key :: peer_signer where
  "host_key = \<lparr>ps_seed = replicate 32 9, ps_public_key_hex = hex_encode demo_env (replicate 32 9)\<rparr>"

definition alice_key :: peer_signer where
  "alice_key = the (node_signer demo_env host_ident)"

text \<open>Two known peers, a contribution of one block, nothing hosted.\<close>

definition small_host :: shard_host where
  "small_host = \<lparr>hs_peers = [''alice'' \<mapsto> Some (ps_public_key_hex alice_key), ''bob'' \<mapsto> Some ''b0b''], hs_hosted = Map.empty,
     hs_contributed_bytes = 4096, hs_hosted_bytes = 0, hs_disk = host_disk, hs_up = (\<lambda>_. True)\<rparr>"

lemma small_host_fields [simp]:
  "hs_peers small_host = [''alice'' \<mapsto> Some (ps_public_key_hex alice_key), ''bob'' \<mapsto> Some ''b0b'']"
  "hs_hosted small_host = Map.empty" "hs_contributed_bytes small_host = 4096" "hs_hosted_bytes small_host = 0"
  "hs_disk small_host = host_disk" "hs_up small_host c"
  "disk_files host_disk = Map.empty" "mkdir_fault host_disk = (\<lambda>_. None)" "write_fault host_disk = (\<lambda>_. None)"
  "read_fault host_disk = (\<lambda>_. None)" "remove_fault host_disk = (\<lambda>_. None)"
  by (simp_all add: small_host_def host_disk_def)

definition frag_a :: string where "frag_a = replicate 32 (CHR ''a'')"
definition frag_b :: string where "frag_b = replicate 32 (CHR ''b'')"

lemma frags_valid: "is_valid_fragment_id frag_a" "is_valid_fragment_id frag_b" "frag_a \<noteq> frag_b"
  by (simp_all add: is_valid_fragment_id_def frag_a_def frag_b_def is_ascii_hexdigit_def list_all_iff)

lemma host_write: "is_valid_fragment_id f \<Longrightarrow> write_fault D = (\<lambda>_. None) \<Longrightarrow> mkdir_fault D = (\<lambda>_. None) \<Longrightarrow>
    store_write root f d D = (Ok (), D\<lparr>disk_files := (disk_files D)(root @ [take 2 f, f] \<mapsto> d)\<rparr>)"
  by (simp add: store_write_def shard_path_def sbind_def slift_def write_file_def)

lemma one_block: "shard_disk_cost (Suc 0) = 4096"
  by code_simp

lemma small_admit:
  "owner \<in> {''alice'', ''bob''} \<Longrightarrow> store_admit f owner [1] small_host = Some (4096, 0)"
  by (auto simp: store_admit_def MAX_HOSTED_SHARD_def one_block hosted_size_def)

text \<open>The check of the capacity and the accounting are two steps, and the handlers of two connections may
  interleave between them: both requests pass the check, both are stored, and the node hosts more than it
  contributes.\<close>

theorem capacity_race:
  "(let a = store_admit frag_a ''alice'' [1] small_host;
        b = store_admit frag_b ''bob'' [1] small_host;
        (done_a, h1) = store_commit [''s''] frag_a ''alice'' 0 [1] (the a) small_host;
        (done_b, h2) = store_commit [''s''] frag_b ''bob'' 0 [1] (the b) h1
    in a \<noteq> None \<and> b \<noteq> None \<and> done_a \<and> done_b \<and> hs_hosted_bytes h2 > hs_contributed_bytes h2)"
  using frags_valid by (simp add: small_admit store_commit_def Let_def host_write)

definition full_host :: shard_host where
  "full_host = snd (host_store [''s''] frag_a ''alice'' 0 [1] small_host)"

lemma full_host_eq:
  "full_host = small_host\<lparr>hs_disk := host_disk\<lparr>disk_files := [[''s'', take 2 frag_a, frag_a] \<mapsto> [1]]\<rparr>,
     hs_hosted := [frag_a \<mapsto> \<lparr>hr_owner_peer_id = ''alice'', hr_size_bytes = 4096, hr_shard_index = 0\<rparr>], hs_hosted_bytes := 4096\<rparr>"
  using frags_valid by (simp add: full_host_def host_store_def small_admit store_commit_def Let_def host_write)

theorem hosted_shard_takeover_witness:
  "\<exists>h'. store_from [''s''] True (Some \<lparr>ap_peer_id = ''bob'', ap_public_key = ''b0b''\<rparr>) frag_a ''bob'' 0 [2] full_host = (True, h')
    \<and> map_option hr_owner_peer_id (hs_hosted h' frag_a) = Some ''bob'' \<and> shard_bytes [''s''] (hs_disk h') frag_a = Some [2]
    \<and> (\<forall>p. \<not> fst (delete_from [''s''] True p frag_a ''alice'' h'))"
proof (rule hosted_shard_takeover [where row = "\<lparr>hr_owner_peer_id = ''alice'', hr_size_bytes = 4096, hr_shard_index = 0\<rparr>"])
  show "store_admit frag_a ''bob'' [2] full_host = Some (4096, 4096)"
    by (simp add: store_admit_def full_host_eq MAX_HOSTED_SHARD_def one_block hosted_size_def)
  show "store_write [''s''] frag_a [2] (hs_disk full_host) = (Ok (), (hs_disk full_host)\<lparr>disk_files := (disk_files (hs_disk full_host))([''s''] @ [take 2 frag_a, frag_a] \<mapsto> [2])\<rparr>)"
    by (rule host_write) (simp_all add: frags_valid full_host_eq)
qed (simp_all add: full_host_eq)

lemma demo_ed25519: "ed25519_correct demo_env"
  by (simp add: ed25519_correct_def demo_env_def)

lemma alice_signs: "node_signer demo_env host_ident = Some alice_key"
proof -
  have "\<exists>k. node_signer demo_env host_ident = Some k"
    by (simp add: node_signer_def derive_raw_def hkdf_fill_def PeerSigner_from_seed_def demo_env_def const_simps KEY_LEN_def)
  then show ?thesis by (auto simp: alice_key_def)
qed

lemma host_key_ok: "signer_ok demo_env host_key"
  by (simp add: signer_ok_def PeerSigner_from_seed_def host_key_def demo_env_def const_simps)

lemma alice_key_ok: "signer_ok demo_env alice_key"
  by (rule node_signer_ok [OF alice_signs])

theorem place_and_read_back_witness:
  "\<exists>w. signed_request demo_env (Some (replicate 32 3)) host_ident 8080
      (link_to demo_env (p2p_shard_handler demo_env [''s''] True ''host'' 8081 (Some host_key)) ''1.2.3.4'' (Some (replicate 32 4)))
      (StoreShard frag_a ''alice'' 0 [1]) (PeerAuthSession_new, small_host) = (Ok (Ack frag_a), w)
    \<and> fst (request (link_to demo_env (p2p_shard_handler demo_env [''s''] True ''host'' 8081 (Some host_key)) ''1.2.3.4'' (Some (replicate 32 4)))
        (GetShard frag_a) w) = Ok (ShardData frag_a [1])"
proof -
  have id: "id_peer_id host_ident = ''alice''" by (simp add: host_ident_def)
  from place_and_read_back [OF demo_ed25519 demo_hex_correct alice_signs _ refl host_key_ok, of "replicate 32 3" small_host frag_a "[1]" "(4096, 0)" "[''s'']"]
  show ?thesis
    using small_admit [of "''alice''" frag_a] host_write [of frag_a host_disk "[''s'']" "[1]"] frags_valid(1)
    by (simp add: id PEER_NONCE_LEN_def) blast
qed

lemma small_store: "host_store [''s''] frag_a ''alice'' 0 [1] small_host = (True, full_host)"
  using frags_valid by (simp add: full_host_def host_store_def small_admit store_commit_def Let_def host_write)

theorem hosting_accounts_witness:
  "hs_hosted_bytes full_host = (\<Sum>f \<in> dom (hs_hosted full_host). hr_size_bytes (the (hs_hosted full_host f)))
    \<and> hs_hosted_bytes full_host \<le> hs_contributed_bytes full_host"
proof -
  have "hosting_ok small_host" by (simp add: hosting_ok_def)
  moreover have "handle_conn demo_env (p2p_shard_handler demo_env [''s''] False ''host'' 8081 None) ''1.2.3.4''
     [\<lparr>ev_read = Some (Ok (StoreShard frag_a ''alice'' 0 [1])), ev_rng = None, ev_write = None\<rparr>] small_host
     = (None, [Ack frag_a], PeerAuthSession_new, full_host)"
    by (simp add: handle_conn_def respond_def p2p_shard_handler_def store_from_def authorize_owner_def PeerAuthSession_new_def small_store)
  ultimately show ?thesis by (rule hosting_accounts)
qed

theorem strict_changes_proved_witness:
  "\<exists>tr. proved_on demo_env ''host'' tr \<lparr>ap_peer_id = ''alice'', ap_public_key = ps_public_key_hex alice_key\<rparr>"
proof -
  let ?H = "p2p_shard_handler demo_env [''s''] True ''host'' 8081 (Some host_key)"
  let ?s = "\<lparr>as_challenge = None, as_peer = Some \<lparr>ap_peer_id = ''alice'', ap_public_key = ps_public_key_hex alice_key\<rparr>\<rparr>"
  obtain tr where tr: "conn_reach demo_env ?H ''1.2.3.4'' small_host tr ?s small_host"
    using authenticated_reach [OF demo_ed25519 demo_hex_correct _ host_key_ok alice_key_ok, of ?H "replicate 32 3" "''1.2.3.4''" small_host "''alice''"]
    by (auto simp: p2p_shard_handler_def PEER_NONCE_LEN_def)
  have r: "respond demo_env ?H ''1.2.3.4'' None (StoreShard frag_a ''alice'' 0 [1]) (?s, small_host) = (Ack frag_a, ?s, full_host)"
    by (simp add: respond_def p2p_shard_handler_def store_from_def authorize_owner_def small_store)
  have "hs_hosted_bytes full_host \<noteq> hs_hosted_bytes small_host" by (simp add: full_host_eq)
  then have "full_host \<noteq> small_host" by metis
  from strict_changes_proved [OF tr r this] show ?thesis by auto
qed

end
