(* ===== verification/Placement.thy ===== *)
theory Placement
  imports Dht
begin

text \<open>
  \<open>server/src/placement.rs\<close>: which location gets which shard of a chunk. The scores are \<open>f64\<close> and stay
  abstract: the constants 0.5 and infinity are the quotients they equal in IEEE arithmetic. Nothing below
  depends on how scores are rounded, only on whether a peer's score is below infinity.
\<close>

record 'f peer_candidate =
  pc_rtt_ms :: 'f
  pc_zone :: "string option"
  pc_reliability :: 'f

type_synonym placement = "nat option"

definition PeerCandidate_new :: "'f env \<Rightarrow> 'f \<Rightarrow> 'f peer_candidate" where
  "PeerCandidate_new E rtt = \<lparr>pc_rtt_ms = rtt, pc_zone = None, pc_reliability = f64_of_nat E 100\<rparr>"

section \<open>The zone of an address\<close>

text \<open>\<open>rsplit_once(':')\<close>, the part before the last colon; \<open>parse_ip\<close> and \<open>parse_sock\<close> are the parsers of
  \<open>std::net\<close>.\<close>

definition before_last_colon :: "string \<Rightarrow> string option" where
  "before_last_colon s =
     (if CHR '':'' \<in> set s then Some (rev (tl (dropWhile (\<lambda>c. c \<noteq> CHR '':'') (rev s)))) else None)"

definition ip_of_addr :: "(string \<Rightarrow> ip_addr option) \<Rightarrow> (string \<Rightarrow> sock_addr option) \<Rightarrow> string \<Rightarrow> ip_addr option" where
  "ip_of_addr parse_ip parse_sock addr =
     (case parse_ip addr of
        Some ip \<Rightarrow> Some ip
      | None \<Rightarrow>
          (case parse_sock addr of
             Some (ip, _) \<Rightarrow> Some ip
           | None \<Rightarrow>
               (let host = (case addr of
                              c # rest \<Rightarrow>
                                if c = CHR ''['' then Some (takeWhile (\<lambda>c. c \<noteq> CHR '']'') rest) else before_last_colon addr
                            | [] \<Rightarrow> None)
                in Option.bind host parse_ip)))"

definition zone_v4 :: "byte \<Rightarrow> byte \<Rightarrow> byte \<Rightarrow> string" where
  "zone_v4 a b c = show_nat (unat a) @ ''.'' @ show_nat (unat b) @ ''.'' @ show_nat (unat c) @ ''.0/24''"

text \<open>\<open>format!("{:x}")\<close>.\<close>

fun show_hex :: "nat \<Rightarrow> string" where
  "show_hex n = (if n < 16 then [hex_digit n] else show_hex (n div 16) @ [hex_digit (n mod 16)])"

declare show_hex.simps [simp del]

fun zone_of_ip :: "ip_addr \<Rightarrow> string" where
  "zone_of_ip (IpV4 a b c d) = zone_v4 a b c"
| "zone_of_ip (IpV6 s0 s1 s2 s3 s4 s5 s6 s7) =
     (if list_all (\<lambda>s. s = 0) [s0, s1, s2, s3, s4] \<and> s5 = 0xffff
      then zone_v4 (hi_byte s6) (lo_byte s6) (hi_byte s7)
      else show_hex (unat s0) @ '':'' @ show_hex (unat s1) @ '':'' @ show_hex (unat s2) @ '':'' @ show_hex (unat s3) @ ''::/64'')"

definition zone_of_addr :: "(string \<Rightarrow> ip_addr option) \<Rightarrow> (string \<Rightarrow> sock_addr option) \<Rightarrow> string \<Rightarrow> string option" where
  "zone_of_addr parse_ip parse_sock addr = map_option zone_of_ip (ip_of_addr parse_ip parse_sock addr)"

section \<open>The numbers\<close>

definition RELIABILITY_WEIGHT :: "'f env \<Rightarrow> 'f" where
  "RELIABILITY_WEIGHT E = f64_div E (f64_of_nat E 1) (f64_of_nat E 2)"

definition f64_infinity :: "'f env \<Rightarrow> 'f" where
  "f64_infinity E = f64_div E (f64_of_nat E 1) (f64_of_nat E 0)"

text \<open>\<open>f64::max\<close> ignores a NaN (the value that is not below itself); \<open>f64::clamp\<close> passes it on.\<close>

definition f64_max :: "'f env \<Rightarrow> 'f \<Rightarrow> 'f \<Rightarrow> 'f" where
  "f64_max E a b =
     (if f64_le E b a then a else if f64_le E a b then b else if f64_le E a a then a else b)"

definition f64_clamp :: "'f env \<Rightarrow> 'f \<Rightarrow> 'f \<Rightarrow> 'f \<Rightarrow> 'f" where
  "f64_clamp E lo hi x = (if f64_lt E x lo then lo else if f64_lt E hi x then hi else x)"

definition max_rtt :: "'f env \<Rightarrow> 'f peer_candidate list \<Rightarrow> 'f" where
  "max_rtt E peers = foldl (f64_max E) (f64_of_nat E 1) (map pc_rtt_ms peers)"

definition concentration :: "'f env \<Rightarrow> nat \<Rightarrow> 'f" where
  "concentration E parity = f64_div E (f64_of_nat E 1) (f64_of_nat E (max parity 1))"

definition peer_score :: "'f env \<Rightarrow> 'f \<Rightarrow> 'f \<Rightarrow> 'f peer_candidate \<Rightarrow> nat \<Rightarrow> 'f" where
  "peer_score E mrtt alpha p cnt =
     (let unreliability = f64_sub E (f64_of_nat E 1)
            (f64_div E (f64_clamp E (f64_of_nat E 0) (f64_of_nat E 100) (pc_reliability p)) (f64_of_nat E 100))
      in f64_add E (f64_add E (f64_div E (pc_rtt_ms p) mrtt) (f64_mul E alpha (f64_of_nat E cnt)))
           (f64_mul E (RELIABILITY_WEIGHT E) unreliability))"

section \<open>Zones\<close>

definition nonempty_zone :: "string option \<Rightarrow> string option" where
  "nonempty_zone z = (case z of Some s \<Rightarrow> if s = [] then None else Some s | None \<Rightarrow> None)"

definition zone_key :: "nat \<Rightarrow> 'f peer_candidate \<Rightarrow> string" where
  "zone_key i p =
     (case nonempty_zone (pc_zone p) of
        Some z \<Rightarrow> ''zone:'' @ z
      | None \<Rightarrow> ''unzoned-peer:'' @ show_nat i)"

definition self_key :: "string option \<Rightarrow> string" where
  "self_key self_zone =
     (case nonempty_zone self_zone of Some z \<Rightarrow> ''zone:'' @ z | None \<Rightarrow> ''zone:@self'')"

section \<open>The greedy\<close>

record plan_state =
  ps_zone_count :: "string \<Rightarrow> nat"
  ps_peer_count :: "nat list"
  ps_self_count :: nat

fun scan_peers :: "'f env \<Rightarrow> 'f \<Rightarrow> 'f \<Rightarrow> nat \<Rightarrow> bool \<Rightarrow> plan_state \<Rightarrow> (nat \<times> 'f peer_candidate) list
    \<Rightarrow> placement option \<Rightarrow> 'f \<Rightarrow> placement option" where
  "scan_peers E mrtt alpha parity honor_zones st [] best best_score = best"
| "scan_peers E mrtt alpha parity honor_zones st ((i, p) # ps) best best_score =
     (if ps_peer_count st ! i \<ge> parity then scan_peers E mrtt alpha parity honor_zones st ps best best_score
      else if honor_zones \<and> ps_zone_count st (zone_key i p) \<ge> parity
      then scan_peers E mrtt alpha parity honor_zones st ps best best_score
      else
        let score = peer_score E mrtt alpha p (ps_peer_count st ! i)
        in if f64_lt E score best_score
           then scan_peers E mrtt alpha parity honor_zones st ps (Some (Some i)) score
           else scan_peers E mrtt alpha parity honor_zones st ps best best_score)"

definition best_location :: "'f env \<Rightarrow> 'f peer_candidate list \<Rightarrow> string option \<Rightarrow> nat \<Rightarrow> bool \<Rightarrow> plan_state
    \<Rightarrow> placement option" where
  "best_location E peers self_zone parity honor_zones st =
     (let alpha = concentration E parity;
          self_zone_ok = (\<not> honor_zones \<or> ps_zone_count st (self_key self_zone) < parity);
          (best, best_score) =
            (if ps_self_count st < parity \<and> self_zone_ok
             then (Some None, f64_mul E alpha (f64_of_nat E (ps_self_count st)))
             else (None, f64_infinity E))
      in scan_peers E (max_rtt E peers) alpha parity honor_zones st (List.enumerate 0 peers) best best_score)"

definition place_one :: "'f env \<Rightarrow> 'f peer_candidate list \<Rightarrow> string option \<Rightarrow> nat \<Rightarrow> plan_state
    \<Rightarrow> placement \<times> plan_state" where
  "place_one E peers self_zone parity st =
     (let choice = (case best_location E peers self_zone parity True st of
                      Some c \<Rightarrow> Some c
                    | None \<Rightarrow> best_location E peers self_zone parity False st)
      in case (case choice of Some c \<Rightarrow> c | None \<Rightarrow> None) of
           Some i \<Rightarrow>
             let z = zone_key i (peers ! i)
             in (Some i, st\<lparr>ps_peer_count := (ps_peer_count st)[i := ps_peer_count st ! i + 1],
                            ps_zone_count := (ps_zone_count st)(z := ps_zone_count st z + 1)\<rparr>)
         | None \<Rightarrow>
             let z = self_key self_zone
             in (None, st\<lparr>ps_self_count := ps_self_count st + 1,
                          ps_zone_count := (ps_zone_count st)(z := ps_zone_count st z + 1)\<rparr>))"

fun place_all :: "'f env \<Rightarrow> 'f peer_candidate list \<Rightarrow> string option \<Rightarrow> nat \<Rightarrow> nat \<Rightarrow> plan_state
    \<Rightarrow> placement list \<times> plan_state" where
  "place_all E peers self_zone parity 0 st = ([], st)"
| "place_all E peers self_zone parity (Suc n) st =
     (let (p, st') = place_one E peers self_zone parity st;
          (ps, st'') = place_all E peers self_zone parity n st'
      in (p # ps, st''))"

definition plan_start :: "'f peer_candidate list \<Rightarrow> plan_state" where
  "plan_start peers = \<lparr>ps_zone_count = (\<lambda>_. 0), ps_peer_count = replicate (length peers) 0, ps_self_count = 0\<rparr>"

definition plan_placement_zoned :: "'f env \<Rightarrow> 'f peer_candidate list \<Rightarrow> string option \<Rightarrow> nat \<Rightarrow> nat \<Rightarrow> placement list" where
  "plan_placement_zoned E peers self_zone total_shards parity =
     fst (place_all E peers self_zone parity total_shards (plan_start peers))"

definition plan_placement :: "'f env \<Rightarrow> 'f list \<Rightarrow> nat \<Rightarrow> nat \<Rightarrow> placement list" where
  "plan_placement E peer_rtt total_shards parity =
     plan_placement_zoned E (map (PeerCandidate_new E) peer_rtt) None total_shards parity"

definition jurisdiction_allowed :: "string list \<Rightarrow> string option \<Rightarrow> bool" where
  "jurisdiction_allowed allow country \<longleftrightarrow>
     allow = [] \<or> (case country of Some c \<Rightarrow> list_ex (\<lambda>a. a = c) allow | None \<Rightarrow> False)"

section \<open>Locations\<close>

text \<open>A location is this node (\<open>None\<close>) or a peer; \<open>open_at\<close> is one with room under its cap and, when zones
  count, in a zone with room.\<close>

definition locations :: "'f peer_candidate list \<Rightarrow> placement set" where
  "locations peers = insert None (Some ` {..<length peers})"

definition location_zone :: "'f peer_candidate list \<Rightarrow> string option \<Rightarrow> placement \<Rightarrow> string" where
  "location_zone peers self_zone l = (case l of None \<Rightarrow> self_key self_zone | Some i \<Rightarrow> zone_key i (peers ! i))"

definition load :: "plan_state \<Rightarrow> placement \<Rightarrow> nat" where
  "load st l = (case l of None \<Rightarrow> ps_self_count st | Some i \<Rightarrow> ps_peer_count st ! i)"

definition open_at :: "'f peer_candidate list \<Rightarrow> string option \<Rightarrow> nat \<Rightarrow> bool \<Rightarrow> plan_state \<Rightarrow> placement \<Rightarrow> bool" where
  "open_at peers self_zone parity honor_zones st l \<longleftrightarrow>
     l \<in> locations peers \<and> load st l < parity
     \<and> (honor_zones \<longrightarrow> ps_zone_count st (location_zone peers self_zone l) < parity)"

text \<open>What the scores must satisfy for a peer to be eligible at all: below infinity.\<close>

definition finite_scores :: "'f env \<Rightarrow> 'f peer_candidate list \<Rightarrow> nat \<Rightarrow> bool" where
  "finite_scores E peers parity \<longleftrightarrow>
     (\<forall>p \<in> set peers. \<forall>cnt < parity. f64_lt E (peer_score E (max_rtt E peers) (concentration E parity) p cnt) (f64_infinity E))"

definition eligible :: "nat \<Rightarrow> bool \<Rightarrow> plan_state \<Rightarrow> nat \<times> 'f peer_candidate \<Rightarrow> bool" where
  "eligible parity honor st ip \<longleftrightarrow>
     ps_peer_count st ! fst ip < parity \<and> (honor \<longrightarrow> ps_zone_count st (zone_key (fst ip) (snd ip)) < parity)"

lemma scan_peers_Cons:
  "scan_peers E mrtt alpha parity honor st (ip # ps) best score =
     (if \<not> eligible parity honor st ip then scan_peers E mrtt alpha parity honor st ps best score
      else if f64_lt E (peer_score E mrtt alpha (snd ip) (ps_peer_count st ! fst ip)) score
      then scan_peers E mrtt alpha parity honor st ps (Some (Some (fst ip))) (peer_score E mrtt alpha (snd ip) (ps_peer_count st ! fst ip))
      else scan_peers E mrtt alpha parity honor st ps best score)"
  by (cases ip; cases honor) (auto simp: eligible_def Let_def)

declare scan_peers.simps(2) [simp del]

lemma scan_peers_chosen:
  "scan_peers E mrtt alpha parity honor st ps best score = Some l \<Longrightarrow>
   best = Some l \<or> (\<exists>ip \<in> set ps. eligible parity honor st ip \<and> l = Some (fst ip))"
  by (induction ps arbitrary: best score) (auto simp: scan_peers_Cons split: if_splits)

lemma scan_peers_keeps: "scan_peers E mrtt alpha parity honor st ps (Some b) score \<noteq> None"
  by (induction ps arbitrary: b score) (simp_all add: scan_peers_Cons)

lemma scan_peers_None:
  assumes "scan_peers E mrtt alpha parity honor st ps None (f64_infinity E) = None"
    and "\<forall>ip \<in> set ps. \<forall>cnt < parity. f64_lt E (peer_score E mrtt alpha (snd ip) cnt) (f64_infinity E)"
    and "ip \<in> set ps"
  shows "\<not> eligible parity honor st ip"
  using assms
proof (induction ps)
  case (Cons jq ps)
  show ?case
  proof (cases "eligible parity honor st jq")
    case True
    then have "f64_lt E (peer_score E mrtt alpha (snd jq) (ps_peer_count st ! fst jq)) (f64_infinity E)"
      using Cons.prems(2) by (auto simp: eligible_def)
    then show ?thesis using Cons.prems(1) True by (simp add: scan_peers_Cons scan_peers_keeps)
  next
    case False
    then show ?thesis using Cons by (auto simp: scan_peers_Cons)
  qed
qed simp

lemma enumerate_mem [simp]: "(i, p) \<in> set (List.enumerate 0 peers) \<longleftrightarrow> i < length peers \<and> p = peers ! i"
  by (auto simp: in_set_enumerate_eq)

text \<open>The choice is an open location; there is none only if no location is open.\<close>

lemma open_at_simps:
  "open_at peers sz parity honor st None \<longleftrightarrow> ps_self_count st < parity \<and> (\<not> honor \<or> ps_zone_count st (self_key sz) < parity)"
  "open_at peers sz parity honor st (Some i) \<longleftrightarrow> i < length peers \<and> eligible parity honor st (i, peers ! i)"
  by (auto simp: open_at_def locations_def load_def location_zone_def eligible_def)

lemma best_location_eq:
  "best_location E peers sz parity honor st =
     scan_peers E (max_rtt E peers) (concentration E parity) parity honor st (List.enumerate 0 peers)
       (if open_at peers sz parity honor st None then Some None else None)
       (if open_at peers sz parity honor st None then f64_mul E (concentration E parity) (f64_of_nat E (ps_self_count st)) else f64_infinity E)"
  by (cases honor; cases "ps_self_count st < parity"; cases "ps_zone_count st (self_key sz) < parity")
    (simp_all add: best_location_def Let_def open_at_simps)

lemma best_location_open:
  assumes "best_location E peers sz parity honor st = Some l"
  shows "open_at peers sz parity honor st l"
  using scan_peers_chosen [OF assms [unfolded best_location_eq]]
  by (auto simp: open_at_simps enumerate_mem split: if_splits)

lemma best_location_None:
  assumes "best_location E peers sz parity honor st = None" "finite_scores E peers parity"
  shows "\<not> open_at peers sz parity honor st l"
proof -
  have own: "\<not> open_at peers sz parity honor st None"
    using assms(1) by (auto simp: best_location_eq scan_peers_keeps split: if_splits)
  then have scan: "scan_peers E (max_rtt E peers) (concentration E parity) parity honor st (List.enumerate 0 peers) None (f64_infinity E) = None"
    using assms(1) by (simp add: best_location_eq)
  have fin: "\<forall>ip \<in> set (List.enumerate 0 peers). \<forall>cnt < parity.
      f64_lt E (peer_score E (max_rtt E peers) (concentration E parity) (snd ip) cnt) (f64_infinity E)"
    using assms(2) by (auto simp: finite_scores_def enumerate_mem)
  show ?thesis using own scan_peers_None [OF scan fin] by (cases l) (auto simp: open_at_simps enumerate_mem)
qed

section \<open>Every step of the plan\<close>

definition plan_inv :: "'f peer_candidate list \<Rightarrow> string option \<Rightarrow> nat \<Rightarrow> placement list \<Rightarrow> plan_state \<Rightarrow> bool" where
  "plan_inv peers sz parity plan st \<longleftrightarrow>
     set plan \<subseteq> locations peers \<and> length (ps_peer_count st) = length peers
     \<and> (\<forall>l \<in> locations peers. load st l = count_list plan l)
     \<and> (\<forall>z. ps_zone_count st z = length (filter (\<lambda>l. location_zone peers sz l = z) plan))
     \<and> (\<forall>i < length peers. load st (Some i) \<le> parity)
     \<and> (parity < load st None \<longrightarrow> (\<forall>m. \<not> open_at peers sz parity False st m))
     \<and> ((\<exists>z. parity < ps_zone_count st z) \<longrightarrow> (\<forall>m. \<not> open_at peers sz parity True st m))"

lemma place_one_location:
  assumes "place_one E peers sz parity st = (l, st')" "length (ps_peer_count st) = length peers"
  shows "l \<in> locations peers" "load st' l = Suc (load st l)" "m \<noteq> l \<Longrightarrow> load st' m = load st m"
    "ps_zone_count st' = (ps_zone_count st)(location_zone peers sz l := Suc (ps_zone_count st (location_zone peers sz l)))"
    "length (ps_peer_count st') = length peers"
proof -
  define choice where "choice = (case best_location E peers sz parity True st of
      Some c \<Rightarrow> Some c | None \<Rightarrow> best_location E peers sz parity False st)"
  have open_l: "choice = Some c \<Longrightarrow> c \<in> locations peers" for c
    using best_location_open [of E peers sz parity True st c] best_location_open [of E peers sz parity False st c]
    by (auto simp: choice_def open_at_def split: option.splits)
  note def = assms(1) [unfolded place_one_def Let_def, folded choice_def]
  show "l \<in> locations peers"
    using def open_l by (auto simp: locations_def split: option.splits)
  then have len: "l = Some i \<Longrightarrow> i < length (ps_peer_count st)" for i using assms(2) by (auto simp: locations_def)
  show "m \<noteq> l \<Longrightarrow> load st' m = load st m"
    using def by (auto simp: load_def split: option.splits) (metis nth_list_update_neq)
  show "load st' l = Suc (load st l)"
    "ps_zone_count st' = (ps_zone_count st)(location_zone peers sz l := Suc (ps_zone_count st (location_zone peers sz l)))"
    "length (ps_peer_count st') = length peers"
    using def len assms(2) by (auto simp: load_def location_zone_def split: option.splits)
qed


lemma place_one_choice:
  assumes "place_one E peers sz parity st = (l, st')" "finite_scores E peers parity"
  shows "open_at peers sz parity False st l \<or> l = None \<and> (\<forall>m. \<not> open_at peers sz parity False st m)"
    "open_at peers sz parity True st l \<or> (\<forall>m. \<not> open_at peers sz parity True st m)"
proof -
  have weaken: "open_at peers sz parity True st m \<Longrightarrow> open_at peers sz parity False st m" for m by (simp add: open_at_def)
  have l: "l = (case (case best_location E peers sz parity True st of
      Some c \<Rightarrow> Some c | None \<Rightarrow> best_location E peers sz parity False st) of Some c \<Rightarrow> c | None \<Rightarrow> None)"
    using assms(1) by (auto simp: place_one_def Let_def split: option.splits)
  show "open_at peers sz parity False st l \<or> l = None \<and> (\<forall>m. \<not> open_at peers sz parity False st m)"
    "open_at peers sz parity True st l \<or> (\<forall>m. \<not> open_at peers sz parity True st m)"
  proof -
    consider (honored) "best_location E peers sz parity True st = Some l"
      | (relaxed) "best_location E peers sz parity True st = None" "best_location E peers sz parity False st = Some l"
      | (overflow) "best_location E peers sz parity True st = None" "best_location E peers sz parity False st = None" "l = None"
      using l by (auto split: option.splits)
    note cases = this
    show "open_at peers sz parity False st l \<or> l = None \<and> (\<forall>m. \<not> open_at peers sz parity False st m)"
      by (rule cases) (blast dest: best_location_open weaken best_location_None [OF _ assms(2)])+
    show "open_at peers sz parity True st l \<or> (\<forall>m. \<not> open_at peers sz parity True st m)"
      by (rule cases) (blast dest: best_location_open best_location_None [OF _ assms(2)])+
  qed
qed


lemma closed_stays:
  assumes "place_one E peers sz parity st = (l, st')" "length (ps_peer_count st) = length peers" "open_at peers sz parity honor st' m"
  shows "open_at peers sz parity honor st m"
proof -
  note step = place_one_location [OF assms(1,2)]
  have "load st m \<le> load st' m" using step(2,3) by (cases "m = l") auto
  moreover have "ps_zone_count st z \<le> ps_zone_count st' z" for z by (simp add: step(4))
  ultimately show ?thesis using assms(3) unfolding open_at_def by (meson le_less_trans)
qed

lemma place_one_inv:
  assumes inv: "plan_inv peers sz parity plan st" and fin: "finite_scores E peers parity" and one: "place_one E peers sz parity st = (l, st')"
  shows "plan_inv peers sz parity (plan @ [l]) st'"
proof -
  have len: "length (ps_peer_count st) = length peers" using inv by (simp add: plan_inv_def)
  note step = place_one_location [OF one len] and pick = place_one_choice [OF one fin]
  note stays = closed_stays [OF one len]
  have peer: "load st' (Some i) \<le> parity" if "i < length peers" for i
  proof (cases "l = Some i")
    case True
    then show ?thesis using pick(1) step(2) by (auto simp: open_at_def)
  next
    case False
    then show ?thesis using inv step(3) that by (simp add: plan_inv_def)
  qed
  have own: "\<not> open_at peers sz parity False st' m" if "parity < load st' None" for m
  proof (cases "parity < load st None")
    case True
    then show ?thesis using inv stays unfolding plan_inv_def by blast
  next
    case False
    then have l: "l = None" using that step(3) [of None] by (cases "None = l") auto
    then have "\<not> load st None < parity" using that step(2) False by auto
    then have "\<not> open_at peers sz parity False st None" by (simp add: open_at_def)
    then show ?thesis using pick(1) l stays by blast
  qed
  have zone: "\<not> open_at peers sz parity True st' m" if "parity < ps_zone_count st' z" for z m
  proof (cases "parity < ps_zone_count st z")
    case True
    then show ?thesis using inv stays unfolding plan_inv_def by blast
  next
    case False
    then have z: "z = location_zone peers sz l" "\<not> ps_zone_count st z < parity" using that step(4) by (auto split: if_splits)
    then have "\<not> open_at peers sz parity True st l" by (simp add: open_at_def)
    then show ?thesis using pick(2) stays by blast
  qed
  have loads: "\<forall>m \<in> locations peers. load st' m = count_list (plan @ [l]) m"
  proof
    fix m assume "m \<in> locations peers"
    then have "load st m = count_list plan m" using inv by (simp add: plan_inv_def)
    then show "load st' m = count_list (plan @ [l]) m" using step(2,3) by (cases "m = l") auto
  qed
  have zones: "\<forall>z. ps_zone_count st' z = length (filter (\<lambda>l. location_zone peers sz l = z) (plan @ [l]))"
    using inv by (simp add: plan_inv_def step(4))
  have "set (plan @ [l]) \<subseteq> locations peers" using inv step(1) by (simp add: plan_inv_def)
  then show ?thesis
    unfolding plan_inv_def using step(5) loads zones peer own zone by blast
qed

lemma place_all_inv:
  assumes "plan_inv peers sz parity plan st" "finite_scores E peers parity" "place_all E peers sz parity n st = (ps, st')"
  shows "plan_inv peers sz parity (plan @ ps) st' \<and> length ps = n"
  using assms
proof (induction n arbitrary: plan st ps)
  case (Suc n)
  obtain l st1 where one: "place_one E peers sz parity st = (l, st1)" by fastforce
  obtain qs where all: "place_all E peers sz parity n st1 = (qs, st')" "ps = l # qs"
    using Suc.prems(3) one by (auto split: prod.splits)
  from Suc.IH [OF place_one_inv [OF Suc.prems(1,2) one] Suc.prems(2) all(1)] show ?case by (simp add: all(2))
qed simp

lemma plan_start_inv: "plan_inv peers sz parity [] (plan_start peers)"
  by (auto simp: plan_inv_def plan_start_def load_def locations_def split: option.splits)


section \<open>The caps\<close>

lemma sum_count_locations:
  assumes "set plan \<subseteq> locations peers"
  shows "length plan = count_list plan None + (\<Sum>i < length peers. count_list plan (Some i))"
proof -
  have "length plan = (\<Sum>l \<in> locations peers. count_list plan l)"
    using sum_count_set [OF assms] by (simp add: locations_def)
  also have "\<dots> = count_list plan None + (\<Sum>l \<in> Some ` {..<length peers}. count_list plan l)"
    unfolding locations_def by (subst sum.insert) auto
  also have "(\<Sum>l \<in> Some ` {..<length peers}. count_list plan l) = (\<Sum>i < length peers. count_list plan (Some i))"
    by (subst sum.reindex) (auto simp: inj_on_def)
  finally show ?thesis .
qed

text \<open>C35. The durability caps of a plan: every shard is placed, at this node or at one of the peers; no peer gets
  more than \<open>parity\<close> shards. This node keeps to the same cap when the caps of all locations together suffice, so
  that losing any one location then leaves \<open>total - parity\<close> shards; with fewer peers it takes more, but only once every peer has
  exactly \<open>parity\<close> shards, and no more than what is left. Some failure zone exceeds \<open>parity\<close> only if
  every location is itself full or lies in a zone that is. It holds for all scores, however they are rounded,
  as long as they are below infinity.\<close>

theorem placement_caps:
  assumes fin: "finite_scores E peers parity"
    and plan: "plan = plan_placement_zoned E peers self_zone total_shards parity"
  shows "length plan = total_shards \<and> set plan \<subseteq> locations peers
    \<and> (\<forall>i < length peers. count_list plan (Some i) \<le> parity)
    \<and> (total_shards \<le> (length peers + 1) * parity \<longrightarrow> count_list plan None \<le> parity)
    \<and> (parity < count_list plan None \<longrightarrow>
        (\<forall>i < length peers. count_list plan (Some i) = parity) \<and> count_list plan None = total_shards - length peers * parity)
    \<and> ((\<exists>z. parity < length (filter (\<lambda>l. location_zone peers self_zone l = z) plan)) \<longrightarrow>
        (\<forall>l \<in> locations peers. parity \<le> count_list plan l
           \<or> parity \<le> length (filter (\<lambda>m. location_zone peers self_zone m = location_zone peers self_zone l) plan)))"
proof -
  obtain st where all: "place_all E peers self_zone parity total_shards (plan_start peers) = (plan, st)"
    using plan by (metis plan_placement_zoned_def prod.collapse)
  have inv: "plan_inv peers self_zone parity plan st" and len: "length plan = total_shards"
    using place_all_inv [OF plan_start_inv fin all] by simp_all
  have locs: "set plan \<subseteq> locations peers" and loads: "\<forall>l \<in> locations peers. load st l = count_list plan l"
    and zones: "\<forall>z. ps_zone_count st z = length (filter (\<lambda>l. location_zone peers self_zone l = z) plan)"
    using inv unfolding plan_inv_def by blast+
  have some: "Some i \<in> locations peers" if "i < length peers" for i using that by (simp add: locations_def)
  have peers_le: "\<forall>i < length peers. count_list plan (Some i) \<le> parity"
    using inv loads some unfolding plan_inv_def by metis
  have full: "\<forall>i < length peers. count_list plan (Some i) = parity" if more: "parity < count_list plan None"
  proof -
    have "parity < load st None" using loads more by (simp add: locations_def)
    then have "\<not> open_at peers self_zone parity False st (Some i)" for i using inv unfolding plan_inv_def by blast
    then show ?thesis using loads some peers_le by (auto simp: open_at_def not_less intro: antisym)
  qed
  have rest: "total_shards = count_list plan None + length peers * parity" if "parity < count_list plan None"
    using sum_count_locations [OF locs] full [OF that] len by simp
  have "count_list plan None \<le> parity" if "total_shards \<le> (length peers + 1) * parity"
    using rest that by (cases "parity < count_list plan None") auto
  moreover have "(\<forall>i < length peers. count_list plan (Some i) = parity) \<and> count_list plan None = total_shards - length peers * parity"
    if "parity < count_list plan None" using full [OF that] rest [OF that] by simp
  moreover have "parity \<le> count_list plan l
      \<or> parity \<le> length (filter (\<lambda>m. location_zone peers self_zone m = location_zone peers self_zone l) plan)"
    if "\<exists>z. parity < length (filter (\<lambda>l. location_zone peers self_zone l = z) plan)" "l \<in> locations peers" for l
  proof -
    have "\<not> open_at peers self_zone parity True st l" using inv zones that(1) unfolding plan_inv_def by metis
    then show ?thesis using loads zones that(2) by (auto simp: open_at_def)
  qed
  ultimately show ?thesis using len locs peers_le by blast
qed

text \<open>Fourteen shards, four of them parity, over four peers in three zones.\<close>

definition demo_peers :: "int peer_candidate list" where
  "demo_peers = [\<lparr>pc_rtt_ms = 10, pc_zone = Some ''a'', pc_reliability = 100\<rparr>, \<lparr>pc_rtt_ms = 20, pc_zone = Some ''a'', pc_reliability = 100\<rparr>,
     \<lparr>pc_rtt_ms = 30, pc_zone = Some ''b'', pc_reliability = 100\<rparr>, \<lparr>pc_rtt_ms = 40, pc_zone = None, pc_reliability = 50\<rparr>]"

definition finite_env :: "int env" where
  "finite_env = demo_env\<lparr>f64_div := (\<lambda>a b. if b = 0 then 1000000 else a div b)\<rparr>"

theorem placement_caps_witness:
  "finite_scores finite_env demo_peers 4
   \<and> list_all (\<lambda>i. count_list (plan_placement_zoned finite_env demo_peers None 14 4) (Some i) \<le> 4) [0, 1, 2, 3]
   \<and> count_list (plan_placement_zoned finite_env demo_peers None 14 4) None \<le> 4
   \<and> count_list (plan_placement_zoned finite_env (take 1 demo_peers) None 14 4) (Some 0) = 4
   \<and> count_list (plan_placement_zoned finite_env (take 1 demo_peers) None 14 4) None = 10"
proof -
  have fields: "f64_of_nat finite_env = int" "f64_add finite_env = (+)" "f64_sub finite_env = (-)" "f64_mul finite_env = (*)"
    "f64_div finite_env = (\<lambda>a b. if b = 0 then 1000000 else a div b)" "f64_lt finite_env = (<)" "f64_le finite_env = (\<le>)"
    by (simp_all add: finite_env_def demo_env_def)
  have fin: "finite_scores finite_env demo_peers 4" "finite_scores finite_env (take 1 demo_peers) 4"
    by (simp_all add: finite_scores_def demo_peers_def peer_score_def max_rtt_def concentration_def f64_infinity_def f64_max_def
        f64_clamp_def RELIABILITY_WEIGHT_def fields Let_def)
  have many: "(\<forall>i < 4. count_list (plan_placement_zoned finite_env demo_peers None 14 4) (Some i) \<le> 4)
     \<and> count_list (plan_placement_zoned finite_env demo_peers None 14 4) None \<le> 4"
    using placement_caps [OF fin(1) refl, of None 14] by (simp add: demo_peers_def)
  let ?plan = "plan_placement_zoned finite_env (take 1 demo_peers) None 14 4"
  have one: "length ?plan = 14" "set ?plan \<subseteq> locations (take 1 demo_peers)" "count_list ?plan (Some 0) \<le> 4"
    "4 < count_list ?plan None \<Longrightarrow> count_list ?plan (Some 0) = 4 \<and> count_list ?plan None = 10"
    using placement_caps [OF fin(2) refl, of None 14] by (simp_all add: demo_peers_def)
  have "length ?plan = count_list ?plan None + count_list ?plan (Some 0)"
    using sum_count_locations [OF one(2)] by (simp add: demo_peers_def)
  then have "4 < count_list ?plan None" using one(1,3) by simp
  then show ?thesis using fin(1) many one(4) by simp
qed

end
