(* ===== verification/Retention.thy ===== *)
theory Retention
  imports HostProps Placement
begin

text \<open>
  \<open>server/src/retention.rs\<close>: the sweep that takes back the space of owners who have been away. The state is the
  shard host with the columns this pass reads beside it. Instants are nanoseconds. \<open>listing\<close> is the order in which
  the database lists the rows of the hosted table, and \<open>rs_ok\<close> says which calls it answers.
\<close>

record 'f owner_row =
  ow_last_seen :: "int option"
  ow_reliability_score :: 'f
  ow_threshold_days :: int

datatype retention_call =
  SelectOwners | SelectOwnerRow string | SelectLatest string | SelectRows string | DeleteRow string | GiveBack | LogEvent

record 'f retention_state =
  rs_host :: shard_host
  rs_owners :: "string \<rightharpoonup> 'f owner_row"
  rs_stored_at :: "string \<Rightarrow> int"
  rs_events :: "(string \<times> string \<times> nat \<times> int) list"
  rs_ok :: "retention_call \<Rightarrow> bool"

record retention_days =
  retention_reclaim_days :: int
  retention_evict_days :: int

datatype stage = Present | Reclaim | Evict

text \<open>\<open>num_seconds\<close> truncates towards zero; \<open>as f64\<close> of a signed integer.\<close>

definition num_seconds :: "int \<Rightarrow> int" where
  "num_seconds d = (if 0 \<le> d then d div 10 ^ 9 else - (- d div 10 ^ 9))"

definition f64_of_int :: "'f env \<Rightarrow> int \<Rightarrow> 'f" where
  "f64_of_int E v =
     (if 0 \<le> v then f64_of_nat E (nat v) else f64_sub E (f64_of_nat E 0) (f64_of_nat E (nat (- v))))"

definition owned_rows :: "(shard_host \<Rightarrow> string list) \<Rightarrow> shard_host \<Rightarrow> string \<Rightarrow> (string \<times> hosted_row) list" where
  "owned_rows listing h owner =
     List.map_filter (\<lambda>f. Option.bind (hs_hosted h f)
       (\<lambda>row. if hr_owner_peer_id row = owner then Some (f, row) else None)) (listing h)"

definition fallback_reference :: "(shard_host \<Rightarrow> string list) \<Rightarrow> int \<Rightarrow> 'f retention_state \<Rightarrow> string \<Rightarrow> int" where
  "fallback_reference listing now R owner =
     (if \<not> rs_ok R (SelectLatest owner) then now
      else case map (\<lambda>(f, row). rs_stored_at R f) (owned_rows listing (rs_host R) owner) of
             [] \<Rightarrow> now
           | t # ts \<Rightarrow> fold max ts t)"

definition owner_terms :: "(shard_host \<Rightarrow> string list) \<Rightarrow> 'f env \<Rightarrow> int \<Rightarrow> 'f retention_state \<Rightarrow> string \<Rightarrow> int \<times> 'f \<times> int" where
  "owner_terms listing E now R owner =
     (case (if rs_ok R (SelectOwnerRow owner) then rs_owners R owner else None) of
        Some ow \<Rightarrow>
          (case ow_last_seen ow of Some seen \<Rightarrow> seen | None \<Rightarrow> fallback_reference listing now R owner,
           ow_reliability_score ow, ow_threshold_days ow)
      | None \<Rightarrow> (fallback_reference listing now R owner, f64_of_nat E 0, 0))"

text \<open>The decision for one owner.\<close>

definition owner_stage :: "(shard_host \<Rightarrow> string list) \<Rightarrow> 'f env \<Rightarrow> retention_days \<Rightarrow> int \<Rightarrow> 'f retention_state \<Rightarrow> string \<Rightarrow> stage" where
  "owner_stage listing E inst now R owner =
     (case owner_terms listing E now R owner of (ref, reliability, generosity_days) \<Rightarrow>
        let absent_days = f64_div E (f64_of_int E (num_seconds (now - ref))) (f64_of_nat E 86400);
            half = f64_div E (f64_of_nat E 1) (f64_of_nat E 2);
            factor = f64_clamp E half (f64_div E (f64_of_nat E 3) (f64_of_nat E 2))
                       (f64_add E half (f64_div E reliability (f64_of_nat E 100)));
            generosity = f64_of_int E (max generosity_days 0);
            reclaim_at = f64_add E (f64_mul E (f64_of_int E (retention_reclaim_days inst)) factor) generosity;
            evict_at = f64_add E (f64_mul E (f64_of_int E (retention_evict_days inst)) factor) generosity
        in if f64_le E evict_at absent_days then Evict
           else if f64_le E reclaim_at absent_days then Reclaim
           else Present)"

fun reclaim_each :: "file_path \<Rightarrow> (retention_call \<Rightarrow> bool) \<Rightarrow> (string \<times> int) list \<Rightarrow> shard_host \<times> nat \<times> int \<Rightarrow> shard_host \<times> nat \<times> int" where
  "reclaim_each root up [] st = st"
| "reclaim_each root up ((f, sz) # rows) (h, removed, freed) =
     (let h1 = h\<lparr>hs_disk := snd (store_delete root f (hs_disk h))\<rparr>
      in if up (DeleteRow f) \<and> hs_hosted h1 f \<noteq> None
         then reclaim_each root up rows (h1\<lparr>hs_hosted := (hs_hosted h1)(f := None)\<rparr>, removed + 1, freed + sz)
         else reclaim_each root up rows (h1, removed, freed))"

definition reclaim :: "(shard_host \<Rightarrow> string list) \<Rightarrow> file_path \<Rightarrow> string \<Rightarrow> bool \<Rightarrow> 'f retention_state
    \<Rightarrow> (nat \<times> int) \<times> 'f retention_state" where
  "reclaim listing root owner parity_only R =
     (let rows = (if \<not> rs_ok R (SelectRows owner) then []
                  else map (\<lambda>(f, row). (f, hr_size_bytes row))
                         (filter (\<lambda>(f, row). parity_only \<longrightarrow> hr_shard_index row \<ge> int DATA_SHARDS)
                            (owned_rows listing (rs_host R) owner)));
          (h, removed, freed) = reclaim_each root (rs_ok R) rows (rs_host R, 0, 0);
          h' = (if freed > 0 \<and> rs_ok R GiveBack then h\<lparr>hs_hosted_bytes := max (hs_hosted_bytes h - freed) 0\<rparr> else h)
      in ((removed, freed), R\<lparr>rs_host := h'\<rparr>))"

definition emit :: "string \<Rightarrow> string \<Rightarrow> nat \<times> int \<Rightarrow> 'f retention_state \<Rightarrow> 'f retention_state" where
  "emit kind owner n_freed R =
     (if rs_ok R LogEvent then R\<lparr>rs_events := rs_events R @ [(kind, owner, fst n_freed, snd n_freed)]\<rparr> else R)"

definition sweep_owner :: "(shard_host \<Rightarrow> string list) \<Rightarrow> 'f env \<Rightarrow> retention_days \<Rightarrow> int \<Rightarrow> file_path \<Rightarrow> string
    \<Rightarrow> 'f retention_state \<Rightarrow> 'f retention_state" where
  "sweep_owner listing E inst now root owner R =
     (case owner_stage listing E inst now R owner of
        Evict \<Rightarrow> (case reclaim listing root owner False R of
                    (nf, R') \<Rightarrow> if fst nf > 0 then emit ''owner_evicted'' owner nf R' else R')
      | Reclaim \<Rightarrow> (case reclaim listing root owner True R of
                    (nf, R') \<Rightarrow> if fst nf > 0 then emit ''owner_reclaimed'' owner nf R' else R')
      | Present \<Rightarrow> R)"

definition hosted_owners :: "(shard_host \<Rightarrow> string list) \<Rightarrow> shard_host \<Rightarrow> string list" where
  "hosted_owners listing h =
     remdups (List.map_filter (\<lambda>f. map_option hr_owner_peer_id (hs_hosted h f)) (listing h))"

definition retention_sweep :: "(shard_host \<Rightarrow> string list) \<Rightarrow> 'f env \<Rightarrow> retention_days \<Rightarrow> int \<Rightarrow> file_path
    \<Rightarrow> 'f retention_state \<Rightarrow> 'f retention_state" where
  "retention_sweep listing E inst now root R =
     fold (sweep_owner listing E inst now root)
       (if rs_ok R SelectOwners then hosted_owners listing (rs_host R) else []) R"

section \<open>Taking rows out\<close>

definition lists_table :: "(shard_host \<Rightarrow> string list) \<Rightarrow> bool" where
  "lists_table listing \<longleftrightarrow>
     (\<forall>h. finite (dom (hs_hosted h)) \<longrightarrow> distinct (listing h) \<and> set (listing h) = dom (hs_hosted h))"

lemma set_map_filter: "set (List.map_filter g xs) = {y. \<exists>x \<in> set xs. g x = Some y}"
  by (induction xs) (auto simp: List.map_filter_simps split: option.splits)

lemma map_fst_map_filter:
  assumes "\<And>x y. g x = Some y \<Longrightarrow> fst y = x"
  shows "map fst (List.map_filter g xs) = filter (\<lambda>x. g x \<noteq> None) xs"
  using assms by (induction xs) (auto simp: List.map_filter_simps split: option.splits)

lemma owned_rows_set:
  assumes "lists_table listing" "finite (dom (hs_hosted h))"
  shows "set (owned_rows listing h owner) = {(f, row). hs_hosted h f = Some row \<and> hr_owner_peer_id row = owner}"
  using assms unfolding lists_table_def owned_rows_def set_map_filter
  by (auto simp: bind_eq_Some_conv split: if_splits)

lemma owned_rows_distinct:
  assumes "lists_table listing" "finite (dom (hs_hosted h))"
  shows "distinct (map fst (owned_rows listing h owner))"
  using assms unfolding owned_rows_def
  by (subst map_fst_map_filter) (auto simp: lists_table_def bind_eq_Some_conv split: if_splits)

lemma hosted_owners_set:
  assumes "lists_table listing" "finite (dom (hs_hosted h))"
  shows "set (hosted_owners listing h) = hr_owner_peer_id ` ran (hs_hosted h)"
  using assms unfolding lists_table_def hosted_owners_def set_remdups set_map_filter by (auto simp: ran_def)

definition hosted_sum :: "(string \<rightharpoonup> hosted_row) \<Rightarrow> int" where
  "hosted_sum m = (\<Sum>f \<in> dom m. hr_size_bytes (the (m f)))"

text \<open>When the database answers, the loop removes the rows it is given, and their files where the disk allows
  it, and counts them.\<close>

lemma reclaim_each_exact:
  assumes "reclaim_each root up rows (h, removed, freed) = (h', removed', freed')" "\<And>f. up (DeleteRow f)"
    and "distinct (map fst rows)" "\<And>f sz. (f, sz) \<in> set rows \<Longrightarrow> map_option hr_size_bytes (hs_hosted h f) = Some sz"
    and "finite (dom (hs_hosted h))"
  shows "hs_hosted h' = hs_hosted h |` (- set (map fst rows))
    \<and> freed' - freed = hosted_sum (hs_hosted h) - hosted_sum (hs_hosted h')
    \<and> removed' = removed + length rows
    \<and> (\<forall>f. f \<notin> set (map fst rows) \<longrightarrow> shard_bytes root (hs_disk h') f = shard_bytes root (hs_disk h) f)
    \<and> h' = h\<lparr>hs_hosted := hs_hosted h', hs_disk := hs_disk h'\<rparr>"
  using assms
proof (induction rows arbitrary: h removed freed)
  case (Cons r rows)
  obtain f sz where r: "r = (f, sz)" by force
  let ?h1 = "h\<lparr>hs_disk := snd (store_delete root f (hs_disk h)), hs_hosted := (hs_hosted h)(f := None)\<rparr>"
  have row: "map_option hr_size_bytes (hs_hosted h f) = Some sz" using Cons.prems(4) r by simp
  have step: "reclaim_each root up rows (?h1, removed + 1, freed + sz) = (h', removed', freed')"
    using Cons.prems(1,2) r row by (auto simp: Let_def)
  have rest: "map_option hr_size_bytes (hs_hosted ?h1 g) = Some s" if "(g, s) \<in> set rows" for g s
    using Cons.prems(3,4) r that by (force simp: image_iff)
  have sum: "hosted_sum (hs_hosted ?h1) = hosted_sum (hs_hosted h) - sz"
    using hosted_sum_drop [OF Cons.prems(5)] row unfolding hosted_sum_def by fastforce
  have disk: "shard_bytes root (hs_disk ?h1) g = shard_bytes root (hs_disk h) g" if "g \<noteq> f" for g
    using store_delete_get [of root f "hs_disk h"] that by (cases "store_delete root f (hs_disk h)") auto
  have fin: "finite (dom (hs_hosted ?h1))" and dist: "distinct (map fst rows)"
    using Cons.prems(3,5) by simp_all
  note IH = Cons.IH [OF step Cons.prems(2) dist rest fin]
  then have "h' = ?h1\<lparr>hs_hosted := hs_hosted h', hs_disk := hs_disk h'\<rparr>" by blast
  then have "h' = h\<lparr>hs_hosted := hs_hosted h', hs_disk := hs_disk h'\<rparr>" by simp
  moreover have "hs_hosted h' = hs_hosted h |` (- set (map fst (r # rows)))"
    using IH r by (auto simp: restrict_map_def fun_eq_iff)
  moreover have "\<forall>g. g \<notin> set (map fst (r # rows)) \<longrightarrow> shard_bytes root (hs_disk h') g = shard_bytes root (hs_disk h) g"
    using IH disk r by simp
  moreover have "freed' - freed = hosted_sum (hs_hosted h) - hosted_sum (hs_hosted h')"
  proof -
    have "freed' - (freed + sz) = hosted_sum (hs_hosted ?h1) - hosted_sum (hs_hosted h')" using IH by blast
    then show ?thesis using sum by linarith
  qed
  moreover have "removed' = removed + length (r # rows)" using IH by simp
  ultimately show ?case by blast
qed (simp add: restrict_map_def)

section \<open>One owner\<close>

text \<open>The calls that remove rows and give their bytes back; the reads that decide may still fail.\<close>

definition answers :: "'f retention_state \<Rightarrow> bool" where
  "answers R \<longleftrightarrow>
     rs_ok R SelectOwners \<and> rs_ok R GiveBack \<and> (\<forall>x. rs_ok R (SelectRows x) \<and> rs_ok R (DeleteRow x))"

text \<open>Which rows of an owner go at which stage.\<close>

definition goes :: "stage \<Rightarrow> hosted_row \<Rightarrow> bool" where
  "goes s row \<longleftrightarrow> (case s of Present \<Rightarrow> False | Reclaim \<Rightarrow> hr_shard_index row \<ge> int DATA_SHARDS | Evict \<Rightarrow> True)"

definition kept_rows :: "(hosted_row \<Rightarrow> bool) \<Rightarrow> (string \<rightharpoonup> hosted_row) \<Rightarrow> string \<rightharpoonup> hosted_row" where
  "kept_rows P m f = (case m f of Some row \<Rightarrow> if P row then None else Some row | None \<Rightarrow> None)"

definition took :: "file_path \<Rightarrow> (hosted_row \<Rightarrow> bool) \<Rightarrow> 'f retention_state \<Rightarrow> 'f retention_state \<Rightarrow> bool" where
  "took root P R R' \<longleftrightarrow>
     hs_hosted (rs_host R') = kept_rows P (hs_hosted (rs_host R))
     \<and> hosting_ok (rs_host R') \<and> rs_owners R' = rs_owners R \<and> rs_stored_at R' = rs_stored_at R \<and> rs_ok R' = rs_ok R
     \<and> (\<forall>f. hs_hosted (rs_host R') f = hs_hosted (rs_host R) f \<longrightarrow>
          shard_bytes root (hs_disk (rs_host R')) f = shard_bytes root (hs_disk (rs_host R)) f)"

lemma took_refl: "hosting_ok (rs_host R) \<Longrightarrow> (\<And>row. row \<in> ran (hs_hosted (rs_host R)) \<Longrightarrow> \<not> P row) \<Longrightarrow> took root P R R"
  by (auto simp: took_def kept_rows_def fun_eq_iff ran_def split: option.splits)

lemma took_trans:
  assumes "took root P R R1" "took root Q R1 R2"
  shows "took root (\<lambda>row. P row \<or> Q row) R R2"
proof -
  have h: "hs_hosted (rs_host R2) = kept_rows (\<lambda>row. P row \<or> Q row) (hs_hosted (rs_host R))"
    using assms by (auto simp: took_def kept_rows_def fun_eq_iff split: option.splits)
  have "shard_bytes root (hs_disk (rs_host R2)) f = shard_bytes root (hs_disk (rs_host R)) f"
    if "hs_hosted (rs_host R2) f = hs_hosted (rs_host R) f" for f
  proof -
    have "hs_hosted (rs_host R1) f = hs_hosted (rs_host R) f" "hs_hosted (rs_host R2) f = hs_hosted (rs_host R1) f"
      using that assms h by (auto simp: took_def kept_rows_def split: option.splits if_splits)
    then show ?thesis using assms by (simp add: took_def)
  qed
  then show ?thesis using assms h by (simp add: took_def)
qed

lemma hosted_sum_nonneg: "\<forall>row \<in> ran m. 0 \<le> hr_size_bytes row \<Longrightarrow> 0 \<le> hosted_sum m"
  unfolding hosted_sum_def by (intro sum_nonneg) (auto simp: ran_def)

lemma hosted_sum_kept:
  assumes "finite (dom m)" "\<forall>row \<in> ran m. 0 \<le> hr_size_bytes row"
  shows "hosted_sum (kept_rows P m) \<le> hosted_sum m"
proof -
  have "hosted_sum (kept_rows P m) = (\<Sum>f \<in> dom (kept_rows P m). hr_size_bytes (the (m f)))"
    unfolding hosted_sum_def by (rule sum.cong) (auto simp: kept_rows_def split: option.splits if_splits)
  also have "\<dots> \<le> hosted_sum m"
    unfolding hosted_sum_def using assms
    by (intro sum_mono2) (auto simp: kept_rows_def ran_def split: option.splits if_splits)
  finally show ?thesis .
qed

lemma hosting_ok_sum:
  "hosting_ok h \<longleftrightarrow> (\<forall>c. hs_up h c) \<and> finite (dom (hs_hosted h)) \<and> (\<forall>row \<in> ran (hs_hosted h). 0 \<le> hr_size_bytes row)
     \<and> hs_hosted_bytes h = hosted_sum (hs_hosted h) \<and> hs_hosted_bytes h \<le> hs_contributed_bytes h"
  by (simp add: hosting_ok_def hosted_sum_def)

lemma reclaim_took:
  assumes "lists_table listing" "hosting_ok (rs_host R)" "answers R" "reclaim listing root owner par R = (nf, R')"
  shows "took root (\<lambda>row. hr_owner_peer_id row = owner \<and> goes (if par then Reclaim else Evict) row) R R'"
proof -
  let ?P = "\<lambda>row. hr_owner_peer_id row = owner \<and> goes (if par then Reclaim else Evict) row"
  let ?h = "rs_host R"
  let ?sel = "filter (\<lambda>(f, row). par \<longrightarrow> hr_shard_index row \<ge> int DATA_SHARDS) (owned_rows listing ?h owner)"
  let ?rows = "map (\<lambda>(f, row). (f, hr_size_bytes row)) ?sel"
  have fin: "finite (dom (hs_hosted ?h))" using assms(2) by (simp add: hosting_ok_def)
  have sel: "set ?sel = {(f, row). hs_hosted ?h f = Some row \<and> ?P row}"
    using owned_rows_set [OF assms(1) fin] by (auto simp: goes_def)
  have "distinct (map fst ?sel)"
    using owned_rows_distinct [OF assms(1) fin] by (rule distinct_map_filter)
  moreover have "map fst ?rows = map fst ?sel" by (simp add: case_prod_unfold)
  ultimately have d: "distinct (map fst ?rows)" by metis
  have sz: "map_option hr_size_bytes (hs_hosted ?h f) = Some s" if "(f, s) \<in> set ?rows" for f s
    using that sel by auto
  obtain h' n freed where loop: "reclaim_each root (rs_ok R) ?rows (?h, 0, 0) = (h', n, freed)"
    by (metis prod_cases3)
  have up: "rs_ok R (DeleteRow f)" for f using assms(3) by (simp add: answers_def)
  note ex = reclaim_each_exact [OF loop up d sz fin]
  have keys: "set (map fst ?rows) = {f. \<exists>row. hs_hosted ?h f = Some row \<and> ?P row}"
    unfolding \<open>map fst ?rows = map fst ?sel\<close> using sel by force
  have host: "hs_hosted h' = kept_rows ?P (hs_hosted ?h)"
    using ex unfolding keys by (auto simp: restrict_map_def kept_rows_def fun_eq_iff split: option.splits)
  have pos: "\<forall>row \<in> ran (hs_hosted h'). 0 \<le> hr_size_bytes row"
    using assms(2) unfolding host by (auto simp: hosting_ok_def kept_rows_def ran_def split: option.splits if_splits)
  have fin': "finite (dom (hs_hosted h'))"
    using fin unfolding host by (rule finite_subset [rotated]) (auto simp: kept_rows_def split: option.splits)
  have R': "R' = R\<lparr>rs_host := (if freed > 0 then h'\<lparr>hs_hosted_bytes := max (hs_hosted_bytes h' - freed) 0\<rparr> else h')\<rparr>"
    using assms(3,4) loop by (auto simp: reclaim_def Let_def answers_def)
  have other: "hs_up h' = hs_up ?h" "hs_hosted_bytes h' = hs_hosted_bytes ?h" "hs_contributed_bytes h' = hs_contributed_bytes ?h"
  proof -
    have h': "h' = ?h\<lparr>hs_hosted := hs_hosted h', hs_disk := hs_disk h'\<rparr>" using ex by blast
    from arg_cong [OF h', of hs_up] arg_cong [OF h', of hs_hosted_bytes] arg_cong [OF h', of hs_contributed_bytes]
    show "hs_up h' = hs_up ?h" "hs_hosted_bytes h' = hs_hosted_bytes ?h" "hs_contributed_bytes h' = hs_contributed_bytes ?h"
      by simp_all
  qed
  have fr: "freed = hosted_sum (hs_hosted ?h) - hosted_sum (hs_hosted h')" using ex by linarith
  have ok: "hosting_ok (rs_host R')"
    unfolding R' using assms(2) fin' pos hosted_sum_nonneg [OF pos] other fr hosted_sum_kept [OF fin, of ?P] host
    by (auto simp: hosting_ok_sum)
  have "shard_bytes root (hs_disk h') f = shard_bytes root (hs_disk ?h) f" if "hs_hosted h' f = hs_hosted ?h f" for f
  proof -
    have "f \<notin> set (map fst ?rows)"
      unfolding keys using that host by (auto simp: kept_rows_def)
    then show ?thesis using ex by blast
  qed
  then show ?thesis using ok host unfolding took_def R' by auto
qed

lemma emit_took: "took root P R R' \<Longrightarrow> took root P R (emit k owner nf R')"
  by (simp add: took_def emit_def)

lemma sweep_owner_took:
  assumes "lists_table listing" "hosting_ok (rs_host R)" "answers R"
  shows "took root (\<lambda>row. hr_owner_peer_id row = owner \<and> goes (owner_stage listing E inst now R owner) row)
    R (sweep_owner listing E inst now root owner R)"
proof (cases "owner_stage listing E inst now R owner")
  case Present
  then show ?thesis using assms(2) by (simp add: sweep_owner_def goes_def took_refl)
next
  case Reclaim
  obtain nf R' where r: "reclaim listing root owner True R = (nf, R')" by fastforce
  from reclaim_took [OF assms r] show ?thesis using Reclaim r by (simp add: sweep_owner_def emit_took)
next
  case Evict
  obtain nf R' where r: "reclaim listing root owner False R = (nf, R')" by fastforce
  from reclaim_took [OF assms r] show ?thesis using Evict r by (simp add: sweep_owner_def emit_took)
qed

section \<open>The whole sweep\<close>

lemma fold_max: "fold max ts (t :: int) = Max (set (t # ts))"
  by (rule Max.set_eq_fold [symmetric])

lemma latest_cong:
  assumes "set a = set b"
  shows "(case a of [] \<Rightarrow> now | t # ts \<Rightarrow> fold max ts t) = (case b of [] \<Rightarrow> now | t # ts \<Rightarrow> fold max ts (t :: int))"
proof (cases a)
  case Nil
  then show ?thesis using assms by simp
next
  case (Cons x xs)
  then obtain y ys where "b = y # ys" using assms by (cases b) auto
  then show ?thesis using assms Cons by (simp only: list.case fold_max)
qed

text \<open>The decision for an owner depends on its own rows only.\<close>

lemma owner_stage_cong:
  assumes "lists_table listing" "finite (dom (hs_hosted (rs_host R)))" "finite (dom (hs_hosted (rs_host R')))"
    and "rs_owners R' = rs_owners R" "rs_stored_at R' = rs_stored_at R" "rs_ok R' = rs_ok R"
    and "\<And>f row. hr_owner_peer_id row = owner \<Longrightarrow> hs_hosted (rs_host R') f = Some row \<longleftrightarrow> hs_hosted (rs_host R) f = Some row"
  shows "owner_stage listing E inst now R' owner = owner_stage listing E inst now R owner"
proof -
  have "set (owned_rows listing (rs_host R') owner) = set (owned_rows listing (rs_host R) owner)"
    using assms(7) owned_rows_set [OF assms(1,2)] owned_rows_set [OF assms(1,3)] by auto
  then have "set (map (\<lambda>(f, row). rs_stored_at R f) (owned_rows listing (rs_host R') owner))
      = set (map (\<lambda>(f, row). rs_stored_at R f) (owned_rows listing (rs_host R) owner))" by simp
  from latest_cong [OF this, of now]
  have f: "fallback_reference listing now R' owner = fallback_reference listing now R owner"
    using assms(5,6) by (simp add: fallback_reference_def)
  show ?thesis unfolding owner_stage_def owner_terms_def f assms(4,6) ..
qed

lemma sweep_fold_took:
  assumes "lists_table listing" "hosting_ok (rs_host R)" "answers R" "distinct owners"
  shows "took root (\<lambda>row. hr_owner_peer_id row \<in> set owners \<and> goes (owner_stage listing E inst now R (hr_owner_peer_id row)) row)
    R (fold (sweep_owner listing E inst now root) owners R)"
  using assms(4,2,3)
proof (induction owners arbitrary: R)
  case Nil
  then show ?case by (simp add: took_refl)
next
  case (Cons owner owners)
  let ?R1 = "sweep_owner listing E inst now root owner R"
  note one = sweep_owner_took [OF assms(1) Cons.prems(2,3), of root owner E inst now]
  have ok1: "hosting_ok (rs_host ?R1)" "answers ?R1" using one Cons.prems(3) by (simp_all add: took_def answers_def)
  have same: "owner_stage listing E inst now ?R1 other = owner_stage listing E inst now R other" if "other \<noteq> owner" for other
    using one that Cons.prems(2) ok1
    by (intro owner_stage_cong [OF assms(1)])
      (auto simp: took_def kept_rows_def hosting_ok_def split: option.splits if_splits)
  let ?Q = "\<lambda>row. hr_owner_peer_id row \<in> set owners \<and> goes (owner_stage listing E inst now ?R1 (hr_owner_peer_id row)) row"
  have Q: "?Q = (\<lambda>row. hr_owner_peer_id row \<in> set owners \<and> goes (owner_stage listing E inst now R (hr_owner_peer_id row)) row)"
    using Cons.prems(1) by (intro ext conj_cong refl arg_cong2 [where f = goes] same) auto
  have "distinct owners" using Cons.prems(1) by simp
  note two = took_trans [OF one Cons.IH [OF this ok1, unfolded Q]]
  have "(\<lambda>row. (hr_owner_peer_id row = owner \<and> goes (owner_stage listing E inst now R owner) row)
        \<or> (hr_owner_peer_id row \<in> set owners \<and> goes (owner_stage listing E inst now R (hr_owner_peer_id row)) row))
      = (\<lambda>row. hr_owner_peer_id row \<in> set (owner # owners) \<and> goes (owner_stage listing E inst now R (hr_owner_peer_id row)) row)"
    by (auto simp: fun_eq_iff)
  then show ?case using two by simp
qed

lemma sweep_took:
  assumes "lists_table listing" "hosting_ok (rs_host R)" "answers R"
  shows "took root (\<lambda>row. goes (owner_stage listing E inst now R (hr_owner_peer_id row)) row) R (retention_sweep listing E inst now root R)"
proof -
  have fin: "finite (dom (hs_hosted (rs_host R)))" using assms(2) by (simp add: hosting_ok_def)
  have "distinct (hosted_owners listing (rs_host R))" by (simp add: hosted_owners_def)
  from sweep_fold_took [OF assms this, of root E inst now] assms(3)
  have "took root (\<lambda>row. hr_owner_peer_id row \<in> hr_owner_peer_id ` ran (hs_hosted (rs_host R))
      \<and> goes (owner_stage listing E inst now R (hr_owner_peer_id row)) row) R (retention_sweep listing E inst now root R)"
    by (simp add: retention_sweep_def answers_def hosted_owners_set [OF assms(1) fin])
  then show ?thesis by (auto simp: took_def kept_rows_def ran_def fun_eq_iff split: option.splits)
qed

text \<open>C36. While the database answers the calls that remove rows, a retention sweep removes exactly the following from the hosted table: every
  row of an owner whose absence has reached the eviction threshold, and of an owner whose absence has reached only the
  reclaim threshold the rows with a parity index (never a row whose index is unknown). Every other row stays, and the
  shard stored under it is untouched; the bytes given back keep the host's account equal to the sum of its rows.\<close>

theorem retention_sweep_rows:
  assumes "lists_table listing" "hosting_ok (rs_host R)" "answers R"
  shows "hs_hosted (rs_host (retention_sweep listing E inst now root R)) =
      (\<lambda>f. case hs_hosted (rs_host R) f of
             None \<Rightarrow> None
           | Some row \<Rightarrow>
               (case owner_stage listing E inst now R (hr_owner_peer_id row) of
                  Evict \<Rightarrow> None
                | Reclaim \<Rightarrow> if hr_shard_index row \<ge> int DATA_SHARDS then None else Some row
                | Present \<Rightarrow> Some row))
    \<and> (\<forall>f. hs_hosted (rs_host (retention_sweep listing E inst now root R)) f = hs_hosted (rs_host R) f \<longrightarrow>
         shard_bytes root (hs_disk (rs_host (retention_sweep listing E inst now root R))) f = shard_bytes root (hs_disk (rs_host R)) f)
    \<and> hosting_ok (rs_host (retention_sweep listing E inst now root R))"
  using sweep_took [OF assms, of root E inst now]
  by (auto simp: took_def kept_rows_def goes_def fun_eq_iff split: option.splits stage.splits)

section \<open>A host with an absent owner\<close>

text \<open>The external functions of the witnesses with fixed-point numbers of three decimals for \<open>f64\<close>.\<close>

definition milli_env :: "int env" where
  "milli_env = demo_env
     \<lparr>f64_of_nat := (\<lambda>n. 1000 * int n), f64_mul := (\<lambda>a b. a * b div 1000), f64_div := (\<lambda>a b. a * 1000 div b)\<rparr>"

definition a_day :: int where "a_day = 86400 * 10 ^ 9"

definition shard_a :: string where "shard_a = replicate 32 (CHR ''a'')"
definition shard_b :: string where "shard_b = replicate 32 (CHR ''b'')"

definition demo_hosting :: shard_host where
  "demo_hosting =
     \<lparr>hs_peers = [''ann'' \<mapsto> None],
      hs_hosted = [shard_a \<mapsto> \<lparr>hr_owner_peer_id = ''ann'', hr_size_bytes = 4096, hr_shard_index = 3\<rparr>,
                   shard_b \<mapsto> \<lparr>hr_owner_peer_id = ''ann'', hr_size_bytes = 4096, hr_shard_index = 12\<rparr>],
      hs_contributed_bytes = 10000, hs_hosted_bytes = 8192, hs_disk = healthy_disk, hs_up = (\<lambda>_. True)\<rparr>"

definition demo_retention :: "int option \<Rightarrow> (retention_call \<Rightarrow> bool) \<Rightarrow> int retention_state" where
  "demo_retention seen up =
     \<lparr>rs_host = demo_hosting,
      rs_owners = [''ann'' \<mapsto> \<lparr>ow_last_seen = seen, ow_reliability_score = 50000, ow_threshold_days = 0\<rparr>],
      rs_stored_at = (\<lambda>_. 0), rs_events = [], rs_ok = up\<rparr>"

definition default_days :: retention_days where
  "default_days = \<lparr>retention_reclaim_days = 45, retention_evict_days = 180\<rparr>"

definition key_order :: "shard_host \<Rightarrow> string list" where
  "key_order h = sorted_list_of_set (dom (hs_hosted h))"

lemma key_order_lists: "lists_table key_order"
  by (simp add: lists_table_def key_order_def)

lemma demo_hosting_ok: "hosting_ok demo_hosting"
proof -
  have "shard_a \<noteq> shard_b" by (simp add: shard_a_def shard_b_def)
  then have "hosted_sum (hs_hosted demo_hosting) = 8192" "finite (dom (hs_hosted demo_hosting))"
    by (simp_all add: hosted_sum_def demo_hosting_def insert_commute)
  then show ?thesis
    by (auto simp: hosting_ok_sum demo_hosting_def ran_def split: if_splits)
qed

lemma milli_stage:
  assumes "owner_terms listing milli_env now R owner = (ref, rel, days)"
  shows "owner_stage listing milli_env default_days now R owner =
    (let absent = (if 0 \<le> num_seconds (now - ref) then 1000 * num_seconds (now - ref) else 1000 * num_seconds (now - ref)) * 1000 div 86400000;
         factor = (let x = 500 + rel * 1000 div 100000 in if x < 500 then 500 else if 1500 < x then 1500 else x);
         gen = 1000 * max days 0
     in if 180000 * factor div 1000 + gen \<le> absent then Evict
        else if 45000 * factor div 1000 + gen \<le> absent then Reclaim else Present)"
  using assms
  by (simp add: owner_stage_def milli_env_def demo_env_def default_days_def f64_of_int_def f64_clamp_def Let_def)

text \<open>Sixty days away, with average reliability: parity goes, data stays.\<close>

theorem retention_sweep_rows_witness:
  "(let R' = retention_sweep key_order milli_env default_days (60 * a_day) [''data''] (demo_retention (Some 0) (\<lambda>_. True))
    in hs_hosted (rs_host R') shard_a = hs_hosted demo_hosting shard_a \<and> hs_hosted (rs_host R') shard_b = None)
   \<and> lists_table key_order \<and> hosting_ok demo_hosting"
proof -
  let ?R = "demo_retention (Some 0) (\<lambda>_. True)"
  have ok: "hosting_ok (rs_host ?R)" "answers ?R"
    using demo_hosting_ok by (simp_all add: demo_retention_def answers_def)
  have "owner_terms key_order milli_env (60 * a_day) ?R ''ann'' = (0, 50000, 0)"
    by (simp add: owner_terms_def demo_retention_def)
  from milli_stage [OF this] have st: "owner_stage key_order milli_env default_days (60 * a_day) ?R ''ann'' = Reclaim"
    by (simp add: num_seconds_def a_day_def)
  have ne: "shard_a \<noteq> shard_b" by (simp add: shard_a_def shard_b_def)
  have h: "hs_hosted (rs_host ?R) = hs_hosted demo_hosting" by (simp add: demo_retention_def)
  from retention_sweep_rows [OF key_order_lists ok, of milli_env default_days "60 * a_day" "[''data'']"]
  have "hs_hosted (rs_host (retention_sweep key_order milli_env default_days (60 * a_day) [''data''] ?R)) f =
      (case hs_hosted demo_hosting f of
             None \<Rightarrow> None
           | Some row \<Rightarrow>
               (case owner_stage key_order milli_env default_days (60 * a_day) ?R (hr_owner_peer_id row) of
                  Evict \<Rightarrow> None
                | Reclaim \<Rightarrow> if hr_shard_index row \<ge> int DATA_SHARDS then None else Some row
                | Present \<Rightarrow> Some row))" for f
    unfolding h by simp
  then show ?thesis using st ne key_order_lists demo_hosting_ok by (simp add: demo_hosting_def DATA_SHARDS_def)
qed

text \<open>The sweep takes a failed read of the peer table for an owner it does not know. An owner whose
  shards were stored 100 days ago and who is online at this moment keeps everything when the read
  succeeds, and loses everything, data shards included, when this one read fails.\<close>

theorem retention_fault_evicts:
  "(let seen_now = demo_retention (Some (100 * a_day))
    in hs_hosted (rs_host (retention_sweep key_order milli_env default_days (100 * a_day) [''data''] (seen_now (\<lambda>_. True))))
         = hs_hosted demo_hosting
       \<and> hs_hosted (rs_host (retention_sweep key_order milli_env default_days (100 * a_day) [''data'']
             (seen_now (\<lambda>c. c \<noteq> SelectOwnerRow ''ann'')))) = Map.empty)"
proof -
  let ?R = "\<lambda>up. demo_retention (Some (100 * a_day)) up"
  let ?down = "\<lambda>c. c \<noteq> SelectOwnerRow ''ann''"
  let ?sweep = "\<lambda>R. hs_hosted (rs_host (retention_sweep key_order milli_env default_days (100 * a_day) [''data''] R))"
  have ok: "hosting_ok (rs_host (?R up))" "hs_hosted (rs_host (?R up)) = hs_hosted demo_hosting" for up
    using demo_hosting_ok by (simp_all add: demo_retention_def)
  have a: "answers (?R (\<lambda>_. True))" "answers (?R ?down)" by (simp_all add: demo_retention_def answers_def)
  have rows: "?sweep (?R up) = kept_rows (\<lambda>row. goes (owner_stage key_order milli_env default_days (100 * a_day) (?R up) (hr_owner_peer_id row)) row)
      (hs_hosted demo_hosting)" if "answers (?R up)" for up
    using sweep_took [OF key_order_lists ok(1) that] by (simp add: took_def ok(2))
  have ann: "hr_owner_peer_id row = ''ann''" if "hs_hosted demo_hosting f = Some row" for f row
    using that by (auto simp: demo_hosting_def split: if_splits)
  have "owner_terms key_order milli_env (100 * a_day) (?R (\<lambda>_. True)) ''ann'' = (100 * a_day, 50000, 0)"
    by (simp add: owner_terms_def demo_retention_def)
  from milli_stage [OF this] have st1: "owner_stage key_order milli_env default_days (100 * a_day) (?R (\<lambda>_. True)) ''ann'' = Present"
    by (simp add: num_seconds_def)
  have "set (owned_rows key_order demo_hosting ''ann'') = {(f, row). hs_hosted demo_hosting f = Some row \<and> hr_owner_peer_id row = ''ann''}"
    using owned_rows_set [OF key_order_lists] demo_hosting_ok by (simp add: hosting_ok_def)
  then have "owned_rows key_order demo_hosting ''ann'' \<noteq> []"
    by (auto simp: demo_hosting_def split: if_splits)
  then obtain x xs where ne: "owned_rows key_order demo_hosting ''ann'' = x # xs" by (cases "owned_rows key_order demo_hosting ''ann''") auto
  have z: "fold max (map (\<lambda>_. 0) xs) (0 :: int) = 0" for xs :: "(string \<times> hosted_row) list"
    by (induction xs) simp_all
  have "fallback_reference key_order (100 * a_day) (?R ?down) ''ann'' = 0"
    by (simp add: fallback_reference_def demo_retention_def case_prod_unfold ne z)
  then have "owner_terms key_order milli_env (100 * a_day) (?R ?down) ''ann'' = (0, 0, 0)"
    by (simp add: owner_terms_def demo_retention_def milli_env_def)
  from milli_stage [OF this] have st2: "owner_stage key_order milli_env default_days (100 * a_day) (?R ?down) ''ann'' = Evict"
    by (simp add: num_seconds_def a_day_def)
  have "?sweep (?R (\<lambda>_. True)) = hs_hosted demo_hosting"
    unfolding rows [OF a(1)] using st1 ann by (auto simp: kept_rows_def goes_def fun_eq_iff split: option.splits)
  moreover have "?sweep (?R ?down) = Map.empty"
    unfolding rows [OF a(2)] using st2 ann by (auto simp: kept_rows_def goes_def fun_eq_iff split: option.splits)
  ultimately show ?thesis by simp
qed

end
