(* ===== verification/Quotas.thy ===== *)
theory Quotas
  imports Manifest "HOL-Library.AList"
begin

text \<open>
  \<open>server/src/quotas.rs\<close>, the two allocation handlers of \<open>server/src/handlers/admin.rs\<close> and
  \<open>server/src/handlers/quota.rs\<close>: how storage is allocated to users.

  The state is the row of this node and the table of quotas. The columns and the arithmetic of the code are
  \<open>i64\<close>: the release profile does not check overflow, so sums wrap, and a sum the database cannot represent is
  an error of the call. \<open>qd_up\<close> says which calls the database answers. A handler that reads, decides and writes in
  separate statements is also given in its halves. The texts of the refusals are shortened.
\<close>

section \<open>Signed 64-bit integers\<close>

definition i64 :: "int \<Rightarrow> int" where
  "i64 v = sint (word_of_int v :: u64)"

definition is_i64 :: "int \<Rightarrow> bool" where
  "is_i64 v \<longleftrightarrow> - (2 ^ 63) \<le> v \<and> v < 2 ^ 63"

lemma i64_id [simp]: "is_i64 v \<Longrightarrow> i64 v = v"
proof -
  assume "is_i64 v"
  then have "- (2 ^ 63) \<le> v" "v < 2 ^ 63" by (simp_all add: is_i64_def)
  then show "i64 v = v"
    by (simp add: i64_def signed_of_int signed_take_bit_int_eq_self)
qed

section \<open>The tables\<close>

datatype quota_call =
    ReadRow | SelectContributed | SelectAllocated | Begin | LockNode | Reread | SelectSum | InsertRow | InsertEvent
  | Commit | SelectOthers | UpsertQuota | SelectUsed | UpdateContribution

text \<open>The errors of the handlers, and the status they are answered with.\<close>

datatype api_error = Unauthorized | Forbidden | NoSuchEntry | BadRequest string | Db | Store store_error

fun into_response :: "api_error \<Rightarrow> nat \<times> string" where
  "into_response Unauthorized = (401, ''unauthorized'')"
| "into_response Forbidden = (403, ''forbidden'')"
| "into_response NoSuchEntry = (404, ''not found'')"
| "into_response (BadRequest m) = (400, m)"
| "into_response Db = (500, ''internal error'')"
| "into_response (Store NotFound) = (404, ''not found'')"
| "into_response (Store _) = (500, ''internal error'')"

record quota_row =
  uq_quota_bytes :: int
  uq_used_bytes :: int

record quota_db =
  qd_contributed_bytes :: int
  qd_used_bytes :: int
  qd_users :: "(string \<times> quota_row) list"
  qd_events :: "(string \<times> int) list"
  qd_up :: "quota_call \<Rightarrow> bool"

type_synonym 'a quota_op = "(quota_db, 'a, api_error) op"

definition ask :: "quota_call \<Rightarrow> (quota_db \<Rightarrow> 'a) \<Rightarrow> 'a quota_op" where
  "ask c q D = (if qd_up D c then (Ok (q D), D) else (Err Db, D))"

definition tell :: "quota_call \<Rightarrow> (quota_db \<Rightarrow> quota_db) \<Rightarrow> unit quota_op" where
  "tell c u D = (if qd_up D c then (Ok (), u D) else (Err Db, D))"

text \<open>\<open>SUM\<close> of a column, as a \<open>BIGINT\<close>.\<close>

definition sum_bigint :: "quota_call \<Rightarrow> ((string \<times> quota_row) \<Rightarrow> bool) \<Rightarrow> int quota_op" where
  "sum_bigint c P D =
     (let s = sum_list (map (\<lambda>(u, r). uq_quota_bytes r) (filter P (qd_users D)))
      in if qd_up D c \<and> is_i64 s then (Ok s, D) else (Err Db, D))"

definition upsert_quota :: "string \<Rightarrow> int \<Rightarrow> quota_db \<Rightarrow> quota_db" where
  "upsert_quota user q D =
     D\<lparr>qd_users := AList.update user
         (case map_of (qd_users D) user of
            Some r \<Rightarrow> r\<lparr>uq_quota_bytes := q\<rparr>
          | None \<Rightarrow> \<lparr>uq_quota_bytes = q, uq_used_bytes = 0\<rparr>) (qd_users D)\<rparr>"

text \<open>\<open>INSERT ... ON CONFLICT DO NOTHING\<close>.\<close>

definition insert_quota :: "string \<Rightarrow> int \<Rightarrow> quota_db \<Rightarrow> quota_db" where
  "insert_quota user q D =
     (if map_of (qd_users D) user = None
      then D\<lparr>qd_users := (user, \<lparr>uq_quota_bytes = q, uq_used_bytes = 0\<rparr>) # qd_users D\<rparr>
      else D)"

section \<open>Resolving a quota\<close>

definition read_row :: "string \<Rightarrow> (int \<times> int) option quota_op" where
  "read_row user =
     ask ReadRow (\<lambda>D. map_option (\<lambda>r. (uq_quota_bytes r, uq_used_bytes r)) (map_of (qd_users D) user))"

definition unallocated :: "int quota_op" where
  "unallocated =
     sbind (ask SelectContributed qd_contributed_bytes) (\<lambda>contributed.
     sbind (sum_bigint SelectAllocated (\<lambda>_. True)) (\<lambda>allocated.
     sreturn (max (i64 (contributed - allocated)) 0)))"

definition effective :: "int \<Rightarrow> string \<Rightarrow> (int \<times> int \<times> bool) quota_op" where
  "effective default_quota user =
     sbind (read_row user) (\<lambda>row.
       case row of
         Some (quota, used) \<Rightarrow> sreturn (quota, used, False)
       | None \<Rightarrow>
           if default_quota \<le> 0 then sreturn (0, 0, False)
           else sbind unallocated (\<lambda>left. sreturn (min default_quota left, 0, True)))"

text \<open>A transaction that is not committed leaves the tables as they were.\<close>

definition quota_tx :: "'a quota_op \<Rightarrow> 'a quota_op" where
  "quota_tx m D = (case m D of (Ok x, D') \<Rightarrow> (Ok x, D') | (r, _) \<Rightarrow> (r, D))"

definition grant :: "int \<Rightarrow> string \<Rightarrow> (int \<times> int) quota_op" where
  "grant default_quota user =
     sbind (ask LockNode qd_contributed_bytes) (\<lambda>contributed.
     sbind (ask Reread (\<lambda>D. map_option (\<lambda>r. (uq_quota_bytes r, uq_used_bytes r)) (map_of (qd_users D) user))) (\<lambda>existing.
       case existing of
         Some row \<Rightarrow> sbind (ask Commit (\<lambda>_. ())) (\<lambda>_. sreturn row)
       | None \<Rightarrow>
           sbind (sum_bigint SelectSum (\<lambda>_. True)) (\<lambda>allocated.
             let granted = min default_quota (max (i64 (contributed - allocated)) 0)
             in if granted \<le> 0 then sbind (ask Commit (\<lambda>_. ())) (\<lambda>_. sreturn (0, 0))
                else
                  sbind (tell InsertRow (insert_quota user granted)) (\<lambda>_.
                  sbind (\<lambda>D. (Ok (), if qd_up D InsertEvent then D\<lparr>qd_events := qd_events D @ [(user, granted)]\<rparr> else D)) (\<lambda>_.
                  sbind (ask Commit (\<lambda>_. ())) (\<lambda>_.
                  sreturn (granted, 0)))))))"

definition ensure :: "int \<Rightarrow> string \<Rightarrow> (int \<times> int) quota_op" where
  "ensure default_quota user =
     sbind (read_row user) (\<lambda>row.
       case row of
         Some r \<Rightarrow> sreturn r
       | None \<Rightarrow>
           if default_quota \<le> 0 then sreturn (0, 0)
           else sbind (ask Begin (\<lambda>_. ())) (\<lambda>_. quota_tx (grant default_quota user)))"

text \<open>The numbers \<open>me\<close> answers: quota, used, available, provisional.\<close>

definition me :: "int \<Rightarrow> string \<Rightarrow> (int \<times> int \<times> int \<times> bool) quota_op" where
  "me default_quota user =
     sbind (effective default_quota user) (\<lambda>(quota, used, provisional).
       sreturn (quota, used, max (i64 (quota - used)) 0, provisional))"

section \<open>The administrator\<close>

definition set_quota_check :: "string \<Rightarrow> int \<Rightarrow> unit quota_op" where
  "set_quota_check user q =
     (if q < 0 then slift (Err (BadRequest ''quota_bytes must be >= 0''))
      else
        sbind (ask SelectContributed qd_contributed_bytes) (\<lambda>contributed.
        sbind (sum_bigint SelectOthers (\<lambda>(u, r). u \<noteq> user)) (\<lambda>others.
          if i64 (others + q) > contributed then slift (Err (BadRequest ''allocation exceeds node capacity''))
          else sreturn ())))"

definition set_quota :: "string \<Rightarrow> int \<Rightarrow> unit quota_op" where
  "set_quota user q = sbind (set_quota_check user q) (\<lambda>_. tell UpsertQuota (upsert_quota user q))"

definition set_contribution_check :: "int \<Rightarrow> unit quota_op" where
  "set_contribution_check bytes =
     (if bytes < 0 then slift (Err (BadRequest ''bytes must be >= 0''))
      else
        sbind (ask SelectUsed qd_used_bytes) (\<lambda>used.
        sbind (sum_bigint SelectAllocated (\<lambda>_. True)) (\<lambda>allocated.
          if bytes < used \<or> bytes < allocated then slift (Err (BadRequest ''contribution below used or allocated bytes''))
          else sreturn ())))"

definition set_contribution :: "int \<Rightarrow> unit quota_op" where
  "set_contribution bytes =
     sbind (set_contribution_check bytes) (\<lambda>_. tell UpdateContribution (\<lambda>D. D\<lparr>qd_contributed_bytes := bytes\<rparr>))"

section \<open>The allocation is backed\<close>

definition quota_sum :: "(string \<times> quota_row) list \<Rightarrow> int" where
  "quota_sum xs = sum_list (map (\<lambda>(u, r). uq_quota_bytes r) xs)"

definition alloc_ok :: "quota_db \<Rightarrow> bool" where
  "alloc_ok D \<longleftrightarrow>
     distinct (map fst (qd_users D)) \<and> list_all (\<lambda>(u, r). 0 \<le> uq_quota_bytes r) (qd_users D)
     \<and> quota_sum (qd_users D) \<le> qd_contributed_bytes D \<and> is_i64 (qd_contributed_bytes D)"

lemma quota_sum_simps [simp]:
  "quota_sum [] = 0"
  "quota_sum ((u, r) # xs) = uq_quota_bytes r + quota_sum xs"
  by (simp_all add: quota_sum_def)

lemma quota_sum_nonneg: "list_all (\<lambda>(u, r). 0 \<le> uq_quota_bytes r) xs \<Longrightarrow> 0 \<le> quota_sum xs"
  by (induction xs) auto

lemma filter_other_id: "u \<notin> set (map fst xs) \<Longrightarrow> filter (\<lambda>(v, r). v \<noteq> u) xs = xs"
  by (induction xs) auto

lemma quota_sum_update:
  assumes "distinct (map fst xs)"
  shows "quota_sum (AList.update u r xs) = quota_sum (filter (\<lambda>(v, r). v \<noteq> u) xs) + uq_quota_bytes r"
  using assms
proof (induction xs)
  case (Cons x xs)
  obtain v s where x: "x = (v, s)" by force
  show ?case
  proof (cases "v = u")
    case True
    then have "u \<notin> set (map fst xs)" using Cons.prems x by simp
    from filter_other_id [OF this] show ?thesis using True x by simp
  next
    case False
    then show ?thesis using Cons x by simp
  qed
qed simp

lemma quota_sum_filter_le:
  "list_all (\<lambda>(u, r). 0 \<le> uq_quota_bytes r) xs \<Longrightarrow> 0 \<le> quota_sum (filter P xs) \<and> quota_sum (filter P xs) \<le> quota_sum xs"
  by (induction xs) auto

lemma nonneg_update:
  "list_all (\<lambda>(u, r). 0 \<le> uq_quota_bytes r) xs \<Longrightarrow> 0 \<le> uq_quota_bytes r
   \<Longrightarrow> list_all (\<lambda>(u, r). 0 \<le> uq_quota_bytes r) (AList.update v r xs)"
  by (induction xs) auto

text \<open>What the checks establish, for a request that does not overflow.\<close>

lemma check_pure: "set_quota_check user q D = (r, D') \<Longrightarrow> D' = D"
  "set_contribution_check b D = (r, D') \<Longrightarrow> D' = D"
  by (auto simp: set_quota_check_def set_contribution_check_def sbind_def ask_def sum_bigint_def Let_def slift_def sreturn_def
      split: if_splits)

lemma set_quota_check_Ok:
  assumes "set_quota_check user q D = (Ok (), D')" "alloc_ok D" "q + qd_contributed_bytes D < 2 ^ 63"
  shows "0 \<le> q \<and> quota_sum (filter (\<lambda>(v, r). v \<noteq> user) (qd_users D)) + q \<le> qd_contributed_bytes D"
proof -
  let ?o = "quota_sum (filter (\<lambda>(v, r). v \<noteq> user) (qd_users D))"
  have le: "0 \<le> ?o" "?o \<le> qd_contributed_bytes D"
    using assms(2) quota_sum_filter_le [of "qd_users D" "\<lambda>(v, r). v \<noteq> user"] by (auto simp: alloc_ok_def)
  have c: "0 \<le> q" "i64 (?o + q) \<le> qd_contributed_bytes D"
    using assms(1)
    by (auto simp: set_quota_check_def sbind_Ok_iff ask_def slift_def quota_sum_def sum_bigint_def Let_def split: if_splits)
  moreover have "is_i64 (?o + q)" using le c(1) assms(3) by (simp add: is_i64_def)
  ultimately show ?thesis by simp
qed

lemma set_quota_keeps:
  assumes "alloc_ok D" "q + qd_contributed_bytes D < 2 ^ 63" "set_quota user q D = (r, D')"
  shows "alloc_ok D'"
proof (cases "\<exists>D1. set_quota_check user q D = (Ok (), D1)")
  case False
  then have "D' = D"
    using assms(3) check_pure(1) by (auto simp: set_quota_def sbind_def split: prod.splits result.splits)
  then show ?thesis using assms(1) by simp
next
  case True
  then have ck: "set_quota_check user q D = (Ok (), D)" using check_pure(1) by blast
  note b = set_quota_check_Ok [OF ck assms(1,2)]
  have "D' = D \<or> D' = upsert_quota user q D"
    using assms(3) ck by (auto simp: set_quota_def sbind_def tell_def split: if_splits)
  moreover have "alloc_ok (upsert_quota user q D)"
    using assms(1) b
    by (auto simp: alloc_ok_def upsert_quota_def quota_sum_update distinct_update nonneg_update split: option.splits)
  ultimately show ?thesis using assms(1) by auto
qed

lemma set_contribution_keeps:
  assumes "alloc_ok D" "is_i64 b" "set_contribution b D = (r, D')"
  shows "alloc_ok D'"
proof -
  have "D' = D \<or> D' = D\<lparr>qd_contributed_bytes := b\<rparr> \<and> quota_sum (qd_users D) \<le> b"
    using assms(3)
    by (auto simp: set_contribution_def set_contribution_check_def sbind_def ask_def sum_bigint_def quota_sum_def tell_def
        slift_def sreturn_def Let_def split: if_splits)
  then show ?thesis using assms(1,2) by (auto simp: alloc_ok_def)
qed

lemma grant_keeps:
  assumes "alloc_ok D" "grant d user D = (r, D')"
  shows "alloc_ok D'"
proof (cases "D' = D")
  case False
  let ?left = "qd_contributed_bytes D - quota_sum (qd_users D)"
  have nn: "0 \<le> quota_sum (qd_users D)" using assms(1) by (simp add: alloc_ok_def quota_sum_nonneg)
  have left: "is_i64 ?left" "0 \<le> ?left" using assms(1) nn by (auto simp: alloc_ok_def is_i64_def)
  let ?g = "min d ?left"
  have new: "map_of (qd_users D) user = None" and g: "0 < ?g"
    and users: "qd_users D' = (user, \<lparr>uq_quota_bytes = ?g, uq_used_bytes = 0\<rparr>) # qd_users D"
    and same: "qd_contributed_bytes D' = qd_contributed_bytes D"
    using assms(2) False left
    by (auto simp: grant_def sbind_def ask_def tell_def sum_bigint_def quota_sum_def [symmetric] insert_quota_def Let_def
        sreturn_def split: if_splits option.splits)
  show ?thesis
    using assms(1) new g by (simp add: alloc_ok_def users same map_of_eq_None_iff)
qed (use assms in simp)

lemma ensure_keeps:
  assumes "alloc_ok D" "ensure d user D = (r, D')"
  shows "alloc_ok D'"
proof -
  have "D' = D \<or> (\<exists>r1 D1. grant d user D = (r1, D1) \<and> D' = D1)"
    using assms(2)
    by (auto simp: ensure_def sbind_def read_row_def ask_def quota_tx_def sreturn_def split: if_splits option.splits prod.splits result.splits)
  then show ?thesis using assms(1) grant_keeps by blast
qed

text \<open>Requests of administrators and first uploads, in any order, between which usage is accounted and calls
  of the database start and stop failing.\<close>

inductive alloc_run :: "quota_db \<Rightarrow> quota_db \<Rightarrow> bool" for D0 where
  start: "alloc_run D0 D0"
| quota: "alloc_run D0 D \<Longrightarrow> q + qd_contributed_bytes D < 2 ^ 63 \<Longrightarrow> set_quota user q D = (r, D') \<Longrightarrow> alloc_run D0 D'"
| contribution: "alloc_run D0 D \<Longrightarrow> is_i64 b \<Longrightarrow> set_contribution b D = (r, D') \<Longrightarrow> alloc_run D0 D'"
| upload: "alloc_run D0 D \<Longrightarrow> ensure d user D = (r', D') \<Longrightarrow> alloc_run D0 D'"
| account: "alloc_run D0 D \<Longrightarrow> map_of (qd_users D) user = Some row \<Longrightarrow>
    alloc_run D0 (D\<lparr>qd_users := AList.update user (row\<lparr>uq_used_bytes := n\<rparr>) (qd_users D), qd_used_bytes := m\<rparr>)"
| faults: "alloc_run D0 D \<Longrightarrow> alloc_run D0 (D\<lparr>qd_up := up\<rparr>)"

lemma quota_sum_same:
  assumes "distinct (map fst xs)" "map_of xs u = Some r" "uq_quota_bytes s = uq_quota_bytes r"
  shows "quota_sum (AList.update u s xs) = quota_sum xs"
  using assms
proof (induction xs)
  case (Cons x xs)
  then show ?case by (cases x) (auto split: if_splits)
qed simp

text \<open>C37. Whatever the administrators and the first uploads of users ask for, in whatever order and whichever calls
  of the database fail, as long as no request is so large that its sum with the contribution leaves the 64-bit
  range: users have at most one quota row each, no quota is negative, and the quotas together never exceed
  what the node contributes.\<close>

theorem allocation_backed:
  assumes "alloc_run D0 D" "alloc_ok D0"
  shows "alloc_ok D"
  using assms
proof (induction rule: alloc_run.induct)
  case (account D user row n m)
  have "0 \<le> uq_quota_bytes row"
    using account map_of_SomeD [OF account(2)] by (auto simp: alloc_ok_def list_all_iff)
  then show ?case
    using account by (simp add: alloc_ok_def quota_sum_same [of _ _ row] distinct_update nonneg_update)
next
  case (faults D up)
  then show ?case by (simp add: alloc_ok_def)
qed (blast intro: set_quota_keeps set_contribution_keeps ensure_keeps)+

definition demo_quotas :: quota_db where
  "demo_quotas =
     \<lparr>qd_contributed_bytes = 100, qd_used_bytes = 0,
      qd_users = [(''ann'', \<lparr>uq_quota_bytes = 60, uq_used_bytes = 7\<rparr>)], qd_events = [], qd_up = (\<lambda>_. True)\<rparr>"

lemma demo_quotas_ok: "alloc_ok demo_quotas"
  by (simp add: alloc_ok_def demo_quotas_def is_i64_def)

lemma demo_ensure:
  "ensure 50 ''bob'' demo_quotas
   = (Ok (40, 0), demo_quotas\<lparr>qd_users := (''bob'', \<lparr>uq_quota_bytes = 40, uq_used_bytes = 0\<rparr>) # qd_users demo_quotas,
                             qd_events := [(''bob'', 40)]\<rparr>)"
  by (simp add: ensure_def grant_def sbind_def ask_def tell_def sum_bigint_def read_row_def insert_quota_def quota_tx_def
      sreturn_def demo_quotas_def is_i64_def)

theorem allocation_backed_witness:
  "alloc_ok (snd (ensure 50 ''bob'' demo_quotas)) \<and> fst (ensure 50 ''bob'' demo_quotas) = Ok (40, 0)"
  using allocation_backed [OF alloc_run.upload [OF alloc_run.start demo_ensure] demo_quotas_ok]
  by (simp add: demo_ensure)

text \<open>\<open>set_quota\<close> adds the requested quota to the others in 64-bit arithmetic: on a node that contributes 100
  bytes, 60 of them allocated, a request of the largest 64-bit number wraps below zero, passes the check
  and is stored.\<close>

theorem set_quota_overflow:
  "alloc_ok demo_quotas
   \<and> fst (set_quota ''bob'' (2 ^ 63 - 1) demo_quotas) = Ok ()
   \<and> quota_sum (qd_users (snd (set_quota ''bob'' (2 ^ 63 - 1) demo_quotas))) = 60 + (2 ^ 63 - 1)
   \<and> qd_contributed_bytes (snd (set_quota ''bob'' (2 ^ 63 - 1) demo_quotas)) = 100"
proof -
  have "i64 (9223372036854775867) = - 9223372036854775749" by (simp add: i64_def)
  then have "set_quota ''bob'' (2 ^ 63 - 1) demo_quotas = (Ok (), upsert_quota ''bob'' (2 ^ 63 - 1) demo_quotas)"
    by (simp add: set_quota_def set_quota_check_def sbind_def ask_def tell_def sum_bigint_def sreturn_def is_i64_def demo_quotas_def)
  then show ?thesis using demo_quotas_ok by (simp add: upsert_quota_def demo_quotas_def)
qed

text \<open>The check and the write of \<open>set_quota\<close> are separate statements outside a transaction: two requests that
  are each admissible alone may both pass the check before either writes.\<close>

lemma set_quota_race:
  "fst (set_quota_check ''bob'' 40 demo_quotas) = Ok () \<and> fst (set_quota_check ''eve'' 40 demo_quotas) = Ok ()
   \<and> \<not> alloc_ok (upsert_quota ''eve'' 40 (upsert_quota ''bob'' 40 demo_quotas))"
  by (simp add: set_quota_check_def sbind_def ask_def sum_bigint_def sreturn_def is_i64_def demo_quotas_def
      upsert_quota_def alloc_ok_def)

end
