(* ===== verification/Repair.thy ===== *)
theory Repair
  imports ShardHost "HOL-Library.List_Lexorder" "HOL-Library.AList"
begin

unbundle bit_operations_syntax

text \<open>
  \<open>server/src/repair.rs\<close>: the repair pass. Its state is the node (manifest and shard store), what lies behind
  the network, and the columns of the database it reads and writes; the code's calls that the
  database does not answer are given by \<open>rd_ok\<close>. The network is a link for every address; the random generator and the
  measured round-trip times are read off the world behind it. \<open>f64\<close> stays abstract, with \<open>total_cmp\<close> as one more
  function beside the environment's. A hash map of counts is the function it represents, one that is iterated a list of
  its entries.
\<close>

section \<open>Constants and records\<close>

definition CRITICAL_MARGIN :: nat where "CRITICAL_MARGIN = 2"
definition SCRUB_CYCLE_SECS :: u64 where "SCRUB_CYCLE_SECS = 7 * 24 * 60 * 60"
definition MAX_PENDING_REPAIRS :: nat where "MAX_PENDING_REPAIRS = 4096"
definition LOCAL_RELIABILITY :: "'f env \<Rightarrow> 'f" where "LOCAL_RELIABILITY E = f64_of_nat E 100"

record repair_report =
  rr_files_scanned :: nat
  rr_chunks_scanned :: nat
  rr_chunks_healthy :: nat
  rr_chunks_repaired :: nat
  rr_shards_replaced :: nat
  rr_chunks_unrepairable :: nat
  rr_peers_total :: nat
  rr_peers_reachable :: nat
  rr_shards_scrubbed :: nat
  rr_shards_corrupt :: nat
  rr_shards_in_grace :: nat
  rr_chunks_deferred :: nat

definition RepairReport_default :: repair_report where
  "RepairReport_default =
     \<lparr>rr_files_scanned = 0, rr_chunks_scanned = 0, rr_chunks_healthy = 0, rr_chunks_repaired = 0, rr_shards_replaced = 0,
      rr_chunks_unrepairable = 0, rr_peers_total = 0, rr_peers_reachable = 0, rr_shards_scrubbed = 0,
      rr_shards_corrupt = 0, rr_shards_in_grace = 0, rr_chunks_deferred = 0\<rparr>"

record 'f peer_view =
  pv_reachable :: "(string \<times> string) list"
  pv_down :: "string set"
  pv_known :: "string set"
  pv_reliability :: "string \<rightharpoonup> 'f"

datatype shard_state = Live | Grace | Lost

record chunk_plan =
  cp_live :: nat
  cp_deferred :: nat
  cp_missing :: "nat list"

record degraded =
  dg_chunk :: chunk_row
  dg_shard_at :: "shard_row option list"
  dg_states :: "shard_state option list"
  dg_missing :: "nat list"
  dg_margin :: nat

text \<open>The database.\<close>

record 'f peer_row =
  pe_addr :: string
  pe_status :: string
  pe_zone :: "string option"
  pe_reliability_score :: 'f
  pe_rtt_ms :: "'f option"
  pe_consecutive_failures :: int
  pe_last_seen :: "int option"
  pe_country :: "string option"

datatype repair_call =
    SelectPeers | UpdateAlive string | HealthTx string | SelectIp | UpdateIp | InsertEvent | SelectCooldown | EnqueueJob | UpdateRebalanced
  | UpdateCountry string

datatype repair_event =
    PeerDown string string
  | IpChanged string string
  | ChunkUnrepairable string string nat
  | ShardCorrupt string string
  | GeoUnavailable

record 'f repair_db =
  rd_peers :: "(string \<times> 'f peer_row) list"
  rd_public_ip :: "string option"
  rd_last_rebalance_at :: "int option"
  rd_events :: "repair_event list"
  rd_jobs :: "string list"
  rd_now :: int
  rd_ok :: "repair_call \<Rightarrow> bool"

record ('f, 'w) site =
  si_node :: node
  si_net :: 'w
  si_db :: "'f repair_db"

text \<open>What a pass is given: the external functions, the shard store's root, the identity, the port, the network,
  and the settings of the instance.\<close>

record ('f, 'w) repair_ctx =
  rc_env :: "'f env"
  rc_total_lt :: "'f \<Rightarrow> 'f \<Rightarrow> bool"
  rc_root :: file_path
  rc_ident :: node_identity
  rc_port :: u16
  rc_net :: "string \<Rightarrow> 'w link"
  rc_rng :: "'w \<Rightarrow> bytes option"
  rc_rtt :: "'w \<Rightarrow> 'f"
  rc_repair_interval_secs :: u64
  rc_peer_down_threshold :: int

type_synonym ('f, 'w) pass = "('f, 'w) site \<times> repair_report"

definition insert_event :: "repair_event \<Rightarrow> 'f repair_db \<Rightarrow> 'f repair_db" where
  "insert_event e db = (if rd_ok db InsertEvent then db\<lparr>rd_events := rd_events db @ [e]\<rparr> else db)"

definition in_db :: "('f repair_db \<Rightarrow> 'f repair_db) \<Rightarrow> ('f, 'w) site \<Rightarrow> ('f, 'w) site" where
  "in_db u S = S\<lparr>si_db := u (si_db S)\<rparr>"

section \<open>Which local shards are verified in a pass\<close>

record scrub_plan =
  sp_bucket :: u64
  sp_buckets :: u64

definition ScrubPlan_new :: "u64 \<Rightarrow> u64 \<Rightarrow> scrub_plan" where
  "ScrubPlan_new now_secs interval_secs =
     (let interval = max interval_secs 1;
          buckets = max (SCRUB_CYCLE_SECS div interval) 1
      in \<lparr>sp_bucket = (now_secs div interval) mod buckets, sp_buckets = buckets\<rparr>)"

definition fnv1a :: "bytes \<Rightarrow> u64" where
  "fnv1a bs = foldl (\<lambda>h b. (h XOR ucast b) * 0x100000001b3) 0xcbf29ce484222325 bs"

definition due :: "scrub_plan \<Rightarrow> string \<Rightarrow> bool" where
  "due sp fr \<longleftrightarrow> fnv1a (as_bytes fr) mod sp_buckets sp = sp_bucket sp"

section \<open>The health of a peer\<close>

definition f64_ratio :: "'f env \<Rightarrow> nat \<Rightarrow> nat \<Rightarrow> 'f" where
  "f64_ratio E a b = f64_div E (f64_of_nat E a) (f64_of_nat E b)"

definition f64_least :: "'f env \<Rightarrow> 'f \<Rightarrow> 'f \<Rightarrow> 'f" where
  "f64_least E a b = (if f64_le E a b then a else b)"

definition f64_greatest :: "'f env \<Rightarrow> 'f \<Rightarrow> 'f \<Rightarrow> 'f" where
  "f64_greatest E a b = (if f64_le E b a then a else b)"

definition update_peer :: "string \<Rightarrow> ('f peer_row \<Rightarrow> 'f peer_row) \<Rightarrow> 'f repair_db \<Rightarrow> 'f repair_db" where
  "update_peer pid u db = db\<lparr>rd_peers := map (\<lambda>(p, row). (p, if p = pid then u row else row)) (rd_peers db)\<rparr>"

text \<open>The literals 0.8, 0.7 and 0.3 are the quotients they round like. The second branch is one transaction.\<close>

definition record_peer_health :: "'f env \<Rightarrow> int \<Rightarrow> string \<Rightarrow> 'f option \<Rightarrow> 'f repair_db \<Rightarrow> bool \<times> 'f repair_db" where
  "record_peer_health E threshold pid rtt db =
     (case rtt of
        Some rtt_ms \<Rightarrow>
          (False,
           if rd_ok db (UpdateAlive pid)
           then update_peer pid (\<lambda>row. row
                  \<lparr>pe_reliability_score := f64_least E (f64_of_nat E 100)
                     (f64_add E (f64_mul E (pe_reliability_score row) (f64_ratio E 8 10)) (f64_of_nat E 20)),
                   pe_rtt_ms := Some (case pe_rtt_ms row of
                       None \<Rightarrow> rtt_ms
                     | Some old \<Rightarrow> f64_add E (f64_mul E old (f64_ratio E 7 10)) (f64_mul E rtt_ms (f64_ratio E 3 10))),
                   pe_consecutive_failures := 0, pe_status := ''active'', pe_last_seen := Some (rd_now db)\<rparr>) db
           else db)
      | None \<Rightarrow>
          if \<not> rd_ok db (HealthTx pid) then (False, db)
          else case map_of (rd_peers db) pid of
                 None \<Rightarrow> (False, db)
               | Some before \<Rightarrow>
                   let new_failures = pe_consecutive_failures before + 1;
                       after_status = (if new_failures \<ge> threshold then ''down'' else pe_status before)
                   in (pe_status before \<noteq> ''down'' \<and> after_status = ''down'',
                       update_peer pid (\<lambda>row. row
                         \<lparr>pe_reliability_score := f64_greatest E (f64_of_nat E 0)
                            (f64_mul E (pe_reliability_score row) (f64_ratio E 8 10)),
                          pe_consecutive_failures := new_failures, pe_status := after_status\<rparr>) db))"

text \<open>\<open>max_by_key\<close> keeps the last of the greatest; the order is that of the hash map.\<close>

fun max_votes :: "(string \<times> nat) list \<Rightarrow> (string \<times> nat) option" where
  "max_votes [] = None"
| "max_votes (x # xs) = Some (foldl (\<lambda>best y. if snd best \<le> snd y then y else best) x xs)"

definition detect_self_ip_change :: "(string \<times> nat) list \<Rightarrow> 'f repair_db \<Rightarrow> 'f repair_db" where
  "detect_self_ip_change observed db =
     (case max_votes observed of
        None \<Rightarrow> db
      | Some (ip, _) \<Rightarrow>
          let prev = (if rd_ok db SelectIp then rd_public_ip db else None)
          in if prev = Some ip then db
             else
               let db1 = (if rd_ok db UpdateIp then db\<lparr>rd_public_ip := Some ip\<rparr> else db)
               in case prev of
                    None \<Rightarrow> db1
                  | Some old \<Rightarrow>
                      let db2 = insert_event (IpChanged old ip) db1;
                          recent = (if rd_ok db SelectCooldown
                                    then map_option (\<lambda>t. t > rd_now db2 - 30 * 60) (rd_last_rebalance_at db2) else None)
                      in if recent = Some True then db2
                         else if rd_ok db EnqueueJob then db2\<lparr>rd_jobs := rd_jobs db2 @ [''rebalance_locality'']\<rparr> else db2)"

definition emit_unrepairable :: "chunk_row \<Rightarrow> nat \<Rightarrow> ('f, 'w) site \<Rightarrow> ('f, 'w) site" where
  "emit_unrepairable c n = in_db (insert_event (ChunkUnrepairable (c_chunk_id c) (c_file_id c) n))"

definition emit_shard_corrupt :: "shard_row \<Rightarrow> ('f, 'w) site \<Rightarrow> ('f, 'w) site" where
  "emit_shard_corrupt s = in_db (insert_event (ShardCorrupt (s_fragment_id s) (s_chunk_id s)))"

definition min_locations_for_durability :: nat where
  "min_locations_for_durability = div_ceil TOTAL_SHARDS PARITY_SHARDS"

section \<open>Shards: judging, fetching, placing\<close>

definition site_disk :: "('f, 'w) site \<Rightarrow> disk" where
  "site_disk S = nd_disk (si_node S)"

definition classify_shard :: "('f, 'w) repair_ctx \<Rightarrow> 'f peer_view \<Rightarrow> scrub_plan \<Rightarrow> shard_row
    \<Rightarrow> ('f, 'w) pass \<Rightarrow> shard_state \<times> ('f, 'w) pass" where
  "classify_shard C view scrub s p =
     (case p of (S, rep) \<Rightarrow>
       if s_location s = ''local'' then
         if due scrub (s_fragment_id s) then
           let rep1 = rep\<lparr>rr_shards_scrubbed := rr_shards_scrubbed rep + 1\<rparr>
           in if read_local_verified (rc_env C) (rc_root C) (site_disk S) (s_fragment_id s) (s_hash s) \<noteq> None
              then (Live, S, rep1)
              else if store_exists (rc_root C) (site_disk S) (s_fragment_id s)
              then (Lost, emit_shard_corrupt s S, rep1\<lparr>rr_shards_corrupt := rr_shards_corrupt rep1 + 1\<rparr>)
              else (Lost, S, rep1)
         else (if store_exists (rc_root C) (site_disk S) (s_fragment_id s) then Live else Lost, S, rep)
       else
         case map_of (pv_reachable view) (s_location s) of
           Some addr \<Rightarrow>
             (case audit_shard (rc_net C addr) (s_fragment_id s) (si_net S) of
                (Ok h, w) \<Rightarrow> (if h \<noteq> [] \<and> (s_hash s = [] \<or> h = s_hash s) then Live else Lost, S\<lparr>si_net := w\<rparr>, rep)
              | (_, w) \<Rightarrow> (Lost, S\<lparr>si_net := w\<rparr>, rep))
         | None \<Rightarrow>
             (if s_location s \<in> pv_down view \<or> s_location s \<notin> pv_known view then Lost else Grace, S, rep))"

definition fetch_shard :: "('f, 'w) repair_ctx \<Rightarrow> (string \<times> string) list \<Rightarrow> shard_row \<Rightarrow> ('f, 'w) site
    \<Rightarrow> bytes option \<times> ('f, 'w) site" where
  "fetch_shard C reachable s S =
     (let verified = (\<lambda>b. if verify_hash (rc_env C) b (s_hash s) then Some b else None)
      in if s_location s = ''local''
         then (Option.bind (read_local (rc_root C) (site_disk S) (s_fragment_id s)) verified, S)
         else case map_of reachable (s_location s) of
                None \<Rightarrow> (None, S)
              | Some addr \<Rightarrow>
                  (case request (rc_net C addr) (GetShard (s_fragment_id s)) (si_net S) of
                     (Ok (ShardData _ data), w) \<Rightarrow> (verified data, S\<lparr>si_net := w\<rparr>)
                   | (_, w) \<Rightarrow> (None, S\<lparr>si_net := w\<rparr>)))"

definition drop_shard :: "('f, 'w) repair_ctx \<Rightarrow> (string \<times> string) list \<Rightarrow> string \<Rightarrow> string \<Rightarrow> ('f, 'w) site
    \<Rightarrow> ('f, 'w) site" where
  "drop_shard C reachable location fr S =
     (if location = ''local''
      then S\<lparr>si_node := (si_node S)\<lparr>nd_disk := snd (store_delete (rc_root C) fr (site_disk S))\<rparr>\<rparr>
      else case map_of reachable location of
             None \<Rightarrow> S
           | Some addr \<Rightarrow>
               S\<lparr>si_net := snd (signed_request (rc_env C) (rc_rng C (si_net S)) (rc_ident C) (rc_port C) (rc_net C addr)
                    (DeleteShard fr (id_peer_id (rc_ident C))) (si_net S))\<rparr>)"

definition place_shard :: "('f, 'w) repair_ctx \<Rightarrow> (string \<times> string) list \<Rightarrow> string \<Rightarrow> string \<Rightarrow> int \<Rightarrow> bytes
    \<Rightarrow> ('f, 'w) site \<Rightarrow> bool \<times> ('f, 'w) site" where
  "place_shard C reachable target fr idx bytes S =
     (if target = ''local''
      then (case write_local (rc_root C) fr bytes (site_disk S) of
              (r, D) \<Rightarrow> (is_ok r, S\<lparr>si_node := (si_node S)\<lparr>nd_disk := D\<rparr>\<rparr>))
      else case map_of reachable target of
             None \<Rightarrow> (False, S)
           | Some addr \<Rightarrow>
               (case signed_request (rc_env C) (rc_rng C (si_net S)) (rc_ident C) (rc_port C) (rc_net C addr)
                       (StoreShard fr (id_peer_id (rc_ident C)) idx bytes) (si_net S) of
                  (Ok (Ack _), w) \<Rightarrow> (True, S\<lparr>si_net := w\<rparr>)
                | (_, w) \<Rightarrow> (False, S\<lparr>si_net := w\<rparr>)))"

text \<open>\<open>min_by\<close> keeps the first of the least.\<close>

definition better_target :: "('f, 'w) repair_ctx \<Rightarrow> (string \<Rightarrow> nat) \<Rightarrow> (string \<rightharpoonup> 'f) \<Rightarrow> string \<Rightarrow> string \<Rightarrow> bool" where
  "better_target C loc_count reliability a b =
     (let score = (\<lambda>c. if c = ''local'' then LOCAL_RELIABILITY (rc_env C)
                       else coalesce (reliability c) (f64_of_nat (rc_env C) 0));
          full = (\<lambda>c. PARITY_SHARDS \<le> loc_count c)
      in if full a \<noteq> full b then full b
         else if loc_count a \<noteq> loc_count b then loc_count a < loc_count b
         else if rc_total_lt C (score b) (score a) then True
         else if rc_total_lt C (score a) (score b) then False
         else a < b)"

definition choose_target :: "('f, 'w) repair_ctx \<Rightarrow> (string \<Rightarrow> nat) \<Rightarrow> (string \<times> string) list \<Rightarrow> (string \<rightharpoonup> 'f) \<Rightarrow> string" where
  "choose_target C loc_count reachable reliability =
     foldl (\<lambda>best c. if better_target C loc_count reliability c best then c else best) ''local'' (map fst reachable)"

section \<open>One chunk\<close>

definition plan_chunk :: "shard_state option list \<Rightarrow> chunk_plan" where
  "plan_chunk states =
     (let live = length (filter (\<lambda>s. s = Some Live) states);
          critical = live < DATA_SHARDS + CRITICAL_MARGIN
      in \<lparr>cp_live = live,
          cp_deferred = (if critical then 0 else length (filter (\<lambda>s. s = Some Grace) states)),
          cp_missing = filter (\<lambda>i. states ! i = Some Lost \<or> (states ! i = Some Grace \<and> critical)) [0..<length states]\<rparr>)"

definition index_shards :: "shard_row list \<Rightarrow> shard_row option list" where
  "index_shards shards =
     fold (\<lambda>s acc. let i = usize_of_i64 (s_shard_index s) in if i < TOTAL_SHARDS then acc[i := Some s] else acc)
       shards (replicate TOTAL_SHARDS None)"

fun classify_all :: "('f, 'w) repair_ctx \<Rightarrow> 'f peer_view \<Rightarrow> scrub_plan \<Rightarrow> shard_row option list
    \<Rightarrow> ('f, 'w) pass \<Rightarrow> shard_state option list \<times> ('f, 'w) pass" where
  "classify_all C view scrub [] p = ([], p)"
| "classify_all C view scrub (None # xs) p =
     (case classify_all C view scrub xs p of (sts, p') \<Rightarrow> (None # sts, p'))"
| "classify_all C view scrub (Some s # xs) p =
     (case classify_shard C view scrub s p of (st, p1) \<Rightarrow>
        (case classify_all C view scrub xs p1 of (sts, p2) \<Rightarrow> (Some st # sts, p2)))"

definition assess_chunk :: "('f, 'w) repair_ctx \<Rightarrow> 'f peer_view \<Rightarrow> scrub_plan \<Rightarrow> chunk_row \<Rightarrow> shard_row list
    \<Rightarrow> ('f, 'w) pass \<Rightarrow> degraded option \<times> ('f, 'w) pass" where
  "assess_chunk C view scrub c shards p =
     (let shard_at = index_shards shards
      in case classify_all C view scrub shard_at p of (states, S, rep) \<Rightarrow>
           let plan = plan_chunk states;
               rep1 = rep\<lparr>rr_shards_in_grace := rr_shards_in_grace rep + cp_deferred plan\<rparr>
           in if cp_missing plan = [] then (None, S, rep1\<lparr>rr_chunks_healthy := rr_chunks_healthy rep1 + 1\<rparr>)
              else if cp_live plan < DATA_SHARDS
              then (None, emit_unrepairable c (cp_live plan) S,
                    rep1\<lparr>rr_chunks_unrepairable := rr_chunks_unrepairable rep1 + 1\<rparr>)
              else (Some \<lparr>dg_chunk = c, dg_shard_at = shard_at, dg_states = states, dg_missing = cp_missing plan,
                          dg_margin = cp_live plan - DATA_SHARDS\<rparr>, S, rep1))"

text \<open>The fetch loop: it stops at \<open>DATA_SHARDS\<close>.\<close>

fun fetch_live :: "('f, 'w) repair_ctx \<Rightarrow> (string \<times> string) list \<Rightarrow> degraded \<Rightarrow> nat list \<Rightarrow> nat \<Rightarrow> bytes option list
    \<Rightarrow> ('f, 'w) site \<Rightarrow> nat \<times> bytes option list \<times> ('f, 'w) site" where
  "fetch_live C reachable d [] got held S = (got, held, S)"
| "fetch_live C reachable d (i # is) got held S =
     (if got \<ge> DATA_SHARDS then (got, held, S)
      else case (dg_states d ! i, dg_shard_at d ! i) of
             (Some Live, Some s) \<Rightarrow>
               (case fetch_shard C reachable s S of
                  (Some b, S') \<Rightarrow> fetch_live C reachable d is (got + 1) (held[i := Some b]) S'
                | (None, S') \<Rightarrow> fetch_live C reachable d is got held S')
           | _ \<Rightarrow> fetch_live C reachable d is got held S)"

definition locations_kept :: "degraded \<Rightarrow> string \<Rightarrow> nat" where
  "locations_kept d loc =
     length (filter (\<lambda>i. (dg_states d ! i = Some Live \<or> dg_states d ! i = Some Grace)
                          \<and> map_option s_location (dg_shard_at d ! i) = Some loc) [0..<TOTAL_SHARDS])"

definition missing_fragment :: "degraded \<Rightarrow> nat \<Rightarrow> string" where
  "missing_fragment d i = (case dg_shard_at d ! i of Some s \<Rightarrow> s_fragment_id s | None \<Rightarrow> [])"

fun place_missing :: "('f, 'w) repair_ctx \<Rightarrow> 'f peer_view \<Rightarrow> degraded \<Rightarrow> bytes list \<Rightarrow> nat list \<Rightarrow> (string \<Rightarrow> nat)
    \<Rightarrow> bool \<Rightarrow> ('f, 'w) pass \<Rightarrow> bool \<times> ('f, 'w) pass" where
  "place_missing C view d all [] loc_count repaired_any p = (repaired_any, p)"
| "place_missing C view d all (i # is) loc_count repaired_any (S, rep) =
     (if i \<ge> length all then place_missing C view d all is loc_count repaired_any (S, rep)
      else
        let fr = missing_fragment d i;
            target = choose_target C loc_count (pv_reachable view) (pv_reliability view)
        in case place_shard C (pv_reachable view) target fr (int i) (all ! i) S of
             (False, S') \<Rightarrow> place_missing C view d all is loc_count repaired_any (S', rep)
           | (True, S') \<Rightarrow>
               place_missing C view d all is (loc_count(target := loc_count target + 1)) True
                 (S'\<lparr>si_node := snd (on_db (set_location fr target) (si_node S'))\<rparr>,
                  rep\<lparr>rr_shards_replaced := rr_shards_replaced rep + 1\<rparr>))"

definition repair_chunk :: "('f, 'w) repair_ctx \<Rightarrow> 'f peer_view \<Rightarrow> degraded \<Rightarrow> ('f, 'w) pass \<Rightarrow> ('f, 'w) pass" where
  "repair_chunk C view d p =
     (case p of (S, rep) \<Rightarrow>
       case fetch_live C (pv_reachable view) d [0..<TOTAL_SHARDS] 0 (replicate TOTAL_SHARDS None) S of
         (got, held, S1) \<Rightarrow>
           if got < DATA_SHARDS then (S1, rep\<lparr>rr_chunks_unrepairable := rr_chunks_unrepairable rep + 1\<rparr>)
           else case regen_chunk_shards (rc_env C) held (usize_of_i64 (c_cipher_len (dg_chunk d))) of
                  Ok all \<Rightarrow>
                    (case place_missing C view d all (dg_missing d) (locations_kept d) False (S1, rep) of
                       (repaired_any, S2, rep2) \<Rightarrow>
                         (S2, if repaired_any then rep2\<lparr>rr_chunks_repaired := rr_chunks_repaired rep2 + 1\<rparr> else rep2))
                | _ \<Rightarrow> (S1, rep\<lparr>rr_chunks_unrepairable := rr_chunks_unrepairable rep + 1\<rparr>))"

section \<open>The pass\<close>

text \<open>The binary heap is the list of its elements: \<open>pop\<close> removes one of the greatest.\<close>

definition heap_peek :: "degraded list \<Rightarrow> degraded option" where
  "heap_peek ds = (case ds of [] \<Rightarrow> None | _ \<Rightarrow> Some (last (sort_key dg_margin ds)))"

definition heap_pop :: "degraded list \<Rightarrow> degraded list" where
  "heap_pop ds = butlast (sort_key dg_margin ds)"

definition push_pending :: "degraded list \<Rightarrow> degraded \<Rightarrow> repair_report \<Rightarrow> degraded list \<times> repair_report" where
  "push_pending pending d rep =
     (if length pending < MAX_PENDING_REPAIRS then (d # pending, rep)
      else
        (case heap_peek pending of
           Some worst \<Rightarrow> if dg_margin worst > dg_margin d then d # heap_pop pending else pending
         | None \<Rightarrow> pending,
         rep\<lparr>rr_chunks_deferred := rr_chunks_deferred rep + 1\<rparr>))"

fun assess_chunks :: "('f, 'w) repair_ctx \<Rightarrow> 'f peer_view \<Rightarrow> scrub_plan \<Rightarrow> (chunk_row \<times> shard_row list) list
    \<Rightarrow> degraded list \<Rightarrow> ('f, 'w) pass \<Rightarrow> degraded list \<times> ('f, 'w) pass" where
  "assess_chunks C view scrub [] pending p = (pending, p)"
| "assess_chunks C view scrub ((c, shards) # plan) pending (S, rep) =
     (case assess_chunk C view scrub c shards (S, rep\<lparr>rr_chunks_scanned := rr_chunks_scanned rep + 1\<rparr>) of
        (None, p') \<Rightarrow> assess_chunks C view scrub plan pending p'
      | (Some d, S', rep') \<Rightarrow>
          (case push_pending pending d rep' of
             (pending', rep'') \<Rightarrow> assess_chunks C view scrub plan pending' (S', rep'')))"

fun assess_files :: "('f, 'w) repair_ctx \<Rightarrow> 'f peer_view \<Rightarrow> scrub_plan \<Rightarrow> file_row list
    \<Rightarrow> degraded list \<Rightarrow> ('f, 'w) pass \<Rightarrow> degraded list \<times> ('f, 'w) pass" where
  "assess_files C view scrub [] pending p = (pending, p)"
| "assess_files C view scrub (file # files) pending (S, rep) =
     (let rep1 = rep\<lparr>rr_files_scanned := rr_files_scanned rep + 1\<rparr>
      in case pull_plan (f_user_id file) (f_file_id file) (nd_manifest (si_node S)) of
           Ok (_, plan) \<Rightarrow>
             (case assess_chunks C view scrub plan pending (S, rep1) of
                (pending', p') \<Rightarrow> assess_files C view scrub files pending' p')
         | _ \<Rightarrow> assess_files C view scrub files pending (S, rep1))"

text \<open>What was learnt from the peer table and the probes. The probes run at the same time: \<open>order\<close> is the order in which
  they come back, without those whose task failed.\<close>

type_synonym 'f probe = "string \<times> string \<times> ('f \<times> string option) option"

fun probe_peers :: "('f, 'w) repair_ctx \<Rightarrow> (string \<times> 'f peer_row) list \<Rightarrow> 'w \<Rightarrow> 'f probe list \<times> 'w" where
  "probe_peers C [] w = ([], w)"
| "probe_peers C ((pid, row) # rows) w =
     (case ping_observed (rc_net C (pe_addr row)) (id_peer_id (rc_ident C)) (rc_port C) w of
        (r, w1) \<Rightarrow>
          (case probe_peers C rows w1 of
             (ps, w2) \<Rightarrow> ((pid, pe_addr row, map_option (\<lambda>ip. (rc_rtt C w1, ip)) (ok r)) # ps, w2)))"

definition table_view :: "(string \<times> 'f peer_row) list \<Rightarrow> 'f peer_view" where
  "table_view rows =
     \<lparr>pv_reachable = [], pv_down = set (map fst (filter (\<lambda>(pid, row). pe_status row = ''down'') rows)),
      pv_known = set (map fst rows), pv_reliability = map_of (map (\<lambda>(pid, row). (pid, pe_reliability_score row)) rows)\<rparr>"

fun vote :: "string \<Rightarrow> (string \<times> nat) list \<Rightarrow> (string \<times> nat) list" where
  "vote ip [] = [(ip, 1)]"
| "vote ip ((a, n) # vs) = (if a = ip then (a, n + 1) # vs else (a, n) # vote ip vs)"

fun absorb_probes :: "'f env \<Rightarrow> int \<Rightarrow> 'f probe list \<Rightarrow> 'f peer_view \<times> (string \<times> nat) list \<times> 'f repair_db
    \<Rightarrow> 'f peer_view \<times> (string \<times> nat) list \<times> 'f repair_db" where
  "absorb_probes E threshold [] st = st"
| "absorb_probes E threshold ((pid, addr, probe) # ps) (view, observed, db) =
     (let observed1 = (case probe of Some (_, Some ip) \<Rightarrow> vote ip observed | _ \<Rightarrow> observed);
          (just_down, db1) = record_peer_health E threshold pid (map_option fst probe) db;
          (view1, db2) =
            (if just_down then (view\<lparr>pv_down := insert pid (pv_down view)\<rparr>, insert_event (PeerDown pid addr) db1)
             else (view, db1));
          view2 = (if probe \<noteq> None
                   then view1\<lparr>pv_down := pv_down view1 - {pid},
                              pv_reachable := AList.update pid addr (pv_reachable view1)\<rparr>
                   else view1)
      in absorb_probes E threshold ps (view2, observed1, db2))"

definition repair_all :: "('f, 'w) repair_ctx \<Rightarrow> ((string \<times> 'f peer_row) list \<Rightarrow> (string \<times> 'f peer_row) list)
    \<Rightarrow> ((string \<times> nat) list \<Rightarrow> (string \<times> nat) list) \<Rightarrow> u64 \<Rightarrow> ('f, 'w) site \<Rightarrow> ('f, 'w) pass" where
  "repair_all C order iter unix_secs S =
     (let rep = RepairReport_default
      in if \<not> rd_ok (si_db S) SelectPeers then (S, rep)
         else
           let rows = filter (\<lambda>(pid, row). pid \<noteq> id_peer_id (rc_ident C)) (rd_peers (si_db S));
               rep1 = rep\<lparr>rr_peers_total := length rows\<rparr>;
               (probes, w) = probe_peers C (order rows) (si_net S);
               (view, observed, db) =
                 absorb_probes (rc_env C) (rc_peer_down_threshold C) probes (table_view rows, [], si_db S);
               rep2 = rep1\<lparr>rr_peers_reachable := length (pv_reachable view)\<rparr>;
               S1 = S\<lparr>si_net := w, si_db := detect_self_ip_change (iter observed) db\<rparr>;
               scrub = ScrubPlan_new unix_secs (rc_repair_interval_secs C);
               (pending, p) = assess_files C view scrub (list_all_files (nd_manifest (si_node S1))) [] (S1, rep2)
           in fold (repair_chunk C view) (sort_key dg_margin pending) p)"

end
