(* ===== verification/RepairLaws.thy ===== *)
theory RepairLaws
  imports Repair "HOL-Library.Multiset"
begin

text \<open>
  Laws of the parts of the repair pass that do not touch a shard: the rotation of the scrub, the health of a peer
  along a history of probes, the buffer of pending repairs and the choice of a target.
\<close>

section \<open>The scrub cycle\<close>

lemma unat_max: "unat (max a b) = max (unat a) (unat b)"
  by (simp add: max_def word_le_nat_alt)

lemma due_iff:
  "due (ScrubPlan_new now iv) fr \<longleftrightarrow>
     unat (fnv1a (as_bytes fr)) mod unat (sp_buckets (ScrubPlan_new now iv))
       = (unat now div max (unat iv) 1) mod unat (sp_buckets (ScrubPlan_new now iv))"
  by (simp add: due_def ScrubPlan_new_def Let_def word_unat_eq_iff unat_mod unat_div unat_max)

lemma buckets_same: "sp_buckets (ScrubPlan_new t iv) = sp_buckets (ScrubPlan_new s iv)"
  by (simp add: ScrubPlan_new_def Let_def)

lemma buckets_nat: "unat (sp_buckets (ScrubPlan_new t iv)) = max (604800 div max (unat iv) 1) 1"
  by (simp add: ScrubPlan_new_def Let_def unat_max unat_div SCRUB_CYCLE_SECS_def)

lemma ex1_residue:
  assumes "0 < (B :: nat)"
  shows "\<exists>!k. k < B \<and> h mod B = (q + k) mod B"
proof -
  let ?k = "(h + (B - q mod B)) mod B"
  have "q + (h + (B - q mod B)) = h + B + q div B * B"
    using mod_less_divisor [OF assms, of q] div_mult_mod_eq [of q B] by linarith
  moreover have "(h + B + q div B * B) mod B = h mod B" by simp
  ultimately have "(q + (h + (B - q mod B))) mod B = h mod B" by (simp only:)
  then have "?k < B \<and> h mod B = (q + ?k) mod B" using assms by (simp only: mod_add_right_eq mod_less_divisor simp_thms)
  then obtain k0 where k0: "k0 < B" "h mod B = (q + k0) mod B" by blast
  have inj: "k = j" if "k < B" "j < B" "(q + k) mod B = (q + j) mod B" for k j
  proof -
    have "(int q + int k) mod int B = (int q + int j) mod int B" using arg_cong [OF that(3), of int] by (simp only: of_nat_mod of_nat_add)
    then have "int B dvd int k - int j" by (simp add: mod_eq_dvd_iff)
    then have "int k - int j = 0 \<or> int B \<le> \<bar>int k - int j\<bar>"
      using dvd_imp_le_int [of "int k - int j" "int B"] by auto
    then have "int k - int j = 0" using that(1,2) by linarith
    then show ?thesis by simp
  qed
  show ?thesis
  proof (rule ex1I)
    show "k0 < B \<and> h mod B = (q + k0) mod B" using k0 ..
    show "k = k0" if "k < B \<and> h mod B = (q + k) mod B" for k
      using inj [OF conjunct1 [OF that] k0(1)] k0(2) conjunct2 [OF that] by (simp only:)
  qed
qed

text \<open>C38. The scrub rotates: if one repair pass falls into each of \<open>buckets\<close> successive intervals of the clock, every
  shard is byte-verified in exactly one of those passes; the cycle lasts at most a week, or one
  interval when that is longer.\<close>

theorem scrub_cycle_covers:
  assumes "\<And>k. k < unat (sp_buckets (ScrubPlan_new start iv)) \<Longrightarrow>
      unat (pass_at k) div max (unat iv) 1 = unat start div max (unat iv) 1 + k"
  shows "(\<exists>!k. k < unat (sp_buckets (ScrubPlan_new start iv)) \<and> due (ScrubPlan_new (pass_at k) iv) fr)
    \<and> unat (sp_buckets (ScrubPlan_new start iv)) * max (unat iv) 1 \<le> max 604800 (max (unat iv) 1)"
proof -
  let ?B = "unat (sp_buckets (ScrubPlan_new start iv))" and ?I = "max (unat iv) 1"
  have "0 < ?B" by (simp add: buckets_nat)
  have d: "due (ScrubPlan_new (pass_at k) iv) fr \<longleftrightarrow> unat (fnv1a (as_bytes fr)) mod ?B = (unat start div ?I + k) mod ?B" if "k < ?B" for k
    unfolding due_iff buckets_same [of "pass_at k" iv start] assms [OF that] ..
  then have "(\<lambda>k. k < ?B \<and> due (ScrubPlan_new (pass_at k) iv) fr)
      = (\<lambda>k. k < ?B \<and> unat (fnv1a (as_bytes fr)) mod ?B = (unat start div ?I + k) mod ?B)"
    by (intro ext conj_cong refl)
  with ex1_residue [OF \<open>0 < ?B\<close>, of "unat (fnv1a (as_bytes fr))" "unat start div ?I"]
  have "\<exists>!k. k < ?B \<and> due (ScrubPlan_new (pass_at k) iv) fr" by (simp only:)
  moreover have "?B * ?I \<le> max 604800 ?I"
    unfolding buckets_nat nat_mult_max_left by (rule max.mono) simp_all
  ultimately show ?thesis ..
qed

text \<open>Passes every six hours from the epoch: 28 of them.\<close>

theorem scrub_cycle_covers_witness:
  "(\<exists>!k. k < unat (sp_buckets (ScrubPlan_new 0 21600)) \<and> due (ScrubPlan_new (word_of_nat (k * 21600 + 7)) 21600) ''ab'')
   \<and> unat (sp_buckets (ScrubPlan_new 0 21600)) = 28"
proof -
  have b: "unat (sp_buckets (ScrubPlan_new 0 21600)) = 28" by (simp add: buckets_nat)
  have "unat (word_of_nat (k * 21600 + 7) :: u64) div max (unat (21600 :: u64)) 1 = unat (0 :: u64) div max (unat (21600 :: u64)) 1 + k"
    if "k < unat (sp_buckets (ScrubPlan_new 0 21600))" for k
  proof -
    have "unat (word_of_nat (k * 21600 + 7) :: u64) = k * 21600 + 7"
      using that unfolding b by (simp add: unat_of_nat del: of_nat_add of_nat_mult)
    then show ?thesis by simp
  qed
  from scrub_cycle_covers [OF this, of "''ab''"] b show ?thesis by simp
qed

section \<open>The health of a peer\<close>

fun health_run :: "'f env \<Rightarrow> int \<Rightarrow> string \<Rightarrow> 'f option list \<Rightarrow> 'f repair_db \<Rightarrow> bool list \<times> 'f repair_db" where
  "health_run E threshold pid [] db = ([], db)"
| "health_run E threshold pid (rtt # rtts) db =
     (case record_peer_health E threshold pid rtt db of (b, db1) \<Rightarrow>
        (case health_run E threshold pid rtts db1 of (bs, db2) \<Rightarrow> (b # bs, db2)))"

definition health_up :: "string \<Rightarrow> 'f repair_db \<Rightarrow> bool" where
  "health_up pid db \<longleftrightarrow> rd_ok db (UpdateAlive pid) \<and> rd_ok db (HealthTx pid)"

lemma map_of_update_peer: "map_of (rd_peers (update_peer pid u db)) q
    = (if q = pid then map_option u (map_of (rd_peers db) pid) else map_of (rd_peers db) q)"
proof -
  have "map_of (map (\<lambda>(p, row). (p, if p = pid then u row else row)) xs) q
      = (if q = pid then map_option u (map_of xs pid) else map_of xs q)" for xs :: "(string \<times> 'a peer_row) list"
    by (induction xs) auto
  then show ?thesis by (simp add: update_peer_def)
qed

lemma rd_ok_update [simp]: "rd_ok (update_peer pid u db) = rd_ok db"
  by (simp add: update_peer_def)

lemma health_step:
  assumes "record_peer_health E thr pid rtt db = (b, db')" "health_up pid db" "map_of (rd_peers db) pid = Some row"
  shows "health_up pid db' \<and> (\<forall>q. q \<noteq> pid \<longrightarrow> map_of (rd_peers db') q = map_of (rd_peers db) q)
    \<and> (\<exists>row'. map_of (rd_peers db') pid = Some row'
         \<and> (rtt \<noteq> None \<longrightarrow> \<not> b \<and> pe_consecutive_failures row' = 0 \<and> pe_status row' = ''active'')
         \<and> (rtt = None \<longrightarrow> pe_consecutive_failures row' = pe_consecutive_failures row + 1
              \<and> pe_status row' = (if pe_consecutive_failures row + 1 \<ge> thr then ''down'' else pe_status row)
              \<and> b = (pe_status row \<noteq> ''down'' \<and> pe_status row' = ''down'')))"
  using assms
  by (auto simp: record_peer_health_def health_up_def map_of_update_peer Let_def split: option.splits)

lemma health_run_append:
  "health_run E thr pid (xs @ ys) db =
     (case health_run E thr pid xs db of (bs, db1) \<Rightarrow> (case health_run E thr pid ys db1 of (cs, db2) \<Rightarrow> (bs @ cs, db2)))"
  by (induction xs arbitrary: db) (auto split: prod.splits)

lemma health_run_length: "length (fst (health_run E thr pid xs db)) = length xs"
  by (induction xs arbitrary: db) (auto split: prod.splits simp: prod_eq_iff)

lemma health_run_keeps:
  assumes "health_run E thr pid xs db = (bs, db')" "health_up pid db" "map_of (rd_peers db) pid = Some row"
  shows "health_up pid db' \<and> (\<exists>row'. map_of (rd_peers db') pid = Some row')
    \<and> (\<forall>q. q \<noteq> pid \<longrightarrow> map_of (rd_peers db') q = map_of (rd_peers db) q)"
  using assms
proof (induction xs arbitrary: db bs row)
  case (Cons x xs)
  obtain b db1 where s: "record_peer_health E thr pid x db = (b, db1)" by fastforce
  obtain bs1 where r: "health_run E thr pid xs db1 = (bs1, db')" using Cons.prems(1) s by (auto split: prod.splits)
  from health_step [OF s Cons.prems(2,3)] obtain row1 where
    "health_up pid db1" "map_of (rd_peers db1) pid = Some row1" "\<forall>q. q \<noteq> pid \<longrightarrow> map_of (rd_peers db1) q = map_of (rd_peers db) q"
    by blast
  with Cons.IH [OF r this(1,2)] show ?case by metis
qed auto

text \<open>A row of silence after \<open>c\<close> failures.\<close>

lemma silence:
  assumes "health_run E thr pid (replicate n None) db = (bs, db')" "health_up pid db" "map_of (rd_peers db) pid = Some row"
    and "pe_consecutive_failures row = int c" "pe_status row = (if 0 < c \<and> int c \<ge> thr then ''down'' else ''active'')"
  shows "bs = map (\<lambda>k. k = max 1 (nat thr)) [Suc c..<Suc (c + n)]
    \<and> (\<exists>row'. map_of (rd_peers db') pid = Some row' \<and> pe_consecutive_failures row' = int (c + n)
         \<and> pe_status row' = (if 0 < c + n \<and> int (c + n) \<ge> thr then ''down'' else ''active''))"
  using assms
proof (induction n arbitrary: c db bs row)
  case (Suc n)
  obtain b db1 where s: "record_peer_health E thr pid None db = (b, db1)" by fastforce
  obtain bs1 where r: "health_run E thr pid (replicate n None) db1 = (bs1, db')" "bs = b # bs1"
    using Suc.prems(1) s by (auto split: prod.splits)
  from health_step [OF s Suc.prems(2,3)] obtain row1 where row1: "health_up pid db1" "map_of (rd_peers db1) pid = Some row1"
    "pe_consecutive_failures row1 = int (Suc c)"
    "pe_status row1 = (if int c + 1 \<ge> thr then ''down'' else pe_status row)" "b = (pe_status row \<noteq> ''down'' \<and> pe_status row1 = ''down'')"
    using Suc.prems(4) by auto
  have st: "pe_status row1 = (if 0 < Suc c \<and> int (Suc c) \<ge> thr then ''down'' else ''active'')"
    using row1(4) Suc.prems(5) by (auto split: if_splits)
  have b: "b = (Suc c = max 1 (nat thr))" using row1(5) st Suc.prems(5) by (auto simp: max_def split: if_splits)
  from Suc.IH [OF r(1) row1(1,2,3) st] r(2) b
  show ?case by (auto simp: upt_rec [of "Suc c"])
qed simp

text \<open>A peer is declared down by consecutive failures alone: after any history of probes that ends with an answer
  followed by \<open>n\<close> failures, its counter is \<open>n\<close>, it is down exactly if it has failed at least once and \<open>n\<close> has
  reached the threshold, the transition is reported at exactly one of those failures, the one that reaches the
  threshold, and no other peer's row has changed.\<close>

theorem peer_down_at_threshold:
  assumes "health_up pid db" "map_of (rd_peers db) pid = Some row"
    and "health_run E thr pid (history @ Some rtt # replicate n None) db = (flags, db')"
  shows "drop (Suc (length history)) flags = map (\<lambda>k. k = max 1 (nat thr)) [1..<Suc n]
    \<and> (\<exists>row'. map_of (rd_peers db') pid = Some row' \<and> pe_consecutive_failures row' = int n
         \<and> pe_status row' = (if 0 < n \<and> int n \<ge> thr then ''down'' else ''active''))
    \<and> (\<forall>q. q \<noteq> pid \<longrightarrow> map_of (rd_peers db') q = map_of (rd_peers db) q)"
proof -
  obtain bs1 db1 where h: "health_run E thr pid history db = (bs1, db1)" by fastforce
  from health_run_keeps [OF h assms(1,2)] obtain row1 where r1: "health_up pid db1" "map_of (rd_peers db1) pid = Some row1" by blast
  obtain b db2 where s: "record_peer_health E thr pid (Some rtt) db1 = (b, db2)" by fastforce
  from health_step [OF s r1] obtain row2 where r2: "health_up pid db2" "map_of (rd_peers db2) pid = Some row2"
    "pe_consecutive_failures row2 = int 0" "pe_status row2 = (if 0 < (0 :: nat) \<and> int 0 \<ge> thr then ''down'' else ''active'')" by auto
  obtain bs2 db3 where q: "health_run E thr pid (replicate n None) db2 = (bs2, db3)" by fastforce
  have "flags = bs1 @ b # bs2" "db' = db3" using assms(3) h s q by (auto simp: health_run_append)
  moreover have "length bs1 = length history" using health_run_length [of E thr pid history db] h by simp
  ultimately show ?thesis
    using silence [OF q r2] health_run_keeps [OF assms(3,1,2)] by simp
qed

definition demo_peers :: "int repair_db" where
  "demo_peers =
     \<lparr>rd_peers = [(''ann'', \<lparr>pe_addr = ''a:1'', pe_status = ''active'', pe_zone = None, pe_reliability_score = 50, pe_rtt_ms = None,
                            pe_consecutive_failures = 0, pe_last_seen = None, pe_country = None\<rparr>),
                  (''bob'', \<lparr>pe_addr = ''b:1'', pe_status = ''down'', pe_zone = None, pe_reliability_score = 9, pe_rtt_ms = Some 3,
                            pe_consecutive_failures = 7, pe_last_seen = None, pe_country = None\<rparr>)],
      rd_public_ip = None, rd_last_rebalance_at = None, rd_events = [], rd_jobs = [], rd_now = 100, rd_ok = (\<lambda>_. True)\<rparr>"

text \<open>One failure, an answer, three failures, at a threshold of two: the second failure in a row reports the transition.\<close>

theorem peer_down_at_threshold_witness:
  "case health_run demo_env 2 ''ann'' [None, Some 4, None, None, None] demo_peers of (flags, db') \<Rightarrow>
     drop 2 flags = [False, True, False] \<and> map_option pe_status (map_of (rd_peers db') ''ann'') = Some ''down''
     \<and> map_of (rd_peers db') ''bob'' = map_of (rd_peers demo_peers) ''bob''"
proof -
  obtain flags db' where r: "health_run demo_env 2 ''ann'' [None, Some 4, None, None, None] demo_peers = (flags, db')" by fastforce
  have e: "[None, Some 4, None, None, None] = [None] @ Some (4 :: int) # replicate 3 None" by (simp add: eval_nat_numeral)
  have up: "health_up ''ann'' demo_peers" by (simp add: health_up_def demo_peers_def)
  obtain row where row: "map_of (rd_peers demo_peers) ''ann'' = Some row" by (simp add: demo_peers_def)
  from peer_down_at_threshold [OF up row r [unfolded e]]
  show ?thesis unfolding r by (auto simp: upt_rec eval_nat_numeral)
qed

section \<open>The buffer of pending repairs\<close>

lemma map_sort_key: "map f (sort_key f xs) = sort (map f xs)"
  by (rule properties_for_sort [symmetric]) simp_all

lemma insort_snoc:
  assumes "sorted ys" "\<And>y. y \<in> set ys \<Longrightarrow> y \<le> x"
  shows "insort x ys = ys @ [x :: nat]"
proof -
  have "sort (x # ys) = ys @ [x]" using assms by (intro properties_for_sort) (auto simp: sorted_append)
  then show ?thesis using assms(1) by (simp add: sorted_sort_id)
qed

lemma take_insort_take:
  assumes "sorted (zs :: nat list)"
  shows "take M (insort x zs) = take M (insort x (take M zs))"
  using assms
proof (induction zs arbitrary: M)
  case (Cons z zs)
  then show ?case by (cases M) (auto simp: take_Cons')
qed simp

lemma insort_last:
  assumes "sorted ys" "ys \<noteq> []" "(x :: nat) < last ys"
  shows "insort x ys = insort x (butlast ys) @ [last ys]"
  using assms
proof (induction ys)
  case (Cons y ys)
  show ?case
  proof (cases "ys = []")
    case False
    then have "last ys \<in> set ys" by simp
    then have "y \<le> last ys" using Cons.prems(1) by auto
    then show ?thesis using Cons False by auto
  qed (use Cons.prems in auto)
qed simp

lemma sorted_le_last: "sorted ys \<Longrightarrow> y \<in> set ys \<Longrightarrow> y \<le> last (ys :: nat list)"
  by (induction ys) (auto split: if_splits)

lemma take_insort_full:
  assumes "sorted ys" "length ys = M" "0 < M"
  shows "take M (insort (x :: nat) ys) = (if x < last ys then insort x (butlast ys) else ys)"
proof (cases "x < last ys")
  case True
  moreover have "ys \<noteq> []" using assms by auto
  ultimately have "insort x ys = insort x (butlast ys) @ [last ys]" using assms(1) by (intro insort_last)
  moreover have "length (insort x (butlast ys)) = M" using assms by simp
  ultimately show ?thesis using True by simp
next
  case False
  then have "insort x ys = ys @ [x]" using assms(1) sorted_le_last [of ys] by (intro insort_snoc) force+
  then show ?thesis using False assms(2) by simp
qed

definition margins :: "degraded list \<Rightarrow> nat list" where
  "margins ds = sort (map dg_margin ds)"

lemma margins_Cons: "margins (d # ds) = insort (dg_margin d) (margins ds)"
  by (simp add: margins_def)

lemma margins_perm: "mset xs = mset ys \<Longrightarrow> margins xs = margins ys"
  unfolding margins_def by (rule properties_for_sort) simp_all

lemma margins_sorted [simp]: "sorted (margins ds)" "length (margins ds) = length ds"
  by (simp_all add: margins_def)

lemma margins_pop: "margins (heap_pop ds) = butlast (margins ds)"
proof -
  have "map dg_margin (heap_pop ds) = butlast (margins ds)"
    by (simp add: heap_pop_def map_butlast map_sort_key margins_def)
  moreover have "sorted (butlast (margins ds))" by (simp add: sorted_butlast)
  ultimately show ?thesis unfolding margins_def by (simp add: sorted_sort_id)
qed

lemma peek_margin: "ds \<noteq> [] \<Longrightarrow> \<exists>w. heap_peek ds = Some w \<and> dg_margin w = last (margins ds)"
proof -
  assume "ds \<noteq> []"
  then have ne: "sort_key dg_margin ds \<noteq> []" by (metis length_sort length_0_conv)
  then have "dg_margin (last (sort_key dg_margin ds)) = last (margins ds)"
    by (simp add: margins_def last_map [symmetric] map_sort_key)
  then show ?thesis using \<open>ds \<noteq> []\<close> by (auto simp: heap_peek_def split: list.splits)
qed

lemma push_margins:
  assumes "push_pending pending d rep = (pending', rep')" "length pending \<le> MAX_PENDING_REPAIRS"
  shows "margins pending' = take MAX_PENDING_REPAIRS (insort (dg_margin d) (margins pending))"
    "length pending' = min MAX_PENDING_REPAIRS (Suc (length pending))"
    "rr_chunks_deferred rep' + length pending' = rr_chunks_deferred rep + Suc (length pending)"
    "mset pending' \<subseteq># add_mset d (mset pending)"
proof -
  have sub: "mset (heap_pop ds) \<subseteq># mset ds" for ds
  proof -
    have "mset (butlast xs) \<subseteq># mset xs" for xs :: "degraded list" by (cases xs rule: rev_cases) auto
    from this [of "sort_key dg_margin ds"] show ?thesis by (simp add: heap_pop_def)
  qed
  have "(margins pending' = take MAX_PENDING_REPAIRS (insort (dg_margin d) (margins pending)))
    \<and> length pending' = min MAX_PENDING_REPAIRS (Suc (length pending))
    \<and> rr_chunks_deferred rep' + length pending' = rr_chunks_deferred rep + Suc (length pending)
    \<and> mset pending' \<subseteq># add_mset d (mset pending)"
  proof (cases "length pending < MAX_PENDING_REPAIRS")
    case True
    then show ?thesis using assms(1) by (auto simp: push_pending_def margins_Cons)
  next
    case False
    then have full: "length pending = MAX_PENDING_REPAIRS" using assms(2) by simp
    have pos: "0 < MAX_PENDING_REPAIRS" by (simp add: MAX_PENDING_REPAIRS_def)
    then obtain w where w: "heap_peek pending = Some w" "dg_margin w = last (margins pending)"
      using peek_margin [of pending] full by force
    note t = take_insort_full [of "margins pending" MAX_PENDING_REPAIRS "dg_margin d", simplified, OF full pos]
    have len: "length (heap_pop pending) = MAX_PENDING_REPAIRS - 1" using full by (simp add: heap_pop_def)
    show ?thesis
      using assms(1) False w t full len pos sub [of pending]
      by (auto simp: push_pending_def margins_Cons margins_pop subset_mset.add_increasing)
  qed
  then show "margins pending' = take MAX_PENDING_REPAIRS (insort (dg_margin d) (margins pending))"
    "length pending' = min MAX_PENDING_REPAIRS (Suc (length pending))"
    "rr_chunks_deferred rep' + length pending' = rr_chunks_deferred rep + Suc (length pending)"
    "mset pending' \<subseteq># add_mset d (mset pending)" by blast+
qed

fun push_all :: "degraded list \<Rightarrow> degraded list \<times> repair_report \<Rightarrow> degraded list \<times> repair_report" where
  "push_all [] st = st"
| "push_all (d # ds) (pending, rep) = push_all ds (push_pending pending d rep)"

text \<open>The buffer keeps the most endangered chunks: after pushing any degraded chunks, it holds at most
  \<open>MAX_PENDING_REPAIRS\<close> of them, their margins are the smallest of all margins pushed, and every
  chunk that is not in it has been counted as deferred.\<close>

theorem pending_keeps_worst:
  "case push_all ds ([], rep) of (pending, rep') \<Rightarrow>
     sort (map dg_margin pending) = take MAX_PENDING_REPAIRS (sort (map dg_margin ds))
     \<and> mset pending \<subseteq># mset ds
     \<and> rr_chunks_deferred rep' - rr_chunks_deferred rep = length ds - MAX_PENDING_REPAIRS"
proof -
  have "case push_all ds (pending, rep) of (pending', rep') \<Rightarrow>
      margins pending' = take MAX_PENDING_REPAIRS (margins (ds @ before))
      \<and> mset pending' \<subseteq># mset (ds @ before)
      \<and> rr_chunks_deferred rep' + length pending' = rr_chunks_deferred rep + length pending + length ds"
    if "margins pending = take MAX_PENDING_REPAIRS (margins before)" "mset pending \<subseteq># mset before" for before pending
    using that
  proof (induction ds arbitrary: pending rep before)
    case (Cons d ds)
    obtain pending1 rep1 where p: "push_pending pending d rep = (pending1, rep1)" by fastforce
    have le: "length pending \<le> MAX_PENDING_REPAIRS"
      using arg_cong [OF Cons.prems(1), of length] by simp
    note push = push_margins [OF p le]
    have "margins pending1 = take MAX_PENDING_REPAIRS (margins (d # before))"
      using push(1) Cons.prems(1) take_insort_take [of "margins before"] by (simp add: margins_Cons)
    moreover have "mset pending1 \<subseteq># mset (d # before)"
      using push(4) Cons.prems(2) by (simp add: subset_mset.order_trans)
    moreover have "margins (ds @ d # before) = margins ((d # ds) @ before)" by (rule margins_perm) simp
    ultimately show ?case
      using Cons.IH [of pending1 "d # before" rep1] push(3) p by (auto split: prod.splits)
  qed (simp split: prod.splits)
  from this [of "[]" "[]"] show ?thesis
    by (auto simp: margins_def split: prod.splits dest!: arg_cong [of "sort _" _ length])
qed

section \<open>The choice of a target\<close>

text \<open>What \<open>total_cmp\<close> guarantees: a strict weak order in which only equal values are incomparable is not needed, a
  strict weak order is.\<close>

definition weak_order :: "('f \<Rightarrow> 'f \<Rightarrow> bool) \<Rightarrow> bool" where
  "weak_order lt \<longleftrightarrow>
     (\<forall>a. \<not> lt a a) \<and> (\<forall>a b c. lt a b \<longrightarrow> lt b c \<longrightarrow> lt a c)
     \<and> (\<forall>a b c. \<not> lt a b \<longrightarrow> \<not> lt b c \<longrightarrow> \<not> lt a c)"

definition ranking :: "('a \<Rightarrow> 'a \<Rightarrow> bool) \<Rightarrow> bool" where
  "ranking better \<longleftrightarrow>
     (\<forall>a. \<not> better a a) \<and> (\<forall>a b c. better a b \<longrightarrow> better b c \<longrightarrow> better a c)
     \<and> (\<forall>a b. a \<noteq> b \<longrightarrow> better a b \<or> better b a)"

definition pick :: "('a \<Rightarrow> 'a \<Rightarrow> bool) \<Rightarrow> 'a \<Rightarrow> 'a list \<Rightarrow> 'a" where
  "pick better = foldl (\<lambda>best c. if better c best then c else best)"

lemma pick_best:
  assumes "ranking better"
  shows "pick better a xs \<in> insert a (set xs) \<and> (\<forall>c \<in> insert a (set xs). c \<noteq> pick better a xs \<longrightarrow> better (pick better a xs) c)"
proof (induction xs arbitrary: a)
  case (Cons x xs)
  have trans: "better u v \<Longrightarrow> better v w \<Longrightarrow> better u w" and total: "u \<noteq> v \<Longrightarrow> better u v \<or> better v u" for u v w
    using assms unfolding ranking_def by blast+
  let ?b = "if better x a then x else a"
  let ?p = "pick better ?b xs"
  have IH: "?p \<in> insert ?b (set xs)" "\<And>c. c \<in> insert ?b (set xs) \<Longrightarrow> c \<noteq> ?p \<Longrightarrow> better ?p c"
    using Cons.IH [of ?b] by blast+
  have "better ?p c" if "c \<in> insert a (set (x # xs))" "c \<noteq> ?p" for c
  proof (cases "c \<in> insert ?b (set xs)")
    case False
    then have "better ?b c" using that(1) total [of x a] by (auto split: if_splits)
    then show ?thesis using IH(2) [of ?b] trans [of ?p ?b c] by (cases "?b = ?p") auto
  qed (use IH(2) that(2) in blast)
  moreover have "?p \<in> insert a (set (x # xs))" using IH(1) by (auto split: if_splits)
  moreover have "pick better a (x # xs) = ?p" by (simp add: pick_def)
  ultimately show ?case by simp
qed (simp add: pick_def)

lemma pick_set:
  assumes "ranking better" "set xs = set ys"
  shows "pick better a xs = pick better a ys"
proof (rule ccontr)
  assume ne: "pick better a xs \<noteq> pick better a ys"
  note x = pick_best [OF assms(1), of a xs] and y = pick_best [OF assms(1), of a ys]
  have "better (pick better a xs) (pick better a ys)"
    using x conjunct1 [OF y] ne ne [symmetric] unfolding assms(2) by blast
  moreover have "better (pick better a ys) (pick better a xs)"
    using y conjunct1 [OF x] ne ne [symmetric] unfolding assms(2) by blast
  ultimately show False using assms(1) unfolding ranking_def by blast
qed

definition target_score :: "('f, 'w) repair_ctx \<Rightarrow> (string \<rightharpoonup> 'f) \<Rightarrow> string \<Rightarrow> 'f" where
  "target_score C reliability c =
     (if c = ''local'' then LOCAL_RELIABILITY (rc_env C) else coalesce (reliability c) (f64_of_nat (rc_env C) 0))"

text \<open>Being under the cap first and being least loaded first are the same order.\<close>

lemma better_target_iff:
  "better_target C n rel a b \<longleftrightarrow>
     n a < n b
     \<or> n a = n b \<and> (rc_total_lt C (target_score C rel b) (target_score C rel a)
          \<or> \<not> rc_total_lt C (target_score C rel a) (target_score C rel b) \<and> a < b)"
  unfolding better_target_def target_score_def [symmetric] Let_def by (cases "n a" "n b" rule: linorder_cases) auto

lemma better_ranking:
  assumes "weak_order (rc_total_lt C)"
  shows "ranking (better_target C n rel)"
  unfolding ranking_def
proof (intro conjI allI impI)
  let ?lt = "\<lambda>a b. rc_total_lt C (target_score C rel a) (target_score C rel b)"
  have ir: "\<not> ?lt a a" and tr: "?lt a b \<Longrightarrow> ?lt b c \<Longrightarrow> ?lt a c" and nt: "\<not> ?lt a b \<Longrightarrow> \<not> ?lt b c \<Longrightarrow> \<not> ?lt a c" for a b c
    using assms unfolding weak_order_def by blast+
  show "\<not> better_target C n rel a a" for a by (simp add: better_target_iff ir)
  show "better_target C n rel a b \<or> better_target C n rel b a" if "a \<noteq> b" for a b
    using that unfolding better_target_iff by (cases "n a" "n b" rule: linorder_cases) auto
  show "better_target C n rel a c" if ab: "better_target C n rel a b" and bc: "better_target C n rel b c" for a b c
  proof (cases "n a < n c")
    case False
    then have eq: "n a = n b" "n b = n c" using ab bc unfolding better_target_iff by auto
    then have "?lt b a \<or> \<not> ?lt a b \<and> a < b" "?lt c b \<or> \<not> ?lt b c \<and> b < c"
      using ab bc unfolding better_target_iff by auto
    then have "?lt c a \<or> \<not> ?lt a c \<and> a < c"
      using tr [of c b a] nt [of b c a] nt [of c a b] nt [of a b c] less_trans [of a b c] by argo
    then show ?thesis using eq unfolding better_target_iff by simp
  qed (simp add: better_target_iff)
qed

text \<open>A rebuilt shard goes to this node or to a peer that answered, to one that holds as few shards of the chunk as
  any of them; so it goes above the cap of \<open>PARITY_SHARDS\<close> only if all of them are at the cap. Which one does not
  depend on the order in which the hash map lists the peers.\<close>

theorem target_spreads:
  assumes "weak_order (rc_total_lt C)"
  shows "choose_target C n reachable rel \<in> insert ''local'' (set (map fst reachable))
    \<and> (\<forall>c \<in> insert ''local'' (set (map fst reachable)). n (choose_target C n reachable rel) \<le> n c)
    \<and> (\<forall>reachable'. set (map fst reachable') = set (map fst reachable) \<longrightarrow>
         choose_target C n reachable' rel = choose_target C n reachable rel)"
proof -
  note r = better_ranking [OF assms, of n rel]
  have c: "choose_target C n xs rel = pick (better_target C n rel) ''local'' (map fst xs)" for xs
    by (simp add: choose_target_def pick_def)
  have "n (choose_target C n reachable rel) \<le> n c" if "c \<in> insert ''local'' (set (map fst reachable))" for c
  proof (cases "c = choose_target C n reachable rel")
    case False
    then have "better_target C n rel (choose_target C n reachable rel) c"
      using pick_best [OF r, of "''local''" "map fst reachable"] that unfolding c by blast
    then show ?thesis by (auto simp: better_target_iff)
  qed simp
  moreover have "choose_target C n reachable rel \<in> insert ''local'' (set (map fst reachable))"
    using pick_best [OF r, of "''local''" "map fst reachable"] unfolding c by blast
  moreover have "choose_target C n reachable' rel = choose_target C n reachable rel"
    if "set (map fst reachable') = set (map fst reachable)" for reachable'
    unfolding c by (rule pick_set [OF r that])
  ultimately show ?thesis by blast
qed

definition no_network :: "string \<Rightarrow> 'w link" where
  "no_network addr =
     \<lparr>ln_connect = (\<lambda>w. (Err (InvalidData ''no route''), w)), ln_exchange = (\<lambda>m w. (Err (InvalidData ''no route''), w))\<rparr>"

definition lone_ctx :: "(int, unit) repair_ctx" where
  "lone_ctx =
     \<lparr>rc_env = demo_env, rc_total_lt = (<), rc_root = [''data''],
      rc_ident = \<lparr>id_data_key = [], id_manifest_key_hex = [], id_peer_id = ''me''\<rparr>, rc_port = 4040,
      rc_net = no_network, rc_rng = (\<lambda>_. None), rc_rtt = (\<lambda>_. 0), rc_repair_interval_secs = 600, rc_peer_down_threshold = 5\<rparr>"

lemma lone_weak_order: "weak_order (rc_total_lt lone_ctx)"
  by (auto simp: lone_ctx_def weak_order_def)

theorem target_spreads_witness:
  "weak_order (rc_total_lt lone_ctx)
   \<and> (let n = (\<lambda>c. if c = ''bob'' then 3 else 4) in n (choose_target lone_ctx n [(''ann'', ''a:1''), (''bob'', ''b:1'')] Map.empty) \<le> 3)"
proof -
  let ?n = "\<lambda>c. if c = ''bob'' then 3 else (4 :: nat)" and ?r = "[(''ann'', ''a:1''), (''bob'', ''b:1'')]"
  have "\<forall>c \<in> insert ''local'' (set (map fst ?r)). ?n (choose_target lone_ctx ?n ?r Map.empty) \<le> ?n c"
    using target_spreads [OF lone_weak_order, of ?n ?r Map.empty] by blast
  then have "?n (choose_target lone_ctx ?n ?r Map.empty) \<le> ?n ''bob''" by (rule bspec) simp
  then have "?n (choose_target lone_ctx ?n ?r Map.empty) \<le> 3" by (simp only: refl if_True)
  then show ?thesis using lone_weak_order unfolding Let_def by blast
qed

end
