(* ===== verification/RepairProps.thy ===== *)
theory RepairProps
  imports RepairLaws
begin

text \<open>
  What a repair does to shards: whatever the peers answer, only the original bytes of a lost shard are ever stored or sent
  again; and a node on its own restores every lost shard of a chunk that can still be rebuilt.
\<close>

section \<open>Originals\<close>

text \<open>\<open>B\<close> holds every byte string the node may meet: what its disk holds and what any peer ever answers. Among them, the hash of
  a shard of the chunk belongs to that shard alone.\<close>

definition hash_binds :: "'f env \<Rightarrow> bytes set \<Rightarrow> bytes list \<Rightarrow> bool" where
  "hash_binds E B shards \<longleftrightarrow>
     (\<forall>i < length shards. shard_hash E (shards ! i) \<noteq> []
        \<and> (\<forall>b \<in> B. shard_hash E b = shard_hash E (shards ! i) \<longrightarrow> b = shards ! i))"

definition delivers :: "(string \<Rightarrow> 'w link) \<Rightarrow> bytes set \<Rightarrow> bool" where
  "delivers net B \<longleftrightarrow> (\<forall>a m w f b w'. ln_exchange (net a) m w = (Ok (ShardData f b), w') \<longrightarrow> b \<in> B)"

lemma deliversD: "delivers net B \<Longrightarrow> ln_exchange (net a) m w = (Ok (ShardData f b), w') \<Longrightarrow> b \<in> B"
  unfolding delivers_def by blast

definition disk_in :: "file_path \<Rightarrow> disk \<Rightarrow> bytes set \<Rightarrow> bool" where
  "disk_in root D B \<longleftrightarrow> (\<forall>f b. shard_bytes root D f = Some b \<longrightarrow> b \<in> B)"

definition recoverable :: "'f env \<Rightarrow> bytes \<Rightarrow> bytes list \<Rightarrow> bool" where
  "recoverable E cipher shards \<longleftrightarrow>
     encode E cipher = Ok shards \<and> length cipher < 2 ^ 63
     \<and> rs_recovers E DATA_SHARDS PARITY_SHARDS (take DATA_SHARDS shards) (drop DATA_SHARDS shards)"

text \<open>A degraded chunk whose rows describe the shards of a sealed buffer.\<close>

definition genuine :: "'f env \<Rightarrow> bytes \<Rightarrow> bytes list \<Rightarrow> degraded \<Rightarrow> bool" where
  "genuine E cipher shards d \<longleftrightarrow>
     recoverable E cipher shards \<and> c_cipher_len (dg_chunk d) = int (length cipher)
     \<and> (\<forall>i < TOTAL_SHARDS. \<forall>s. dg_shard_at d ! i = Some s \<longrightarrow> s_hash s = shard_hash E (shards ! i))"

abbreviation held_at :: "nat set \<Rightarrow> bytes list \<Rightarrow> bytes option list" where
  "held_at H shards \<equiv> map (\<lambda>i. if i \<in> H then Some (shards ! i) else None) [0..<TOTAL_SHARDS]"

lemma recoverable_length: "recoverable E cipher shards \<Longrightarrow> length shards = TOTAL_SHARDS"
  using reconstruct_subset [of E cipher shards "{..<TOTAL_SHARDS}"] by (simp add: recoverable_def DATA_SHARDS_def TOTAL_SHARDS_def PARITY_SHARDS_def)

lemma regen_held:
  assumes "recoverable E cipher shards" "H \<subseteq> {..<TOTAL_SHARDS}" "DATA_SHARDS \<le> card H"
  shows "regen_chunk_shards E (held_at H shards) (usize_of_i64 (int (length cipher))) = Ok shards"
proof -
  have "usize_of_i64 (int (length cipher)) = length cipher"
    using assms(1) by (simp add: recoverable_def usize_of_i64_def unat_of_nat)
  then show ?thesis
    using assms reconstruct_subset [of E cipher shards H] by (simp add: regen_chunk_shards_def recoverable_def)
qed

lemma fetch_shard_frame: "fetch_shard C reachable s S = (r, S') \<Longrightarrow> S' = S\<lparr>si_net := si_net S'\<rparr>"
  by (auto simp: fetch_shard_def Let_def split: if_splits option.splits prod.splits result.splits p2p_message.splits)

lemma fetch_shard_met:
  assumes "fetch_shard C reachable s S = (Some b, S')" "delivers (rc_net C) B" "disk_in (rc_root C) (site_disk S) B"
  shows "b \<in> B \<and> verify_hash (rc_env C) b (s_hash s)"
proof (cases "s_location s = ''local''")
  case True
  then have "ok (store_read (rc_root C) (site_disk S) (s_fragment_id s)) = Some b" "verify_hash (rc_env C) b (s_hash s)"
    using assms(1) by (auto simp: fetch_shard_def Let_def bind_eq_Some_conv read_local_def split: if_splits)
  then show ?thesis using assms(3)
    by (cases "store_read (rc_root C) (site_disk S) (s_fragment_id s)") (auto simp: disk_in_def store_read_Ok)
next
  case False
  then obtain a f w where "request (rc_net C a) (GetShard (s_fragment_id s)) (si_net S) = (Ok (ShardData f b), w)"
    "verify_hash (rc_env C) b (s_hash s)"
    using assms(1) by (auto simp: fetch_shard_def Let_def split: if_splits option.splits prod.splits result.splits p2p_message.splits)
  then show ?thesis using assms(2) by (auto simp: request_def sbind_Ok_iff dest: deliversD)
qed

lemma fetch_shard_original:
  assumes "fetch_shard C reachable s S = (Some b, S')" "delivers (rc_net C) B" "disk_in (rc_root C) (site_disk S) B"
    and "hash_binds (rc_env C) B shards" "i < length shards" "s_hash s = shard_hash (rc_env C) (shards ! i)"
  shows "b = shards ! i"
  using fetch_shard_met [OF assms(1-3)] assms(4-6) by (auto simp: hash_binds_def verify_hash_def)

lemma fetch_live_held:
  assumes "fetch_live C reachable d is got (held_at H shards) S = (got', held', S')"
    and "genuine (rc_env C) cipher shards d" "hash_binds (rc_env C) B shards" "delivers (rc_net C) B"
    and "disk_in (rc_root C) (site_disk S) B" "distinct is" "set is \<subseteq> {..<TOTAL_SHARDS}" "H \<subseteq> {..<TOTAL_SHARDS}" "set is \<inter> H = {}" "got = card H"
  shows "\<exists>H'. H \<subseteq> H' \<and> H' \<subseteq> H \<union> set is \<and> held' = held_at H' shards \<and> got' = card H'"
  using assms(1,5-)
proof (induction "is" arbitrary: got H S)
  case (Cons i "is")
  have len: "length shards = TOTAL_SHARDS" using assms(2) recoverable_length by (auto simp: genuine_def)
  have i: "i < TOTAL_SHARDS" "i \<notin> H" using Cons.prems by auto
  have skip: ?case if "fetch_live C reachable d is got (held_at H shards) S1 = (got', held', S')" "disk_in (rc_root C) (site_disk S1) B" for S1
  proof -
    from Cons.IH [OF that] Cons.prems obtain H' where "H \<subseteq> H'" "H' \<subseteq> H \<union> set is" "held' = held_at H' shards" "got' = card H'"
      by auto
    then show ?thesis by (intro exI [of _ H']) auto
  qed
  show ?case
  proof (cases "got \<ge> DATA_SHARDS \<or> dg_states d ! i \<noteq> Some Live \<or> dg_shard_at d ! i = None")
    case True
    then show ?thesis using Cons.prems(1) skip [OF _ Cons.prems(2)] Cons.prems(7)
      by (auto split: if_splits option.splits shard_state.splits)
  next
    case False
    then obtain s where s: "dg_states d ! i = Some Live" "dg_shard_at d ! i = Some s" "\<not> got \<ge> DATA_SHARDS" by auto
    obtain r S1 where f: "fetch_shard C reachable s S = (r, S1)" by fastforce
    have "site_disk S1 = site_disk S" using arg_cong [OF fetch_shard_frame [OF f], of site_disk] by (simp add: site_disk_def)
    then have B1: "disk_in (rc_root C) (site_disk S1) B" using Cons.prems(2) by simp
    show ?thesis
    proof (cases r)
      case None
      then show ?thesis using Cons.prems(1) s f skip [OF _ B1] by simp
    next
      case (Some b)
      have "s_hash s = shard_hash (rc_env C) (shards ! i)" using assms(2) s(2) i by (simp add: genuine_def)
      then have b: "b = shards ! i"
        using fetch_shard_original [OF f [unfolded Some] assms(4) Cons.prems(2) assms(3)] i len by simp
      have upd: "(held_at H shards)[i := Some b] = held_at (insert i H) shards"
        using i b by (auto intro!: nth_equalityI simp: nth_list_update)
      have fin: "finite H" using Cons.prems(5) finite_subset by blast
      have "fetch_live C reachable d is (Suc got) (held_at (insert i H) shards) S1 = (got', held', S')"
        using Cons.prems(1) s f Some upd by simp
      from Cons.IH [OF this B1] Cons.prems i fin obtain H' where "insert i H \<subseteq> H'" "H' \<subseteq> insert i H \<union> set is"
        "held' = held_at H' shards" "got' = card H'"
        by auto
      then show ?thesis by (intro exI [of _ H']) auto
    qed
  qed
qed auto

text \<open>Either too few shards could be fetched, or the shards placed are the originals.\<close>

lemma repair_chunk_places:
  assumes "genuine (rc_env C) cipher shards d" "hash_binds (rc_env C) B shards" "delivers (rc_net C) B"
    and "disk_in (rc_root C) (site_disk S) B"
    and "fetch_live C (pv_reachable view) d [0..<TOTAL_SHARDS] 0 (replicate TOTAL_SHARDS None) S = (got, held, S1)"
  shows "repair_chunk C view d (S, rep) =
    (if got < DATA_SHARDS then (S1, rep\<lparr>rr_chunks_unrepairable := rr_chunks_unrepairable rep + 1\<rparr>)
     else case place_missing C view d shards (dg_missing d) (locations_kept d) False (S1, rep) of
            (repaired_any, S2, rep2) \<Rightarrow>
              (S2, if repaired_any then rep2\<lparr>rr_chunks_repaired := rr_chunks_repaired rep2 + 1\<rparr> else rep2))"
proof -
  have "replicate TOTAL_SHARDS None = held_at {} shards" by (simp add: map_replicate_const)
  from fetch_live_held [OF assms(5) [unfolded this] assms(1-4)] obtain H where
    H: "H \<subseteq> {..<TOTAL_SHARDS}" "held = held_at H shards" "got = card H" by (auto simp: lessThan_atLeast0)
  have "regen_chunk_shards (rc_env C) held (usize_of_i64 (c_cipher_len (dg_chunk d))) = Ok shards" if "\<not> got < DATA_SHARDS"
    using regen_held [of "rc_env C" cipher shards H] that H assms(1) by (simp add: genuine_def)
  then show ?thesis using assms(5) by (simp add: repair_chunk_def)
qed

section \<open>What goes over the network\<close>

text \<open>A network that records every message sent: the address, the message and what came of it.\<close>

type_synonym sent = "string \<times> p2p_message \<times> (p2p_message, io_error) result"

definition spy :: "(string \<Rightarrow> 'w link) \<Rightarrow> string \<Rightarrow> ('w \<times> sent list) link" where
  "spy net a =
     \<lparr>ln_connect = (\<lambda>(w, log). case ln_connect (net a) w of (r, w') \<Rightarrow> (r, w', log)),
      ln_exchange = (\<lambda>m (w, log). case ln_exchange (net a) m w of (r, w') \<Rightarrow> (r, w', log @ [(a, m, r)]))\<rparr>"

definition sent_only :: "sent list \<Rightarrow> (p2p_message \<Rightarrow> bool) \<Rightarrow> 'w \<times> sent list \<Rightarrow> bool" where
  "sent_only log P W \<longleftrightarrow> (\<exists>ms. snd W = log @ ms \<and> list_all (\<lambda>(a, m, r). P m) ms)"

lemma sent_only_refl [simp]: "sent_only (snd W) P W"
  by (simp add: sent_only_def)

lemma sent_only_mono: "sent_only log P W \<Longrightarrow> (\<And>m. P m \<Longrightarrow> Q m) \<Longrightarrow> sent_only log Q W"
  unfolding sent_only_def by (metis (no_types, lifting) case_prod_unfold list_all_iff)

text \<open>The same for a predicate on whole entries of the log.\<close>

definition sent_where :: "sent list \<Rightarrow> (sent \<Rightarrow> bool) \<Rightarrow> 'w \<times> sent list \<Rightarrow> bool" where
  "sent_where log Q W \<longleftrightarrow> (\<exists>ms. snd W = log @ ms \<and> list_all Q ms)"

lemma sent_where_refl [simp]: "sent_where (snd W) Q W"
  by (simp add: sent_where_def)

lemma sent_only_where: "sent_only log P = sent_where log (\<lambda>(a, m, r). P m)"
  by (simp add: fun_eq_iff sent_only_def sent_where_def)

lemma where_connect [preserve]: "preserves (sent_where log Q) (ln_connect (spy net a))"
  by (auto simp: preserves_def spy_def sent_where_def split: prod.splits)

lemma where_exchange [preserve]: "(\<And>r. Q (a, m, r)) \<Longrightarrow> preserves (sent_where log Q) (ln_exchange (spy net a) m)"
  by (fastforce simp: preserves_def spy_def sent_where_def split: prod.splits)

lemma where_request [preserve]: "(\<And>r. Q (a, m, r)) \<Longrightarrow> preserves (sent_where log Q) (request (spy net a) m)"
  unfolding request_def by (intro preserve) auto

lemma where_session:
  assumes "\<And>r. Q (a, m, r)" "\<And>i p n r. Q (a, AuthPing i p n, r)" "\<And>i k s r. Q (a, AuthProof i k s, r)"
  shows "preserves (sent_where log Q) (authenticated_session E rng (spy net a) signer me port m)"
proof -
  have tail: "preserves (sent_where log Q) (case m2 of AuthOk x \<Rightarrow> ln_exchange (spy net a) m | _ \<Rightarrow> slift (Err (InvalidData e)))" for m2 e
    by (cases m2) (auto intro: preserve assms)
  show ?thesis unfolding authenticated_session_def by (intro preserve tail assms)
qed

lemma where_signed:
  assumes "\<And>r. Q (a, m, r)" "\<And>i p n r. Q (a, AuthPing i p n, r)" "\<And>i k s r. Q (a, AuthProof i k s, r)"
  shows "preserves (sent_where log Q) (signed_request E rng ident port (spy net a) m)"
proof -
  have auth: "preserves (sent_where log Q) (authenticated_request E rng (spy net a) signer me port m)" for signer me
  proof (rule preservesI)
    fix W r W'
    assume W: "sent_where log Q W" and r: "authenticated_request E rng (spy net a) signer me port m W = (r, W')"
    obtain r1 W1 where s: "authenticated_session E rng (spy net a) signer me port m W = (r1, W1)" by (rule prod.exhaust)
    have W1: "sent_where log Q W1" using preservesD [OF where_session [of Q, OF assms] W s] .
    have "W' = W1 \<or> (\<exists>r2. request (spy net a) m W1 = (r2, W'))"
      using r s by (auto simp: authenticated_request_def split: result.splits io_error.splits)
    then show "sent_where log Q W'"
      using W1 preservesD [OF where_request [of Q, OF assms(1)] W1] by blast
  qed
  have req: "preserves (sent_where log Q) (request (spy net a) m)" by (rule where_request [of Q, OF assms(1)])
  show ?thesis unfolding signed_request_def by (cases "node_signer E ident") (simp_all add: auth req)
qed

lemma spy_request [preserve]: "P m \<Longrightarrow> preserves (sent_only log P) (request (spy net a) m)"
  unfolding sent_only_where by (rule where_request) simp

lemma spy_session:
  assumes "P m" "\<And>i p n. P (AuthPing i p n)" "\<And>i k s. P (AuthProof i k s)"
  shows "preserves (sent_only log P) (authenticated_session E rng (spy net a) signer me port m)"
  unfolding sent_only_where by (rule where_session) (simp_all add: assms)

lemma spy_signed [preserve]:
  assumes "P m" "\<And>i p n. P (AuthPing i p n)" "\<And>i k s. P (AuthProof i k s)"
  shows "preserves (sent_only log P) (signed_request E rng ident port (spy net a) m)"
  unfolding sent_only_where by (rule where_signed) (simp_all add: assms)

text \<open>Fetching asks for shards and changes nothing else.\<close>

lemma fetch_shard_sends:
  assumes "fetch_shard C reachable s S = (r, S')" "rc_net C = spy net" "\<And>f. P (GetShard f)" "sent_only log P (si_net S)"
  shows "sent_only log P (si_net S') \<and> S' = S\<lparr>si_net := si_net S'\<rparr>"
proof -
  have "S' = S \<or> (\<exists>a r1 w. request (spy net a) (GetShard (s_fragment_id s)) (si_net S) = (r1, w) \<and> S' = S\<lparr>si_net := w\<rparr>)"
    using assms(1,2)
    by (auto simp: fetch_shard_def Let_def split: if_splits option.splits prod.splits result.splits p2p_message.splits)
  then show ?thesis
    using assms(4) preservesD [OF spy_request [of P, OF assms(3)] assms(4)] by auto
qed

lemma fetch_live_sends:
  assumes "fetch_live C reachable d is got held S = (got', held', S')" "rc_net C = spy net" "\<And>f. P (GetShard f)"
    and "sent_only log P (si_net S)"
  shows "sent_only log P (si_net S') \<and> S' = S\<lparr>si_net := si_net S'\<rparr>"
  using assms(1,4)
proof (induction "is" arbitrary: got held S)
  case (Cons i "is")
  show ?case
  proof (cases "got \<ge> DATA_SHARDS \<or> dg_states d ! i \<noteq> Some Live \<or> dg_shard_at d ! i = None")
    case True
    then show ?thesis using Cons by (auto split: if_splits option.splits shard_state.splits)
  next
    case False
    then obtain s where s: "dg_states d ! i = Some Live" "dg_shard_at d ! i = Some s" "\<not> got \<ge> DATA_SHARDS" by auto
    obtain r S1 where f: "fetch_shard C reachable s S = (r, S1)" by fastforce
    note one = fetch_shard_sends [OF f assms(2) assms(3) Cons.prems(2)]
    have "\<exists>g h. fetch_live C reachable d is g h S1 = (got', held', S')"
      using Cons.prems(1) s f by (cases r) auto
    then have "sent_only log P (si_net S') \<and> S' = S1\<lparr>si_net := si_net S'\<rparr>" using Cons.IH one by blast
    then show ?thesis using one by (metis site.surjective site.update_convs(2))
  qed
qed auto

section \<open>What placing does\<close>

definition sends_original :: "string \<Rightarrow> bytes list \<Rightarrow> degraded \<Rightarrow> p2p_message \<Rightarrow> bool" where
  "sends_original me shards d m \<longleftrightarrow>
     \<not> is_DeleteShard m
     \<and> (is_StoreShard m \<longrightarrow> (\<exists>i \<in> set (dg_missing d). m = StoreShard (missing_fragment d i) me (int i) (shards ! i)))"

lemma sends_original_simps [simp]:
  "sends_original me shards d (GetShard f)" "sends_original me shards d (AuthPing u p n)" "sends_original me shards d (AuthProof u k s)"
  "i \<in> set (dg_missing d) \<Longrightarrow> sends_original me shards d (StoreShard (missing_fragment d i) me (int i) (shards ! i))"
  by (auto simp: sends_original_def)

text \<open>Rows that differ at most in the location, and only for the given fragments.\<close>

definition only_relocated :: "string set \<Rightarrow> manifest \<Rightarrow> manifest \<Rightarrow> bool" where
  "only_relocated F M M' \<longleftrightarrow>
     M' = M\<lparr>m_shards := m_shards M'\<rparr>
     \<and> list_all2 (\<lambda>s s'. s' = s \<or> s_fragment_id s \<in> F \<and> s' = s\<lparr>s_location := s_location s'\<rparr>) (m_shards M) (m_shards M')"

lemma only_relocated_refl [simp]: "only_relocated F M M"
  by (simp add: only_relocated_def list_all2_refl)

lemma only_relocated_set:
  assumes "only_relocated F M M'" "f \<in> F" "set_location f loc M' = (r, M'')"
  shows "only_relocated F M M''"
proof -
  have M'': "m_shards M'' = map (\<lambda>s. if s_fragment_id s = f then s\<lparr>s_location := loc\<rparr> else s) (m_shards M')"
    "M'' = M'\<lparr>m_shards := m_shards M''\<rparr>"
    using assms(3) by (auto simp: set_location_def set_shard_location_def)
  have row: "s'\<lparr>s_location := loc\<rparr> = s\<lparr>s_location := loc\<rparr>" if "s' = s\<lparr>s_location := s_location s'\<rparr>" for s s' :: shard_row
    using arg_cong [OF that, of "s_location_update (\<lambda>_. loc)"] by simp
  have "M' = M\<lparr>m_shards := m_shards M'\<rparr>" using assms(1) by (simp add: only_relocated_def)
  then have "M'' = M\<lparr>m_shards := m_shards M''\<rparr>" using M''(2) by (metis manifest.update_convs(3) manifest.surjective)
  moreover have "list_all2 (\<lambda>s s'. s' = s \<or> s_fragment_id s \<in> F \<and> s' = s\<lparr>s_location := s_location s'\<rparr>) (m_shards M) (m_shards M'')"
    unfolding M''(1) list_all2_map2
    by (rule list_all2_mono [OF conjunct2 [OF assms(1) [unfolded only_relocated_def]]]) (use assms(2) in \<open>auto intro: row\<close>)
  ultimately show ?thesis unfolding only_relocated_def ..
qed

definition restores :: "('f, 'w) repair_ctx \<Rightarrow> bytes list \<Rightarrow> degraded \<Rightarrow> disk \<Rightarrow> disk \<Rightarrow> bool" where
  "restores C shards d D D' \<longleftrightarrow>
     same_faults D D'
     \<and> (\<forall>f. shard_bytes (rc_root C) D' f = shard_bytes (rc_root C) D f
          \<or> (\<exists>i \<in> set (dg_missing d). f = missing_fragment d i \<and> shard_bytes (rc_root C) D' f = Some (shards ! i)))"

lemma restores_refl [simp]: "restores C shards d D D"
  by (simp add: restores_def)

lemma restores_trans:
  assumes "restores C shards d D D1" "restores C shards d D1 D2"
  shows "restores C shards d D D2"
proof -
  have "shard_bytes (rc_root C) D2 f = shard_bytes (rc_root C) D f
      \<or> (\<exists>i \<in> set (dg_missing d). f = missing_fragment d i \<and> shard_bytes (rc_root C) D2 f = Some (shards ! i))" for f
    using spec [OF conjunct2 [OF assms(1) [unfolded restores_def]], of f] spec [OF conjunct2 [OF assms(2) [unfolded restores_def]], of f]
    by (elim disjE) auto
  then show ?thesis using assms same_faults_trans unfolding restores_def by blast
qed

definition no_torn_writes :: "disk \<Rightarrow> bool" where
  "no_torn_writes D \<longleftrightarrow> (\<forall>p. write_fault D p = None)"

lemma store_write_whole:
  assumes "store_write root f b D = (r, D')" "no_torn_writes D"
  shows "shard_bytes root D' f = shard_bytes root D f \<or> shard_bytes root D' f = Some b"
  using assms
  by (cases "is_valid_fragment_id f")
    (auto simp: store_write_invalid store_write_valid shard_bytes_def no_torn_writes_def write_file_def split: option.splits)

lemma place_shard_effect:
  assumes "place_shard C reachable target (missing_fragment d i) (int i) (shards ! i) S = (good, S')"
    and "rc_net C = spy net" "i \<in> set (dg_missing d)" "no_torn_writes (site_disk S)"
    and "sent_only log (sends_original (id_peer_id (rc_ident C)) shards d) (si_net S)"
  shows "sent_only log (sends_original (id_peer_id (rc_ident C)) shards d) (si_net S')
    \<and> restores C shards d (site_disk S) (site_disk S')
    \<and> nd_manifest (si_node S') = nd_manifest (si_node S) \<and> si_db S' = si_db S"
proof (cases "target = ''local''")
  case True
  obtain r D where w: "store_write (rc_root C) (missing_fragment d i) (shards ! i) (site_disk S) = (r, D)" by fastforce
  then have S': "S' = S\<lparr>si_node := (si_node S)\<lparr>nd_disk := D\<rparr>\<rparr>"
    using assms(1) True by (simp add: place_shard_def write_local_def)
  have "restores C shards d (site_disk S) D"
    using store_write_whole [OF w assms(4)] store_write_get(2) [OF w] store_write_faults [OF w] assms(3)
    unfolding restores_def by metis
  then show ?thesis using assms(5) by (simp add: S' site_disk_def)
next
  case False
  then have "S' = S \<or> (\<exists>a r1 w. signed_request (rc_env C) (rc_rng C (si_net S)) (rc_ident C) (rc_port C) (spy net a)
      (StoreShard (missing_fragment d i) (id_peer_id (rc_ident C)) (int i) (shards ! i)) (si_net S) = (r1, w) \<and> S' = S\<lparr>si_net := w\<rparr>)"
    using assms(1,2) by (auto simp: place_shard_def split: option.splits prod.splits result.splits p2p_message.splits)
  then show ?thesis
  proof
    assume "\<exists>a r1 w. signed_request (rc_env C) (rc_rng C (si_net S)) (rc_ident C) (rc_port C) (spy net a)
      (StoreShard (missing_fragment d i) (id_peer_id (rc_ident C)) (int i) (shards ! i)) (si_net S) = (r1, w) \<and> S' = S\<lparr>si_net := w\<rparr>"
    then obtain a r1 w where r: "signed_request (rc_env C) (rc_rng C (si_net S)) (rc_ident C) (rc_port C) (spy net a)
      (StoreShard (missing_fragment d i) (id_peer_id (rc_ident C)) (int i) (shards ! i)) (si_net S) = (r1, w)" "S' = S\<lparr>si_net := w\<rparr>"
      by blast
    have "sent_only log (sends_original (id_peer_id (rc_ident C)) shards d) w"
      by (rule preservesD [OF spy_signed assms(5) r(1)]) (simp_all add: assms(3))
    then show ?thesis using r(2) by (simp add: site_disk_def)
  qed (use assms(5) in simp)
qed

definition pass_ok :: "('f, 'w \<times> sent list) repair_ctx \<Rightarrow> bytes list \<Rightarrow> degraded \<Rightarrow> sent list
    \<Rightarrow> node \<Rightarrow> ('f, 'w \<times> sent list) site \<Rightarrow> bool" where
  "pass_ok C shards d log N S \<longleftrightarrow>
     sent_only log (sends_original (id_peer_id (rc_ident C)) shards d) (si_net S)
     \<and> restores C shards d (nd_disk N) (site_disk S)
     \<and> only_relocated (missing_fragment d ` set (dg_missing d)) (nd_manifest N) (nd_manifest (si_node S))"

lemma place_missing_ok:
  assumes "place_missing C view d shards is n any (S, rep) = (any', S', rep')"
    and "rc_net C = spy net" "set is \<subseteq> set (dg_missing d)" "no_torn_writes (nd_disk N)" "pass_ok C shards d log N S"
  shows "pass_ok C shards d log N S'"
  using assms(1,3,5)
proof (induction "is" arbitrary: n any S rep)
  case (Cons i "is")
  show ?case
  proof (cases "i < length shards")
    case False
    then show ?thesis using Cons by simp
  next
    case True
    let ?t = "choose_target C n (pv_reachable view) (pv_reliability view)"
    obtain good S1 where p: "place_shard C (pv_reachable view) ?t (missing_fragment d i) (int i) (shards ! i) S = (good, S1)" by fastforce
    have torn: "no_torn_writes (site_disk S)"
      using assms(4) Cons.prems(3) by (auto simp: pass_ok_def restores_def no_torn_writes_def same_faults_def)
    have i: "i \<in> set (dg_missing d)" using Cons.prems(2) by simp
    note e = place_shard_effect [OF p assms(2) i torn]
    have S1: "pass_ok C shards d log N S1"
      using e [of log] Cons.prems(3) restores_trans [of C shards d "nd_disk N" "site_disk S" "site_disk S1"]
      by (auto simp: pass_ok_def)
    show ?thesis
    proof (cases good)
      case False
      then show ?thesis using Cons.IH [OF _ _ S1] Cons.prems(1,2) True p by (simp add: Let_def)
    next
      case good: True
      let ?S2 = "S1\<lparr>si_node := snd (on_db (set_location (missing_fragment d i) ?t) (si_node S1))\<rparr>"
      have "only_relocated (missing_fragment d ` set (dg_missing d)) (nd_manifest N) (nd_manifest (si_node ?S2))"
        using S1 only_relocated_set [of _ "nd_manifest N" "nd_manifest (si_node S1)" "missing_fragment d i" ?t] i
        by (auto simp: pass_ok_def on_db_def split: prod.splits)
      moreover have "site_disk ?S2 = site_disk S1"
        by (auto simp: site_disk_def on_db_def split: prod.splits)
      ultimately have ok2: "pass_ok C shards d log N ?S2" using S1 by (simp add: pass_ok_def)
      have "place_missing C view d shards is (n(?t := n ?t + 1)) True
          (?S2, rep\<lparr>rr_shards_replaced := rr_shards_replaced rep + 1\<rparr>) = (any', S', rep')"
        using Cons.prems(1) True p good by (simp add: Let_def)
      from Cons.IH [OF this _ ok2] show ?thesis using Cons.prems(2) by simp
    qed
  qed
qed simp

lemma delivers_spy: "delivers net B \<Longrightarrow> delivers (spy net) B"
  unfolding delivers_def [of "spy net"] by (auto simp: spy_def split: prod.splits dest: deliversD)

text \<open>C20. Repair cannot be poisoned. Take any network, with peers that answer anything they like, and a chunk
  whose rows carry the hashes of its shards, where nothing a peer answers or the disk holds collides with one of
  them. Then every store
  message a repair of the chunk sends carries, for one of the lost shards, its fragment id, its index and exactly its
  original bytes, and it sends no deletion; every shard file it changes holds the original bytes of a lost shard; and in the
  manifest only the locations of lost shards change.\<close>

theorem repair_places_originals:
  assumes "rc_net C = spy net" "genuine (rc_env C) cipher shards d" "hash_binds (rc_env C) B shards" "delivers net B"
    and "disk_in (rc_root C) (nd_disk (si_node S)) B" "no_torn_writes (nd_disk (si_node S))"
    and "repair_chunk C view d (S, rep) = (S', rep')"
  shows "(\<exists>ms. snd (si_net S') = snd (si_net S) @ ms
      \<and> (\<forall>(a, m, r) \<in> set ms. \<not> is_DeleteShard m
           \<and> (is_StoreShard m \<longrightarrow> (\<exists>i \<in> set (dg_missing d).
                m = StoreShard (missing_fragment d i) (id_peer_id (rc_ident C)) (int i) (shards ! i)))))
    \<and> (\<forall>f. shard_bytes (rc_root C) (nd_disk (si_node S')) f = shard_bytes (rc_root C) (nd_disk (si_node S)) f
         \<or> (\<exists>i \<in> set (dg_missing d). f = missing_fragment d i
              \<and> shard_bytes (rc_root C) (nd_disk (si_node S')) f = Some (shards ! i)))
    \<and> only_relocated (missing_fragment d ` set (dg_missing d)) (nd_manifest (si_node S)) (nd_manifest (si_node S'))"
proof -
  obtain got held S1 where f: "fetch_live C (pv_reachable view) d [0..<TOTAL_SHARDS] 0 (replicate TOTAL_SHARDS None) S = (got, held, S1)"
    by (metis prod_cases3)
  let ?log = "snd (si_net S)" and ?N = "si_node S"
  have s1: "sent_only ?log (sends_original (id_peer_id (rc_ident C)) shards d) (si_net S1)" "S1 = S\<lparr>si_net := si_net S1\<rparr>"
    using fetch_live_sends [OF f assms(1), of "sends_original (id_peer_id (rc_ident C)) shards d" ?log] by simp_all
  have node: "si_node S1 = ?N" using arg_cong [OF s1(2), of si_node] by simp
  have ok1: "pass_ok C shards d ?log ?N S1" using s1(1) by (simp add: pass_ok_def site_disk_def node)
  have "delivers (rc_net C) B" using assms(1,4) delivers_spy by simp
  note places = repair_chunk_places [OF assms(2,3) this assms(5) [folded site_disk_def] f]
  have "pass_ok C shards d ?log ?N S'"
  proof (cases "got < DATA_SHARDS")
    case True
    then show ?thesis using assms(7) places ok1 by simp
  next
    case False
    obtain any S2 rep2 where p: "place_missing C view d shards (dg_missing d) (locations_kept d) False (S1, rep) = (any, S2, rep2)"
      by (metis prod_cases3)
    have "pass_ok C shards d ?log ?N S2" by (rule place_missing_ok [OF p assms(1) _ assms(6) ok1]) simp
    moreover have "S' = S2" using assms(7) places False p by simp
    ultimately show ?thesis by simp
  qed
  then show ?thesis
    by (auto simp: pass_ok_def restores_def site_disk_def sent_only_def sends_original_def list_all_iff)
qed

section \<open>A node on its own\<close>

definition sound_disk :: "disk \<Rightarrow> bool" where
  "sound_disk D \<longleftrightarrow> (\<forall>p. mkdir_fault D p = None \<and> write_fault D p = None \<and> read_fault D p = None)"

lemma sound_same: "same_faults D D' \<Longrightarrow> sound_disk D \<Longrightarrow> sound_disk D'"
  by (simp add: sound_disk_def same_faults_def)

lemma sound_read: "sound_disk D \<Longrightarrow> ok (store_read root D f) = shard_bytes root D f"
  by (cases "store_read root D f") (auto simp: sound_disk_def store_read_def shard_path_def shard_bytes_def split: option.splits if_splits)

text \<open>The rows of a chunk that is wholly local, and which of its shards are lost in the eyes of a pass.\<close>

definition local_rows :: "'f env \<Rightarrow> bytes list \<Rightarrow> shard_row list \<Rightarrow> bool" where
  "local_rows E shards rows \<longleftrightarrow>
     length rows = TOTAL_SHARDS \<and> distinct (map s_fragment_id rows)
     \<and> (\<forall>i < TOTAL_SHARDS. s_shard_index (rows ! i) = int i \<and> s_location (rows ! i) = ''local''
          \<and> s_hash (rows ! i) = shard_hash E (shards ! i) \<and> is_valid_fragment_id (s_fragment_id (rows ! i)))"

definition lost :: "file_path \<Rightarrow> scrub_plan \<Rightarrow> bytes list \<Rightarrow> shard_row list \<Rightarrow> disk \<Rightarrow> nat \<Rightarrow> bool" where
  "lost root scrub shards rows D i \<longleftrightarrow>
     (let f = s_fragment_id (rows ! i)
      in shard_bytes root D f = None \<or> due scrub f \<and> shard_bytes root D f \<noteq> Some (shards ! i))"

lemma index_shards_rows:
  assumes "local_rows E shards rows"
  shows "index_shards rows = map Some rows"
proof -
  let ?step = "\<lambda>s acc. let i = usize_of_i64 (s_shard_index s) in if i < TOTAL_SHARDS then acc[i := Some s] else acc"
  have len: "length rows = TOTAL_SHARDS" using assms by (simp add: local_rows_def)
  have "fold ?step (take k rows) (replicate TOTAL_SHARDS None) = map Some (take k rows) @ replicate (TOTAL_SHARDS - k) None"
    if "k \<le> TOTAL_SHARDS" for k
    using that
  proof (induction k)
    case (Suc k)
    have u: "usize_of_i64 (s_shard_index (rows ! k)) = k"
      using assms Suc.prems by (simp add: local_rows_def usize_of_i64_def unat_of_nat TOTAL_SHARDS_def DATA_SHARDS_def PARITY_SHARDS_def)
    have t: "take (Suc k) rows = take k rows @ [rows ! k]" using Suc.prems len by (simp add: take_Suc_conv_app_nth)
    have r: "replicate (TOTAL_SHARDS - k) None = None # replicate (TOTAL_SHARDS - Suc k) None"
      using Suc.prems by (simp add: Suc_diff_Suc flip: replicate_Suc)
    show ?case using Suc len u unfolding t by (simp add: r list_update_append)
  qed simp
  from this [of TOTAL_SHARDS] show ?thesis using len by (simp add: index_shards_def)
qed

lemma classify_local:
  assumes "local_rows (rc_env C) shards rows" "hash_binds (rc_env C) B shards" "length shards = TOTAL_SHARDS" "sound_disk (site_disk S)"
    and "disk_in (rc_root C) (site_disk S) B"
    and "i < TOTAL_SHARDS" "classify_shard C view scrub (rows ! i) (S, rep) = (st, S', rep')"
  shows "st = (if lost (rc_root C) scrub shards rows (site_disk S) i then Lost else Live)
    \<and> si_node S' = si_node S \<and> rr_chunks_repaired rep' = rr_chunks_repaired rep"
proof -
  let ?f = "s_fragment_id (rows ! i)" and ?D = "site_disk S"
  have loc: "s_location (rows ! i) = ''local''" "s_hash (rows ! i) = shard_hash (rc_env C) (shards ! i)"
    using assms(1,6) by (simp_all add: local_rows_def)
  have bind: "shard_hash (rc_env C) (shards ! i) \<noteq> []"
    "b \<in> B \<Longrightarrow> shard_hash (rc_env C) b = shard_hash (rc_env C) (shards ! i) \<Longrightarrow> b = shards ! i" for b
    using assms(2,3,6) unfolding hash_binds_def by auto
  have v: "(read_local_verified (rc_env C) (rc_root C) ?D ?f (s_hash (rows ! i)) = None) = (shard_bytes (rc_root C) ?D ?f \<noteq> Some (shards ! i))"
    using bind assms(5) unfolding read_local_verified_def sound_read [OF assms(4)] loc verify_hash_def disk_in_def
    by (cases "shard_bytes (rc_root C) ?D ?f") auto
  have e: "store_exists (rc_root C) ?D ?f = (shard_bytes (rc_root C) ?D ?f \<noteq> None)" by (rule store_exists_iff)
  show ?thesis
    using assms(7) unfolding classify_shard_def prod.case loc(1) v e lost_def Let_def
    by (auto simp: emit_shard_corrupt_def in_db_def split: if_splits)
qed

lemma classify_all_local:
  assumes "local_rows (rc_env C) shards rows" "hash_binds (rc_env C) B shards" "length shards = TOTAL_SHARDS" "sound_disk (site_disk S)"
    and "disk_in (rc_root C) (site_disk S) B"
    and "classify_all C view scrub (map Some (drop k rows)) (S, rep) = (sts, S', rep')" "k \<le> TOTAL_SHARDS"
  shows "sts = map (\<lambda>i. Some (if lost (rc_root C) scrub shards rows (site_disk S) i then Lost else Live)) [k..<TOTAL_SHARDS]
    \<and> si_node S' = si_node S \<and> rr_chunks_repaired rep' = rr_chunks_repaired rep"
  using assms(4-)
proof (induction "TOTAL_SHARDS - k" arbitrary: k S rep sts)
  case 0
  then show ?case using assms(1) by (simp add: local_rows_def)
next
  case (Suc n)
  then have k: "k < TOTAL_SHARDS" by simp
  have d: "drop k rows = rows ! k # drop (Suc k) rows" using k assms(1) by (simp add: local_rows_def Cons_nth_drop_Suc)
  obtain st S1 rep1 where c: "classify_shard C view scrub (rows ! k) (S, rep) = (st, S1, rep1)" by (metis prod_cases3)
  obtain sts2 where r: "classify_all C view scrub (map Some (drop (Suc k) rows)) (S1, rep1) = (sts2, S', rep')" "sts = Some st # sts2"
    using Suc.prems(3) c unfolding d by (auto split: prod.splits)
  note one = classify_local [OF assms(1-3) Suc.prems(1,2) k c]
  have disk: "site_disk S1 = site_disk S" using one by (simp add: site_disk_def)
  from Suc.hyps(1) [of "Suc k" S1, OF _ _ _ r(1)] Suc.hyps(2) Suc.prems(1,2) k
  have "sts2 = map (\<lambda>i. Some (if lost (rc_root C) scrub shards rows (site_disk S) i then Lost else Live)) [Suc k..<TOTAL_SHARDS]
      \<and> si_node S' = si_node S1 \<and> rr_chunks_repaired rep' = rr_chunks_repaired rep1"
    unfolding disk by simp
  then show ?case using one r(2) k by (simp add: upt_conv_Cons)
qed

text \<open>Fetching on a node that reaches no peer: the shards found intact, up to ten.\<close>

lemma fetch_local:
  assumes "sound_disk (site_disk S)" "s_location s = ''local''"
  shows "fetch_shard C reachable s S =
    (case shard_bytes (rc_root C) (site_disk S) (s_fragment_id s) of
       Some b \<Rightarrow> if verify_hash (rc_env C) b (s_hash s) then Some b else None
     | None \<Rightarrow> None, S)"
  using assms by (simp add: fetch_shard_def read_local_def sound_read split: option.splits)

lemma fetch_live_local:
  assumes "sound_disk (site_disk S)" "dg_shard_at d = map Some rows" "length rows = TOTAL_SHARDS"
    and "\<And>i. i < TOTAL_SHARDS \<Longrightarrow> s_location (rows ! i) = ''local''" "set is \<subseteq> {..<TOTAL_SHARDS}"
    and "fetch_live C reachable d is got held S = (got', held', S')"
  shows "S' = S \<and> min DATA_SHARDS (got + length (filter (\<lambda>i. dg_states d ! i = Some Live
      \<and> (\<exists>b. shard_bytes (rc_root C) (site_disk S) (s_fragment_id (rows ! i)) = Some b \<and> verify_hash (rc_env C) b (s_hash (rows ! i)))) is))
    \<le> got'"
  using assms(5,6)
proof (induction "is" arbitrary: got held)
  case (Cons i "is")
  have i: "i < TOTAL_SHARDS" "dg_shard_at d ! i = Some (rows ! i)" using Cons.prems(1) assms(2,3) by auto
  note f = fetch_local [OF assms(1) assms(4) [OF i(1)], of C reachable]
  show ?case
  proof (cases "got \<ge> DATA_SHARDS")
    case True
    then show ?thesis using Cons.prems(2) by auto
  next
    case False
    show ?thesis
      using Cons.prems False i Cons.IH [of got held] Cons.IH [of "Suc got" "held[i := Some b]" for b] f
      by (auto split: option.splits shard_state.splits if_splits)
  qed
qed simp

lemma target_lone: "choose_target C n [] rel = ''local''"
  by (simp add: choose_target_def)

lemma place_lone:
  assumes "sound_disk (site_disk S)" "is_valid_fragment_id f"
  shows "\<exists>D'. place_shard C [] ''local'' f ix b S = (True, S\<lparr>si_node := (si_node S)\<lparr>nd_disk := D'\<rparr>\<rparr>) \<and> sound_disk D'
    \<and> (\<forall>g. shard_bytes (rc_root C) D' g = (if g = f then Some b else shard_bytes (rc_root C) (site_disk S) g))"
proof -
  obtain r D' where w: "store_write (rc_root C) f b (site_disk S) = (r, D')" by fastforce
  have "r = Ok ()" using w assms by (auto simp: store_write_valid sound_disk_def write_file_def split: option.splits)
  then show ?thesis
    using w store_write_get [OF w] sound_same [OF store_write_faults [OF w] assms(1)]
    by (intro exI [of _ D']) (auto simp: place_shard_def write_local_def is_ok_def)
qed

lemma place_missing_lone:
  assumes "pv_reachable view = []" "sound_disk (site_disk S)" "\<And>i. i \<in> set is \<Longrightarrow> i < length shards \<and> is_valid_fragment_id (missing_fragment d i)"
    and "inj_on (missing_fragment d) (set is)" "distinct is"
    and "place_missing C view d shards is n any (S, rep) = (any', S', rep')"
  shows "any' = (any \<or> is \<noteq> []) \<and> rr_chunks_repaired rep' = rr_chunks_repaired rep
    \<and> rr_shards_replaced rep' = rr_shards_replaced rep + length is
    \<and> (\<forall>i \<in> set is. shard_bytes (rc_root C) (site_disk S') (missing_fragment d i) = Some (shards ! i))
    \<and> (\<forall>g. g \<notin> missing_fragment d ` set is \<longrightarrow> shard_bytes (rc_root C) (site_disk S') g = shard_bytes (rc_root C) (site_disk S) g)"
  using assms(2-)
proof (induction "is" arbitrary: n any S rep)
  case (Cons i "is")
  have i: "i < length shards" "is_valid_fragment_id (missing_fragment d i)" using Cons.prems(2) by auto
  from place_lone [OF Cons.prems(1) i(2)] obtain D' where
    p: "place_shard C [] ''local'' (missing_fragment d i) (int i) (shards ! i) S = (True, S\<lparr>si_node := (si_node S)\<lparr>nd_disk := D'\<rparr>\<rparr>)"
    and D': "sound_disk D'" "\<And>g. shard_bytes (rc_root C) D' g = (if g = missing_fragment d i then Some (shards ! i) else shard_bytes (rc_root C) (site_disk S) g)"
    by blast
  let ?S1 = "S\<lparr>si_node := (si_node S)\<lparr>nd_disk := D'\<rparr>\<rparr>"
  let ?S2 = "?S1\<lparr>si_node := snd (on_db (set_location (missing_fragment d i) ''local'') (si_node ?S1))\<rparr>"
  have d2: "site_disk ?S2 = D'" by (auto simp: site_disk_def on_db_def split: prod.splits)
  have run: "place_missing C view d shards is (n(''local'' := n ''local'' + 1)) True
      (?S2, rep\<lparr>rr_shards_replaced := rr_shards_replaced rep + 1\<rparr>) = (any', S', rep')"
    using Cons.prems(5) i p by (simp add: assms(1) target_lone Let_def)
  have fresh: "missing_fragment d i \<notin> missing_fragment d ` set is" using Cons.prems(3,4) by auto
  have "sound_disk (site_disk ?S2)" using D'(1) d2 by simp
  note IH = Cons.IH [OF this _ _ _ run]
  have "any' = True \<and> rr_chunks_repaired rep' = rr_chunks_repaired rep
    \<and> rr_shards_replaced rep' = rr_shards_replaced rep + 1 + length is
    \<and> (\<forall>i \<in> set is. shard_bytes (rc_root C) (site_disk S') (missing_fragment d i) = Some (shards ! i))
    \<and> (\<forall>g. g \<notin> missing_fragment d ` set is \<longrightarrow> shard_bytes (rc_root C) (site_disk S') g = shard_bytes (rc_root C) D' g)"
    using IH Cons.prems(2-4) unfolding d2 by simp
  then show ?case using D'(2) fresh by simp
qed simp

lemma plan_no_grace:
  assumes "states = map (\<lambda>i. Some (if L i then Lost else Live)) [0..<n]"
  shows "cp_missing (plan_chunk states) = filter L [0..<n]" "cp_live (plan_chunk states) = length (filter (\<lambda>i. \<not> L i) [0..<n])"
    "cp_deferred (plan_chunk states) = 0"
  unfolding assms plan_chunk_def Let_def by (auto simp: filter_map o_def intro!: filter_cong split: if_splits)

text \<open>The chunk such a pass hands over when the shards of \<open>L\<close> are lost.\<close>

definition lone_degraded :: "chunk_row \<Rightarrow> shard_row list \<Rightarrow> (nat \<Rightarrow> bool) \<Rightarrow> degraded" where
  "lone_degraded c rows L =
     \<lparr>dg_chunk = c, dg_shard_at = map Some rows, dg_states = map (\<lambda>i. Some (if L i then Lost else Live)) [0..<TOTAL_SHARDS],
      dg_missing = filter L [0..<TOTAL_SHARDS], dg_margin = length (filter (\<lambda>i. \<not> L i) [0..<TOTAL_SHARDS]) - DATA_SHARDS\<rparr>"

definition intact :: "file_path \<Rightarrow> bytes list \<Rightarrow> shard_row list \<Rightarrow> disk \<Rightarrow> nat set" where
  "intact root shards rows D = {i. i < TOTAL_SHARDS \<and> shard_bytes root D (s_fragment_id (rows ! i)) = Some (shards ! i)}"

lemma intact_card:
  assumes "intact root shards rows D \<subseteq> {i. P i}"
  shows "card (intact root shards rows D) \<le> length (filter P [0..<TOTAL_SHARDS])"
proof -
  have "card (intact root shards rows D) \<le> card (set (filter P [0..<TOTAL_SHARDS]))"
    using assms by (intro card_mono) (auto simp: intact_def)
  also have "\<dots> \<le> length (filter P [0..<TOTAL_SHARDS])" by (rule card_length)
  finally show ?thesis .
qed

lemma lone_assess:
  assumes "local_rows (rc_env C) shards rows" "hash_binds (rc_env C) B shards" "length shards = TOTAL_SHARDS"
    and "sound_disk (site_disk S)" "disk_in (rc_root C) (site_disk S) B"
    and "DATA_SHARDS \<le> card (intact (rc_root C) shards rows (site_disk S))"
    and "assess_chunk C view scrub c rows (S, rep) = (verdict, S1, rep1)"
  defines "L \<equiv> lost (rc_root C) scrub shards rows (site_disk S)"
  shows "verdict = (if filter L [0..<TOTAL_SHARDS] = [] then None else Some (lone_degraded c rows L))
    \<and> (verdict \<noteq> None \<longrightarrow> si_node S1 = si_node S \<and> rr_chunks_repaired rep1 = rr_chunks_repaired rep)"
proof -
  obtain sts S0 rep0 where cl: "classify_all C view scrub (map Some (drop 0 rows)) (S, rep) = (sts, S0, rep0)" by (metis prod_cases3)
  have st: "sts = map (\<lambda>i. Some (if L i then Lost else Live)) [0..<TOTAL_SHARDS]" and n0: "si_node S0 = si_node S"
    and r0: "rr_chunks_repaired rep0 = rr_chunks_repaired rep"
    using classify_all_local [OF assms(1-5) cl] by (auto simp: L_def)
  note plan = plan_no_grace [OF st]
  have "intact (rc_root C) shards rows (site_disk S) \<subseteq> {i. \<not> L i}" by (auto simp: intact_def L_def lost_def Let_def)
  from intact_card [OF this] assms(6) have "\<not> cp_live (plan_chunk sts) < DATA_SHARDS" unfolding plan by simp
  then show ?thesis
    using assms(7) cl plan n0 r0 st index_shards_rows [OF assms(1)]
    by (auto simp: assess_chunk_def lone_degraded_def split: if_splits)
qed

lemma lone_fetch:
  assumes "local_rows (rc_env C) shards rows" "sound_disk (site_disk S)"
    and "DATA_SHARDS \<le> card (intact (rc_root C) shards rows (site_disk S))"
    and "fetch_live C reachable (lone_degraded c rows (lost (rc_root C) scrub shards rows (site_disk S)))
           [0..<TOTAL_SHARDS] 0 held S = (got, held', S')"
  shows "S' = S \<and> \<not> got < DATA_SHARDS"
proof -
  let ?d = "lone_degraded c rows (lost (rc_root C) scrub shards rows (site_disk S))"
  let ?P = "\<lambda>i. dg_states ?d ! i = Some Live \<and> (\<exists>b. shard_bytes (rc_root C) (site_disk S) (s_fragment_id (rows ! i)) = Some b
      \<and> verify_hash (rc_env C) b (s_hash (rows ! i)))"
  have rows: "length rows = TOTAL_SHARDS" "\<And>i. i < TOTAL_SHARDS \<Longrightarrow> s_location (rows ! i) = ''local''"
    "\<And>i. i < TOTAL_SHARDS \<Longrightarrow> s_hash (rows ! i) = shard_hash (rc_env C) (shards ! i)"
    using assms(1) by (simp_all add: local_rows_def)
  have at: "dg_shard_at ?d = map Some rows" by (simp add: lone_degraded_def)
  have up: "set [0..<TOTAL_SHARDS] \<subseteq> {..<TOTAL_SHARDS}" by auto
  have "intact (rc_root C) shards rows (site_disk S) \<subseteq> {i. ?P i}"
    using rows(3) by (auto simp: intact_def lone_degraded_def lost_def Let_def verify_hash_def)
  from intact_card [OF this] assms(3) fetch_live_local [OF assms(2) at rows(1,2) up assms(4)]
  show ?thesis by simp
qed

lemma lone_repair:
  assumes "pv_reachable view = []" "recoverable (rc_env C) cipher shards" "hash_binds (rc_env C) B shards"
    and "delivers (rc_net C) B" "disk_in (rc_root C) (site_disk S) B" "sound_disk (site_disk S)"
    and "local_rows (rc_env C) shards rows" "c_cipher_len c = int (length cipher)"
    and "DATA_SHARDS \<le> card (intact (rc_root C) shards rows (site_disk S))"
    and "L = lost (rc_root C) scrub shards rows (site_disk S)"
    and "filter L [0..<TOTAL_SHARDS] \<noteq> []" "repair_chunk C view (lone_degraded c rows L) (S, rep) = (S', rep')"
  shows "rr_chunks_repaired rep' = rr_chunks_repaired rep + 1
    \<and> (\<forall>i < TOTAL_SHARDS. shard_bytes (rc_root C) (site_disk S') (s_fragment_id (rows ! i)) =
         (if L i then Some (shards ! i) else shard_bytes (rc_root C) (site_disk S) (s_fragment_id (rows ! i))))"
proof -
  let ?d = "lone_degraded c rows L" and ?f = "\<lambda>i. s_fragment_id (rows ! i)"
  have len: "length shards = TOTAL_SHARDS" using recoverable_length assms(2) .
  have rows: "length rows = TOTAL_SHARDS" "distinct (map s_fragment_id rows)"
    "\<And>i. i < TOTAL_SHARDS \<Longrightarrow> s_hash (rows ! i) = shard_hash (rc_env C) (shards ! i) \<and> is_valid_fragment_id (?f i)"
    using assms(7) by (simp_all add: local_rows_def)
  have gen: "genuine (rc_env C) cipher shards ?d" using assms(2,8) rows by (auto simp: genuine_def lone_degraded_def)
  obtain got held S1 where f: "fetch_live C (pv_reachable view) ?d [0..<TOTAL_SHARDS] 0 (replicate TOTAL_SHARDS None) S = (got, held, S1)"
    by (metis prod_cases3)
  from lone_fetch [OF assms(7,6,9) f [unfolded assms(10)]] have S1: "S1 = S" "\<not> got < DATA_SHARDS" by auto
  obtain any S2 rep2 where p: "place_missing C view ?d shards (dg_missing ?d) (locations_kept ?d) False (S, rep) = (any, S2, rep2)"
    by (metis prod_cases3)
  have mf: "missing_fragment ?d i = ?f i" if "i < TOTAL_SHARDS" for i
    using that rows(1) by (simp add: missing_fragment_def lone_degraded_def)
  have miss: "set (dg_missing ?d) = {i. i < TOTAL_SHARDS \<and> L i}" "dg_missing ?d \<noteq> []" "distinct (dg_missing ?d)"
    using assms(11) by (auto simp: lone_degraded_def)
  have apart: "?f i = ?f j \<longleftrightarrow> i = j" if "i < TOTAL_SHARDS" "j < TOTAL_SHARDS" for i j
    using rows(1,2) that nth_eq_iff_index_eq [of "map s_fragment_id rows" i j] by simp
  have inj: "inj_on (missing_fragment ?d) (set (dg_missing ?d))"
    using mf apart unfolding miss(1) by (auto intro!: inj_onI)
  have fr: "i < length shards \<and> is_valid_fragment_id (missing_fragment ?d i)" if "i \<in> set (dg_missing ?d)" for i
    using that mf rows(3) len unfolding miss(1) by auto
  note placed = place_missing_lone [OF assms(1,6) fr inj miss(3) p]
  have rc: "(S', rep') = (S2, rep2\<lparr>rr_chunks_repaired := rr_chunks_repaired rep2 + 1\<rparr>)"
    using repair_chunk_places [OF gen assms(3-5) f, of rep] assms(12) S1 p placed miss(2) by simp
  have "?f i \<notin> missing_fragment ?d ` set (dg_missing ?d)" if "\<not> L i" "i < TOTAL_SHARDS" for i
    using that mf apart unfolding miss(1) by force
  then show ?thesis using placed rc mf miss(1) by auto
qed

text \<open>C23. A node that reaches no peer heals itself. Take a chunk whose fourteen shards are all local, at least ten of them
  intact, on a disk that works. The pass either finds nothing to do, and then no shard is lost, or it repairs the
  chunk: afterwards every shard that was absent, or corrupt and in this pass's sample, holds its original bytes again, every
  other shard is as it was, and the chunk is counted as repaired.\<close>

theorem lone_node_heals:
  assumes "pv_reachable view = []" "recoverable (rc_env C) cipher shards" "hash_binds (rc_env C) B shards"
    and "delivers (rc_net C) B" "disk_in (rc_root C) (nd_disk (si_node S)) B" "sound_disk (nd_disk (si_node S))"
    and "local_rows (rc_env C) shards rows" "c_cipher_len c = int (length cipher)"
    and "DATA_SHARDS \<le> card {i. i < TOTAL_SHARDS
           \<and> shard_bytes (rc_root C) (nd_disk (si_node S)) (s_fragment_id (rows ! i)) = Some (shards ! i)}"
    and "assess_chunk C view scrub c rows (S, rep) = (verdict, S1, rep1)"
  shows "case verdict of
      None \<Rightarrow> \<forall>i < TOTAL_SHARDS. \<not> lost (rc_root C) scrub shards rows (nd_disk (si_node S)) i
    | Some d \<Rightarrow>
        (case repair_chunk C view d (S1, rep1) of (S2, rep2) \<Rightarrow>
           rr_chunks_repaired rep2 = rr_chunks_repaired rep + 1
           \<and> (\<forall>i < TOTAL_SHARDS. shard_bytes (rc_root C) (nd_disk (si_node S2)) (s_fragment_id (rows ! i)) =
                (if lost (rc_root C) scrub shards rows (nd_disk (si_node S)) i then Some (shards ! i)
                 else shard_bytes (rc_root C) (nd_disk (si_node S)) (s_fragment_id (rows ! i)))))"
proof -
  let ?L = "lost (rc_root C) scrub shards rows (site_disk S)"
  have D: "nd_disk (si_node S) = site_disk S" by (simp add: site_disk_def)
  note a = assms(5,6,9) [unfolded D, folded intact_def]
  note as = lone_assess [OF assms(7,3) recoverable_length [OF assms(2)] a(2,1,3) assms(10)]
  show ?thesis
  proof (cases "filter ?L [0..<TOTAL_SHARDS] = []")
    case True
    then show ?thesis using as unfolding D by (simp add: filter_empty_conv)
  next
    case False
    then have v: "verdict = Some (lone_degraded c rows ?L)" "si_node S1 = si_node S" "rr_chunks_repaired rep1 = rr_chunks_repaired rep"
      using as by auto
    have d1: "site_disk S1 = site_disk S" using v(2) by (simp add: site_disk_def)
    obtain S2 rep2 where r: "repair_chunk C view (lone_degraded c rows ?L) (S1, rep1) = (S2, rep2)" by fastforce
    from lone_repair [OF assms(1-4) a(1,2) [folded d1] assms(7,8) a(3) [folded d1] refl, of scrub rep1 S2 rep2, unfolded d1, OF False r]
    show ?thesis unfolding v(1) D option.case r prod.case v(3) by (simp add: site_disk_def)
  qed
qed

section \<open>A chunk with one lost shard\<close>

definition bind_env :: "int env" where
  "bind_env = demo_env\<lparr>blake3 := (\<lambda>b. if b = replicate 64 7 then replicate 32 1 else replicate 32 0)\<rparr>"

definition demo_shards :: "bytes list" where
  "demo_shards = replicate DATA_SHARDS (replicate 64 7) @ replicate PARITY_SHARDS (replicate 64 7)"

definition demo_fid :: "nat \<Rightarrow> string" where
  "demo_fid i = replicate i (CHR ''a'') @ replicate (32 - i) (CHR ''b'')"

definition demo_rows :: "shard_row list" where
  "demo_rows = map (\<lambda>i. \<lparr>s_fragment_id = demo_fid i, s_chunk_id = ''c'', s_shard_index = int i, s_location = ''local'',
                         s_hash = shard_hash bind_env (replicate 64 7)\<rparr>) [0..<TOTAL_SHARDS]"

definition demo_chunk :: chunk_row where
  "demo_chunk = \<lparr>c_chunk_id = ''c'', c_file_id = ''f'', c_idx = 0, c_nonce = [], c_is_compressed = False,
                 c_plaintext_len = 624, c_cipher_len = 640, c_shard_len = 64\<rparr>"

text \<open>Every file of the store is there but that of the first shard.\<close>

definition hurt_disk :: disk where
  "hurt_disk = healthy_disk\<lparr>disk_files := (\<lambda>p. if p = [''data'', take 2 (demo_fid 0), demo_fid 0] then None else Some (replicate 64 7))\<rparr>"

definition hurt_site :: "'w \<Rightarrow> (int, 'w) site" where
  "hurt_site w = \<lparr>si_node = \<lparr>nd_manifest = empty_manifest, nd_disk = hurt_disk\<rparr>, si_net = w, si_db = demo_peers\<rparr>"

definition lone_view :: "int peer_view" where
  "lone_view = \<lparr>pv_reachable = [], pv_down = {}, pv_known = {}, pv_reliability = Map.empty\<rparr>"

definition quiet_ctx :: "(string \<Rightarrow> 'w link) \<Rightarrow> (int, 'w) repair_ctx" where
  "quiet_ctx net =
     \<lparr>rc_env = bind_env, rc_total_lt = (<), rc_root = [''data''],
      rc_ident = \<lparr>id_data_key = [], id_manifest_key_hex = [], id_peer_id = ''me''\<rparr>, rc_port = 4040,
      rc_net = net, rc_rng = (\<lambda>_. None), rc_rtt = (\<lambda>_. 0), rc_repair_interval_secs = 600, rc_peer_down_threshold = 5\<rparr>"

lemma total_14: "TOTAL_SHARDS = 14" by (simp add: TOTAL_SHARDS_def DATA_SHARDS_def PARITY_SHARDS_def)

lemma demo_shard_nth: "i < TOTAL_SHARDS \<Longrightarrow> demo_shards ! i = replicate 64 7"
  by (simp add: demo_shards_def nth_append TOTAL_SHARDS_def)

lemma demo_recoverable: "recoverable bind_env (replicate 640 7) demo_shards"
proof -
  have "encode bind_env = encode demo_env" by (simp add: fun_eq_iff encode_def bind_env_def)
  moreover have "rs_recovers bind_env = rs_recovers demo_env" by (simp add: fun_eq_iff rs_recovers_def bind_env_def)
  ultimately show ?thesis using demo_encoded(1,3) by (simp add: recoverable_def demo_shards_def)
qed

lemma demo_binds: "hash_binds bind_env UNIV demo_shards"
proof -
  have "hex_decode demo_env (hex_encode demo_env b) = Some b" for b
    using demo_hex_correct by (simp add: hex_correct_def)
  then have "hex_encode demo_env a = hex_encode demo_env b \<longleftrightarrow> a = b" for a b by (metis option.inject)
  moreover have "hex_encode demo_env a \<noteq> []" if "a \<noteq> []" for a
    using demo_hex_correct that by (auto simp: hex_correct_def dest: arg_cong [of _ "[]" length])
  moreover have "length demo_shards = TOTAL_SHARDS" by (simp add: demo_shards_def TOTAL_SHARDS_def)
  moreover have "take 16 (replicate 32 (0 :: byte)) \<noteq> take 16 (replicate 32 1)" "take 16 (replicate 32 (1 :: byte)) \<noteq> []" by simp_all
  ultimately show ?thesis
    by (auto simp: hash_binds_def demo_shard_nth shard_hash_def bind_env_def simp del: take_replicate)
qed

lemma demo_fid_inj: "i < TOTAL_SHARDS \<Longrightarrow> j < TOTAL_SHARDS \<Longrightarrow> demo_fid i = demo_fid j \<longleftrightarrow> i = j"
proof -
  have "length (filter (\<lambda>c. c = CHR ''a'') (demo_fid k)) = k" for k by (simp add: demo_fid_def)
  then show ?thesis by metis
qed

lemma demo_fid_valid: "i < TOTAL_SHARDS \<Longrightarrow> is_valid_fragment_id (demo_fid i)"
  by (auto simp: is_valid_fragment_id_def demo_fid_def total_14 list_all_iff is_ascii_hexdigit_def)

lemma demo_rows_local: "local_rows bind_env demo_shards demo_rows"
proof -
  have "distinct (map s_fragment_id demo_rows)"
    using demo_fid_inj by (auto simp: demo_rows_def distinct_map o_def inj_on_def)
  then show ?thesis using demo_fid_valid by (simp add: local_rows_def demo_rows_def demo_shard_nth)
qed

lemma hurt_bytes: "i < TOTAL_SHARDS \<Longrightarrow>
    shard_bytes [''data''] hurt_disk (demo_fid i) = (if i = 0 then None else Some (replicate 64 7))"
  using demo_fid_valid [of i] demo_fid_inj [of i 0] by (auto simp: shard_bytes_def hurt_disk_def total_14)

lemma hurt_sound: "sound_disk hurt_disk" "no_torn_writes hurt_disk"
  by (simp_all add: sound_disk_def no_torn_writes_def hurt_disk_def healthy_disk_def)

lemma demo_intact: "DATA_SHARDS \<le> card {i. i < TOTAL_SHARDS
    \<and> shard_bytes [''data''] hurt_disk (s_fragment_id (demo_rows ! i)) = Some (demo_shards ! i)}"
proof -
  have "{i. i < TOTAL_SHARDS \<and> shard_bytes [''data''] hurt_disk (s_fragment_id (demo_rows ! i)) = Some (demo_shards ! i)} = {1..<14}"
    by (auto simp: demo_rows_def hurt_bytes demo_shard_nth total_14 split: if_splits)
  then show ?thesis by (simp add: DATA_SHARDS_def)
qed

lemma any_delivered [simp]: "delivers net UNIV" "disk_in root D UNIV"
  by (simp_all add: delivers_def disk_in_def)

theorem repair_places_originals_witness:
  "genuine bind_env (replicate 640 7) demo_shards (lone_degraded demo_chunk demo_rows (\<lambda>i. i = 0))
   \<and> hash_binds bind_env UNIV demo_shards
   \<and> list_all (\<lambda>(a, m, r). \<not> is_DeleteShard m)
       (snd (si_net (fst (repair_chunk (quiet_ctx (spy no_network)) lone_view
          (lone_degraded demo_chunk demo_rows (\<lambda>i. i = 0)) (hurt_site ((), []), RepairReport_default)))))"
proof -
  let ?C = "quiet_ctx (spy no_network) :: (int, unit \<times> sent list) repair_ctx" and ?S = "hurt_site ((), [])"
  let ?d = "lone_degraded demo_chunk demo_rows (\<lambda>i. i = 0)"
  have g: "genuine (rc_env ?C) (replicate 640 7) demo_shards ?d"
    using demo_recoverable by (auto simp: genuine_def quiet_ctx_def lone_degraded_def demo_chunk_def demo_rows_def demo_shard_nth)
  have b: "hash_binds (rc_env ?C) UNIV demo_shards" using demo_binds by (simp add: quiet_ctx_def)
  have net: "rc_net ?C = spy no_network" by (simp add: quiet_ctx_def)
  have torn: "no_torn_writes (nd_disk (si_node ?S))" using hurt_sound by (simp add: hurt_site_def)
  obtain S' rep' where r: "repair_chunk ?C lone_view ?d (?S, RepairReport_default) = (S', rep')" by fastforce
  from repair_places_originals [OF net g b _ _ torn r] obtain ms where
    "snd (si_net S') = snd (si_net ?S) @ ms" "\<forall>(a, m, r) \<in> set ms. \<not> is_DeleteShard m" by fastforce
  then have "list_all (\<lambda>(a, m, r). \<not> is_DeleteShard m) (snd (si_net S'))" by (auto simp: hurt_site_def list_all_iff)
  then show ?thesis using g b r by (simp add: quiet_ctx_def)
qed

text \<open>The lost shard is found and restored.\<close>

theorem lone_node_heals_witness:
  "case assess_chunk (quiet_ctx no_network) lone_view (ScrubPlan_new 0 600) demo_chunk demo_rows (hurt_site (), RepairReport_default) of
     (None, _) \<Rightarrow> False
   | (Some d, p) \<Rightarrow>
       shard_bytes [''data''] (nd_disk (si_node (fst (repair_chunk (quiet_ctx no_network) lone_view d p)))) (demo_fid 0) = Some (replicate 64 7)"
proof -
  let ?C = "quiet_ctx no_network :: (int, unit) repair_ctx" and ?S = "hurt_site ()" and ?scrub = "ScrubPlan_new 0 600"
  obtain verdict S1 rep1 where a: "assess_chunk ?C lone_view ?scrub demo_chunk demo_rows (?S, RepairReport_default) = (verdict, S1, rep1)"
    by (metis prod_cases3)
  have s: "rc_env ?C = bind_env" "rc_root ?C = [''data'']" "nd_disk (si_node ?S) = hurt_disk" "pv_reachable lone_view = []"
    by (simp_all add: quiet_ctx_def hurt_site_def lone_view_def)
  note heal = lone_node_heals [OF s(4), of ?C "replicate 640 7" demo_shards UNIV ?S demo_rows demo_chunk, unfolded s,
      OF demo_recoverable demo_binds any_delivered hurt_sound(1) demo_rows_local _ demo_intact a]
  have z: "0 < TOTAL_SHARDS" "s_fragment_id (demo_rows ! 0) = demo_fid 0" by (simp_all add: total_14 demo_rows_def)
  have l: "lost [''data''] ?scrub demo_shards demo_rows hurt_disk 0"
    using hurt_bytes [OF z(1)] z(2) by (simp add: lost_def)
  show ?thesis
  proof (cases verdict)
    case None
    then show ?thesis using heal l z(1) by (auto simp: demo_chunk_def)
  next
    case (Some d)
    obtain S2 rep2 where r: "repair_chunk ?C lone_view d (S1, rep1) = (S2, rep2)" by fastforce
    then have "shard_bytes [''data''] (nd_disk (si_node S2)) (s_fragment_id (demo_rows ! 0)) = Some (demo_shards ! 0)"
      using heal l z(1) Some by (simp add: demo_chunk_def)
    then show ?thesis using a r Some z demo_shard_nth by simp
  qed
qed

end
