(* ===== verification/Rebalance.thy ===== *)
theory Rebalance
  imports RepairProps Placement
begin

text \<open>
  \<open>server/src/rebalance.rs\<close>: the pass that moves healthy shards towards the placement plan. Its state is that of the
  repair pass. The hash map of a chunk's shards by location is the list of its entries, in any order: \<open>iter\<close> is the
  order in which it is iterated.
\<close>

record rebalance_report =
  rb_files_scanned :: nat
  rb_shards_moved :: nat
  rb_peers_reachable :: nat

definition RebalanceReport_default :: rebalance_report where
  "RebalanceReport_default = \<lparr>rb_files_scanned = 0, rb_shards_moved = 0, rb_peers_reachable = 0\<rparr>"

record 'f live_peer =
  lp_peer_id :: string
  lp_addr :: string
  lp_rtt :: 'f
  lp_zone :: "string option"
  lp_reliability :: 'f

section \<open>Moving a shard\<close>

text \<open>\<open>as i32\<close>.\<close>

definition as_i32 :: "int \<Rightarrow> int" where
  "as_i32 v = sint (word_of_int v :: u32)"

definition move_shard :: "('f, 'w) repair_ctx \<Rightarrow> (string \<times> string) list \<Rightarrow> shard_row \<Rightarrow> string \<Rightarrow> ('f, 'w) site
    \<Rightarrow> bool \<times> ('f, 'w) site" where
  "move_shard C reachable s dest S =
     (if s_location s = dest then (False, S)
      else case fetch_shard C reachable s S of
             (None, S1) \<Rightarrow> (False, S1)
           | (Some bytes, S1) \<Rightarrow>
               if s_hash s \<noteq> [] \<and> shard_hash (rc_env C) bytes \<noteq> s_hash s then (False, S1)
               else case place_shard C reachable dest (s_fragment_id s) (as_i32 (s_shard_index s)) bytes S1 of
                      (False, S2) \<Rightarrow> (False, S2)
                    | (True, S2) \<Rightarrow>
                        let S3 = S2\<lparr>si_node := snd (on_db (set_location (s_fragment_id s) dest) (si_node S2))\<rparr>
                        in (True, drop_shard C reachable (s_location s) (s_fragment_id s) S3))"

section \<open>One chunk\<close>

fun group_by_location :: "shard_row list \<Rightarrow> (string \<times> shard_row list) list \<Rightarrow> (string \<times> shard_row list) list" where
  "group_by_location [] current = current"
| "group_by_location (s # ss) current =
     group_by_location ss (AList.map_default (s_location s) [s] (\<lambda>here. here @ [s]) current)"

text \<open>The loop \<open>while here.len() > keep && reachable_here\<close>.\<close>

partial_function (option) donate :: "nat \<Rightarrow> bool \<Rightarrow> shard_row list \<Rightarrow> shard_row list \<Rightarrow> (shard_row list \<times> shard_row list) option" where
  "donate keep reachable_here here pool =
     (if length here > keep \<and> reachable_here
      then (if here = [] then donate keep reachable_here here pool
            else donate keep reachable_here (butlast here) (pool @ [last here]))
      else Some (here, pool))"

declare donate.simps [code]

fun gather :: "(string \<Rightarrow> nat) \<Rightarrow> (string \<times> string) list \<Rightarrow> (string \<times> shard_row list) list \<Rightarrow> (string \<Rightarrow> nat) \<Rightarrow> shard_row list
    \<Rightarrow> ((string \<Rightarrow> nat) \<times> shard_row list) option" where
  "gather target reachable [] have_now pool = Some (have_now, pool)"
| "gather target reachable ((loc, here) # groups) have_now pool =
     Option.bind (donate (target loc) (loc = ''local'' \<or> map_of reachable loc \<noteq> None) here pool)
       (\<lambda>(here', pool'). gather target reachable groups (have_now(loc := length here')) pool')"

text \<open>A receiver takes from the end of the pool until it has its share or the pool is empty.\<close>

fun feed :: "('f, 'w) repair_ctx \<Rightarrow> (string \<times> string) list \<Rightarrow> string \<Rightarrow> nat \<Rightarrow> shard_row list \<Rightarrow> nat \<times> ('f, 'w) site
    \<Rightarrow> shard_row list \<times> nat \<times> ('f, 'w) site" where
  "feed C reachable loc 0 pool st = (pool, st)"
| "feed C reachable loc (Suc n) pool (moved, S) =
     (if pool = [] then (pool, moved, S)
      else case move_shard C reachable (last pool) loc S of
             (good, S') \<Rightarrow> feed C reachable loc n (butlast pool) (if good then moved + 1 else moved, S'))"

fun feed_all :: "('f, 'w) repair_ctx \<Rightarrow> (string \<times> string) list \<Rightarrow> (string \<Rightarrow> nat) \<Rightarrow> (string \<Rightarrow> nat) \<Rightarrow> string list
    \<Rightarrow> shard_row list \<Rightarrow> nat \<times> ('f, 'w) site \<Rightarrow> shard_row list \<times> nat \<times> ('f, 'w) site" where
  "feed_all C reachable target have_now [] pool st = (pool, st)"
| "feed_all C reachable target have_now (loc # locs) pool st =
     (case feed C reachable loc (target loc - have_now loc) pool st of
        (pool', st') \<Rightarrow> feed_all C reachable target have_now locs pool' st')"

definition rebalance_chunk :: "('f, 'w) repair_ctx \<Rightarrow> ((string \<times> shard_row list) list \<Rightarrow> (string \<times> shard_row list) list)
    \<Rightarrow> (string \<times> string) list \<Rightarrow> (string \<Rightarrow> nat) \<Rightarrow> string list \<Rightarrow> shard_row list \<Rightarrow> nat \<times> ('f, 'w) site \<Rightarrow> (nat \<times> ('f, 'w) site) option" where
  "rebalance_chunk C iter reachable target sorted_ids shards st =
     Option.bind (gather target reachable (iter (group_by_location shards [])) (\<lambda>_. 0) [])
       (\<lambda>(have_now, pool). Some (snd (feed_all C reachable target have_now (''local'' # sorted_ids) pool st)))"

section \<open>The pass\<close>

fun measure_peers :: "('f, 'w) repair_ctx \<Rightarrow> (string \<times> 'f peer_row) list \<Rightarrow> 'w \<Rightarrow> 'f live_peer list \<times> 'w" where
  "measure_peers C [] w = ([], w)"
| "measure_peers C ((pid, row) # rows) w =
     (case ping (rc_net C (pe_addr row)) (id_peer_id (rc_ident C)) (rc_port C) w of
        (r, w1) \<Rightarrow>
          (case measure_peers C rows w1 of
             (ps, w2) \<Rightarrow>
               ((if is_ok r
                 then \<lparr>lp_peer_id = pid, lp_addr = pe_addr row, lp_rtt = rc_rtt C w1, lp_zone = pe_zone row,
                       lp_reliability = pe_reliability_score row\<rparr> # ps
                 else ps), w2)))"

text \<open>\<open>sort_by\<close> on the round-trip time, which is never a NaN; the sort is stable.\<close>

fun insert_near :: "'f env \<Rightarrow> 'f live_peer \<Rightarrow> 'f live_peer list \<Rightarrow> 'f live_peer list" where
  "insert_near E p [] = [p]"
| "insert_near E p (q # qs) = (if f64_lt E (lp_rtt q) (lp_rtt p) then q # insert_near E p qs else p # q # qs)"

definition near_first :: "'f env \<Rightarrow> 'f live_peer list \<Rightarrow> 'f live_peer list" where
  "near_first E ps = foldr (insert_near E) ps []"

definition target_counts :: "placement list \<Rightarrow> string list \<Rightarrow> string \<Rightarrow> nat" where
  "target_counts layout sorted_ids loc =
     length (filter (\<lambda>pl. case pl of
                None \<Rightarrow> loc = ''local''
              | Some p \<Rightarrow> p < length sorted_ids \<and> sorted_ids ! p = loc) layout)"

fun rebalance_chunks :: "('f, 'w) repair_ctx \<Rightarrow> ((string \<times> shard_row list) list \<Rightarrow> (string \<times> shard_row list) list)
    \<Rightarrow> (string \<times> string) list \<Rightarrow> (string \<Rightarrow> nat) \<Rightarrow> string list \<Rightarrow> (chunk_row \<times> shard_row list) list
    \<Rightarrow> nat \<times> ('f, 'w) site \<Rightarrow> (nat \<times> ('f, 'w) site) option" where
  "rebalance_chunks C iter reachable target sorted_ids [] st = Some st"
| "rebalance_chunks C iter reachable target sorted_ids ((c, shards) # plan) st =
     Option.bind (rebalance_chunk C iter reachable target sorted_ids shards st)
       (rebalance_chunks C iter reachable target sorted_ids plan)"

fun rebalance_files :: "('f, 'w) repair_ctx \<Rightarrow> ((string \<times> shard_row list) list \<Rightarrow> (string \<times> shard_row list) list)
    \<Rightarrow> (string \<times> string) list \<Rightarrow> (string \<Rightarrow> nat) \<Rightarrow> string list \<Rightarrow> file_row list \<Rightarrow> rebalance_report \<times> ('f, 'w) site
    \<Rightarrow> (rebalance_report \<times> ('f, 'w) site) option" where
  "rebalance_files C iter reachable target sorted_ids [] st = Some st"
| "rebalance_files C iter reachable target sorted_ids (file # files) (rep, S) =
     (let rep1 = rep\<lparr>rb_files_scanned := rb_files_scanned rep + 1\<rparr>
      in case pull_plan (f_user_id file) (f_file_id file) (nd_manifest (si_node S)) of
           Ok (_, plan) \<Rightarrow>
             Option.bind (rebalance_chunks C iter reachable target sorted_ids plan (rb_shards_moved rep1, S))
               (\<lambda>(moved, S'). rebalance_files C iter reachable target sorted_ids files (rep1\<lparr>rb_shards_moved := moved\<rparr>, S'))
         | _ \<Rightarrow> rebalance_files C iter reachable target sorted_ids files (rep1, S))"

definition rebalance_all :: "('f, 'w) repair_ctx \<Rightarrow> ((string \<times> shard_row list) list \<Rightarrow> (string \<times> shard_row list) list)
    \<Rightarrow> (string \<Rightarrow> ip_addr option) \<Rightarrow> (string \<Rightarrow> sock_addr option) \<Rightarrow> ('f, 'w) site \<Rightarrow> (rebalance_report \<times> ('f, 'w) site) option" where
  "rebalance_all C iter parse_ip parse_sock S =
     (let candidates = (if rd_ok (si_db S) SelectPeers
                        then filter (\<lambda>(pid, row). pid \<noteq> id_peer_id (rc_ident C) \<and> pe_status row \<noteq> ''down'') (rd_peers (si_db S))
                        else []);
          (measured, w) = measure_peers C candidates (si_net S);
          live = near_first (rc_env C) measured;
          rep = RebalanceReport_default\<lparr>rb_peers_reachable := length live\<rparr>;
          S1 = S\<lparr>si_net := w\<rparr>
      in if live = [] then Some (rep, S1)
         else
           let reachable = map (\<lambda>p. (lp_peer_id p, lp_addr p)) live;
               sorted_ids = map lp_peer_id live;
               peers = map (\<lambda>p. \<lparr>pc_rtt_ms = lp_rtt p,
                                 pc_zone = (case lp_zone p of Some z \<Rightarrow> Some z | None \<Rightarrow> zone_of_addr parse_ip parse_sock (lp_addr p)),
                                 pc_reliability = lp_reliability p\<rparr>) live;
               layout = plan_placement_zoned (rc_env C) peers None TOTAL_SHARDS PARITY_SHARDS
           in map_option (\<lambda>(rep', S'). (rep', in_db (\<lambda>db. if rd_ok db UpdateRebalanced then db\<lparr>rd_last_rebalance_at := Some (rd_now db)\<rparr> else db) S'))
                (rebalance_files C iter reachable (target_counts layout sorted_ids) sorted_ids
                   (list_all_files (nd_manifest (si_node S1))) (rep, S1)))"

section \<open>The pass ends\<close>

text \<open>The loop over the shards of a location returns, with the first \<open>keep\<close> shards kept.\<close>

lemma donate_result:
  "donate keep r here pool =
     Some (if r then (take keep here, pool @ rev (drop keep here)) else (here, pool))"
proof (induction "length here" arbitrary: here pool)
  case 0
  then show ?case by (simp add: donate.simps)
next
  case (Suc n)
  then obtain xs x where h: "here = xs @ [x]" by (cases here rule: rev_cases) auto
  show ?case
  proof (cases "keep < length here \<and> r")
    case True
    then have "donate keep r here pool = donate keep r xs (pool @ [x])" by (subst donate.simps) (simp add: h)
    also have "\<dots> = Some (take keep xs, (pool @ [x]) @ rev (drop keep xs))" using Suc.hyps(1) [of xs "pool @ [x]"] Suc.hyps(2) True h by simp
    finally show ?thesis using True h by simp
  next
    case False
    then show ?thesis by (subst donate.simps) auto
  qed
qed

lemma gather_returns: "\<exists>r. gather target reachable groups have_now pool = Some r"
proof (induction groups arbitrary: have_now pool)
  case (Cons g groups)
  obtain loc here where g: "g = (loc, here)" by force
  obtain here' pool' where d: "donate (target loc) (loc = ''local'' \<or> map_of reachable loc \<noteq> None) here pool = Some (here', pool')"
    by (metis donate_result surj_pair)
  show ?case unfolding g gather.simps d using Cons.IH by simp
qed simp

lemma rebalance_chunk_returns: "\<exists>st'. rebalance_chunk C iter reachable target ids shards st = Some st'"
proof -
  obtain n pool where "gather target reachable (iter (group_by_location shards [])) (\<lambda>_. 0) [] = Some (n, pool)"
    using gather_returns by fastforce
  then show ?thesis by (simp add: rebalance_chunk_def)
qed

lemma rebalance_chunks_returns: "\<exists>st'. rebalance_chunks C iter reachable target ids plan st = Some st'"
proof (induction plan arbitrary: st)
  case (Cons cs plan)
  obtain c shards where "cs = (c, shards)" by force
  then show ?case using rebalance_chunk_returns [of C iter reachable target ids shards st] Cons.IH by auto
qed simp

lemma rebalance_files_returns: "\<exists>st'. rebalance_files C iter reachable target ids files st = Some st'"
proof (induction files arbitrary: st)
  case (Cons f files)
  obtain rep S where st: "st = (rep, S)" by force
  obtain moved S' where "rebalance_chunks C iter reachable target ids (snd (the (ok (pull_plan (f_user_id f) (f_file_id f) (nd_manifest (si_node S))))))
      (rb_shards_moved (rep\<lparr>rb_files_scanned := rb_files_scanned rep + 1\<rparr>), S) = Some (moved, S')"
    using rebalance_chunks_returns by (metis surj_pair)
  then show ?case using Cons.IH unfolding st by (auto simp: Let_def split: result.splits)
qed simp

text \<open>The rebalancing pass ends: although the loop that takes the surplus of a location has no bound of its own, the pass
  returns for every state of the node, every answer of the network and every order in which the locations are
  visited; and the loop itself keeps exactly the first \<open>keep\<close> shards of a reachable location.\<close>

theorem rebalance_ends:
  "(\<exists>rep S'. rebalance_all C iter parse_ip parse_sock S = Some (rep, S'))
   \<and> donate keep r here pool = Some (if r then (take keep here, pool @ rev (drop keep here)) else (here, pool))"
proof -
  have n: "rebalance_files C iter reachable target ids files st \<noteq> None" for reachable target ids files st
    using rebalance_files_returns [of C iter reachable target ids files st] by auto
  have "rebalance_all C iter parse_ip parse_sock S \<noteq> None"
    unfolding rebalance_all_def Let_def by (simp add: n split: prod.splits del: not_None_eq)
  then show ?thesis by (auto simp: donate_result)
qed

section \<open>A chunk that fits the plan stays\<close>

lemma group_by_location_map:
  assumes "distinct (map fst current)"
  shows "distinct (map fst (group_by_location ss current))
    \<and> map_of (group_by_location ss current) loc =
        (case map_of current loc of
           Some here \<Rightarrow> Some (here @ filter (\<lambda>s. s_location s = loc) ss)
         | None \<Rightarrow> if filter (\<lambda>s. s_location s = loc) ss = [] then None else Some (filter (\<lambda>s. s_location s = loc) ss))"
  using assms
proof (induction ss arbitrary: current)
  case Nil
  then show ?case by (simp split: option.splits)
next
  case (Cons s ss)
  let ?cur = "AList.map_default (s_location s) [s] (\<lambda>here. here @ [s]) current"
  have "distinct (map fst ?cur)" by (rule AList.distinct_map_default [OF Cons.prems])
  from Cons.IH [OF this] show ?case by (auto simp: AList.map_of_map_default split: option.splits)
qed

lemma group_by_location_entry:
  assumes "(loc, here) \<in> set (group_by_location ss [])"
  shows "here = filter (\<lambda>s. s_location s = loc) ss"
proof -
  note g = group_by_location_map [of "[]" ss loc]
  then have "map_of (group_by_location ss []) loc = Some here" using assms by (intro map_of_is_SomeI) simp_all
  with g show ?thesis by (simp split: if_splits)
qed

lemma gather_none:
  assumes "\<And>loc here. (loc, here) \<in> set groups \<Longrightarrow> loc = ''local'' \<or> map_of reachable loc \<noteq> None \<Longrightarrow> length here \<le> target loc"
  shows "\<exists>n. gather target reachable groups have_now pool = Some (n, pool)"
  using assms
proof (induction groups arbitrary: have_now)
  case (Cons g groups)
  obtain loc here where g: "g = (loc, here)" by force
  let ?r = "loc = ''local'' \<or> map_of reachable loc \<noteq> None"
  have d: "donate (target loc) ?r here pool = Some (here, pool)"
    using Cons.prems [of loc here] g by (auto simp: donate_result)
  have "\<exists>n. gather target reachable groups (have_now(loc := length here)) pool = Some (n, pool)"
    by (rule Cons.IH) (use Cons.prems in auto)
  then show ?case unfolding g gather.simps d by simp
qed simp

lemma feed_all_none: "feed_all C reachable target n locs [] st = ([], st)"
proof (induction locs arbitrary: st)
  case (Cons loc locs)
  have "feed C reachable loc k [] st = ([], st)" for k by (cases k; cases st) simp_all
  then show ?case using Cons by simp
qed simp

text \<open>Rebalancing does not churn: a chunk none of whose reachable locations holds more of its shards than the plan gives it
  is left exactly as it is, and nothing is sent.\<close>

theorem rebalance_stable:
  assumes "\<And>xs. set (iter xs) = set xs"
    and "\<And>loc. loc = ''local'' \<or> map_of reachable loc \<noteq> None \<Longrightarrow> length (filter (\<lambda>s. s_location s = loc) shards) \<le> target loc"
  shows "rebalance_chunk C iter reachable target ids shards (moved, S) = Some (moved, S)"
proof -
  obtain n where "gather target reachable (iter (group_by_location shards [])) (\<lambda>_. 0) [] = Some (n, [])"
    using gather_none [of "iter (group_by_location shards [])" reachable target "\<lambda>_. 0" "[]"] assms group_by_location_entry
    by metis
  then show ?thesis unfolding rebalance_chunk_def by (simp only: bind.simps prod.case feed_all_none snd_conv)
qed

section \<open>A move never loses the last copy\<close>

lemma spy_connect_log: "ln_connect (spy net a) W = (r, W') \<Longrightarrow> snd W' = snd W"
  by (auto simp: spy_def split: prod.splits)

lemma spy_exchange_log: "ln_exchange (spy net a) m W = (r, W') \<Longrightarrow> snd W' = snd W @ [(a, m, r)]"
  by (auto simp: spy_def split: prod.splits)

lemma request_accepted:
  assumes "request (spy net a) m W = (Ok r, W')"
  shows "snd W' = snd W @ [(a, m, Ok r)]"
  using assms by (auto simp: request_def sbind_Ok_iff dest!: spy_connect_log spy_exchange_log)

text \<open>An operation that, when it succeeds, has just exchanged the given message.\<close>

definition ends_with :: "string \<Rightarrow> p2p_message \<Rightarrow> ('w \<times> sent list, p2p_message, io_error) op \<Rightarrow> bool" where
  "ends_with a m x \<longleftrightarrow> (\<forall>W r W'. x W = (Ok r, W') \<longrightarrow> (\<exists>l. snd W' = snd W @ l @ [(a, m, Ok r)]))"

definition extends :: "('w \<times> sent list, 'a, io_error) op \<Rightarrow> bool" where
  "extends x \<longleftrightarrow> (\<forall>W r W'. x W = (r, W') \<longrightarrow> (\<exists>l. snd W' = snd W @ l))"

lemma ends_with_sbind: "extends x \<Longrightarrow> (\<And>v. ends_with a m (f v)) \<Longrightarrow> ends_with a m (sbind x f)"
  unfolding ends_with_def extends_def sbind_Ok_iff by (metis append.assoc)

lemma ends_with_prod: "(\<And>u v. ends_with a m (f u v)) \<Longrightarrow> ends_with a m (case p of (u, v) \<Rightarrow> f u v)"
  by (cases p) simp

lemma extends_simps:
  "extends (ln_connect (spy net a))" "extends (ln_exchange (spy net a) m)" "extends (slift r)"
  by (auto simp: extends_def slift_def dest: spy_connect_log spy_exchange_log)

lemma session_accepted: "ends_with a m (authenticated_session E rng (spy net a) signer me port m)"
proof -
  have x: "ends_with a m (ln_exchange (spy net a) m)"
    by (auto simp: ends_with_def dest: spy_exchange_log)
  have e: "ends_with a m (slift (Err er))" for er by (simp add: ends_with_def slift_def)
  have tail: "ends_with a m (case m2 of AuthOk v \<Rightarrow> ln_exchange (spy net a) m | _ \<Rightarrow> slift (Err er))" for m2 er
    by (cases m2) (auto simp: x e)
  show ?thesis unfolding authenticated_session_def
    by (intro ends_with_sbind ends_with_prod extends_simps tail)
qed

definition plain :: "p2p_message \<Rightarrow> bool" where
  "plain m \<longleftrightarrow> \<not> is_DeleteShard m"

lemma plain_simps [simp]:
  "plain (GetShard f)" "plain (AuthPing u p n)" "plain (AuthProof u k sg)" "plain (StoreShard f w i b)"
  by (simp_all add: plain_def)

lemma sent_plainD: "sent_only log plain W \<Longrightarrow> \<exists>ms. snd W = log @ ms \<and> list_all (\<lambda>(a, m, r). plain m) ms"
  by (simp add: sent_only_def)

lemma signed_accepted:
  assumes "signed_request E rng ident port (spy net a) m W = (Ok r, W')" "plain m"
  shows "\<exists>l. snd W' = snd W @ l @ [(a, m, Ok r)] \<and> list_all (\<lambda>(a, m, r). plain m) l"
proof -
  have "preserves (sent_only (snd W) plain) (signed_request E rng ident port (spy net a) m)"
    by (rule spy_signed) (use assms(2) in simp_all)
  from preservesD [OF this _ assms(1)] obtain ms where ms: "snd W' = snd W @ ms" "list_all (\<lambda>(a, m, r). plain m) ms"
    by (auto simp: sent_only_def)
  have "\<exists>l. snd W' = snd W @ l @ [(a, m, Ok r)]"
  proof (cases "node_signer E ident")
    case None
    then show ?thesis using assms(1) request_accepted by (fastforce simp: signed_request_def)
  next
    case (Some signer)
    obtain r1 W1 where s: "authenticated_session E rng (spy net a) signer (id_peer_id ident) port m W = (r1, W1)" by (rule prod.exhaust)
    have p: "preserves (sent_only (snd W) plain) (authenticated_session E rng (spy net a) signer (id_peer_id ident) port m)"
      by (rule spy_session) (use assms(2) in simp_all)
    from preservesD [OF p _ s] obtain ms1 where W1: "snd W1 = snd W @ ms1" by (auto simp: sent_only_def)
    have "authenticated_request E rng (spy net a) signer (id_peer_id ident) port m W = (Ok r, W')"
      using assms(1) Some by (simp add: signed_request_def)
    then have "r1 = Ok r \<and> W' = W1 \<or> request (spy net a) m W1 = (Ok r, W')"
      using s by (auto simp: authenticated_request_def split: result.splits io_error.splits)
    then show ?thesis
    proof
      assume "r1 = Ok r \<and> W' = W1"
      then show ?thesis using s session_accepted [of a m E rng net signer "id_peer_id ident" port]
        unfolding ends_with_def by blast
    next
      assume "request (spy net a) m W1 = (Ok r, W')"
      from request_accepted [OF this] W1 show ?thesis by simp
    qed
  qed
  then obtain l where l: "snd W' = snd W @ l @ [(a, m, Ok r)]" by blast
  then have "ms = l @ [(a, m, Ok r)]" using ms(1) by simp
  then show ?thesis using l ms(2) by auto
qed

text \<open>What the node can show for a copy at \<open>dest\<close>: the file itself, or the acknowledgement of the peer.\<close>

definition copy_at :: "('f, 'w \<times> sent list) repair_ctx \<Rightarrow> (string \<times> string) list \<Rightarrow> string \<Rightarrow> shard_row \<Rightarrow> bytes \<Rightarrow> disk \<Rightarrow> sent list \<Rightarrow> bool" where
  "copy_at C reachable dest s b D ms \<longleftrightarrow>
     (if dest = ''local'' then shard_bytes (rc_root C) D (s_fragment_id s) = Some b
      else \<exists>a f. map_of reachable dest = Some a
             \<and> (a, StoreShard (s_fragment_id s) (id_peer_id (rc_ident C)) (as_i32 (s_shard_index s)) b, Ok (Ack f)) \<in> set ms)"

lemma place_copy:
  assumes "place_shard C reachable dest (s_fragment_id s) (as_i32 (s_shard_index s)) b S = (good, S')"
    and "rc_net C = spy net" "no_torn_writes (site_disk S)" "sent_only log plain (si_net S)"
  shows "sent_only log plain (si_net S') \<and> nd_manifest (si_node S') = nd_manifest (si_node S)
    \<and> (\<forall>f. shard_bytes (rc_root C) (site_disk S') f = shard_bytes (rc_root C) (site_disk S) f
         \<or> dest = ''local'' \<and> f = s_fragment_id s \<and> shard_bytes (rc_root C) (site_disk S') f = Some b)
    \<and> (good \<longrightarrow> copy_at C reachable dest s b (site_disk S') (drop (length log) (snd (si_net S'))))"
proof (cases "dest = ''local''")
  case True
  obtain r D where w: "store_write (rc_root C) (s_fragment_id s) b (site_disk S) = (r, D)" by fastforce
  have S': "S' = S\<lparr>si_node := (si_node S)\<lparr>nd_disk := D\<rparr>\<rparr>" "good = is_ok r"
    using assms(1) True w by (simp_all add: place_shard_def write_local_def)
  have "good \<longrightarrow> shard_bytes (rc_root C) D (s_fragment_id s) = Some b"
    using store_write_get(1) [OF w] S'(2) by (cases r) (auto simp: is_ok_def)
  moreover have "shard_bytes (rc_root C) D f = shard_bytes (rc_root C) (site_disk S) f
      \<or> f = s_fragment_id s \<and> shard_bytes (rc_root C) D f = Some b" for f
    using store_write_whole [OF w assms(3)] store_write_get(2) [OF w, of f] by (cases "f = s_fragment_id s") auto
  ultimately show ?thesis using True assms(4) S'(1) by (simp add: copy_at_def site_disk_def)
next
  case False
  let ?m = "StoreShard (s_fragment_id s) (id_peer_id (rc_ident C)) (as_i32 (s_shard_index s)) b"
  show ?thesis
  proof (cases "map_of reachable dest")
    case None
    then show ?thesis using assms(1,4) False by (simp add: place_shard_def)
  next
    case (Some a)
    obtain r W where r: "signed_request (rc_env C) (rc_rng C (si_net S)) (rc_ident C) (rc_port C) (spy net a) ?m (si_net S) = (r, W)"
      by (rule prod.exhaust)
    have S': "S' = S\<lparr>si_net := W\<rparr>" "good \<longrightarrow> (\<exists>f. r = Ok (Ack f))"
      using assms(1,2) False Some r by (auto simp: place_shard_def split: result.splits p2p_message.splits)
    have "preserves (sent_only log plain) (signed_request (rc_env C) (rc_rng C (si_net S)) (rc_ident C) (rc_port C) (spy net a) ?m)"
      by (rule spy_signed) simp_all
    from preservesD [OF this assms(4) r] have W: "sent_only log plain W" .
    obtain ms where ms: "snd (si_net S) = log @ ms" using assms(4) by (auto simp: sent_only_def)
    have "\<exists>f. (a, ?m, Ok (Ack f)) \<in> set (drop (length log) (snd W))" if good
      using S'(2) that r signed_accepted [of _ _ _ _ net a ?m "si_net S" _ W] ms by fastforce
    then show ?thesis using W S'(1) False Some by (auto simp: copy_at_def site_disk_def)
  qed
qed

lemma drop_keeps:
  assumes "s_location s \<noteq> dest" "copy_at C reachable dest s b (site_disk S) ms"
  shows "copy_at C reachable dest s b (site_disk (drop_shard C reachable (s_location s) (s_fragment_id s) S)) ms
    \<and> nd_manifest (si_node (drop_shard C reachable (s_location s) (s_fragment_id s) S)) = nd_manifest (si_node S)"
  using assms by (auto simp: drop_shard_def copy_at_def site_disk_def split: option.splits)

lemma drop_sends:
  assumes "rc_net C = spy net"
  shows "\<exists>ms. snd (si_net (drop_shard C reachable loc f S)) = snd (si_net S) @ ms"
proof (cases "loc = ''local'' \<or> map_of reachable loc = None")
  case True
  then show ?thesis by (auto simp: drop_shard_def)
next
  case False
  then obtain a where a: "loc \<noteq> ''local''" "map_of reachable loc = Some a" by auto
  let ?m = "DeleteShard f (id_peer_id (rc_ident C))"
  obtain r W where r: "signed_request (rc_env C) (rc_rng C (si_net S)) (rc_ident C) (rc_port C) (spy net a) ?m (si_net S) = (r, W)"
    by (rule prod.exhaust)
  have "preserves (sent_only (snd (si_net S)) (\<lambda>_. True))
      (signed_request (rc_env C) (rc_rng C (si_net S)) (rc_ident C) (rc_port C) (spy net a) ?m)"
    by (rule spy_signed) simp_all
  from preservesD [OF this _ r] show ?thesis using a r assms by (auto simp: drop_shard_def sent_only_def)
qed

text \<open>C24. Moving a shard never costs its last copy. Whatever the network does: if a move reports success, bytes that pass
  the manifest's hash are at the destination (the local file holds them, or the peer acknowledged exactly them, before
  any deletion was sent), and the manifest names the destination; if it reports failure, no deletion was sent,
  the manifest is unchanged and no local shard file was removed or altered, except that a verified copy may
  have been written to this node.\<close>

theorem move_keeps_copy:
  assumes "rc_net C = spy net" "no_torn_writes (nd_disk (si_node S))" "move_shard C reachable s dest S = (moved, S')"
  shows "\<exists>ms more. snd (si_net S') = snd (si_net S) @ ms @ more \<and> list_all (\<lambda>(a, m, r). \<not> is_DeleteShard m) ms
    \<and> (if moved
       then nd_manifest (si_node S') = snd (set_location (s_fragment_id s) dest (nd_manifest (si_node S)))
         \<and> (\<exists>b. verify_hash (rc_env C) b (s_hash s)
              \<and> (if dest = ''local'' then shard_bytes (rc_root C) (nd_disk (si_node S')) (s_fragment_id s) = Some b
                 else \<exists>a f. map_of reachable dest = Some a
                        \<and> (a, StoreShard (s_fragment_id s) (id_peer_id (rc_ident C)) (as_i32 (s_shard_index s)) b, Ok (Ack f)) \<in> set ms))
       else more = [] \<and> nd_manifest (si_node S') = nd_manifest (si_node S)
         \<and> (\<forall>f. shard_bytes (rc_root C) (nd_disk (si_node S')) f = shard_bytes (rc_root C) (nd_disk (si_node S)) f
              \<or> dest = ''local'' \<and> f = s_fragment_id s
                 \<and> (\<exists>b. shard_bytes (rc_root C) (nd_disk (si_node S')) f = Some b \<and> verify_hash (rc_env C) b (s_hash s))))"
proof (cases "s_location s = dest")
  case True
  then show ?thesis using assms(3) by (intro exI [of _ "[]"]) (simp add: move_shard_def)
next
  case False
  obtain r S1 where f: "fetch_shard C reachable s S = (r, S1)" by fastforce
  have "sent_only (snd (si_net S)) plain (si_net S1) \<and> S1 = S\<lparr>si_net := si_net S1\<rparr>"
    by (rule fetch_shard_sends [OF f assms(1)]) simp_all
  then have s1: "sent_only (snd (si_net S)) plain (si_net S1)" and node: "si_node S1 = si_node S"
    by (simp, metis site.select_convs(1) site.surjective site.update_convs(2))
  show ?thesis
  proof (cases "r = None \<or> \<not> verify_hash (rc_env C) (the r) (s_hash s)")
    case True
    then have "moved = False" "S' = S1" using assms(3) False f by (auto simp: move_shard_def verify_hash_def split: option.splits)
    moreover from s1 obtain ms where "snd (si_net S1) = snd (si_net S) @ ms" "list_all (\<lambda>(a, m, r). plain m) ms" by (auto simp: sent_only_def)
    ultimately show ?thesis using node by (intro exI [of _ ms] exI [of _ "[]"]) (simp add: plain_def)
  next
    case v: False
    then obtain b where b: "r = Some b" "verify_hash (rc_env C) b (s_hash s)" by auto
    obtain good S2 where p: "place_shard C reachable dest (s_fragment_id s) (as_i32 (s_shard_index s)) b S1 = (good, S2)" by fastforce
    have torn: "no_torn_writes (site_disk S1)" using assms(2) node by (simp add: site_disk_def)
    note pc = place_copy [OF p assms(1) torn s1]
    from pc obtain ms where ms: "snd (si_net S2) = snd (si_net S) @ ms" "list_all (\<lambda>(a, m, r). plain m) ms" by (auto simp: sent_only_def)
    have d1: "site_disk S1 = nd_disk (si_node S)" using node by (simp add: site_disk_def)
    show ?thesis
    proof (cases good)
      case False
      then have "moved = False" "S' = S2"
        using assms(3) \<open>s_location s \<noteq> dest\<close> f b p by (auto simp: move_shard_def verify_hash_def)
      then show ?thesis
        using ms pc b(2) node d1 by (intro exI [of _ ms] exI [of _ "[]"]) (auto simp: plain_def site_disk_def)
    next
      case True
      let ?S3 = "S2\<lparr>si_node := snd (on_db (set_location (s_fragment_id s) dest) (si_node S2))\<rparr>"
      have S': "moved" "S' = drop_shard C reachable (s_location s) (s_fragment_id s) ?S3"
        using assms(3) \<open>s_location s \<noteq> dest\<close> f b p True by (auto simp: move_shard_def verify_hash_def Let_def)
      have S3: "site_disk ?S3 = site_disk S2" "nd_manifest (si_node ?S3) = snd (set_location (s_fragment_id s) dest (nd_manifest (si_node S)))"
        using pc node by (auto simp: site_disk_def on_db_def split: prod.splits)
      have "copy_at C reachable dest s b (site_disk ?S3) ms" using pc True ms(1) unfolding S3(1) by simp
      note dk = drop_keeps [OF \<open>s_location s \<noteq> dest\<close> this, folded S'(2)]
      obtain more where "snd (si_net S') = snd (si_net ?S3) @ more" using drop_sends [OF assms(1)] unfolding S'(2) by blast
      then have "snd (si_net S') = snd (si_net S) @ ms @ more" using ms(1) by simp
      then show ?thesis using ms(2) dk S3(2) b(2) S'(1)
        by (intro exI [of _ ms] exI [of _ more]) (auto simp: copy_at_def plain_def site_disk_def)
    qed
  qed
qed

section \<open>Examples\<close>

theorem rebalance_stable_witness:
  "rebalance_chunk (quiet_ctx no_network) (\<lambda>xs. xs) [] (\<lambda>_. 14) [] demo_rows (0, hurt_site ()) = Some (0, hurt_site ())
   \<and> length (filter (\<lambda>s. s_location s = ''local'') demo_rows) = 14"
proof -
  have "filter (\<lambda>s. s_location s = loc) demo_rows = (if loc = ''local'' then demo_rows else [])" for loc
    by (auto simp: demo_rows_def filter_empty_conv intro!: filter_True)
  moreover have "length demo_rows = 14" by (simp add: demo_rows_def total_14)
  ultimately have n: "length (filter (\<lambda>s. s_location s = loc) demo_rows) = (if loc = ''local'' then 14 else 0)" for loc by simp
  have "rebalance_chunk (quiet_ctx no_network) (\<lambda>xs. xs) [] (\<lambda>_. 14) [] demo_rows (0, hurt_site ()) = Some (0, hurt_site ())"
    by (rule rebalance_stable) (simp_all add: n)
  then show ?thesis by (simp add: n)
qed

text \<open>A peer that acknowledges everything: the shard is moved to it.\<close>

definition ack_network :: "string \<Rightarrow> 'w link" where
  "ack_network a = \<lparr>ln_connect = (\<lambda>w. (Ok (), w)), ln_exchange = (\<lambda>m w. (Ok (Ack ''x''), w))\<rparr>"

lemma ack_signed:
  "\<exists>W'. signed_request bind_env None ident port (spy ack_network a) m W = (Ok (Ack ''x''), W')"
proof -
  have r: "\<exists>W'. request (spy ack_network a) m W = (Ok (Ack ''x''), W')"
    by (cases W) (simp add: request_def sbind_def spy_def ack_network_def)
  have "authenticated_session bind_env None (spy ack_network a) signer me port m W = (Err (io_of_auth AuthRng), W)" for signer me
    by (cases W) (simp add: authenticated_session_def sbind_def spy_def ack_network_def random_nonce_def slift_def)
  then show ?thesis using r by (cases "node_signer bind_env ident") (auto simp: signed_request_def authenticated_request_def io_of_auth_def)
qed

theorem move_keeps_copy_witness:
  "case move_shard (quiet_ctx (spy ack_network)) [(''ann'', ''a:1'')] (demo_rows ! 1) ''ann'' (hurt_site ((), [])) of (moved, S') \<Rightarrow>
     moved \<and> list_ex (\<lambda>(a, m, r). a = ''a:1'' \<and> is_StoreShard m) (snd (si_net S'))"
proof -
  let ?C = "quiet_ctx (spy ack_network) :: (int, unit \<times> sent list) repair_ctx" and ?S = "hurt_site ((), [] :: sent list)" and ?s = "demo_rows ! 1"
  let ?peers = "[(''ann'', ''a:1'')]"
  have s: "s_location ?s = ''local''" "s_fragment_id ?s = demo_fid 1" "s_hash ?s = shard_hash bind_env (replicate 64 7)"
    by (simp_all add: demo_rows_def total_14)
  have c: "rc_net ?C = spy ack_network" "rc_env ?C = bind_env" "rc_root ?C = [''data'']" "\<And>w. rc_rng ?C w = None"
    by (simp_all add: quiet_ctx_def)
  have D: "site_disk ?S = hurt_disk" "nd_disk (si_node ?S) = hurt_disk" by (simp_all add: hurt_site_def site_disk_def)
  have b: "shard_bytes [''data''] hurt_disk (demo_fid 1) = Some (replicate 64 7)" using hurt_bytes [of 1] by (simp add: total_14)
  have f: "fetch_shard ?C ?peers ?s ?S = (Some (replicate 64 7), ?S)"
    using fetch_local [of ?S ?s ?C ?peers] hurt_sound(1) b s c D by (simp add: verify_hash_def)
  obtain moved S' where m: "move_shard ?C ?peers ?s ''ann'' ?S = (moved, S')" by fastforce
  obtain W where "signed_request bind_env None (rc_ident ?C) (rc_port ?C) (spy ack_network ''a:1'')
      (StoreShard (demo_fid 1) (id_peer_id (rc_ident ?C)) (as_i32 (s_shard_index ?s)) (replicate 64 7)) (si_net ?S) = (Ok (Ack ''x''), W)"
    using ack_signed by blast
  then have "moved" using m f s c by (simp add: move_shard_def place_shard_def Let_def)
  moreover have "no_torn_writes (nd_disk (si_node ?S))" using hurt_sound(2) D(2) by simp
  note k = move_keeps_copy [OF c(1) this m]
  ultimately obtain ms more a f b where e: "snd (si_net S') = snd (si_net ?S) @ ms @ more" "map_of ?peers ''ann'' = Some a"
    "(a, StoreShard (s_fragment_id ?s) (id_peer_id (rc_ident ?C)) (as_i32 (s_shard_index ?s)) b, Ok (Ack f)) \<in> set ms"
    by auto
  have "list_ex (\<lambda>(a, m, r). a = ''a:1'' \<and> is_StoreShard m) (snd (si_net S'))"
    unfolding list_ex_iff e(1) using e(2,3) by (intro bexI [OF _ UnI2 [OF UnI1]] bexI [of _ "(a, StoreShard (s_fragment_id ?s) (id_peer_id (rc_ident ?C)) (as_i32 (s_shard_index ?s)) b, Ok (Ack f))"]) auto
  then show ?thesis using m \<open>moved\<close> by simp
qed

end
