(* ===== verification/Reading.thy ===== *)
theory Reading
  imports RepairProps Quotas
begin

text \<open>
  The read side of \<open>server/src/handlers/files.rs\<close>: downloads through the network, the health report of a file and its
  placement map. The state is the site of the repair pass: node, network, database.

  Tasks run at the same time are taken one after the other, in the order in which they finish: \<open>order\<close> gives that of the
  fourteen requests of a chunk (without those whose task died), \<open>done_at\<close> picks at every step which of the chunks in flight is done. A
  request that is cancelled because ten shards have come is not sent. Timeouts are failures of a link.
\<close>

section \<open>Fetching the shards of a chunk\<close>

definition READ_CHUNK_WINDOW :: nat where
  "READ_CHUNK_WINDOW = 4"

type_synonym chunk_fetch = "nat \<times> chunk_row \<times> bytes option list"
type_synonym peer_addrs = "(string \<times> string) list"

definition fetch_shard_for_read :: "('f, 'w) repair_ctx \<Rightarrow> peer_addrs \<Rightarrow> shard_row \<Rightarrow> ('f, 'w) site
    \<Rightarrow> (nat \<times> bytes option) \<times> ('f, 'w) site" where
  "fetch_shard_for_read C peers s S =
     (let idx = usize_of_i64 (s_shard_index s)
      in if s_location s = ''local''
         then ((idx, read_local_verified (rc_env C) (rc_root C) (site_disk S) (s_fragment_id s) (s_hash s)), S)
         else case map_of peers (s_location s) of
                None \<Rightarrow> ((idx, None), S)
              | Some addr \<Rightarrow>
                  (case request (rc_net C addr) (GetShard (s_fragment_id s)) (si_net S) of
                     (Ok (ShardData _ data), w) \<Rightarrow>
                       ((idx, if verify_hash (rc_env C) data (s_hash s) then Some data else None), S\<lparr>si_net := w\<rparr>)
                   | (_, w) \<Rightarrow> ((idx, None), S\<lparr>si_net := w\<rparr>)))"

fun gather_shards :: "('f, 'w) repair_ctx \<Rightarrow> peer_addrs \<Rightarrow> shard_row list \<Rightarrow> bytes option list \<Rightarrow> nat \<Rightarrow> ('f, 'w) site
    \<Rightarrow> bytes option list \<times> ('f, 'w) site" where
  "gather_shards C peers [] held got S = (held, S)"
| "gather_shards C peers (s # ss) held got S =
     (case fetch_shard_for_read C peers s S of
        ((idx, None), S') \<Rightarrow> gather_shards C peers ss held got S'
      | ((idx, Some bytes), S') \<Rightarrow>
          if idx \<ge> length held then gather_shards C peers ss held got S'
          else
            let (held', got') =
                  (if held ! idx = None then (held[idx := Some bytes], got + 1) else (held, got))
            in if got' \<ge> DATA_SHARDS then (held', S') else gather_shards C peers ss held' got' S')"

definition fetch_chunk_shards :: "('f, 'w) repair_ctx \<Rightarrow> (shard_row list \<Rightarrow> shard_row list) \<Rightarrow> peer_addrs \<Rightarrow> shard_row list
    \<Rightarrow> ('f, 'w) site \<Rightarrow> bytes option list \<times> ('f, 'w) site" where
  "fetch_chunk_shards C order peers shards S =
     gather_shards C peers (order shards) (replicate TOTAL_SHARDS None) 0 S"

section \<open>The sliding window over the chunks\<close>

text \<open>One turn of the loop: a chunk in flight finishes and the next of the queue is started.\<close>

function read_window :: "('f, 'w) repair_ctx \<Rightarrow> (shard_row list \<Rightarrow> shard_row list) \<Rightarrow> (nat \<Rightarrow> nat) \<Rightarrow> peer_addrs \<Rightarrow> nat
    \<Rightarrow> (nat \<times> chunk_row \<times> shard_row list) list \<Rightarrow> (nat \<times> chunk_row \<times> shard_row list) list \<Rightarrow> chunk_fetch list
    \<Rightarrow> ('f, 'w) site \<Rightarrow> chunk_fetch list \<times> ('f, 'w) site" where
  "read_window C order done_at peers k flight queue fetched S =
     (if flight = [] then (fetched, S)
      else
        let j = done_at k mod length flight;
            (i, c, shards) = flight ! j;
            (held, S') = fetch_chunk_shards C order peers shards S
        in read_window C order done_at peers (k + 1) (take j flight @ drop (j + 1) flight @ take 1 queue) (drop 1 queue)
             (fetched @ [(i, c, held)]) S')"
  by pat_completeness auto

termination
proof (relation "measure (\<lambda>(C, order, done_at, peers, k, flight, queue, fetched, S). length flight + length queue)")
  fix flight queue :: "(nat \<times> chunk_row \<times> shard_row list) list" and done_at :: "nat \<Rightarrow> nat" and k j
  assume "flight \<noteq> []" "j = done_at k mod length flight"
  then have "j < length flight" by simp
  then have "length (take j flight @ drop (j + 1) flight @ take 1 queue) + length (drop 1 queue) < length flight + length queue"
    by (cases queue) auto
  then show "((C, order, done_at, peers, k + 1, take j flight @ drop (j + 1) flight @ take 1 queue, drop 1 queue, f', S'),
      C, order, done_at, peers, k, flight, queue, f, S)
    \<in> measure (\<lambda>(C, order, done_at, peers, k, flight, queue, fetched, S). length flight + length queue)" for C order peers f f' S S'
    by simp
qed simp

declare read_window.simps [simp del]

section \<open>Downloads\<close>

type_synonym ('f, 'w, 'a) site_op = "(('f, 'w) site, 'a, api_error) op"

definition known_peers :: "'f repair_db \<Rightarrow> peer_addrs" where
  "known_peers db =
     (if rd_ok db SelectPeers
      then map (\<lambda>(pid, row). (pid, pe_addr row)) (filter (\<lambda>(pid, row). pe_status row \<noteq> ''down'') (rd_peers db))
      else [])"

definition fetch_plan :: "string \<Rightarrow> string \<Rightarrow> ('f, 'w, file_row \<times> (chunk_row \<times> shard_row list) list) site_op" where
  "fetch_plan uid file_id S = (map_err Store (pull_plan uid file_id (nd_manifest (si_node S))), S)"

definition fetch_and_reassemble :: "('f, 'w) repair_ctx \<Rightarrow> (shard_row list \<Rightarrow> shard_row list) \<Rightarrow> (nat \<Rightarrow> nat) \<Rightarrow> file_row
    \<Rightarrow> (chunk_row \<times> shard_row list) list \<Rightarrow> ('f, 'w, bytes) site_op" where
  "fetch_and_reassemble C order done_at file plan S =
     (let peers = known_peers (si_db S);
          queue = enumerate 0 plan;
          (fetched, S') =
            read_window C order done_at peers 0 (take READ_CHUNK_WINDOW queue) (drop READ_CHUNK_WINDOW queue) [] S
      in (map_err Store (reassemble (rc_env C) (rc_ident C) file (map snd (sort_key fst fetched))), S'))"

definition reconstruct_file :: "('f, 'w) repair_ctx \<Rightarrow> (shard_row list \<Rightarrow> shard_row list) \<Rightarrow> (nat \<Rightarrow> nat) \<Rightarrow> string \<Rightarrow> string
    \<Rightarrow> ('f, 'w, bytes) site_op" where
  "reconstruct_file C order done_at uid file_id =
     sbind (fetch_plan uid file_id) (\<lambda>(file, plan).
       case f_pack_id file of
         None \<Rightarrow> fetch_and_reassemble C order done_at file plan
       | Some pack_id \<Rightarrow>
           sbind (fetch_plan uid pack_id) (\<lambda>(pack, pack_plan).
             if f_pack_id pack \<noteq> None
             then slift (Err (Store (Integrity (''pack '' @ pack_id @ '' is itself a pack member''))))
             else sbind (fetch_and_reassemble C order done_at pack pack_plan)
                    (\<lambda>plain. slift (map_err Store (member_slice plain file)))))"

definition download :: "('f, 'w) repair_ctx \<Rightarrow> (shard_row list \<Rightarrow> shard_row list) \<Rightarrow> (nat \<Rightarrow> nat) \<Rightarrow> string \<Rightarrow> string
    \<Rightarrow> ('f, 'w, bytes) site_op" where
  "download C order done_at user file_id = reconstruct_file C order done_at user file_id"

definition download_path :: "('f, 'w) repair_ctx \<Rightarrow> (shard_row list \<Rightarrow> shard_row list) \<Rightarrow> (nat \<Rightarrow> nat) \<Rightarrow> string \<Rightarrow> string
    \<Rightarrow> ('f, 'w, bytes) site_op" where
  "download_path C order done_at user path S =
     (case get_file_by_path user path (nd_manifest (si_node S)) of
        None \<Rightarrow> (Err NoSuchEntry, S)
      | Some file \<Rightarrow> reconstruct_file C order done_at user (f_file_id file) S)"

section \<open>Health and placement of a file\<close>

fun ping_all :: "('f, 'w) repair_ctx \<Rightarrow> peer_addrs \<Rightarrow> 'w \<Rightarrow> peer_addrs \<times> 'w" where
  "ping_all C [] w = ([], w)"
| "ping_all C ((pid, addr) # ps) w =
     (case ping (rc_net C addr) (id_peer_id (rc_ident C)) (rc_port C) w of
        (r, w1) \<Rightarrow>
          (case ping_all C ps w1 of (live, w2) \<Rightarrow> (if is_ok r then (pid, addr) # live else live, w2)))"

definition shard_reachable :: "('f, 'w) repair_ctx \<Rightarrow> peer_addrs \<Rightarrow> disk \<Rightarrow> shard_row \<Rightarrow> 'w \<Rightarrow> bool \<times> 'w" where
  "shard_reachable C live D s w =
     (if s_location s = ''local'' then (store_exists (rc_root C) D (s_fragment_id s), w)
      else case map_of live (s_location s) of
             None \<Rightarrow> (False, w)
           | Some addr \<Rightarrow> (case has_shard (rc_net C addr) (s_fragment_id s) w of (r, w') \<Rightarrow> (r = Ok True, w')))"

fun count_reachable :: "('f, 'w) repair_ctx \<Rightarrow> peer_addrs \<Rightarrow> disk \<Rightarrow> shard_row list \<Rightarrow> 'w \<Rightarrow> nat \<times> 'w" where
  "count_reachable C live D [] w = (0, w)"
| "count_reachable C live D (s # ss) w =
     (case shard_reachable C live D s w of
        (good, w1) \<Rightarrow>
          (case count_reachable C live D ss w1 of (n, w2) \<Rightarrow> ((if good then 1 else 0) + n, w2)))"

fun min_reachable_of :: "('f, 'w) repair_ctx \<Rightarrow> peer_addrs \<Rightarrow> disk \<Rightarrow> (chunk_row \<times> shard_row list) list \<Rightarrow> nat \<Rightarrow> 'w \<Rightarrow> nat \<times> 'w" where
  "min_reachable_of C live D [] least w = (least, w)"
| "min_reachable_of C live D ((c, shards) # plan) least w =
     (case count_reachable C live D shards w of
        (n, w') \<Rightarrow> min_reachable_of C live D plan (min least n) w')"

record health_report =
  hr_file :: file_row
  hr_chunks :: nat
  hr_min_reachable :: nat
  hr_fully_redundant :: bool
  hr_recoverable :: bool
  hr_single_failure_safe :: bool
  hr_at_risk :: bool

definition file_health :: "('f, 'w) repair_ctx \<Rightarrow> string \<Rightarrow> string \<Rightarrow> ('f, 'w, health_report) site_op" where
  "file_health C user file_id =
     sbind (fetch_plan user file_id) (\<lambda>(file, own).
     sbind (case f_pack_id file of
              Some pack_id \<Rightarrow> sbind (fetch_plan user pack_id) (\<lambda>(_, plan). sreturn plan)
            | None \<Rightarrow> sreturn own) (\<lambda>plan S.
       let peers = (if rd_ok (si_db S) SelectPeers then map (\<lambda>(pid, row). (pid, pe_addr row)) (rd_peers (si_db S)) else []);
           (live, w1) = ping_all C peers (si_net S);
           (least, w2) = min_reachable_of C live (site_disk S) plan TOTAL_SHARDS w1;
           recov = (least \<ge> DATA_SHARDS);
           margin = least - DATA_SHARDS
       in (Ok \<lparr>hr_file = file, hr_chunks = length plan, hr_min_reachable = least,
               hr_fully_redundant = (least \<ge> TOTAL_SHARDS), hr_recoverable = recov,
               hr_single_failure_safe = (margin \<ge> PARITY_SHARDS),
               hr_at_risk = (\<not> recov \<or> margin < PARITY_SHARDS)\<rparr>, S\<lparr>si_net := w2\<rparr>)))"

text \<open>Columns of a peer that the placement map shows: latency, country, status.\<close>

type_synonym 'f peer_meta = "'f option \<times> string option \<times> string"

datatype 'f shard_view = LocalView int | PeerView int string "'f peer_meta option"

definition file_placement :: "string \<Rightarrow> string
    \<Rightarrow> ('f, 'w, file_row \<times> (int \<times> 'f shard_view list) list \<times> (string \<times> nat \<times> 'f peer_meta option) list) site_op" where
  "file_placement user file_id =
     sbind (fetch_plan user file_id) (\<lambda>(file, plan) S.
       let rows = (if rd_ok (si_db S) SelectPeers then rd_peers (si_db S) else []);
           meta = map_of (map (\<lambda>(pid, row). (pid, pe_rtt_ms row, pe_country row, pe_status row)) rows);
           view = (\<lambda>s. if s_location s = ''local'' then LocalView (s_shard_index s)
                       else PeerView (s_shard_index s) (s_location s) (meta (s_location s)));
           by_location = fold (\<lambda>s. vote (s_location s)) (concat (map snd plan)) []
       in (Ok (file, map (\<lambda>(c, shards). (c_idx c, map view shards)) plan,
               map (\<lambda>(loc, n). (loc, n, if loc = ''local'' then None else meta loc)) by_location), S))"

end
