(* ===== verification/Distribute.thy ===== *)
theory Distribute
  imports Rebalance Reading
begin

text \<open>
  \<open>distribute_shards\<close> of \<open>server/src/handlers/files.rs\<close>, which spreads the shards of a new file over the peers, and the client of the
  country lookup it uses (\<open>server/src/maps_geoip.rs\<close>). The service that resolves countries is an argument, as are the
  parsers of addresses. The shards are sent at the same time: \<open>order\<close> is the order in which the tasks finish, each taken as one
  step. The update of the manifest after a transfer is a call whose result the code ignores: \<open>recorded\<close> says for
  which fragments it goes through.
\<close>

section \<open>Where peers may be\<close>

datatype geo_outcome = Resolved "string option" | Unavailable

text \<open>The answer of the service: a status, and a body with the columns \<open>available\<close> and \<open>country\<close> if it can be parsed.\<close>

definition country :: "(string \<Rightarrow> (bool \<times> (bool \<times> string option) option) option) \<Rightarrow> string \<Rightarrow> geo_outcome" where
  "country maps ip =
     (case maps ip of
        Some (True, Some (True, c)) \<Rightarrow> Resolved c
      | _ \<Rightarrow> Unavailable)"

definition allow_list :: "string list \<Rightarrow> string list \<Rightarrow> string list" where
  "allow_list instance_allow geoip_allow = (if instance_allow = [] then geoip_allow else instance_allow)"

text \<open>\<open>None\<close> when a country cannot be resolved: nothing is distributed then.\<close>

fun vet_peers :: "(string \<Rightarrow> (bool \<times> (bool \<times> string option) option) option) \<Rightarrow> string list \<Rightarrow> (string \<times> 'f peer_row) list
    \<Rightarrow> 'f repair_db \<Rightarrow> (string \<times> 'f peer_row) list option \<times> 'f repair_db" where
  "vet_peers maps allow [] db = (Some [], db)"
| "vet_peers maps allow ((pid, row) # rows) db =
     (let found =
            (case pe_country row of
               Some c \<Rightarrow> Some (Some c, db)
             | None \<Rightarrow>
                 (case country maps (coalesce (before_last_colon (pe_addr row)) (pe_addr row)) of
                    Unavailable \<Rightarrow> None
                  | Resolved None \<Rightarrow> Some (None, db)
                  | Resolved (Some cc) \<Rightarrow>
                      Some (Some cc, if rd_ok db (UpdateCountry pid) then update_peer pid (\<lambda>r. r\<lparr>pe_country := Some cc\<rparr>) db else db)))
      in case found of
           None \<Rightarrow> (None, insert_event GeoUnavailable db)
         | Some (c, db1) \<Rightarrow>
             (case vet_peers maps allow rows db1 of
                (None, db2) \<Rightarrow> (None, db2)
              | (Some kept, db2) \<Rightarrow> (Some (if jurisdiction_allowed allow c then (pid, row) # kept else kept), db2)))"

section \<open>Sending a shard out\<close>

fun try_peers :: "('f, 'w) repair_ctx \<Rightarrow> string \<Rightarrow> int \<Rightarrow> bytes \<Rightarrow> peer_addrs \<Rightarrow> 'w \<Rightarrow> string option \<times> 'w" where
  "try_peers C fr idx bytes [] w = (None, w)"
| "try_peers C fr idx bytes ((pid, addr) # ps) w =
     (case signed_request (rc_env C) (rc_rng C w) (rc_ident C) (rc_port C) (rc_net C addr)
             (StoreShard fr (id_peer_id (rc_ident C)) idx bytes) w of
        (Ok (Ack _), w') \<Rightarrow> (Some pid, w')
      | (_, w') \<Rightarrow> try_peers C fr idx bytes ps w')"

text \<open>The primary peer and the next ones after it, three at most.\<close>

definition failover :: "peer_addrs \<Rightarrow> nat \<Rightarrow> peer_addrs" where
  "failover peers primary = map (\<lambda>off. peers ! ((primary + off) mod length peers)) [0..<min (length peers) 3]"

definition send_out :: "('f, 'w) repair_ctx \<Rightarrow> (string \<Rightarrow> bool) \<Rightarrow> peer_addrs \<Rightarrow> string \<times> nat \<times> int \<Rightarrow> ('f, 'w) site \<Rightarrow> ('f, 'w) site" where
  "send_out C recorded peers job S =
     (case job of (fr, primary, idx) \<Rightarrow>
       case read_local (rc_root C) (site_disk S) fr of
         None \<Rightarrow> S
       | Some bytes \<Rightarrow>
           (case try_peers C fr idx bytes (failover peers primary) (si_net S) of
              (None, w) \<Rightarrow> S\<lparr>si_net := w\<rparr>
            | (Some pid, w) \<Rightarrow>
                let N = (if recorded fr then snd (on_db (set_location fr pid) (si_node S)) else si_node S)
                in S\<lparr>si_net := w, si_node := N\<lparr>nd_disk := snd (store_delete (rc_root C) fr (nd_disk N))\<rparr>\<rparr>))"

definition placements_of :: "placement list \<Rightarrow> (chunk_row \<times> shard_row list) list \<Rightarrow> (string \<times> nat \<times> int) list" where
  "placements_of layout plan =
     List.map_filter (\<lambda>s.
        let i = usize_of_i64 (s_shard_index s)
        in if i < length layout then map_option (\<lambda>p. (s_fragment_id s, p, as_i32 (s_shard_index s))) (layout ! i) else None)
       (concat (map snd plan))"

definition distribute_shards :: "('f, 'w) repair_ctx \<Rightarrow> ((string \<times> nat \<times> int) list \<Rightarrow> (string \<times> nat \<times> int) list) \<Rightarrow> (string \<Rightarrow> bool)
    \<Rightarrow> (string \<Rightarrow> (bool \<times> (bool \<times> string option) option) option) \<Rightarrow> string list \<Rightarrow> string list
    \<Rightarrow> (string \<Rightarrow> ip_addr option) \<Rightarrow> (string \<Rightarrow> sock_addr option) \<Rightarrow> string \<Rightarrow> string \<Rightarrow> ('f, 'w) site \<Rightarrow> ('f, 'w) site" where
  "distribute_shards C order recorded maps instance_allow geoip_allow parse_ip parse_sock user file_id S =
     (let rows = (if rd_ok (si_db S) SelectPeers
                  then filter (\<lambda>(pid, row). pid \<noteq> id_peer_id (rc_ident C) \<and> pe_status row \<noteq> ''down'') (rd_peers (si_db S))
                  else []);
          allow = allow_list instance_allow geoip_allow;
          (vetted, db) = (if allow = [] then (Some rows, si_db S) else vet_peers maps allow rows (si_db S));
          S1 = S\<lparr>si_db := db\<rparr>
      in case vetted of
           None \<Rightarrow> S1
         | Some kept \<Rightarrow>
             let (measured, w) = measure_peers C kept (si_net S1);
                 S2 = S1\<lparr>si_net := w\<rparr>;
                 live = near_first (rc_env C) measured;
                 peers = map (\<lambda>p. (lp_peer_id p, lp_addr p)) live
             in if live = [] then S2
                else case pull_plan user file_id (nd_manifest (si_node S2)) of
                       Ok (_, plan) \<Rightarrow>
                         let candidates = map (\<lambda>p. \<lparr>pc_rtt_ms = lp_rtt p,
                                            pc_zone = (case lp_zone p of Some z \<Rightarrow> Some z | None \<Rightarrow> zone_of_addr parse_ip parse_sock (lp_addr p)),
                                            pc_reliability = lp_reliability p\<rparr>) live;
                             layout = plan_placement_zoned (rc_env C) candidates None TOTAL_SHARDS PARITY_SHARDS
                         in fold (send_out C recorded peers) (order (placements_of layout plan)) S2
                     | _ \<Rightarrow> S2)"

end
