(* ===== verification/DistributeProps.thy ===== *)
theory DistributeProps
  imports Distribute
begin

text \<open>
  What spreading a file over the peers guarantees: a shard leaves this node only for a peer that acknowledged it, and only
  peers in an allowed country are contacted by it; and what it does not: the row of a shard that left can be stale.
\<close>

section \<open>Who is contacted\<close>

definition peer_rows :: "('f, 'w) repair_ctx \<Rightarrow> 'f repair_db \<Rightarrow> (string \<times> 'f peer_row) list" where
  "peer_rows C db =
     (if rd_ok db SelectPeers
      then filter (\<lambda>(pid, row). pid \<noteq> id_peer_id (rc_ident C) \<and> pe_status row \<noteq> ''down'') (rd_peers db) else [])"

text \<open>The country by which a row is judged: the stored one, else what the service says.\<close>

definition country_of :: "(string \<Rightarrow> (bool \<times> (bool \<times> string option) option) option) \<Rightarrow> 'f peer_row \<Rightarrow> string option" where
  "country_of maps row =
     (case pe_country row of
        Some c \<Rightarrow> Some c
      | None \<Rightarrow> (case country maps (coalesce (before_last_colon (pe_addr row)) (pe_addr row)) of Resolved c \<Rightarrow> c | Unavailable \<Rightarrow> None))"

lemma vet_peers_kept:
  "vet_peers maps allow rows db = (Some kept, db') \<Longrightarrow> kept = filter (\<lambda>(pid, row). jurisdiction_allowed allow (country_of maps row)) rows"
proof (induction rows arbitrary: db kept)
  case (Cons r rows)
  obtain pid row where r: "r = (pid, row)" by force
  obtain db1 kept1 where v: "vet_peers maps allow rows db1 = (Some kept1, db')"
    "kept = (if jurisdiction_allowed allow (country_of maps row) then (pid, row) # kept1 else kept1)"
    using Cons.prems unfolding r
    by (auto simp: Let_def country_of_def split: option.splits geo_outcome.splits prod.splits)
  from Cons.IH [OF v(1)] v(2) show ?case unfolding r by simp
qed simp

lemma near_first_set: "set (near_first E ps) = set ps"
proof -
  have "set (insert_near E p qs) = insert p (set qs)" for p qs by (induction qs) auto
  then show ?thesis by (induction ps) (simp_all add: near_first_def)
qed

lemma measure_peers_rows:
  "measure_peers C rows w = (ps, w') \<Longrightarrow> p \<in> set ps \<Longrightarrow> \<exists>row. (lp_peer_id p, row) \<in> set rows \<and> lp_addr p = pe_addr row"
proof (induction rows arbitrary: w w' ps)
  case (Cons r rows)
  obtain pid row where r: "r = (pid, row)" by force
  obtain r1 w1 where a: "ping (rc_net C (pe_addr row)) (id_peer_id (rc_ident C)) (rc_port C) w = (r1, w1)" by (rule prod.exhaust)
  obtain ps2 w2 where b: "measure_peers C rows w1 = (ps2, w2)" by (rule prod.exhaust)
  have "p \<in> set ps2 \<or> lp_peer_id p = pid \<and> lp_addr p = pe_addr row"
    using Cons.prems a b unfolding r by (auto split: if_splits)
  then show ?case using Cons.IH [OF b] unfolding r by auto
qed simp

lemma where_ping: "(\<And>m r. Q (a, m, r)) \<Longrightarrow> preserves (sent_where log Q) (ping (spy net a) i p)"
  unfolding ping_def handshake_def by (intro preserve) auto

lemma measure_peers_sends:
  assumes "rc_net C = spy net" "\<forall>(pid, row) \<in> set rows. \<forall>m r. Q (pe_addr row, m, r)" "sent_where log Q w" "measure_peers C rows w = (ps, w')"
  shows "sent_where log Q w'"
  using assms(2-)
proof (induction rows arbitrary: w w' ps)
  case (Cons r rows)
  obtain pid row where r: "r = (pid, row)" by force
  obtain r1 w1 where a: "ping (spy net (pe_addr row)) (id_peer_id (rc_ident C)) (rc_port C) w = (r1, w1)" by (rule prod.exhaust)
  obtain ps2 w2 where b: "measure_peers C rows w1 = (ps2, w2)" by (rule prod.exhaust)
  have Q: "\<And>m r. Q (pe_addr row, m, r)" using Cons.prems(1) r by auto
  have "sent_where log Q w1" using preservesD [OF where_ping [of Q, OF Q] Cons.prems(2) a] .
  moreover have "w' = w2" using Cons.prems(3) a b unfolding r assms(1) by (auto simp: assms(1))
  ultimately show ?case using Cons.IH [OF _ _ b] Cons.prems(1) by auto
qed auto

lemma try_peers_sends:
  assumes "rc_net C = spy net" "\<forall>(pid, a) \<in> set ps. \<forall>m r. Q (a, m, r)" "sent_where log Q w" "try_peers C fr idx b ps w = (res, w')"
  shows "sent_where log Q w' \<and> (\<forall>pid. res = Some pid \<longrightarrow> (\<exists>a x. (pid, a) \<in> set ps
    \<and> (a, StoreShard fr (id_peer_id (rc_ident C)) idx b, Ok (Ack x)) \<in> set (drop (length log) (snd w'))))"
  using assms(2-)
proof (induction ps arbitrary: w)
  case (Cons p ps)
  obtain pid a where p: "p = (pid, a)" by force
  let ?m = "StoreShard fr (id_peer_id (rc_ident C)) idx b"
  obtain r1 w1 where s: "signed_request (rc_env C) (rc_rng C w) (rc_ident C) (rc_port C) (spy net a) ?m w = (r1, w1)" by (rule prod.exhaust)
  have Q: "\<And>m r. Q (a, m, r)" using Cons.prems(1) p by auto
  have w1: "sent_where log Q w1" using preservesD [OF where_signed [of Q, OF Q Q Q] Cons.prems(2) s] .
  obtain ms where ms: "snd w = log @ ms" using Cons.prems(2) by (auto simp: sent_where_def)
  show ?case
  proof (cases "\<exists>x. r1 = Ok (Ack x)")
    case True
    then obtain x where x: "r1 = Ok (Ack x)" by blast
    then have e: "res = Some pid" "w' = w1" using Cons.prems(3) s unfolding p by (auto simp: assms(1))
    have "(a, ?m, Ok (Ack x)) \<in> set (drop (length log) (snd w1))"
      using signed_accepted [OF s [unfolded x]] ms by fastforce
    then show ?thesis using w1 e p by auto
  next
    case False
    then have "try_peers C fr idx b ps w1 = (res, w')"
      using Cons.prems(3) s unfolding p by (auto simp: assms(1) split: result.splits p2p_message.splits)
    from Cons.IH [OF _ w1 this] Cons.prems(1) show ?thesis by (auto 4 4)
  qed
qed simp

lemma failover_set: "peers \<noteq> [] \<Longrightarrow> set (failover peers i) \<subseteq> set peers"
  by (auto simp: failover_def)

section \<open>What leaves the node\<close>

text \<open>Peer \<open>pid\<close> acknowledged the bytes of fragment \<open>f\<close>.\<close>

definition acked :: "string \<Rightarrow> peer_addrs \<Rightarrow> sent list \<Rightarrow> string \<Rightarrow> string \<Rightarrow> bytes \<Rightarrow> bool" where
  "acked mine peers ms f pid b \<longleftrightarrow> (\<exists>a idx x. (pid, a) \<in> set peers \<and> (a, StoreShard f mine idx b, Ok (Ack x)) \<in> set ms)"

lemma acked_mono: "acked mine peers ms f pid b \<Longrightarrow> set ms \<subseteq> set ms' \<Longrightarrow> set peers \<subseteq> set peers' \<Longrightarrow> acked mine peers' ms' f pid b"
  unfolding acked_def by blast

text \<open>The shards of a file of a user: those of its chunks.\<close>

definition owned :: "string \<Rightarrow> string \<Rightarrow> manifest \<Rightarrow> string set" where
  "owned user fid M =
     (if get_file user fid M = None then {}
      else {f. list_ex (\<lambda>s. s_fragment_id s = f \<and> list_ex (\<lambda>c. c_file_id c = fid \<and> c_chunk_id c = s_chunk_id s) (m_chunks M)) (m_shards M)})"

text \<open>A shard file is as it was, or it is one of the fragments \<open>frs\<close>, it is gone and a peer has acknowledged its bytes; a row is as it was, or it is
  of one of these fragments and names such a peer, and it does so if the file is gone and the update was recorded.\<close>

definition spread :: "string set \<Rightarrow> file_path \<Rightarrow> string \<Rightarrow> (string \<Rightarrow> bool) \<Rightarrow> peer_addrs \<Rightarrow> sent list \<Rightarrow> node \<Rightarrow> node \<Rightarrow> bool" where
  "spread frs root mine recorded peers ms N0 N \<longleftrightarrow>
     (\<forall>f. shard_bytes root (nd_disk N) f = shard_bytes root (nd_disk N0) f
        \<or> f \<in> frs \<and> shard_bytes root (nd_disk N) f = None \<and> (\<exists>b. shard_bytes root (nd_disk N0) f = Some b \<and> (\<exists>pid. acked mine peers ms f pid b)
            \<and> (recorded f \<longrightarrow> (\<forall>s \<in> set (m_shards (nd_manifest N)). s_fragment_id s = f \<longrightarrow> acked mine peers ms f (s_location s) b))))
     \<and> nd_manifest N = (nd_manifest N0)\<lparr>m_shards := m_shards (nd_manifest N)\<rparr>
     \<and> list_all2 (\<lambda>s s'. s' = s \<or> s_fragment_id s \<in> frs \<and> (\<exists>b. shard_bytes root (nd_disk N0) (s_fragment_id s) = Some b
            \<and> acked mine peers ms (s_fragment_id s) (s_location s') b \<and> s' = s\<lparr>s_location := s_location s'\<rparr>))
         (m_shards (nd_manifest N0)) (m_shards (nd_manifest N))"

lemma spread_refl [simp]: "spread frs root mine recorded peers [] N N"
  by (simp add: spread_def list_all2_refl)

lemma spread_mono:
  assumes "spread frs root mine recorded peers ms N0 N" "set ms \<subseteq> set ms'" "set peers \<subseteq> set peers'"
  shows "spread frs root mine recorded peers' ms' N0 N"
proof -
  have up: "\<And>f pid b. acked mine peers ms f pid b \<Longrightarrow> acked mine peers' ms' f pid b" using acked_mono assms(2,3) by metis
  have "list_all2 (\<lambda>s s'. s' = s \<or> s_fragment_id s \<in> frs \<and> (\<exists>b. shard_bytes root (nd_disk N0) (s_fragment_id s) = Some b
            \<and> acked mine peers' ms' (s_fragment_id s) (s_location s') b \<and> s' = s\<lparr>s_location := s_location s'\<rparr>))
         (m_shards (nd_manifest N0)) (m_shards (nd_manifest N))"
    by (rule list_all2_mono [OF conjunct2 [OF conjunct2 [OF assms(1) [unfolded spread_def]]]]) (use up in blast)
  then show ?thesis using assms(1) up unfolding spread_def by blast
qed

lemma spread_step:
  assumes "spread frs root mine recorded peers ms N0 N" "shard_bytes root (nd_disk N) f = Some b" "acked mine peers ms f pid b"
    and "N1 = (if recorded f then snd (on_db (set_location f pid) N) else N)" "f \<in> frs"
  shows "spread frs root mine recorded peers ms N0 (N1\<lparr>nd_disk := snd (store_delete root f (nd_disk N1))\<rparr>)"
proof -
  let ?D = "snd (store_delete root f (nd_disk N))" and ?M = "nd_manifest N1"
  have disk: "nd_disk N1 = nd_disk N" using assms(4) by (simp add: on_db_def split: prod.splits)
  have rows: "m_shards ?M = map (\<lambda>s. if recorded f \<and> s_fragment_id s = f then s\<lparr>s_location := pid\<rparr> else s) (m_shards (nd_manifest N))"
    and mf: "?M = (nd_manifest N)\<lparr>m_shards := m_shards ?M\<rparr>"
    using assms(4) by (simp_all add: on_db_def set_location_def set_shard_location_def)
  have b0: "shard_bytes root (nd_disk N0) f = Some b" 
    using spec [OF conjunct1 [OF assms(1) [unfolded spread_def]], of f] assms(2) by auto
  have del: "shard_bytes root ?D f = None \<or> shard_bytes root ?D f = Some b" "\<And>g. g \<noteq> f \<Longrightarrow> shard_bytes root ?D g = shard_bytes root (nd_disk N) g"
    using store_delete_get(2,3) [OF prod.collapse [of "store_delete root f (nd_disk N)", symmetric]] assms(2) by simp_all
  have same: "(s \<in> set (m_shards ?M) \<and> s_fragment_id s = g) = (s \<in> set (m_shards (nd_manifest N)) \<and> s_fragment_id s = g)" if "g \<noteq> f" for g s
    unfolding rows using that by auto
  have moved: "acked mine peers ms f (s_location s) b" if a: "recorded f" "s \<in> set (m_shards ?M)" "s_fragment_id s = f" for s
  proof -
    obtain t where t: "s = (if recorded f \<and> s_fragment_id t = f then t\<lparr>s_location := pid\<rparr> else t)" using a(2) unfolding rows set_map by blast
    then have "s_fragment_id t = f" using a(3) by (simp split: if_splits)
    then have "s_location s = pid" using t a(1) by simp
    then show ?thesis using assms(3) by simp
  qed
  have files: "shard_bytes root ?D g = shard_bytes root (nd_disk N0) g
        \<or> g \<in> frs \<and> shard_bytes root ?D g = None \<and> (\<exists>b. shard_bytes root (nd_disk N0) g = Some b \<and> (\<exists>pid. acked mine peers ms g pid b)
            \<and> (recorded g \<longrightarrow> (\<forall>s \<in> set (m_shards ?M). s_fragment_id s = g \<longrightarrow> acked mine peers ms g (s_location s) b)))" for g
  proof (cases "g = f")
    case True
    then show ?thesis using del(1) b0 assms(3,5) moved by auto
  next
    case False
    then show ?thesis
      using spec [OF conjunct1 [OF assms(1) [unfolded spread_def]], of g] same [OF False] unfolding del(2) [OF False] by blast
  qed
  have "list_all2 (\<lambda>s s'. s' = s \<or> s_fragment_id s \<in> frs \<and> (\<exists>b. shard_bytes root (nd_disk N0) (s_fragment_id s) = Some b
            \<and> acked mine peers ms (s_fragment_id s) (s_location s') b \<and> s' = s\<lparr>s_location := s_location s'\<rparr>))
         (m_shards (nd_manifest N0)) (m_shards ?M)"
    unfolding rows list_all2_map2
  proof (rule list_all2_mono [OF conjunct2 [OF conjunct2 [OF assms(1) [unfolded spread_def]]]])
    fix s t :: shard_row
    let ?t = "if recorded f \<and> s_fragment_id t = f then t\<lparr>s_location := pid\<rparr> else t"
    assume t: "t = s \<or> s_fragment_id s \<in> frs \<and> (\<exists>b. shard_bytes root (nd_disk N0) (s_fragment_id s) = Some b
        \<and> acked mine peers ms (s_fragment_id s) (s_location t) b \<and> t = s\<lparr>s_location := s_location t\<rparr>)"
    then have core: "t = s\<lparr>s_location := s_location t\<rparr>" by auto
    have "s_fragment_id t = s_fragment_id s" "t\<lparr>s_location := pid\<rparr> = s\<lparr>s_location := pid\<rparr>"
      using arg_cong [OF core, of s_fragment_id] arg_cong [OF core, of "s_location_update (\<lambda>_. pid)"] by simp_all
    then show "?t = s \<or> s_fragment_id s \<in> frs \<and> (\<exists>b. shard_bytes root (nd_disk N0) (s_fragment_id s) = Some b
        \<and> acked mine peers ms (s_fragment_id s) (s_location ?t) b \<and> ?t = s\<lparr>s_location := s_location ?t\<rparr>)"
      using t b0 assms(3,5) by auto
  qed
  moreover have "?M = (nd_manifest N0)\<lparr>m_shards := m_shards ?M\<rparr>"
    using conjunct1 [OF conjunct2 [OF assms(1) [unfolded spread_def]]] by (subst mf) (metis manifest.surjective manifest.update_convs(3))
  ultimately show ?thesis using files disk unfolding spread_def by (simp add: disk)
qed

lemma send_out_spread:
  assumes "rc_net C = spy net" "\<forall>(pid, a) \<in> set peers. \<forall>m r. Q (a, m, r)" "peers \<noteq> []"
    and "spread frs (rc_root C) (id_peer_id (rc_ident C)) recorded peers (drop (length log) (snd (si_net S))) N0 (si_node S)"
    and "sent_where log Q (si_net S)"
    and S'_def: "S' = send_out C recorded peers job S" and fr: "fst job \<in> frs"
  shows "spread frs (rc_root C) (id_peer_id (rc_ident C)) recorded peers (drop (length log) (snd (si_net S'))) N0 (si_node S')
    \<and> sent_where log Q (si_net S') \<and> si_db S' = si_db S"
proof -
  obtain fr primary idx where j: "job = (fr, primary, idx)" by (metis prod_cases3)
  let ?mine = "id_peer_id (rc_ident C)"
  show ?thesis
  proof (cases "read_local (rc_root C) (site_disk S) fr")
    case None
    then show ?thesis using assms(4,5) by (simp add: S'_def send_out_def j)
  next
    case (Some b)
    have bytes: "shard_bytes (rc_root C) (nd_disk (si_node S)) fr = Some b"
      using Some by (simp add: read_local_def store_read_Ok site_disk_def)
    obtain res w where t: "try_peers C fr idx b (failover peers primary) (si_net S) = (res, w)" by (rule prod.exhaust)
    have sub: "set (failover peers primary) \<subseteq> set peers" by (rule failover_set [OF assms(3)])
    have fo: "\<forall>(pid, a) \<in> set (failover peers primary). \<forall>m r. Q (a, m, r)"
      "\<forall>(pid, a) \<in> set (failover peers primary). \<forall>m r. (\<lambda>_. True) (a, m, r)" using assms(2) sub by (blast, simp)
    note sent = try_peers_sends [OF assms(1) fo(1) assms(5) t]
    from try_peers_sends [OF assms(1) fo(2) _ t, of "snd (si_net S)"] obtain ms where w: "snd w = snd (si_net S) @ ms"
      by (auto simp: sent_where_def)
    obtain l where l: "snd (si_net S) = log @ l" using assms(5) by (auto simp: sent_where_def)
    have up: "spread frs (rc_root C) ?mine recorded peers (drop (length log) (snd w)) N0 (si_node S)"
      by (rule spread_mono [OF assms(4)]) (simp_all add: w l)
    show ?thesis
    proof (cases res)
      case None
      then show ?thesis using up sent Some t by (simp add: S'_def send_out_def j)
    next
      case (Some pid)
      then have "acked ?mine peers (drop (length log) (snd w)) fr pid b" using sent sub unfolding acked_def by blast
      from spread_step [OF up bytes this refl] fr show ?thesis
        using \<open>read_local (rc_root C) (site_disk S) fr = Some b\<close> t Some sent by (simp add: S'_def send_out_def j Let_def)
    qed
  qed
qed

lemma send_all_spread:
  assumes "rc_net C = spy net" "\<forall>(pid, a) \<in> set peers. \<forall>m r. Q (a, m, r)" "peers \<noteq> []"
    and "spread frs (rc_root C) (id_peer_id (rc_ident C)) recorded peers (drop (length log) (snd (si_net S))) N0 (si_node S)"
    and "sent_where log Q (si_net S)" "fst ` set jobs \<subseteq> frs"
  shows "spread frs (rc_root C) (id_peer_id (rc_ident C)) recorded peers
      (drop (length log) (snd (si_net (fold (send_out C recorded peers) jobs S)))) N0 (si_node (fold (send_out C recorded peers) jobs S))
    \<and> sent_where log Q (si_net (fold (send_out C recorded peers) jobs S))"
  using assms(4-)
proof (induction jobs arbitrary: S)
  case (Cons j jobs)
  from send_out_spread [OF assms(1-3) Cons.prems(1,2) refl, of j] Cons.prems(3) show ?case using Cons.IH by simp
qed simp

section \<open>The whole distribution\<close>

definition unresolved :: "(string \<Rightarrow> (bool \<times> (bool \<times> string option) option) option) \<Rightarrow> 'f peer_row \<Rightarrow> bool" where
  "unresolved maps row \<longleftrightarrow>
     pe_country row = None \<and> country maps (coalesce (before_last_colon (pe_addr row)) (pe_addr row)) = Unavailable"

lemma vet_peers_unresolved:
  "list_ex (\<lambda>(pid, row). unresolved maps row) rows \<Longrightarrow> fst (vet_peers maps allow rows db) = None"
proof (induction rows arbitrary: db)
  case (Cons r rows)
  obtain pid row where r: "r = (pid, row)" by force
  show ?case
  proof (cases "unresolved maps row")
    case True
    then show ?thesis unfolding r by (simp add: unresolved_def)
  next
    case False
    then have "fst (vet_peers maps allow rows db) = None" for db using Cons unfolding r by simp
    then have "fst (case vet_peers maps allow rows db of (None, db2) \<Rightarrow> (None, db2)
        | (Some kept, db2) \<Rightarrow> (Some (if jurisdiction_allowed allow c then (pid, row) # kept else kept), db2)) = None" for db c
      by (metis (no_types, lifting) fst_conv old.prod.exhaust option.case(1) prod.case)
    then show ?thesis unfolding r by (auto simp: Let_def split: option.splits geo_outcome.splits)
  qed
qed simp

lemma placed_owned:
  assumes "pull_plan user fid M = Ok (f, plan)"
  shows "fst ` set (placements_of layout plan) \<subseteq> owned user fid M"
proof
  fix fr assume "fr \<in> fst ` set (placements_of layout plan)"
  then have "\<exists>s \<in> set (concat (map snd plan)). s_fragment_id s = fr"
    by (auto simp: placements_of_def List.map_filter_def Let_def split: if_splits option.splits) force
  then obtain s where s: "s \<in> set (concat (map snd plan))" "s_fragment_id s = fr" by blast
  have plan: "get_file user fid M \<noteq> None" "plan = map (\<lambda>c. (c, get_shards (c_chunk_id c) M)) (get_chunks fid M)"
    using assms by (auto simp: pull_plan_def ok_or_def split: option.splits)
  then obtain c where c: "c \<in> set (m_chunks M)" "c_file_id c = fid" "s \<in> set (m_shards M)" "c_chunk_id c = s_chunk_id s"
    using s(1) by (auto simp: get_chunks_def get_shards_def)
  then show "fr \<in> owned user fid M" using plan(1) s(2) unfolding owned_def list_ex_iff by auto
qed

lemma distribute_effect:
  assumes "rc_net C = spy net" "distribute_shards C order recorded maps instance_allow geoip_allow parse_ip parse_sock user fid S = S'"
    and order: "\<And>f plan layout. pull_plan user fid (nd_manifest (si_node S)) = Ok (f, plan) \<Longrightarrow> fst ` set (order (placements_of layout plan)) \<subseteq> frs"
  defines "good \<equiv> \<lambda>row. jurisdiction_allowed (allow_list instance_allow geoip_allow) (country_of maps row)"
  shows "\<exists>ms peers. snd (si_net S') = snd (si_net S) @ ms
    \<and> list_all (\<lambda>(a, m, r). list_ex (\<lambda>(pid, row). pe_addr row = a \<and> good row) (peer_rows C (si_db S))) ms
    \<and> list_all (\<lambda>(pid, a). list_ex (\<lambda>(q, row). q = pid \<and> pe_addr row = a \<and> good row) (peer_rows C (si_db S))) peers
    \<and> spread frs (rc_root C) (id_peer_id (rc_ident C)) recorded peers ms (si_node S) (si_node S')"
proof -
  let ?allow = "allow_list instance_allow geoip_allow" and ?rows = "peer_rows C (si_db S)"
  let ?Q = "\<lambda>(a, m, r). list_ex (\<lambda>(pid, row). pe_addr row = a \<and> good row) ?rows"
  obtain vetted db where v: "(if ?allow = [] then (Some ?rows, si_db S) else vet_peers maps ?allow ?rows (si_db S)) = (vetted, db)"
    by (rule prod.exhaust)
  have kept: "kept = filter (\<lambda>(pid, row). good row) ?rows" if "vetted = Some kept" for kept
    using v that vet_peers_kept [of maps ?allow ?rows "si_db S" kept db]
    by (auto simp: good_def jurisdiction_allowed_def filter_True split: if_splits)
  note dist = assms(2) [unfolded distribute_shards_def peer_rows_def [symmetric] Let_def v prod.case, symmetric]
  have idle: ?thesis if same: "si_node S' = si_node S" "sent_where (snd (si_net S)) ?Q (si_net S')"
  proof -
    obtain ms where "snd (si_net S') = snd (si_net S) @ ms" "list_all ?Q ms" using same(2) by (auto simp: sent_where_def)
    moreover have "spread frs (rc_root C) (id_peer_id (rc_ident C)) recorded [] ms (si_node S) (si_node S')"
      unfolding same(1) by (rule spread_mono [OF spread_refl]) simp_all
    ultimately show ?thesis by (intro exI [of _ ms] exI [of _ "[]"]) simp
  qed
  show ?thesis
  proof (cases vetted)
    case None
    then have e: "S' = S\<lparr>si_db := db\<rparr>" using dist by simp
    have s: "sent_where (snd (si_net S)) ?Q (si_net S')" unfolding e by simp
    have "si_node S' = si_node S" by (simp add: e)
    from idle [OF this s] show ?thesis .
  next
    case (Some ks)
    obtain measured w where m: "measure_peers C ks (si_net S) = (measured, w)" by (rule prod.exhaust)
    let ?live = "near_first (rc_env C) measured"
    let ?peers = "map (\<lambda>p. (lp_peer_id p, lp_addr p)) ?live" and ?S2 = "S\<lparr>si_db := db, si_net := w\<rparr>"
    have Qk: "\<forall>(pid, row) \<in> set ks. \<forall>m r. ?Q (pe_addr row, m, r)" using kept [OF Some] by (auto simp: list_ex_iff)
    have w: "sent_where (snd (si_net S)) ?Q w" by (rule measure_peers_sends [OF assms(1) Qk _ m]) simp
    have row: "\<exists>row. (pid, row) \<in> set ?rows \<and> pe_addr row = a \<and> good row" if "(pid, a) \<in> set ?peers" for pid a
      using that measure_peers_rows [OF m] kept [OF Some] by (fastforce simp: near_first_set)
    then have Qp: "\<forall>(pid, a) \<in> set ?peers. \<forall>m r. ?Q (a, m, r)" by (fastforce simp: list_ex_iff)
    show ?thesis
    proof (cases "?live = [] \<or> \<not> is_ok (pull_plan user fid (nd_manifest (si_node S)))")
      case True
      have e: "S' = ?S2" using dist True Some m by (cases "pull_plan user fid (nd_manifest (si_node S))") auto
      have s: "sent_where (snd (si_net S)) ?Q (si_net S')" unfolding e using w by simp
      have "si_node S' = si_node S" by (simp add: e)
    from idle [OF this s] show ?thesis .
    next
      case False
      then obtain f plan where pl: "pull_plan user fid (nd_manifest (si_node S)) = Ok (f, plan)" and "?live \<noteq> []" by (auto simp: is_ok_def)
      then obtain layout where S': "S' = fold (send_out C recorded ?peers) (order (placements_of layout plan)) ?S2" using dist Some m by simp
      have jobs: "fst ` set (order (placements_of layout plan)) \<subseteq> frs" by (rule order [OF pl])
      obtain l where l: "snd w = snd (si_net S) @ l" using w by (auto simp: sent_where_def)
      have "spread frs (rc_root C) (id_peer_id (rc_ident C)) recorded ?peers (drop (length (snd (si_net S))) (snd (si_net ?S2))) (si_node S) (si_node ?S2)"
        using spread_mono [OF spread_refl [of frs "rc_root C" "id_peer_id (rc_ident C)" recorded "[]" "si_node S"],
            of "drop (length (snd (si_net S))) (snd w)" ?peers] by simp
      moreover have "?peers \<noteq> []" "sent_where (snd (si_net S)) ?Q (si_net ?S2)" using \<open>?live \<noteq> []\<close> w by simp_all
      ultimately have "spread frs (rc_root C) (id_peer_id (rc_ident C)) recorded ?peers (drop (length (snd (si_net S))) (snd (si_net S'))) (si_node S) (si_node S')
          \<and> sent_where (snd (si_net S)) ?Q (si_net S')"
        unfolding S' using jobs by (intro send_all_spread [OF assms(1) Qp])
      then obtain ms where "snd (si_net S') = snd (si_net S) @ ms" "list_all ?Q ms"
        "spread frs (rc_root C) (id_peer_id (rc_ident C)) recorded ?peers ms (si_node S) (si_node S')" by (auto simp: sent_where_def)
      moreover have "list_all (\<lambda>(pid, a). list_ex (\<lambda>(q, row). q = pid \<and> pe_addr row = a \<and> good row) ?rows) ?peers"
        using row by (fastforce simp: list_all_iff list_ex_iff)
      ultimately show ?thesis by blast
    qed
  qed
qed

section \<open>Properties\<close>

text \<open>C21. Spreading a file never costs a shard and touches no other file. Whatever the network does, in whatever order the transfers finish and
  whichever updates of the manifest are recorded: a shard file of this node is untouched unless it is a shard of a chunk of that file, the user has the file
  and a peer, known and not marked down, acknowledged exactly its bytes; then it may be gone, and if the
  update was recorded every row of the shard names a peer that acknowledged it. No row changes otherwise, and nothing else of the
  manifest changes.\<close>

theorem distribute_keeps_shards:
  assumes "rc_net C = spy net" "distribute_shards C order recorded maps instance_allow geoip_allow parse_ip parse_sock user fid S = S'"
    and "\<And>js. set (order js) \<subseteq> set js"
  shows "\<exists>ms peers. snd (si_net S') = snd (si_net S) @ ms
    \<and> list_all (\<lambda>(pid, a). list_ex (\<lambda>(q, row). q = pid \<and> pe_addr row = a) (peer_rows C (si_db S))) peers
    \<and> spread (owned user fid (nd_manifest (si_node S))) (rc_root C) (id_peer_id (rc_ident C)) recorded peers ms (si_node S) (si_node S')"
proof -
  have "fst ` set (order (placements_of layout plan)) \<subseteq> owned user fid (nd_manifest (si_node S))"
    if "pull_plan user fid (nd_manifest (si_node S)) = Ok (f, plan)" for f plan layout
    using assms(3) placed_owned [OF that, of layout] by blast
  then have "\<exists>ms peers. snd (si_net S') = snd (si_net S) @ ms
    \<and> list_all (\<lambda>(a, m, r). list_ex (\<lambda>(pid, row). pe_addr row = a
       \<and> jurisdiction_allowed (allow_list instance_allow geoip_allow) (country_of maps row)) (peer_rows C (si_db S))) ms
    \<and> list_all (\<lambda>(pid, a). list_ex (\<lambda>(q, row). q = pid \<and> pe_addr row = a
       \<and> jurisdiction_allowed (allow_list instance_allow geoip_allow) (country_of maps row)) (peer_rows C (si_db S))) peers
    \<and> spread (owned user fid (nd_manifest (si_node S))) (rc_root C) (id_peer_id (rc_ident C)) recorded peers ms (si_node S) (si_node S')"
    by (rule distribute_effect [OF assms(1,2)])
  then obtain ms peers where e: "snd (si_net S') = snd (si_net S) @ ms"
    "list_all (\<lambda>(pid, a). list_ex (\<lambda>(q, row). q = pid \<and> pe_addr row = a
       \<and> jurisdiction_allowed (allow_list instance_allow geoip_allow) (country_of maps row)) (peer_rows C (si_db S))) peers"
    "spread (owned user fid (nd_manifest (si_node S))) (rc_root C) (id_peer_id (rc_ident C)) recorded peers ms (si_node S) (si_node S')" by blast
  have "list_all (\<lambda>(pid, a). list_ex (\<lambda>(q, row). q = pid \<and> pe_addr row = a) (peer_rows C (si_db S))) peers"
    using e(2) by (rule list.pred_mono_strong) (auto simp: list_ex_iff)
  then show ?thesis using e by blast
qed

text \<open>C22. Spreading a new file keeps to the allowed countries. With a list of allowed countries, from the console or else from the
  configuration, \<open>distribute_shards\<close> sends no message at all to a peer whose country, stored or resolved, is not on the list or is unknown; and if the country of any
  candidate cannot be resolved because the service does not answer, it sends nothing and every shard stays where it is. This is said of the distribution
  of uploads and new containers only: repair, rebalancing and the backup of the manifest choose their targets without this check.\<close>

theorem distribute_in_jurisdiction:
  assumes "rc_net C = spy net" "distribute_shards C order recorded maps instance_allow geoip_allow parse_ip parse_sock user fid S = S'"
  shows "(\<exists>ms. snd (si_net S') = snd (si_net S) @ ms
      \<and> list_all (\<lambda>(a, m, r). list_ex (\<lambda>(pid, row). pe_addr row = a
           \<and> jurisdiction_allowed (allow_list instance_allow geoip_allow) (country_of maps row)) (peer_rows C (si_db S))) ms)
    \<and> (allow_list instance_allow geoip_allow \<noteq> [] \<and> list_ex (\<lambda>(pid, row). unresolved maps row) (peer_rows C (si_db S))
         \<longrightarrow> si_net S' = si_net S \<and> si_node S' = si_node S)"
proof (intro conjI impI)
  show "\<exists>ms. snd (si_net S') = snd (si_net S) @ ms
      \<and> list_all (\<lambda>(a, m, r). list_ex (\<lambda>(pid, row). pe_addr row = a
           \<and> jurisdiction_allowed (allow_list instance_allow geoip_allow) (country_of maps row)) (peer_rows C (si_db S))) ms"
    using distribute_effect [OF assms subset_UNIV] by blast
  assume u: "allow_list instance_allow geoip_allow \<noteq> [] \<and> list_ex (\<lambda>(pid, row). unresolved maps row) (peer_rows C (si_db S))"
  then obtain db where "vet_peers maps (allow_list instance_allow geoip_allow) (peer_rows C (si_db S)) (si_db S) = (None, db)"
    using vet_peers_unresolved by (metis prod.collapse)
  then have e: "S' = S\<lparr>si_db := db\<rparr>"
    using assms(2) u by (simp add: distribute_shards_def peer_rows_def [symmetric] Let_def)
  show "si_net S' = si_net S" "si_node S' = si_node S" by (simp_all add: e)
qed

section \<open>Examples\<close>

text \<open>One peer, in France by its row, that answers pings and takes shards; the service is down. The node has a file of one chunk, two
  of whose shards are in the manifest and on its disk, and a shard of another file.\<close>

definition french_db :: "int repair_db" where
  "french_db = RepairLaws.demo_peers\<lparr>rd_peers := map (\<lambda>(pid, row). (pid, row\<lparr>pe_country := Some ''FR''\<rparr>)) (rd_peers RepairLaws.demo_peers)\<rparr>"

definition friend :: "string \<Rightarrow> unit link" where
  "friend a = \<lparr>ln_connect = (\<lambda>w. (Ok (), w)),
     ln_exchange = (\<lambda>m w. (Ok (case m of p2p_message.Ping pid port \<Rightarrow> p2p_message.Pong ''ann'' 1 None | _ \<Rightarrow> Ack []), w))\<rparr>"

definition other_fid :: string where "other_fid = replicate 32 CHR ''c''"

definition spread_rows :: manifest where
  "spread_rows =
     \<lparr>m_files = [\<lparr>d_file_id = ''f'', d_user_id = ''u'', d_path = ''a'', d_size = 624, d_stored_bytes = 896,
                  d_chunk_count = 1, d_created_at = [], d_retired_path = None, d_deleted_at = None,
                  d_superseded_at = None, d_lineage = Some ''f'', d_key_scheme = 2, d_content_hash = None,
                  d_pack_id = None, d_pack_offset = None, d_pack_len = None\<rparr>],
      m_chunks = [demo_chunk, demo_chunk\<lparr>c_chunk_id := ''g'', c_file_id := ''g''\<rparr>],
      m_shards = [demo_rows ! 0, demo_rows ! 4, \<lparr>s_fragment_id = other_fid, s_chunk_id = ''g'', s_shard_index = 4, s_location = ''local'', s_hash = []\<rparr>],
      m_folders = []\<rparr>"

definition full_disk :: disk where
  "full_disk = healthy_disk\<lparr>disk_files := \<lambda>_. Some (replicate 64 7)\<rparr>"

definition spread_site :: "int repair_db \<Rightarrow> (int, unit \<times> sent list) site" where
  "spread_site db = \<lparr>si_node = \<lparr>nd_manifest = spread_rows, nd_disk = full_disk\<rparr>, si_net = ((), []), si_db = db\<rparr>"

definition spread_env :: "int env" where
  "spread_env = bind_env\<lparr>f64_div := (\<lambda>a b. if b = 0 then 1000000 else a div b)\<rparr>"

definition spread_ctx :: "(int, unit \<times> sent list) repair_ctx" where
  "spread_ctx = (quiet_ctx (spy friend))\<lparr>rc_env := spread_env\<rparr>"

abbreviation spread_demo :: "string list \<Rightarrow> int repair_db \<Rightarrow> (int, unit \<times> sent list) site" where
  "spread_demo allow db \<equiv> distribute_shards spread_ctx (\<lambda>x. x) (\<lambda>_. True) (\<lambda>_. None) [] allow
     (\<lambda>_. None) (\<lambda>_. None) ''u'' ''f'' (spread_site db)"

lemma spread_ctx_simps [simp]:
  "rc_net spread_ctx = spy friend" "rc_env spread_ctx = spread_env" "rc_root spread_ctx = [''data'']" "rc_rng spread_ctx w = None"
  "id_peer_id (rc_ident spread_ctx) = ''me''" "rc_rtt spread_ctx w = 0"
  by (simp_all add: spread_ctx_def quiet_ctx_def)

lemma spread_fields:
  "f64_of_nat spread_env = int" "f64_add spread_env = (+)" "f64_sub spread_env = (-)" "f64_mul spread_env = (*)"
  "f64_div spread_env = (\<lambda>a b. if b = 0 then 1000000 else a div b)" "f64_lt spread_env = (<)" "f64_le spread_env = (\<le>)"
  by (simp_all add: spread_env_def bind_env_def demo_env_def)

lemma spread_layout:
  "plan_placement_zoned spread_env [\<lparr>pc_rtt_ms = 0, pc_zone = None, pc_reliability = 50\<rparr>] None 14 4
   = [None, None, None, None, Some 0, Some 0, Some 0, Some 0, None, None, None, None, None, None]"
  by (simp add: plan_placement_zoned_def plan_start_def numeral_eq_Suc place_one_def best_location_def scan_peers.simps(2)
      peer_score_def max_rtt_def concentration_def f64_infinity_def f64_max_def f64_clamp_def RELIABILITY_WEIGHT_def spread_fields Let_def
      zone_key_def self_key_def nonempty_zone_def)

lemma friend_signed: "\<exists>W'. signed_request spread_env None ident port (spy friend a) (StoreShard f i k b) W = (Ok (Ack []), W')"
proof -
  have r: "\<exists>W'. request (spy friend a) (StoreShard f i k b) W = (Ok (Ack []), W')"
    by (cases W) (simp add: request_def sbind_def spy_def friend_def)
  have "authenticated_session spread_env None (spy friend a) signer me port (StoreShard f i k b) W = (Err (io_of_auth AuthRng), W)" for signer me
    by (cases W) (simp add: authenticated_session_def sbind_def spy_def friend_def random_nonce_def slift_def)
  then show ?thesis using r by (cases "node_signer spread_env ident") (auto simp: signed_request_def authenticated_request_def io_of_auth_def)
qed

lemma full_disk_bytes:
  "shard_bytes [''data''] full_disk (demo_fid i) = Some (replicate 64 7)" if "i < TOTAL_SHARDS" for i
  using demo_fid_valid [of i] that by (simp add: shard_bytes_def full_disk_def)

lemma other_bytes: "shard_bytes [''data''] full_disk other_fid = Some (replicate 64 7)"
  by (simp add: shard_bytes_def full_disk_def is_valid_fragment_id_def other_fid_def is_ascii_hexdigit_def list_all_iff)

text \<open>The shard that the plan gives to the peer leaves.\<close>

lemma spread_demo_moves: "shard_bytes [''data''] (nd_disk (si_node (spread_demo [''FR''] french_db))) (demo_fid 4) = None"
proof -
  let ?row = "\<lparr>pe_addr = ''a:1'', pe_status = ''active'', pe_zone = None, pe_reliability_score = 50, pe_rtt_ms = None,
                            pe_consecutive_failures = 0, pe_last_seen = None, pe_country = Some ''FR''\<rparr>"
  let ?peer = "\<lparr>lp_peer_id = ''ann'', lp_addr = ''a:1'', lp_rtt = 0, lp_zone = None, lp_reliability = 50\<rparr> :: int live_peer"
  have rows: "filter (\<lambda>(pid, row). pid \<noteq> ''me'' \<and> pe_status row \<noteq> ''down'') (rd_peers french_db) = [(''ann'', ?row)]"
    by (simp add: french_db_def RepairLaws.demo_peers_def)
  have vet: "vet_peers (\<lambda>_. None) [''FR''] [(''ann'', ?row)] db = (Some [(''ann'', ?row)], db)" for db :: "int repair_db"
    by (simp add: jurisdiction_allowed_def)
  obtain w where m: "measure_peers spread_ctx [(''ann'', ?row)] ((), []) = ([?peer], w)"
    by (simp add: ping_def handshake_def request_def sbind_def slift_def spy_def friend_def)
  have plan: "\<exists>f. pull_plan ''u'' ''f'' spread_rows = Ok (f, [(demo_chunk, [demo_rows ! 0, demo_rows ! 4])])"
    by (simp add: pull_plan_def get_file_def optional_row_def get_chunks_def get_shards_def spread_rows_def demo_chunk_def demo_rows_def total_14 ok_or_def)
  have jobs: "placements_of [None, None, None, None, Some 0, Some 0, Some 0, Some 0, None, None, None, None, None, None]
      [(demo_chunk, [demo_rows ! 0, demo_rows ! 4])] = [(demo_fid 4, 0, as_i32 4)]"
    by (simp add: placements_of_def List.map_filter_simps demo_rows_def total_14 usize_of_i64_def)
  let ?S2 = "(spread_site french_db)\<lparr>si_net := w\<rparr>"
  have e: "spread_demo [''FR''] french_db = send_out spread_ctx (\<lambda>_. True) [(''ann'', ''a:1'')] (demo_fid 4, 0, as_i32 4) ?S2"
    using rows vet m plan jobs spread_layout
    by (auto simp: distribute_shards_def allow_list_def Let_def spread_site_def near_first_def total_14 PARITY_SHARDS_def
        zone_of_addr_def ip_of_addr_def french_db_def RepairLaws.demo_peers_def)
  obtain W where W: "signed_request spread_env None (rc_ident spread_ctx) (rc_port spread_ctx) (spy friend ''a:1'')
      (StoreShard (demo_fid 4) ''me'' (as_i32 4) (replicate 64 7)) w = (Ok (Ack []), W)"
    using friend_signed by blast
  have rd: "read_local [''data''] full_disk (demo_fid 4) = Some (replicate 64 7)"
    using full_disk_bytes [of 4] store_read_Ok [of "[''data'']" full_disk "demo_fid 4"]
    by (simp add: read_local_def total_14 full_disk_def healthy_disk_def)
  have "fst (store_delete [''data''] (demo_fid 4) full_disk) = Ok ()"
    using demo_fid_valid [of 4] by (simp add: store_delete_valid total_14 full_disk_def healthy_disk_def)
  then have "shard_bytes [''data''] (snd (store_delete [''data''] (demo_fid 4) full_disk)) (demo_fid 4) = None"
    using store_delete_get(1) [OF prod.collapse [symmetric]] by blast
  then show ?thesis unfolding e
    using W rd by (simp add: send_out_def site_disk_def spread_site_def failover_def Let_def on_db_def set_location_def set_shard_location_def)
qed

lemma spread_net: "rc_net spread_ctx = spy friend" by simp

theorem distribute_keeps_shards_witness:
  "shard_bytes [''data''] (nd_disk (si_node (spread_demo [''FR''] french_db))) (demo_fid 4) = None
   \<and> list_ex (\<lambda>(a, m, r). a = ''a:1'' \<and> (case m of StoreShard f own i b \<Rightarrow> f = demo_fid 4 \<and> b = replicate 64 7 | _ \<Rightarrow> False))
       (snd (si_net (spread_demo [''FR''] french_db)))
   \<and> shard_bytes [''data''] (nd_disk (si_node (spread_demo [''FR''] french_db))) other_fid = Some (replicate 64 7)"
proof -
  let ?S' = "spread_demo [''FR''] french_db" and ?own = "owned ''u'' ''f'' spread_rows"
  have "\<exists>ms peers. snd (si_net ?S') = snd (si_net (spread_site french_db)) @ ms
    \<and> list_all (\<lambda>(pid, a). list_ex (\<lambda>(q, row). q = pid \<and> pe_addr row = a) (peer_rows spread_ctx (si_db (spread_site french_db)))) peers
    \<and> spread (owned ''u'' ''f'' (nd_manifest (si_node (spread_site french_db)))) (rc_root spread_ctx) (id_peer_id (rc_ident spread_ctx)) (\<lambda>_. True) peers ms
         (si_node (spread_site french_db)) (si_node ?S')"
    by (rule distribute_keeps_shards [OF spread_net refl]) simp
  then obtain ms peers where e: "snd (si_net ?S') = ms"
    "list_all (\<lambda>(pid, a). list_ex (\<lambda>(q, row). q = pid \<and> pe_addr row = a) (peer_rows spread_ctx french_db)) peers"
    "spread ?own [''data''] ''me'' (\<lambda>_. True) peers ms \<lparr>nd_manifest = spread_rows, nd_disk = full_disk\<rparr> (si_node ?S')"
    by (auto simp: spread_site_def)
  have addr: "a = ''a:1''" if "(pid, a) \<in> set peers" for pid a
    using e(2) that by (auto simp: list_all_iff list_ex_iff peer_rows_def french_db_def RepairLaws.demo_peers_def split: if_splits)
  note files = spec [OF conjunct1 [OF e(3) [unfolded spread_def]]]
  have "other_fid \<notin> ?own"
    by (simp add: owned_def spread_rows_def demo_chunk_def demo_rows_def total_14 other_fid_def demo_fid_def numeral_eq_Suc)
  then have other: "shard_bytes [''data''] (nd_disk (si_node ?S')) other_fid = Some (replicate 64 7)" using files [of other_fid] other_bytes by simp
  obtain pid where "acked ''me'' peers ms (demo_fid 4) pid (replicate 64 7)"
    using files [of "demo_fid 4"] spread_demo_moves full_disk_bytes [of 4] by (auto simp: total_14)
  then obtain a idx x where a: "(pid, a) \<in> set peers" "(a, StoreShard (demo_fid 4) ''me'' idx (replicate 64 7), Ok (Ack x)) \<in> set (snd (si_net ?S'))"
    unfolding e(1) acked_def by blast
  then have "list_ex (\<lambda>(a, m, r). a = ''a:1'' \<and> (case m of StoreShard f own i b \<Rightarrow> f = demo_fid 4 \<and> b = replicate 64 7 | _ \<Rightarrow> False)) (snd (si_net ?S'))"
    unfolding list_ex_iff using addr [OF a(1)] by (intro bexI [OF _ a(2)]) simp
  then show ?thesis using spread_demo_moves other by simp
qed

text \<open>The only peer that is up has no country on record: nothing is sent.\<close>

theorem distribute_in_jurisdiction_witness:
  "snd (si_net (spread_demo [''DE''] RepairLaws.demo_peers)) = [] \<and> list_all (\<lambda>(a, m, r). False) (snd (si_net (spread_demo [''DE''] french_db)))"
proof
  have u: "allow_list [] [''DE''] \<noteq> [] \<and> list_ex (\<lambda>(pid, row). unresolved (\<lambda>_. None) row)
      (peer_rows spread_ctx (si_db (spread_site RepairLaws.demo_peers)))"
    by (simp add: allow_list_def unresolved_def country_def peer_rows_def spread_site_def RepairLaws.demo_peers_def quiet_ctx_def)
  then show "snd (si_net (spread_demo [''DE''] RepairLaws.demo_peers)) = []"
    using distribute_in_jurisdiction [OF spread_net refl, of "\<lambda>x. x" "\<lambda>_. True" "\<lambda>_. None" "[]" "[''DE'']" "\<lambda>_. None" "\<lambda>_. None" "''u''" "''f''" "spread_site RepairLaws.demo_peers"]
    by (simp add: spread_site_def hurt_site_def)
  have n: "\<not> list_ex (\<lambda>(pid, row). pe_addr row = a \<and> jurisdiction_allowed (allow_list [] [''DE'']) (country_of (\<lambda>_. None) row))
      (peer_rows spread_ctx (si_db (spread_site french_db)))" for a
    by (simp add: allow_list_def jurisdiction_allowed_def country_of_def peer_rows_def spread_site_def french_db_def RepairLaws.demo_peers_def quiet_ctx_def)
  show "list_all (\<lambda>(a, m, r). False) (snd (si_net (spread_demo [''DE''] french_db)))"
    using distribute_in_jurisdiction [OF spread_net refl, of "\<lambda>x. x" "\<lambda>_. True" "\<lambda>_. None" "[]" "[''DE'']" "\<lambda>_. None" "\<lambda>_. None" "''u''" "''f''" "spread_site french_db"] n
    by (simp add: spread_site_def hurt_site_def)
qed

end
