(* ===== verification/ReadProps.thy ===== *)
theory ReadProps
  imports Reading PushTotal
begin

text \<open>
  Reading a file through the network. Whatever the peers answer and in whatever order, a read gives the bytes that were
  stored or an error; and it gives them as soon as ten shards of every chunk can be had, locally or from peers.
\<close>

section \<open>The shards of one chunk\<close>

text \<open>A row that describes shard \<open>i\<close>.\<close>

definition describes :: "'f env \<Rightarrow> bytes list \<Rightarrow> shard_row \<Rightarrow> nat \<Rightarrow> bool" where
  "describes E shards s i \<longleftrightarrow> i < TOTAL_SHARDS \<and> s_shard_index s = int i \<and> s_hash s = shard_hash E (shards ! i)"

text \<open>The bytes can be had: the local file is readable, or a peer that is not known to be down answers with them.\<close>

definition serves :: "('f, 'w) repair_ctx \<Rightarrow> peer_addrs \<Rightarrow> disk \<Rightarrow> shard_row \<Rightarrow> bytes \<Rightarrow> bool" where
  "serves C peers D s b \<longleftrightarrow>
     (if s_location s = ''local'' then store_read (rc_root C) D (s_fragment_id s) = Ok b
      else \<exists>addr. map_of peers (s_location s) = Some addr
        \<and> (\<forall>w. \<exists>f w'. request (rc_net C addr) (GetShard (s_fragment_id s)) w = (Ok (ShardData f b), w')))"

definition served :: "('f, 'w) repair_ctx \<Rightarrow> peer_addrs \<Rightarrow> disk \<Rightarrow> bytes list \<Rightarrow> shard_row list \<Rightarrow> nat set" where
  "served C peers D shards rows = {i. i < TOTAL_SHARDS \<and> (\<exists>s \<in> set rows. s_shard_index s = int i \<and> serves C peers D s (shards ! i))}"

lemma describes_index: "describes E shards s i \<Longrightarrow> usize_of_i64 (s_shard_index s) = i"
  by (simp add: describes_def usize_of_nat total_14)

lemma fetch_read_frame:
  "fetch_shard_for_read C peers s S = ((idx, r), S') \<Longrightarrow> idx = usize_of_i64 (s_shard_index s) \<and> S' = S\<lparr>si_net := si_net S'\<rparr>"
  by (auto simp: fetch_shard_for_read_def Let_def split: if_splits option.splits prod.splits result.splits p2p_message.splits)

lemma fetch_read_met:
  assumes "fetch_shard_for_read C peers s S = ((idx, Some b), S')" "delivers (rc_net C) B" "disk_in (rc_root C) (site_disk S) B"
  shows "b \<in> B \<and> verify_hash (rc_env C) b (s_hash s)"
proof (cases "s_location s = ''local''")
  case True
  then have "store_read (rc_root C) (site_disk S) (s_fragment_id s) = Ok b" "verify_hash (rc_env C) b (s_hash s)"
    using assms(1) by (auto simp: fetch_shard_for_read_def Let_def read_local_verified_def bind_eq_Some_conv split: if_splits)
  then show ?thesis using assms(3) by (auto simp: disk_in_def store_read_Ok)
next
  case False
  then obtain a f w where "request (rc_net C a) (GetShard (s_fragment_id s)) (si_net S) = (Ok (ShardData f b), w)"
    "verify_hash (rc_env C) b (s_hash s)"
    using assms(1)
    by (auto simp: fetch_shard_for_read_def Let_def split: if_splits option.splits prod.splits result.splits p2p_message.splits)
  then show ?thesis using assms(2) by (auto simp: request_def sbind_Ok_iff dest: deliversD)
qed

lemma fetch_read_served:
  assumes "serves C peers (site_disk S) s b" "verify_hash (rc_env C) b (s_hash s)"
    and "fetch_shard_for_read C peers s S = ((idx, r), S')"
  shows "r = Some b"
proof (cases "s_location s = ''local''")
  case True
  then show ?thesis using assms by (auto simp: serves_def fetch_shard_for_read_def Let_def read_local_verified_def)
next
  case False
  then obtain addr f w' where "map_of peers (s_location s) = Some addr"
    "request (rc_net C addr) (GetShard (s_fragment_id s)) (si_net S) = (Ok (ShardData f b), w')"
    using assms(1) unfolding serves_def by (auto dest: spec [of _ "si_net S"])
  then show ?thesis using assms(2,3) False by (auto simp: fetch_shard_for_read_def Let_def)
qed

lemma served_Cons:
  assumes "describes E shards s i"
  shows "served C peers D shards (s # ss) \<subseteq> insert i (served C peers D shards ss)"
    "\<not> serves C peers D s (shards ! i) \<Longrightarrow> served C peers D shards (s # ss) \<subseteq> served C peers D shards ss"
  using assms by (auto simp: served_def describes_def)

text \<open>What the loop holds are original shards; and it has ten of them or all that are served.\<close>

lemma gather_held:
  assumes "gather_shards C peers ss (held_at H shards) (card H) S = (held', S')"
    and "\<forall>s \<in> set ss. \<exists>i. describes (rc_env C) shards s i" "length shards = TOTAL_SHARDS"
    and "hash_binds (rc_env C) B shards" "delivers (rc_net C) B" "disk_in (rc_root C) (site_disk S) B" "H \<subseteq> {..<TOTAL_SHARDS}"
  shows "S' = S\<lparr>si_net := si_net S'\<rparr> \<and> (\<exists>H' \<subseteq> {..<TOTAL_SHARDS}. held' = held_at H' shards
    \<and> (DATA_SHARDS \<le> card H' \<or> H \<union> served C peers (site_disk S) shards ss \<subseteq> H'))"
  using assms(1,2,6,7)
proof (induction ss arbitrary: H S)
  case Nil
  then show ?case by (auto simp: served_def)
next
  case (Cons s ss)
  obtain i where i: "describes (rc_env C) shards s i" using Cons.prems(2) by auto
  obtain idx r S1 where f: "fetch_shard_for_read C peers s S = ((idx, r), S1)" by (metis prod.exhaust)
  have idx: "idx = i" and fr: "S1 = S\<lparr>si_net := si_net S1\<rparr>" using fetch_read_frame [OF f] describes_index [OF i] by auto
  have disk: "site_disk S1 = site_disk S" using arg_cong [OF fr, of site_disk] by (simp add: site_disk_def)
  have lt: "i < TOTAL_SHARDS" and hash: "s_hash s = shard_hash (rc_env C) (shards ! i)" using i by (simp_all add: describes_def)
  have ver: "verify_hash (rc_env C) (shards ! i) (s_hash s)" using hash by (simp add: verify_hash_def)
  have rest: ?case if "gather_shards C peers ss (held_at H1 shards) (card H1) S1 = (held', S')" "H1 \<subseteq> {..<TOTAL_SHARDS}" "H \<subseteq> H1"
      "served C peers (site_disk S) shards (s # ss) \<subseteq> H1 \<union> served C peers (site_disk S) shards ss" for H1
  proof -
    have "\<forall>t \<in> set ss. \<exists>i. describes (rc_env C) shards t i" using Cons.prems(2) by simp
    note ih = Cons.IH [OF that(1) this Cons.prems(3) [folded disk] that(2), unfolded disk]
    obtain H' where H': "H' \<subseteq> {..<TOTAL_SHARDS}" "held' = held_at H' shards"
      "DATA_SHARDS \<le> card H' \<or> H1 \<union> served C peers (site_disk S) shards ss \<subseteq> H'"
      using conjunct2 [OF ih] by blast
    have "S' = S\<lparr>si_net := si_net S'\<rparr>" using conjunct1 [OF ih] fr by (metis site.surjective site.update_convs(2))
    moreover have "DATA_SHARDS \<le> card H' \<or> H \<union> served C peers (site_disk S) shards (s # ss) \<subseteq> H'"
      using H'(3) that(3,4) by blast
    ultimately show ?thesis using H'(1,2) by blast
  qed
  show ?case
  proof (cases r)
    case None
    then have "\<not> serves C peers (site_disk S) s (shards ! i)" using fetch_read_served [OF _ ver f] by auto
    from served_Cons(2) [OF i this] show ?thesis
      using Cons.prems(1) f None by (intro rest [OF _ Cons.prems(4)]) auto
  next
    case (Some b)
    have "b = shards ! i"
      using fetch_read_met [OF f [unfolded Some] assms(5) Cons.prems(3)] assms(3,4) hash lt
      by (auto simp: hash_binds_def verify_hash_def)
    then have upd: "(held_at H shards)[i := Some b] = held_at (insert i H) shards"
      using lt by (auto intro!: nth_equalityI simp: nth_list_update)
    have fin: "finite H" using Cons.prems(4) finite_subset by blast
    let ?H = "insert i H"
    have sub: "?H \<subseteq> {..<TOTAL_SHARDS}" using Cons.prems(4) lt by simp
    have step: "gather_shards C peers (s # ss) (held_at H shards) (card H) S =
        (if DATA_SHARDS \<le> card ?H then (held_at ?H shards, S1) else gather_shards C peers ss (held_at ?H shards) (card ?H) S1)"
    proof (cases "i \<in> H")
      case True
      then have "held_at H shards ! i \<noteq> None" "?H = H" using lt by auto
      then show ?thesis using f Some idx lt True by simp
    next
      case False
      then have "held_at H shards ! i = None" using lt by simp
      then show ?thesis using f Some idx lt upd False fin by simp
    qed
    show ?thesis
    proof (cases "DATA_SHARDS \<le> card ?H")
      case True
      then have "held' = held_at ?H shards" "S' = S1" using Cons.prems(1) unfolding step by auto
      then show ?thesis using True sub fr by blast
    next
      case False
      then have "gather_shards C peers ss (held_at ?H shards) (card ?H) S1 = (held', S')" using Cons.prems(1) unfolding step by simp
      then show ?thesis using served_Cons(1) [OF i, of C peers "site_disk S" ss] by (intro rest [OF _ sub]) auto
    qed
  qed
qed

lemma fetch_chunk_held:
  assumes "fetch_chunk_shards C order peers rows S = (held, S')"
    and "\<forall>s \<in> set rows. \<exists>i. describes (rc_env C) shards s i" "length shards = TOTAL_SHARDS"
    and "hash_binds (rc_env C) B shards" "delivers (rc_net C) B" "disk_in (rc_root C) (site_disk S) B"
    and "set (order rows) \<subseteq> set rows"
  shows "S' = S\<lparr>si_net := si_net S'\<rparr> \<and> (\<exists>H \<subseteq> {..<TOTAL_SHARDS}. held = held_at H shards
    \<and> (DATA_SHARDS \<le> card H \<or> served C peers (site_disk S) shards (order rows) \<subseteq> H))"
proof -
  have "gather_shards C peers (order rows) (held_at {} shards) (card ({} :: nat set)) S = (held, S')"
    using assms(1) by (simp add: fetch_chunk_shards_def map_replicate_const)
  from gather_held [OF this _ assms(3-6)] assms(2,7) show ?thesis by auto
qed

text \<open>With fewer than ten shards decoding fails; with ten it gives the sealed buffer.\<close>

lemma held_count:
  assumes "H \<subseteq> {..<TOTAL_SHARDS}" "length shards = TOTAL_SHARDS"
  shows "length (held_shards (take DATA_SHARDS (held_at H shards))) + length (held_shards (drop DATA_SHARDS (held_at H shards))) = card H"
proof -
  let ?xs = "take DATA_SHARDS shards" and ?ys = "drop DATA_SHARDS shards"
  have len: "length ?xs = DATA_SHARDS" "length ?ys = PARITY_SHARDS" using assms(2) by (simp_all add: TOTAL_SHARDS_def)
  have "held_at H shards = present_at H (?xs @ ?ys)" using assms(2) by (simp add: present_at_def)
  then show ?thesis
    using held_present_at [OF len(1), of H ?ys] shards_at_count [OF _ len, of H] assms(1) by (simp add: TOTAL_SHARDS_def)
qed

lemma reconstruct_held:
  assumes "recoverable E cipher shards" "rs_refuses E" "H \<subseteq> {..<TOTAL_SHARDS}"
  shows "reconstruct E (held_at H shards) (length cipher) = Ok cipher \<or> card H < DATA_SHARDS \<and> (\<exists>e. reconstruct E (held_at H shards) (length cipher) = Err e)"
proof (cases "DATA_SHARDS \<le> card H")
  case True
  then show ?thesis using reconstruct_subset [of E cipher shards H] assms(1,3) by (simp add: recoverable_def)
next
  case False
  let ?p = "held_at H shards"
  have cnt: "length (held_shards (take DATA_SHARDS ?p)) + length (held_shards (drop DATA_SHARDS ?p)) < DATA_SHARDS"
    using held_count [OF assms(3) recoverable_length [OF assms(1)]] False by simp
  then obtain e where e: "rs_decode E DATA_SHARDS PARITY_SHARDS (held_shards (take DATA_SHARDS ?p)) (held_shards (drop DATA_SHARDS ?p)) = Err e"
    using assms(2) unfolding rs_refuses_def by blast
  have "\<not> list_all (\<lambda>s. s \<noteq> None) (take DATA_SHARDS ?p)"
  proof
    assume "list_all (\<lambda>s. s \<noteq> None) (take DATA_SHARDS ?p)"
    then have "take DATA_SHARDS ?p ! i \<noteq> None" if "i < DATA_SHARDS" for i
      using that by (simp add: list_all_length TOTAL_SHARDS_def)
    then have "i \<in> H" if "i < DATA_SHARDS" for i
      using that nth_upt [of 0 i TOTAL_SHARDS] by (fastforce simp: TOTAL_SHARDS_def split: if_splits)
    then have "{..<DATA_SHARDS} \<subseteq> H" by auto
    moreover have "finite H" using assms(3) finite_subset by blast
    ultimately have "DATA_SHARDS \<le> card H" using card_mono [of H "{..<DATA_SHARDS}"] by simp
    then show False using False by simp
  qed
  then show ?thesis using e False by (simp add: reconstruct_def rs_error_def)
qed

section \<open>The window\<close>

lemma remove_nth_mset: "j < length xs \<Longrightarrow> add_mset (xs ! j) (mset (take j xs @ drop (Suc j) xs)) = mset xs"
  by (metis id_take_nth_drop mset.simps(2) mset_append union_mset_add_mset_right)

text \<open>Every chunk of the plan comes out once, whatever the order in which the fetches finish.\<close>

lemma read_window_all:
  assumes "read_window C order done_at peers k flight queue fetched S = (fetched', S')"
    and "flight = [] \<longrightarrow> queue = []" "P S"
    and "\<And>i c rows S held S'. (i, c, rows) \<in> set (flight @ queue) \<Longrightarrow> P S \<Longrightarrow> fetch_chunk_shards C order peers rows S = (held, S')
           \<Longrightarrow> P S' \<and> Q i c held"
  shows "P S' \<and> mset (map fst fetched') = mset (map fst fetched) + mset (map fst (flight @ queue))
    \<and> (\<forall>(i, c, held) \<in> set fetched'. (i, c, held) \<in> set fetched \<or> Q i c held)"
  using assms
proof (induction C order done_at peers k flight queue fetched S rule: read_window.induct)
  case (1 C order done_at peers k flight queue fetched S)
  show ?case
  proof (cases "flight = []")
    case True
    then show ?thesis using "1.prems"(1-3) by (subst (asm) read_window.simps) auto
  next
    case False
    define j where "j = done_at k mod length flight"
    have j: "j < length flight" using False by (simp add: j_def)
    obtain i c rows where x: "flight ! j = (i, c, rows)" by (metis prod_cases3)
    obtain held S1 where f: "fetch_chunk_shards C order peers rows S = (held, S1)" by (rule prod.exhaust)
    let ?flight = "take j flight @ drop (j + 1) flight @ take 1 queue"
    have w: "read_window C order done_at peers (k + 1) ?flight (drop 1 queue) (fetched @ [(i, c, held)]) S1 = (fetched', S')"
      using "1.prems"(1) False x f unfolding j_def by (subst (asm) read_window.simps) (simp add: Let_def)
    have mem: "(i, c, rows) \<in> set flight" using x j by (metis nth_mem)
    have sub: "set (?flight @ drop 1 queue) \<subseteq> set (flight @ queue)"
      using set_take_subset [of j flight] set_drop_subset [of "j + 1" flight] by (cases queue) auto
    have m: "mset (map fst (flight @ queue)) = add_mset i (mset (map fst (?flight @ drop 1 queue)))"
    proof -
      have "mset (flight @ queue) = add_mset (flight ! j) (mset (?flight @ drop 1 queue))"
        using remove_nth_mset [OF j] by (cases queue) (simp_all add: union_assoc [symmetric])
      then show ?thesis using x by (metis image_mset_add_mset mset_map fst_conv)
    qed
    have one: "P S1 \<and> Q i c held" by (rule "1.prems"(4) [OF _ "1.prems"(3) f]) (use mem in simp)
    have stop: "?flight = [] \<longrightarrow> drop 1 queue = []" by (cases queue) auto
    have "P S' \<and> mset (map fst fetched') = mset (map fst (fetched @ [(i, c, held)])) + mset (map fst (?flight @ drop 1 queue))
      \<and> (\<forall>(i', c', held') \<in> set fetched'. (i', c', held') \<in> set (fetched @ [(i, c, held)]) \<or> Q i' c' held')"
    proof (rule "1.IH" [OF False j_def refl x [symmetric] refl refl f [symmetric] w stop])
      show "P S1" using one by simp
      show "P S' \<and> Q i' c' h'" if "(i', c', r') \<in> set (?flight @ drop 1 queue)" "P T" "fetch_chunk_shards C order peers r' T = (h', S')"
        for i' c' r' T h' S' using "1.prems"(4) [OF _ that(2,3)] that(1) sub by blast
    qed
    then show ?thesis using one m by auto
  qed
qed

section \<open>The rows of a stored file\<close>

text \<open>The fourteen shards of a chunk, and a manifest that describes a file: its row, its chunks, and for every chunk the rows of the
  shards, wherever they are now.\<close>

definition original :: "processed_chunk \<Rightarrow> bytes list" where
  "original c = map (shard_content c) [0..<TOTAL_SHARDS]"

definition filed :: "'f env \<Rightarrow> node_identity \<Rightarrow> string \<Rightarrow> string \<Rightarrow> bytes \<Rightarrow> processed_chunk list \<Rightarrow> manifest \<Rightarrow> bool" where
  "filed E ident u fid data cs M \<longleftrightarrow>
     process_v2 E data (id_data_key ident) (as_bytes u) (as_bytes fid) (PipelineConfig_default E) = Ok cs
     \<and> (\<exists>f. get_file u fid M = Some f \<and> f_file_id f = fid \<and> f_user_id f = u \<and> f_chunk_count f = int (length cs)
          \<and> f_key_scheme f = as_i64 V2 \<and> f_pack_id f = None)
     \<and> get_chunks fid M = map (chunk_row_of fid) cs
     \<and> (\<forall>c \<in> set cs. map (\<lambda>s. s\<lparr>s_location := ''local''\<rparr>) (get_shards (chunk_id fid (pc_index c)) M) = shard_rows E fid c)"

lemma filed_row:
  assumes "map (\<lambda>s. s\<lparr>s_location := ''local''\<rparr>) rows = shard_rows E fid c" "s \<in> set rows"
  shows "\<exists>i. describes E (original c) s i"
proof -
  have "s\<lparr>s_location := ''local''\<rparr> \<in> set (shard_rows E fid c)" using assms by (metis (no_types, lifting) image_eqI list.set_map)
  then obtain i where i: "i < TOTAL_SHARDS" "s\<lparr>s_location := ''local''\<rparr> = shard_row_of E (chunk_id fid (pc_index c)) c i"
    by (auto simp: shard_rows_def)
  from arg_cong [OF i(2), of s_shard_index] arg_cong [OF i(2), of s_hash] show ?thesis
    using i(1) by (auto simp: describes_def shard_row_of_def original_def)
qed

lemma push_filed:
  assumes "manifest_inv (nd_manifest S)" "push E ident root rnd now u path data S = (Ok r, T)" "\<not> pr_unchanged r"
  shows "\<exists>cs. filed E ident u (pr_file_id r) data cs (nd_manifest T)"
proof -
  let ?fid = "mint_file_id E rnd"
  obtain cs where pr: "process_v2 E data (id_data_key ident) (as_bytes u) (as_bytes ?fid) (PipelineConfig_default E) = Ok cs"
    and tx: "push_tx E root ?fid now u path data cs S = (Ok r, T)"
    using push_Ok [OF assms(2,3)] by blast
  from tx obtain M1 M2 lin where inv1: "manifest_inv (nd_manifest S) \<longrightarrow> manifest_inv M1"
    and i: "insert_file (pushed_row E ?fid now u path data (length cs) (chunks_disk_cost cs) lin) M1 = (Ok (), M2)"
    and w: "write_chunk_rows E root ?fid cs (S\<lparr>nd_manifest := M2\<rparr>) = (Ok (), T)" and fid: "pr_file_id r = ?fid"
    by (rule push_tx_Ok)
  from i obtain row where M2: "M2 = M1\<lparr>m_files := m_files M1 @ [row]\<rparr>"
    and core: "same_core (pushed_row E ?fid now u path data (length cs) (chunks_disk_cost cs) lin) (map_file row)"
    and new: "f_file_id (pushed_row E ?fid now u path data (length cs) (chunks_disk_cost cs) lin) \<notin> d_file_id ` set (m_files M1)"
    by (rule insert_file_Ok)
  have inv2: "node_inv (S\<lparr>nd_manifest := M2\<rparr>)" using insert_file_inv [OF _ i] inv1 assms(1) by simp
  have "\<forall>c \<in> set (m_chunks (nd_manifest (S\<lparr>nd_manifest := M2\<rparr>))). c_file_id c \<noteq> ?fid"
  proof
    fix c assume "c \<in> set (m_chunks (nd_manifest (S\<lparr>nd_manifest := M2\<rparr>)))"
    then have "c_file_id c \<in> d_file_id ` set (m_files M1)" using inv_chunk_file [of M1] inv1 assms(1) M2 by simp
    then show "c_file_id c \<noteq> ?fid" using new by (metis pushed_row_def file_row.select_convs(1))
  qed
  note rows = pushed_rows [OF w inv2 this process_index_list [OF pr [unfolded process_v2_def]]]
  have files: "m_files (nd_manifest T) = m_files M1 @ [row]" using write_chunk_rows_Ok(3) [OF w] M2 by simp
  have "get_file u ?fid (nd_manifest T) = Some (map_file row)"
    using get_file_new_row [OF _ files] write_chunk_rows_inv [OF w inv2] new core
    by (simp add: same_core_def pushed_row_def map_file_def)
  moreover have "map (\<lambda>s. s\<lparr>s_location := ''local''\<rparr>) (shard_rows E ?fid c) = shard_rows E ?fid c" for c
    by (simp add: shard_rows_def shard_row_of_def)
  ultimately have "filed E ident u ?fid data cs (nd_manifest T)"
    unfolding filed_def using pr rows core by (simp add: same_core_def pushed_row_def)
  then show ?thesis using fid by metis
qed

text \<open>Moving shards keeps a file filed.\<close>

lemma filter_sort_rel:
  assumes "list_all2 Q xs ys" "\<And>s t. Q s t \<Longrightarrow> key t = key s" "\<And>s t. Q s t \<Longrightarrow> p t = p s"
  shows "list_all2 Q (sort_key key (filter p xs)) (sort_key key (filter p ys))"
proof -
  have ins: "list_all2 Q (insort_key key a xs) (insort_key key b ys)" if "list_all2 Q xs ys" "Q a b" for a b xs ys
    using that(1) by (induction rule: list_all2_induct) (use that(2) assms(2) in auto)
  show ?thesis using assms(1) by (induction rule: list_all2_induct) (auto intro: ins dest: assms(3))
qed

lemma filed_relocated:
  assumes "filed E ident u fid data cs M" "only_relocated F M M'"
  shows "filed E ident u fid data cs M'"
proof -
  let ?g = "\<lambda>s :: shard_row. s\<lparr>s_location := ''local''\<rparr>"
  let ?Q = "\<lambda>s t. s_chunk_id t = s_chunk_id s \<and> s_shard_index t = s_shard_index s \<and> ?g t = ?g s"
  have M': "m_files M' = m_files M" "m_chunks M' = m_chunks M"
    using assms(2) unfolding only_relocated_def by (metis manifest.select_convs manifest.surjective manifest.update_convs(3))+
  have Q: "?Q s t" if "t = s \<or> s_fragment_id s \<in> F \<and> t = s\<lparr>s_location := s_location t\<rparr>" for s t
    using that
  proof
    assume "s_fragment_id s \<in> F \<and> t = s\<lparr>s_location := s_location t\<rparr>"
    then have t: "t = s\<lparr>s_location := s_location t\<rparr>" ..
    show ?thesis using arg_cong [OF t, of s_chunk_id] arg_cong [OF t, of s_shard_index] arg_cong [OF t, of ?g] by simp
  qed simp
  have "list_all2 ?Q (m_shards M) (m_shards M')"
    using conjunct2 [OF assms(2) [unfolded only_relocated_def]] by (rule list_all2_mono) (rule Q)
  then have "list_all2 ?Q (get_shards cid M) (get_shards cid M')" for cid
    unfolding get_shards_def by (rule filter_sort_rel) simp_all
  then have "map ?g (get_shards cid M') = map ?g (get_shards cid M)" for cid
    by (intro nth_equalityI) (auto simp: list_all2_conv_all_nth)
  moreover have "get_file u fid M' = get_file u fid M" "get_chunks fid M' = get_chunks fid M"
    by (simp_all add: get_file_def get_chunks_def M')
  ultimately show ?thesis using assms(1) by (simp add: filed_def)
qed

section \<open>Reading\<close>

lemma rmapM_Ok_or_Err:
  assumes "\<And>x. x \<in> set xs \<Longrightarrow> f x = Ok (g x) \<or> (\<exists>e. f x = Err e) \<and> P x"
  shows "rmapM f xs = Ok (map g xs) \<or> (\<exists>e. rmapM f xs = Err e) \<and> (\<exists>x \<in> set xs. P x)"
  using assms by (induction xs) fastforce+

lemma sorted_fetches:
  assumes "mset (map fst xs) = mset [0..<n]"
  shows "map fst (sort_key fst xs) = [0..<n]"
proof -
  have "mset (map fst (sort_key fst xs)) = mset [0..<n]" using assms by (metis mset_map mset_sort)
  moreover have "sorted (map fst (sort_key fst xs))" "sorted [0..<n]" by simp_all
  ultimately show ?thesis using properties_for_sort by metis
qed

lemma open_pushed:
  assumes laws: "aead_correct E" "zstd_lossless E"
    and p: "process_with_scheme E data key V2 uid fidb cfg = Ok cs" and n: "length cs \<le> 2 ^ 32"
    and C: "FileCipher_new E key V2 uid fidb (word_of_nat (length cs)) = Ok FC" and k: "k < length cs"
    and small: "length (pc_cipher (cs ! k)) < 2 ^ 64"
  shows "reconstruct E held (length (pc_cipher (cs ! k))) = Ok (pc_cipher (cs ! k))
      \<Longrightarrow> open_chunk_row E FC (chunk_row_of fid (cs ! k)) held = Ok (chunks (chunk_size cfg) data ! k)"
    "reconstruct E held (length (pc_cipher (cs ! k))) = Err e \<Longrightarrow> open_chunk_row E FC (chunk_row_of fid (cs ! k)) held = Err (Core e)"
proof -
  from p obtain C0 where c0: "FileCipher_new E key V2 uid fidb (word_of_nat (div_ceil (length data) (chunk_size cfg))) = Ok C0"
    and len: "length cs = div_ceil (length data) (chunk_size cfg)"
    and all: "\<forall>i < length cs. process_chunk E C0 cfg (i, chunks (chunk_size cfg) data ! i) = Ok (cs ! i)"
    by (rule process_with_scheme_Ok)
  have FC: "C0 = FC" using c0 C len by simp
  note pk = all [rule_format, OF k, unfolded FC]
  have ix: "pc_index (cs ! k) = k" using process_chunk_place [OF pk] by simp
  have "unprocess_chunk E FC k (pc_cipher (cs ! k)) (pc_is_compressed (cs ! k)) = Ok (chunks (chunk_size cfg) data ! k)"
    using chunk_index_u64(1) [OF k n] FileCipher_new_fields(2) [OF C]
    by (intro unprocess_process_chunk [OF laws pk]) simp
  then show "open_chunk_row E FC (chunk_row_of fid (cs ! k)) held = Ok (chunks (chunk_size cfg) data ! k)"
    if "reconstruct E held (length (pc_cipher (cs ! k))) = Ok (pc_cipher (cs ! k))"
    using that ix usize_of_nat [OF small] by (auto simp: open_chunk_row_def chunk_row_of_def unprocess_chunk_def)
  show "open_chunk_row E FC (chunk_row_of fid (cs ! k)) held = Err (Core e)"
    if "reconstruct E held (length (pc_cipher (cs ! k))) = Err e"
    using that usize_of_nat [OF small] by (simp add: open_chunk_row_def chunk_row_of_def)
qed

lemma open_held:
  assumes "aead_correct E" "zstd_lossless E" "process_with_scheme E data key V2 uid fidb cfg = Ok cs" "length cs \<le> 2 ^ 32"
    and "FileCipher_new E key V2 uid fidb (word_of_nat (length cs)) = Ok FC" "k < length cs"
    and "recoverable E (pc_cipher (cs ! k)) shards" "rs_refuses E" "H \<subseteq> {..<TOTAL_SHARDS}" "DATA_SHARDS \<le> card H \<or> V \<subseteq> H"
  shows "open_chunk_row E FC (chunk_row_of fid (cs ! k)) (held_at H shards) = Ok (chunks (chunk_size cfg) data ! k)
    \<or> (\<exists>e. open_chunk_row E FC (chunk_row_of fid (cs ! k)) (held_at H shards) = Err e) \<and> card V < DATA_SHARDS"
proof -
  have "length (pc_cipher (cs ! k)) < 2 ^ 64" using assms(7) by (simp add: recoverable_def)
  note op = open_pushed [OF assms(1-6) this]
  from reconstruct_held [OF assms(7-9)] show ?thesis
  proof
    assume "card H < DATA_SHARDS \<and> (\<exists>e. reconstruct E (held_at H shards) (length (pc_cipher (cs ! k))) = Err e)"
    then obtain e where e: "card H < DATA_SHARDS" "reconstruct E (held_at H shards) (length (pc_cipher (cs ! k))) = Err e" by blast
    then have "V \<subseteq> H" using assms(10) by simp
    then have "card V \<le> card H" using assms(9) finite_subset card_mono by (metis finite_lessThan)
    then have "card V < DATA_SHARDS" using e(1) by simp
    then show ?thesis using op(2) [OF e(2)] by blast
  qed (use op(1) in blast)
qed

text \<open>The shard rows of a chunk of a file.\<close>

abbreviation rows_of :: "string \<Rightarrow> manifest \<Rightarrow> processed_chunk \<Rightarrow> shard_row list" where
  "rows_of fid M c \<equiv> get_shards (chunk_id fid (pc_index c)) M"

definition sound_read :: "('f, 'w) repair_ctx \<Rightarrow> bytes set \<Rightarrow> processed_chunk list \<Rightarrow> bool" where
  "sound_read C B cs \<longleftrightarrow>
     aead_correct (rc_env C) \<and> zstd_lossless (rc_env C) \<and> rs_refuses (rc_env C) \<and> delivers (rc_net C) B
     \<and> (\<forall>c \<in> set cs. recoverable (rc_env C) (pc_cipher c) (original c) \<and> hash_binds (rc_env C) B (original c))"

lemma length_original [simp]: "length (original c) = TOTAL_SHARDS"
  by (simp add: original_def)

text \<open>One chunk.\<close>

lemma fetch_filed_chunk:
  assumes "filed (rc_env C) ident u fid data cs M" "sound_read C B cs" "disk_in (rc_root C) (site_disk S) B"
    and "set (order (rows_of fid M c)) \<subseteq> set (rows_of fid M c)" "c \<in> set cs"
    and "fetch_chunk_shards C order peers (rows_of fid M c) S = (held, S')"
  shows "S' = S\<lparr>si_net := si_net S'\<rparr> \<and> (\<exists>H \<subseteq> {..<TOTAL_SHARDS}. held = held_at H (original c)
    \<and> (DATA_SHARDS \<le> card H \<or> served C peers (site_disk S) (original c) (order (rows_of fid M c)) \<subseteq> H))"
proof (rule fetch_chunk_held [OF assms(6) _ length_original _ _ assms(3,4)])
  show "\<forall>s \<in> set (rows_of fid M c). \<exists>i. describes (rc_env C) (original c) s i"
    using assms(1,5) by (auto simp: filed_def intro: filed_row)
qed (use assms(2,5) in \<open>auto simp: sound_read_def\<close>)

lemma fetch_window:
  assumes "filed (rc_env C) ident u fid data cs M" "sound_read C B cs" "disk_in (rc_root C) (site_disk S) B"
    and "\<And>rows. set (order rows) \<subseteq> set rows"
    and "plan = map (\<lambda>c. (c, get_shards (c_chunk_id c) M)) (get_chunks fid M)"
    and "read_window C order done_at peers 0 (take READ_CHUNK_WINDOW (enumerate 0 plan)) (drop READ_CHUNK_WINDOW (enumerate 0 plan)) [] S
         = (fetched, S')"
  shows "S' = S\<lparr>si_net := si_net S'\<rparr> \<and> (\<exists>held. map snd (sort_key fst fetched) = map (\<lambda>k. (chunk_row_of fid (cs ! k), held k)) [0..<length cs]
    \<and> (\<forall>k < length cs. \<exists>H \<subseteq> {..<TOTAL_SHARDS}. held k = held_at H (original (cs ! k))
         \<and> (DATA_SHARDS \<le> card H \<or> served C peers (site_disk S) (original (cs ! k)) (order (rows_of fid M (cs ! k))) \<subseteq> H)))"
proof -
  let ?good = "\<lambda>k held. \<exists>H \<subseteq> {..<TOTAL_SHARDS}. held = held_at H (original (cs ! k))
      \<and> (DATA_SHARDS \<le> card H \<or> served C peers (site_disk S) (original (cs ! k)) (order (rows_of fid M (cs ! k))) \<subseteq> H)"
  let ?P = "\<lambda>T. T = S\<lparr>si_net := si_net T\<rparr>" and ?Q = "\<lambda>k c held. k < length cs \<and> c = chunk_row_of fid (cs ! k) \<and> ?good k held"
  have plan: "plan = map (\<lambda>c. (chunk_row_of fid c, rows_of fid M c)) cs"
    using assms(1,5) by (simp add: filed_def chunk_row_of_def)
  have flight: "take READ_CHUNK_WINDOW (enumerate 0 plan) = [] \<longrightarrow> drop READ_CHUNK_WINDOW (enumerate 0 plan) = []"
    by (simp add: READ_CHUNK_WINDOW_def)
  have step: "?P T' \<and> ?Q k c held" if x: "(k, c, rows) \<in> set (take READ_CHUNK_WINDOW (enumerate 0 plan) @ drop READ_CHUNK_WINDOW (enumerate 0 plan))"
    and T: "?P T" and f: "fetch_chunk_shards C order peers rows T = (held, T')" for k c rows T held T'
  proof -
    have k: "k < length cs" "c = chunk_row_of fid (cs ! k)" "rows = rows_of fid M (cs ! k)"
      using x by (auto simp: plan in_set_enumerate_eq)
    have D: "site_disk T = site_disk S" using arg_cong [OF T, of site_disk] by (simp add: site_disk_def)
    note one = fetch_filed_chunk [OF assms(1,2) assms(3) [folded D] assms(4) nth_mem [OF k(1)] f [unfolded k(3)], unfolded D]
    have "T' = S\<lparr>si_net := si_net T'\<rparr>" using conjunct1 [OF one] T by (metis site.surjective site.update_convs(2))
    then show ?thesis using k(1,2) conjunct2 [OF one] by blast
  qed
  have P0: "?P S" by simp
  have w: "?P S' \<and> mset (map fst fetched) = mset (map fst ([] :: chunk_fetch list))
        + mset (map fst (take READ_CHUNK_WINDOW (enumerate 0 plan) @ drop READ_CHUNK_WINDOW (enumerate 0 plan)))
      \<and> (\<forall>(k, c, held) \<in> set fetched. (k, c, held) \<in> set [] \<or> ?Q k c held)"
    by (rule read_window_all [where P = ?P and Q = ?Q, OF assms(6) flight P0]) (rule step)
  have "map fst (take READ_CHUNK_WINDOW (enumerate 0 plan) @ drop READ_CHUNK_WINDOW (enumerate 0 plan)) = [0..<length cs]"
    by (simp only: append_take_drop_id) (simp add: plan)
  then have "mset (map fst fetched) = mset [0..<length cs]" using conjunct1 [OF conjunct2 [OF w]] by simp
  note ix = sorted_fetches [OF this]
  have out: "\<forall>x \<in> set fetched. ?Q (fst x) (fst (snd x)) (snd (snd x))"
    using conjunct2 [OF conjunct2 [OF w]] by (simp add: case_prod_unfold)
  define xs where "xs = sort_key fst fetched"
  have len: "length xs = length cs" using arg_cong [OF ix, of length] by (simp add: xs_def)
  have at: "?Q k (fst (snd (xs ! k))) (snd (snd (xs ! k)))" if "k < length cs" for k
  proof -
    have "xs ! k \<in> set fetched" using that len by (metis nth_mem set_sort xs_def)
    note q = bspec [OF out this]
    have "fst (xs ! k) = k" using arg_cong [OF ix, of "\<lambda>l. l ! k"] that len by (simp add: xs_def)
    then show ?thesis using q by (simp only:)
  qed
  have "map snd xs = map (\<lambda>k. (chunk_row_of fid (cs ! k), snd (snd (xs ! k)))) [0..<length cs]"
    using at len by (intro nth_equalityI) (auto simp: prod_eq_iff)
  then show ?thesis
    by (intro conjI conjunct1 [OF w] exI [of _ "\<lambda>k. snd (snd (xs ! k))"]) (use at in \<open>simp_all add: xs_def\<close>)
qed

text \<open>The whole file: its bytes, or an error because of a chunk of which fewer than ten shards were served.\<close>

lemma reconstruct_filed:
  assumes "filed (rc_env C) (rc_ident C) u fid data cs (nd_manifest (si_node S))" "sound_read C B cs" "length data < 2 ^ 63"
    and "disk_in (rc_root C) (nd_disk (si_node S)) B" "\<And>rows. set (order rows) \<subseteq> set rows"
    and "reconstruct_file C order done_at u fid S = (r, S')"
  shows "S' = S\<lparr>si_net := si_net S'\<rparr> \<and> (r = Ok data \<or> (\<exists>e. r = Err e) \<and> (\<exists>c \<in> set cs.
    card (served C (known_peers (si_db S)) (nd_disk (si_node S)) (original c) (order (rows_of fid (nd_manifest (si_node S)) c))) < DATA_SHARDS))"
proof -
  let ?E = "rc_env C" and ?M = "nd_manifest (si_node S)"
  have D: "nd_disk (si_node S) = site_disk S" by (simp add: site_disk_def)
  have laws: "aead_correct ?E" "zstd_lossless ?E" "rs_refuses ?E" using assms(2) by (simp_all add: sound_read_def)
  obtain f where f: "get_file u fid ?M = Some f" "f_file_id f = fid" "f_user_id f = u" "f_chunk_count f = int (length cs)"
    "f_key_scheme f = as_i64 V2" "f_pack_id f = None" using assms(1) by (auto simp: filed_def)
  have pr: "process_v2 ?E data (id_data_key (rc_ident C)) (as_bytes u) (as_bytes fid) (PipelineConfig_default ?E) = Ok cs"
    using assms(1) by (simp add: filed_def)
  let ?cfg = "PipelineConfig_default ?E"
  have ps: "process_with_scheme ?E data (id_data_key (rc_ident C)) V2 (as_bytes u) (as_bytes fid) ?cfg = Ok cs"
    using pr by (simp add: process_v2_def)
  then obtain FC where pos: "0 < chunk_size ?cfg" and len: "length cs = div_ceil (length data) (chunk_size ?cfg)"
    and FC: "FileCipher_new ?E (id_data_key (rc_ident C)) V2 (as_bytes u) (as_bytes fid) (word_of_nat (length cs)) = Ok FC"
    by (rule process_with_scheme_Ok) simp
  define plan where "plan = map (\<lambda>c. (c, get_shards (c_chunk_id c) ?M)) (get_chunks fid ?M)"
  obtain fetched T where w: "read_window C order done_at (known_peers (si_db S)) 0 (take READ_CHUNK_WINDOW (enumerate 0 plan))
      (drop READ_CHUNK_WINDOW (enumerate 0 plan)) [] S = (fetched, T)" by (rule prod.exhaust)
  have res: "r = map_err Store (reassemble ?E (rc_ident C) f (map snd (sort_key fst fetched)))" "S' = T"
    using assms(6) f w
    by (auto simp: reconstruct_file_def fetch_plan_def pull_plan_def sbind_def fetch_and_reassemble_def plan_def Let_def)
  from fetch_window [OF assms(1,2) assms(4) [unfolded D] assms(5) plan_def w] obtain held where
    fr: "T = S\<lparr>si_net := si_net T\<rparr>"
    and h: "map snd (sort_key fst fetched) = map (\<lambda>k. (chunk_row_of fid (cs ! k), held k)) [0..<length cs]"
    and H: "\<And>k. k < length cs \<Longrightarrow> \<exists>H \<subseteq> {..<TOTAL_SHARDS}. held k = held_at H (original (cs ! k))
         \<and> (DATA_SHARDS \<le> card H \<or> served C (known_peers (si_db S)) (site_disk S) (original (cs ! k)) (order (rows_of fid ?M (cs ! k))) \<subseteq> H)"
    by blast
  let ?short = "\<lambda>k. card (served C (known_peers (si_db S)) (site_disk S) (original (cs ! k)) (order (rows_of fid ?M (cs ! k)))) < DATA_SHARDS"
  have one: "open_chunk_row ?E FC (chunk_row_of fid (cs ! k)) (held k) = Ok (chunks (chunk_size ?cfg) data ! k)
      \<or> (\<exists>e. open_chunk_row ?E FC (chunk_row_of fid (cs ! k)) (held k) = Err e) \<and> ?short k" if k: "k < length cs" for k
  proof -
    obtain Hk where Hk: "Hk \<subseteq> {..<TOTAL_SHARDS}" "held k = held_at Hk (original (cs ! k))"
      "DATA_SHARDS \<le> card Hk \<or> served C (known_peers (si_db S)) (site_disk S) (original (cs ! k)) (order (rows_of fid ?M (cs ! k))) \<subseteq> Hk"
      using H [OF k] by blast
    have "recoverable ?E (pc_cipher (cs ! k)) (original (cs ! k))" using assms(2) k by (simp add: sound_read_def)
    from open_held [OF laws(1,2) ps process_v2_count [OF pr laws(1) assms(3)] FC k this laws(3) Hk(1,3)]
    show ?thesis unfolding Hk(2) .
  qed
  have re: "reassemble ?E (rc_ident C) f (map snd (sort_key fst fetched)) =
      rbind (rmapM (\<lambda>k. open_chunk_row ?E FC (chunk_row_of fid (cs ! k)) (held k)) [0..<length cs]) (\<lambda>parts. Ok (concat parts))"
    using FC f by (simp add: reassemble_def file_cipher_of_def h rmapM_map)
  have all: "map (\<lambda>k. chunks (chunk_size ?cfg) data ! k) [0..<length cs] = chunks (chunk_size ?cfg) data"
    using len length_chunks [OF pos] by (metis map_nth)
  note outcome = rmapM_Ok_or_Err [of "[0..<length cs]" "\<lambda>k. open_chunk_row ?E FC (chunk_row_of fid (cs ! k)) (held k)"
      "\<lambda>k. chunks (chunk_size ?cfg) data ! k" ?short, unfolded all]
  have "r = Ok data \<or> (\<exists>e. r = Err e) \<and> (\<exists>k \<in> set [0..<length cs]. ?short k)"
  proof (cases "rmapM (\<lambda>k. open_chunk_row ?E FC (chunk_row_of fid (cs ! k)) (held k)) [0..<length cs] = Ok (chunks (chunk_size ?cfg) data)")
    case True
    then show ?thesis unfolding res(1) re using concat_chunks [OF pos, of data] by simp
  next
    case False
    then obtain e where "rmapM (\<lambda>k. open_chunk_row ?E FC (chunk_row_of fid (cs ! k)) (held k)) [0..<length cs] = Err e"
      "\<exists>k \<in> set [0..<length cs]. ?short k" using outcome one by auto
    then show ?thesis unfolding res(1) re by simp
  qed
  then show ?thesis using fr res(2) nth_mem [of _ cs] unfolding D by auto
qed

section \<open>A file of one chunk\<close>

abbreviation sevens :: bytes where
  "sevens \<equiv> replicate 64 7"

lemma flat_chunk:
  assumes "process_v2 flat_env (replicate 624 7) key uid fidb (PipelineConfig_default flat_env) = Ok cs"
  shows "\<exists>c. cs = [c] \<and> pc_index c = 0 \<and> pc_cipher c = replicate 640 7 \<and> original c = demo_shards"
proof -
  let ?cfg = "PipelineConfig_default flat_env"
  from assms obtain FC where len: "length cs = div_ceil 624 (chunk_size ?cfg)"
    and all: "\<forall>i < length cs. process_chunk flat_env FC ?cfg (i, chunks (chunk_size ?cfg) (replicate 624 7) ! i) = Ok (cs ! i)"
    unfolding process_v2_def by (rule process_with_scheme_Ok) simp
  have size: "chunk_size ?cfg = 4194304" by (simp add: PipelineConfig_default_def DEFAULT_CHUNK_SIZE_def)
  have one: "length cs = 1" using len size by (simp add: div_ceil_def)
  then obtain c where c: "cs = [c]" by (cases cs) auto
  have "chunks (chunk_size ?cfg) (replicate 624 7) ! 0 = (replicate 624 7 :: bytes)"
    using nth_chunks [of "chunk_size ?cfg" 0 "replicate 624 7"] size by (simp add: length_chunks div_ceil_def)
  then have pc: "process_chunk flat_env FC ?cfg (0, replicate 624 7) = Ok c" using all c by simp
  then obtain buf where b: "maybe_compress flat_env (replicate 624 7) (entropy_skip ?cfg) (zstd_level ?cfg) = (buf, pc_is_compressed c)"
      "seal_chunk flat_env FC buf (word_of_nat 0) = Ok (pc_cipher c, pc_nonce c)"
      "rs_encode flat_env DATA_SHARDS PARITY_SHARDS (data_shard_list (pc_cipher c)) = Ok (pc_recovery c)" "pc_index c = 0"
      "pc_shard_len c = shard_len (length (pc_cipher c))"
    by (rule process_chunk_Ok)
  have "buf = replicate 624 7"
    using b(1) by (rule maybe_compress_cases) (auto simp: flat_env_def demo_env_def demo_zstd_encode_def)
  then have ci: "pc_cipher c = replicate 640 7"
    using b(2) by (auto simp: seal_chunk_uniform seal_inner_def flat_env_def replicate_add [symmetric] split: if_splits)
  have rec: "pc_recovery c = replicate PARITY_SHARDS sevens"
    using b(3) by (simp add: ci data_shard_list_replicate flat_env_def demo_env_def DATA_SHARDS_def)
  have "original c = demo_shards"
  proof (rule nth_equalityI)
    fix i assume "i < length (original c)"
    then have i: "i < TOTAL_SHARDS" by simp
    show "original c ! i = demo_shards ! i"
    proof (cases "i < DATA_SHARDS")
      case True
      then show ?thesis using i shard_content_data [OF b(5) True] demo_shard_nth [OF i]
        by (simp add: original_def ci data_shard_list_replicate)
    next
      case False
      then have "i - DATA_SHARDS < PARITY_SHARDS" using i by (simp add: TOTAL_SHARDS_def)
      then show ?thesis using i False demo_shard_nth [OF i]
        by (simp add: original_def shard_content_def chunk_shard_def rec)
    qed
  qed (simp add: demo_shards_def TOTAL_SHARDS_def)
  then show ?thesis using c b(4) ci by simp
qed

text \<open>All shards at one peer, nothing on the local disk.\<close>

definition sevens_link :: "unit link" where
  "sevens_link = \<lparr>ln_connect = (\<lambda>w. (Ok (), w)), ln_exchange = (\<lambda>m w. (Ok (ShardData [] sevens), w))\<rparr>"

definition read_ctx :: "(int, unit) repair_ctx" where
  "read_ctx = (quiet_ctx (\<lambda>_. sevens_link))\<lparr>rc_env := flat_env, rc_ident := demo_identity\<rparr>"

definition away :: "manifest \<Rightarrow> manifest" where
  "away M = M\<lparr>m_shards := map (\<lambda>s. s\<lparr>s_location := ''ann''\<rparr>) (m_shards M)\<rparr>"

definition read_site :: "manifest \<Rightarrow> (int, unit) site" where
  "read_site M = \<lparr>si_node = \<lparr>nd_manifest = away M, nd_disk = healthy_disk\<rparr>, si_net = (), si_db = demo_peers\<rparr>"

lemma away_relocated: "only_relocated UNIV M (away M)"
  by (auto simp: only_relocated_def away_def list_all2_map2 intro: list_all2_refl)

lemma read_ctx_simps [simp]:
  "rc_env read_ctx = flat_env" "rc_ident read_ctx = demo_identity" "rc_root read_ctx = [''data'']" "rc_net read_ctx = (\<lambda>_. sevens_link)"
  by (simp_all add: read_ctx_def quiet_ctx_def)

lemma flat_laws: "blake3_len flat_env" "hex_correct flat_env" "rs_refuses flat_env"
  "\<forall>c. \<exists>rec. rs_encode flat_env DATA_SHARDS PARITY_SHARDS (data_shard_list c) = Ok rec \<and> length rec = PARITY_SHARDS"
  using demo_blake3_len demo_hex_correct demo_rs_total
  by (simp_all add: blake3_len_def hex_correct_def flat_env_def demo_rs_refuses)

lemma flat_sound:
  assumes "process_v2 flat_env (replicate 624 7) key uid fidb (PipelineConfig_default flat_env) = Ok cs"
  shows "sound_read read_ctx {sevens} cs"
proof -
  obtain c where c: "cs = [c]" "pc_cipher c = replicate 640 7" "original c = demo_shards" using flat_chunk [OF assms] by blast
  have "encode flat_env = encode demo_env" by (simp add: fun_eq_iff encode_def flat_env_def)
  moreover have "rs_recovers flat_env = rs_recovers demo_env" by (simp add: fun_eq_iff rs_recovers_def flat_env_def)
  ultimately have "recoverable flat_env (replicate 640 7) demo_shards"
    using demo_encoded(1,3) by (simp add: recoverable_def demo_shards_def)
  moreover have "hash_binds flat_env {sevens} demo_shards"
  proof -
    have "hex_encode flat_env b \<noteq> []" if "b \<noteq> []" for b
      using flat_laws(2) that by (auto simp: hex_correct_def dest: arg_cong [of _ "[]" length])
    moreover have "take 16 (blake3 flat_env b) \<noteq> []" for b
      using flat_laws(1) by (auto simp: blake3_len_def dest: arg_cong [of _ "[]" length])
    moreover have "length demo_shards = TOTAL_SHARDS" by (simp add: demo_shards_def TOTAL_SHARDS_def)
    ultimately show ?thesis by (simp add: hash_binds_def demo_shard_nth shard_hash_def)
  qed
  moreover have "delivers (\<lambda>_. sevens_link) {sevens}" by (auto simp: delivers_def sevens_link_def)
  ultimately show ?thesis
    using c flat_laws(3) flat_aead_correct flat_zstd_lossless by (simp add: sound_read_def)
qed

lemma away_served:
  assumes "filed flat_env demo_identity u fid (replicate 624 7) cs M" "c \<in> set cs"
  shows "served read_ctx (known_peers (si_db (read_site M))) D (original c) (rows_of fid (away M) c) = {..<TOTAL_SHARDS}"
proof -
  have orig: "original c = demo_shards" using assms flat_chunk by (force simp: filed_def)
  have rows: "map (\<lambda>s. s\<lparr>s_location := ''local''\<rparr>) (rows_of fid (away M) c) = shard_rows flat_env fid c"
    using filed_relocated [OF assms(1) away_relocated] assms(2) by (simp add: filed_def)
  have at: "s_location s = ''ann''" if "s \<in> set (rows_of fid (away M) c)" for s
    using that by (auto simp: get_shards_def away_def)
  have "\<exists>s \<in> set (rows_of fid (away M) c). s_shard_index s = int i" if "i < TOTAL_SHARDS" for i
  proof -
    have "int i \<in> s_shard_index ` set (shard_rows flat_env fid c)" using that by (force simp: shard_rows_def shard_row_of_def)
    also have "\<dots> = s_shard_index ` set (rows_of fid (away M) c)" unfolding rows [symmetric] by (simp add: image_image)
    finally show ?thesis by auto
  qed
  moreover have "serves read_ctx (known_peers (si_db (read_site M))) D s sevens" if "s \<in> set (rows_of fid (away M) c)" for s
    using at [OF that]
    by (auto simp: serves_def read_site_def known_peers_def demo_peers_def sevens_link_def request_def sbind_def)
  ultimately show ?thesis using demo_shard_nth by (auto simp: served_def orig)
qed

section \<open>Properties\<close>

text \<open>C3. A download never gives wrong bytes. For a file that the manifest describes, wherever its shards are, whatever the disk
  holds, whatever peers answer, and in whatever order the answers come, reading it changes nothing but the state of the network and ends
  with the file's exact bytes or with an error; it does not panic. Assumed: no byte string on the disk or on the wire has the hash of a
  shard without being that shard, and the codec's laws.\<close>

theorem read_sound:
  assumes "filed (rc_env C) (rc_ident C) u fid data cs (nd_manifest (si_node S))" "sound_read C B cs" "length data < 2 ^ 63"
    and "disk_in (rc_root C) (nd_disk (si_node S)) B" "\<And>rows. set (order rows) \<subseteq> set rows"
    and "download C order done_at u fid S = (r, S')"
  shows "(r = Ok data \<or> (\<exists>e. r = Err e)) \<and> S' = S\<lparr>si_net := si_net S'\<rparr>"
  using reconstruct_filed [OF assms(1-5) assms(6) [unfolded download_def]] by blast

text \<open>C2. What was uploaded can be downloaded from any ten shards of every chunk. After an upload that stored a version, let its shards be moved
  anywhere. As long as, of every chunk, ten shards are served, by the local disk or by peers that are not marked down, a download of the returned
  id gives the uploaded bytes, whatever the other four holders answer and in whatever order chunks and shards arrive.\<close>

theorem stored_file_available:
  assumes "manifest_inv (nd_manifest S0)" "push (rc_env C) (rc_ident C) root rnd now u path data S0 = (Ok p, T)" "\<not> pr_unchanged p"
    and "only_relocated UNIV (nd_manifest T) (nd_manifest (si_node S))" "length data < 2 ^ 63"
    and "\<And>cs. process_v2 (rc_env C) data (id_data_key (rc_ident C)) (as_bytes u) (as_bytes (pr_file_id p)) (PipelineConfig_default (rc_env C)) = Ok cs
         \<Longrightarrow> sound_read C B cs \<and> (\<forall>c \<in> set cs. DATA_SHARDS \<le> card (served C (known_peers (si_db S)) (nd_disk (si_node S)) (original c)
               (get_shards (chunk_id (pr_file_id p) (pc_index c)) (nd_manifest (si_node S)))))"
    and "disk_in (rc_root C) (nd_disk (si_node S)) B" "\<And>rows. set (order rows) = set rows"
  shows "\<exists>S'. download C order done_at u (pr_file_id p) S = (Ok data, S')"
proof -
  obtain cs where "filed (rc_env C) (rc_ident C) u (pr_file_id p) data cs (nd_manifest T)" using push_filed [OF assms(1-3)] by blast
  then have fd: "filed (rc_env C) (rc_ident C) u (pr_file_id p) data cs (nd_manifest (si_node S))" using assms(4) by (rule filed_relocated)
  then have six: "sound_read C B cs" "\<forall>c \<in> set cs. DATA_SHARDS \<le> card (served C (known_peers (si_db S)) (nd_disk (si_node S)) (original c)
      (get_shards (chunk_id (pr_file_id p) (pc_index c)) (nd_manifest (si_node S))))"
    using assms(6) by (simp_all add: filed_def)
  obtain r S' where r: "reconstruct_file C order done_at u (pr_file_id p) S = (r, S')" by (rule prod.exhaust)
  have "served C peers D shards (order rows) = served C peers D shards rows" for peers D shards rows
    using assms(8) by (simp add: served_def)
  then have "r = Ok data" using reconstruct_filed [OF fd six(1) assms(5,7) _ r] assms(8) six(2) by fastforce
  then show ?thesis using r by (simp add: download_def)
qed

text \<open>The upload of the example, then its download with every shard at the peer.\<close>

lemma flat_push:
  "\<exists>p T. push flat_env demo_identity [''d''] [7] ''t'' ''u'' ''a.txt'' (replicate 624 7) fresh_node = (Ok p, T) \<and> \<not> pr_unchanged p"
proof -
  have one: "div_ceil (length (replicate 624 (7 :: byte))) DEFAULT_CHUNK_SIZE = Suc 0"
    by (simp add: div_ceil_def DEFAULT_CHUNK_SIZE_def)
  have "fragment_id flat_env = fragment_id demo_env" "mint_file_id flat_env = mint_file_id demo_env"
    by (simp_all add: fun_eq_iff fragment_id_def mint_file_id_def flat_env_def)
  then have ids: "fresh_ids flat_env (mint_file_id flat_env [7]) (Suc 0) (nd_manifest fresh_node)"
    using demo_fresh_ids by (simp add: fresh_ids_def)
  show ?thesis
    by (rule push_total [OF flat_hkdf_total flat_aead_correct flat_laws(1,2,4) fresh_node_ok(1-3) _ ids [folded one]])
       (simp_all add: one [simplified] fresh_node_ok(5) visible_path_def)
qed

theorem stored_file_available_witness:
  "\<exists>p T S'. push flat_env demo_identity [''d''] [7] ''t'' ''u'' ''a.txt'' (replicate 624 7) fresh_node = (Ok p, T)
    \<and> download read_ctx rev (\<lambda>k. k) ''u'' (pr_file_id p) (read_site (nd_manifest T)) = (Ok (replicate 624 7), S')"
proof -
  obtain p T where p: "push flat_env demo_identity [''d''] [7] ''t'' ''u'' ''a.txt'' (replicate 624 7) fresh_node = (Ok p, T)"
    "\<not> pr_unchanged p" using flat_push by blast
  have "manifest_inv (nd_manifest fresh_node)" using fresh_node_ok(1) by simp
  from push_filed [OF this p] obtain cs where fd: "filed flat_env demo_identity ''u'' (pr_file_id p) (replicate 624 7) cs (nd_manifest T)" by blast
  have sv: "DATA_SHARDS \<le> card (served read_ctx (known_peers (si_db (read_site (nd_manifest T)))) D (original c)
      (get_shards (chunk_id (pr_file_id p) (pc_index c)) (away (nd_manifest T))))" if "c \<in> set cs" for c D
    unfolding away_served [OF fd that] by (simp add: TOTAL_SHARDS_def)
  have "\<exists>S'. download read_ctx rev (\<lambda>k. k) ''u'' (pr_file_id p) (read_site (nd_manifest T)) = (Ok (replicate 624 7), S')"
  proof (rule stored_file_available [where B = "{sevens}" and root = "[''d'']" and rnd = "[7]" and now = "''t''" and path = "''a.txt''"])
    show "manifest_inv (nd_manifest fresh_node)" using fresh_node_ok(1) by simp
    show "push (rc_env read_ctx) (rc_ident read_ctx) [''d''] [7] ''t'' ''u'' ''a.txt'' (replicate 624 7) fresh_node = (Ok p, T)"
      using p(1) by simp
    show "only_relocated UNIV (nd_manifest T) (nd_manifest (si_node (read_site (nd_manifest T))))"
      by (simp add: read_site_def away_relocated)
    show "disk_in (rc_root read_ctx) (nd_disk (si_node (read_site (nd_manifest T)))) {sevens}"
      by (simp add: disk_in_def read_site_def healthy_disk_def shard_bytes_def)
    fix cs' assume "process_v2 (rc_env read_ctx) (replicate 624 7) (id_data_key (rc_ident read_ctx)) (as_bytes ''u'')
        (as_bytes (pr_file_id p)) (PipelineConfig_default (rc_env read_ctx)) = Ok cs'"
    then have pr: "process_v2 flat_env (replicate 624 7) (id_data_key demo_identity) (as_bytes ''u'') (as_bytes (pr_file_id p))
        (PipelineConfig_default flat_env) = Ok cs'" by (simp only: read_ctx_simps)
    then have "cs' = cs" using fd by (simp add: filed_def)
    then show "sound_read read_ctx {sevens} cs' \<and> (\<forall>c \<in> set cs'. DATA_SHARDS \<le> card (served read_ctx
        (known_peers (si_db (read_site (nd_manifest T)))) (nd_disk (si_node (read_site (nd_manifest T)))) (original c)
        (get_shards (chunk_id (pr_file_id p) (pc_index c)) (nd_manifest (si_node (read_site (nd_manifest T)))))))"
      using flat_sound [OF pr] sv by (simp add: read_site_def)
  qed (use p(2) in simp_all)
  then show ?thesis using p(1) by blast
qed

theorem read_sound_witness:
  "\<exists>p T. push flat_env demo_identity [''d''] [7] ''t'' ''u'' ''a.txt'' (replicate 624 7) fresh_node = (Ok p, T)
    \<and> fst (download read_ctx (\<lambda>_. []) (\<lambda>k. k) ''u'' (pr_file_id p) (read_site (nd_manifest T))) \<noteq> Panic"
proof -
  obtain p T where p: "push flat_env demo_identity [''d''] [7] ''t'' ''u'' ''a.txt'' (replicate 624 7) fresh_node = (Ok p, T)"
    "\<not> pr_unchanged p" using flat_push by blast
  have "manifest_inv (nd_manifest fresh_node)" using fresh_node_ok(1) by simp
  from push_filed [OF this p] obtain cs where fd: "filed flat_env demo_identity ''u'' (pr_file_id p) (replicate 624 7) cs (nd_manifest T)" by blast
  let ?S = "read_site (nd_manifest T)"
  have 1: "filed (rc_env read_ctx) (rc_ident read_ctx) ''u'' (pr_file_id p) (replicate 624 7) cs (nd_manifest (si_node ?S))"
    using filed_relocated [OF fd away_relocated] by (simp add: read_site_def)
  have 2: "sound_read read_ctx {sevens} cs" using fd [unfolded filed_def] flat_sound by blast
  have 3: "disk_in (rc_root read_ctx) (nd_disk (si_node ?S)) {sevens}"
    by (simp add: disk_in_def read_site_def healthy_disk_def shard_bytes_def)
  obtain r S' where r: "download read_ctx (\<lambda>_. []) (\<lambda>k. k) ''u'' (pr_file_id p) ?S = (r, S')" by (rule prod.exhaust)
  have "r \<noteq> Panic" using read_sound [OF 1 2 _ 3 _ r] by auto
  then show ?thesis using p(1) r by auto
qed

end
