(* ===== verification/Jobs.thy ===== *)
theory Jobs
  imports Rebalance
begin

text \<open>
  \<open>server/src/jobs.rs\<close>: the queue of background jobs and its worker. The table is a list of rows; \<open>jq_up\<close> says which
  statements the database answers. The claim of a job is three statements, between which other workers on the same
  database may act: it is given as the loop of one worker, with what happens in between as an argument (\<open>claim\<close>), and as steps of many (\<open>job_step\<close>). A payload is the
  list of shards of a \<open>gc_remote\<close> job or one without meaning for the worker. Times are in seconds.
\<close>

section \<open>The table\<close>

definition GC_MAX_ATTEMPTS :: nat where "GC_MAX_ATTEMPTS = 5"
definition GC_RETRY_BASE_SECS :: nat where "GC_RETRY_BASE_SECS = 300"
definition STALE_RUNNING_HOURS :: int where "STALE_RUNNING_HOURS = 1"
definition RETAIN_DAYS :: int where "RETAIN_DAYS = 30"
definition MAINTENANCE_EVERY :: int where "MAINTENANCE_EVERY = 3600"

definition COALESCED_KINDS :: "string list" where
  "COALESCED_KINDS = [''repair'', ''retention'', ''gc_trash'', ''manifest_backup'']"

datatype job_state = Pending | Running | Done | Failed
datatype job_payload = GcShards "remote_shard list" nat | OtherPayload

record job =
  jb_id :: nat
  jb_kind :: string
  jb_payload :: job_payload
  jb_state :: job_state
  jb_attempts :: nat
  jb_run_after :: int
  jb_created_at :: int

datatype job_call =
  InsertJob | SelectCandidate | ClaimJob | SelectClaimed | FinishJob | RequeueJobs | PurgeJobs | PurgeEvents

record job_db =
  jq_jobs :: "job list"
  jq_last_id :: nat
  jq_events :: "int list"
  jq_now :: int
  jq_up :: "job_call \<Rightarrow> bool"

definition insert_job :: "string \<Rightarrow> job_payload \<Rightarrow> int \<Rightarrow> job_db \<Rightarrow> job_db" where
  "insert_job kind pl run_after db =
     db\<lparr>jq_jobs := jq_jobs db @ [\<lparr>jb_id = jq_last_id db + 1, jb_kind = kind, jb_payload = pl, jb_state = Pending,
                                  jb_attempts = 0, jb_run_after = run_after, jb_created_at = jq_now db\<rparr>],
        jq_last_id := jq_last_id db + 1\<rparr>"

definition enqueue :: "string \<Rightarrow> job_payload \<Rightarrow> job_db \<Rightarrow> job_db" where
  "enqueue kind pl db =
     (if \<not> jq_up db InsertJob then db
      else if kind \<in> set COALESCED_KINDS \<and> list_ex (\<lambda>j. jb_kind j = kind \<and> jb_state j = Pending) (jq_jobs db) then db
      else insert_job kind pl (jq_now db) db)"

definition enqueue_after :: "string \<Rightarrow> job_payload \<Rightarrow> nat \<Rightarrow> job_db \<Rightarrow> job_db" where
  "enqueue_after kind pl delay db =
     (if jq_up db InsertJob then insert_job kind pl (jq_now db + int delay) db else db)"

definition update_jobs :: "(job \<Rightarrow> bool) \<Rightarrow> (job \<Rightarrow> job) \<Rightarrow> job_db \<Rightarrow> job_db" where
  "update_jobs P u db = db\<lparr>jq_jobs := map (\<lambda>j. if P j then u j else j) (jq_jobs db)\<rparr>"

section \<open>Claiming\<close>

definition candidate :: "job_db \<Rightarrow> nat option" where
  "candidate db =
     (if jq_up db SelectCandidate
      then (case sort_key jb_id (filter (\<lambda>j. jb_state j = Pending \<and> jb_run_after j \<le> jq_now db) (jq_jobs db)) of
              [] \<Rightarrow> None | j # _ \<Rightarrow> Some (jb_id j))
      else None)"

text \<open>The guarded update, with the number of rows it changed; a failed statement counts as none.\<close>

definition claim_row :: "nat \<Rightarrow> job_db \<Rightarrow> nat \<times> job_db" where
  "claim_row i db =
     (if jq_up db ClaimJob
      then (length (filter (\<lambda>j. jb_id j = i \<and> jb_state j = Pending) (jq_jobs db)),
            update_jobs (\<lambda>j. jb_id j = i \<and> jb_state j = Pending) (\<lambda>j. j\<lparr>jb_state := Running, jb_attempts := jb_attempts j + 1\<rparr>) db)
      else (0, db))"

definition read_claimed :: "nat \<Rightarrow> job_db \<Rightarrow> (string \<times> job_payload) option" where
  "read_claimed i db =
     (if jq_up db SelectClaimed
      then map_option (\<lambda>j. (jb_kind j, jb_payload j)) (find (\<lambda>j. jb_id j = i) (jq_jobs db)) else None)"

text \<open>The loop of one worker. \<open>others n\<close> is what happens to the table between its statements, the \<open>n\<close>th time: the work of other
  workers, new jobs, the clock, a database that stops or starts to answer.\<close>

partial_function (option) claim :: "(nat \<Rightarrow> job_db \<Rightarrow> job_db) \<Rightarrow> nat \<Rightarrow> job_db \<Rightarrow> ((nat \<times> string \<times> job_payload) option \<times> job_db) option" where
  "claim others n db =
     (case candidate db of
        None \<Rightarrow> Some (None, db)
      | Some i \<Rightarrow>
          (case claim_row i (others n db) of
             (m, db1) \<Rightarrow>
               let db2 = others (n + 1) db1
               in if m \<noteq> 1 then claim others (n + 2) db2
                  else (case read_claimed i db2 of
                          Some kp \<Rightarrow> Some (Some (i, kp), db2)
                        | None \<Rightarrow> claim others (n + 3) (others (n + 2) db2))))"

declare claim.simps [code]

definition finish :: "nat \<Rightarrow> bool \<Rightarrow> job_db \<Rightarrow> job_db" where
  "finish i good db =
     (if jq_up db FinishJob then update_jobs (\<lambda>j. jb_id j = i) (\<lambda>j. j\<lparr>jb_state := if good then Done else Failed\<rparr>) db else db)"

definition requeue_stale_jobs :: "job_db \<Rightarrow> job_db" where
  "requeue_stale_jobs db =
     (if jq_up db RequeueJobs
      then update_jobs (\<lambda>j. jb_state j = Running \<and> jb_created_at j < jq_now db - STALE_RUNNING_HOURS * 3600)
             (\<lambda>j. j\<lparr>jb_state := Pending, jb_run_after := jq_now db\<rparr>) db
      else db)"

definition purge_old_rows :: "job_db \<Rightarrow> job_db" where
  "purge_old_rows db =
     (let cutoff = jq_now db - RETAIN_DAYS * 86400;
          db1 = (if jq_up db PurgeJobs
                 then db\<lparr>jq_jobs := filter (\<lambda>j. \<not> (jb_state j \<in> {Done, Failed} \<and> jb_created_at j < cutoff)) (jq_jobs db)\<rparr> else db)
      in if jq_up db PurgeEvents then db1\<lparr>jq_events := filter (\<lambda>t. \<not> t < cutoff) (jq_events db1)\<rparr> else db1)"

section \<open>Deleting shards at peers\<close>

fun gc_each :: "('f, 'w) repair_ctx \<Rightarrow> remote_shard list \<Rightarrow> ('f, 'w) site \<Rightarrow> remote_shard list \<times> ('f, 'w) site" where
  "gc_each C [] S = ([], S)"
| "gc_each C ((fr, pid) # shards) S =
     (case (if rd_ok (si_db S) SelectPeers then map_option pe_addr (map_of (rd_peers (si_db S)) pid) else None) of
        None \<Rightarrow> gc_each C shards S
      | Some addr \<Rightarrow>
          (case signed_request (rc_env C) (rc_rng C (si_net S)) (rc_ident C) (rc_port C) (rc_net C addr)
                  (DeleteShard fr (id_peer_id (rc_ident C))) (si_net S) of
             (r, w) \<Rightarrow>
               (case gc_each C shards (S\<lparr>si_net := w\<rparr>) of
                  (failed, S') \<Rightarrow> (if (case r of Ok (Ack _) \<Rightarrow> True | _ \<Rightarrow> False) then failed else (fr, pid) # failed, S'))))"

definition run_gc_remote :: "('f, 'w) repair_ctx \<Rightarrow> job_payload \<Rightarrow> ('f, 'w) site \<times> job_db \<Rightarrow> bool \<times> ('f, 'w) site \<times> job_db" where
  "run_gc_remote C pl st =
     (case st of (S, db) \<Rightarrow>
        let (shards, attempt) = (case pl of GcShards s a \<Rightarrow> (s, a) | OtherPayload \<Rightarrow> ([], 0))
        in if shards = [] then (True, S, db)
           else case gc_each C shards S of
                  (failed, S') \<Rightarrow>
                    if failed = [] then (True, S', db)
                    else if attempt + 1 < GC_MAX_ATTEMPTS
                    then (True, S', enqueue_after ''gc_remote'' (GcShards failed (attempt + 1)) (GC_RETRY_BASE_SECS * (attempt + 1)) db)
                    else (True, S', db))"

section \<open>The worker\<close>

datatype pass_kind = RepairPass | RebalancePass | RetentionPass | BackupPass | TrashPass | RepackPass | CompactPass

definition passes_of :: "string \<Rightarrow> pass_kind list option" where
  "passes_of kind =
     (if kind = ''repair'' then Some [RepairPass]
      else if kind = ''rebalance_locality'' then Some [RepairPass, RebalancePass]
      else if kind = ''retention'' then Some [RetentionPass]
      else if kind = ''manifest_backup'' then Some [BackupPass]
      else if kind = ''gc_trash'' then Some [TrashPass]
      else if kind = ''repack_small'' then Some [RepackPass]
      else if kind = ''compact_packs'' then Some [CompactPass]
      else None)"

text \<open>\<open>run\<close> runs a whole pass of the node.\<close>

definition run_job :: "('f, 'w) repair_ctx \<Rightarrow> (pass_kind \<Rightarrow> ('f, 'w) site \<Rightarrow> ('f, 'w) site) \<Rightarrow> string \<Rightarrow> job_payload
    \<Rightarrow> ('f, 'w) site \<times> job_db \<Rightarrow> bool \<times> ('f, 'w) site \<times> job_db" where
  "run_job C run kind pl st =
     (if kind = ''gc_remote'' then run_gc_remote C pl st
      else case passes_of kind of
             Some ps \<Rightarrow> (True, fold run ps (fst st), snd st)
           | None \<Rightarrow> (False, st))"

text \<open>One turn of the loop; \<open>last\<close> is when the queue was last tidied. Nothing to do is followed by a pause.\<close>

definition worker_turn :: "('f, 'w) repair_ctx \<Rightarrow> (nat \<Rightarrow> job_db \<Rightarrow> job_db) \<Rightarrow> (pass_kind \<Rightarrow> ('f, 'w) site \<Rightarrow> ('f, 'w) site) \<Rightarrow> int
    \<Rightarrow> ('f, 'w) site \<times> job_db \<Rightarrow> (int \<times> ('f, 'w) site \<times> job_db) option" where
  "worker_turn C others run last_maintenance st =
     (case st of (S, db) \<Rightarrow>
        let (last', db1) = (if jq_now db - last_maintenance \<ge> MAINTENANCE_EVERY
                            then (jq_now db, purge_old_rows (requeue_stale_jobs db)) else (last_maintenance, db))
        in map_option (\<lambda>(claimed, db2).
             case claimed of
               None \<Rightarrow> (last', S, db2)
             | Some (i, kind, pl) \<Rightarrow>
                 (case run_job C run kind pl (S, db2) of
                    (good, S', db3) \<Rightarrow> (last', S', finish i good db3))) (claim others 0 db1))"

section \<open>Many workers\<close>

datatype worker = Idle | Picked nat | Won nat | Busy nat string job_payload

record pool =
  po_db :: job_db
  po_workers :: "nat \<Rightarrow> worker"

inductive job_step :: "pool \<Rightarrow> pool \<Rightarrow> bool" where
  pick: "po_workers P w = Idle \<Longrightarrow> candidate (po_db P) = Some i
    \<Longrightarrow> job_step P (P\<lparr>po_workers := (po_workers P)(w := Picked i)\<rparr>)"
| take: "po_workers P w = Picked i \<Longrightarrow> claim_row i (po_db P) = (n, db)
    \<Longrightarrow> job_step P \<lparr>po_db = db, po_workers = (po_workers P)(w := if n = 1 then Won i else Idle)\<rparr>"
| read: "po_workers P w = Won i
    \<Longrightarrow> job_step P (P\<lparr>po_workers := (po_workers P)(w := case read_claimed i (po_db P) of Some (k, p) \<Rightarrow> Busy i k p | None \<Rightarrow> Idle)\<rparr>)"
| finish: "po_workers P w = Busy i k p
    \<Longrightarrow> job_step P \<lparr>po_db = finish i good (po_db P), po_workers = (po_workers P)(w := Idle)\<rparr>"
| enqueue: "job_step P (P\<lparr>po_db := enqueue kind pl (po_db P)\<rparr>)"
| enqueue_after: "job_step P (P\<lparr>po_db := enqueue_after kind pl delay (po_db P)\<rparr>)"
| requeue: "job_step P (P\<lparr>po_db := requeue_stale_jobs (po_db P)\<rparr>)"
| purge: "job_step P (P\<lparr>po_db := purge_old_rows (po_db P)\<rparr>)"
| time: "jq_now (po_db P) \<le> t \<Longrightarrow> job_step P (P\<lparr>po_db := (po_db P)\<lparr>jq_now := t, jq_up := up\<rparr>\<rparr>)"
| crash: "job_step P (P\<lparr>po_workers := (po_workers P)(w := Idle)\<rparr>)"

definition holds :: "worker \<Rightarrow> nat \<Rightarrow> bool" where
  "holds w i \<longleftrightarrow> (case w of Won k \<Rightarrow> k = i | Busy k _ _ \<Rightarrow> k = i | _ \<Rightarrow> False)"

end
