(* ===== verification/JobProps.thy ===== *)
theory JobProps
  imports Jobs
begin

text \<open>
  The queue of jobs: a job is run by one worker at a time, unless it is older than the window after which it is taken for
  abandoned; the claim loop ends whatever other workers do meanwhile, as long as the database takes its update; the deletion of
  shards at peers is retried a bounded number of times.
\<close>

section \<open>One worker per job\<close>

definition stale :: "job_db \<Rightarrow> job \<Rightarrow> bool" where
  "stale db j \<longleftrightarrow> jb_created_at j < jq_now db - STALE_RUNNING_HOURS * 3600"

definition pool_ok :: "pool \<Rightarrow> bool" where
  "pool_ok P \<longleftrightarrow>
     distinct (map jb_id (jq_jobs (po_db P))) \<and> (\<forall>j \<in> set (jq_jobs (po_db P)). jb_id j \<le> jq_last_id (po_db P))
     \<and> (\<forall>w i. holds (po_workers P w) i \<longrightarrow> i \<le> jq_last_id (po_db P))
     \<and> (\<forall>w. \<forall>j \<in> set (jq_jobs (po_db P)). holds (po_workers P w) (jb_id j) \<longrightarrow> jb_state j = Running \<or> stale (po_db P) j)
     \<and> (\<forall>w w'. \<forall>j \<in> set (jq_jobs (po_db P)). w \<noteq> w' \<longrightarrow> holds (po_workers P w) (jb_id j) \<longrightarrow> holds (po_workers P w') (jb_id j)
          \<longrightarrow> stale (po_db P) j)"

lemma holds_simps [simp]:
  "\<not> holds Idle i" "\<not> holds (Picked k) i" "holds (Won k) i \<longleftrightarrow> k = i" "holds (Busy k u p) i \<longleftrightarrow> k = i"
  by (simp_all add: holds_def)

text \<open>A change of the table that keeps or drops rows, and leaves a running row running unless it is stale.\<close>

definition mild :: "job_db \<Rightarrow> job_db \<Rightarrow> bool" where
  "mild db db' \<longleftrightarrow>
     distinct (map jb_id (jq_jobs db')) \<and> jq_now db \<le> jq_now db' \<and> jq_last_id db' = jq_last_id db
     \<and> (\<forall>j' \<in> set (jq_jobs db'). \<exists>j \<in> set (jq_jobs db). jb_id j' = jb_id j \<and> jb_created_at j' = jb_created_at j
          \<and> (jb_state j = Running \<longrightarrow> jb_state j' = Running \<or> stale db' j'))"

lemma stale_mono: "jb_created_at j' = jb_created_at j \<Longrightarrow> jq_now db \<le> jq_now db' \<Longrightarrow> stale db j \<Longrightarrow> stale db' j'"
  by (simp add: stale_def)

lemma pool_ok_mild:
  assumes "pool_ok P" "mild (po_db P) db'"
  shows "pool_ok (P\<lparr>po_db := db'\<rparr>)"
proof -
  have src: "\<exists>j \<in> set (jq_jobs (po_db P)). jb_id j' = jb_id j \<and> (stale (po_db P) j \<longrightarrow> stale db' j')
      \<and> (jb_state j = Running \<longrightarrow> jb_state j' = Running \<or> stale db' j')" if "j' \<in> set (jq_jobs db')" for j'
    using assms(2) that unfolding mild_def by (metis stale_mono)
  have "jb_state j' = Running \<or> stale db' j'" if "j' \<in> set (jq_jobs db')" "holds (po_workers P w) (jb_id j')" for j' w
    using src [OF that(1)] that(2) assms(1) unfolding pool_ok_def by metis
  moreover have "stale db' j'"
    if "j' \<in> set (jq_jobs db')" "w \<noteq> w'" "holds (po_workers P w) (jb_id j')" "holds (po_workers P w') (jb_id j')" for j' w w'
    using src [OF that(1)] that(2-) assms(1) unfolding pool_ok_def by metis
  moreover have "jb_id j' \<le> jq_last_id db'" if "j' \<in> set (jq_jobs db')" for j'
    using src [OF that] assms unfolding pool_ok_def mild_def by metis
  ultimately show ?thesis using assms unfolding pool_ok_def mild_def by simp
qed

text \<open>A worker lets go.\<close>

lemma pool_ok_release:
  assumes ok: "pool_ok P" and x: "\<And>i. holds x i \<Longrightarrow> holds (po_workers P w) i"
  shows "pool_ok (P\<lparr>po_workers := (po_workers P)(w := x)\<rparr>)"
proof -
  have h: "holds (po_workers P v) i" if "holds (((po_workers P)(w := x)) v) i" for v i
    using that x by (cases "v = w") auto
  show ?thesis using ok h unfolding pool_ok_def by (simp del: fun_upd_apply) metis
qed

lemma mild_update:
  assumes "distinct (map jb_id (jq_jobs db))" "\<And>j. jb_id (u j) = jb_id j \<and> jb_created_at (u j) = jb_created_at j"
    and "\<And>j. p j \<Longrightarrow> jb_state j = Running \<Longrightarrow> stale db j"
  shows "mild db (update_jobs p u db)"
proof -
  have ids: "map jb_id (jq_jobs (update_jobs p u db)) = map jb_id (jq_jobs db)" using assms(2) by (simp add: update_jobs_def)
  have "\<exists>j \<in> set (jq_jobs db). jb_id j' = jb_id j \<and> jb_created_at j' = jb_created_at j
      \<and> (jb_state j = Running \<longrightarrow> jb_state j' = Running \<or> stale (update_jobs p u db) j')" if j': "j' \<in> set (jq_jobs (update_jobs p u db))" for j'
  proof -
    obtain j where j: "j \<in> set (jq_jobs db)" "j' = (if p j then u j else j)" using j' by (auto simp: update_jobs_def)
    have "stale (update_jobs p u db) j' = stale db j" using assms(2) j(2) by (simp add: stale_def update_jobs_def)
    then show ?thesis using j assms(2,3) by (intro bexI [of _ j]) auto
  qed
  then show ?thesis unfolding mild_def ids using assms(1) by (simp add: update_jobs_def)
qed

lemma pool_ok_insert:
  assumes "pool_ok P"
  shows "pool_ok (P\<lparr>po_db := insert_job k pl r (po_db P)\<rparr>)"
proof -
  have fresh: "\<not> holds (po_workers P w) (Suc (jq_last_id (po_db P)))" for w
    using assms unfolding pool_ok_def by (metis not_less_eq_eq order_refl)
  have "Suc (jq_last_id (po_db P)) \<notin> jb_id ` set (jq_jobs (po_db P))" using assms unfolding pool_ok_def by fastforce
  moreover have "stale (insert_job k pl r (po_db P)) j = stale (po_db P) j" for j by (simp add: stale_def insert_job_def)
  ultimately show ?thesis using assms fresh unfolding pool_ok_def by (auto simp: insert_job_def le_Suc_eq)
qed

lemma pool_ok_take:
  assumes "pool_ok P" "claim_row i (po_db P) = (n, db)"
  shows "pool_ok \<lparr>po_db = db, po_workers = (po_workers P)(w := if n = 1 then Won i else Idle)\<rparr>"
proof -
  let ?p = "\<lambda>j. jb_id j = i \<and> jb_state j = Pending" and ?u = "\<lambda>j. j\<lparr>jb_state := Running, jb_attempts := jb_attempts j + 1\<rparr>"
  have mild: "mild (po_db P) (update_jobs ?p ?u (po_db P))"
    by (rule mild_update) (use assms(1) in \<open>auto simp: pool_ok_def\<close>)
  have idle: "pool_ok (P\<lparr>po_db := db\<rparr>)" if "db = po_db P \<or> db = update_jobs ?p ?u (po_db P)"
    using that pool_ok_mild [OF assms(1) mild] assms(1) by auto
  have db: "db = po_db P \<or> db = update_jobs ?p ?u (po_db P)" using assms(2) by (auto simp: claim_row_def split: if_splits)
  show ?thesis
  proof (cases "n = 1")
    case False
    have "pool_ok ((P\<lparr>po_db := db\<rparr>)\<lparr>po_workers := (po_workers (P\<lparr>po_db := db\<rparr>))(w := Idle)\<rparr>)"
      by (rule pool_ok_release [OF idle [OF db]]) simp
    moreover have "(P\<lparr>po_db := db\<rparr>)\<lparr>po_workers := (po_workers (P\<lparr>po_db := db\<rparr>))(w := Idle)\<rparr>
        = \<lparr>po_db = db, po_workers = (po_workers P)(w := if n = 1 then Won i else Idle)\<rparr>"
      using False by (cases P) simp
    ultimately show ?thesis by (simp only:)
  next
    case True
    then have d: "db = update_jobs ?p ?u (po_db P)" and one: "length (filter ?p (jq_jobs (po_db P))) = 1"
      using assms(2) by (auto simp: claim_row_def split: if_splits)
    then obtain j where "filter ?p (jq_jobs (po_db P)) = [j]" by (cases "filter ?p (jq_jobs (po_db P))") auto
    then have "j \<in> set (filter ?p (jq_jobs (po_db P)))" by simp
    then have j: "j \<in> set (jq_jobs (po_db P))" "jb_id j = i" "jb_state j = Pending" by simp_all
    have others: "stale (po_db P) j" if "holds (po_workers P v) i" for v using that assms(1) j unfolding pool_ok_def by fastforce
    have unique: "k = ?u j" if k: "k \<in> set (jq_jobs db)" "jb_id k = i" for k
    proof -
      obtain k0 where k0: "k0 \<in> set (jq_jobs (po_db P))" "k = (if ?p k0 then ?u k0 else k0)"
        using k(1) unfolding d update_jobs_def by auto
      then have "jb_id k0 = i" using k(2) by (simp split: if_splits)
      moreover have "inj_on jb_id (set (jq_jobs (po_db P)))" using assms(1) by (simp add: pool_ok_def distinct_map)
      ultimately have "k0 = j" using k0(1) j by (intro inj_onD [of jb_id "set (jq_jobs (po_db P))"]) simp_all
      then show ?thesis using k0(2) j by simp
    qed
    have st: "stale db (?u j) = stale (po_db P) j" by (simp add: stale_def d update_jobs_def)
    have last: "i \<le> jq_last_id db" using j assms(1) by (auto simp: pool_ok_def d update_jobs_def)
    have ok: "pool_ok (P\<lparr>po_db := db\<rparr>)" by (rule idle [OF db])
    let ?W = "(po_workers P)(w := Won i)"
    have held: "holds (po_workers P v) k \<or> (v = w \<and> k = i)" if "holds (?W v) k" for v k using that by (simp split: if_splits)
    have running: "jb_state k = Running \<or> stale db k" if k: "k \<in> set (jq_jobs db)" "holds (?W v) (jb_id k)" for k v
      using held [OF k(2)]
    proof
      assume "holds (po_workers P v) (jb_id k)"
      then show ?thesis using ok k(1) unfolding pool_ok_def by simp
    next
      assume "v = w \<and> jb_id k = i"
      then show ?thesis using unique [OF k(1)] by simp
    qed
    have apart: "stale db k" if k: "k \<in> set (jq_jobs db)" and v: "v \<noteq> v'" "holds (?W v) (jb_id k)" "holds (?W v') (jb_id k)" for k v v'
    proof (cases "jb_id k = i")
      case True
      then have "holds (po_workers P v) i \<or> holds (po_workers P v') i" using held [OF v(2)] held [OF v(3)] v(1) by auto
      then show ?thesis using others unique [OF k True] st by auto
    next
      case False
      then have "holds (po_workers P v) (jb_id k)" "holds (po_workers P v') (jb_id k)" using held [OF v(2)] held [OF v(3)] by auto
      then show ?thesis using ok k v(1) unfolding pool_ok_def by simp
    qed
    have bound: "k \<le> jq_last_id db" if "holds (?W v) k" for v k using held [OF that] ok last unfolding pool_ok_def by auto
    show ?thesis using ok True running apart bound unfolding pool_ok_def by (simp del: fun_upd_apply)
  qed
qed

lemma mild_id: "pool_ok P \<Longrightarrow> mild (po_db P) (po_db P)"
  by (auto simp: pool_ok_def mild_def)

lemma mild_requeue: "pool_ok P \<Longrightarrow> mild (po_db P) (requeue_stale_jobs (po_db P))"
  unfolding requeue_stale_jobs_def
  by (auto simp: mild_id intro!: mild_update) (auto simp: pool_ok_def stale_def)

lemma mild_purge: "pool_ok P \<Longrightarrow> mild (po_db P) (purge_old_rows (po_db P))"
  unfolding pool_ok_def mild_def purge_old_rows_def Let_def by (auto simp: distinct_map_filter)

lemma mild_time: "pool_ok P \<Longrightarrow> jq_now (po_db P) \<le> t \<Longrightarrow> mild (po_db P) ((po_db P)\<lparr>jq_now := t, jq_up := up\<rparr>)"
  unfolding pool_ok_def mild_def by auto

text \<open>A job that ends is let go by the worker that ends it; another one holds it only if it is stale.\<close>

lemma pool_ok_finish:
  assumes ok: "pool_ok P" and busy: "po_workers P w = Busy i k p"
  shows "pool_ok \<lparr>po_db = Jobs.finish i good (po_db P), po_workers = (po_workers P)(w := Idle)\<rparr>"
proof -
  let ?P = "P\<lparr>po_workers := (po_workers P)(w := Idle)\<rparr>"
  have rel: "pool_ok ?P" by (rule pool_ok_release [OF ok]) simp
  show ?thesis
  proof (cases "jq_up (po_db P) FinishJob")
    case False
    then show ?thesis using rel by (cases P) (simp add: finish_def)
  next
    case True
    let ?s = "if good then Done else Failed"
    define db where "db = update_jobs (\<lambda>j. jb_id j = i) (\<lambda>j. j\<lparr>jb_state := ?s\<rparr>) (po_db P)"
    have st: "stale db j = stale (po_db P) j" for j by (simp add: db_def update_jobs_def stale_def)
    have src: "\<exists>j0 \<in> set (jq_jobs (po_db P)). jb_id j0 = jb_id j \<and> jb_created_at j0 = jb_created_at j \<and> (jb_id j \<noteq> i \<longrightarrow> j = j0)"
      if "j \<in> set (jq_jobs db)" for j using that by (auto simp: db_def update_jobs_def split: if_splits)
    have hold: "stale db j" if j: "j \<in> set (jq_jobs db)" "jb_id j = i" and v: "v \<noteq> w" "holds (po_workers P v) i" for j v
    proof -
      obtain j0 where j0: "j0 \<in> set (jq_jobs (po_db P))" "jb_id j0 = i" "jb_created_at j0 = jb_created_at j" using src [OF j(1)] j(2) by metis
      have "stale (po_db P) j0" using ok j0(1,2) v busy unfolding pool_ok_def by (metis holds_simps(4))
      then show ?thesis using j0(3) st by (simp add: stale_def)
    qed
    have ids: "map jb_id (jq_jobs db) = map jb_id (jq_jobs (po_db P))" by (simp add: db_def update_jobs_def)
    have "jb_state j = Running \<or> stale db j" if "j \<in> set (jq_jobs db)" "holds (((po_workers P)(w := Idle)) v) (jb_id j)" for j v
      using src [OF that(1)] hold [OF that(1), of v] that(2) ok st unfolding pool_ok_def by (auto split: if_splits)
    moreover have "stale db j" if "j \<in> set (jq_jobs db)" "v \<noteq> v'" "holds (((po_workers P)(w := Idle)) v) (jb_id j)"
        "holds (((po_workers P)(w := Idle)) v') (jb_id j)" for j v v'
      using src [OF that(1)] hold [OF that(1), of v] that(2-) ok st unfolding pool_ok_def by (auto split: if_splits)
    moreover have "jb_id j \<le> jq_last_id db" if "j \<in> set (jq_jobs db)" for j
      using src [OF that] ok unfolding pool_ok_def by (metis db_def job_db.ext_inject job_db.surjective job_db.update_convs(1) update_jobs_def)
    moreover have "jq_last_id db = jq_last_id (po_db P)" by (simp add: db_def update_jobs_def)
    ultimately have "pool_ok \<lparr>po_db = db, po_workers = (po_workers P)(w := Idle)\<rparr>"
      using rel ids unfolding pool_ok_def by (simp del: fun_upd_apply)
    then show ?thesis using True by (simp add: finish_def db_def)
  qed
qed

lemma pool_ok_step:
  assumes "job_step P P'" "pool_ok P"
  shows "pool_ok P'"
  using assms
proof cases
  case (pick w i)
  show ?thesis unfolding pick(1) by (rule pool_ok_release [OF assms(2)]) simp
next
  case (take w i n db)
  then show ?thesis using pool_ok_take [OF assms(2)] by blast
next
  case (read w i)
  show ?thesis unfolding read(1)
    by (rule pool_ok_release [OF assms(2)]) (use read(2) in \<open>simp split: option.splits prod.splits\<close>)
next
  case (finish w i k p good)
  then show ?thesis using pool_ok_finish [OF assms(2)] by blast
next
  case (enqueue kind pl)
  then show ?thesis using pool_ok_insert [OF assms(2)] assms(2) by (simp add: enqueue_def)
next
  case (enqueue_after kind pl delay)
  then show ?thesis using pool_ok_insert [OF assms(2)] assms(2) by (simp add: enqueue_after_def)
next
  case requeue
  then show ?thesis using pool_ok_mild [OF assms(2) mild_requeue [OF assms(2)]] by simp
next
  case purge
  then show ?thesis using pool_ok_mild [OF assms(2) mild_purge [OF assms(2)]] by simp
next
  case (time t up)
  then show ?thesis using pool_ok_mild [OF assms(2) mild_time [OF assms(2)]] by simp
next
  case (crash w)
  show ?thesis unfolding crash(1) by (rule pool_ok_release [OF assms(2)]) simp
qed

lemma pool_ok_reachable:
  assumes "job_step\<^sup>*\<^sup>* P P'" "pool_ok P"
  shows "pool_ok P'"
  using assms by (induction rule: rtranclp_induct) (auto intro: pool_ok_step)

text \<open>C25. However many workers share the table, and whatever they, the enqueuers, the clock, the tidying of the queue and
  crashes do in between, two workers hold the same job only if it is older than the window after which a running job is
  taken for abandoned (one hour, counted from its creation).\<close>

theorem job_exclusive:
  assumes "\<And>w. po_workers P w = Idle"
    and "distinct (map jb_id (jq_jobs (po_db P)))" "\<And>j. j \<in> set (jq_jobs (po_db P)) \<Longrightarrow> jb_id j \<le> jq_last_id (po_db P)"
    and "job_step\<^sup>*\<^sup>* P P'"
    and "w \<noteq> w'" "holds (po_workers P' w) i" "holds (po_workers P' w') i"
    and "j \<in> set (jq_jobs (po_db P'))" "jb_id j = i"
  shows "jb_created_at j < jq_now (po_db P') - STALE_RUNNING_HOURS * 3600"
proof -
  have "pool_ok P" using assms(1-3) unfolding pool_ok_def by simp
  then have "pool_ok P'" by (rule pool_ok_reachable [OF assms(4)])
  then have "stale (po_db P') j" using assms(5-9) unfolding pool_ok_def by blast
  then show ?thesis by (simp add: stale_def)
qed

definition demo_job :: job where
  "demo_job = \<lparr>jb_id = 1, jb_kind = ''repair'', jb_payload = OtherPayload, jb_state = Pending, jb_attempts = 0,
               jb_run_after = 0, jb_created_at = 0\<rparr>"

definition demo_queue :: "int \<Rightarrow> job_db" where
  "demo_queue now = \<lparr>jq_jobs = [demo_job], jq_last_id = 1, jq_events = [], jq_now = now, jq_up = \<lambda>_. True\<rparr>"

definition demo_pool :: "job_db \<Rightarrow> worker \<Rightarrow> worker \<Rightarrow> pool" where
  "demo_pool db a b = \<lparr>po_db = db, po_workers = (\<lambda>_. Idle)(0 := a, 1 := b)\<rparr>"

text \<open>Two workers do get the same job once it is stale: it is requeued under the first.\<close>

lemma demo_claimed:
  "claim_row 1 (demo_queue 4000) = (1, demo_queue 4000\<lparr>jq_jobs := [demo_job\<lparr>jb_state := Running, jb_attempts := 1\<rparr>]\<rparr>)"
  "requeue_stale_jobs (demo_queue 4000\<lparr>jq_jobs := [demo_job\<lparr>jb_state := Running, jb_attempts := 1\<rparr>]\<rparr>)
     = demo_queue 4000\<lparr>jq_jobs := [demo_job\<lparr>jb_attempts := 1, jb_run_after := 4000\<rparr>]\<rparr>"
  "claim_row 1 (demo_queue 4000\<lparr>jq_jobs := [demo_job\<lparr>jb_attempts := 1, jb_run_after := 4000\<rparr>]\<rparr>)
     = (1, demo_queue 4000\<lparr>jq_jobs := [demo_job\<lparr>jb_state := Running, jb_attempts := 2, jb_run_after := 4000\<rparr>]\<rparr>)"
  by (simp_all add: claim_row_def update_jobs_def demo_queue_def demo_job_def requeue_stale_jobs_def STALE_RUNNING_HOURS_def)

lemma demo_run:
  "job_step\<^sup>*\<^sup>* (demo_pool (demo_queue 4000) Idle Idle)
     (demo_pool (demo_queue 4000\<lparr>jq_jobs := [demo_job\<lparr>jb_state := Running, jb_attempts := 2, jb_run_after := 4000\<rparr>]\<rparr>) (Won 1) (Won 1))"
proof -
  let ?q0 = "demo_queue 4000" and ?q1 = "demo_queue 4000\<lparr>jq_jobs := [demo_job\<lparr>jb_state := Running, jb_attempts := 1\<rparr>]\<rparr>"
    and ?q2 = "demo_queue 4000\<lparr>jq_jobs := [demo_job\<lparr>jb_attempts := 1, jb_run_after := 4000\<rparr>]\<rparr>"
    and ?q3 = "demo_queue 4000\<lparr>jq_jobs := [demo_job\<lparr>jb_state := Running, jb_attempts := 2, jb_run_after := 4000\<rparr>]\<rparr>"
  have c: "candidate ?q0 = Some 1" "candidate ?q2 = Some 1" by (simp_all add: candidate_def demo_queue_def demo_job_def)
  have "job_step\<^sup>*\<^sup>* (demo_pool ?q0 Idle Idle) (demo_pool ?q0 Idle Idle)" by simp
  also have "job_step (demo_pool ?q0 Idle Idle) (demo_pool ?q0 (Picked 1) Idle)"
    using job_step.pick [of "demo_pool ?q0 Idle Idle" 0 1] c by (simp add: demo_pool_def fun_upd_twist)
  also have "job_step (demo_pool ?q0 (Picked 1) Idle) (demo_pool ?q1 (Won 1) Idle)"
    using job_step.take [of "demo_pool ?q0 (Picked 1) Idle" 0 1 1 ?q1] demo_claimed by (simp add: demo_pool_def fun_upd_twist)
  also have "job_step (demo_pool ?q1 (Won 1) Idle) (demo_pool ?q2 (Won 1) Idle)"
    using job_step.requeue [of "demo_pool ?q1 (Won 1) Idle"] demo_claimed by (simp add: demo_pool_def)
  also have "job_step (demo_pool ?q2 (Won 1) Idle) (demo_pool ?q2 (Won 1) (Picked 1))"
    using job_step.pick [of "demo_pool ?q2 (Won 1) Idle" 1 1] c by (simp add: demo_pool_def)
  also have "job_step (demo_pool ?q2 (Won 1) (Picked 1)) (demo_pool ?q3 (Won 1) (Won 1))"
    using job_step.take [of "demo_pool ?q2 (Won 1) (Picked 1)" 1 1 1 ?q3] demo_claimed by (simp add: demo_pool_def)
  finally show ?thesis .
qed

theorem job_exclusive_witness:
  "jb_created_at (demo_job\<lparr>jb_state := Running, jb_attempts := 2, jb_run_after := 4000\<rparr>) < 4000 - STALE_RUNNING_HOURS * 3600"
  using job_exclusive [OF _ _ _ demo_run, of 0 1 1 "demo_job\<lparr>jb_state := Running, jb_attempts := 2, jb_run_after := 4000\<rparr>"]
  by (simp add: demo_pool_def demo_queue_def demo_job_def)

section \<open>The claim loop\<close>

text \<open>The jobs that are due, in the order of their ids.\<close>

definition due_jobs :: "job_db \<Rightarrow> job list" where
  "due_jobs db = sort_key jb_id (filter (\<lambda>j. jb_state j = Pending \<and> jb_run_after j \<le> jq_now db) (jq_jobs db))"

lemma candidate_due: "jq_up db SelectCandidate \<Longrightarrow> candidate db = map_option jb_id (case due_jobs db of [] \<Rightarrow> None | j # _ \<Rightarrow> Some j)"
  by (simp add: candidate_def due_jobs_def split: list.splits)

lemma due_in: "due_jobs db = j # js \<Longrightarrow> j \<in> set (jq_jobs db) \<and> jb_state j = Pending \<and> jb_run_after j \<le> jq_now db"
  by (metis (mono_tags, lifting) due_jobs_def list.set_intros(1) mem_Collect_eq set_filter set_sort)

lemma filter_unique:
  "distinct (map f xs) \<Longrightarrow> x \<in> set xs \<Longrightarrow> P x \<Longrightarrow> filter (\<lambda>y. f y = f x \<and> P y) xs = [x]"
proof (induction xs)
  case (Cons a xs)
  show ?case
  proof (cases "a = x")
    case True
    then have "filter (\<lambda>y. f y = f x \<and> P y) xs = []" using Cons.prems(1) by (auto simp: filter_empty_conv image_iff)
    then show ?thesis using True Cons.prems by simp
  next
    case False
    then have "x \<in> set xs" "f a \<noteq> f x" using Cons.prems by auto
    then show ?thesis using Cons by simp
  qed
qed simp

lemma find_unique: "distinct (map f xs) \<Longrightarrow> x \<in> set xs \<Longrightarrow> find (\<lambda>y. f y = f x) xs = Some x"
  by (induction xs) auto

definition claimed_job :: "job \<Rightarrow> job" where
  "claimed_job j = j\<lparr>jb_state := Running, jb_attempts := jb_attempts j + 1\<rparr>"

text \<open>The ids of the due jobs; a table that answers the three statements.\<close>

definition due_ids :: "job_db \<Rightarrow> nat set" where
  "due_ids db = jb_id ` set (due_jobs db)"



lemma finite_due [simp]: "finite (due_ids db)"
  by (simp add: due_ids_def)











text \<open>A worker alone on the table takes the due job of the lowest id, which is then running and counted once more, every other row as it was.\<close>

lemma claim_first_due:
  assumes "jq_up db SelectCandidate" "jq_up db ClaimJob" "jq_up db SelectClaimed" "distinct (map jb_id (jq_jobs db))"
  shows "claim (\<lambda>_ d. d) n db =
    (case due_jobs db of
       [] \<Rightarrow> Some (None, db)
     | j # _ \<Rightarrow> Some (Some (jb_id j, jb_kind j, jb_payload j),
                   db\<lparr>jq_jobs := map (\<lambda>k. if jb_id k = jb_id j then claimed_job k else k) (jq_jobs db)\<rparr>))"
proof (cases "due_jobs db")
  case Nil
  then show ?thesis using candidate_due [OF assms(1)] by (subst claim.simps) simp
next
  case (Cons j js)
  then have j: "j \<in> set (jq_jobs db)" "jb_state j = Pending" using due_in by auto
  let ?p = "\<lambda>k. jb_id k = jb_id j \<and> jb_state k = Pending"
  let ?db = "db\<lparr>jq_jobs := map (\<lambda>k. if jb_id k = jb_id j then claimed_job k else k) (jq_jobs db)\<rparr>"
  have only: "k = j" if "k \<in> set (jq_jobs db)" "jb_id k = jb_id j" for k
    using that j(1) assms(4) by (metis (mono_tags, lifting) distinct_map inj_onD)
  have one: "length (filter ?p (jq_jobs db)) = 1" using filter_unique [of jb_id "jq_jobs db" j "\<lambda>k. jb_state k = Pending"] assms(4) j by simp
  have "map (\<lambda>k. if ?p k then claimed_job k else k) (jq_jobs db) = map (\<lambda>k. if jb_id k = jb_id j then claimed_job k else k) (jq_jobs db)"
    using only j(2) by (intro map_cong) auto
  then have row: "claim_row (jb_id j) db = (1, ?db)"
    using assms(2) one unfolding claim_row_def update_jobs_def claimed_job_def [symmetric] by simp
  have "find (\<lambda>k. jb_id k = jb_id (claimed_job j)) (jq_jobs ?db) = Some (claimed_job j)"
    by (rule find_unique) (use assms(4) j(1) in \<open>auto simp: claimed_job_def o_def if_distrib cong: if_cong\<close>)
  then have "read_claimed (jb_id j) ?db = Some (jb_kind j, jb_payload j)"
    using assms(3) by (simp add: read_claimed_def claimed_job_def)
  then show ?thesis using candidate_due [OF assms(1)] row Cons by (subst claim.simps) (simp add: Let_def)
qed

text \<open>A database that answers the search for a job but not the update that claims it keeps the loop from ever returning
  while a job is due: it looks again at once, without a pause.\<close>

theorem claim_spins:
  assumes "candidate db \<noteq> None" "\<not> jq_up db ClaimJob"
  shows "claim (\<lambda>_ d. d) n db = None"
proof -
  have "\<not> (o1 = (\<lambda>_ d. d) \<and> candidate db \<noteq> None \<and> \<not> jq_up db ClaimJob)" if "claim o1 n db = Some y" for o1 y
  proof (rule claim.raw_induct [OF _ that, where P = "\<lambda>o1 n db y. \<not> (o1 = (\<lambda>_ d. d) \<and> candidate db \<noteq> None \<and> \<not> jq_up db ClaimJob)"])
    fix rec :: "(nat \<Rightarrow> job_db \<Rightarrow> job_db) \<Rightarrow> nat \<Rightarrow> job_db \<Rightarrow> ((nat \<times> string \<times> job_payload) option \<times> job_db) option" and o1 m d y
    assume ih: "\<And>o1 m d y. rec o1 m d = Some y \<Longrightarrow> \<not> (o1 = (\<lambda>_ d. d) \<and> candidate d \<noteq> None \<and> \<not> jq_up d ClaimJob)"
      and body: "(case candidate d of None \<Rightarrow> Some (None, d)
        | Some i \<Rightarrow> (case claim_row i (o1 m d) of (n1, d1) \<Rightarrow>
            let d2 = o1 (m + 1) d1
            in if n1 \<noteq> 1 then rec o1 (m + 2) d2
               else (case read_claimed i d2 of Some kp \<Rightarrow> Some (Some (i, kp), d2) | None \<Rightarrow> rec o1 (m + 3) (o1 (m + 2) d2)))) = Some y"
    show "\<not> (o1 = (\<lambda>_ d. d) \<and> candidate d \<noteq> None \<and> \<not> jq_up d ClaimJob)"
    proof
      assume spin: "o1 = (\<lambda>_ d. d) \<and> candidate d \<noteq> None \<and> \<not> jq_up d ClaimJob"
      then have "rec o1 (m + 2) d = Some y" using body by (auto simp: claim_row_def Let_def)
      then show False using ih spin by blast
    qed
  qed
  then show ?thesis using assms by (cases "claim (\<lambda>_ d. d) n db") auto
qed

theorem claim_spins_witness: "claim (\<lambda>_ d. d) 0 (demo_queue 0\<lparr>jq_up := \<lambda>c. c \<noteq> ClaimJob\<rparr>) = None"
  by (rule claim_spins) (simp_all add: candidate_def demo_queue_def demo_job_def)

section \<open>Deletions at peers\<close>

lemma gc_each_failed: "set (fst (gc_each C shards S)) \<subseteq> set shards"
proof (induction shards arbitrary: S)
  case (Cons x shards)
  have ih: "set failed \<subseteq> set shards" if "gc_each C shards S' = (failed, S'')" for S' failed S'' using Cons.IH [of S'] that by simp
  obtain fr pid where x: "x = (fr, pid)" by (cases x)
  show ?case unfolding x gc_each.simps by (auto split: option.split prod.split dest: ih subsetD [OF Cons.IH])
qed simp

text \<open>Deleting shards at peers is retried a bounded number of times: a pass over a payload either leaves the queue as it is
  or adds one job, due five minutes later for each pass so far, with some of the shards and the next attempt number, which
  is below the limit.\<close>

theorem gc_remote_bounded:
  "case run_gc_remote C (GcShards shards a) (S, db) of
     (good, S', db') \<Rightarrow> good \<and>
       (db' = db
        \<or> (\<exists>failed. failed \<noteq> [] \<and> set failed \<subseteq> set shards \<and> a + 1 < GC_MAX_ATTEMPTS
             \<and> db' = enqueue_after ''gc_remote'' (GcShards failed (a + 1)) (300 * (a + 1)) db))"
proof (cases "shards = []")
  case False
  obtain failed S' where run: "gc_each C shards S = (failed, S')" by (cases "gc_each C shards S")
  have sub: "set failed \<subseteq> set shards" using gc_each_failed [of C shards S] run by simp
  show ?thesis
  proof (cases "failed \<noteq> [] \<and> a + 1 < GC_MAX_ATTEMPTS")
    case True
    then show ?thesis using False run sub by (simp add: run_gc_remote_def GC_RETRY_BASE_SECS_def) blast
  qed (use False run in \<open>auto simp: run_gc_remote_def\<close>)
qed (simp add: run_gc_remote_def)

end
