(* ===== verification/Backup.thy ===== *)
theory Backup
  imports Service
begin

text \<open>
  \<open>store/src/backup.rs\<close>: the encrypted bundle of identity and manifest that an administrator keeps, and the format of the
  automatic backup that is erasure-coded onto peers; \<open>NodeIdentity::load_or_create\<close> of \<open>identity.rs\<close>, which reads a restored
  identity. SQLite's serialisation of the manifest is the argument \<open>vacuum\<close>; the manifest is \<open>None\<close> when its database cannot be opened.
  The data directory is a disk whose operations may fail, with renames and permissions. Random bytes (salt, first key) and the
  clock are arguments. Memory wiping has no counterpart.
\<close>

section \<open>The data directory\<close>

record home =
  hm_disk :: disk
  hm_rename_fault :: "file_path \<Rightarrow> string option"
  hm_mode_fault :: "file_path \<Rightarrow> string option"

type_synonym 'a home_op = "(home, 'a, store_error) op"

definition err :: "string \<Rightarrow> store_error" where
  "err msg = Integrity msg"

definition fs_mkdir :: "file_path \<Rightarrow> unit home_op" where
  "fs_mkdir p H = (case mkdir_fault (hm_disk H) p of Some e \<Rightarrow> (Err (SIo e), H) | None \<Rightarrow> (Ok (), H))"

definition fs_write :: "file_path \<Rightarrow> bytes \<Rightarrow> unit home_op" where
  "fs_write p data H = (case write_file p data (hm_disk H) of (r, D) \<Rightarrow> (r, H\<lparr>hm_disk := D\<rparr>))"

definition fs_read :: "file_path \<Rightarrow> bytes home_op" where
  "fs_read p H =
     (case disk_files (hm_disk H) p of
        None \<Rightarrow> (Err (SIo ''no such file''), H)
      | Some b \<Rightarrow> (case read_fault (hm_disk H) p of Some e \<Rightarrow> (Err (SIo e), H) | None \<Rightarrow> (Ok b, H)))"

definition fs_remove :: "file_path \<Rightarrow> unit home_op" where
  "fs_remove p H =
     (case disk_files (hm_disk H) p of
        None \<Rightarrow> (Err (SIo ''no such file''), H)
      | Some b \<Rightarrow>
          (case remove_fault (hm_disk H) p of
             Some e \<Rightarrow> (Err (SIo e), H)
           | None \<Rightarrow> (Ok (), H\<lparr>hm_disk := (hm_disk H)\<lparr>disk_files := (disk_files (hm_disk H))(p := None)\<rparr>\<rparr>)))"

definition fs_rename :: "file_path \<Rightarrow> file_path \<Rightarrow> unit home_op" where
  "fs_rename src dst H =
     (case disk_files (hm_disk H) src of
        None \<Rightarrow> (Err (SIo ''no such file''), H)
      | Some b \<Rightarrow>
          (case hm_rename_fault H src of
             Some e \<Rightarrow> (Err (SIo e), H)
           | None \<Rightarrow> (Ok (), H\<lparr>hm_disk := (hm_disk H)\<lparr>disk_files := (disk_files (hm_disk H))(src := None, dst \<mapsto> b)\<rparr>\<rparr>)))"

text \<open>A call whose result the code ignores.\<close>

definition attempt :: "('s, 'a, 'e) op \<Rightarrow> ('s, unit, 'e) op" where
  "attempt m s = (case m s of (Panic, t) \<Rightarrow> (Panic, t) | (_, t) \<Rightarrow> (Ok (), t))"

text \<open>\<open>create_new\<close>: an existing file is an error.\<close>

definition fs_create_new :: "file_path \<Rightarrow> bytes \<Rightarrow> unit home_op" where
  "fs_create_new p data H =
     (if disk_files (hm_disk H) p \<noteq> None then (Err (SIo ''file exists''), H) else fs_write p data H)"

section \<open>The bundle\<close>

definition MAGIC :: bytes where "MAGIC = as_bytes ''KBP2PBK1''"
definition VERSION :: byte where "VERSION = 1"
definition SALT_LEN :: nat where "SALT_LEN = 16"
definition IDENTITY_LEN :: nat where "IDENTITY_LEN = 32"
definition BUNDLE_INFO :: bytes where "BUNDLE_INFO = as_bytes ''p2pnas/backup-bundle/v1''"
definition MIN_PASSPHRASE_LEN :: nat where "MIN_PASSPHRASE_LEN = 12"

definition derive_kek :: "'f env \<Rightarrow> string \<Rightarrow> bytes \<Rightarrow> (bytes, store_error) result" where
  "derive_kek E passphrase salt = ok_or (err ''key derivation failed'') (argon2id E (as_bytes passphrase) salt)"

definition bundle_sealer :: "'f env \<Rightarrow> bytes \<Rightarrow> (chunk_sealer, store_error) result" where
  "bundle_sealer E kek = map_err Core (rbind (file_subkey E kek BUNDLE_INFO) (subkey_sealer E))"

definition seal_bundle :: "'f env \<Rightarrow> bytes \<Rightarrow> bytes \<Rightarrow> string \<Rightarrow> (bytes, store_error) result" where
  "seal_bundle E salt plaintext passphrase =
     rbind (derive_kek E passphrase salt) (\<lambda>kek.
     rbind (bundle_sealer E kek) (\<lambda>sealer.
     rbind (map_err Core (seal E sealer plaintext 0)) (\<lambda>(sealed, _).
       Ok (MAGIC @ [VERSION] @ salt @ sealed))))"

definition open_backup_bundle :: "'f env \<Rightarrow> bytes \<Rightarrow> string \<Rightarrow> (bytes, store_error) result" where
  "open_backup_bundle E blob passphrase =
     (let header = length MAGIC + 1 + SALT_LEN
      in if length blob < header then Err (err ''backup file too short or not a p2pnas backup'')
         else if take (length MAGIC) blob \<noteq> MAGIC then Err (err ''not a p2pnas backup file'')
         else if blob ! length MAGIC \<noteq> VERSION then Err (err ''unsupported backup version'')
         else
           rbind (derive_kek E passphrase (take SALT_LEN (drop (length MAGIC + 1) blob))) (\<lambda>kek.
           rbind (bundle_sealer E kek) (\<lambda>sealer.
             map_err (\<lambda>_. err ''wrong passphrase or corrupt backup'') (open_inner E sealer 0 (drop header blob)))))"

definition encode_plaintext :: "bytes \<Rightarrow> bytes \<Rightarrow> bytes" where
  "encode_plaintext identity manifest_bytes = identity @ u64_be (word_of_nat (length manifest_bytes)) @ manifest_bytes"

definition be_u64 :: "bytes \<Rightarrow> (u64, store_error) result" where
  "be_u64 bs = (if length bs = 8 then Ok (word_of_nat (of_be bs)) else Err (err ''malformed length field''))"

definition be_u32 :: "bytes \<Rightarrow> (u32, store_error) result" where
  "be_u32 bs = (if length bs = 4 then Ok (word_of_nat (of_be bs)) else Err (err ''malformed length field''))"

definition decode_plaintext :: "bytes \<Rightarrow> (bytes \<times> bytes, store_error) result" where
  "decode_plaintext plain =
     (if length plain < IDENTITY_LEN + 8 then Err (err ''backup contents truncated'')
      else
        rbind (be_u64 (take 8 (drop IDENTITY_LEN plain))) (\<lambda>len.
          let rest = drop (IDENTITY_LEN + 8) plain
          in if length rest \<noteq> unat len then Err (err ''backup manifest length mismatch'')
             else Ok (take IDENTITY_LEN plain, rest)))"

definition identity_path :: "file_path \<Rightarrow> file_path" where
  "identity_path data_dir = data_dir @ [''identity'', ''identity.key'']"

definition manifest_path :: "file_path \<Rightarrow> file_path" where
  "manifest_path data_dir = data_dir @ [''manifest.db'']"

text \<open>\<open>Manifest::snapshot_to\<close>: the old snapshot is removed, then \<open>VACUUM INTO\<close> writes the new one.\<close>

definition snapshot_to :: "(manifest \<Rightarrow> bytes) \<Rightarrow> manifest option \<Rightarrow> file_path \<Rightarrow> unit home_op" where
  "snapshot_to vacuum M dest =
     sbind (\<lambda>H. if disk_files (hm_disk H) dest \<noteq> None then fs_remove dest H else (Ok (), H)) (\<lambda>_ H.
       case M of
         None \<Rightarrow> (Err (Sqlite ''unable to open database file''), H)
       | Some m \<Rightarrow>
           (case fs_write dest (vacuum m) H of
              (Err (SIo e), H') \<Rightarrow> (Err (Sqlite e), H')
            | rH \<Rightarrow> rH))"

text \<open>Snapshot, read it, remove it whatever the read gave.\<close>

definition take_snapshot :: "(manifest \<Rightarrow> bytes) \<Rightarrow> manifest option \<Rightarrow> file_path \<Rightarrow> bytes home_op" where
  "take_snapshot vacuum M snap =
     sbind (snapshot_to vacuum M snap) (\<lambda>_ H.
       case fs_read snap H of (r, H1) \<Rightarrow> sbind (attempt (fs_remove snap)) (\<lambda>_. slift r) H1)"

definition char_count :: "string \<Rightarrow> nat" where
  "char_count s = length (filter (\<lambda>b. unat b < 128 \<or> 192 \<le> unat b) (as_bytes s))"

definition export :: "'f env \<Rightarrow> (manifest \<Rightarrow> bytes) \<Rightarrow> bytes \<Rightarrow> file_path \<Rightarrow> manifest option \<Rightarrow> string \<Rightarrow> bytes home_op" where
  "export E vacuum salt data_dir M passphrase =
     (if char_count passphrase < MIN_PASSPHRASE_LEN
      then slift (Err (err ''passphrase too short (at least 12 characters)''))
      else
        sbind (take_snapshot vacuum M (data_dir @ [''manifest.snapshot.tmp''])) (\<lambda>manifest_bytes.
        sbind (fs_read (identity_path data_dir)) (\<lambda>identity.
          if length identity \<noteq> IDENTITY_LEN then slift (Err (err ''identity.key has unexpected length''))
          else slift (seal_bundle E salt (encode_plaintext identity manifest_bytes) passphrase))))"

text \<open>A manifest that cannot be opened counts as empty.\<close>

definition ensure_fresh_node :: "manifest option \<Rightarrow> (unit, store_error) result" where
  "ensure_fresh_node M =
     (let existing = (case M of None \<Rightarrow> 0 | Some m \<Rightarrow> length (list_all_files m))
      in if existing > 0 then Err (err ''this node already holds data; restore is only for a fresh node'') else Ok ())"

text \<open>\<open>Path::with_extension\<close> on the last component: what follows its last dot is replaced, unless the dot comes first.\<close>

definition file_stem :: "string \<Rightarrow> string" where
  "file_stem s =
     (let front = rev (tl (dropWhile (\<lambda>c. c \<noteq> CHR ''.'') (rev s)))
      in if CHR ''.'' \<in> set s \<and> front \<noteq> [] then front else s)"

definition with_extension :: "file_path \<Rightarrow> string \<Rightarrow> file_path" where
  "with_extension p ext = butlast p @ [file_stem (last p) @ ''.'' @ ext]"

definition write_atomic :: "file_path \<Rightarrow> bytes \<Rightarrow> unit home_op" where
  "write_atomic path bs =
     (let tmp = with_extension path ''restore.tmp''
      in sbind (fs_write tmp bs) (\<lambda>_. fs_rename tmp path))"

definition write_identity :: "file_path \<Rightarrow> bytes \<Rightarrow> unit home_op" where
  "write_identity path bs = sbind (attempt (fs_remove path)) (\<lambda>_. fs_create_new path bs)"

definition import :: "'f env \<Rightarrow> file_path \<Rightarrow> manifest option \<Rightarrow> string \<Rightarrow> bytes \<Rightarrow> unit home_op" where
  "import E data_dir M passphrase blob =
     sbind (slift (ensure_fresh_node M)) (\<lambda>_.
     sbind (slift (open_backup_bundle E blob passphrase)) (\<lambda>plain.
     sbind (slift (decode_plaintext plain)) (\<lambda>(identity, manifest_bytes).
     sbind (fs_mkdir (butlast (manifest_path data_dir))) (\<lambda>_.
     sbind (write_atomic (manifest_path data_dir) manifest_bytes) (\<lambda>_.
     sbind (fs_mkdir (butlast (identity_path data_dir))) (\<lambda>_.
       write_identity (identity_path data_dir) identity))))))"

section \<open>The identity of a node\<close>

definition identity_of :: "'f env \<Rightarrow> data_key \<Rightarrow> (node_identity, store_error) result" where
  "identity_of E raw =
     rbind (map_err Core (derive_raw E raw (as_bytes ''p2pnas/manifest/v1''))) (\<lambda>mk.
     rbind (map_err Core (derive_raw E raw (as_bytes ''p2pnas/peer-id/v1''))) (\<lambda>pid.
       Ok \<lparr>id_data_key = raw, id_manifest_key_hex = hex_encode E mk, id_peer_id = hex_encode E (take 16 pid)\<rparr>))"

text \<open>\<open>fresh\<close> are the random bytes of a first run; a key file open to others is refused (\<open>hm_mode_fault\<close>).\<close>

definition load_or_create :: "'f env \<Rightarrow> bytes \<Rightarrow> file_path \<Rightarrow> node_identity home_op" where
  "load_or_create E fresh dir =
     sbind (fs_mkdir dir) (\<lambda>_.
     sbind (\<lambda>H.
        let key_path = dir @ [''identity.key'']
        in if disk_files (hm_disk H) key_path \<noteq> None
           then (case hm_mode_fault H key_path of
                   Some e \<Rightarrow> (Err (Integrity e), H)
                 | None \<Rightarrow>
                     sbind (fs_read key_path) (\<lambda>bs.
                       if length bs \<noteq> KEY_LEN then slift (Err (Integrity ''identity.key has wrong length'')) else sreturn bs) H)
           else sbind (fs_create_new key_path fresh) (\<lambda>_. sreturn fresh) H) (\<lambda>raw.
       slift (identity_of E raw)))"

section \<open>The automatic backup\<close>

definition MANIFEST_BACKUP_DOMAIN :: bytes where "MANIFEST_BACKUP_DOMAIN = as_bytes ''p2pnas/manifest-backup/v1''"
definition MB_MAGIC :: bytes where "MB_MAGIC = as_bytes ''KBP2PMB1''"
definition MB_FORMAT :: byte where "MB_FORMAT = 1"
definition PEER_ID_LEN :: nat where "PEER_ID_LEN = 32"
definition MB_HEADER :: nat where "MB_HEADER = 8 + 1 + 8 + PEER_ID_LEN + 8"
definition MS_MAGIC :: bytes where "MS_MAGIC = as_bytes ''KBP2PMS1''"
definition MS_FORMAT :: byte where "MS_FORMAT = 1"
definition BLOB_HASH_LEN :: nat where "BLOB_HASH_LEN = 16"
definition MS_HEADER :: nat where "MS_HEADER = 8 + 1 + 8 + 1 + 4 + 8 + BLOB_HASH_LEN"
definition DAY_SECS :: nat where "DAY_SECS = 24 * 60 * 60"
definition SNAPSHOT_TMP :: string where "SNAPSHOT_TMP = ''manifest.autobackup.tmp''"

text \<open>The seconds since the epoch, negative for a clock before it.\<close>

definition manifest_backup_version_now :: "int \<Rightarrow> u64" where
  "manifest_backup_version_now now = (if now < 0 then 0 else word_of_nat (nat now div DAY_SECS))"

definition backup_id_input :: "string \<Rightarrow> u64 \<Rightarrow> nat \<Rightarrow> bytes" where
  "backup_id_input peer_id version shard_index =
     MANIFEST_BACKUP_DOMAIN @ as_bytes peer_id @ u64_be version @ u32_be (word_of_nat shard_index)"

definition manifest_backup_fragment_id :: "'f env \<Rightarrow> string \<Rightarrow> u64 \<Rightarrow> nat \<Rightarrow> string" where
  "manifest_backup_fragment_id E peer_id version shard_index =
     hex_encode E (take 16 (blake3 E (backup_id_input peer_id version shard_index)))"

definition manifest_backup_sealer :: "'f env \<Rightarrow> data_key \<Rightarrow> string \<Rightarrow> u64 \<Rightarrow> (chunk_sealer, store_error) result" where
  "manifest_backup_sealer E key peer_id version =
     map_err Core
       (rbind (derive_v2 E key MANIFEST_BACKUP_DOMAIN [as_bytes peer_id, u64_be version]) (\<lambda>raw.
        rbind (file_subkey E raw MANIFEST_BACKUP_DOMAIN) (subkey_sealer E)))"

definition blob_hash :: "'f env \<Rightarrow> bytes \<Rightarrow> bytes" where
  "blob_hash E blob = take BLOB_HASH_LEN (blake3 E blob)"

definition snapshot_plain :: "string \<Rightarrow> u64 \<Rightarrow> bytes \<Rightarrow> bytes" where
  "snapshot_plain peer_id version snapshot =
     MB_MAGIC @ [MB_FORMAT] @ u64_be version @ as_bytes peer_id @ u64_be (word_of_nat (length snapshot)) @ snapshot"

definition seal_manifest_snapshot :: "'f env \<Rightarrow> data_key \<Rightarrow> string \<Rightarrow> u64 \<Rightarrow> bytes \<Rightarrow> (bytes, store_error) result" where
  "seal_manifest_snapshot E key peer_id version snapshot =
     (if length peer_id \<noteq> PEER_ID_LEN then Err (err ''peer id has unexpected length'')
      else
        rbind (manifest_backup_sealer E key peer_id version) (\<lambda>sealer.
        rbind (map_err Core (seal E sealer (snapshot_plain peer_id version snapshot) 0)) (\<lambda>(sealed, _). Ok sealed)))"

definition open_manifest_snapshot :: "'f env \<Rightarrow> data_key \<Rightarrow> string \<Rightarrow> u64 \<Rightarrow> bytes \<Rightarrow> (bytes, store_error) result" where
  "open_manifest_snapshot E key peer_id version blob =
     rbind (manifest_backup_sealer E key peer_id version) (\<lambda>sealer.
     rbind (map_err (\<lambda>_. err ''manifest backup failed authentication (wrong node key, wrong version, or corrupt)'')
              (open_inner E sealer 0 blob)) (\<lambda>plain.
       if length plain < MB_HEADER then Err (err ''manifest backup truncated'')
       else if take 8 plain \<noteq> MB_MAGIC \<or> plain ! 8 \<noteq> MB_FORMAT then Err (err ''not a p2pnas manifest backup'')
       else
         rbind (be_u64 (take 8 (drop 9 plain))) (\<lambda>stored_version.
           if stored_version \<noteq> version then Err (err ''manifest backup belongs to another version'')
           else if take PEER_ID_LEN (drop 17 plain) \<noteq> as_bytes peer_id then Err (err ''manifest backup belongs to another node'')
           else
             rbind (be_u64 (take 8 (drop (17 + PEER_ID_LEN) plain))) (\<lambda>len.
               let body = drop MB_HEADER plain
               in if length body \<noteq> unat len then Err (err ''manifest backup length mismatch'') else Ok body))))"

record manifest_backup_shard =
  ms_version :: u64
  ms_shard_index :: nat
  ms_blob_len :: nat
  ms_blob_hash :: bytes
  ms_data :: bytes

definition envelope :: "'f env \<Rightarrow> u64 \<Rightarrow> bytes \<Rightarrow> nat \<Rightarrow> bytes \<Rightarrow> bytes" where
  "envelope E version blob i s =
     MS_MAGIC @ [MS_FORMAT] @ u64_be version @ [word_of_nat i] @ u32_be (word_of_nat (length s))
       @ u64_be (word_of_nat (length blob)) @ blob_hash E blob @ s"

definition encode_manifest_backup_shards :: "'f env \<Rightarrow> u64 \<Rightarrow> bytes \<Rightarrow> (bytes list, store_error) result" where
  "encode_manifest_backup_shards E version blob =
     rbind (map_err Core (encode E blob)) (\<lambda>shards.
       Ok (map (\<lambda>(i, s). envelope E version blob i s) (enumerate 0 shards)))"

definition decode_manifest_backup_shard :: "bytes \<Rightarrow> (manifest_backup_shard, store_error) result" where
  "decode_manifest_backup_shard bs =
     (if length bs < MS_HEADER then Err (err ''backup shard too short'')
      else if take 8 bs \<noteq> MS_MAGIC \<or> bs ! 8 \<noteq> MS_FORMAT then Err (err ''not a p2pnas manifest backup shard'')
      else
        rbind (be_u64 (take 8 (drop 9 bs))) (\<lambda>version.
          let shard_index = unat (bs ! 17)
          in if shard_index \<ge> TOTAL_SHARDS then Err (err ''backup shard index out of range'')
             else
               rbind (be_u32 (take 4 (drop 18 bs))) (\<lambda>len.
               rbind (be_u64 (take 8 (drop 22 bs))) (\<lambda>blob_len.
                 if blob_len = 0 then Err (err ''backup shard declares an empty blob'')
                 else
                   let hash = take BLOB_HASH_LEN (drop 30 bs); data = drop MS_HEADER bs
                   in if length data \<noteq> unat len then Err (err ''backup shard length mismatch'')
                      else Ok \<lparr>ms_version = version, ms_shard_index = shard_index, ms_blob_len = unat blob_len,
                               ms_blob_hash = hash, ms_data = data\<rparr>))))"

section \<open>Reassembling a backup\<close>

fun tally_add :: "'k \<Rightarrow> ('k \<times> nat) list \<Rightarrow> ('k \<times> nat) list" where
  "tally_add k [] = [(k, 1)]"
| "tally_add k ((k', n) # ts) = (if k' = k then (k', n + 1) # ts else (k', n) # tally_add k ts)"

text \<open>\<open>max_by_key\<close>: the last of the greatest.\<close>

fun max_tally :: "('k \<times> nat) list \<Rightarrow> ('k \<times> nat) option" where
  "max_tally [] = None"
| "max_tally (t # ts) = Some (foldl (\<lambda>best y. if snd best \<le> snd y then y else best) t ts)"

definition geometry :: "manifest_backup_shard \<Rightarrow> nat \<times> bytes" where
  "geometry s = (ms_blob_len s, ms_blob_hash s)"

text \<open>The slots, the length of a shard and the number of slots filled.\<close>

fun keep_shards :: "nat \<times> bytes \<Rightarrow> manifest_backup_shard list \<Rightarrow> bytes option list \<times> nat \<times> nat \<Rightarrow> bytes option list \<times> nat \<times> nat" where
  "keep_shards g [] st = st"
| "keep_shards g (s # ss) (held, len, kept) =
     (if ms_shard_index s \<ge> TOTAL_SHARDS \<or> geometry s \<noteq> g then keep_shards g ss (held, len, kept)
      else
        let len' = (if len = 0 then length (ms_data s) else len)
        in if length (ms_data s) \<noteq> len' \<or> held ! ms_shard_index s \<noteq> None then keep_shards g ss (held, len', kept)
           else keep_shards g ss (held[ms_shard_index s := Some (ms_data s)], len', kept + 1))"

definition try_rebuild :: "'f env \<Rightarrow> bytes option list \<Rightarrow> nat \<Rightarrow> bytes \<Rightarrow> (bytes option, store_error) result" where
  "try_rebuild E held blob_len hash =
     (case reconstruct E held blob_len of
        Ok blob \<Rightarrow> Ok (if blob_hash E blob = hash then Some blob else None)
      | Err _ \<Rightarrow> Ok None
      | Panic \<Rightarrow> Panic)"

fun retry_without :: "'f env \<Rightarrow> bytes option list \<Rightarrow> nat \<Rightarrow> bytes \<Rightarrow> nat list \<Rightarrow> (bytes, store_error) result" where
  "retry_without E held blob_len hash [] = Err (err ''manifest backup shards do not reconstruct a valid blob'')"
| "retry_without E held blob_len hash (i # js) =
     (if held ! i = None then retry_without E held blob_len hash js
      else
        rbind (try_rebuild E (held[i := None]) blob_len hash) (\<lambda>r.
          case r of Some blob \<Rightarrow> Ok blob | None \<Rightarrow> retry_without E held blob_len hash js))"

definition reassemble_manifest_backup :: "'f env \<Rightarrow> manifest_backup_shard list \<Rightarrow> (bytes, store_error) result" where
  "reassemble_manifest_backup E shards =
     (if length shards < DATA_SHARDS then Err (err ''not enough backup shards to reconstruct'')
      else
        case max_tally (foldl (\<lambda>ts s. tally_add (geometry s) ts) [] shards) of
          None \<Rightarrow> Err (err ''no backup shards'')
        | Some ((blob_len, hash), _) \<Rightarrow>
            (case keep_shards (blob_len, hash) shards (replicate TOTAL_SHARDS None, 0, 0) of
               (held, _, kept) \<Rightarrow>
                 if kept < DATA_SHARDS then Err (err ''not enough consistent backup shards to reconstruct'')
                 else
                   rbind (try_rebuild E held blob_len hash) (\<lambda>r.
                     case r of
                       Some blob \<Rightarrow> Ok blob
                     | None \<Rightarrow>
                         if kept > DATA_SHARDS then retry_without E held blob_len hash [0..<length held]
                         else Err (err ''manifest backup shards do not reconstruct a valid blob''))))"

section \<open>Building and installing\<close>

record manifest_backup_blob =
  mb_version :: u64
  mb_snapshot_len :: nat
  mb_blob_len :: nat
  mb_shards :: "bytes list"

definition build_manifest_backup :: "'f env \<Rightarrow> (manifest \<Rightarrow> bytes) \<Rightarrow> file_path \<Rightarrow> manifest option \<Rightarrow> data_key \<Rightarrow> string \<Rightarrow> u64
    \<Rightarrow> manifest_backup_blob home_op" where
  "build_manifest_backup E vacuum data_dir M key peer_id version =
     sbind (take_snapshot vacuum M (data_dir @ [SNAPSHOT_TMP])) (\<lambda>snapshot.
       slift
         (rbind (seal_manifest_snapshot E key peer_id version snapshot) (\<lambda>blob.
          rbind (encode_manifest_backup_shards E version blob) (\<lambda>shards.
            Ok \<lparr>mb_version = version, mb_snapshot_len = length snapshot, mb_blob_len = length blob, mb_shards = shards\<rparr>))))"

definition restore_manifest_db :: "file_path \<Rightarrow> manifest option \<Rightarrow> bytes \<Rightarrow> unit home_op" where
  "restore_manifest_db data_dir M snapshot =
     sbind (slift (ensure_fresh_node M)) (\<lambda>_.
     sbind (fs_mkdir (butlast (manifest_path data_dir))) (\<lambda>_.
       write_atomic (manifest_path data_dir) snapshot))"

end
