(* ===== verification/ManifestBackup.thy ===== *)
theory ManifestBackup
  imports Backup Reading Jobs
begin

text \<open>
  \<open>server/src/manifest_backup.rs\<close>: the daily backup of the manifest onto peers and its recovery, with the handlers of
  \<open>handlers/admin.rs\<close> around the two kinds of backup. The state is the site of the other passes, the data directory, and the backup events of
  the log; \<open>va_up\<close> says which statements on the log the database answers, \<open>va_opens\<close> whether the manifest's
  database can be opened. Requests made at the same time are taken in the order in which they finish, an argument (\<open>ping_order\<close>,
  \<open>sweep_order\<close>, \<open>probe_order\<close>, \<open>fetch_order\<close>; requests whose task died are left out of it). Texts of refusals are shortened.
\<close>

section \<open>State\<close>

definition KEEP_VERSIONS :: nat where "KEEP_VERSIONS = 7"
definition SWEEP_DEPTH :: nat where "SWEEP_DEPTH = 30"
definition DEFAULT_LOOKBACK_DAYS :: nat where "DEFAULT_LOOKBACK_DAYS = 90"
definition MAX_LOOKBACK_DAYS :: nat where "MAX_LOOKBACK_DAYS = 400"
definition MAX_PEER_SHARD_BYTES :: nat where "MAX_PEER_SHARD_BYTES = 8 * 1024 * 1024"

datatype backup_event =
    BackupPlaced u64 nat nat nat
  | BackupFailed u64 string
  | BackupShort u64 nat
  | ManifestRestored u64 nat nat

datatype backup_call = SelectBackups | InsertBackup

record ('f, 'w) vault =
  va_site :: "('f, 'w) site"
  va_home :: home
  va_opens :: bool
  va_events :: "backup_event list"
  va_up :: "backup_call \<Rightarrow> bool"
  va_clock :: int

record manifest_backup_report =
  br_version :: u64
  br_skipped :: bool
  br_snapshot_bytes :: nat
  br_blob_bytes :: nat
  br_shards_placed :: nat
  br_peers_used :: nat
  br_recoverable :: bool
  br_versions_swept :: nat
  br_delete_acks :: nat

record manifest_restore_outcome =
  ro_version :: u64
  ro_snapshot_bytes :: nat
  ro_shards_used :: nat
  ro_peers_tried :: nat
  ro_versions_probed :: nat

definition emit_event :: "backup_event \<Rightarrow> ('f, 'w) vault \<Rightarrow> ('f, 'w) vault" where
  "emit_event e V = (if va_up V InsertBackup then V\<lparr>va_events := va_events V @ [e]\<rparr> else V)"

definition va_manifest :: "('f, 'w) vault \<Rightarrow> manifest option" where
  "va_manifest V = (if va_opens V then Some (nd_manifest (si_node (va_site V))) else None)"

definition va_net :: "('f, 'w) vault \<Rightarrow> 'w" where
  "va_net V = si_net (va_site V)"

definition set_net :: "'w \<Rightarrow> ('f, 'w) vault \<Rightarrow> ('f, 'w) vault" where
  "set_net w V = V\<lparr>va_site := (va_site V)\<lparr>si_net := w\<rparr>\<rparr>"

section \<open>The backup\<close>

definition already_placed :: "u64 \<Rightarrow> ('f, 'w) vault \<Rightarrow> bool" where
  "already_placed version V \<longleftrightarrow>
     va_up V SelectBackups \<and> list_ex (\<lambda>e. case e of BackupPlaced v _ _ _ \<Rightarrow> v = version | _ \<Rightarrow> False) (va_events V)"

definition other_peers :: "string \<Rightarrow> 'f repair_db \<Rightarrow> peer_addrs" where
  "other_peers my_id db =
     (if rd_ok db SelectPeers then map (\<lambda>(pid, row). (pid, pe_addr row)) (filter (\<lambda>(pid, row). pid \<noteq> my_id) (rd_peers db)) else [])"

definition reachable_peers :: "('f, 'w) repair_ctx \<Rightarrow> (peer_addrs \<Rightarrow> peer_addrs) \<Rightarrow> 'f repair_db \<Rightarrow> 'w \<Rightarrow> peer_addrs \<times> 'w" where
  "reachable_peers C ping_order db w =
     (case ping_all C (ping_order (other_peers (id_peer_id (rc_ident C)) db)) w of (live, w') \<Rightarrow> (sort live, w'))"

definition place :: "('f, 'w) repair_ctx \<Rightarrow> string \<Rightarrow> string \<Rightarrow> int \<Rightarrow> bytes \<Rightarrow> 'w \<Rightarrow> bool \<times> 'w" where
  "place C addr fr idx bytes w =
     (case signed_request (rc_env C) (rc_rng C w) (rc_ident C) (rc_port C) (rc_net C addr)
             (StoreShard fr (id_peer_id (rc_ident C)) idx bytes) w of
        (Ok (Ack _), w') \<Rightarrow> (True, w')
      | (_, w') \<Rightarrow> (False, w'))"

text \<open>Round-robin over the peers, from shard \<open>i\<close> on; the number placed.\<close>

fun place_shards :: "('f, 'w) repair_ctx \<Rightarrow> peer_addrs \<Rightarrow> u64 \<Rightarrow> nat \<Rightarrow> bytes list \<Rightarrow> 'w \<Rightarrow> nat \<times> 'w" where
  "place_shards C peers version i [] w = (0, w)"
| "place_shards C peers version i (shard # shards) w =
     (case place C (snd (peers ! (i mod length peers))) (manifest_backup_fragment_id (rc_env C) (id_peer_id (rc_ident C)) version i)
             (int i) shard w of
        (placed, w1) \<Rightarrow>
          (case place_shards C peers version (i + 1) shards w1 of (n, w2) \<Rightarrow> ((if placed then 1 else 0) + n, w2)))"

fun delete_all :: "('f, 'w) repair_ctx \<Rightarrow> (string \<times> string) list \<Rightarrow> 'w \<Rightarrow> nat \<times> 'w" where
  "delete_all C [] w = (0, w)"
| "delete_all C ((fr, addr) # jobs) w =
     (case signed_request (rc_env C) (rc_rng C w) (rc_ident C) (rc_port C) (rc_net C addr)
             (DeleteShard fr (id_peer_id (rc_ident C))) w of
        (r, w1) \<Rightarrow>
          (case delete_all C jobs w1 of (n, w2) \<Rightarrow> ((case r of Ok (Ack _) \<Rightarrow> 1 | _ \<Rightarrow> 0) + n, w2)))"

fun sweep_versions :: "('f, 'w) repair_ctx \<Rightarrow> ((string \<times> string) list \<Rightarrow> (string \<times> string) list) \<Rightarrow> peer_addrs \<Rightarrow> nat list \<Rightarrow> 'w
    \<Rightarrow> nat \<times> nat \<times> 'w" where
  "sweep_versions C sweep_order peers [] w = (0, 0, w)"
| "sweep_versions C sweep_order peers (v # vs) w =
     (let jobs = concat (map (\<lambda>i. map (\<lambda>(_, addr). (manifest_backup_fragment_id (rc_env C) (id_peer_id (rc_ident C)) (word_of_nat v) i, addr)) peers)
                   [0..<TOTAL_SHARDS])
      in case delete_all C (sweep_order jobs) w of
           (acks, w1) \<Rightarrow>
             (case sweep_versions C sweep_order peers vs w1 of (swept, acks', w2) \<Rightarrow> (swept + 1, acks + acks', w2)))"

definition sweep_old_versions :: "('f, 'w) repair_ctx \<Rightarrow> ((string \<times> string) list \<Rightarrow> (string \<times> string) list) \<Rightarrow> peer_addrs \<Rightarrow> u64 \<Rightarrow> 'w
    \<Rightarrow> nat \<times> nat \<times> 'w" where
  "sweep_old_versions C sweep_order peers current w =
     (if unat current < KEEP_VERSIONS then (0, 0, w)
      else
        let newest_stale = unat current - KEEP_VERSIONS
        in sweep_versions C sweep_order peers [newest_stale - SWEEP_DEPTH..<newest_stale + 1] w)"

fun core_error_text :: "core_error \<Rightarrow> string" where
  "core_error_text (Crypto m) = ''crypto error: '' @ m"
| "core_error_text (Compression m) = ''compression error: '' @ m"
| "core_error_text (Erasure m) = ''erasure coding error: '' @ m"
| "core_error_text (Io m) = ''io error: '' @ m"

fun store_error_text :: "store_error \<Rightarrow> string" where
  "store_error_text (Sqlite m) = ''sqlite error: '' @ m"
| "store_error_text (SIo m) = ''io error: '' @ m"
| "store_error_text (Core e) = ''core error: '' @ core_error_text e"
| "store_error_text NotFound = ''not found''"
| "store_error_text (Integrity m) = ''integrity error: '' @ m"
| "store_error_text InvalidFragmentId = ''invalid fragment id''"

definition run_backup :: "('f, 'w) repair_ctx \<Rightarrow> (manifest \<Rightarrow> bytes) \<Rightarrow> file_path \<Rightarrow> (peer_addrs \<Rightarrow> peer_addrs)
    \<Rightarrow> ((string \<times> string) list \<Rightarrow> (string \<times> string) list) \<Rightarrow> ('f, 'w) vault \<Rightarrow> manifest_backup_report \<times> ('f, 'w) vault" where
  "run_backup C vacuum data_dir ping_order sweep_order V =
     (let version = manifest_backup_version_now (va_clock V);
          rep = \<lparr>br_version = version, br_skipped = False, br_snapshot_bytes = 0, br_blob_bytes = 0, br_shards_placed = 0, br_peers_used = 0,
                 br_recoverable = False, br_versions_swept = 0, br_delete_acks = 0\<rparr>
      in if already_placed version V then (rep\<lparr>br_skipped := True\<rparr>, V)
         else
           case reachable_peers C ping_order (si_db (va_site V)) (va_net V) of
             (peers, w1) \<Rightarrow>
               let V1 = set_net w1 V; rep1 = rep\<lparr>br_peers_used := length peers\<rparr>
               in if peers = [] then (rep1, emit_event (BackupFailed version ''no reachable peer'') V1)
                  else
                    case build_manifest_backup (rc_env C) vacuum data_dir (va_manifest V1) (id_data_key (rc_ident C))
                           (id_peer_id (rc_ident C)) version (va_home V1) of
                      (Err e, H) \<Rightarrow> (rep1, emit_event (BackupFailed version (store_error_text e)) (V1\<lparr>va_home := H\<rparr>))
                    | (Panic, H) \<Rightarrow> (rep1, V1\<lparr>va_home := H\<rparr>)
                    | (Ok built, H) \<Rightarrow>
                        let V2 = V1\<lparr>va_home := H\<rparr>;
                            rep2 = rep1\<lparr>br_snapshot_bytes := mb_snapshot_len built, br_blob_bytes := mb_blob_len built\<rparr>
                        in if (case mb_shards built of [] \<Rightarrow> 0 | s # _ \<Rightarrow> length s) > MAX_PEER_SHARD_BYTES
                           then (rep2, emit_event (BackupFailed version ''snapshot too large for the shard size limit'') V2)
                           else
                             case place_shards C peers version 0 (mb_shards built) (va_net V2) of
                               (n, w3) \<Rightarrow>
                                 let V3 = set_net w3 V2; rep3 = rep2\<lparr>br_shards_placed := n, br_recoverable := (n \<ge> DATA_SHARDS)\<rparr>
                                 in if n \<ge> DATA_SHARDS
                                    then
                                      let V4 = emit_event (BackupPlaced version n (length peers) (mb_snapshot_len built)) V3
                                      in case sweep_old_versions C sweep_order peers version (va_net V4) of
                                           (swept, acks, w5) \<Rightarrow> (rep3\<lparr>br_versions_swept := swept, br_delete_acks := acks\<rparr>, set_net w5 V4)
                                    else (rep3, emit_event (BackupShort version n) V3))"

section \<open>The recovery\<close>

text \<open>\<open>str::trim\<close>: the characters of the Unicode property White\_Space, as UTF-8, off both ends.\<close>

definition white_space :: "string list" where
  "white_space = map chars_of
     ([[9], [10], [11], [12], [13], [32], [0xC2, 0x85], [0xC2, 0xA0], [0xE1, 0x9A, 0x80]]
      @ map (\<lambda>b. [0xE2, 0x80, b]) [0x80, 0x81, 0x82, 0x83, 0x84, 0x85, 0x86, 0x87, 0x88, 0x89, 0x8A, 0xA8, 0xA9, 0xAF]
      @ [[0xE2, 0x81, 0x9F], [0xE3, 0x80, 0x80]])"

function trim_start :: "string \<Rightarrow> string" where
  "trim_start s =
     (case find (\<lambda>c. c = take (length c) s) white_space of
        None \<Rightarrow> s
      | Some c \<Rightarrow> if s = [] then s else trim_start (drop (length c) s))"
  by pat_completeness auto

termination
proof (relation "measure length")
  fix s :: string and c
  assume "find (\<lambda>c. c = take (length c) s) white_space = Some c" "s \<noteq> []"
  moreover have "[] \<notin> set white_space" by (simp add: white_space_def chars_of_def)
  ultimately have "c \<noteq> []" by (metis find_Some_iff nth_mem)
  then show "(drop (length c) s, s) \<in> measure length" using \<open>s \<noteq> []\<close> by simp
qed simp

function trim_end :: "string \<Rightarrow> string" where
  "trim_end s =
     (case find (\<lambda>c. length c \<le> length s \<and> c = drop (length s - length c) s) white_space of
        None \<Rightarrow> s
      | Some c \<Rightarrow> if s = [] then s else trim_end (take (length s - length c) s))"
  by pat_completeness auto

termination
proof (relation "measure length")
  fix s :: string and c
  assume "find (\<lambda>c. length c \<le> length s \<and> c = drop (length s - length c) s) white_space = Some c" "s \<noteq> []"
  moreover have "[] \<notin> set white_space" by (simp add: white_space_def chars_of_def)
  ultimately have "c \<noteq> []" by (metis find_Some_iff nth_mem)
  then show "(take (length s - length c) s, s) \<in> measure length" using \<open>s \<noteq> []\<close> by simp
qed simp

definition trim :: "string \<Rightarrow> string" where
  "trim s = trim_end (trim_start s)"

declare trim_start.simps [simp del] trim_end.simps [simp del]

definition restore_peer_addresses :: "('f, 'w) repair_ctx \<Rightarrow> string list \<Rightarrow> 'f repair_db \<Rightarrow> string list" where
  "restore_peer_addresses C extra db =
     remdups_adj (sort (map snd (other_peers (id_peer_id (rc_ident C)) db) @ filter (\<lambda>a. a \<noteq> []) (map trim extra)))"

text \<open>The first host that answers yes is kept for each shard.\<close>

fun probe_each :: "('f, 'w) repair_ctx \<Rightarrow> u64 \<Rightarrow> (nat \<times> string) list \<Rightarrow> string option list \<Rightarrow> 'w \<Rightarrow> string option list \<times> 'w" where
  "probe_each C version [] host w = (host, w)"
| "probe_each C version ((i, addr) # jobs) host w =
     (case has_shard (rc_net C addr) (manifest_backup_fragment_id (rc_env C) (id_peer_id (rc_ident C)) version i) w of
        (r, w1) \<Rightarrow> probe_each C version jobs (if r = Ok True \<and> host ! i = None then host[i := Some addr] else host) w1)"

definition probe_version :: "('f, 'w) repair_ctx \<Rightarrow> ((nat \<times> string) list \<Rightarrow> (nat \<times> string) list) \<Rightarrow> string list \<Rightarrow> u64 \<Rightarrow> 'w
    \<Rightarrow> (nat \<times> string) list \<times> 'w" where
  "probe_version C probe_order addrs version w =
     (case probe_each C version (probe_order (concat (map (\<lambda>i. map (Pair i) addrs) [0..<TOTAL_SHARDS]))) (replicate TOTAL_SHARDS None) w of
        (host, w') \<Rightarrow> (List.map_filter (\<lambda>(i, a). map_option (Pair i) a) (enumerate 0 host), w'))"

fun fetch_envelopes :: "('f, 'w) repair_ctx \<Rightarrow> u64 \<Rightarrow> (nat \<times> string) list \<Rightarrow> 'w \<Rightarrow> manifest_backup_shard list \<times> 'w" where
  "fetch_envelopes C version [] w = ([], w)"
| "fetch_envelopes C version ((i, addr) # jobs) w =
     (case request (rc_net C addr) (GetShard (manifest_backup_fragment_id (rc_env C) (id_peer_id (rc_ident C)) version i)) w of
        (r, w1) \<Rightarrow>
          (case fetch_envelopes C version jobs w1 of
             (shards, w2) \<Rightarrow>
               (case r of
                  Ok (ShardData _ bytes) \<Rightarrow>
                    (case decode_manifest_backup_shard bytes of
                       Ok s \<Rightarrow> if ms_version s = version then s # shards else shards
                     | _ \<Rightarrow> shards)
                | _ \<Rightarrow> shards, w2)))"

text \<open>\<open>None\<close>: this version cannot be turned back into a manifest.\<close>

definition fetch_and_open :: "('f, 'w) repair_ctx \<Rightarrow> ((nat \<times> string) list \<Rightarrow> (nat \<times> string) list) \<Rightarrow> u64 \<Rightarrow> (nat \<times> string) list \<Rightarrow> 'w
    \<Rightarrow> ((bytes \<times> nat) option, api_error) result \<times> 'w" where
  "fetch_and_open C fetch_order version found w =
     (case fetch_envelopes C version (fetch_order found) w of
        (shards, w') \<Rightarrow>
          (if length shards < DATA_SHARDS then Ok None
           else
             case rbind (reassemble_manifest_backup (rc_env C) shards)
                    (open_manifest_snapshot (rc_env C) (id_data_key (rc_ident C)) (id_peer_id (rc_ident C)) version) of
               Ok snapshot \<Rightarrow> Ok (Some (snapshot, length shards))
             | Err _ \<Rightarrow> Ok None
             | Panic \<Rightarrow> Panic, w'))"

definition candidates :: "u64 \<Rightarrow> u64 option \<Rightarrow> nat option \<Rightarrow> u64 list" where
  "candidates today version lookback_days =
     (case version of
        Some v \<Rightarrow> [v]
      | None \<Rightarrow>
          let depth = max 1 (min (case lookback_days of Some d \<Rightarrow> d | None \<Rightarrow> DEFAULT_LOOKBACK_DAYS) MAX_LOOKBACK_DAYS)
          in map (\<lambda>d. word_of_nat (unat today - d)) (filter (\<lambda>d. d \<le> unat today) [0..<depth + 1]))"

fun try_versions :: "('f, 'w) repair_ctx \<Rightarrow> file_path \<Rightarrow> ((nat \<times> string) list \<Rightarrow> (nat \<times> string) list)
    \<Rightarrow> ((nat \<times> string) list \<Rightarrow> (nat \<times> string) list) \<Rightarrow> string list \<Rightarrow> u64 list \<Rightarrow> nat
    \<Rightarrow> (('f, 'w) vault, manifest_restore_outcome, api_error) op" where
  "try_versions C data_dir probe_order fetch_order addrs [] probed V = (Err (BadRequest ''no backup of the manifest found''), V)"
| "try_versions C data_dir probe_order fetch_order addrs (v # vs) probed V =
     (case probe_version C probe_order addrs v (va_net V) of
        (found, w1) \<Rightarrow>
          if length found < DATA_SHARDS
          then try_versions C data_dir probe_order fetch_order addrs vs (probed + 1) (set_net w1 V)
          else
            case fetch_and_open C fetch_order v found w1 of
              (Ok None, w2) \<Rightarrow> try_versions C data_dir probe_order fetch_order addrs vs (probed + 1) (set_net w2 V)
            | (Ok (Some (snapshot, used)), w2) \<Rightarrow>
                (case restore_manifest_db data_dir (va_manifest V) snapshot (va_home V) of
                   (Ok (), H) \<Rightarrow>
                     (Ok \<lparr>ro_version = v, ro_snapshot_bytes = length snapshot, ro_shards_used = used, ro_peers_tried = length addrs,
                          ro_versions_probed = probed + 1\<rparr>,
                      emit_event (ManifestRestored v (length snapshot) used) ((set_net w2 V)\<lparr>va_home := H\<rparr>))
                 | (Err e, H) \<Rightarrow> (Err (BadRequest (store_error_text e)), (set_net w2 V)\<lparr>va_home := H\<rparr>)
                 | (Panic, H) \<Rightarrow> (Panic, (set_net w2 V)\<lparr>va_home := H\<rparr>))
            | (Err e, w2) \<Rightarrow> (Err e, set_net w2 V)
            | (Panic, w2) \<Rightarrow> (Panic, set_net w2 V))"

definition restore_backup :: "('f, 'w) repair_ctx \<Rightarrow> file_path \<Rightarrow> ((nat \<times> string) list \<Rightarrow> (nat \<times> string) list)
    \<Rightarrow> ((nat \<times> string) list \<Rightarrow> (nat \<times> string) list) \<Rightarrow> string list \<Rightarrow> u64 option \<Rightarrow> nat option
    \<Rightarrow> (('f, 'w) vault, manifest_restore_outcome, api_error) op" where
  "restore_backup C data_dir probe_order fetch_order extra_peers version lookback_days V =
     (case ensure_fresh_node (va_manifest V) of
        Err e \<Rightarrow> (Err (BadRequest (store_error_text e)), V)
      | Panic \<Rightarrow> (Panic, V)
      | Ok _ \<Rightarrow>
          let addrs = restore_peer_addresses C extra_peers (si_db (va_site V))
          in if addrs = [] then (Err (BadRequest ''no known peer''), V)
             else try_versions C data_dir probe_order fetch_order addrs
                    (candidates (manifest_backup_version_now (va_clock V)) version lookback_days) 0 V)"

section \<open>The handlers\<close>

definition backup_export :: "'f env \<Rightarrow> (manifest \<Rightarrow> bytes) \<Rightarrow> bytes \<Rightarrow> file_path \<Rightarrow> string \<Rightarrow> (('f, 'w) vault, bytes, api_error) op" where
  "backup_export E vacuum salt data_dir passphrase V =
     (case export E vacuum salt data_dir (va_manifest V) passphrase (va_home V) of
        (r, H) \<Rightarrow> (map_err (\<lambda>e. BadRequest (store_error_text e)) r, V\<lparr>va_home := H\<rparr>))"

definition backup_restore :: "'f env \<Rightarrow> file_path \<Rightarrow> string \<Rightarrow> bytes \<Rightarrow> (('f, 'w) vault, unit, api_error) op" where
  "backup_restore E data_dir passphrase body V =
     (case import E data_dir (va_manifest V) passphrase body (va_home V) of
        (r, H) \<Rightarrow> (map_err (\<lambda>e. BadRequest (store_error_text e)) r, V\<lparr>va_home := H\<rparr>))"

definition manifest_backup_now :: "job_db \<Rightarrow> job_db" where
  "manifest_backup_now db = enqueue ''manifest_backup'' OtherPayload db"

text \<open>\<open>parse\<close> reads the JSON body: the peers, the version and the number of days.\<close>

definition manifest_backup_restore :: "('f, 'w) repair_ctx \<Rightarrow> (bytes \<Rightarrow> (string list \<times> u64 option \<times> nat option) option) \<Rightarrow> file_path
    \<Rightarrow> ((nat \<times> string) list \<Rightarrow> (nat \<times> string) list) \<Rightarrow> ((nat \<times> string) list \<Rightarrow> (nat \<times> string) list) \<Rightarrow> bytes
    \<Rightarrow> (('f, 'w) vault, manifest_restore_outcome, api_error) op" where
  "manifest_backup_restore C parse data_dir probe_order fetch_order body =
     (case (if body = [] then Some ([], None, None) else parse body) of
        None \<Rightarrow> slift (Err (BadRequest ''invalid JSON body''))
      | Some (peers, version, lookback_days) \<Rightarrow> restore_backup C data_dir probe_order fetch_order peers version lookback_days)"

end
