(* ===== verification/BackupProps.thy ===== *)
theory BackupProps
  imports Backup
begin

text \<open>
  The backups: a bundle restores what was exported, a sealed snapshot opens to itself, and the reassembly of an automatic
  backup recovers the sealed blob from any ten shards, in spite of one corrupt copy and of a minority that lies about the blob,
  but not of a copy of the wrong length that arrives first.
\<close>

section \<open>The bundle\<close>

lemma length_consts [simp]:
  "length MAGIC = 8" "length MB_MAGIC = 8" "length MS_MAGIC = 8"
  by (simp_all add: MAGIC_def MB_MAGIC_def MS_MAGIC_def)

lemma sealed_opens:
  assumes "aead_correct E" "seal E k buf i = Ok (c, n)"
  shows "open_inner E k i c = Ok buf"
  using assms by (auto simp: seal_def seal_inner_def open_inner_def aead_correct_def Let_def split: if_splits)
    (metis option.inject)

lemma open_seal_bundle:
  assumes "aead_correct E" "length salt = SALT_LEN" "seal_bundle E salt plain pw = Ok blob"
  shows "open_backup_bundle E blob pw = Ok plain"
proof -
  obtain kek sealer c n where k: "derive_kek E pw salt = Ok kek" "bundle_sealer E kek = Ok sealer" "seal E sealer plain 0 = Ok (c, n)"
    and b: "blob = MAGIC @ [VERSION] @ salt @ c"
    using assms(3) by (auto simp: seal_bundle_def)
  have parts: "take 8 blob = MAGIC" "blob ! 8 = VERSION" "take SALT_LEN (drop 9 blob) = salt" "drop (9 + SALT_LEN) blob = c"
    "9 + SALT_LEN \<le> length blob"
    using assms(2) by (simp_all add: b nth_append numeral_eq_Suc drop_Cons')
  show ?thesis
    unfolding open_backup_bundle_def Let_def using parts k sealed_opens [OF assms(1) k(3)] by (simp add: numeral_eq_Suc)
qed

lemma be_u64_bytes [simp]: "be_u64 (be_bytes 8 n) = Ok (word_of_nat n)"
  by (simp add: be_u64_def of_be_be_bytes) (simp add: word_unat_eq_iff unat_of_nat)

lemma be_u32_bytes [simp]: "be_u32 (be_bytes 4 n) = Ok (word_of_nat n)"
  by (simp add: be_u32_def of_be_be_bytes) (simp add: word_unat_eq_iff unat_of_nat)

lemma unat_word_small: "n < 2 ^ 64 \<Longrightarrow> unat (word_of_nat n :: u64) = n" "n < 2 ^ 32 \<Longrightarrow> unat (word_of_nat n :: u32) = n"
  by (simp_all add: unat_of_nat)

lemma decode_encode_plaintext:
  assumes "length identity = IDENTITY_LEN" "length mb < 2 ^ 64"
  shows "decode_plaintext (encode_plaintext identity mb) = Ok (identity, mb)"
  using assms by (simp add: decode_plaintext_def encode_plaintext_def unat_word_small)

section \<open>Installing a bundle\<close>

text \<open>No operation on the directory fails.\<close>

definition sane :: "home \<Rightarrow> bool" where
  "sane H \<longleftrightarrow> mkdir_fault (hm_disk H) = (\<lambda>_. None) \<and> write_fault (hm_disk H) = (\<lambda>_. None) \<and> read_fault (hm_disk H) = (\<lambda>_. None)
     \<and> remove_fault (hm_disk H) = (\<lambda>_. None) \<and> hm_rename_fault H = (\<lambda>_. None) \<and> hm_mode_fault H = (\<lambda>_. None)"

abbreviation file_at :: "home \<Rightarrow> file_path \<Rightarrow> bytes option" where
  "file_at H p \<equiv> disk_files (hm_disk H) p"

abbreviation with_files :: "home \<Rightarrow> (file_path \<rightharpoonup> bytes) \<Rightarrow> home" where
  "with_files H f \<equiv> H\<lparr>hm_disk := (hm_disk H)\<lparr>disk_files := f\<rparr>\<rparr>"

lemma sane_with_files [simp]: "sane (with_files H f) \<longleftrightarrow> sane H"
  by (simp add: sane_def)

lemma sane_ops:
  assumes "sane H"
  shows "fs_mkdir p H = (Ok (), H)" "fs_write p b H = (Ok (), with_files H ((disk_files (hm_disk H))(p \<mapsto> b)))"
    "attempt (fs_remove p) H = (Ok (), with_files H ((disk_files (hm_disk H))(p := None)))"
    "file_at H p = Some b \<Longrightarrow> fs_read p H = (Ok b, H)"
    "file_at H p = Some b \<Longrightarrow> fs_rename p q H = (Ok (), with_files H ((disk_files (hm_disk H))(p := None, q \<mapsto> b)))"
    "file_at H p = None \<Longrightarrow> fs_create_new p b' H = (Ok (), with_files H ((disk_files (hm_disk H))(p \<mapsto> b')))"
proof -
  have "H = with_files H ((disk_files (hm_disk H))(p := None))" if "file_at H p = None"
    using that by (simp add: fun_upd_idem)
  then show "attempt (fs_remove p) H = (Ok (), with_files H ((disk_files (hm_disk H))(p := None)))"
    using assms by (auto simp: attempt_def fs_remove_def sane_def split: option.splits)
qed (use assms in \<open>auto simp: sane_def fs_mkdir_def fs_write_def write_file_def fs_read_def fs_rename_def fs_create_new_def\<close>)

lemma restore_tmp_path: "with_extension (manifest_path dir) ''restore.tmp'' = dir @ [''manifest.restore.tmp'']"
  by (simp add: with_extension_def manifest_path_def file_stem_def)

lemma write_atomic_sane:
  assumes "sane H"
  shows "write_atomic (manifest_path dir) b H
    = (Ok (), with_files H ((disk_files (hm_disk H))(dir @ [''manifest.restore.tmp''] := None, manifest_path dir \<mapsto> b)))"
  unfolding write_atomic_def Let_def restore_tmp_path
  using assms by (simp add: sbind_def sane_ops fun_upd_twist manifest_path_def)

lemma write_identity_sane:
  assumes "sane H"
  shows "write_identity p b H = (Ok (), with_files H ((disk_files (hm_disk H))(p \<mapsto> b)))"
  using assms by (simp add: write_identity_def sbind_def sane_ops)

lemma fs_read_Ok: "fs_read p H = (Ok b, H') \<longleftrightarrow> H' = H \<and> file_at H p = Some b \<and> read_fault (hm_disk H) p = None"
  by (auto simp: fs_read_def split: option.splits)

lemma fs_read_state: "fs_read p H = (r, H') \<Longrightarrow> H' = H"
  by (auto simp: fs_read_def split: option.splits)

lemma fs_remove_others: "fs_remove p H = (r, H') \<Longrightarrow> q \<noteq> p \<Longrightarrow> file_at H' q = file_at H q"
  by (auto simp: fs_remove_def split: option.splits)

lemma fs_write_Ok: "fs_write p b H = (Ok (), H') \<Longrightarrow> file_at H' q = (if q = p then Some b else file_at H q)"
  by (auto simp: fs_write_def write_file_def split: option.splits prod.splits)

lemma attempt_run: "attempt m s = (Ok (), t) \<Longrightarrow> \<exists>r. m s = (r, t)"
  by (auto simp: attempt_def split: prod.splits result.splits)

lemma snapshot_to_Ok:
  assumes "snapshot_to vacuum M snap H = (Ok (), H')"
  shows "\<exists>m. M = Some m \<and> file_at H' snap = Some (vacuum m) \<and> (\<forall>q. q \<noteq> snap \<longrightarrow> file_at H' q = file_at H q)"
proof (cases M)
  case None
  then show ?thesis using assms by (auto simp: snapshot_to_def sbind_Ok_iff)
next
  case (Some m)
  obtain H1 where 1: "(if file_at H snap \<noteq> None then fs_remove snap H else (Ok (), H)) = (Ok (), H1)"
    and 2: "(case fs_write snap (vacuum m) H1 of (Err (SIo e), H') \<Rightarrow> (Err (Sqlite e), H') | rH \<Rightarrow> rH) = (Ok (), H')"
    using assms by (auto simp: snapshot_to_def sbind_Ok_iff Some)
  have "file_at H1 q = file_at H q" if "q \<noteq> snap" for q using 1 that fs_remove_others by (auto split: if_splits)
  moreover have "fs_write snap (vacuum m) H1 = (Ok (), H')" using 2 by (auto split: prod.splits result.splits store_error.splits)
  ultimately show ?thesis using Some fs_write_Ok by force
qed

lemma take_snapshot_Ok:
  assumes "take_snapshot vacuum M snap H = (Ok mb, H')"
  shows "\<exists>m. M = Some m \<and> mb = vacuum m \<and> (\<forall>q. q \<noteq> snap \<longrightarrow> file_at H' q = file_at H q)"
proof -
  obtain H0 where 0: "snapshot_to vacuum M snap H = (Ok (), H0)"
    and 1: "(case fs_read snap H0 of (r, H1) \<Rightarrow> sbind (attempt (fs_remove snap)) (\<lambda>_. slift r) H1) = (Ok mb, H')"
    using assms by (auto simp: take_snapshot_def sbind_Ok_iff)
  obtain r H1 where r: "fs_read snap H0 = (r, H1)" by (rule prod.exhaust)
  then have 2: "sbind (attempt (fs_remove snap)) (\<lambda>_. slift r) H0 = (Ok mb, H')" using 1 fs_read_state by fastforce
  then have "r = Ok mb" and 3: "attempt (fs_remove snap) H0 = (Ok (), H')" by (auto simp: sbind_Ok_iff)
  then have 4: "file_at H0 snap = Some mb" using r fs_read_Ok by metis
  obtain m where m: "M = Some m" "file_at H0 snap = Some (vacuum m)" "\<And>q. q \<noteq> snap \<Longrightarrow> file_at H0 q = file_at H q"
    using snapshot_to_Ok [OF 0] by blast
  have "file_at H' q = file_at H0 q" if "q \<noteq> snap" for q using attempt_run [OF 3] fs_remove_others that by blast
  then show ?thesis using m 4 by simp
qed

lemma export_Ok:
  assumes "export E vacuum salt dir M pw H = (Ok blob, H')"
  shows "\<exists>m identity. M = Some m \<and> file_at H (identity_path dir) = Some identity \<and> length identity = IDENTITY_LEN
    \<and> seal_bundle E salt (encode_plaintext identity (vacuum m)) pw = Ok blob"
proof -
  let ?snap = "dir @ [''manifest.snapshot.tmp'']"
  obtain mb H1 identity where s: "take_snapshot vacuum M ?snap H = (Ok mb, H1)"
    and r: "fs_read (identity_path dir) H1 = (Ok identity, H')" "length identity = IDENTITY_LEN"
    and b: "seal_bundle E salt (encode_plaintext identity mb) pw = Ok blob"
    using assms by (auto simp: export_def sbind_Ok_iff not_less split: if_splits)
  have "identity_path dir \<noteq> ?snap" by (simp add: identity_path_def)
  then obtain m where m: "M = Some m" "mb = vacuum m" "file_at H1 (identity_path dir) = file_at H (identity_path dir)"
    using take_snapshot_Ok [OF s] by blast
  have "file_at H (identity_path dir) = Some identity" using r(1) m(3) by (simp add: fs_read_Ok)
  then show ?thesis using m(1) r(2) b [unfolded m(2)] by blast
qed

text \<open>C13. The downloaded bundle restores the node. What \<open>export\<close> returned is installed by \<open>import\<close>, under the same passphrase, on a
  node without files whose disk works: its \<open>manifest.db\<close> is the snapshot of the exported manifest, its identity file that of the exported node,
  so the next start loads the same key and derives the same peer id.\<close>

theorem cold_backup_roundtrip:
  assumes "aead_correct E" "length salt = SALT_LEN" "length (vacuum m) < 2 ^ 64"
    and "export E vacuum salt dir (Some m) pw H = (Ok blob, H')"
    and "ensure_fresh_node M = Ok ()" "sane G"
  shows "\<exists>identity G'. file_at H (identity_path dir) = Some identity
    \<and> import E dir' M pw blob G = (Ok (), G')
    \<and> file_at G' (manifest_path dir') = Some (vacuum m) \<and> file_at G' (identity_path dir') = Some identity
    \<and> load_or_create E fresh (dir' @ [''identity'']) G' = (identity_of E identity, G')"
proof -
  obtain identity where id: "file_at H (identity_path dir) = Some identity" "length identity = IDENTITY_LEN"
    and b: "seal_bundle E salt (encode_plaintext identity (vacuum m)) pw = Ok blob"
    using export_Ok [OF assms(4)] by auto
  have o: "open_backup_bundle E blob pw = Ok (encode_plaintext identity (vacuum m))" by (rule open_seal_bundle [OF assms(1,2) b])
  have d: "decode_plaintext (encode_plaintext identity (vacuum m)) = Ok (identity, vacuum m)"
    by (rule decode_encode_plaintext [OF id(2) assms(3)])
  define G1 where "G1 = with_files G ((disk_files (hm_disk G))(dir' @ [''manifest.restore.tmp''] := None, manifest_path dir' \<mapsto> vacuum m))"
  define G' where "G' = with_files G1 ((disk_files (hm_disk G1))(identity_path dir' \<mapsto> identity))"
  have s: "sane G1" "sane G'" using assms(6) by (simp_all add: G1_def G'_def)
  have i: "import E dir' M pw blob G = (Ok (), G')"
    unfolding import_def using assms(5,6) o d s
    by (simp add: sbind_def slift_def write_atomic_sane write_identity_sane sane_ops(1) G1_def [symmetric] G'_def)
  have f: "file_at G' (manifest_path dir') = Some (vacuum m)" "file_at G' (identity_path dir') = Some identity"
    by (simp_all add: G'_def G1_def identity_path_def manifest_path_def)
  moreover have "load_or_create E fresh (dir' @ [''identity'']) G' = (identity_of E identity, G')"
    using f(2) s(2) id(2)
    by (simp add: load_or_create_def sbind_def slift_def sane_ops identity_path_def sane_def [of G'] KEY_LEN_def IDENTITY_LEN_def sreturn_def fs_read_def fs_mkdir_def)
  ultimately show ?thesis using id(1) i by blast
qed

section \<open>A sealed snapshot\<close>

lemma seal_snapshot_Ok:
  assumes "seal_manifest_snapshot E key pid v snap = Ok blob"
  obtains sealer n where "length pid = PEER_ID_LEN" "manifest_backup_sealer E key pid v = Ok sealer"
    "seal E sealer (snapshot_plain pid v snap) 0 = Ok (blob, n)"
  using assms by (auto simp: seal_manifest_snapshot_def split: if_splits)

lemma snapshot_plain_parts:
  assumes "length pid = PEER_ID_LEN"
  shows "take 8 (snapshot_plain pid v snap) = MB_MAGIC" "snapshot_plain pid v snap ! 8 = MB_FORMAT"
    "take 8 (drop 9 (snapshot_plain pid v snap)) = u64_be v" "take PEER_ID_LEN (drop 17 (snapshot_plain pid v snap)) = as_bytes pid"
    "take 8 (drop (17 + PEER_ID_LEN) (snapshot_plain pid v snap)) = u64_be (word_of_nat (length snap))"
    "drop MB_HEADER (snapshot_plain pid v snap) = snap" "MB_HEADER \<le> length (snapshot_plain pid v snap)"
  using assms by (simp_all add: snapshot_plain_def nth_append drop_Cons' MB_HEADER_def PEER_ID_LEN_def)

lemma open_seal_snapshot:
  assumes "aead_correct E" "seal_manifest_snapshot E key pid v snap = Ok blob" "length snap < 2 ^ 64"
  shows "open_manifest_snapshot E key pid v blob = Ok snap"
proof -
  obtain sealer n where s: "length pid = PEER_ID_LEN" "manifest_backup_sealer E key pid v = Ok sealer"
    "seal E sealer (snapshot_plain pid v snap) 0 = Ok (blob, n)" using seal_snapshot_Ok [OF assms(2)] .
  have "open_inner E sealer 0 blob = Ok (snapshot_plain pid v snap)" by (rule sealed_opens [OF assms(1) s(3)])
  then show ?thesis
    unfolding open_manifest_snapshot_def using s(2) snapshot_plain_parts [OF s(1), of v snap] assms(3)
    by (simp add: Let_def unat_word_small not_less)
qed

lemma decode_envelope:
  assumes "blake3_len E" "i < TOTAL_SHARDS" "length s < 2 ^ 32" "blob \<noteq> []" "length blob < 2 ^ 64"
  shows "decode_manifest_backup_shard (envelope E v blob i s)
    = Ok \<lparr>ms_version = v, ms_shard_index = i, ms_blob_len = length blob, ms_blob_hash = blob_hash E blob, ms_data = s\<rparr>"
proof -
  let ?e = "envelope E v blob i s"
  have h: "length (blob_hash E blob) = BLOB_HASH_LEN" using assms(1) by (simp add: blob_hash_def blake3_len_def BLOB_HASH_LEN_def)
  have p: "take 8 ?e = MS_MAGIC" "?e ! 8 = MS_FORMAT" "take 8 (drop 9 ?e) = u64_be v" "?e ! 17 = word_of_nat i"
    "take 4 (drop 18 ?e) = u32_be (word_of_nat (length s))" "take 8 (drop 22 ?e) = u64_be (word_of_nat (length blob))"
    "take BLOB_HASH_LEN (drop 30 ?e) = blob_hash E blob" "drop MS_HEADER ?e = s" "MS_HEADER \<le> length ?e"
    using h by (simp_all add: envelope_def nth_append drop_Cons' nth_Cons' MS_HEADER_def BLOB_HASH_LEN_def)
  have i: "unat (word_of_nat i :: byte) = i" using assms(2) by (simp add: TOTAL_SHARDS_def DATA_SHARDS_def PARITY_SHARDS_def unat_of_nat)
  have nz: "(word_of_nat (length blob) :: u64) \<noteq> 0"
    using unat_word_small(1) [OF assms(5)] assms(4) by (metis length_0_conv unat_0)
  show ?thesis
    unfolding decode_manifest_backup_shard_def using p i nz assms(2,3,5) by (simp add: Let_def unat_word_small not_less)
qed

text \<open>Backing up twice on one day seals two snapshots under the same key and the same nonce: the key depends on the node and the day
  only and the nonce is constant, so two different snapshots of a day break the once-per-key rule of AES-GCM.\<close>

theorem backup_nonce_reused:
  assumes "seal_manifest_snapshot E key pid v snap = Ok blob" "seal_manifest_snapshot E key pid v snap' = Ok blob'"
  shows "\<exists>k. aead_seal E k (nonce_for 0) [] (snapshot_plain pid v snap) = Some blob
    \<and> aead_seal E k (nonce_for 0) [] (snapshot_plain pid v snap') = Some blob'
    \<and> (snap \<noteq> snap' \<longrightarrow> snapshot_plain pid v snap \<noteq> snapshot_plain pid v snap')"
proof -
  obtain k n where 1: "manifest_backup_sealer E key pid v = Ok k" "seal E k (snapshot_plain pid v snap) 0 = Ok (blob, n)"
    and pid: "length pid = PEER_ID_LEN" using seal_snapshot_Ok [OF assms(1)] .
  obtain k' n' where 2: "manifest_backup_sealer E key pid v = Ok k'" "seal E k' (snapshot_plain pid v snap') 0 = Ok (blob', n')"
    using seal_snapshot_Ok [OF assms(2)] .
  have "k' = k" using 1 2 by simp
  moreover have "aead_seal E c (nonce_for 0) [] p = Some b" if "seal E c p 0 = Ok (b, m)" for c p b m
    using that by (auto simp: seal_def seal_inner_def Let_def split: if_splits)
  moreover have "snap = snap'" if "snapshot_plain pid v snap = snapshot_plain pid v snap'"
    using that snapshot_plain_parts(6) [OF pid] by metis
  ultimately show ?thesis using 1 2 by blast
qed

section \<open>Reassembling\<close>

text \<open>The tally counts, and its greatest entry is the most frequent key.\<close>

definition tally :: "'k list \<Rightarrow> ('k \<times> nat) list" where
  "tally ks = foldl (\<lambda>ts k. tally_add k ts) [] ks"

lemma tally_add_keys: "set (map fst (tally_add k ts)) = insert k (set (map fst ts))"
  by (induction k ts rule: tally_add.induct) auto

lemma tally_add_entries:
  assumes "distinct (map fst ts)"
  shows "distinct (map fst (tally_add k ts))
    \<and> (\<forall>k' n. (k', n) \<in> set (tally_add k ts) \<longleftrightarrow>
          (if k' = k then (\<exists>m. (k, m) \<in> set ts \<and> n = m + 1) \<or> k \<notin> set (map fst ts) \<and> n = 1 else (k', n) \<in> set ts))"
  using assms
proof (induction k ts rule: tally_add.induct)
  case (2 k k' n ts)
  show ?case
  proof (cases "k' = k")
    case True
    then show ?thesis using 2(2) by (auto simp: image_iff)
  next
    case False
    then show ?thesis using 2 tally_add_keys [of k ts] by auto
  qed
qed auto

lemma tally_snoc: "tally (ks @ [k]) = tally_add k (tally ks)"
  by (simp add: tally_def)

lemma tally_counts:
  "distinct (map fst (tally ks)) \<and> (\<forall>k n. (k, n) \<in> set (tally ks) \<longleftrightarrow> k \<in> set ks \<and> n = count_list ks k)"
proof (induction ks rule: rev_induct)
  case Nil
  then show ?case by (simp add: tally_def)
next
  case (snoc x ks)
  then have d: "distinct (map fst (tally ks))" and e: "\<And>k n. (k, n) \<in> set (tally ks) \<longleftrightarrow> k \<in> set ks \<and> n = count_list ks k" by auto
  have keys: "x \<in> set (map fst (tally ks)) \<longleftrightarrow> x \<in> set ks" using e by force
  show ?case unfolding tally_snoc using tally_add_entries [OF d, of x] e keys
    by (auto simp: count_list_0_iff)
qed

lemma foldl_max_in: "foldl (\<lambda>best y. if snd best \<le> snd y then y else best) t ts \<in> set (t # ts)
    \<and> (\<forall>y \<in> set (t # ts). snd y \<le> snd (foldl (\<lambda>best y. if snd best \<le> snd y then y else best) t ts))"
  for t :: "'k \<times> nat"
proof (induction ts arbitrary: t)
  case (Cons a ts)
  show ?case using Cons [of "if snd t \<le> snd a then a else t"] by (auto split: if_splits)
qed simp

lemma max_tally_most_frequent:
  assumes "g \<in> set ks" "\<And>k. k \<in> set ks \<Longrightarrow> k \<noteq> g \<Longrightarrow> count_list ks k < count_list ks g"
  shows "\<exists>n. max_tally (tally ks) = Some (g, n)"
proof (cases "tally ks")
  case Nil
  then show ?thesis using assms(1) tally_counts [of ks] by auto
next
  case (Cons t ts)
  obtain k n where m: "max_tally (tally ks) = Some (k, n)" using Cons by (auto intro: prod.exhaust)
  then have kn: "(k, n) \<in> set (tally ks)" and top: "\<And>y. y \<in> set (tally ks) \<Longrightarrow> snd y \<le> n"
    using foldl_max_in [of t ts] Cons by (auto simp del: foldl_Cons)
  have "(g, count_list ks g) \<in> set (tally ks)" using tally_counts [of ks] assms(1) by blast
  then have "count_list ks g \<le> n" using top by fastforce
  moreover have "k \<in> set ks" "n = count_list ks k" using kn tally_counts [of ks] by blast+
  ultimately have "k = g" using assms(2) [of k] by auto
  then show ?thesis using m by blast
qed

lemma tally_geometry: "foldl (\<lambda>ts s. tally_add (geometry s) ts) [] ss = tally (map geometry ss)"
  by (simp add: tally_def foldl_map)

text \<open>The slots that are filled when every shard of the chosen geometry has the same positive length: by the first one for each index.\<close>

definition picked :: "nat \<times> bytes \<Rightarrow> manifest_backup_shard list \<Rightarrow> nat \<Rightarrow> bytes option" where
  "picked g ss i = map_option ms_data (find (\<lambda>s. ms_shard_index s = i \<and> geometry s = g) ss)"

definition filled :: "bytes option list \<Rightarrow> nat" where
  "filled held = length (filter (\<lambda>x. x \<noteq> None) held)"

lemma filled_update: "i < length held \<Longrightarrow> held ! i = None \<Longrightarrow> filled (held[i := Some x]) = filled held + 1"
proof (induction held arbitrary: i)
  case (Cons a held)
  then show ?case by (cases i) (auto simp: filled_def)
qed simp

lemma keep_shards_fills:
  assumes "\<And>s. s \<in> set ss \<Longrightarrow> geometry s = g \<Longrightarrow> ms_shard_index s < TOTAL_SHARDS \<Longrightarrow> length (ms_data s) = L" "0 < L"
    and "length held = TOTAL_SHARDS" "len = 0 \<or> len = L" "keep_shards g ss (held, len, kept) = (held', len', kept')"
  shows "length held' = TOTAL_SHARDS \<and> kept' + filled held = kept + filled held'
    \<and> (\<forall>i < TOTAL_SHARDS. held' ! i = (if held ! i = None then picked g ss i else held ! i))"
  using assms
proof (induction ss arbitrary: held len kept)
  case Nil
  then show ?case by (simp add: picked_def)
next
  case (Cons s ss)
  show ?case
  proof (cases "ms_shard_index s < TOTAL_SHARDS \<and> geometry s = g")
    case False
    then have k: "keep_shards g ss (held, len, kept) = (held', len', kept')" using Cons.prems(5) by auto
    have "picked g (s # ss) i = picked g ss i" if "i < TOTAL_SHARDS" for i using False that by (auto simp: picked_def)
    then show ?thesis using Cons.IH [OF _ Cons.prems(2-4) k] Cons.prems(1) by simp
  next
    case True
    let ?i = "ms_shard_index s"
    have l: "length (ms_data s) = L" using True Cons.prems(1) by simp
    then have len: "(if len = 0 then length (ms_data s) else len) = L" using Cons.prems(4) by auto
    show ?thesis
    proof (cases "held ! ?i = None")
      case empty: True
      then have k: "keep_shards g ss (held[?i := Some (ms_data s)], L, kept + 1) = (held', len', kept')"
        using Cons.prems(5) True l len by (simp add: Let_def)
      have "length held' = TOTAL_SHARDS \<and> kept' + filled (held[?i := Some (ms_data s)]) = kept + 1 + filled held'
        \<and> (\<forall>i < TOTAL_SHARDS. held' ! i = (if held[?i := Some (ms_data s)] ! i = None then picked g ss i else held[?i := Some (ms_data s)] ! i))"
        by (rule Cons.IH [OF _ Cons.prems(2) _ _ k]) (use Cons.prems(1,3) in auto)
      then show ?thesis
        using filled_update [of ?i held "ms_data s"] empty True Cons.prems(3) by (auto simp: picked_def nth_list_update)
    next
      case False
      then have k: "keep_shards g ss (held, L, kept) = (held', len', kept')" using Cons.prems(5) True l len by (simp add: Let_def)
      have "length held' = TOTAL_SHARDS \<and> kept' + filled held = kept + filled held'
        \<and> (\<forall>i < TOTAL_SHARDS. held' ! i = (if held ! i = None then picked g ss i else held ! i))"
        by (rule Cons.IH [OF _ Cons.prems(2,3) _ k]) (use Cons.prems(1) in auto)
      then show ?thesis using False by (auto simp: picked_def)
    qed
  qed
qed

text \<open>The first copy of the chosen geometry sets the length of a shard. When it is the true one, copies of another length are passed over.\<close>

definition first_copy_fits :: "nat \<times> bytes \<Rightarrow> nat \<Rightarrow> manifest_backup_shard list \<Rightarrow> bool" where
  "first_copy_fits g L ss \<longleftrightarrow>
     (case find (\<lambda>s. ms_shard_index s < TOTAL_SHARDS \<and> geometry s = g) ss of Some s \<Rightarrow> length (ms_data s) = L | None \<Rightarrow> True)"

definition sized :: "nat \<Rightarrow> manifest_backup_shard list \<Rightarrow> manifest_backup_shard list" where
  "sized L ss = filter (\<lambda>s. length (ms_data s) = L) ss"

lemma set_sized: "s \<in> set (sized L ss) \<longleftrightarrow> s \<in> set ss \<and> length (ms_data s) = L"
  by (auto simp: sized_def)

lemma keep_shards_sized:
  assumes "0 < L" "len = L \<or> len = 0 \<and> first_copy_fits g L ss"
  shows "keep_shards g ss (held, len, kept) = keep_shards g (sized L ss) (held, len, kept)"
  using assms(2)
proof (induction ss arbitrary: held len kept)
  case (Cons s ss)
  show ?case
  proof (cases "ms_shard_index s < TOTAL_SHARDS \<and> geometry s = g")
    case True
    then have "len = L \<or> len = 0 \<and> length (ms_data s) = L" using Cons.prems by (auto simp: first_copy_fits_def)
    then have len: "length (ms_data s) = L \<Longrightarrow> (if len = 0 then length (ms_data s) else len) = L" "length (ms_data s) \<noteq> L \<Longrightarrow> len = L"
      by auto
    have IH: "keep_shards g ss (h, L, n) = keep_shards g (sized L ss) (h, L, n)" for h n by (rule Cons.IH) simp
    show ?thesis
    proof (cases "length (ms_data s) = L")
      case fits: True
      have "sized L (s # ss) = s # sized L ss" using fits by (simp add: sized_def)
      then show ?thesis using True fits len(1) by (simp add: Let_def IH)
    next
      case False
      have "sized L (s # ss) = sized L ss" using False by (simp add: sized_def)
      then show ?thesis using True False len(2) assms(1) by (simp add: Let_def IH)
    qed
  next
    case False
    then have "len = L \<or> len = 0 \<and> first_copy_fits g L ss" using Cons.prems by (auto simp: first_copy_fits_def)
    then have IH: "keep_shards g ss (held, len, kept) = keep_shards g (sized L ss) (held, len, kept)" by (rule Cons.IH)
    have "keep_shards g (s # ss') (held, len, kept) = keep_shards g ss' (held, len, kept)" for ss' using False by auto
    then show ?thesis by (simp add: IH sized_def)
  qed
qed (simp add: sized_def)

text \<open>The decoder of Reed-Solomon does not panic and restores shards of the length of those it is given.\<close>

definition rs_sized :: "'f env \<Rightarrow> bool" where
  "rs_sized E \<longleftrightarrow> (\<forall>k m xs rs. rs_decode E k m xs rs \<noteq> Panic)
     \<and> (\<forall>k m xs rs restored L. rs_decode E k m xs rs = Ok restored \<longrightarrow> (\<forall>x \<in> snd ` set (xs @ rs). length x = L)
          \<longrightarrow> xs @ rs \<noteq> [] \<longrightarrow> (\<forall>i x. restored i = Some x \<longrightarrow> length x = L))"

lemma rs_sizedD:
  assumes "rs_sized E" "rs_decode E k m xs rs = Ok restored" "\<And>x. x \<in> snd ` set (xs @ rs) \<Longrightarrow> length x = L" "xs @ rs \<noteq> []" "restored i = Some x"
  shows "length x = L"
proof -
  have "\<forall>x \<in> snd ` set (xs @ rs). length x = L" using assms(3) by blast
  then show ?thesis using conjunct2 [OF assms(1) [unfolded rs_sized_def], rule_format, OF assms(2) _ assms(4,5)] by blast
qed

lemma demo_rs_sized: "rs_sized demo_env"
  unfolding rs_sized_def
proof (intro conjI allI impI)
  show "rs_decode demo_env k m xs rs \<noteq> Panic" for k m xs rs by (simp add: demo_env_def demo_rs_decode_def split: list.splits)
  fix k m xs rs restored L i x
  assume d: "rs_decode demo_env k m xs rs = Ok restored" "\<forall>x \<in> snd ` set (xs @ rs). length x = L" "xs @ rs \<noteq> []" "restored i = Some x"
  then obtain j s ys where xs: "xs @ rs = (j, s) # ys" by (cases "xs @ rs") auto
  then have "restored = (\<lambda>i. Some s)" using d(1) by (auto simp: demo_env_def demo_rs_decode_def split: if_splits)
  moreover have "length s = L" using d(2) unfolding xs by simp
  ultimately show "length x = L" using d(4) by auto
qed

lemma held_shards_mem: "(i, x) \<in> set (held_shards ps) \<longleftrightarrow> i < length ps \<and> ps ! i = Some x"
  by (force simp: held_shards_def List.map_filter_def in_set_enumerate_eq image_iff)

text \<open>Fourteen slots whose shards have one length do not make the reconstruction panic.\<close>

lemma reconstruct_no_panic:
  assumes "rs_sized E" "length held = TOTAL_SHARDS" "\<And>i x. i < TOTAL_SHARDS \<Longrightarrow> held ! i = Some x \<Longrightarrow> length x = L"
  shows "reconstruct E held n \<noteq> Panic"
proof (cases "list_all (\<lambda>s. s \<noteq> None) (take DATA_SHARDS held)")
  case False
  let ?xs = "held_shards (take DATA_SHARDS held)" and ?rs = "held_shards (drop DATA_SHARDS held)"
  have in_held: "length x = L" if "Some x \<in> set held" for x using that assms(2,3) by (metis in_set_conv_nth)
  have lens: "length x = L" if x: "x \<in> snd ` set (?xs @ ?rs)" for x
  proof -
    obtain i where "(i, x) \<in> set ?xs \<or> (i, x) \<in> set ?rs" using x by force
    then have "Some x \<in> set (take DATA_SHARDS held) \<or> Some x \<in> set (drop DATA_SHARDS held)"
      unfolding held_shards_mem by (metis nth_mem)
    then have "Some x \<in> set held" by (meson in_set_dropD in_set_takeD)
    then show ?thesis by (rule in_held)
  qed
  have step: "rmapM f js \<noteq> Panic" if "\<And>j. j \<in> set js \<Longrightarrow> f j \<noteq> Panic" for f :: "nat \<Rightarrow> (bytes, core_error) result" and js
    using that by (induction js) (auto simp: rbind_eq_Panic)
  show ?thesis
  proof (cases "rs_decode E DATA_SHARDS PARITY_SHARDS ?xs ?rs")
    case (Ok restored)
    show ?thesis
    proof (cases "List.map_filter id held")
      case Nil
      then show ?thesis using False Ok by (simp add: reconstruct_def rs_error_def rbind_eq_Panic)
    next
      case (Cons v vs)
      then have "v \<in> set (List.map_filter id held)" by simp
      then have v: "Some v \<in> set held" by (auto simp: List.map_filter_def)
      then have sl: "length v = L" by (rule in_held)
      obtain j where "j < length held" "held ! j = Some v" using v by (metis in_set_conv_nth)
      then have "(j, v) \<in> set ?xs \<or> (j - DATA_SHARDS, v) \<in> set ?rs" by (cases "j < DATA_SHARDS") (auto simp: held_shards_mem)
      then have ne: "?xs @ ?rs \<noteq> []" by auto
      have "restored i = Some x \<Longrightarrow> length x = L" for i x using rs_sizedD [OF assms(1) Ok lens ne] by blast
      moreover have "i < DATA_SHARDS \<Longrightarrow> held ! i = Some x \<Longrightarrow> length x = L" for i x using assms(3) [of i x] by (simp add: TOTAL_SHARDS_def)
      ultimately have each: "(if length held \<le> j then Panic
          else rbind (ok_or (Erasure ''missing data shard after decode'') (case held ! j of Some s \<Rightarrow> Some s | None \<Rightarrow> restored j))
                 (\<lambda>shard. if length shard = length v then Ok shard else Panic)) \<noteq> Panic" if "j \<in> set [0..<DATA_SHARDS]" for j
        using that sl assms(2) by (cases "held ! j"; cases "restored j") (auto simp: TOTAL_SHARDS_def)
      show ?thesis
        using False Ok Cons by (simp add: reconstruct_def rs_error_def rbind_eq_Panic) (rule step, rule each)
    qed
  qed (use False assms(1) in \<open>auto simp: reconstruct_def rs_error_def rs_sized_def\<close>)
qed (simp add: reconstruct_def)

text \<open>No combination of the shards at hand rebuilds to other bytes of the same hash.\<close>

definition no_collision :: "'f env \<Rightarrow> manifest_backup_shard list \<Rightarrow> bytes \<Rightarrow> bool" where
  "no_collision E ss blob \<longleftrightarrow>
     (\<forall>held x. length held = TOTAL_SHARDS \<longrightarrow> set held \<subseteq> insert None (Some ` ms_data ` set ss)
        \<longrightarrow> reconstruct E held (length blob) = Ok x \<longrightarrow> blob_hash E x = blob_hash E blob \<longrightarrow> x = blob)"

lemma no_collisionD:
  assumes "no_collision E ss blob" "length held = TOTAL_SHARDS" "set held \<subseteq> insert None (Some ` ms_data ` set ss)"
    "reconstruct E held (length blob) = Ok x" "blob_hash E x = blob_hash E blob"
  shows "x = blob"
  using assms unfolding no_collision_def by blast

lemma try_rebuild_cases:
  assumes "rs_sized E" "no_collision E ss blob" "length held = TOTAL_SHARDS" "set held \<subseteq> insert None (Some ` ms_data ` set ss)"
    and "\<And>i x. i < TOTAL_SHARDS \<Longrightarrow> held ! i = Some x \<Longrightarrow> length x = L"
  shows "try_rebuild E held (length blob) (blob_hash E blob) \<in> {Ok None, Ok (Some blob)}"
  using reconstruct_no_panic [OF assms(1,3,5)] no_collisionD [OF assms(2-4)]
  by (auto simp: try_rebuild_def split: result.splits)

lemma retry_finds:
  assumes "\<And>i. i \<in> set js \<Longrightarrow> held ! i \<noteq> None \<Longrightarrow> try_rebuild E (held[i := None]) n h \<in> {Ok None, Ok (Some blob)}"
    and "b \<in> set js" "held ! b \<noteq> None" "try_rebuild E (held[b := None]) n h = Ok (Some blob)"
  shows "retry_without E held n h js = Ok blob"
  using assms
proof (induction js)
  case (Cons i js)
  show ?case
  proof (cases "held ! i = None")
    case False
    then show ?thesis using Cons by (auto split: option.splits)
  qed (use Cons in auto)
qed simp

text \<open>A shard as the encoder made it.\<close>

definition true_copy :: "bytes list \<Rightarrow> manifest_backup_shard \<Rightarrow> bool" where
  "true_copy shards s \<longleftrightarrow> ms_shard_index s < TOTAL_SHARDS \<and> ms_data s = shards ! ms_shard_index s"

lemma encoded_lengths:
  assumes "encode E blob = Ok shards" "rs_recovers E DATA_SHARDS PARITY_SHARDS (take DATA_SHARDS shards) (drop DATA_SHARDS shards)"
    and "i < TOTAL_SHARDS"
  shows "length shards = TOTAL_SHARDS" "length (shards ! i) = shard_len (length blob)"
proof -
  obtain rec where s: "shards = data_shard_list blob @ rec" using assms(1) by (auto simp: encode_def data_shards_Ok)
  have rec: "length rec = PARITY_SHARDS" "\<And>r x. r \<in> set rec \<Longrightarrow> x \<in> set (data_shard_list blob) \<Longrightarrow> length r = length x"
    using assms(2) by (auto simp: s rs_recovers_def)
  then show "length shards = TOTAL_SHARDS" by (simp add: s TOTAL_SHARDS_def)
  have x: "data_shard_list blob ! 0 \<in> set (data_shard_list blob)" by (simp add: DATA_SHARDS_def)
  show "length (shards ! i) = shard_len (length blob)"
  proof (cases "i < DATA_SHARDS")
    case True
    then show ?thesis by (simp add: s nth_append length_nth_data_shard_list)
  next
    case False
    then have "rec ! (i - DATA_SHARDS) \<in> set rec" using assms(3) rec(1) by (simp add: TOTAL_SHARDS_def)
    then show ?thesis using False rec(2) [OF _ x] data_shard_list_uniform [OF x] by (simp add: s nth_append)
  qed
qed

lemma picked_iff: "picked g ss i \<noteq> None \<longleftrightarrow> (\<exists>s \<in> set ss. ms_shard_index s = i \<and> geometry s = g)"
  by (auto simp: picked_def find_None_iff)

lemma picked_Some: "picked g ss i = Some x \<Longrightarrow> \<exists>s \<in> set ss. ms_shard_index s = i \<and> geometry s = g \<and> ms_data s = x"
  by (auto simp: picked_def find_Some_iff)

lemma picked_sized:
  assumes "picked g (sized L ss) i = Some x"
  shows "\<exists>s \<in> set ss. ms_shard_index s = i \<and> geometry s = g \<and> ms_data s = x \<and> length x = L"
proof -
  obtain s where "s \<in> set (sized L ss)" "ms_shard_index s = i" "geometry s = g" "ms_data s = x" using picked_Some [OF assms] by auto
  then show ?thesis by (intro bexI [of _ s]) (simp_all add: set_sized)
qed

lemma kept_sized:
  assumes "0 < L" "first_copy_fits g L ss" "keep_shards g ss (replicate TOTAL_SHARDS None, 0, 0) = (held, len, kept)"
  shows "length held = TOTAL_SHARDS" "kept = filled held" "\<And>i. i < TOTAL_SHARDS \<Longrightarrow> held ! i = picked g (sized L ss) i"
proof -
  have k: "keep_shards g (sized L ss) (replicate TOTAL_SHARDS None, 0, 0) = (held, len, kept)"
    using assms(3) keep_shards_sized [OF assms(1), of 0 g ss] assms(2) by simp
  have f: "length held = TOTAL_SHARDS \<and> kept + filled (replicate TOTAL_SHARDS None) = 0 + filled held
      \<and> (\<forall>i < TOTAL_SHARDS. held ! i = (if replicate TOTAL_SHARDS None ! i = None then picked g (sized L ss) i else replicate TOTAL_SHARDS None ! i))"
    using keep_shards_fills [of "sized L ss" g L "replicate TOTAL_SHARDS None" 0 0 held len kept] assms(1) k by (simp add: set_sized)
  have "filled (replicate TOTAL_SHARDS None) = 0" by (simp add: filled_def)
  with f show "length held = TOTAL_SHARDS" "kept = filled held" by simp_all
  show "held ! i = picked g (sized L ss) i" if "i < TOTAL_SHARDS" for i using f that by simp
qed

lemma filled_card: "filled held = card {i. i < length held \<and> held ! i \<noteq> None}"
  unfolding filled_def by (rule length_filter_conv_card)

text \<open>The length and hash that most copies state are chosen.\<close>

lemma true_geometry_chosen:
  assumes "s0 \<in> set ss" "geometry s0 = g"
    and "\<And>s. s \<in> set ss \<Longrightarrow> geometry s \<noteq> g \<Longrightarrow> count_list (map geometry ss) (geometry s) < count_list (map geometry ss) g"
  shows "\<exists>n. max_tally (tally (map geometry ss)) = Some (g, n)"
proof (rule max_tally_most_frequent)
  show "g \<in> set (map geometry ss)" using assms(1,2) by force
  fix k assume "k \<in> set (map geometry ss)" "k \<noteq> g"
  then obtain s where "s \<in> set ss" "geometry s = k" by auto
  then show "count_list (map geometry ss) k < count_list (map geometry ss) g" using assms(3) [of s] \<open>k \<noteq> g\<close> by blast
qed

text \<open>Fourteen slots of which all but slot \<open>b\<close> hold the encoder's shards or nothing: the blob is rebuilt at once, or by leaving out one slot.\<close>

lemma one_bad_slot:
  assumes "encode E blob = Ok shards"
    and "rs_recovers E DATA_SHARDS PARITY_SHARDS (take DATA_SHARDS shards) (drop DATA_SHARDS shards)" "rs_sized E"
    and "no_collision E ss blob"
    and held: "length held = TOTAL_SHARDS" and sub: "set held \<subseteq> insert None (Some ` ms_data ` set ss)"
    and len_held: "\<And>i x. i < TOTAL_SHARDS \<Longrightarrow> held ! i = Some x \<Longrightarrow> length x = L"
    and S_def: "S = {i. i < TOTAL_SHARDS \<and> held ! i \<noteq> None}"
    and exact: "\<And>i. i \<in> S \<Longrightarrow> i \<noteq> b \<Longrightarrow> held ! i = Some (shards ! i)"
    and card_rest: "DATA_SHARDS \<le> card (S - {b})"
  shows "try_rebuild E held (length blob) (blob_hash E blob) = Ok (Some blob)
    \<or> DATA_SHARDS < card S \<and> try_rebuild E held (length blob) (blob_hash E blob) = Ok None
      \<and> retry_without E held (length blob) (blob_hash E blob) [0..<length held] = Ok blob"
proof -
  have fS: "finite S" by (simp add: S_def)
  have rebuild: "try_rebuild E h (length blob) (blob_hash E blob) = Ok (Some blob)"
    if "T \<subseteq> {..<TOTAL_SHARDS}" "DATA_SHARDS \<le> card T" "h = map (\<lambda>i. if i \<in> T then Some (shards ! i) else None) [0..<TOTAL_SHARDS]" for h T
    using reconstruct_subset [OF assms(1,2) that(1,2)] that(3) by (simp add: try_rebuild_def)
  have without: "held[b := None] = map (\<lambda>i. if i \<in> S - {b} then Some (shards ! i) else None) [0..<TOTAL_SHARDS]"
  proof (rule nth_equalityI)
    fix i assume "i < length (held[b := None])"
    then have "i < TOTAL_SHARDS" using held by simp
    then show "held[b := None] ! i = map (\<lambda>i. if i \<in> S - {b} then Some (shards ! i) else None) [0..<TOTAL_SHARDS] ! i"
      using held exact [of i] by (cases "i = b") (auto simp: S_def)
  qed (use held in simp)
  have rb: "try_rebuild E (held[b := None]) (length blob) (blob_hash E blob) = Ok (Some blob)"
    by (rule rebuild [OF _ card_rest without]) (auto simp: S_def)
  have retry: "retry_without E held (length blob) (blob_hash E blob) [0..<length held] = Ok blob" if "b \<in> S"
  proof (rule retry_finds [where b = b])
    show "try_rebuild E (held[i := None]) (length blob) (blob_hash E blob) \<in> {Ok None, Ok (Some blob)}"
      if "i \<in> set [0..<length held]" "held ! i \<noteq> None" for i
    proof (rule try_rebuild_cases [OF assms(3,4), where L = L])
      show "set (held[i := None]) \<subseteq> insert None (Some ` ms_data ` set ss)" using sub set_update_subset_insert [of held i None] by blast
      show "length x = L" if "k < TOTAL_SHARDS" "held[i := None] ! k = Some x" for k x
        using that len_held [of k x] held by (cases "k = i") auto
    qed (simp add: held)
  qed (use that held rb in \<open>auto simp: S_def\<close>)
  have first: "try_rebuild E held (length blob) (blob_hash E blob) \<in> {Ok None, Ok (Some blob)}"
    by (rule try_rebuild_cases [OF assms(3,4) held sub, where L = L]) (rule len_held)
  have "card S > DATA_SHARDS \<and> b \<in> S \<or> try_rebuild E held (length blob) (blob_hash E blob) = Ok (Some blob)"
  proof (cases "b \<in> S")
    case True
    then have "card S = Suc (card (S - {b}))" using fS by (metis card.remove)
    then show ?thesis using True card_rest by simp
  next
    case False
    then have "held[b := None] = held" using held by (cases "b < TOTAL_SHARDS") (auto simp: S_def list_update_same_conv list_update_beyond)
    then show ?thesis using rb by simp
  qed
  then show ?thesis using first retry by auto
qed

text \<open>C12. The automatic backup survives a corrupt shard and peers that lie about the blob. Let shards be gathered of which ten with different
  indices are intact. Copies of one further index may carry any bytes, of any length; copies that state another length or hash of the
  blob may carry anything, as long as each such statement is rarer than the true one. If the first copy that states the true length and
  hash has the length of a shard, then the reassembly gives exactly the sealed blob. Without that condition it can fail: see
  \<open>backup_first_copy_decides\<close> below.\<close>

theorem backup_tolerates_corruption:
  assumes "encode E blob = Ok shards"
    and "rs_recovers E DATA_SHARDS PARITY_SHARDS (take DATA_SHARDS shards) (drop DATA_SHARDS shards)" "rs_sized E"
    and "no_collision E ss blob"
    and g: "g = (length blob, blob_hash E blob)"
    and "\<And>s. s \<in> set ss \<Longrightarrow> geometry s = g \<Longrightarrow> true_copy shards s \<or> ms_shard_index s = b"
    and "first_copy_fits g (shard_len (length blob)) ss"
    and "DATA_SHARDS \<le> card (ms_shard_index ` {s \<in> set ss. geometry s = g \<and> true_copy shards s \<and> ms_shard_index s \<noteq> b})"
    and "\<And>s. s \<in> set ss \<Longrightarrow> geometry s \<noteq> g \<Longrightarrow> count_list (map geometry ss) (geometry s) < count_list (map geometry ss) g"
  shows "reassemble_manifest_backup E ss = Ok blob"
proof -
  let ?L = "shard_len (length blob)" and ?ss = "sized (shard_len (length blob)) ss"
  let ?I = "ms_shard_index ` {s \<in> set ss. geometry s = g \<and> true_copy shards s \<and> ms_shard_index s \<noteq> b}"
  have "?I \<noteq> {}"
  proof
    assume "?I = {}"
    then show False using assms(8) by (simp only: card.empty DATA_SHARDS_def)
  qed
  then obtain s0 where s0: "s0 \<in> set ss" "geometry s0 = g" by auto
  have "card ?I \<le> card {s \<in> set ss. geometry s = g \<and> true_copy shards s \<and> ms_shard_index s \<noteq> b}" by (rule card_image_le) simp
  also have "\<dots> \<le> card (set ss)" by (rule card_mono) auto
  finally have "card ?I \<le> card (set ss)" .
  then have long: "\<not> length ss < DATA_SHARDS" using assms(8) card_length [of ss] by linarith
  obtain n where top: "max_tally (tally (map geometry ss)) = Some (g, n)" using true_geometry_chosen [OF s0 assms(9)] by blast
  obtain held len kept where k: "keep_shards g ss (replicate TOTAL_SHARDS None, 0, 0) = (held, len, kept)" by (metis prod_cases3)
  have pos: "0 < ?L" using shard_len_bounds(1) [of "length blob"] by simp
  note held = kept_sized [OF pos assms(7) k]
  have at: "\<exists>s \<in> set ss. ms_shard_index s = i \<and> geometry s = g \<and> ms_data s = x \<and> length x = ?L" if "i < TOTAL_SHARDS" "held ! i = Some x" for i x
    using that held(3) picked_sized by simp
  have sub: "set held \<subseteq> insert None (Some ` ms_data ` set ss)"
  proof
    fix y assume "y \<in> set held"
    then obtain i where "i < TOTAL_SHARDS" "held ! i = y" using held(1) unfolding in_set_conv_nth by auto
    then show "y \<in> insert None (Some ` ms_data ` set ss)" using at by (cases y) blast+
  qed
  have len_held: "length x = ?L" if "i < TOTAL_SHARDS" "held ! i = Some x" for i x
    using at [OF that] by blast
  define S where "S = {i. i < TOTAL_SHARDS \<and> held ! i \<noteq> None}"
  have IS: "?I \<subseteq> S - {b}"
  proof
    fix i assume "i \<in> ?I"
    then obtain s where s: "s \<in> set ss" "geometry s = g" "ms_shard_index s = i" "i < TOTAL_SHARDS" "i \<noteq> b" "length (ms_data s) = ?L"
      using encoded_lengths(2) [OF assms(1,2)] by (auto simp: true_copy_def)
    then have "s \<in> set ?ss" by (simp add: set_sized)
    then have "picked g ?ss i \<noteq> None" unfolding picked_iff using s(2,3) by blast
    then show "i \<in> S - {b}" using s held(3) by (simp add: S_def)
  qed
  have exact: "held ! i = Some (shards ! i)" if i: "i \<in> S" "i \<noteq> b" for i
  proof -
    obtain x where x: "held ! i = Some x" "i < TOTAL_SHARDS" using i by (auto simp: S_def)
    then obtain s where "s \<in> set ss" "ms_shard_index s = i" "geometry s = g" "ms_data s = x" using at by blast
    then show ?thesis using assms(6) i(2) x by (auto simp: true_copy_def)
  qed
  have fS: "finite S" by (simp add: S_def)
  have card_rest: "DATA_SHARDS \<le> card (S - {b})" using card_mono [OF _ IS] assms(8) fS by simp
  have kept: "kept = card S" using held(1,2) by (simp add: filled_card S_def)
  have "card (S - {b}) \<le> card S" by (rule card_Diff1_le)
  then have enough: "\<not> kept < DATA_SHARDS" using kept card_rest by simp
  have "try_rebuild E held (length blob) (blob_hash E blob) = Ok (Some blob)
    \<or> DATA_SHARDS < card S \<and> try_rebuild E held (length blob) (blob_hash E blob) = Ok None
      \<and> retry_without E held (length blob) (blob_hash E blob) [0..<length held] = Ok blob"
    by (rule one_bad_slot [OF assms(1-4) held(1) sub _ S_def _ card_rest]) (fact len_held, fact exact)
  then show ?thesis using long top k g enough kept by (auto simp: reassemble_manifest_backup_def tally_geometry)
qed

text \<open>One copy of another length that comes first decides the length of a shard, and the genuine ones are dropped.\<close>

lemma keep_shards_rejects:
  assumes "\<And>s. s \<in> set ss \<Longrightarrow> length (ms_data s) \<noteq> len" "0 < len"
  shows "keep_shards g ss (held, len, kept) = (held, len, kept)"
  using assms by (induction ss) auto

lemma reassemble_few:
  assumes "\<not> length ss < DATA_SHARDS" "max_tally (tally (map geometry ss)) = Some ((n, h), c)"
    and "keep_shards (n, h) ss (replicate TOTAL_SHARDS None, 0, 0) = (held, len, kept)" "kept < DATA_SHARDS"
  shows "\<exists>e. reassemble_manifest_backup E ss = Err e"
  using assms by (simp add: reassemble_manifest_backup_def tally_geometry)

text \<open>A single copy of the wrong length defeats the reassembly. If the first shard that arrives names the true length and hash of the
  blob but carries more or fewer bytes than a shard, all genuine shards are dropped and nothing is recovered, even
  with thirteen of them at hand.\<close>

theorem backup_first_copy_decides:
  assumes "encode E blob = Ok shards"
    and "rs_recovers E DATA_SHARDS PARITY_SHARDS (take DATA_SHARDS shards) (drop DATA_SHARDS shards)"
    and "g = (length blob, blob_hash E blob)" "\<And>s. s \<in> set ss \<Longrightarrow> geometry s = g \<and> true_copy shards s"
    and "geometry bad = g" "ms_shard_index bad < TOTAL_SHARDS" "ms_data bad \<noteq> []" "length (ms_data bad) \<noteq> shard_len (length blob)"
  shows "\<exists>e. reassemble_manifest_backup E (bad # ss) = Err e"
proof (cases "length (bad # ss) < DATA_SHARDS")
  case False
  have "\<exists>n. max_tally (tally (map geometry (bad # ss))) = Some (g, n)"
    by (rule max_tally_most_frequent) (use assms(4,5) in auto)
  then obtain n where top: "max_tally (tally (map geometry (bad # ss))) = Some (g, n)" by blast
  have "length (ms_data s) \<noteq> length (ms_data bad)" if "s \<in> set ss" for s
    using assms(4) [OF that] encoded_lengths(2) [OF assms(1,2)] assms(8) by (auto simp: true_copy_def)
  then have "keep_shards g (bad # ss) (replicate TOTAL_SHARDS None, 0, 0)
      = ((replicate TOTAL_SHARDS None)[ms_shard_index bad := Some (ms_data bad)], length (ms_data bad), 1)"
    using keep_shards_rejects [of ss "length (ms_data bad)" g] assms(5-7) by simp
  then show ?thesis by (intro reassemble_few [OF False top [unfolded assms(3)]]) (simp only: assms(3), simp add: DATA_SHARDS_def)
qed (simp add: reassemble_manifest_backup_def)

section \<open>Examples\<close>

text \<open>A blob of 640 equal bytes, its shards, and the shards 4 to 13 as decoded envelopes.\<close>

definition demo_blob :: bytes where "demo_blob = replicate 640 7"

lemma demo_all_shards:
  "replicate DATA_SHARDS (replicate 64 7) @ replicate PARITY_SHARDS (replicate 64 7) = replicate TOTAL_SHARDS (replicate 64 (7 :: byte))"
  by (simp add: TOTAL_SHARDS_def replicate_add)

lemmas demo_backup = demo_encoded(1,3) [unfolded demo_all_shards, folded demo_blob_def]

text \<open>A hash that tells that blob from every other string.\<close>

definition telling_env :: "int env" where
  "telling_env = demo_env\<lparr>blake3 := (\<lambda>b. if b = demo_blob then replicate 32 1 else replicate 32 0)\<rparr>"

lemma telling_env_simps [simp]: "rs_encode telling_env = rs_encode demo_env" "rs_decode telling_env = rs_decode demo_env"
  by (simp_all add: telling_env_def)

lemma telling_hash: "blob_hash telling_env b = (if b = demo_blob then replicate BLOB_HASH_LEN 1 else replicate BLOB_HASH_LEN 0)"
  by (simp add: blob_hash_def telling_env_def BLOB_HASH_LEN_def)

lemma telling_backup:
  "encode telling_env demo_blob = Ok (replicate TOTAL_SHARDS (replicate 64 7))"
  "rs_recovers telling_env DATA_SHARDS PARITY_SHARDS (take DATA_SHARDS (replicate TOTAL_SHARDS (replicate 64 7)))
     (drop DATA_SHARDS (replicate TOTAL_SHARDS (replicate 64 7)))"
  using demo_backup unfolding encode_def rs_recovers_def telling_env_simps by blast+

lemma telling_rs_sized: "rs_sized telling_env"
  using demo_rs_sized by (simp add: rs_sized_def)

lemma telling_no_collision: "no_collision telling_env ss demo_blob"
  by (simp add: no_collision_def telling_hash BLOB_HASH_LEN_def)

definition demo_copy :: "nat \<Rightarrow> bytes \<Rightarrow> manifest_backup_shard" where
  "demo_copy i d = \<lparr>ms_version = 3, ms_shard_index = i, ms_blob_len = 640, ms_blob_hash = blob_hash telling_env demo_blob, ms_data = d\<rparr>"

definition demo_good :: "manifest_backup_shard list" where
  "demo_good = map (\<lambda>i. demo_copy i (replicate 64 7)) [4..<14]"

lemma demo_copy_simps [simp]:
  "ms_data (demo_copy i d) = d" "ms_shard_index (demo_copy i d) = i" "geometry (demo_copy i d) = (640, blob_hash telling_env demo_blob)"
  by (simp_all add: demo_copy_def geometry_def)

lemma demo_true_copy: "true_copy (replicate TOTAL_SHARDS (replicate 64 7)) (demo_copy i (replicate 64 7)) \<longleftrightarrow> i < TOTAL_SHARDS"
  by (auto simp: true_copy_def)

lemma set_demo_good: "set demo_good = (\<lambda>i. demo_copy i (replicate 64 7)) ` {4..<14}"
  unfolding demo_good_def by (simp only: set_map set_upt)

lemma demo_good_geometry:
  assumes "s \<in> set demo_good"
  shows "geometry s = (length demo_blob, blob_hash telling_env demo_blob) \<and> true_copy (replicate TOTAL_SHARDS (replicate 64 7)) s \<and> 4 \<le> ms_shard_index s"
  using assms unfolding set_demo_good
  by (auto simp: demo_true_copy demo_blob_def) (simp add: TOTAL_SHARDS_def DATA_SHARDS_def PARITY_SHARDS_def)

text \<open>Ten intact shards among corrupt ones: two wrong copies of shard 0, of which one has the length of a shard, and two peers that state
  another length and another hash of the blob.\<close>

definition demo_liars :: "manifest_backup_shard list" where
  "demo_liars = [(demo_copy 1 [8])\<lparr>ms_blob_len := 5\<rparr>, (demo_copy 2 [])\<lparr>ms_blob_hash := replicate BLOB_HASH_LEN 0\<rparr>]"

definition demo_hostile :: "manifest_backup_shard list" where
  "demo_hostile = demo_copy 4 (replicate 64 7) # demo_copy 0 (replicate 64 9) # demo_copy 0 [1, 2, 3] # demo_liars
     @ map (\<lambda>i. demo_copy i (replicate 64 7)) [5..<14]"

lemma set_demo_hostile:
  "set demo_hostile = {demo_copy 0 (replicate 64 9), demo_copy 0 [1, 2, 3]} \<union> set demo_liars \<union> set demo_good"
proof -
  have "[4..<14] = 4 # [5..<14]" by (rule upt_rec [THEN trans]) simp
  then show ?thesis unfolding demo_hostile_def demo_good_def by auto
qed

lemma demo_liars_lie: "s \<in> set demo_liars \<Longrightarrow> geometry s \<noteq> (length demo_blob, blob_hash telling_env demo_blob)"
  by (auto simp: demo_liars_def geometry_def demo_copy_def telling_hash demo_blob_def BLOB_HASH_LEN_def)

lemma demo_hostile_true:
  "{s \<in> set demo_hostile. geometry s = (length demo_blob, blob_hash telling_env demo_blob)
      \<and> true_copy (replicate TOTAL_SHARDS (replicate 64 7)) s \<and> ms_shard_index s \<noteq> 0} = set demo_good"
  unfolding set_demo_hostile using demo_good_geometry demo_liars_lie by fastforce

lemma demo_hostile_rare:
  assumes "s \<in> set demo_hostile" "geometry s \<noteq> (length demo_blob, blob_hash telling_env demo_blob)"
  shows "count_list (map geometry demo_hostile) (geometry s)
    < count_list (map geometry demo_hostile) (length demo_blob, blob_hash telling_env demo_blob)"
proof -
  have g: "(length demo_blob, blob_hash telling_env demo_blob) = (640, blob_hash telling_env demo_blob)" by (simp add: demo_blob_def)
  have "s \<in> set demo_liars" using assms demo_good_geometry by (auto simp: set_demo_hostile g)
  then show ?thesis using assms(2) unfolding g
    by (auto simp: demo_hostile_def demo_liars_def geometry_def demo_copy_def count_list_append map_replicate_const)
qed

theorem backup_tolerates_corruption_witness: "reassemble_manifest_backup telling_env demo_hostile = Ok demo_blob"
proof (rule backup_tolerates_corruption [OF telling_backup telling_rs_sized telling_no_collision refl _ _ _ demo_hostile_rare, where b = 0])
  show "DATA_SHARDS \<le> card (ms_shard_index ` {s \<in> set demo_hostile. geometry s = (length demo_blob, blob_hash telling_env demo_blob)
      \<and> true_copy (replicate TOTAL_SHARDS (replicate 64 7)) s \<and> ms_shard_index s \<noteq> 0})"
    unfolding demo_hostile_true set_demo_good image_image demo_copy_simps image_ident by (simp only: card_atLeastLessThan DATA_SHARDS_def)
  show "true_copy (replicate TOTAL_SHARDS (replicate 64 7)) s \<or> ms_shard_index s = 0"
    if "s \<in> set demo_hostile" "geometry s = (length demo_blob, blob_hash telling_env demo_blob)" for s
    using that demo_good_geometry demo_liars_lie unfolding set_demo_hostile by auto
  have "length (replicate 64 (7 :: byte)) = shard_len (length demo_blob)" using encoded_lengths(2) [OF telling_backup, of 0] by (simp add: TOTAL_SHARDS_def DATA_SHARDS_def)
  then show "first_copy_fits (length demo_blob, blob_hash telling_env demo_blob) (shard_len (length demo_blob)) demo_hostile"
    by (simp add: first_copy_fits_def demo_hostile_def demo_blob_def TOTAL_SHARDS_def DATA_SHARDS_def)
qed

theorem backup_first_copy_decides_witness:
  "\<exists>e. reassemble_manifest_backup telling_env (demo_copy 0 [1, 2, 3] # demo_good) = Err e"
proof (rule backup_first_copy_decides [OF telling_backup refl])
  show "geometry s = (length demo_blob, blob_hash telling_env demo_blob) \<and> true_copy (replicate TOTAL_SHARDS (replicate 64 7)) s" if "s \<in> set demo_good" for s
    using demo_good_geometry [OF that] by blast
  have "64 \<le> shard_len (length demo_blob)" by (rule shard_len_bounds(1))
  then show "length (ms_data (demo_copy 0 [1, 2, 3])) \<noteq> shard_len (length demo_blob)" by simp
qed (simp_all add: demo_blob_def TOTAL_SHARDS_def DATA_SHARDS_def)

theorem backup_nonce_reused_witness:
  "\<exists>k. aead_seal demo_env k (nonce_for 0) [] (snapshot_plain (replicate 32 CHR ''a'') 5 [1]) \<noteq> None
     \<and> aead_seal demo_env k (nonce_for 0) [] (snapshot_plain (replicate 32 CHR ''a'') 5 [2]) \<noteq> None"
proof -
  have "is_ok (seal_manifest_snapshot demo_env (replicate 32 1) (replicate 32 CHR ''a'') 5 s)" for s
    by (simp add: seal_manifest_snapshot_def PEER_ID_LEN_def manifest_backup_sealer_def derive_v2_def hkdf_fill_def file_subkey_def derive_raw_def
        subkey_sealer_def seal_def seal_inner_def demo_env_def demo_seal_def KEY_LEN_def MAX_CHUNK_INDEX_def Let_def)
  then have "\<exists>c. seal_manifest_snapshot demo_env (replicate 32 1) (replicate 32 CHR ''a'') 5 s = Ok c" for s
    by (metis is_ok_simps(2,3) result.exhaust)
  then show ?thesis using backup_nonce_reused [of demo_env "replicate 32 1" "replicate 32 CHR ''a''" 5 "[1]" _ "[2]"] by (metis option.distinct(1))
qed

text \<open>A node whose key is 32 ones, exported and restored.\<close>

definition demo_home :: "(file_path \<rightharpoonup> bytes) \<Rightarrow> home" where
  "demo_home files =
     \<lparr>hm_disk = \<lparr>disk_files = files, mkdir_fault = \<lambda>_. None, write_fault = \<lambda>_. None, read_fault = \<lambda>_. None, remove_fault = \<lambda>_. None\<rparr>,
      hm_rename_fault = \<lambda>_. None, hm_mode_fault = \<lambda>_. None\<rparr>"

lemma sane_demo_home: "sane (demo_home files)"
  by (simp add: sane_def demo_home_def)

abbreviation demo_source :: home where
  "demo_source \<equiv> demo_home [identity_path [''d''] \<mapsto> replicate 32 1]"

lemma demo_bundle_seals: "\<exists>blob. seal_bundle demo_env salt plain pw = Ok blob"
  by (simp add: seal_bundle_def derive_kek_def bundle_sealer_def file_subkey_def derive_raw_def hkdf_fill_def subkey_sealer_def seal_def
      seal_inner_def demo_env_def demo_seal_def KEY_LEN_def MAX_CHUNK_INDEX_def Let_def)

lemma demo_export:
  "\<exists>blob. fst (export demo_env (\<lambda>_. [9, 9]) (replicate 16 2) [''d''] (Some M) ''correct horse'' demo_source) = Ok blob"
proof -
  have far: "identity_path [''d''] \<noteq> [''d''] @ [''manifest.snapshot.tmp'']" by (simp add: identity_path_def)
  have "char_count ''correct horse'' = 13" by (simp add: char_count_def as_bytes_def)
  moreover have "file_at (demo_home f) p = f p" for f p by (simp add: demo_home_def)
  moreover have "with_files (demo_home f) f' = demo_home f'" for f f' by (simp add: demo_home_def)
  ultimately show ?thesis
    using demo_bundle_seals far
    by (simp add: export_def MIN_PASSPHRASE_LEN_def take_snapshot_def snapshot_to_def sbind_def sane_ops sane_demo_home slift_def IDENTITY_LEN_def)
qed

theorem cold_backup_roundtrip_witness:
  "\<exists>blob G'. import demo_env [''e''] None ''correct horse'' blob (demo_home Map.empty) = (Ok (), G')
     \<and> file_at G' (manifest_path [''e'']) = Some [9, 9] \<and> file_at G' (identity_path [''e'']) = Some (replicate 32 1)"
proof -
  obtain blob where "fst (export demo_env (\<lambda>_. [9, 9]) (replicate 16 2) [''d''] (Some empty_manifest) ''correct horse'' demo_source) = Ok blob"
    using demo_export by blast
  then obtain H' where e: "export demo_env (\<lambda>_. [9, 9]) (replicate 16 2) [''d''] (Some empty_manifest) ''correct horse'' demo_source = (Ok blob, H')"
    by (cases "export demo_env (\<lambda>_. [9, 9]) (replicate 16 2) [''d''] (Some empty_manifest) ''correct horse'' demo_source") auto
  have i: "file_at demo_source (identity_path [''d'']) = Some (replicate 32 1)" by (simp add: demo_home_def)
  have "\<exists>identity G'. file_at demo_source (identity_path [''d'']) = Some identity
      \<and> import demo_env [''e''] None ''correct horse'' blob (demo_home Map.empty) = (Ok (), G')
      \<and> file_at G' (manifest_path [''e'']) = Some [9, 9] \<and> file_at G' (identity_path [''e'']) = Some identity
      \<and> load_or_create demo_env [] ([''e''] @ [''identity'']) G' = (identity_of demo_env identity, G')"
    by (rule cold_backup_roundtrip [OF demo_aead_correct _ _ e _ sane_demo_home]) (simp_all add: SALT_LEN_def ensure_fresh_node_def)
  then show ?thesis using i by (metis option.inject)
qed

end
