(* ===== verification/RecoveryProps.thy ===== *)
theory RecoveryProps
  imports ManifestBackup BackupProps
begin

text \<open>
  The automatic backup over the network: old versions are deleted only after the new one is out, a fresh node gets its manifest
  back from peers that deliver what they claim to hold, and one peer that claims everything and delivers nothing prevents it.
\<close>

section \<open>What a backup sends\<close>

abbreviation frag_at :: "('f, 'w) repair_ctx \<Rightarrow> u64 \<Rightarrow> nat \<Rightarrow> string" where
  "frag_at C v i \<equiv> manifest_backup_fragment_id (rc_env C) (id_peer_id (rc_ident C)) v i"

text \<open>The indices of the shards of a version that peers acknowledged.\<close>

definition acked_shards :: "('f, 'w) repair_ctx \<Rightarrow> u64 \<Rightarrow> sent list \<Rightarrow> nat set" where
  "acked_shards C v ms = {j. \<exists>a d x. (a, StoreShard (frag_at C v j) (id_peer_id (rc_ident C)) (int j) d, Ok (Ack x)) \<in> set ms}"

lemma finite_acked: "finite (acked_shards C v ms)"
proof (rule finite_subset)
  show "acked_shards C v ms \<subseteq> (\<lambda>(a, m, r). nat (shard_index m)) ` set ms" by (force simp: acked_shards_def image_iff)
qed simp

definition keeps_all :: "sent list \<Rightarrow> bool" where
  "keeps_all ms \<longleftrightarrow> list_all (\<lambda>(a, m, r). \<not> is_DeleteShard m) ms"

definition drops_old :: "('f, 'w) repair_ctx \<Rightarrow> u64 \<Rightarrow> sent list \<Rightarrow> bool" where
  "drops_old C v ms \<longleftrightarrow> list_all (\<lambda>(a, m, r). is_DeleteShard m \<longrightarrow>
     (\<exists>v' i. i < TOTAL_SHARDS \<and> unat v' + KEEP_VERSIONS \<le> unat v \<and> m = DeleteShard (frag_at C v' i) (id_peer_id (rc_ident C)))) ms"

lemma keeps_all_append [simp]: "keeps_all (ms @ ns) \<longleftrightarrow> keeps_all ms \<and> keeps_all ns"
  by (simp add: keeps_all_def)

lemma place_sends:
  assumes "rc_net C = spy net" "place C addr fr idx d w = (b, w')"
  shows "\<exists>ms. snd w' = snd w @ ms \<and> keeps_all ms \<and> (b \<longrightarrow> (\<exists>x. (addr, StoreShard fr (id_peer_id (rc_ident C)) idx d, Ok (Ack x)) \<in> set ms))"
proof -
  let ?m = "StoreShard fr (id_peer_id (rc_ident C)) idx d"
  obtain r w1 where s: "signed_request (rc_env C) (rc_rng C w) (rc_ident C) (rc_port C) (spy net addr) ?m w = (r, w1)" by (rule prod.exhaust)
  then have w': "w' = w1" "b \<longleftrightarrow> (\<exists>x. r = Ok (Ack x))"
    using assms by (auto simp: place_def split: result.splits p2p_message.splits)
  have "preserves (sent_only (snd w) (\<lambda>m. \<not> is_DeleteShard m)) (signed_request (rc_env C) (rc_rng C w) (rc_ident C) (rc_port C) (spy net addr) ?m)"
    by (rule spy_signed) auto
  from preservesD [OF this _ s] obtain ms where ms: "snd w1 = snd w @ ms" "keeps_all ms" by (auto simp: sent_only_def keeps_all_def)
  have "(addr, ?m, r) \<in> set ms" if b: "b"
  proof -
    obtain x where x: "r = Ok (Ack x)" using b w'(2) by blast
    show ?thesis using signed_accepted [OF s [unfolded x]] ms(1) x by fastforce
  qed
  then show ?thesis using ms w' by auto
qed

lemma place_shards_sends:
  assumes "rc_net C = spy net" "place_shards C peers v i shards w = (n, w')"
  shows "\<exists>ms. snd w' = snd w @ ms \<and> keeps_all ms \<and> n \<le> card (acked_shards C v ms \<inter> {i..<i + length shards})"
  using assms(2)
proof (induction shards arbitrary: i w n w')
  case (Cons s shards)
  obtain b w1 where p: "place C (snd (peers ! (i mod length peers))) (frag_at C v i) (int i) s w = (b, w1)" by (rule prod.exhaust)
  obtain k w2 where q: "place_shards C peers v (i + 1) shards w1 = (k, w2)" by (rule prod.exhaust)
  have n: "n = (if b then 1 else 0) + k" "w' = w2" using Cons.prems p q by auto
  obtain ms where ms: "snd w1 = snd w @ ms" "keeps_all ms"
    "b \<longrightarrow> (\<exists>x. (snd (peers ! (i mod length peers)), StoreShard (frag_at C v i) (id_peer_id (rc_ident C)) (int i) s, Ok (Ack x)) \<in> set ms)"
    using place_sends [OF assms(1) p] by blast
  obtain ns where ns: "snd w2 = snd w1 @ ns" "keeps_all ns" "k \<le> card (acked_shards C v ns \<inter> {i + 1..<i + 1 + length shards})"
    using Cons.IH [OF q] by auto
  let ?A = "acked_shards C v (ms @ ns) \<inter> {i..<i + length (s # shards)}" and ?B = "acked_shards C v ns \<inter> {i + 1..<i + 1 + length shards}"
  have sub: "?B \<union> (if b then {i} else {}) \<subseteq> ?A" using ms(3) by (auto simp: acked_shards_def)
  have "card (?B \<union> (if b then {i} else {})) = card ?B + (if b then 1 else 0)" by (auto simp: card_insert_if)
  then have "n \<le> card ?A" using n(1) ns(3) card_mono [OF _ sub] by simp
  then show ?case using n(2) ms ns by (intro exI [of _ "ms @ ns"]) simp
qed (auto intro: exI [of _ "[]"] simp: keeps_all_def)

lemma delete_all_sends:
  assumes "rc_net C = spy net" "delete_all C jobs w = (n, w')"
  shows "\<exists>ms. snd w' = snd w @ ms \<and> list_all (\<lambda>(a, m, r). is_DeleteShard m \<longrightarrow> m \<in> (\<lambda>(fr, a). DeleteShard fr (id_peer_id (rc_ident C))) ` set jobs) ms"
  using assms(2)
proof (induction jobs arbitrary: w n w')
  case (Cons j jobs)
  obtain fr a where j: "j = (fr, a)" by (cases j)
  let ?m = "DeleteShard fr (id_peer_id (rc_ident C))"
  obtain r w1 where s: "signed_request (rc_env C) (rc_rng C w) (rc_ident C) (rc_port C) (spy net a) ?m w = (r, w1)" by (rule prod.exhaust)
  obtain k w2 where q: "delete_all C jobs w1 = (k, w2)" by (rule prod.exhaust)
  have w': "w' = w2" using Cons.prems s q j assms(1) by (auto split: result.splits)
  have pr: "preserves (sent_only (snd w) (\<lambda>m. is_DeleteShard m \<longrightarrow> m = ?m)) (signed_request (rc_env C) (rc_rng C w) (rc_ident C) (rc_port C) (spy net a) ?m)"
    by (rule spy_signed) auto
  obtain ms where ms: "snd w1 = snd w @ ms" "list_all (\<lambda>(a, m, r). is_DeleteShard m \<longrightarrow> m = ?m) ms"
    using preservesD [OF pr sent_only_refl s] by (auto simp: sent_only_def)
  obtain ns where ns: "snd w2 = snd w1 @ ns"
    "list_all (\<lambda>(a, m, r). is_DeleteShard m \<longrightarrow> m \<in> (\<lambda>(fr, a). DeleteShard fr (id_peer_id (rc_ident C))) ` set jobs) ns"
    using Cons.IH [OF q] by blast
  have "list_all (\<lambda>(a, m, r). is_DeleteShard m \<longrightarrow> m \<in> (\<lambda>(fr, a). DeleteShard fr (id_peer_id (rc_ident C))) ` set (j # jobs)) (ms @ ns)"
    using ms(2) ns(2) unfolding j list_all_append by (auto elim!: list.pred_mono_strong)
  then show ?case using w' ms(1) ns(1) by (intro exI [of _ "ms @ ns"]) simp
qed (auto intro: exI [of _ "[]"])

lemma sweep_versions_sends:
  assumes "rc_net C = spy net" "\<And>jobs. set (sweep_order jobs) \<subseteq> set jobs" "sweep_versions C sweep_order peers vs w = (n, k, w')"
    and "\<And>u. u \<in> set vs \<Longrightarrow> u + KEEP_VERSIONS \<le> unat v"
  shows "\<exists>ms. snd w' = snd w @ ms \<and> drops_old C v ms"
  using assms(3,4)
proof (induction vs arbitrary: w n k w')
  case (Cons u vs)
  let ?jobs = "concat (map (\<lambda>i. map (\<lambda>(_, addr). (frag_at C (word_of_nat u) i, addr)) peers) [0..<TOTAL_SHARDS])"
  obtain a w1 where d: "delete_all C (sweep_order ?jobs) w = (a, w1)" by (rule prod.exhaust)
  obtain n' k' w2 where q: "sweep_versions C sweep_order peers vs w1 = (n', k', w2)" by (metis prod_cases3)
  have w': "w' = w2" using Cons.prems(1) d q by (auto simp: Let_def)
  obtain ms where ms: "snd w1 = snd w @ ms"
    "list_all (\<lambda>(a, m, r). is_DeleteShard m \<longrightarrow> m \<in> (\<lambda>(fr, a). DeleteShard fr (id_peer_id (rc_ident C))) ` set (sweep_order ?jobs)) ms"
    using delete_all_sends [OF assms(1) d] by blast
  have u: "u + KEEP_VERSIONS \<le> unat v" using Cons.prems(2) by simp
  then have "unat (word_of_nat u :: u64) = u"
    using unsigned_less [of v, where ?'a = nat] by (simp add: unat_of_nat)
  then have "drops_old C v ms"
    unfolding drops_old_def list.pred_set
  proof (intro ballI)
    fix e assume u2: "unat (word_of_nat u :: u64) = u" and e: "e \<in> set ms"
    obtain a m r where amr: "e = (a, m, r)" by (cases e)
    have "is_DeleteShard m \<longrightarrow> (\<exists>v' i. i < TOTAL_SHARDS \<and> unat v' + KEEP_VERSIONS \<le> unat v \<and> m = DeleteShard (frag_at C v' i) (id_peer_id (rc_ident C)))"
    proof
      assume "is_DeleteShard m"
      then obtain fr b where fr: "(fr, b) \<in> set ?jobs" "m = DeleteShard fr (id_peer_id (rc_ident C))"
        using ms(2) e amr assms(2) [of ?jobs] by (fastforce simp: list_all_iff)
      then obtain i where "i < TOTAL_SHARDS" "fr = frag_at C (word_of_nat u) i" by auto
      then show "\<exists>v' i. i < TOTAL_SHARDS \<and> unat v' + KEEP_VERSIONS \<le> unat v \<and> m = DeleteShard (frag_at C v' i) (id_peer_id (rc_ident C))"
        using fr(2) u u2 by metis
    qed
    then show "case e of (a, m, r) \<Rightarrow> is_DeleteShard m \<longrightarrow> (\<exists>v' i. i < TOTAL_SHARDS \<and> unat v' + KEEP_VERSIONS \<le> unat v
        \<and> m = DeleteShard (frag_at C v' i) (id_peer_id (rc_ident C)))" by (simp add: amr)
  qed
  moreover obtain ns where "snd w2 = snd w1 @ ns" "drops_old C v ns" using Cons.IH [OF q] Cons.prems(2) by auto
  ultimately show ?case using ms(1) w' by (intro exI [of _ "ms @ ns"]) (simp add: drops_old_def)
qed (auto intro: exI [of _ "[]"] simp: drops_old_def)

lemma ping_all_keeps:
  assumes "rc_net C = spy net" "ping_all C ps w = (live, w')"
  shows "\<exists>ms. snd w' = snd w @ ms \<and> keeps_all ms"
  using assms(2)
proof (induction ps arbitrary: w live w')
  case (Cons p ps)
  obtain pid a where p: "p = (pid, a)" by (cases p)
  obtain r w1 where s: "ping (spy net a) (id_peer_id (rc_ident C)) (rc_port C) w = (r, w1)" by (rule prod.exhaust)
  obtain live2 w2 where q: "ping_all C ps w1 = (live2, w2)" by (rule prod.exhaust)
  have "w' = w2" using Cons.prems s q p assms(1) by (auto split: result.splits)
  have "preserves (sent_only (snd w) (\<lambda>m. \<not> is_DeleteShard m)) (ping (spy net a) (id_peer_id (rc_ident C)) (rc_port C))"
    unfolding ping_def handshake_def by (intro preserve) auto
  from preservesD [OF this _ s] obtain ms where "snd w1 = snd w @ ms" "keeps_all ms" by (auto simp: sent_only_def keeps_all_def)
  moreover obtain ns where "snd w2 = snd w1 @ ns" "keeps_all ns" using Cons.IH [OF q] by blast
  ultimately show ?case using \<open>w' = w2\<close> by (intro exI [of _ "ms @ ns"]) simp
qed (auto intro: exI [of _ "[]"] simp: keeps_all_def)

lemma emit_event_net [simp]: "va_net (emit_event e V) = va_net V" "va_net (set_net w V) = w" "va_net (V\<lparr>va_home := H\<rparr>) = va_net V"
  by (simp_all add: emit_event_def va_net_def set_net_def)

lemma sweep_old_sends:
  assumes "rc_net C = spy net" "\<And>jobs. set (sweep_order jobs) \<subseteq> set jobs" "sweep_old_versions C sweep_order peers v w = (n, k, w')"
  shows "\<exists>ms. snd w' = snd w @ ms \<and> drops_old C v ms"
proof (cases "unat v < KEEP_VERSIONS")
  case True
  then show ?thesis using assms(3) by (auto simp: sweep_old_versions_def drops_old_def intro: exI [of _ "[]"])
next
  case False
  then have "sweep_versions C sweep_order peers [unat v - KEEP_VERSIONS - SWEEP_DEPTH..<unat v - KEEP_VERSIONS + 1] w = (n, k, w')"
    using assms(3) by (simp only: sweep_old_versions_def Let_def if_False)
  then show ?thesis by (rule sweep_versions_sends [OF assms(1,2)]) (use False in auto)
qed

text \<open>C14. Old backups are pruned last. Whatever peers answer, a backup pass first sends no deletion at all; deletions follow only after peers have
  acknowledged at least ten different shards of today's version, and each of them names a shard of this node's own backup that is
  at least a week old.\<close>

theorem backup_prunes_last:
  assumes "rc_net C = spy net" "\<And>jobs. set (sweep_order jobs) \<subseteq> set jobs"
    and "run_backup C vacuum dir ping_order sweep_order V = (rep, V')"
    and "v = manifest_backup_version_now (va_clock V)"
  shows "\<exists>ms ds. snd (va_net V') = snd (va_net V) @ ms @ ds \<and> keeps_all ms \<and> drops_old C v ds
    \<and> (ds \<noteq> [] \<longrightarrow> DATA_SHARDS \<le> card (acked_shards C v ms))"
proof -
  have still: ?thesis if quiet: "\<exists>ms. snd (va_net V') = snd (va_net V) @ ms \<and> keeps_all ms"
  proof -
    obtain ms where "snd (va_net V') = snd (va_net V) @ ms @ []" "keeps_all ms" using quiet by auto
    moreover have "drops_old C v []" by (simp add: drops_old_def)
    ultimately show ?thesis by blast
  qed
  obtain peers w1 where r: "reachable_peers C ping_order (si_db (va_site V)) (va_net V) = (peers, w1)" by (rule prod.exhaust)
  obtain live where "ping_all C (ping_order (other_peers (id_peer_id (rc_ident C)) (si_db (va_site V)))) (va_net V) = (live, w1)"
    using r by (auto simp: reachable_peers_def split: prod.splits)
  then obtain ps where ps: "snd w1 = snd (va_net V) @ ps" "keeps_all ps" using ping_all_keeps [OF assms(1)] by blast
  show ?thesis
  proof (cases "already_placed v V")
    case True
    then show ?thesis using assms(3) by (intro still exI [of _ "[]"]) (simp add: run_backup_def assms(4) keeps_all_def)
  next
    case new: False
    define V1 where "V1 = set_net w1 V"
    obtain b H where b: "build_manifest_backup (rc_env C) vacuum dir (va_manifest V1) (id_data_key (rc_ident C)) (id_peer_id (rc_ident C)) v (va_home V1) = (b, H)"
      by (rule prod.exhaust)
    let ?big = "\<lambda>built. (case mb_shards built of [] \<Rightarrow> 0 | s # _ \<Rightarrow> length s) > MAX_PEER_SHARD_BYTES"
    have net: "va_net V' = (if peers = [] then w1 else case b of
        Ok built \<Rightarrow> if ?big built then w1
          else (case place_shards C peers v 0 (mb_shards built) w1 of
                  (n, w3) \<Rightarrow> if n \<ge> DATA_SHARDS then snd (snd (sweep_old_versions C sweep_order peers v w3)) else w3)
      | _ \<Rightarrow> w1)"
    proof -
      have "V' = snd (run_backup C vacuum dir ping_order sweep_order V)" using assms(3) by simp
      then show ?thesis
        using new r b
        by (cases "peers = []"; cases b)
          (simp_all add: run_backup_def assms(4) [symmetric] V1_def [symmetric] Let_def split: prod.split if_split, simp_all add: V1_def)
    qed
    show ?thesis
    proof (cases "\<exists>built. b = Ok built \<and> peers \<noteq> [] \<and> \<not> ?big built")
      case False
      then have "va_net V' = w1" using net by (auto split: result.splits)
      then show ?thesis using still ps by metis
    next
      case True
      then obtain built where 2: "b = Ok built" "peers \<noteq> []" "\<not> ?big built" by blast
      obtain n w3 where p: "place_shards C peers v 0 (mb_shards built) w1 = (n, w3)" by (rule prod.exhaust)
      obtain ms where ms: "snd w3 = snd w1 @ ms" "keeps_all ms" "n \<le> card (acked_shards C v ms \<inter> {0..<0 + length (mb_shards built)})"
        using place_shards_sends [OF assms(1) p] by blast
      have le: "n \<le> card (acked_shards C v (ps @ ms))"
        using ms(3) card_mono [OF finite_acked, of "acked_shards C v ms \<inter> {0..<0 + length (mb_shards built)}" C v "ps @ ms"]
        by (force simp: acked_shards_def)
      obtain s k w5 where w: "sweep_old_versions C sweep_order peers v w3 = (s, k, w5)" by (metis prod_cases3)
      obtain ds where ds: "snd w5 = snd w3 @ ds" "drops_old C v ds" using sweep_old_sends [OF assms(1,2) w] by blast
      have end_net: "va_net V' = (if n \<ge> DATA_SHARDS then w5 else w3)"
        using net 2 p w by simp
      show ?thesis
      proof (cases "n \<ge> DATA_SHARDS")
        case True
        then have "snd (va_net V') = snd (va_net V) @ (ps @ ms) @ ds" using end_net ds ms ps by simp
        moreover have "DATA_SHARDS \<le> card (acked_shards C v (ps @ ms))" using True le by simp
        ultimately show ?thesis using ps(2) ms(2) ds(2) keeps_all_append by blast
      next
        case False
        then have "snd (va_net V') = snd (va_net V) @ ps @ ms" using end_net ms ps by simp
        then show ?thesis using still ps(2) ms(2) keeps_all_append by blast
      qed
    qed
  qed
qed

section \<open>Recovery\<close>

text \<open>Slots and the list of the filled ones.\<close>

lemma filled_slots: "(i, x) \<in> set (List.map_filter (\<lambda>(i, s). map_option (Pair i) s) (enumerate 0 ps)) \<longleftrightarrow> i < length ps \<and> ps ! i = Some x"
  by (force simp: List.map_filter_def in_set_enumerate_eq image_iff)

lemma distinct_filled_slots: "distinct (map fst (List.map_filter (\<lambda>(i, s). map_option (Pair i) s) (enumerate n ps)))"
proof (induction ps arbitrary: n)
  case (Cons p ps)
  have "n \<notin> set (map fst (List.map_filter (\<lambda>(i, s). map_option (Pair i) s) (enumerate (Suc n) ps)))"
    by (auto simp: List.map_filter_def in_set_enumerate_eq)
  then show ?case using Cons by (cases p) (auto simp: List.map_filter_simps)
qed (simp add: List.map_filter_simps)

text \<open>An address claims a shard when it may answer yes; it surely has it when it always does.\<close>

definition may_claim :: "('f, 'w) repair_ctx \<Rightarrow> u64 \<Rightarrow> nat \<Rightarrow> string \<Rightarrow> bool" where
  "may_claim C v i a \<longleftrightarrow> (\<exists>w. fst (has_shard (rc_net C a) (frag_at C v i) w) = Ok True)"

definition surely_claims :: "('f, 'w) repair_ctx \<Rightarrow> u64 \<Rightarrow> nat \<Rightarrow> string \<Rightarrow> bool" where
  "surely_claims C v i a \<longleftrightarrow> (\<forall>w. fst (has_shard (rc_net C a) (frag_at C v i) w) = Ok True)"

lemma probe_each_hosts:
  assumes "probe_each C v jobs host w = (host', w')" "length host = TOTAL_SHARDS" "\<And>i a. (i, a) \<in> set jobs \<Longrightarrow> i < TOTAL_SHARDS"
  shows "length host' = TOTAL_SHARDS
    \<and> (\<forall>i a. i < TOTAL_SHARDS \<longrightarrow> host' ! i = Some a \<longrightarrow> host ! i = Some a \<or> (i, a) \<in> set jobs \<and> may_claim C v i a)
    \<and> (\<forall>i a. i < TOTAL_SHARDS \<longrightarrow> host ! i \<noteq> None \<or> (i, a) \<in> set jobs \<and> surely_claims C v i a \<longrightarrow> host' ! i \<noteq> None)"
  using assms
proof (induction jobs arbitrary: host w)
  case (Cons j jobs)
  obtain k addr where j: "j = (k, addr)" by (cases j)
  obtain r w1 where h: "has_shard (rc_net C addr) (frag_at C v k) w = (r, w1)" by (rule prod.exhaust)
  let ?host = "if r = Ok True \<and> host ! k = None then host[k := Some addr] else host"
  have p: "probe_each C v jobs ?host w1 = (host', w')" using Cons.prems(1) h by (simp add: j)
  have k: "k < TOTAL_SHARDS" using Cons.prems(3) [of k addr] j by simp
  have claim: "may_claim C v k addr" if "r = Ok True" using h that unfolding may_claim_def by (metis fst_conv)
  have sure: "r = Ok True" if "surely_claims C v k addr" using h that unfolding surely_claims_def by (metis fst_conv)
  have ih: "length host' = TOTAL_SHARDS
    \<and> (\<forall>i a. i < TOTAL_SHARDS \<longrightarrow> host' ! i = Some a \<longrightarrow> ?host ! i = Some a \<or> (i, a) \<in> set jobs \<and> may_claim C v i a)
    \<and> (\<forall>i a. i < TOTAL_SHARDS \<longrightarrow> ?host ! i \<noteq> None \<or> (i, a) \<in> set jobs \<and> surely_claims C v i a \<longrightarrow> host' ! i \<noteq> None)"
    by (rule Cons.IH [OF p]) (use Cons.prems in \<open>auto simp: j\<close>)
  have "host ! i = Some a \<or> (i, a) \<in> set (j # jobs) \<and> may_claim C v i a" if "i < TOTAL_SHARDS" "host' ! i = Some a" for i a
    using ih that claim Cons.prems(2) by (cases "i = k") (auto simp: j split: if_splits)
  moreover have "host' ! i \<noteq> None" if "i < TOTAL_SHARDS" "host ! i \<noteq> None \<or> (i, a) \<in> set (j # jobs) \<and> surely_claims C v i a" for i a
  proof -
    have "?host ! i \<noteq> None \<or> (i, a) \<in> set jobs \<and> surely_claims C v i a"
      using that sure Cons.prems(2) k by (cases "i = k") (auto simp: j)
    then show ?thesis using ih that(1) by blast
  qed
  ultimately show ?case using ih by blast
qed simp

lemma probe_version_finds:
  assumes "probe_version C probe_order addrs v w = (found, w')" "\<And>jobs. set (probe_order jobs) = set jobs"
  shows "distinct (map fst found)" "(i, a) \<in> set found \<Longrightarrow> i < TOTAL_SHARDS \<and> a \<in> set addrs \<and> may_claim C v i a"
    "i < TOTAL_SHARDS \<Longrightarrow> a \<in> set addrs \<Longrightarrow> surely_claims C v i a \<Longrightarrow> i \<in> fst ` set found"
proof -
  let ?jobs = "concat (map (\<lambda>i. map (Pair i) addrs) [0..<TOTAL_SHARDS])"
  obtain host where p: "probe_each C v (probe_order ?jobs) (replicate TOTAL_SHARDS None) w = (host, w')"
    and f: "found = List.map_filter (\<lambda>(i, a). map_option (Pair i) a) (enumerate 0 host)"
    using assms(1) by (auto simp: probe_version_def split: prod.splits)
  have jobs: "(i, a) \<in> set (probe_order ?jobs) \<longleftrightarrow> i < TOTAL_SHARDS \<and> a \<in> set addrs" for i a using assms(2) [of ?jobs] by auto
  have e: "length host = TOTAL_SHARDS
    \<and> (\<forall>i a. i < TOTAL_SHARDS \<longrightarrow> host ! i = Some a \<longrightarrow> replicate TOTAL_SHARDS None ! i = Some a \<or> (i, a) \<in> set (probe_order ?jobs) \<and> may_claim C v i a)
    \<and> (\<forall>i a. i < TOTAL_SHARDS \<longrightarrow> replicate TOTAL_SHARDS (None :: string option) ! i \<noteq> None \<or> (i, a) \<in> set (probe_order ?jobs) \<and> surely_claims C v i a \<longrightarrow> host ! i \<noteq> None)"
    by (rule probe_each_hosts [OF p]) (use jobs in auto)
  show "distinct (map fst found)" unfolding f by (rule distinct_filled_slots)
  show "i < TOTAL_SHARDS \<and> a \<in> set addrs \<and> may_claim C v i a" if "(i, a) \<in> set found"
    using that e jobs unfolding f filled_slots by auto
  show "i \<in> fst ` set found" if s: "i < TOTAL_SHARDS" "a \<in> set addrs" "surely_claims C v i a"
  proof -
    have "host ! i \<noteq> None" using e jobs s by blast
    then obtain b where "(i, b) \<in> set found" using e s(1) unfolding f filled_slots by auto
    then show ?thesis by force
  qed
qed

lemma fetch_envelopes_all:
  assumes "\<And>i a w. (i, a) \<in> set jobs \<Longrightarrow> \<exists>f. fst (request (rc_net C a) (GetShard (frag_at C v i)) w) = Ok (ShardData f (e i))"
    and "\<And>i a. (i, a) \<in> set jobs \<Longrightarrow> decode_manifest_backup_shard (e i) = Ok (copy i) \<and> ms_version (copy i) = v"
  shows "fst (fetch_envelopes C v jobs w) = map (\<lambda>(i, a). copy i) jobs"
  using assms
proof (induction jobs arbitrary: w)
  case (Cons j jobs)
  obtain i a where j: "j = (i, a)" by (cases j)
  obtain r w1 where r: "request (rc_net C a) (GetShard (frag_at C v i)) w = (r, w1)" by (rule prod.exhaust)
  then obtain f where f: "r = Ok (ShardData f (e i))" using Cons.prems(1) [of i a w] j by auto
  have "fst (fetch_envelopes C v jobs w1) = map (\<lambda>(i, a). copy i) jobs"
  proof (rule Cons.IH)
    fix i a w assume m: "(i, a) \<in> set jobs"
    show "\<exists>f. fst (request (rc_net C a) (GetShard (frag_at C v i)) w) = Ok (ShardData f (e i))" using Cons.prems(1) [of i a w] m by simp
    show "decode_manifest_backup_shard (e i) = Ok (copy i) \<and> ms_version (copy i) = v" using Cons.prems(2) [of i a] m by simp
  qed
  then show ?case using r f Cons.prems(2) [of i a] j by (cases "fetch_envelopes C v jobs w1") simp
qed simp

lemma reassemble_true:
  assumes "encode E blob = Ok shards"
    and "rs_recovers E DATA_SHARDS PARITY_SHARDS (take DATA_SHARDS shards) (drop DATA_SHARDS shards)"
    and "g = (length blob, blob_hash E blob)" "\<And>s. s \<in> set ss \<Longrightarrow> geometry s = g \<and> true_copy shards s"
    and "DATA_SHARDS \<le> card (ms_shard_index ` set ss)"
  shows "reassemble_manifest_backup E ss = Ok blob"
proof -
  let ?L = "shard_len (length blob)" and ?S = "ms_shard_index ` set ss"
  have "card ?S \<le> length ss" by (meson card_image_le card_length finite_set le_trans)
  then have long: "\<not> length ss < DATA_SHARDS" using assms(5) by simp
  then have "ss \<noteq> []" by (auto simp: DATA_SHARDS_def)
  then obtain n where top: "max_tally (tally (map geometry ss)) = Some (g, n)"
    using max_tally_most_frequent [of g "map geometry ss"] assms(4) by (cases ss) fastforce+
  have L: "length (ms_data s) = ?L" if "s \<in> set ss" for s
    using assms(4) [OF that] encoded_lengths(2) [OF assms(1,2)] by (auto simp: true_copy_def)
  obtain held len kept where k: "keep_shards g ss (replicate TOTAL_SHARDS None, 0, 0) = (held, len, kept)" by (metis prod_cases3)
  from keep_shards_fills [OF _ _ _ _ k, of ?L] L
  have held: "length held = TOTAL_SHARDS" "kept = filled held" "\<And>i. i < TOTAL_SHARDS \<Longrightarrow> held ! i = picked g ss i"
    by (simp_all add: filled_def)
  have slot: "held ! i = (if i \<in> ?S then Some (shards ! i) else None)" if i: "i < TOTAL_SHARDS" for i
  proof (cases "picked g ss i")
    case None
    then have "i \<notin> ?S" using picked_iff [of g ss i] assms(4) by auto
    then show ?thesis using held(3) [OF i] None by simp
  next
    case (Some x)
    then obtain s where "s \<in> set ss" "ms_shard_index s = i" "ms_data s = x" using picked_Some by blast
    then show ?thesis using held(3) [OF i] Some assms(4) [of s] by (auto simp: true_copy_def)
  qed
  have S: "?S \<subseteq> {..<TOTAL_SHARDS}" using assms(4) by (auto simp: true_copy_def)
  have "held = map (\<lambda>i. if i \<in> ?S then Some (shards ! i) else None) [0..<TOTAL_SHARDS]"
    using held(1) slot by (intro nth_equalityI) auto
  then have "reconstruct E held (length blob) = Ok blob" using reconstruct_subset [OF assms(1,2) S assms(5)] by simp
  then have "try_rebuild E held (length blob) (blob_hash E blob) = Ok (Some blob)" by (simp add: try_rebuild_def)
  moreover have "kept = card ?S"
  proof -
    have "{i. i < length held \<and> held ! i \<noteq> None} = ?S" using held(1) slot S by (auto split: if_splits)
    then show ?thesis using held(2) by (simp add: filled_card)
  qed
  ultimately show ?thesis using long top k assms(3,5) by (simp add: reassemble_manifest_backup_def tally_geometry)
qed

text \<open>One version that is out there.\<close>

lemma version_restores:
  assumes "aead_correct E" "blake3_len E" and E: "E = rc_env C"
    and seal: "seal_manifest_snapshot E (id_data_key (rc_ident C)) (id_peer_id (rc_ident C)) v snap = Ok blob" "length snap < 2 ^ 62"
    and enc: "encode E blob = Ok shards" "rs_recovers E DATA_SHARDS PARITY_SHARDS (take DATA_SHARDS shards) (drop DATA_SHARDS shards)"
      "shard_len (length blob) < 2 ^ 32"
    and deliver: "\<And>i a w. i < TOTAL_SHARDS \<Longrightarrow> a \<in> set addrs \<Longrightarrow> may_claim C v i a
        \<Longrightarrow> \<exists>f. fst (request (rc_net C a) (GetShard (frag_at C v i)) w) = Ok (ShardData f (envelope E v blob i (shards ! i)))"
    and probe: "probe_version C probe_order addrs v w0 = (found, w1)" "\<And>jobs. set (probe_order jobs) = set jobs" "\<And>jobs. set (fetch_order jobs) = set jobs"
    and enough: "DATA_SHARDS \<le> card {i. i < TOTAL_SHARDS \<and> (\<exists>a \<in> set addrs. surely_claims C v i a)}"
  shows "\<not> length found < DATA_SHARDS" "\<exists>used. fst (fetch_and_open C fetch_order v found w1) = Ok (Some (snap, used))"
proof -
  let ?sure = "{i. i < TOTAL_SHARDS \<and> (\<exists>a \<in> set addrs. surely_claims C v i a)}"
  let ?copy = "\<lambda>i. \<lparr>ms_version = v, ms_shard_index = i, ms_blob_len = length blob, ms_blob_hash = blob_hash E blob, ms_data = shards ! i\<rparr>"
  have found: "(i, a) \<in> set found \<Longrightarrow> i < TOTAL_SHARDS \<and> a \<in> set addrs \<and> may_claim C v i a" for i a
    using probe_version_finds(2) [OF probe(1,2)] .
  have sub: "?sure \<subseteq> fst ` set found" using probe_version_finds(3) [OF probe(1,2)] by blast
  have card: "DATA_SHARDS \<le> card (fst ` set found)" using enough card_mono [OF _ sub] by simp
  also have "\<dots> \<le> length found" by (meson card_image_le card_length finite_set le_trans)
  finally show "\<not> length found < DATA_SHARDS" by simp
  obtain k n where s: "length (id_peer_id (rc_ident C)) = PEER_ID_LEN" "seal E k (snapshot_plain (id_peer_id (rc_ident C)) v snap) 0 = Ok (blob, n)"
    using seal_snapshot_Ok [OF seal(1)] .
  have len: "length blob = length (snapshot_plain (id_peer_id (rc_ident C)) v snap) + 16"
    using s(2) assms(1) by (auto simp: seal_def seal_inner_def aead_correct_def Let_def split: if_splits) (metis option.inject)
  then have b: "blob \<noteq> []" "length blob < 2 ^ 64"
    using seal(2) s(1) by (auto simp: snapshot_plain_def PEER_ID_LEN_def)
  have copy: "decode_manifest_backup_shard (envelope E v blob i (shards ! i)) = Ok (?copy i)" if "i < TOTAL_SHARDS" for i
    by (rule decode_envelope [OF assms(2) that _ b]) (use encoded_lengths(2) [OF enc(1,2) that] enc(3) in simp)
  obtain ss w2 where f: "fetch_envelopes C v (fetch_order found) w1 = (ss, w2)" by (rule prod.exhaust)
  have "fst (fetch_envelopes C v (fetch_order found) w1) = map (\<lambda>(i, a). ?copy i) (fetch_order found)"
    by (rule fetch_envelopes_all [of _ C v "\<lambda>i. envelope E v blob i (shards ! i)"]) (use deliver found copy probe(3) [of found] in \<open>auto simp: E\<close>)
  then have ss: "set ss = (\<lambda>i. ?copy i) ` fst ` set found"
    using f probe(3) [of found] by (simp add: image_image split_def)
  have idx: "ms_shard_index ` set ss = fst ` set found" unfolding ss image_image by simp
  have "reassemble_manifest_backup E ss = Ok blob"
  proof (rule reassemble_true [OF enc(1,2) refl])
    show "DATA_SHARDS \<le> card (ms_shard_index ` set ss)" using card idx by simp
    fix s assume "s \<in> set ss"
    then obtain i where "s = ?copy i" "i \<in> fst ` set found" unfolding ss by blast
    then show "geometry s = (length blob, blob_hash E blob) \<and> true_copy shards s" using found by (auto simp: geometry_def true_copy_def)
  qed
  moreover have "open_manifest_snapshot E (id_data_key (rc_ident C)) (id_peer_id (rc_ident C)) v blob = Ok snap"
    by (rule open_seal_snapshot [OF assms(1) seal(1)]) (use seal(2) in simp)
  moreover have "\<not> length ss < DATA_SHARDS" using card idx by (metis card_image_le card_length finite_set le_trans not_le)
  ultimately show "\<exists>used. fst (fetch_and_open C fetch_order v found w1) = Ok (Some (snap, used))"
    using f by (simp add: fetch_and_open_def E)
qed

text \<open>The versions before it in the scan: none has ten shards that anybody claims.\<close>

lemma try_versions_skips:
  assumes "\<And>jobs. set (probe_order jobs) = set jobs"
    and "\<And>u. u \<in> set us \<Longrightarrow> card {i. i < TOTAL_SHARDS \<and> (\<exists>a \<in> set addrs. may_claim C u i a)} < DATA_SHARDS"
  shows "\<exists>w k. try_versions C dir probe_order fetch_order addrs (us @ vs) p V = try_versions C dir probe_order fetch_order addrs vs k (set_net w V)"
  using assms(2)
proof (induction us arbitrary: p V)
  case Nil
  have "set_net (va_net V) V = V" by (simp add: set_net_def va_net_def)
  then show ?case by (metis append_Nil)
next
  case (Cons u us)
  obtain found w1 where f: "probe_version C probe_order addrs u (va_net V) = (found, w1)" by (rule prod.exhaust)
  let ?may = "{i. i < TOTAL_SHARDS \<and> (\<exists>a \<in> set addrs. may_claim C u i a)}"
  have "set (map fst found) \<subseteq> ?may"
  proof
    fix i assume "i \<in> set (map fst found)"
    then obtain a where "(i, a) \<in> set found" by auto
    then show "i \<in> ?may" using probe_version_finds(2) [OF f assms(1)] by blast
  qed
  then have "card (set (map fst found)) \<le> card ?may" by (rule card_mono [rotated]) simp
  also have "\<dots> < DATA_SHARDS" by (rule Cons.prems) simp
  finally have few: "length found < DATA_SHARDS"
    unfolding distinct_card [OF probe_version_finds(1) [OF f assms(1)]] by simp
  obtain w k where "try_versions C dir probe_order fetch_order addrs (us @ vs) (p + 1) (set_net w1 V)
      = try_versions C dir probe_order fetch_order addrs vs k (set_net w (set_net w1 V))"
    using Cons.IH [of "p + 1" "set_net w1 V"] Cons.prems by auto
  moreover have "set_net w (set_net w1 V) = set_net w V" by (simp add: set_net_def)
  ultimately show ?case using f few by auto
qed

text \<open>What the backup of a manifest builds.\<close>

lemma build_backup_Ok:
  assumes "build_manifest_backup E vacuum dir M key pid v H = (Ok built, H')"
  shows "\<exists>m blob shards. M = Some m \<and> seal_manifest_snapshot E key pid v (vacuum m) = Ok blob \<and> encode E blob = Ok shards
    \<and> mb_shards built = map (\<lambda>(i, s). envelope E v blob i s) (enumerate 0 shards)"
proof -
  obtain snap blob envs where s: "take_snapshot vacuum M (dir @ [SNAPSHOT_TMP]) H = (Ok snap, H')"
    and b: "seal_manifest_snapshot E key pid v snap = Ok blob" "encode_manifest_backup_shards E v blob = Ok envs" "mb_shards built = envs"
    using assms by (auto simp: build_manifest_backup_def sbind_Ok_iff)
  obtain m where m: "M = Some m" "snap = vacuum m" using take_snapshot_Ok [OF s] by blast
  then show ?thesis using b by (auto simp: encode_manifest_backup_shards_def)
qed

lemma map_err_Ok: "map_err f r = Ok x \<longleftrightarrow> r = Ok x"
  by (cases r) auto

lemma sealed_length:
  assumes "aead_correct E" "seal_manifest_snapshot E key pid v snap = Ok blob"
  shows "length blob = length snap + MB_HEADER + 16"
proof -
  obtain k n where s: "length pid = PEER_ID_LEN" "seal E k (snapshot_plain pid v snap) 0 = Ok (blob, n)" using seal_snapshot_Ok [OF assms(2)] .
  have "length blob = length (snapshot_plain pid v snap) + 16"
    using s(2) assms(1) by (auto simp: seal_def seal_inner_def aead_correct_def Let_def split: if_splits) (metis option.inject)
  then show ?thesis using s(1) by (simp add: snapshot_plain_def MB_HEADER_def)
qed

lemma shard_len_small: "n < 2 ^ 35 \<Longrightarrow> shard_len n < 2 ^ 32"
proof -
  assume n: "n < 2 ^ 35"
  have c: "div_ceil a b \<le> a div b + 1" for a b by (simp add: div_ceil_def)
  have "n div 10 < 2 ^ 32 - 2 ^ 10" using n by simp
  then have "max (div_ceil n 10) 64 < 2 ^ 32 - 2 ^ 10 + 1" using c [of n 10] by simp
  then have "max (div_ceil n 10) 64 div 64 + 1 \<le> 2 ^ 26 - 2 ^ 4 + 1" by simp
  then have "div_ceil (max (div_ceil n 10) 64) 64 \<le> 2 ^ 26 - 2 ^ 4 + 1" using c [of "max (div_ceil n 10) 64" 64] by linarith
  then show ?thesis by (simp add: shard_len_def Let_def DATA_SHARDS_def)
qed

lemma try_versions_restored:
  assumes "probe_version C probe_order addrs v (va_net V) = (found, w1)" "\<not> length found < DATA_SHARDS"
    and "fst (fetch_and_open C fetch_order v found w1) = Ok (Some (snap, used))"
    and "ensure_fresh_node (va_manifest V) = Ok ()" "sane (va_home V)"
  shows "\<exists>out V'. try_versions C dir probe_order fetch_order addrs (v # vs) p V = (Ok out, V') \<and> ro_version out = v
    \<and> file_at (va_home V') (manifest_path dir) = Some snap"
proof -
  obtain w2 where f: "fetch_and_open C fetch_order v found w1 = (Ok (Some (snap, used)), w2)"
    using assms(3) by (cases "fetch_and_open C fetch_order v found w1") simp
  let ?H = "with_files (va_home V) ((disk_files (hm_disk (va_home V)))(dir @ [''manifest.restore.tmp''] := None, manifest_path dir \<mapsto> snap))"
  have "restore_manifest_db dir (va_manifest V) snap (va_home V) = (Ok (), ?H)"
    using assms(4,5) by (simp add: restore_manifest_db_def sbind_def slift_def sane_ops(1) write_atomic_sane)
  moreover have "va_home (emit_event e ((set_net w2 V)\<lparr>va_home := H\<rparr>)) = H" for e H by (simp add: emit_event_def)
  ultimately show ?thesis using assms(1,2) f by (auto split: unit.split)
qed

text \<open>C4. A backup brings the manifest back. The shards that \<open>build_manifest_backup\<close> made are out on the network: every address that may claim a
  shard of this version delivers it, and ten different shards are claimed for sure. Then \<open>restore\<close> on a node without files whose disk
  works returns this version and leaves the snapshot of the lost manifest as \<open>manifest.db\<close>, if of every newer version that it
  tries first fewer than ten shards are claimed.\<close>

theorem restore_recovers:
  assumes E: "E = rc_env C" "aead_correct E" "blake3_len E"
    and built: "build_manifest_backup E vacuum dir' (Some m) (id_data_key (rc_ident C)) (id_peer_id (rc_ident C)) v H = (Ok built, H')"
      "length (vacuum m) < 2 ^ 34"
    and rs: "\<And>blob shards. seal_manifest_snapshot E (id_data_key (rc_ident C)) (id_peer_id (rc_ident C)) v (vacuum m) = Ok blob
        \<Longrightarrow> encode E blob = Ok shards \<Longrightarrow> rs_recovers E DATA_SHARDS PARITY_SHARDS (take DATA_SHARDS shards) (drop DATA_SHARDS shards)"
    and addrs: "addrs = restore_peer_addresses C extra (si_db (va_site V))"
    and deliver: "\<And>i a w. i < TOTAL_SHARDS \<Longrightarrow> a \<in> set addrs \<Longrightarrow> may_claim C v i a
        \<Longrightarrow> \<exists>f. fst (request (rc_net C a) (GetShard (frag_at C v i)) w) = Ok (ShardData f (mb_shards built ! i))"
    and enough: "DATA_SHARDS \<le> card {i. i < TOTAL_SHARDS \<and> (\<exists>a \<in> set addrs. surely_claims C v i a)}"
    and order: "\<And>jobs. set (probe_order jobs) = set jobs" "\<And>jobs. set (fetch_order jobs) = set jobs"
    and tried: "candidates (manifest_backup_version_now (va_clock V)) version days = us @ v # vs"
      "\<And>u. u \<in> set us \<Longrightarrow> card {i. i < TOTAL_SHARDS \<and> (\<exists>a \<in> set addrs. may_claim C u i a)} < DATA_SHARDS"
    and fresh: "ensure_fresh_node (va_manifest V) = Ok ()" "sane (va_home V)"
  shows "\<exists>out V'. restore_backup C dir probe_order fetch_order extra version days V = (Ok out, V') \<and> ro_version out = v
    \<and> file_at (va_home V') (manifest_path dir) = Some (vacuum m)"
proof -
  obtain blob shards where b: "seal_manifest_snapshot E (id_data_key (rc_ident C)) (id_peer_id (rc_ident C)) v (vacuum m) = Ok blob"
    "encode E blob = Ok shards" "mb_shards built = map (\<lambda>(i, s). envelope E v blob i s) (enumerate 0 shards)"
    using build_backup_Ok [OF built(1)] by auto
  note rec = rs [OF b(1,2)]
  have small: "shard_len (length blob) < 2 ^ 32"
    by (rule shard_len_small) (use sealed_length [OF E(2) b(1)] built(2) in \<open>simp add: MB_HEADER_def PEER_ID_LEN_def\<close>)
  have nth: "mb_shards built ! i = envelope E v blob i (shards ! i)" if "i < TOTAL_SHARDS" for i
    using encoded_lengths(1) [OF b(2) rec that] that by (simp add: b(3) nth_enumerate_eq)
  obtain w k where skip: "try_versions C dir probe_order fetch_order addrs (us @ v # vs) 0 V = try_versions C dir probe_order fetch_order addrs (v # vs) k (set_net w V)"
    using try_versions_skips [OF order(1) tried(2)] by blast
  obtain found w1 where p: "probe_version C probe_order addrs v w = (found, w1)" by (rule prod.exhaust)
  have two: "length (vacuum m) < 2 ^ 62" using built(2) by simp
  have deliver': "\<exists>f. fst (request (rc_net C a) (GetShard (frag_at C v i)) w) = Ok (ShardData f (envelope E v blob i (shards ! i)))"
    if "i < TOTAL_SHARDS" "a \<in> set addrs" "may_claim C v i a" for i a w
    using deliver [OF that] nth [OF that(1)] by simp
  note found = version_restores [OF E(2,3,1) b(1) two b(2) rec small deliver' p order enough]
  then obtain used where used: "fst (fetch_and_open C fetch_order v found w1) = Ok (Some (vacuum m, used))" by blast
  have keep: "va_net (set_net w V) = w" "va_manifest (set_net w V) = va_manifest V" "va_home (set_net w V) = va_home V"
    by (simp_all add: set_net_def va_net_def va_manifest_def)
  have "addrs \<noteq> []" using enough by (auto simp: DATA_SHARDS_def)
  then have "restore_backup C dir probe_order fetch_order extra version days V = try_versions C dir probe_order fetch_order addrs (v # vs) k (set_net w V)"
    using fresh(1) tried(1) skip by (simp add: restore_backup_def addrs [symmetric] Let_def del: try_versions.simps)
  then show ?thesis
    using try_versions_restored [of C probe_order addrs v "set_net w V" found w1, OF _ found(1) used] p fresh keep by (simp del: try_versions.simps)
qed

section \<open>A peer that claims everything\<close>

lemma probe_each_append:
  "probe_each C v (xs @ ys) host w = (case probe_each C v xs host w of (host', w') \<Rightarrow> probe_each C v ys host' w')"
  by (induction xs arbitrary: host w) (auto split: prod.splits)

lemma probe_each_full:
  assumes "\<And>i a. (i, a) \<in> set jobs \<Longrightarrow> host ! i \<noteq> None"
  shows "fst (probe_each C v jobs host w) = host"
  using assms
proof (induction jobs arbitrary: w)
  case (Cons j jobs)
  obtain i a where j: "j = (i, a)" by (cases j)
  have "host ! i \<noteq> None" using Cons.prems [of i a] j by simp
  moreover have "fst (probe_each C v jobs host w1) = host" for w1 by (rule Cons.IH) (meson Cons.prems list.set_intros(2))
  ultimately show ?case by (auto simp: j split: prod.splits)
qed simp

lemma probe_liar:
  assumes "\<And>i. i < TOTAL_SHARDS \<Longrightarrow> surely_claims C v i liar" "liar \<in> set addrs"
    and "\<And>jobs. \<exists>rest. probe_order jobs = filter (\<lambda>(i, a). a = liar) jobs @ rest \<and> set rest \<subseteq> set jobs"
    and "probe_version C probe_order addrs v w = (found, w')"
  shows "(i, a) \<in> set found \<Longrightarrow> a = liar"
proof -
  let ?jobs = "concat (map (\<lambda>i. map (Pair i) addrs) [0..<TOTAL_SHARDS])" and ?none = "replicate TOTAL_SHARDS (None :: string option)"
  let ?mine = "filter (\<lambda>(i, a). a = liar) ?jobs"
  obtain rest where r: "probe_order ?jobs = ?mine @ rest" "set rest \<subseteq> set ?jobs" using assms(3) [of ?jobs] by blast
  obtain host w1 where p: "probe_each C v ?mine ?none w = (host, w1)" by (rule prod.exhaust)
  have h: "length host = TOTAL_SHARDS
    \<and> (\<forall>i a. i < TOTAL_SHARDS \<longrightarrow> host ! i = Some a \<longrightarrow> ?none ! i = Some a \<or> (i, a) \<in> set ?mine \<and> may_claim C v i a)
    \<and> (\<forall>i a. i < TOTAL_SHARDS \<longrightarrow> ?none ! i \<noteq> None \<or> (i, a) \<in> set ?mine \<and> surely_claims C v i a \<longrightarrow> host ! i \<noteq> None)"
    by (rule probe_each_hosts [OF p]) auto
  have full: "host ! i \<noteq> None" if "i < TOTAL_SHARDS" for i
    using h assms(1) [OF that] assms(2) that by fastforce
  have "fst (probe_each C v rest host w1) = host" by (rule probe_each_full) (use r(2) full in auto)
  then have f: "found = List.map_filter (\<lambda>(i, a). map_option (Pair i) a) (enumerate 0 host)"
    using assms(4) r(1) p by (auto simp: probe_version_def probe_each_append split: prod.splits)
  show "a = liar" if "(i, a) \<in> set found" using that h unfolding f filled_slots by auto
qed

lemma fetch_envelopes_none:
  assumes "\<And>i a. (i, a) \<in> set jobs \<Longrightarrow> a = liar"
    and "\<And>f w fr b. fst (request (rc_net C liar) (GetShard f) w) = Ok (ShardData fr b) \<Longrightarrow> \<not> is_ok (decode_manifest_backup_shard b)"
  shows "fst (fetch_envelopes C v jobs w) = []"
  using assms(1)
proof (induction jobs arbitrary: w)
  case (Cons j jobs)
  obtain i where j: "j = (i, liar)" using Cons.prems by (cases j) auto
  obtain r w1 where r: "request (rc_net C liar) (GetShard (frag_at C v i)) w = (r, w1)" by (rule prod.exhaust)
  have "\<not> is_ok (decode_manifest_backup_shard b)" if "r = Ok (ShardData fr b)" for fr b using assms(2) r that by (metis fst_conv)
  moreover have "fst (fetch_envelopes C v jobs w1) = []" by (rule Cons.IH) (meson Cons.prems list.set_intros(2))
  ultimately show ?case using r by (auto simp: j split: prod.splits result.splits p2p_message.splits)
qed simp

lemma try_versions_blocked:
  assumes "\<And>v i. i < TOTAL_SHARDS \<Longrightarrow> surely_claims C v i liar" "liar \<in> set addrs"
    and "\<And>jobs. \<exists>rest. probe_order jobs = filter (\<lambda>(i, a). a = liar) jobs @ rest \<and> set rest \<subseteq> set jobs" "\<And>jobs. set (fetch_order jobs) \<subseteq> set jobs"
    and "\<And>f w fr b. fst (request (rc_net C liar) (GetShard f) w) = Ok (ShardData fr b) \<Longrightarrow> \<not> is_ok (decode_manifest_backup_shard b)"
  shows "\<exists>e V'. try_versions C dir probe_order fetch_order addrs vs p V = (Err e, V') \<and> va_home V' = va_home V"
proof (induction vs arbitrary: p V)
  case (Cons v vs)
  obtain found w1 where f: "probe_version C probe_order addrs v (va_net V) = (found, w1)" by (rule prod.exhaust)
  have "a = liar" if "(i, a) \<in> set (fetch_order found)" for i a
    using probe_liar [OF assms(1-3) f] that assms(4) by blast
  then have "fst (fetch_envelopes C v (fetch_order found) w1) = []" by (rule fetch_envelopes_none [OF _ assms(5)])
  then obtain w2 where "fetch_envelopes C v (fetch_order found) w1 = ([], w2)" by (metis prod.collapse)
  then have "fetch_and_open C fetch_order v found w1 = (Ok None, w2)" by (simp add: fetch_and_open_def DATA_SHARDS_def)
  moreover have "va_home (set_net w V) = va_home V" for w by (simp add: set_net_def)
  ultimately show ?case using f Cons.IH [of "p + 1" "set_net w1 V"] Cons.IH [of "p + 1" "set_net w2 V"] by (simp only: try_versions.simps) auto
qed simp

text \<open>C39. One peer can block the recovery. Among the answers to the question who holds a shard, the first yes wins. A peer that is asked, always
  says yes, always answers first and delivers nothing that decodes makes \<open>restore\<close> fail for every version, and leaves the
  disk as it was, whatever the other peers hold.\<close>

theorem restore_blocked:
  assumes "\<And>v i. i < TOTAL_SHARDS \<Longrightarrow> surely_claims C v i liar"
    and "\<And>f w fr b. fst (request (rc_net C liar) (GetShard f) w) = Ok (ShardData fr b) \<Longrightarrow> \<not> is_ok (decode_manifest_backup_shard b)"
    and "liar \<in> set (restore_peer_addresses C extra (si_db (va_site V)))"
    and "\<And>jobs. \<exists>rest. probe_order jobs = filter (\<lambda>(i, a). a = liar) jobs @ rest \<and> set rest \<subseteq> set jobs"
    and "\<And>jobs. set (fetch_order jobs) \<subseteq> set jobs"
  shows "\<exists>e V'. restore_backup C dir probe_order fetch_order extra version days V = (Err e, V') \<and> va_home V' = va_home V"
proof -
  have "restore_peer_addresses C extra (si_db (va_site V)) \<noteq> []" using assms(3) by auto
  then show ?thesis
    using try_versions_blocked [OF assms(1,3,4,5,2)]
    by (cases "ensure_fresh_node (va_manifest V)") (simp_all add: restore_backup_def Let_def ensure_fresh_node_def split: if_splits option.splits)
qed

section \<open>Examples\<close>

text \<open>A node that lost everything, and a network in which every address has every shard of the backup of day 5. The sealed snapshot is
  640 equal bytes, so that the erasure code of the examples can recover it; the hash is the end of its input.\<close>

definition lost_snap :: bytes where "lost_snap = replicate 567 1"

definition lost_id :: node_identity where
  "lost_id = \<lparr>id_data_key = replicate 32 1, id_manifest_key_hex = [], id_peer_id = replicate 32 CHR ''a''\<rparr>"

definition lost_plain :: bytes where "lost_plain = snapshot_plain (id_peer_id lost_id) 5 lost_snap"

definition vault_env :: "int env" where
  "vault_env = demo_env
     \<lparr>aead_seal := (\<lambda>k n a p. Some (if p = lost_plain then demo_blob else p @ replicate 16 9)),
      aead_open := (\<lambda>k n a c. if c = demo_blob then Some lost_plain
                              else if 16 \<le> length c \<and> drop (length c - 16) c = replicate 16 9 then Some (take (length c - 16) c) else None),
      blake3 := (\<lambda>bs. take 32 (drop (length bs - 4) bs @ replicate 32 0))\<rparr>"

lemma vault_laws: "aead_correct vault_env" "blake3_len vault_env"
proof -
  have n: "p @ replicate 16 9 \<noteq> demo_blob" for p :: bytes
  proof
    assume "p @ replicate 16 9 = demo_blob"
    then have "last (p @ replicate 16 9) = last demo_blob" by simp
    then show False by (simp add: demo_blob_def)
  qed
  have "length demo_blob = length lost_plain + 16"
    by (simp add: demo_blob_def lost_plain_def snapshot_plain_def lost_snap_def lost_id_def)
  then show "aead_correct vault_env" using n by (simp add: aead_correct_def vault_env_def)
  show "blake3_len vault_env" by (simp add: blake3_len_def vault_env_def)
qed

definition slot :: "string \<Rightarrow> nat" where
  "slot f = (case demo_hex_decode f of Some bs \<Rightarrow> unat (bs ! 3) | None \<Rightarrow> 0)"

definition holders :: "string \<Rightarrow> unit link" where
  "holders a = \<lparr>ln_connect = (\<lambda>w. (Ok (), w)),
     ln_exchange = (\<lambda>m w. (case m of
          HasShard f \<Rightarrow> Ok (HasShardResult f True)
        | GetShard f \<Rightarrow> Ok (ShardData f (envelope vault_env 5 demo_blob (slot f) (replicate 64 7)))
        | _ \<Rightarrow> Ok (Ack []), w))\<rparr>"

definition lost_ctx :: "(string \<Rightarrow> 'w link) \<Rightarrow> (int, 'w) repair_ctx" where
  "lost_ctx net = (quiet_ctx net)\<lparr>rc_env := vault_env, rc_ident := lost_id\<rparr>"

definition lost_vault :: "'w \<Rightarrow> (int, 'w) vault" where
  "lost_vault w = \<lparr>va_site = hurt_site w, va_home = demo_home Map.empty, va_opens = True, va_events = [], va_up = (\<lambda>_. True), va_clock = 0\<rparr>"

lemma lost_ctx_simps [simp]:
  "rc_env (lost_ctx net) = vault_env" "rc_net (lost_ctx net) = net" "rc_ident (lost_ctx net) = lost_id"
  by (simp_all add: lost_ctx_def quiet_ctx_def)

lemma lost_addrs: "set (restore_peer_addresses (lost_ctx net) [] (si_db (va_site (lost_vault w)))) = {''a:1'', ''b:1''}"
proof -
  have "id_peer_id lost_id \<noteq> ''ann''" "id_peer_id lost_id \<noteq> ''bob''" by (auto simp: lost_id_def dest: arg_cong [of _ _ length])
  then show ?thesis
    by (auto simp: restore_peer_addresses_def other_peers_def lost_vault_def hurt_site_def RepairLaws.demo_peers_def)
qed

lemma lost_fresh: "ensure_fresh_node (va_manifest (lost_vault w)) = Ok ()" "sane (va_home (lost_vault w))"
  by (simp_all add: ensure_fresh_node_def va_manifest_def lost_vault_def hurt_site_def sane_demo_home list_all_files_def empty_manifest_def)

lemma slot_frag: "i < TOTAL_SHARDS \<Longrightarrow> slot (frag_at (lost_ctx net) 5 i) = i"
proof -
  assume i: "i < TOTAL_SHARDS"
  let ?b = "u32_be (word_of_nat i)"
  have four: "length ?b = 4" by simp
  have "frag_at (lost_ctx net) 5 i = demo_hex_encode (take 16 (take 32 (?b @ replicate 32 0)))"
    by (simp add: manifest_backup_fragment_id_def vault_env_def demo_env_def backup_id_input_def four)
  then have "slot (frag_at (lost_ctx net) 5 i) = unat (take 16 (take 32 (?b @ replicate 32 0)) ! 3)"
    by (simp only: slot_def demo_hex_inverse option.case)
  also have "\<dots> = unat (?b ! 3)" by (simp add: nth_append four)
  also have "?b ! 3 = word_of_nat i"
  proof -
    have "be_bytes (Suc 3) n ! 3 = word_of_nat n" for n unfolding be_bytes.simps(2) by (simp add: nth_append)
    moreover have "unat (word_of_nat i :: u32) = i" using i by (simp add: total_14 unat_of_nat)
    ultimately show ?thesis by simp
  qed
  also have "unat (word_of_nat i :: byte) = i" using i by (simp add: total_14 unat_of_nat)
  finally show ?thesis .
qed

lemma vault_encode: "encode vault_env = encode demo_env" "rs_recovers vault_env = rs_recovers demo_env"
  by (simp_all add: fun_eq_iff encode_def rs_recovers_def vault_env_def)

lemma lost_seal: "seal_manifest_snapshot vault_env (id_data_key lost_id) (id_peer_id lost_id) 5 lost_snap = Ok demo_blob"
proof -
  have "length (id_peer_id lost_id) = PEER_ID_LEN" by (simp add: lost_id_def PEER_ID_LEN_def)
  then show ?thesis
  by (simp add: seal_manifest_snapshot_def manifest_backup_sealer_def derive_v2_def hkdf_fill_def file_subkey_def derive_raw_def
      subkey_sealer_def seal_def seal_inner_def vault_env_def demo_env_def KEY_LEN_def MAX_CHUNK_INDEX_def Let_def lost_plain_def)
qed

lemma lost_build:
  "\<exists>built H'. build_manifest_backup vault_env (\<lambda>_. lost_snap) [''d''] (Some empty_manifest) (id_data_key lost_id) (id_peer_id lost_id) 5 (demo_home Map.empty) = (Ok built, H')"
proof -
  have "file_at (demo_home f) p = f p" for f p by (simp add: demo_home_def)
  moreover have "with_files (demo_home f) f' = demo_home f'" for f f' by (simp add: demo_home_def)
  ultimately show ?thesis
    by (simp add: build_manifest_backup_def take_snapshot_def snapshot_to_def sbind_def sane_ops sane_demo_home slift_def lost_seal
        encode_manifest_backup_shards_def vault_encode demo_backup)
qed

theorem restore_recovers_witness:
  "\<exists>out V'. restore_backup (lost_ctx holders) [''e''] (\<lambda>x. x) (\<lambda>x. x) [] (Some 5) None (lost_vault ()) = (Ok out, V') \<and> ro_version out = 5
    \<and> file_at (va_home V') (manifest_path [''e'']) = Some lost_snap"
proof -
  obtain built H' where b: "build_manifest_backup vault_env (\<lambda>_. lost_snap) [''d''] (Some empty_manifest)
      (id_data_key (rc_ident (lost_ctx holders))) (id_peer_id (rc_ident (lost_ctx holders))) 5 (demo_home Map.empty) = (Ok built, H')"
    using lost_build by auto
  have env: "mb_shards built ! i = envelope vault_env 5 demo_blob i (replicate 64 7)" if "i < TOTAL_SHARDS" for i
    using build_backup_Ok [OF b] that by (auto simp: lost_seal vault_encode demo_backup nth_enumerate_eq)
  have claims: "surely_claims (lost_ctx holders) 5 i a" for i a
    by (simp add: surely_claims_def has_shard_def request_def sbind_def holders_def slift_def)
  let ?addrs = "restore_peer_addresses (lost_ctx holders) [] (si_db (va_site (lost_vault ())))"
  have all: "{i. i < TOTAL_SHARDS \<and> (\<exists>a \<in> set ?addrs. surely_claims (lost_ctx holders) 5 i a)} = {..<TOTAL_SHARDS}"
    using claims lost_addrs [of holders "()"] by auto
  show ?thesis
  proof (rule restore_recovers [OF _ vault_laws b _ _ refl, where us = "[]" and vs = "[]"])
    fix i a w assume "i < TOTAL_SHARDS"
    then show "\<exists>f. fst (request (rc_net (lost_ctx holders) a) (GetShard (frag_at (lost_ctx holders) 5 i)) w) = Ok (ShardData f (mb_shards built ! i))"
      using slot_frag [of i holders] env by (simp add: request_def sbind_def holders_def)
  next
    show "DATA_SHARDS \<le> card {i. i < TOTAL_SHARDS \<and> (\<exists>a \<in> set ?addrs. surely_claims (lost_ctx holders) 5 i a)}"
      unfolding all by (simp add: TOTAL_SHARDS_def)
  next
    fix blob shards
    assume "seal_manifest_snapshot vault_env (id_data_key (rc_ident (lost_ctx holders))) (id_peer_id (rc_ident (lost_ctx holders))) 5 lost_snap = Ok blob"
      "encode vault_env blob = Ok shards"
    then show "rs_recovers vault_env DATA_SHARDS PARITY_SHARDS (take DATA_SHARDS shards) (drop DATA_SHARDS shards)"
      using demo_backup by (simp add: lost_seal vault_encode)
  qed (simp_all add: lost_fresh candidates_def lost_snap_def)
qed

text \<open>A first backup, on day 0, deletes nothing.\<close>

theorem backup_prunes_last_witness:
  "list_all (\<lambda>(a, m, r). \<not> is_DeleteShard m)
     (snd (va_net (snd (run_backup (lost_ctx (spy ack_network)) (\<lambda>_. lost_snap) [''d''] (\<lambda>x. x) (\<lambda>x. x) (lost_vault ((), []))))))"
proof -
  let ?C = "lost_ctx (spy ack_network) :: (int, unit \<times> sent list) repair_ctx" and ?V = "lost_vault ((), [] :: sent list)"
  obtain rep V' where r: "run_backup ?C (\<lambda>_. lost_snap) [''d''] (\<lambda>x. x) (\<lambda>x. x) ?V = (rep, V')" by (rule prod.exhaust)
  have "rc_net ?C = spy ack_network" by simp
  from backup_prunes_last [OF this subset_refl r refl] obtain ms ds where
    e: "snd (va_net V') = snd (va_net ?V) @ ms @ ds" "keeps_all ms" "drops_old ?C (manifest_backup_version_now (va_clock ?V)) ds" by blast
  have "va_clock ?V = 0" "snd (va_net ?V) = []" by (simp_all add: lost_vault_def va_net_def hurt_site_def)
  moreover have "keeps_all ds"
    using e(3) unfolding drops_old_def keeps_all_def calculation(1) by (auto simp: manifest_backup_version_now_def KEEP_VERSIONS_def elim!: list.pred_mono_strong)
  ultimately show ?thesis using r e(1,2) by (simp add: keeps_all_def)
qed

text \<open>The peer at \<open>a:1\<close> says yes to every question and sends empty shards; \<open>b:1\<close> has everything.\<close>

definition liar_net :: "string \<Rightarrow> unit link" where
  "liar_net a = (if a = ''a:1'' then (holders a)\<lparr>ln_exchange := (\<lambda>m w. (case m of
          HasShard f \<Rightarrow> Ok (HasShardResult f True)
        | GetShard f \<Rightarrow> Ok (ShardData f [])
        | _ \<Rightarrow> Ok (Ack []), w))\<rparr> else holders a)"

theorem restore_blocked_witness:
  "\<exists>e V'. restore_backup (lost_ctx liar_net) [''e''] (\<lambda>js. filter (\<lambda>(i, a). a = ''a:1'') js @ filter (\<lambda>(i, a). a \<noteq> ''a:1'') js)
     (\<lambda>x. x) [] None None (lost_vault ()) = (Err e, V') \<and> va_home V' = va_home (lost_vault ())"
proof (rule restore_blocked [where liar = "''a:1''"])
  show "surely_claims (lost_ctx liar_net) v i ''a:1''" for v i
    by (simp add: surely_claims_def has_shard_def request_def sbind_def liar_net_def holders_def slift_def)
  show "''a:1'' \<in> set (restore_peer_addresses (lost_ctx liar_net) [] (si_db (va_site (lost_vault ()))))"
    unfolding lost_addrs by simp
  show "\<not> is_ok (decode_manifest_backup_shard b)" if "fst (request (rc_net (lost_ctx liar_net) ''a:1'') (GetShard f) w) = Ok (ShardData fr b)" for f w fr b
    using that by (simp add: request_def sbind_def liar_net_def holders_def decode_manifest_backup_shard_def MS_HEADER_def)
  show "\<exists>rest. filter (\<lambda>(i, a). a = ''a:1'') js @ filter (\<lambda>(i, a). a \<noteq> ''a:1'') js = filter (\<lambda>(i, a). a = ''a:1'') js @ rest \<and> set rest \<subseteq> set js"
    for js :: "(nat \<times> string) list" by auto
qed simp

end
