(* ===== verification/Accounts.thy ===== *)
theory Accounts
  imports Distribute Jobs Quotas Repack ManifestBackup
begin

text \<open>
  The handlers of \<open>server/src/handlers/files.rs\<close> that change what a user stores, with the accounts they keep: \<open>upload\<close>, the trash, permanent
  deletion, the retention sweep, packing and compaction. They join the service of a node, the peers, the queue of jobs and the two
  counters of the database: the bytes a user is charged for and the bytes the node stores.

  \<open>at_up\<close> says which statements on the counters the database answers; a sum it cannot represent is an error of the statement. A
  blocking task that panics is answered like one that failed, as in the code. What is outside is gathered in a context (\<open>handler_ctx\<close>):
  the settings of the instance, the arguments of a download and of the distribution, the parser of user ids. Random ids and times
  are arguments. Answers are the values they are built from.
\<close>

section \<open>State\<close>

datatype account_call = ReserveQuota | SelectReserved | AdjustUser | AddNode | CreditUser | CreditNode | AdjustNode | InsertLog

datatype account_event = TrashPurged nat int int | Repacked nat nat int | PacksCompacted nat int

record ('f, 'w) account =
  at_site :: "('f, 'w) site"
  at_quota :: quota_db
  at_jobs :: job_db
  at_log :: "account_event list"
  at_up :: "account_call \<Rightarrow> bool"

record ('f, 'w) handler_ctx =
  hc_ctx :: "('f, 'w) repair_ctx"
  hc_send_order :: "(string \<times> nat \<times> int) list \<Rightarrow> (string \<times> nat \<times> int) list"
  hc_recorded :: "string \<Rightarrow> bool"
  hc_maps :: "string \<Rightarrow> (bool \<times> (bool \<times> string option) option) option"
  hc_instance_allow :: "string list"
  hc_geoip_allow :: "string list"
  hc_parse_ip :: "string \<Rightarrow> ip_addr option"
  hc_parse_sock :: "string \<Rightarrow> sock_addr option"
  hc_read_order :: "shard_row list \<Rightarrow> shard_row list"
  hc_done_at :: "nat \<Rightarrow> nat"
  hc_max_upload_bytes :: int
  hc_default_quota :: int
  hc_parse_uuid :: "string \<Rightarrow> string option"

type_synonym ('f, 'w, 'a) account_op = "(('f, 'w) account, 'a, api_error) op"

abbreviation at_node :: "('f, 'w) account \<Rightarrow> node" where
  "at_node A \<equiv> si_node (at_site A)"

abbreviation at_manifest :: "('f, 'w) account \<Rightarrow> manifest" where
  "at_manifest A \<equiv> nd_manifest (at_node A)"

definition set_node :: "node \<Rightarrow> ('f, 'w) account \<Rightarrow> ('f, 'w) account" where
  "set_node N A = A\<lparr>at_site := (at_site A)\<lparr>si_node := N\<rparr>\<rparr>"

definition join_err :: api_error where
  "join_err = BadRequest ''internal task error''"

text \<open>A blocking call on the node, and one on the manifest alone.\<close>

definition blocking :: "'a node_op \<Rightarrow> ('f, 'w, 'a) account_op" where
  "blocking m A =
     (case m (at_node A) of
        (Ok x, N) \<Rightarrow> (Ok x, set_node N A)
      | (Err e, N) \<Rightarrow> (Err (Store e), set_node N A)
      | (Panic, N) \<Rightarrow> (Err join_err, set_node N A))"

section \<open>The counters\<close>

definition on_quota :: "'a quota_op \<Rightarrow> ('f, 'w, 'a) account_op" where
  "on_quota m A = (case m (at_quota A) of (r, Q) \<Rightarrow> (r, A\<lparr>at_quota := Q\<rparr>))"

definition set_used :: "string \<Rightarrow> (int \<Rightarrow> int) \<Rightarrow> quota_db \<Rightarrow> quota_db" where
  "set_used user f Q =
     Q\<lparr>qd_users := map (\<lambda>(u, r). (u, if u = user then r\<lparr>uq_used_bytes := f (uq_used_bytes r)\<rparr> else r)) (qd_users Q)\<rparr>"

text \<open>The guarded \<open>UPDATE\<close>: the number of rows it changed.\<close>

definition reserve :: "string \<Rightarrow> int \<Rightarrow> ('f, 'w, nat) account_op" where
  "reserve user n A =
     (if \<not> at_up A ReserveQuota then (Err Db, A)
      else
        case map_of (qd_users (at_quota A)) user of
          None \<Rightarrow> (Ok 0, A)
        | Some r \<Rightarrow>
            if \<not> is_i64 (uq_used_bytes r + n) then (Err Db, A)
            else if uq_used_bytes r + n \<le> uq_quota_bytes r
            then (Ok 1, A\<lparr>at_quota := set_used user (\<lambda>used. used + n) (at_quota A)\<rparr>)
            else (Ok 0, A))"

definition select_used :: "string \<Rightarrow> ('f, 'w, int option) account_op" where
  "select_used user A =
     (if at_up A SelectReserved then (Ok (map_option uq_used_bytes (map_of (qd_users (at_quota A)) user)), A) else (Err Db, A))"

text \<open>\<open>GREATEST(used_bytes + delta, 0)\<close> for a user, and for the node.\<close>

definition move_user :: "account_call \<Rightarrow> string \<Rightarrow> int \<Rightarrow> ('f, 'w, unit) account_op" where
  "move_user c user delta A =
     (if at_up A c \<and> list_all (\<lambda>(u, r). u = user \<longrightarrow> is_i64 (uq_used_bytes r + delta)) (qd_users (at_quota A))
      then (Ok (), A\<lparr>at_quota := set_used user (\<lambda>used. max (used + delta) 0) (at_quota A)\<rparr>)
      else (Err Db, A))"

definition move_node :: "account_call \<Rightarrow> int \<Rightarrow> ('f, 'w, unit) account_op" where
  "move_node c delta A =
     (if at_up A c \<and> is_i64 (qd_used_bytes (at_quota A) + delta)
      then (Ok (), A\<lparr>at_quota := (at_quota A)\<lparr>qd_used_bytes := max (qd_used_bytes (at_quota A) + delta) 0\<rparr>\<rparr>)
      else (Err Db, A))"

definition adjust_user_used :: "string \<Rightarrow> int \<Rightarrow> ('f, 'w) account \<Rightarrow> ('f, 'w) account" where
  "adjust_user_used user delta A = (if delta = 0 then A else snd (move_user AdjustUser user delta A))"

definition adjust_node_stored :: "int \<Rightarrow> ('f, 'w) account \<Rightarrow> ('f, 'w) account" where
  "adjust_node_stored delta A = (if delta = 0 then A else snd (move_node AdjustNode delta A))"

definition credit_freed_space :: "string \<Rightarrow> int \<Rightarrow> int \<Rightarrow> ('f, 'w, unit) account_op" where
  "credit_freed_space user sz stored =
     sbind (move_user CreditUser user (- sz)) (\<lambda>_. move_node CreditNode (- stored))"

definition enqueue_remote_gc :: "remote_shard list \<Rightarrow> ('f, 'w) account \<Rightarrow> ('f, 'w) account" where
  "enqueue_remote_gc remote A =
     (if remote = [] then A else A\<lparr>at_jobs := enqueue ''gc_remote'' (GcShards remote 0) (at_jobs A)\<rparr>)"

definition insert_log :: "account_event \<Rightarrow> ('f, 'w) account \<Rightarrow> ('f, 'w) account" where
  "insert_log e A = (if at_up A InsertLog then A\<lparr>at_log := at_log A @ [e]\<rparr> else A)"

definition spread_file :: "('f, 'w) handler_ctx \<Rightarrow> string \<Rightarrow> string \<Rightarrow> ('f, 'w) account \<Rightarrow> ('f, 'w) account" where
  "spread_file X user file_id A =
     A\<lparr>at_site := distribute_shards (hc_ctx X) (hc_send_order X) (hc_recorded X) (hc_maps X) (hc_instance_allow X) (hc_geoip_allow X)
                    (hc_parse_ip X) (hc_parse_sock X) user file_id (at_site A)\<rparr>"

section \<open>Uploads\<close>

definition store_upload :: "('f, 'w) handler_ctx \<Rightarrow> bytes \<Rightarrow> string \<Rightarrow> string \<Rightarrow> string \<Rightarrow> bytes \<Rightarrow> ('f, 'w, push_result) account_op" where
  "store_upload X rnd now user path body A =
     (let n = int (length body)
      in case blocking (push (rc_env (hc_ctx X)) (rc_ident (hc_ctx X)) (rc_root (hc_ctx X)) rnd now user path body) A of
           (Ok res, A1) \<Rightarrow>
             if pr_unchanged res then (Ok res, adjust_user_used user (- n) A1)
             else
               let A2 = adjust_user_used user (pr_size res - n) A1;
                   A3 = snd (move_node AddNode (pr_stored_bytes res) A2)
               in (Ok res, spread_file X user (pr_file_id res) A3)
         | (Err e, A1) \<Rightarrow> (Err e, adjust_user_used user (- n) A1)
         | (Panic, A1) \<Rightarrow> (Panic, A1))"

definition upload :: "('f, 'w) handler_ctx \<Rightarrow> bytes \<Rightarrow> string \<Rightarrow> string \<Rightarrow> string \<Rightarrow> bytes \<Rightarrow> ('f, 'w, push_result) account_op" where
  "upload X rnd now user q_path body =
     (let path = trim q_path; n = int (length body)
      in if path = [] then slift (Err (BadRequest ''query parameter `path` is required''))
         else if n > hc_max_upload_bytes X then slift (Err (BadRequest ''file too large''))
         else
           sbind (on_quota (ensure (hc_default_quota X) user)) (\<lambda>(quota, used).
           sbind (reserve user n) (\<lambda>charged.
           sbind (if charged \<ge> 1 then select_used user else sreturn None) (\<lambda>reserved.
             case reserved of
               None \<Rightarrow> slift (Err (BadRequest ''quota exceeded''))
             | Some _ \<Rightarrow> store_upload X rnd now user path body))))"

section \<open>Browsing and folders\<close>

definition on_manifest :: "'a db_op \<Rightarrow> ('f, 'w, 'a) account_op" where
  "on_manifest m = blocking (on_db m)"

definition list_handler :: "string \<Rightarrow> ('f, 'w, file_row list) account_op" where
  "list_handler user = on_manifest (query (\<lambda>M. service_list M user))"

text \<open>Names and paths of the folders, names and rows of the files.\<close>

definition browse_handler :: "string \<Rightarrow> string option \<Rightarrow> ('f, 'w, (string \<times> string) list \<times> (string \<times> file_row) list) account_op" where
  "browse_handler user path =
     sbind (on_manifest (query (\<lambda>M. browse M user (coalesce path [])))) (\<lambda>listing.
       sreturn (map (\<lambda>p. (basename p, p)) (dl_folders listing), map (\<lambda>f. (basename (f_path f), f)) (dl_files listing)))"

definition mkdir_handler :: "string \<Rightarrow> string \<Rightarrow> ('f, 'w, string) account_op" where
  "mkdir_handler user path = sbind (on_manifest (mkdir user path)) (\<lambda>_. sreturn path)"

definition rename_handler :: "string \<Rightarrow> string \<Rightarrow> string \<Rightarrow> ('f, 'w, string \<times> string) account_op" where
  "rename_handler user from_path to_path = sbind (on_manifest (rename user from_path to_path)) (\<lambda>_. sreturn (from_path, to_path))"

section \<open>Trash, versions and permanent deletion\<close>

definition TRASH_COUNTS_AGAINST_QUOTA :: bool where "TRASH_COUNTS_AGAINST_QUOTA = True"

definition delete_path :: "string \<Rightarrow> string \<Rightarrow> string \<Rightarrow> ('f, 'w, trash_summary) account_op" where
  "delete_path now user path = on_manifest (trash_path now user path)"

definition delete_handler :: "string \<Rightarrow> string \<Rightarrow> string \<Rightarrow> ('f, 'w, file_row) account_op" where
  "delete_handler now user file_id = on_manifest (trash now user file_id)"

definition trash_list :: "string \<Rightarrow> ('f, 'w, file_row list \<times> int \<times> bool \<times> int) account_op" where
  "trash_list user =
     sbind (on_manifest (query (\<lambda>M. list_trash M user))) (\<lambda>files.
       sreturn (files, foldl (\<lambda>a f. i64 (a + f_size f)) 0 files, TRASH_COUNTS_AGAINST_QUOTA, rp_trash_days RetentionPolicy_default))"

definition versions :: "string \<Rightarrow> string \<Rightarrow> ('f, 'w, file_row list \<times> int \<times> int) account_op" where
  "versions user file_id =
     sbind (on_manifest (\<lambda>M. (list_versions M user file_id, M))) (\<lambda>vs.
       sreturn (vs, rp_keep_versions RetentionPolicy_default, rp_version_days RetentionPolicy_default))"

definition restore_handler :: "string \<Rightarrow> string \<Rightarrow> string \<Rightarrow> string option \<Rightarrow> ('f, 'w, file_row) account_op" where
  "restore_handler now user file_id path = on_manifest (service_restore now user file_id path)"

definition purge :: "('f, 'w) handler_ctx \<Rightarrow> string \<Rightarrow> string \<Rightarrow> ('f, 'w, file_row) account_op" where
  "purge X user file_id =
     sbind (blocking (purge_file (rc_root (hc_ctx X)) user file_id)) (\<lambda>(row, remote).
     sbind (credit_freed_space user (f_size row) (f_stored_bytes row)) (\<lambda>_ A.
       (Ok row, enqueue_remote_gc remote A)))"

definition empty_trash_handler :: "('f, 'w) handler_ctx \<Rightarrow> string \<Rightarrow> ('f, 'w, trash_summary) account_op" where
  "empty_trash_handler X user =
     sbind (blocking (empty_trash (rc_root (hc_ctx X)) user)) (\<lambda>(summary, remote).
     sbind (credit_freed_space user (ts_size summary) (ts_stored_bytes summary)) (\<lambda>_ A.
       (Ok summary, enqueue_remote_gc remote A)))"

text \<open>Each account gets its bytes back; the two sums are \<open>i64\<close>.\<close>

fun credit_each :: "('f, 'w) handler_ctx \<Rightarrow> (string \<times> int \<times> int) list \<Rightarrow> int \<Rightarrow> int \<Rightarrow> ('f, 'w) account \<Rightarrow> int \<times> int \<times> ('f, 'w) account" where
  "credit_each X [] freed_size freed_stored A = (freed_size, freed_stored, A)"
| "credit_each X ((user_id, sz, stored) # fs) freed_size freed_stored A =
     credit_each X fs (i64 (freed_size + sz)) (i64 (freed_stored + stored))
       (case hc_parse_uuid X user_id of
          None \<Rightarrow> A
        | Some uid \<Rightarrow> snd (move_user CreditUser uid (- sz) A))"

definition purge_retired_now :: "('f, 'w) handler_ctx \<Rightarrow> (int \<Rightarrow> string) \<Rightarrow> ('f, 'w) account \<Rightarrow> (nat \<times> int) \<times> ('f, 'w) account" where
  "purge_retired_now X days_ago A =
     (case blocking (purge_retired (rc_root (hc_ctx X)) days_ago RetentionPolicy_default) A of
        (Ok report, A1) \<Rightarrow>
          (case credit_each X (pu_freed report) 0 0 A1 of
             (freed_size, freed_stored, A2) \<Rightarrow>
               let A3 = (if freed_stored > 0 then snd (move_node CreditNode (- freed_stored) A2) else A2);
                   A4 = enqueue_remote_gc (pu_remote report) A3;
                   A5 = (if pu_files report > 0 then insert_log (TrashPurged (pu_files report) freed_size freed_stored) A4 else A4)
               in ((pu_files report, freed_size), A5))
      | (_, A1) \<Rightarrow> ((0, 0), A1))"

section \<open>Packing and compaction\<close>

definition PACK_COMPACT_MIN_LIVE_PCT :: int where "PACK_COMPACT_MIN_LIVE_PCT = 50"

record repack_totals =
  rt_packs :: nat
  rt_files :: nat
  rt_stored_delta :: int

definition settle_pack_write :: "('f, 'w) handler_ctx \<Rightarrow> string \<Rightarrow> pack_result \<Rightarrow> ('f, 'w) account \<Rightarrow> int \<times> ('f, 'w) account" where
  "settle_pack_write X user r A =
     (let delta = i64 (pk_pack_stored_bytes r - pk_freed_stored_bytes r);
          A2 = enqueue_remote_gc (pk_remote r) (adjust_node_stored delta A)
      in (delta,
          case pk_pack_id r of
            None \<Rightarrow> A2
          | Some pack_id \<Rightarrow> (case hc_parse_uuid X user of Some uid \<Rightarrow> spread_file X uid pack_id A2 | None \<Rightarrow> A2)))"

definition settled :: "('f, 'w) handler_ctx \<Rightarrow> string \<Rightarrow> pack_result \<Rightarrow> repack_totals \<times> ('f, 'w) account \<Rightarrow> repack_totals \<times> ('f, 'w) account" where
  "settled X user r tA =
     (case tA of (t, A) \<Rightarrow>
        case settle_pack_write X user r A of
          (delta, A') \<Rightarrow> (t\<lparr>rt_packs := rt_packs t + 1, rt_files := rt_files t + pk_members r,
                             rt_stored_delta := i64 (rt_stored_delta t + delta)\<rparr>, A'))"

definition read_file :: "('f, 'w) handler_ctx \<Rightarrow> string \<Rightarrow> string \<Rightarrow> ('f, 'w) account \<Rightarrow> bytes option \<times> ('f, 'w) account" where
  "read_file X user file_id A =
     (case reconstruct_file (hc_ctx X) (hc_read_order X) (hc_done_at X) user file_id (at_site A) of
        (Ok data, S) \<Rightarrow> (Some data, A\<lparr>at_site := S\<rparr>)
      | (_, S) \<Rightarrow> (None, A\<lparr>at_site := S\<rparr>))"

text \<open>One unreadable member forfeits the group.\<close>

fun gather_group :: "('f, 'w) handler_ctx \<Rightarrow> string \<Rightarrow> file_row list \<Rightarrow> pack_entry list \<Rightarrow> ('f, 'w) account \<Rightarrow> pack_entry list \<times> ('f, 'w) account" where
  "gather_group X user [] entries A = (entries, A)"
| "gather_group X user (f # fs) entries A =
     (case read_file X user (f_file_id f) A of
        (Some data, A') \<Rightarrow> gather_group X user fs (entries @ [\<lparr>pe_file_id = f_file_id f, pe_data = data\<rparr>]) A'
      | (None, A') \<Rightarrow> ([], A'))"

text \<open>\<open>src n\<close> is the random id and the time of the \<open>n\<close>th pack.\<close>

definition repack_group :: "('f, 'w) handler_ctx \<Rightarrow> bytes \<times> string \<Rightarrow> string \<Rightarrow> file_row list
    \<Rightarrow> repack_totals \<times> ('f, 'w) account \<Rightarrow> repack_totals \<times> ('f, 'w) account" where
  "repack_group X fresh user grp tA =
     (case tA of (t, A) \<Rightarrow>
        case gather_group X user grp [] A of
          (entries, A1) \<Rightarrow>
            if entries = [] then (t, A1)
            else
              case blocking (pack_files (rc_env (hc_ctx X)) (rc_ident (hc_ctx X)) (rc_root (hc_ctx X)) (fst fresh) (snd fresh) user entries) A1 of
                (Ok r, A2) \<Rightarrow> settled X user r (t, A2)
              | (_, A2) \<Rightarrow> (t, A2))"

fun repack_group_list :: "('f, 'w) handler_ctx \<Rightarrow> (nat \<Rightarrow> bytes \<times> string) \<Rightarrow> nat \<Rightarrow> string \<Rightarrow> file_row list list
    \<Rightarrow> repack_totals \<times> ('f, 'w) account \<Rightarrow> nat \<times> repack_totals \<times> ('f, 'w) account" where
  "repack_group_list X src n user [] tA = (n, tA)"
| "repack_group_list X src n user (g # gs) tA = repack_group_list X src (n + 1) user gs (repack_group X (src n) user g tA)"

text \<open>The candidates of a user are read when its turn comes.\<close>

fun repack_users :: "('f, 'w) handler_ctx \<Rightarrow> (nat \<Rightarrow> bytes \<times> string) \<Rightarrow> nat \<Rightarrow> string list
    \<Rightarrow> repack_totals \<times> ('f, 'w) account \<Rightarrow> repack_totals \<times> ('f, 'w) account" where
  "repack_users X src n [] tA = tA"
| "repack_users X src n (user # users) tA =
     (case repack_group_list X src n user (plan_packs (list_packable (at_manifest (snd tA)) user) (int PACK_TARGET)) tA of
        (n', tA') \<Rightarrow> repack_users X src n' users tA')"

definition no_totals :: repack_totals where
  "no_totals = \<lparr>rt_packs = 0, rt_files = 0, rt_stored_delta = 0\<rparr>"

definition repack_all_now :: "('f, 'w) handler_ctx \<Rightarrow> (nat \<Rightarrow> bytes \<times> string) \<Rightarrow> ('f, 'w) account \<Rightarrow> repack_totals \<times> ('f, 'w) account" where
  "repack_all_now X src A =
     (case repack_users X src 0 (users_with_packable (at_manifest A)) (no_totals, A) of
        (t, A') \<Rightarrow> (t, if rt_packs t > 0 then insert_log (Repacked (rt_packs t) (rt_files t) (rt_stored_delta t)) A' else A'))"

text \<open>The surviving members, cut out of the container; \<open>None\<close> leaves the container as it is.\<close>

fun slice_members :: "bytes \<Rightarrow> file_row list \<Rightarrow> pack_entry list option" where
  "slice_members whole [] = Some []"
| "slice_members whole (m # ms) =
     (case member_slice whole m of
        Ok data \<Rightarrow> map_option (Cons \<lparr>pe_file_id = f_file_id m, pe_data = data\<rparr>) (slice_members whole ms)
      | _ \<Rightarrow> None)"

definition survivors_of :: "('f, 'w) handler_ctx \<Rightarrow> file_row \<Rightarrow> int \<Rightarrow> ('f, 'w) account \<Rightarrow> pack_entry list option \<times> ('f, 'w) account" where
  "survivors_of X pack members A =
     (if members = 0 then (Some [], A)
      else
        case read_file X (f_user_id pack) (f_file_id pack) A of
          (None, A') \<Rightarrow> (None, A')
        | (Some whole, A') \<Rightarrow>
            (case slice_members whole (list_pack_members (at_manifest A') (f_user_id pack) (f_file_id pack)) of
               None \<Rightarrow> (None, A')
             | Some entries \<Rightarrow> (if entries = [] then None else Some entries, A')))"

definition compact_one :: "('f, 'w) handler_ctx \<Rightarrow> bytes \<times> string \<Rightarrow> file_row \<times> int \<times> int
    \<Rightarrow> repack_totals \<times> ('f, 'w) account \<Rightarrow> repack_totals \<times> ('f, 'w) account" where
  "compact_one X fresh occ tA =
     (case occ of (pack, live_bytes, members) \<Rightarrow>
        if members > 0 \<and> i64 (live_bytes * 100) \<ge> i64 (f_size pack * PACK_COMPACT_MIN_LIVE_PCT) then tA
        else
          case survivors_of X pack members (snd tA) of
            (None, A1) \<Rightarrow> (fst tA, A1)
          | (Some survivors, A1) \<Rightarrow>
              (case blocking (compact_pack (rc_env (hc_ctx X)) (rc_ident (hc_ctx X)) (rc_root (hc_ctx X)) (fst fresh) (snd fresh)
                                (f_user_id pack) (f_file_id pack) survivors) A1 of
                 (Ok r, A2) \<Rightarrow> settled X (f_user_id pack) r (fst tA, A2)
               | (_, A2) \<Rightarrow> (fst tA, A2)))"

fun compact_each :: "('f, 'w) handler_ctx \<Rightarrow> (nat \<Rightarrow> bytes \<times> string) \<Rightarrow> nat \<Rightarrow> (file_row \<times> int \<times> int) list
    \<Rightarrow> repack_totals \<times> ('f, 'w) account \<Rightarrow> repack_totals \<times> ('f, 'w) account" where
  "compact_each X src n [] tA = tA"
| "compact_each X src n (occ # occs) tA = compact_each X src (n + 1) occs (compact_one X (src n) occ tA)"

definition compact_packs_now :: "('f, 'w) handler_ctx \<Rightarrow> (nat \<Rightarrow> bytes \<times> string) \<Rightarrow> ('f, 'w) account \<Rightarrow> repack_totals \<times> ('f, 'w) account" where
  "compact_packs_now X src A =
     (case compact_each X src 0 (list_pack_occupancy (at_manifest A)) (no_totals, A) of
        (t, A') \<Rightarrow> (t, if rt_packs t > 0 then insert_log (PacksCompacted (rt_packs t) (rt_stored_delta t)) A' else A'))"

end
