(* ===== verification/AccountProps.thy ===== *)
theory AccountProps
  imports Accounts StoreProps RepairLaws
begin

text \<open>
  The accounts balance. \<open>charged\<close> adds up the rows a user pays for, \<open>billed c\<close> says that these sums are \<open>c\<close>, and each
  operation of the service is shown to move them by what it stores or frees. \<open>open_by up d\<close> says that the counters of the database are
  ahead of the rows by \<open>d\<close>, as they are inside a handler or after a statement the database did not answer; every handler \<open>settles\<close>:
  it ends with no less open than it began, and with the same while the database answers. \<open>account_run\<close> is a sequence of requests and
  jobs that stay off the containers.
\<close>

section \<open>What a user is charged for\<close>

text \<open>A container is told from a file by the path it was given, which a retired row keeps.\<close>

definition pack_row :: "db_file \<Rightarrow> bool" where
  "pack_row r \<longleftrightarrow> prefix PACK_PATH_PREFIX (coalesce (d_retired_path r) (d_path r))"

definition charge :: "string \<Rightarrow> db_file \<Rightarrow> int" where
  "charge u r = (if d_user_id r = u \<and> \<not> pack_row r then d_size r else 0)"

definition charged :: "string \<Rightarrow> manifest \<Rightarrow> int" where
  "charged u M = sum_list (map (charge u) (m_files M))"

text \<open>The rows are in order: containers are live, no size is negative.\<close>

definition rows_ok :: "manifest \<Rightarrow> bool" where
  "rows_ok M \<longleftrightarrow> list_all (\<lambda>r. (pack_row r \<longrightarrow> LIVE r) \<and> 0 \<le> d_size r) (m_files M)"

definition billed :: "(string \<Rightarrow> int) \<Rightarrow> manifest \<Rightarrow> bool" where
  "billed c M \<longleftrightarrow> manifest_inv M \<and> rows_ok M \<and> (\<forall>u. charged u M = c u)"

lemma pack_row_is_pack: "pack_row r \<longleftrightarrow> is_pack (map_file r)"
  by (simp add: pack_row_def is_pack_def map_file_def)

lemma charge_nonneg: "rows_ok M \<Longrightarrow> 0 \<le> charged u M"
  by (auto simp: charged_def rows_ok_def charge_def list_all_iff intro!: sum_list_nonneg)

lemma billed_same: "billed c M \<Longrightarrow> m_files M' = m_files M \<Longrightarrow> manifest_inv M' \<Longrightarrow> billed c M'"
  by (simp add: billed_def rows_ok_def charged_def)

lemma preserves_billed_same:
  assumes "preserves manifest_inv m" "\<And>M r M'. m M = (r, M') \<Longrightarrow> m_files M' = m_files M"
  shows "preserves (billed c) m"
  by (rule preservesI) (meson assms billed_same billed_def preservesD)

text \<open>An update that leaves owner, size and kind of the rows it changes.\<close>

lemma update_billed:
  assumes "update_files p k M = (x, M')" "billed c M" "manifest_inv M'"
    and "\<And>r. r \<in> set (m_files M) \<Longrightarrow> p r \<Longrightarrow> d_user_id (k r) = d_user_id r \<and> d_size (k r) = d_size r
      \<and> pack_row (k r) = pack_row r \<and> (pack_row r \<longrightarrow> LIVE (k r))"
  shows "billed c M'"
proof -
  have "m_files M' = m_files M \<or> m_files M' = map (\<lambda>r. if p r then k r else r) (m_files M)"
    using assms(1) by (auto simp: update_files_def Let_def split: if_splits)
  moreover have "map (charge u) (map (\<lambda>r. if p r then k r else r) (m_files M)) = map (charge u) (m_files M)" for u
    using assms(4) by (auto simp: charge_def)
  moreover have "list_all (\<lambda>r. (pack_row r \<longrightarrow> LIVE r) \<and> 0 \<le> d_size r) (map (\<lambda>r. if p r then k r else r) (m_files M))"
    using assms(2,4) by (auto simp: billed_def rows_ok_def list_all_iff)
  ultimately have "(\<forall>u. charged u M' = charged u M) \<and> rows_ok M'" using assms(2) unfolding charged_def rows_ok_def billed_def
    by (elim disjE) (simp_all only: simp_thms)
  then show ?thesis using assms(2,3) by (simp add: billed_def)
qed

lemma retire_billed:
  assumes "billed c M" "retire_row u fid col at M = (x, M')" "manifest_inv M'"
    and "\<And>r. r \<in> set (m_files M) \<Longrightarrow> d_user_id r = u \<Longrightarrow> d_file_id r = fid \<Longrightarrow> \<not> pack_row r"
  shows "billed c M'"
proof -
  obtain n where "update_files
      (\<lambda>r. d_user_id r = u \<and> d_file_id r = fid \<and> column_value col r = None)
      (\<lambda>r. (set_column col at r)\<lparr>d_retired_path := Some (coalesce (d_retired_path r) (d_path r)),
             d_path := retired_key fid\<rparr>) M = (n, M')"
    using assms(2) by (auto simp: retire_row_def sbind_def split: prod.splits result.splits)
  then show ?thesis
    by (rule update_billed [OF _ assms(1,3)]) (use assms(4) in \<open>cases col; auto simp: pack_row_def coalesce_def\<close>)
qed

lemma like_prefix:
  assumes "list_all (\<lambda>c. c \<noteq> CHR ''%'' \<and> c \<noteq> CHR ''_'') p"
  shows "sql_like (p @ ''%'') (p @ s)"
  using assms
proof (induction p)
  case Nil
  show ?case by (simp add: like_any)
next
  case (Cons c p)
  then show ?case by (simp add: sql_like.simps(2))
qed

lemma pack_path_like: "prefix PACK_PATH_PREFIX s \<Longrightarrow> sql_like (PACK_PATH_PREFIX @ ''%'') s"
proof -
  assume "prefix PACK_PATH_PREFIX s"
  then obtain t where "s = PACK_PATH_PREFIX @ t" by (rule prefixE)
  moreover have "list_all (\<lambda>c. c \<noteq> CHR ''%'' \<and> c \<noteq> CHR ''_'') PACK_PATH_PREFIX" by (simp add: PACK_PATH_PREFIX_def)
  ultimately show ?thesis using like_prefix by blast
qed

lemma by_path_no_pack:
  assumes "manifest_inv M" "get_file_by_path u path M = Some p" "r \<in> set (m_files M)" "d_file_id r = f_file_id p"
  shows "\<not> pack_row r"
proof -
  obtain x where x: "x \<in> set (m_files M)" "p = map_file x" "LIVE x" "not_pack x"
    using assms(2) unfolding get_file_by_path_def by (drule_tac optional_row_filter) blast
  then have "r = x" using inv_file_ids [OF assms(1,3) x(1)] assms(4) by (simp add: map_file_def)
  moreover have "d_retired_path x = None"
    using assms(1) x(1,3) by (auto simp: manifest_inv_def list_all_iff row_ok_def not_LIVE_iff [symmetric])
  moreover have "\<not> prefix PACK_PATH_PREFIX (d_path x)"
    using x(4) pack_path_like by (auto simp: not_pack_def)
  ultimately show ?thesis by (simp add: pack_row_def coalesce_def)
qed

section \<open>The operations of the service\<close>

lemma insert_billed:
  assumes "insert_file f M = (Ok (), M')" "billed c M" "0 \<le> f_size f"
  shows "billed (\<lambda>u. c u + (if u = f_user_id f \<and> \<not> prefix PACK_PATH_PREFIX (f_path f) then f_size f else 0)) M'"
proof -
  obtain row where "m_files M' = m_files M @ [row]" "d_user_id row = f_user_id f" "d_size row = f_size f" "LIVE row"
    "pack_row row \<longleftrightarrow> prefix PACK_PATH_PREFIX (f_path f)"
    using assms(1) by (auto simp: insert_file_def Let_def LIVE_def pack_row_def coalesce_def split: if_splits)
  moreover have "manifest_inv M'" using preservesD [OF preserves_inv(1) _ assms(1)] assms(2) by (simp add: billed_def)
  ultimately show ?thesis using assms(2,3) by (auto simp: billed_def rows_ok_def charged_def charge_def)
qed

lemma write_chunk_rows_files:
  assumes "write_chunk_rows E root fid cs S = (r, T)"
  shows "m_files (nd_manifest T) = m_files (nd_manifest S)"
proof -
  let ?P = "\<lambda>U. m_files (nd_manifest U) = m_files (nd_manifest S)"
  have prims: "preserves (\<lambda>M. m_files M = m_files (nd_manifest S)) (insert_chunk k)" "preserves (\<lambda>M. m_files M = m_files (nd_manifest S)) (insert_shard s)"
    "preserves ?P (on_disk d)" for k s and d :: "(disk, unit, store_error) op"
    by (auto simp: preserves_def on_disk_def insert_chunk_def insert_shard_def split: prod.splits if_splits)
  have "preserves ?P (write_chunk_rows E root fid cs)"
    unfolding write_chunk_rows_def write_chunk_def write_shard_def Let_def by (intro preserve prims)
  from preservesD [OF this _ assms] show ?thesis by simp
qed

lemma transaction_fails: "transaction m S = (r, T) \<Longrightarrow> (\<And>x. r \<noteq> Ok x) \<Longrightarrow> nd_manifest T = nd_manifest S"
  by (auto simp: transaction_def split: prod.splits result.splits)

lemma pushed_row_parts [simp]:
  "f_size (pushed_row E fid now u path data n stored l) = int (length data)" "f_user_id (pushed_row E fid now u path data n stored l) = u"
  "f_path (pushed_row E fid now u path data n stored l) = path"
  by (simp_all add: pushed_row_def)

lemma push_billed:
  assumes "push E ident root rnd now u path data S = (r, T)" "billed c (nd_manifest S)" "\<not> prefix PACK_PATH_PREFIX path"
  shows "billed (case r of Ok res \<Rightarrow> if pr_unchanged res then c else c(u := c u + int (length data)) | _ \<Rightarrow> c) (nd_manifest T)
    \<and> (\<forall>res. r = Ok res \<longrightarrow> \<not> pr_unchanged res \<longrightarrow> pr_size res = int (length data))"
proof (cases "\<exists>res. r = Ok res \<and> \<not> pr_unchanged res")
  case True
  then obtain res where r: "r = Ok res" "\<not> pr_unchanged res" by blast
  let ?fid = "mint_file_id E rnd" and ?M = "nd_manifest S"
  obtain cs where tx: "push_tx E root ?fid now u path data cs S = (Ok res, T)" using push_Ok [OF assms(1) [unfolded r(1)] r(2)] .
  have inv: "manifest_inv ?M" using assms(2) by (simp add: billed_def)
  obtain M1 M2 l where M1: "billed c M1"
    and i: "insert_file (pushed_row E ?fid now u path data (length cs) (chunks_disk_cost cs) l) M1 = (Ok (), M2)"
    and w: "write_chunk_rows E root ?fid cs (S\<lparr>nd_manifest := M2\<rparr>) = (Ok (), T)" and sz: "pr_size res = int (length data)"
  proof (cases "get_file_by_path u path ?M")
    case None
    with tx obtain M2 where "insert_file (pushed_row E ?fid now u path data (length cs) (chunks_disk_cost cs) ?fid) ?M = (Ok (), M2)"
      "write_chunk_rows E root ?fid cs (S\<lparr>nd_manifest := M2\<rparr>) = (Ok (), T)" "pr_size res = int (length data)"
      by (auto simp: push_tx_def Let_def sbind_Ok_iff on_db_Ok pushed_row_def)
    with assms(2) show ?thesis by (rule that)
  next
    case (Some p)
    with tx obtain b M1 M2 where s: "supersede_file u (f_file_id p) now ?M = (Ok b, M1)"
      and i: "insert_file (pushed_row E ?fid now u path data (length cs) (chunks_disk_cost cs) (f_lineage p)) M1 = (Ok (), M2)"
      and w: "write_chunk_rows E root ?fid cs (S\<lparr>nd_manifest := M2\<rparr>) = (Ok (), T)" "pr_size res = int (length data)"
      by (auto simp: push_tx_def Let_def sbind_Ok_iff on_db_Ok pushed_row_def)
    have "billed c M1"
      by (rule retire_billed [OF assms(2) s [unfolded supersede_file_def]])
        (use supersede_file_inv [OF inv s] by_path_no_pack [OF inv Some] in auto)
    then show ?thesis using i w by (rule that)
  qed
  have "billed (\<lambda>v. c v + (if v = u then int (length data) else 0)) M2"
    using insert_billed [OF i M1] assms(3) by (simp cong: if_cong)
  moreover have "(\<lambda>v. c v + (if v = u then int (length data) else 0)) = c(u := c u + int (length data))" by auto
  moreover have "manifest_inv (nd_manifest T)" using preservesD [OF preserves_push inv assms(1)] .
  ultimately have "billed (c(u := c u + int (length data))) (nd_manifest T)"
    using billed_same [of _ M2 "nd_manifest T"] write_chunk_rows_files [OF w] by simp
  then show ?thesis using r sz by simp
next
  case False
  have "nd_manifest T = nd_manifest S"
  proof (cases r)
    case (Ok res)
    then have "pr_unchanged res" using False by blast
    then show ?thesis
      using assms(1) Ok by (auto simp: push_def Let_def sbind_Ok_iff split: option.splits if_splits elim!: push_tx_Ok)
  next
    case (Err e)
    then show ?thesis
      using assms(1) by (auto simp: push_def Let_def sbind_def slift_def push_tx_def split: option.splits if_splits prod.splits result.splits dest!: transaction_fails)
  next
    case Panic
    then show ?thesis
      using assms(1) by (auto simp: push_def Let_def sbind_def slift_def push_tx_def split: option.splits if_splits prod.splits result.splits dest!: transaction_fails)
  qed
  then show ?thesis using assms(2) False by (auto split: result.split)
qed

text \<open>A row that leaves the table.\<close>

lemma remove_billed:
  assumes "billed c M" "x \<in> set (m_files M)" "purge_file_row (d_user_id x) (d_file_id x) M = (r, M')"
  shows "billed (\<lambda>u. c u - charge u x) M'"
proof -
  have inv: "manifest_inv M" and d: "distinct (map d_file_id (m_files M))" using assms(1) by (simp_all add: billed_def manifest_inv_def)
  have f: "m_files M' = filter (\<lambda>r. d_file_id r \<noteq> d_file_id x) (m_files M)" by (rule purge_row_files [OF inv assms(2,3)])
  have "sum_list (map g (filter (\<lambda>r. d_file_id r \<noteq> d_file_id x) rows)) = sum_list (map g rows) - g x"
    if "distinct (map d_file_id rows)" "x \<in> set rows" for rows and g :: "db_file \<Rightarrow> int"
    using that
  proof (induction rows)
    case (Cons a rows)
    show ?case
    proof (cases "a = x")
      case True
      then have "filter (\<lambda>r. d_file_id r \<noteq> d_file_id x) rows = rows" using Cons.prems(1) by (auto simp: filter_id_conv) (metis imageI)
      then show ?thesis using True by simp
    next
      case False
      then have "d_file_id a \<noteq> d_file_id x" using Cons.prems by (metis distinct.simps(2) image_eqI image_set list.simps(9) set_ConsD)
      then show ?thesis using Cons False by simp
    qed
  qed simp
  then have "charged u M' = charged u M - charge u x" for u using d assms(2) by (simp add: charged_def f)
  moreover have "rows_ok M'" using assms(1) by (simp add: billed_def rows_ok_def list_all_iff f)
  moreover have "manifest_inv M'" using preservesD [OF preserves_inv(8) inv assms(3)] .
  ultimately show ?thesis using assms(1) by (simp add: billed_def)
qed

lemma charge_other: "rows_ok M \<Longrightarrow> x \<in> set (m_files M) \<Longrightarrow> \<not> pack_row x \<Longrightarrow> charge u x = (if u = d_user_id x then d_size x else 0)"
  by (simp add: charge_def)

lemma retired_no_pack: "rows_ok M \<Longrightarrow> r \<in> set (m_files M) \<Longrightarrow> retired r \<Longrightarrow> \<not> pack_row r"
  by (auto simp: rows_ok_def list_all_iff not_LIVE_iff [symmetric])

lemma purge_file_billed:
  assumes "purge_file root u fid S = (r, T)" "billed c (nd_manifest S)"
    and "\<And>x. x \<in> set (m_files (nd_manifest S)) \<Longrightarrow> d_user_id x = u \<Longrightarrow> d_file_id x = fid \<Longrightarrow> \<not> pack_row x"
  shows "(case r of Ok (row, remote) \<Rightarrow> billed (c(u := c u - f_size row)) (nd_manifest T) \<and> 0 \<le> f_size row | _ \<Rightarrow> T = S)"
proof (cases "get_file u fid (nd_manifest S)")
  case None
  then show ?thesis using assms(1) by (auto simp: purge_file_def sbind_def on_db_def slift_def query_def)
next
  case (Some f)
  obtain x where x: "x \<in> set (m_files (nd_manifest S))" "f = map_file x" "d_user_id x = u" "d_file_id x = fid"
    using get_file_Some [OF Some] by blast
  obtain frags M' where p: "purge_file_row u fid (nd_manifest S) = (Ok frags, M')" by (simp add: purge_file_row_def)
  have "billed (\<lambda>v. c v - charge v x) M'" by (rule remove_billed [OF assms(2) x(1)]) (use p x in simp)
  moreover have "(\<lambda>v. c v - charge v x) = c(u := c u - f_size f)"
    using assms(3) [OF x(1,3,4)] x(2,3) by (auto simp: charge_def map_file_def)
  moreover have "0 \<le> f_size f" using assms(2) x(1,2) by (simp add: billed_def rows_ok_def list_all_iff map_file_def)
  moreover have "\<exists>remote. r = Ok (f, remote) \<and> nd_manifest T = M'"
    using assms(1) Some p by (auto simp: purge_file_def sbind_def on_db_def slift_def query_def split: prod.splits)
  ultimately show ?thesis by auto
qed

lemma purge_each_billed:
  assumes "purge_each u fs sm frags M = (Ok (sm', frags'), M')" "billed c M" "distinct (map f_file_id fs)"
    and "\<And>f. f \<in> set fs \<Longrightarrow> \<exists>x \<in> set (m_files M). f = map_file x \<and> d_user_id x = u \<and> \<not> pack_row x"
  shows "billed (c(u := c u - (ts_size sm' - ts_size sm))) M' \<and> ts_size sm \<le> ts_size sm'"
  using assms
proof (induction fs arbitrary: sm frags M c)
  case Nil
  then show ?case by (simp add: fun_upd_idem)
next
  case (Cons f fs)
  obtain x where x: "x \<in> set (m_files M)" "f = map_file x" "d_user_id x = u" "\<not> pack_row x" using Cons.prems(4) by auto
  obtain more M1 where p: "purge_file_row u (f_file_id f) M = (Ok more, M1)" by (simp add: purge_file_row_def)
  have rest: "purge_each u fs (summary_add f sm) (frags @ more) M1 = (Ok (sm', frags'), M')" using Cons.prems(1) p by (simp add: sbind_def)
  have b: "billed (\<lambda>v. c v - charge v x) M1" by (rule remove_billed [OF Cons.prems(2) x(1)]) (use p x in \<open>simp add: map_file_def\<close>)
  have e: "(\<lambda>v. c v - charge v x) = c(u := c u - f_size f)" using x by (auto simp: charge_def map_file_def)
  have inv: "manifest_inv M" using Cons.prems(2) by (simp add: billed_def)
  have fid: "f_file_id f = d_file_id x" by (simp add: x(2) map_file_def)
  have files: "m_files M1 = filter (\<lambda>r. d_file_id r \<noteq> f_file_id f) (m_files M)"
    unfolding fid by (rule purge_row_files [OF inv x(1)]) (use p x(3) fid in simp)
  let ?c = "c(u := c u - f_size f)"
  have "billed (?c(u := ?c u - (ts_size sm' - ts_size (summary_add f sm)))) M' \<and> ts_size (summary_add f sm) \<le> ts_size sm'"
  proof (rule Cons.IH [OF rest])
    show "billed (c(u := c u - f_size f)) M1" using b unfolding e .
    show "distinct (map f_file_id fs)" using Cons.prems(3) by simp
    fix g assume g: "g \<in> set fs"
    then obtain y where y: "y \<in> set (m_files M)" "g = map_file y" "d_user_id y = u" "\<not> pack_row y" using Cons.prems(4) [of g] by auto
    have "f_file_id g \<noteq> f_file_id f" using Cons.prems(3) imageI [OF g, of f_file_id] by auto
    then have "y \<in> set (m_files M1)" using y by (simp add: files map_file_def)
    then show "\<exists>x \<in> set (m_files M1). g = map_file x \<and> d_user_id x = u \<and> \<not> pack_row x" using y by blast
  qed
  then have r: "billed (?c(u := ?c u - (ts_size sm' - ts_size (summary_add f sm)))) M'" "ts_size (summary_add f sm) \<le> ts_size sm'" by blast+
  have n: "0 \<le> f_size f" using Cons.prems(2) x(1,2) by (simp add: billed_def rows_ok_def list_all_iff map_file_def)
  have t: "ts_size (summary_add f sm) = ts_size sm + f_size f" by (simp add: summary_add_def)
  have u: "?c(u := ?c u - (ts_size sm' - ts_size (summary_add f sm))) = c(u := c u - (ts_size sm' - ts_size sm))" by (auto simp: t)
  have "ts_size sm \<le> ts_size sm'" using r(2) n t by simp
  then show ?case using r(1) [unfolded u] by (rule conjI [rotated])
qed

lemma purge_each_Ok: "\<exists>sm' fr' M'. purge_each u fs sm fr M = (Ok (sm', fr'), M')"
  by (induction fs arbitrary: sm fr M) (simp_all add: sbind_def purge_file_row_def)

lemma empty_trash_billed:
  assumes "empty_trash root u S = (r, T)" "billed c (nd_manifest S)"
  shows "\<exists>summary remote. r = Ok (summary, remote) \<and> billed (c(u := c u - ts_size summary)) (nd_manifest T) \<and> 0 \<le> ts_size summary"
proof -
  let ?M = "nd_manifest S" and ?fs = "list_trashed u (nd_manifest S)"
  have inv: "manifest_inv ?M" and rows: "rows_ok ?M" using assms(2) by (simp_all add: billed_def)
  obtain sm fr M' where p: "purge_each u ?fs TrashSummary_default [] ?M = (Ok (sm, fr), M')" using purge_each_Ok by blast
  have dq: "distinct (map f_file_id (map map_file (filter Q (m_files ?M))))" for Q
    using inv by (auto simp: manifest_inv_def map_file_def o_def distinct_map_filter)
  have "mset ?fs = mset (map map_file (filter (\<lambda>r. d_user_id r = u \<and> d_deleted_at r \<noteq> None \<and> not_pack r) (m_files ?M)))"
    by (simp add: list_trashed_def sort_desc_def)
  then have "mset (map f_file_id ?fs) = mset (map f_file_id (map map_file (filter (\<lambda>r. d_user_id r = u \<and> d_deleted_at r \<noteq> None \<and> not_pack r) (m_files ?M))))"
    by (simp only: mset_map)
  then have d: "distinct (map f_file_id ?fs)" using dq mset_eq_imp_distinct_iff by blast
  have "billed (c(u := c u - (ts_size sm - ts_size TrashSummary_default))) M' \<and> ts_size TrashSummary_default \<le> ts_size sm"
  proof (rule purge_each_billed [OF p assms(2) d])
    fix f assume "f \<in> set ?fs"
    then obtain x where "x \<in> set (m_files ?M)" "f = map_file x" "d_user_id x = u" "d_deleted_at x \<noteq> None" by (auto simp: list_trashed_def)
    then show "\<exists>x \<in> set (m_files ?M). f = map_file x \<and> d_user_id x = u \<and> \<not> pack_row x"
      using retired_no_pack [OF rows] by (auto simp: retired_def)
  qed
  moreover have "\<exists>remote. r = Ok (sm, remote) \<and> nd_manifest T = M'"
    using assms(1) p by (auto simp: empty_trash_def sbind_def transaction_def on_db_def split: prod.splits)
  ultimately show ?thesis by (auto simp: TrashSummary_default_def)
qed

lemma sum_list_partition: "sum_list (map g (filter P xs)) = sum_list (map g xs) - sum_list (map g (filter (\<lambda>x. \<not> P x) xs))"
  for g :: "'a \<Rightarrow> int"
  by (induction xs) auto

lemma sweep_billed:
  assumes "purge_retired root days_ago policy S = (r, T)" "billed c (nd_manifest S)"
  shows "\<exists>rep. r = Ok rep \<and> distinct (map fst (pu_freed rep)) \<and> billed (\<lambda>u. c u - fst (coalesce (map_of (pu_freed rep) u) (0, 0))) (nd_manifest T)
    \<and> (\<forall>u sz st. (u, sz, st) \<in> set (pu_freed rep) \<longrightarrow> 0 \<le> sz)"
proof -
  let ?M = "nd_manifest S" and ?exp = "expired days_ago policy (nd_manifest S)"
  have inv: "manifest_inv ?M" and rows: "rows_ok ?M" using assms(2) by (simp_all add: billed_def)
  obtain rep where rep: "r = Ok rep" "m_files (nd_manifest T) = filter (\<lambda>r. \<not> ?exp r) (m_files ?M)" "distinct (map fst (pu_freed rep))"
    "\<And>u. coalesce (map_of (pu_freed rep) u) (0, 0) =
        (let gone = filter (\<lambda>r. ?exp r \<and> d_user_id r = u) (m_files ?M) in (sum_list (map d_size gone), sum_list (map d_stored_bytes gone)))"
    using purge_retired_run [OF inv, of root days_ago policy] assms(1) by auto
  have "charged u (nd_manifest T) = charged u ?M - fst (coalesce (map_of (pu_freed rep) u) (0, 0))" for u
  proof -
    have "sum_list (map (charge u) (filter ?exp xs)) = sum_list (map d_size (filter (\<lambda>r. ?exp r \<and> d_user_id r = u) xs))"
      if "set xs \<subseteq> set (m_files ?M)" for xs
      using that
    proof (induction xs)
      case (Cons a xs)
      have "?exp a \<Longrightarrow> \<not> pack_row a" using expired_retired [of days_ago policy ?M a] retired_no_pack [OF rows, of a] Cons.prems by auto
      then show ?case using Cons by (auto simp: charge_def)
    qed simp
    then show ?thesis
      using sum_list_partition [of "charge u" "\<lambda>r. \<not> ?exp r" "m_files ?M"] by (simp add: charged_def rep(2,4) Let_def)
  qed
  moreover have "rows_ok (nd_manifest T)" using rows by (auto simp: rows_ok_def list_all_iff rep(2))
  moreover have "manifest_inv (nd_manifest T)" using preservesD [OF preserves_purge_retired inv assms(1)] .
  moreover have "0 \<le> sz" if "(u, sz, st) \<in> set (pu_freed rep)" for u sz st
  proof -
    have "map_of (pu_freed rep) u = Some (sz, st)" using that rep(3) by simp
    then have "sz = sum_list (map d_size (filter (\<lambda>r. ?exp r \<and> d_user_id r = u) (m_files ?M)))" using rep(4) [of u] by (simp add: coalesce_def Let_def)
    then show ?thesis using rows by (auto simp: rows_ok_def list_all_iff intro!: sum_list_nonneg)
  qed
  ultimately show ?thesis using rep(1,3) assms(2) by (auto simp: billed_def)
qed

text \<open>Containers. The row of the old container, while it is being rewritten, stays one.\<close>

definition packing :: "(string \<Rightarrow> int) \<Rightarrow> string \<Rightarrow> string \<Rightarrow> manifest \<Rightarrow> bool" where
  "packing c u old M \<longleftrightarrow> billed c M \<and> (\<forall>r \<in> set (m_files M). d_user_id r = u \<longrightarrow> d_file_id r = old \<longrightarrow> pack_row r)"

lemma preserves_packing_assign [preserve]: "preserves (packing c u old) (assign_to_pack v fid pid off len)"
proof (rule preservesI)
  fix M x M' assume M: "packing c u old M" and a: "assign_to_pack v fid pid off len M = (x, M')"
  let ?k = "\<lambda>r. r\<lparr>d_pack_id := Some pid, d_pack_offset := Some off, d_pack_len := Some len, d_chunk_count := 0, d_stored_bytes := 0\<rparr>"
  obtain n where up: "update_files (\<lambda>r. d_user_id r = v \<and> d_file_id r = fid) ?k M = (n, M')"
    using a by (auto simp: assign_to_pack_def sbind_def split: prod.splits result.splits)
  have k: "pack_row (?k r) = pack_row r" "LIVE (?k r) = LIVE r" for r by (simp_all add: pack_row_def LIVE_def)
  have b: "billed c M" using M by (simp add: packing_def)
  have inv: "manifest_inv M'" using preservesD [OF preserves_inv(10) _ a] b by (simp add: billed_def)
  have live: "pack_row r \<longrightarrow> LIVE r" if "r \<in> set (m_files M)" for r using b that by (simp add: billed_def rows_ok_def list_all_iff)
  have "billed c M'" by (rule update_billed [OF up b inv]) (use k live in simp)
  moreover have "\<forall>r \<in> set (m_files M'). d_user_id r = u \<longrightarrow> d_file_id r = old \<longrightarrow> pack_row r"
  proof -
    have "m_files M' = m_files M \<or> m_files M' = map (\<lambda>r. if d_user_id r = v \<and> d_file_id r = fid then ?k r else r) (m_files M)"
      using up by (auto simp: update_files_def Let_def split: if_splits)
    then show ?thesis using M k by (auto simp: packing_def)
  qed
  ultimately show "packing c u old M'" by (simp add: packing_def)
qed

lemma preserves_packing_strip [preserve]: "preserves (packing c u old) (strip_file_chunks v fid)"
proof (rule preservesI)
  fix M x M' assume M: "packing c u old M" and s: "strip_file_chunks v fid M = (x, M')"
  then have "m_files M' = m_files M" by (auto simp: strip_file_chunks_def delete_chunks_def)
  moreover have "manifest_inv M'" using preservesD [OF preserves_inv(11) _ s] M by (simp add: packing_def billed_def)
  ultimately show "packing c u old M'" using M billed_same by (auto simp: packing_def)
qed

lemma preserves_packing_each [preserve]: "preserves (packing c v old) (pack_each u pid es freed frags)"
proof (induction es arbitrary: freed frags)
  case (Cons x es)
  obtain e off len where x: "x = (e, off, len)" by (cases x)
  have "preserves (packing c v old) (sbind (strip_file_chunks u (pe_file_id e)) (\<lambda>gone.
      sbind (assign_to_pack u (pe_file_id e) pid (sint off) (sint len)) (\<lambda>_. pack_each u pid es n (frags @ gone))))" for n
    by (intro preserve Cons)
  then show ?case unfolding x preserves_def by (auto split: option.splits if_splits)
qed (simp add: preserves_def)

lemma preserves_packing_repoint [preserve]: "preserves (packing c v old) (repoint_each u old' new es)"
proof (induction es)
  case (Cons x es)
  obtain e off len where x: "x = (e, off, len)" by (cases x)
  have "preserves (packing c v old) (sbind (assign_to_pack u (pe_file_id e) new (sint off) (sint len)) (\<lambda>_. repoint_each u old' new es))"
    by (intro preserve Cons)
  then show ?case unfolding x preserves_def by (auto split: option.splits if_splits)
qed (simp add: preserves_def)

lemma preserves_packing_write: "preserves (\<lambda>S. packing c v old (nd_manifest S)) (write_chunk_rows E root fid cs)"
proof (rule preservesI)
  fix S r T assume S: "packing c v old (nd_manifest S)" and w: "write_chunk_rows E root fid cs S = (r, T)"
  have "manifest_inv (nd_manifest T)" using write_chunk_rows_inv [OF w] S by (simp add: packing_def billed_def)
  then show "packing c v old (nd_manifest T)" using S billed_same write_chunk_rows_files [OF w] by (auto simp: packing_def)
qed

lemma preserves_packing_insert:
  assumes "prefix PACK_PATH_PREFIX (f_path f)" "0 \<le> f_size f"
  shows "preserves (packing c v old) (insert_file f)"
proof (rule preservesI)
  fix M r M' assume M: "packing c v old M" and i: "insert_file f M = (r, M')"
  show "packing c v old M'"
  proof (cases "r = Ok ()")
    case True
    obtain row where row: "M' = M\<lparr>m_files := m_files M @ [row]\<rparr>" "pack_row row"
      using i True assms(1) by (auto simp: insert_file_def Let_def pack_row_def coalesce_def split: if_splits)
    have "billed c M'" using insert_billed [OF i [unfolded True] _ assms(2)] M assms(1) by (simp add: packing_def)
    then show ?thesis using M row by (auto simp: packing_def)
  next
    case False
    then show ?thesis using i M by (auto simp: insert_file_def Let_def split: if_splits)
  qed
qed

lemma preserves_packing_row [preserve]: "preserves (\<lambda>S. packing c v old (nd_manifest S)) (insert_pack_row E ident root now u pid whole)"
  unfolding insert_pack_row_def Let_def
  by (intro preserve preserves_packing_write preserves_packing_insert) (simp_all add: pack_key_def)

lemma preserves_packing_purge [preserve]: "preserves (packing c u old) (purge_file_row u old)"
proof (rule preservesI)
  fix M r M' assume M: "packing c u old M" and p: "purge_file_row u old M = (r, M')"
  show "packing c u old M'"
  proof (cases "\<exists>x \<in> set (m_files M). d_user_id x = u \<and> d_file_id x = old")
    case True
    then obtain x where x: "x \<in> set (m_files M)" "d_user_id x = u" "d_file_id x = old" by blast
    then have "pack_row x" using M by (simp add: packing_def)
    then have "charge v x = 0" for v by (simp add: charge_def)
    then have "billed c M'" using remove_billed [of c M x r M'] M p x by (simp add: packing_def)
    moreover have "m_files M' = filter (\<lambda>r. \<not> (d_user_id r = u \<and> d_file_id r = old)) (m_files M)"
      using p by (auto simp: purge_file_row_def delete_files_def delete_chunks_def)
    ultimately show ?thesis using M by (auto simp: packing_def)
  next
    case False
    then have "m_files M' = m_files M" using p by (auto simp: purge_file_row_def delete_files_def delete_chunks_def filter_id_conv)
    moreover have "manifest_inv M'" using preservesD [OF preserves_inv(8) _ p] M by (simp add: packing_def billed_def)
    ultimately show ?thesis using M billed_same by (auto simp: packing_def)
  qed
qed

lemma packing_free:
  assumes "billed c M" "\<And>r. r \<in> set (m_files M) \<Longrightarrow> d_file_id r \<noteq> old"
  shows "packing c u old M"
  using assms by (auto simp: packing_def)

lemma pack_files_billed:
  assumes "pack_files E ident root rnd now u entries S = (r, T)" "billed c (nd_manifest S)"
  shows "billed c (nd_manifest T)"
proof -
  obtain old where old: "old \<notin> d_file_id ` set (m_files (nd_manifest S))"
    using ex_new_if_finite [of "d_file_id ` set (m_files (nd_manifest S))"] infinite_UNIV_listI by blast
  have "preserves (\<lambda>S. packing c u old (nd_manifest S)) (pack_files E ident root rnd now u entries)"
    unfolding pack_files_def Let_def [of "mint_file_id E rnd"] by (intro preserve)
  from preservesD [OF this _ assms(1)] show ?thesis using packing_free [OF assms(2), of old u] old by (auto simp: packing_def)
qed

lemma compact_pack_billed:
  assumes "compact_pack E ident root rnd now u old survivors S = (r, T)" "billed c (nd_manifest S)"
  shows "billed c (nd_manifest T)"
proof -
  let ?P = "\<lambda>S. packing c u old (nd_manifest S)"
  have tx: "billed c (nd_manifest V)" if "compact_tx E ident root rnd now u old survivors S = (x, V)" for x V
  proof (cases "get_file u old (nd_manifest S)")
    case None
    then show ?thesis using that assms(2) by (simp add: compact_tx_def)
  next
    case (Some f)
    show ?thesis
    proof (cases "is_pack f")
      case False
      then show ?thesis using that assms(2) Some by (simp add: compact_tx_def)
    next
      case True
      obtain y where y: "y \<in> set (m_files (nd_manifest S))" "f = map_file y" "d_file_id y = old" using get_file_Some [OF Some] by blast
      have "pack_row r" if "r \<in> set (m_files (nd_manifest S))" "d_file_id r = old" for r
        using inv_file_ids [OF _ that(1) y(1)] that(2) y True assms(2) by (simp add: billed_def pack_row_is_pack)
      then have P: "?P S" using assms(2) by (simp add: packing_def)
      have "preserves ?P (sbind (on_db (purge_file_row u old)) (\<lambda>frags. sreturn (frags, g frags)))"
        "preserves ?P (sbind (slift (build_pack survivors)) (\<lambda>(whole, ranges).
           sbind (on_db (repoint_each u old new (zip survivors ranges))) (\<lambda>_.
           sbind (insert_pack_row E ident root now u new whole) (\<lambda>stored.
           sbind (on_db (purge_file_row u old)) (\<lambda>frags. sreturn (frags, h whole stored frags))))))" for g h new
        by (intro preserve)+
      note run = this [THEN preservesD, OF P]
      have "?P V"
        using that Some True P
        by (auto simp: compact_tx_def Let_def split: option.splits if_splits dest!: run)
      then show ?thesis by (simp add: packing_def)
    qed
  qed
  obtain x V where V: "transaction (compact_tx E ident root rnd now u old survivors) S = (x, V)" by (rule prod.exhaust)
  then have "billed c (nd_manifest V)"
    using tx assms(2) by (auto simp: transaction_def split: prod.splits result.splits)
  then show ?thesis using assms(1) V by (auto simp: compact_pack_def sbind_def split: result.splits prod.splits)
qed

text \<open>Trash and restoration, of files.\<close>

definition filing :: "(string \<Rightarrow> int) \<Rightarrow> string \<Rightarrow> string \<Rightarrow> manifest \<Rightarrow> bool" where
  "filing c u fid M \<longleftrightarrow> billed c M \<and> (\<forall>r \<in> set (m_files M). d_user_id r = u \<longrightarrow> d_file_id r = fid \<longrightarrow> \<not> pack_row r)"

lemma retire_filing:
  assumes "filing c u fid M" "retire_row v g col at M = (x, M')"
    and "\<And>r. r \<in> set (m_files M) \<Longrightarrow> d_user_id r = v \<Longrightarrow> d_file_id r = g \<Longrightarrow> \<not> pack_row r"
  shows "filing c u fid M'"
proof -
  have "preserves manifest_inv (retire_row v g col at)"
    using preserves_inv(2) [of v g at, unfolded trash_file_def] preserves_inv(3) [of v g at, unfolded supersede_file_def] by (cases col) simp_all
  then have inv: "manifest_inv M'" using assms(1,2) by (auto simp: filing_def billed_def dest: preservesD)
  let ?k = "\<lambda>r. (set_column col at r)\<lparr>d_retired_path := Some (coalesce (d_retired_path r) (d_path r)), d_path := retired_key g\<rparr>"
  obtain n where "update_files (\<lambda>r. d_user_id r = v \<and> d_file_id r = g \<and> column_value col r = None) ?k M = (n, M')"
    using assms(2) by (auto simp: retire_row_def sbind_def split: prod.splits result.splits)
  then have files: "m_files M' = m_files M
      \<or> m_files M' = map (\<lambda>r. if d_user_id r = v \<and> d_file_id r = g \<and> column_value col r = None then ?k r else r) (m_files M)"
    by (auto simp: update_files_def Let_def split: if_splits)
  have k: "pack_row (?k r) = pack_row r" "d_user_id (?k r) = d_user_id r" "d_file_id (?k r) = d_file_id r" for r
    by (cases col; simp add: pack_row_def coalesce_def)+
  have "billed c M'" using retire_billed [OF _ assms(2) inv] assms(1,3) by (simp add: filing_def)
  then show ?thesis using files assms(1) k by (auto simp: filing_def)
qed

lemma trash_billed:
  assumes "trash now u fid M = (r, M')" "billed c M"
    and "\<And>x. x \<in> set (m_files M) \<Longrightarrow> d_user_id x = u \<Longrightarrow> d_file_id x = fid \<Longrightarrow> \<not> pack_row x"
  shows "billed c M'"
proof -
  have "preserves (filing c u fid) (trash_file u fid now)"
    unfolding trash_file_def
  proof (rule preservesI)
    fix M r M' assume "filing c u fid M" "retire_row u fid Deleted_at now M = (r, M')"
    then show "filing c u fid M'" by (rule retire_filing) (use \<open>filing c u fid M\<close> in \<open>simp add: filing_def\<close>)
  qed
  then have "preserves (filing c u fid) (trash now u fid)" unfolding trash_def by (intro preserve)
  from preservesD [OF this _ assms(1)] show ?thesis using assms(2,3) by (simp add: filing_def)
qed

lemma mkdir_billed: "mkdir u path M = (r, M') \<Longrightarrow> billed c M \<Longrightarrow> billed c M'"
proof -
  assume m: "mkdir u path M = (r, M')" and b: "billed c M"
  have "m_files M' = m_files M" using m insert_folder_files [of u "trim_slashes path" M] by (auto simp: mkdir_def)
  moreover have "manifest_inv M'" using preservesD [OF preserves_mkdir [OF preserves_inv(5)] _ m] b by (simp add: billed_def)
  ultimately show ?thesis using b billed_same by blast
qed

lemma restore_row_billed:
  assumes "filing c u fid M" "restore_file u fid target M = (x, M')" "\<not> prefix PACK_PATH_PREFIX target"
  shows "billed c M'"
proof -
  let ?k = "\<lambda>r. r\<lparr>d_deleted_at := None, d_superseded_at := None, d_retired_path := None, d_path := target\<rparr>"
  obtain n where up: "update_files (\<lambda>r. d_user_id r = u \<and> d_file_id r = fid) ?k M = (n, M')"
    using assms(2) by (auto simp: restore_file_def sbind_def split: prod.splits result.splits)
  have inv: "manifest_inv M'" using preservesD [OF preserves_inv(4) _ assms(2)] assms(1) by (simp add: filing_def billed_def)
  show ?thesis
    by (rule update_billed [OF up _ inv]) (use assms(1,3) in \<open>auto simp: filing_def pack_row_def coalesce_def\<close>)
qed

lemma restore_billed:
  assumes "service_restore now u fid new_path M = (r, M')" "billed c M"
    and "\<And>f. get_file u fid M = Some f \<Longrightarrow> \<not> prefix PACK_PATH_PREFIX (trim_slashes (coalesce new_path (f_path f)))"
  shows "billed c M'"
proof -
  let ?body = "sbind (query (get_file u fid)) (\<lambda>found.
       sbind (slift (ok_or NotFound found)) (\<lambda>row.
         if is_live row then slift (Err NotFound)
         else
           let target = trim_slashes (coalesce new_path (f_path row))
           in if target = [] then slift (Err NotFound)
              else
                sbind (query (get_file_by_path u target)) (\<lambda>current.
                sbind (case current of
                         Some c \<Rightarrow>
                           if f_file_id c \<noteq> f_file_id row
                           then sbind (supersede_file u (f_file_id c) now) (\<lambda>_. sreturn ())
                           else sreturn ()
                       | None \<Rightarrow> sreturn ()) (\<lambda>_.
                sbind (insert_folder u (dirname target)) (\<lambda>_.
                sbind (restore_file u fid target) (\<lambda>_.
                sreturn ()))))))"
  have body: "billed c M1" if run: "?body M = (Ok (), M1)" for M1
  proof -
    obtain row where row: "get_file u fid M = Some row" "\<not> is_live row"
      using run by (auto simp: sbind_Ok_iff query_def ok_or_def split: option.splits if_splits)
    let ?target = "trim_slashes (coalesce new_path (f_path row))"
    obtain y where y: "y \<in> set (m_files M)" "row = map_file y" "d_user_id y = u" "d_file_id y = fid" using get_file_Some [OF row(1)] by blast
    have inv: "manifest_inv M" and rows: "rows_ok M" using assms(2) by (simp_all add: billed_def)
    have "retired y" using row(2) y(2) by (auto simp: is_live_def map_file_def retired_def)
    then have "\<not> pack_row y" using retired_no_pack [OF rows y(1)] by simp
    then have F: "filing c u fid M" using assms(2) inv_file_ids [OF inv _ y(1)] y(4) by (auto simp: filing_def)
    obtain M2 M3 where m2: "(case get_file_by_path u ?target M of
          Some c \<Rightarrow> if f_file_id c \<noteq> f_file_id row then sbind (supersede_file u (f_file_id c) now) (\<lambda>_. sreturn ()) else sreturn ()
        | None \<Rightarrow> sreturn ()) M = (Ok (), M2)"
      and m3: "insert_folder u (dirname ?target) M2 = (Ok (), M3)" and m4: "\<exists>b. restore_file u fid ?target M3 = (Ok b, M1)"
      using run row by (auto simp: sbind_Ok_iff query_def ok_or_def Let_def split: if_splits)
    have F2: "filing c u fid M2"
    proof (cases "get_file_by_path u ?target M")
      case None
      then show ?thesis using m2 F by (simp add: sreturn_def)
    next
      case (Some p)
      show ?thesis
      proof (cases "f_file_id p = f_file_id row")
        case True
        then show ?thesis using m2 F Some by (simp add: sreturn_def)
      next
        case False
        then obtain b where s: "supersede_file u (f_file_id p) now M = (b, M2)" using m2 Some by (auto simp: sbind_Ok_iff)
        show ?thesis by (rule retire_filing [OF F s [unfolded supersede_file_def]]) (use by_path_no_pack [OF inv Some] in blast)
      qed
    qed
    have "m_files M3 = m_files M2" using m3 insert_folder_files [of u "dirname ?target" M2] by auto
    moreover have "manifest_inv M3" using preservesD [OF preserves_inv(5) _ m3] F2 by (simp add: filing_def billed_def)
    ultimately have "filing c u fid M3" using F2 billed_same by (auto simp: filing_def)
    then show ?thesis using m4 restore_row_billed assms(3) [OF row(1)] by blast
  qed
  obtain x M1 where t: "db_transaction ?body M = (x, M1)" by (rule prod.exhaust)
  have "billed c M1" using t body assms(2) by (auto simp: db_transaction_def split: prod.splits result.splits)
  moreover have "M' = M1"
  proof -
    have "service_restore now u fid new_path M = sbind (db_transaction ?body) (\<lambda>_. sbind (query (get_file u fid)) (\<lambda>r. slift (ok_or NotFound r))) M"
      by (simp only: service_restore_def)
    then show ?thesis using assms(1) t by (auto simp: sbind_def query_def slift_def split: result.splits)
  qed
  ultimately show ?thesis by simp
qed

section \<open>The counters\<close>

definition used_of :: "string \<Rightarrow> quota_db \<Rightarrow> int" where
  "used_of u Q = (case map_of (qd_users Q) u of Some r \<Rightarrow> uq_used_bytes r | None \<Rightarrow> 0)"

definition quota_ok :: "quota_db \<Rightarrow> bool" where
  "quota_ok Q \<longleftrightarrow> distinct (map fst (qd_users Q)) \<and> list_all (\<lambda>(u, r). is_i64 (uq_used_bytes r)) (qd_users Q)"

text \<open>The statements that hand bytes back and the read after the charge.\<close>

definition counters_answered :: "(account_call \<Rightarrow> bool) \<Rightarrow> bool" where
  "counters_answered up \<longleftrightarrow> up SelectReserved \<and> up AdjustUser \<and> up CreditUser"

text \<open>The counters are ahead of the rows by \<open>d\<close>; \<open>up\<close> are the statements the database answers. A handler that starts with \<open>e\<close> open
  settles it: it ends with no less, and with exactly \<open>e\<close> when the statements above are answered.\<close>

definition open_by :: "(account_call \<Rightarrow> bool) \<Rightarrow> (string \<Rightarrow> int) \<Rightarrow> ('f, 'w) account \<Rightarrow> bool" where
  "open_by up d A \<longleftrightarrow> quota_ok (at_quota A) \<and> at_up A = up \<and> billed (\<lambda>u. used_of u (at_quota A) - d u) (at_manifest A)"

definition settles :: "(account_call \<Rightarrow> bool) \<Rightarrow> (string \<Rightarrow> int) \<Rightarrow> ('f, 'w) account \<Rightarrow> bool" where
  "settles up e A \<longleftrightarrow> (\<exists>d. open_by up d A \<and> (\<forall>u. e u \<le> d u) \<and> (counters_answered up \<longrightarrow> d = e))"

lemma settlesI: "open_by up e A \<Longrightarrow> settles up e A"
  by (auto simp: settles_def)

lemma settles_step: "settles up e A \<Longrightarrow> (\<And>d. open_by up d A \<Longrightarrow> open_by up d A') \<Longrightarrow> settles up e A'"
  by (auto simp: settles_def)

lemma settles_mono: "settles up d A \<Longrightarrow> \<forall>u. e u \<le> d u \<Longrightarrow> (counters_answered up \<longrightarrow> d = e) \<Longrightarrow> settles up e A"
  unfolding settles_def by (elim exE conjE, rule exI) (auto intro: order_trans)

lemma settles_trans:
  assumes "settles up e A" "\<forall>u. 0 \<le> e u" "\<And>d. open_by up d A \<Longrightarrow> \<forall>u. 0 \<le> d u \<Longrightarrow> settles up d A'"
  shows "settles up e A'"
proof -
  obtain d where d: "open_by up d A" "\<forall>u. e u \<le> d u" "counters_answered up \<longrightarrow> d = e" using assms(1) unfolding settles_def by blast
  then have "\<forall>u. 0 \<le> d u" using assms(2) by (meson order_trans)
  then show ?thesis using settles_mono [OF assms(3) [OF d(1)] d(2)] d(3) by blast
qed

lemma map_of_set_used:
  "map_of (qd_users (set_used u f Q)) v
   = map_option (\<lambda>r. if v = u then r\<lparr>uq_used_bytes := f (uq_used_bytes r)\<rparr> else r) (map_of (qd_users Q) v)"
proof -
  have "map_of (map (\<lambda>(w, r). (w, if w = u then r\<lparr>uq_used_bytes := f (uq_used_bytes r)\<rparr> else r)) xs) v
      = map_option (\<lambda>r. if v = u then r\<lparr>uq_used_bytes := f (uq_used_bytes r)\<rparr> else r) (map_of xs v)" for xs
    by (induction xs) auto
  then show ?thesis by (simp add: set_used_def)
qed

lemma used_of_set_used:
  "used_of v (set_used u f Q) = (if v = u \<and> map_of (qd_users Q) u \<noteq> None then f (used_of u Q) else used_of v Q)"
  by (auto simp: used_of_def map_of_set_used split: option.splits)

lemma quota_ok_set_used:
  assumes "quota_ok Q" "\<And>r. map_of (qd_users Q) u = Some r \<Longrightarrow> is_i64 (f (uq_used_bytes r))"
  shows "quota_ok (set_used u f Q)"
proof -
  have "map fst (qd_users (set_used u f Q)) = map fst (qd_users Q)" by (auto simp: set_used_def)
  moreover have "is_i64 (uq_used_bytes r)" if m: "(v, r) \<in> set (qd_users (set_used u f Q))" for v r
  proof -
    obtain q where q: "(v, q) \<in> set (qd_users Q)" "r = (if v = u then q\<lparr>uq_used_bytes := f (uq_used_bytes q)\<rparr> else q)"
      using m unfolding set_used_def by (auto simp: image_iff)
    have "map_of (qd_users Q) v = Some q" using q(1) assms(1) by (simp add: quota_ok_def)
    then show ?thesis using q assms by (auto simp: quota_ok_def list_all_iff)
  qed
  ultimately show ?thesis using assms(1) by (auto simp: quota_ok_def list_all_iff)
qed

lemma used_of_i64: "quota_ok Q \<Longrightarrow> is_i64 (used_of u Q)"
  by (auto simp: used_of_def quota_ok_def list_all_iff is_i64_def split: option.splits dest: map_of_SomeD)

lemma open_by_node:
  assumes "open_by up d A" "at_quota B = at_quota A" "at_up B = at_up A" "m_files (at_manifest B) = m_files (at_manifest A)" "manifest_inv (at_manifest B)"
  shows "open_by up d B"
  using assms by (auto simp: open_by_def intro: billed_same)

text \<open>Handing back a part of what is open.\<close>

lemma hand_back:
  assumes "open_by up d A" "0 \<le> n" "n \<le> d u" "up c"
  shows "\<exists>A'. move_user c u (- n) A = (Ok (), A') \<and> open_by up (d(u := d u - n)) A'"
proof -
  let ?Q = "at_quota A" and ?f = "\<lambda>used. max (used - n) 0"
  have q: "quota_ok ?Q" and b: "billed (\<lambda>u. used_of u ?Q - d u) (at_manifest A)" and up: "at_up A = up" using assms(1) by (simp_all add: open_by_def)
  have le: "0 \<le> used_of u ?Q - n" using b charge_nonneg [of "at_manifest A" u] assms(3) by (simp add: billed_def)
  have i: "is_i64 (used_of u ?Q - n)" using used_of_i64 [OF q, of u] le assms(2) by (simp add: is_i64_def)
  have "list_all (\<lambda>(v, r). v = u \<longrightarrow> is_i64 (uq_used_bytes r + - n)) (qd_users ?Q)"
  proof -
    have "is_i64 (uq_used_bytes r - n)" if "(u, r) \<in> set (qd_users ?Q)" for r
      using i that q by (simp add: used_of_def quota_ok_def)
    then show ?thesis by (auto simp: list_all_iff)
  qed
  then have run: "move_user c u (- n) A = (Ok (), A\<lparr>at_quota := set_used u ?f ?Q\<rparr>)" using assms(4) up by (simp add: move_user_def)
  have "quota_ok (set_used u ?f ?Q)"
    by (rule quota_ok_set_used [OF q]) (use i le in \<open>simp add: used_of_def max_def is_i64_def\<close>)
  moreover have "used_of v (set_used u ?f ?Q) - (d(u := d u - n)) v = used_of v ?Q - d v" for v
    using le assms(2) by (auto simp: used_of_set_used) (simp add: used_of_def)
  ultimately have "open_by up (d(u := d u - n)) (A\<lparr>at_quota := set_used u ?f ?Q\<rparr>)" using b up by (simp add: open_by_def)
  then show ?thesis using run by simp
qed

lemma hand_back_settles:
  assumes "open_by up (e(u := e u + n)) A" "0 \<le> n" "0 \<le> e u" "c \<in> {AdjustUser, CreditUser}" "move_user c u (- n) A = (r, A')"
  shows "settles up e A'"
proof (cases "up c")
  case True
  from hand_back [where u = u, OF assms(1,2) _ True] have "open_by up e A'" using assms(3,5) by (auto simp: fun_upd_idem)
  then show ?thesis by (rule settlesI)
next
  case False
  then have "A' = A" using assms(1,5) by (auto simp: move_user_def open_by_def)
  moreover have "\<not> counters_answered up" using False assms(4) by (auto simp: counters_answered_def)
  ultimately show ?thesis using settles_mono [OF settlesI [OF assms(1)], of e] assms(2) by simp
qed

lemma adjust_back:
  assumes "open_by up (e(u := e u + n)) A" "0 \<le> n" "0 \<le> e u"
  shows "settles up e (adjust_user_used u (- n) A)"
proof (cases "n = 0")
  case True
  then show ?thesis using assms by (simp add: adjust_user_used_def fun_upd_idem settlesI)
next
  case False
  then show ?thesis using hand_back_settles [OF assms, of AdjustUser] by (simp add: adjust_user_used_def) (metis prod.collapse)
qed

lemma move_node_open: "open_by up d A \<Longrightarrow> move_node c n A = (r, A') \<Longrightarrow> open_by up d A'"
  by (auto simp: move_node_def open_by_def used_of_def quota_ok_def split: if_splits)

lemma snd_move_node_open: "open_by up d A \<Longrightarrow> open_by up d (snd (move_node c n A))"
  using move_node_open by (metis prod.collapse)

lemma gc_open: "open_by up d A \<Longrightarrow> open_by up d (enqueue_remote_gc remote A)"
  by (simp add: enqueue_remote_gc_def open_by_def)

lemma log_open: "open_by up d A \<Longrightarrow> open_by up d (insert_log e A)"
  by (simp add: insert_log_def open_by_def)

lemma credit_back:
  assumes "open_by up (e(u := e u + n)) A" "0 \<le> n" "0 \<le> e u" "credit_freed_space u n stored A = (r, A')"
  shows "settles up e A'"
proof -
  obtain q A1 where m: "move_user CreditUser u (- n) A = (q, A1)" by (rule prod.exhaust)
  have "settles up e A1" by (rule hand_back_settles [OF assms(1-3) _ m]) simp
  moreover have "A' = A1 \<or> A' = snd (move_node CreditNode (- stored) A1)"
    using assms(4) m by (cases q) (auto simp: credit_freed_space_def sbind_def)
  ultimately show ?thesis using settles_step snd_move_node_open by metis
qed

section \<open>Peers and reads\<close>

lemma send_out_files:
  "m_files (nd_manifest (si_node (send_out C recorded peers job S))) = m_files (nd_manifest (si_node S))
   \<and> (manifest_inv (nd_manifest (si_node S)) \<longrightarrow> manifest_inv (nd_manifest (si_node (send_out C recorded peers job S))))"
proof -
  have "m_files (nd_manifest (snd (on_db (set_location f p) N))) = m_files (nd_manifest N)
      \<and> (manifest_inv (nd_manifest N) \<longrightarrow> manifest_inv (nd_manifest (snd (on_db (set_location f p) N))))" for f p N
    using preservesD [OF preserves_inv(9), of "nd_manifest N" f p]
    by (auto simp: set_location_def on_db_def set_shard_location_def split: prod.splits)
  then show ?thesis by (auto simp: send_out_def Let_def split: prod.splits option.splits)
qed

lemma distribute_files:
  "m_files (nd_manifest (si_node (distribute_shards C order recorded maps ia ga pi ps u f S))) = m_files (nd_manifest (si_node S))
   \<and> (manifest_inv (nd_manifest (si_node S)) \<longrightarrow> manifest_inv (nd_manifest (si_node (distribute_shards C order recorded maps ia ga pi ps u f S))))"
proof -
  have "m_files (nd_manifest (si_node (fold (send_out C recorded peers) jobs T))) = m_files (nd_manifest (si_node T))
      \<and> (manifest_inv (nd_manifest (si_node T)) \<longrightarrow> manifest_inv (nd_manifest (si_node (fold (send_out C recorded peers) jobs T))))" for peers jobs T
    by (induction jobs arbitrary: T) (simp_all add: send_out_files)
  then show ?thesis by (auto simp: distribute_shards_def Let_def split: prod.splits option.splits result.splits if_splits)
qed

lemma spread_open: "open_by up d A \<Longrightarrow> open_by up d (spread_file X u f A)"
  by (rule open_by_node [of up d A]) (simp_all add: spread_file_def distribute_files open_by_def billed_def)

lemma gather_node: "gather_shards C peers ss held got S = (h, S') \<Longrightarrow> si_node S' = si_node S"
proof (induction ss arbitrary: held got S)
  case (Cons s ss)
  have f: "si_node S1 = si_node S" if "fetch_shard_for_read C peers s S = (x, S1)" for x S1
    using that by (auto simp: fetch_shard_for_read_def Let_def split: if_splits option.splits prod.splits result.splits p2p_message.splits)
  obtain idx b S1 where r: "fetch_shard_for_read C peers s S = ((idx, b), S1)" by (metis prod_cases3 prod.collapse)
  then show ?case using Cons.prems Cons.IH f [OF r] by (auto simp: Let_def split: option.splits if_splits)
qed simp

lemma window_node: "read_window C order done_at peers k flight queue fetched S = (x, S') \<Longrightarrow> si_node S' = si_node S"
proof (induction C order done_at peers k flight queue fetched S rule: read_window.induct)
  case (1 C order done_at peers k flight queue fetched S)
  show ?case
  proof (cases "flight = []")
    case True
    then show ?thesis using "1.prems" read_window.simps [of C order done_at peers k "[]" queue fetched S] by simp
  next
    case False
    let ?j = "done_at k mod length flight"
    obtain i c shards where j: "flight ! ?j = (i, c, shards)" by (metis prod_cases3)
    obtain held S1 where h: "fetch_chunk_shards C order peers shards S = (held, S1)" by (rule prod.exhaust)
    have run: "read_window C order done_at peers (k + 1) (take ?j flight @ drop (?j + 1) flight @ take 1 queue) (drop 1 queue)
        (fetched @ [(i, c, held)]) S1 = (x, S')"
      using "1.prems" False j h by (subst (asm) read_window.simps) (simp add: Let_def)
    have "si_node S' = si_node S1" using "1.IH" [OF False refl j [symmetric] refl refl h [symmetric] refl] run by simp
    then show ?thesis using gather_node h by (metis fetch_chunk_shards_def)
  qed
qed

lemma reassemble_node: "fetch_and_reassemble C order done_at f plan S = (x, S') \<Longrightarrow> si_node S' = si_node S"
  using window_node by (auto simp: fetch_and_reassemble_def Let_def split: prod.splits)

lemma reconstruct_node: "reconstruct_file C order done_at u f S = (x, S') \<Longrightarrow> si_node S' = si_node S"
  by (auto simp: reconstruct_file_def fetch_plan_def sbind_def slift_def split: prod.splits result.splits option.splits if_splits dest!: reassemble_node)

lemma read_open: "open_by up d A \<Longrightarrow> read_file X u f A = (x, A') \<Longrightarrow> open_by up d A'"
  by (rule open_by_node [of up d A]) (auto simp: read_file_def open_by_def billed_def split: prod.splits result.splits dest!: reconstruct_node)

section \<open>The handlers keep the balance\<close>

lemma blocking_open:
  assumes "blocking m A = (r, A')"
  shows "\<exists>x N. m (at_node A) = (x, N) \<and> at_quota A' = at_quota A \<and> at_up A' = at_up A \<and> at_node A' = N
    \<and> (case x of Ok v \<Rightarrow> r = Ok v | _ \<Rightarrow> \<exists>e. r = Err e)"
  using assms by (cases "m (at_node A)") (auto simp: blocking_def set_node_def split: result.splits)

lemma open_byI:
  assumes "open_by up d A" "at_quota A' = at_quota A" "at_up A' = at_up A" "billed (\<lambda>u. used_of u (at_quota A) - d' u) (at_manifest A')"
  shows "open_by up d' A'"
  using assms by (simp add: open_by_def)

lemma manifest_open:
  assumes "on_manifest m A = (r, A')" "open_by up d A" "\<And>c M x M'. billed c M \<Longrightarrow> M = at_manifest A \<Longrightarrow> m M = (x, M') \<Longrightarrow> billed c M'"
  shows "open_by up d A'"
proof -
  obtain x N where r: "on_db m (at_node A) = (x, N)" "at_quota A' = at_quota A" "at_up A' = at_up A" "at_node A' = N"
    using blocking_open [OF assms(1) [unfolded on_manifest_def]] by blast
  obtain y M' where m: "m (at_manifest A) = (y, M')" by (rule prod.exhaust)
  have "billed (\<lambda>u. used_of u (at_quota A) - d u) (at_manifest A)" using assms(2) by (simp add: open_by_def)
  then have "billed (\<lambda>u. used_of u (at_quota A) - d u) M'" using assms(3) m by blast
  moreover have "at_manifest A' = M'" unfolding r(4) using r(1) m by (cases "at_node A") (auto simp: on_db_def)
  ultimately show ?thesis using r(2,3) by (intro open_byI [OF assms(2)]) simp_all
qed

lemma ensure_effect:
  assumes "ensure q u Q = (r, Q')"
  shows "quota_ok Q \<longrightarrow> quota_ok Q' \<and> (\<forall>v. used_of v Q' = used_of v Q)"
proof -
  have ins: "quota_ok Q \<longrightarrow> quota_ok ((insert_quota u g Q)\<lparr>qd_events := ev\<rparr>) \<and> (\<forall>v. used_of v ((insert_quota u g Q)\<lparr>qd_events := ev\<rparr>) = used_of v Q)" for g ev
    by (cases "map_of (qd_users Q) u") (auto simp: insert_quota_def quota_ok_def used_of_def is_i64_def dest: map_of_eq_None_iff [THEN iffD1])
  have "Q' = Q \<or> (\<exists>g ev. Q' = (insert_quota u g Q)\<lparr>qd_events := ev\<rparr>)"
  proof -
    have same: "D' = D" if "ask k f D = (x, D')" for k and f :: "quota_db \<Rightarrow> 'z" and D D' x using that by (auto simp: ask_def split: if_splits)
    have sum: "D' = D" if "sum_bigint k P D = (x, D')" for k P D D' x using that by (auto simp: sum_bigint_def Let_def split: if_splits)
    have g: "D' = D \<or> (\<exists>g ev. D' = (insert_quota u g D)\<lparr>qd_events := ev\<rparr>)" if "grant q u D = (Ok x, D')" for D D' x
      using that
      by (auto simp: grant_def sbind_Ok_iff ask_def sum_bigint_def tell_def Let_def sreturn_def split: if_splits option.splits)
        (metis (no_types, lifting) quota_db.surjective quota_db.update_convs(4))+
    show ?thesis using assms
      by (auto simp: ensure_def quota_tx_def sbind_def read_row_def ask_def split: if_splits option.splits result.splits prod.splits dest!: g)
  qed
  then show ?thesis using ins by auto
qed

lemma set_quota_effect:
  assumes "set_quota user q Q = (r, Q')" "quota_ok Q"
  shows "quota_ok Q' \<and> (\<forall>v. used_of v Q' = used_of v Q)"
proof -
  have "Q' = Q \<or> Q' = upsert_quota user q Q"
  proof -
    obtain x Q1 where c: "set_quota_check user q Q = (x, Q1)" by (rule prod.exhaust)
    then have "Q1 = Q" by (rule check_pure)
    then show ?thesis using assms(1) c by (auto simp: set_quota_def sbind_def tell_def split: result.splits if_splits)
  qed
  moreover have "quota_ok (upsert_quota user q Q) \<and> (\<forall>v. used_of v (upsert_quota user q Q) = used_of v Q)"
  proof
    let ?row = "case map_of (qd_users Q) user of Some r \<Rightarrow> r\<lparr>uq_quota_bytes := q\<rparr> | None \<Rightarrow> \<lparr>uq_quota_bytes = q, uq_used_bytes = 0\<rparr>"
    have i: "is_i64 (uq_used_bytes ?row)"
      using used_of_i64 [OF assms(2), of user] by (auto simp: used_of_def is_i64_def split: option.splits)
    have "set (AList.update user v xs) \<subseteq> insert (user, v) (set xs)" for v and xs :: "(string \<times> quota_row) list" by (induction xs) auto
    then have sub: "set (AList.update user ?row (qd_users Q)) \<subseteq> insert (user, ?row) (set (qd_users Q))" .
    have "list_all (\<lambda>(u, r). is_i64 (uq_used_bytes r)) (AList.update user ?row (qd_users Q))"
      unfolding list_all_iff
    proof
      fix e assume "e \<in> set (AList.update user ?row (qd_users Q))"
      then have "e = (user, ?row) \<or> e \<in> set (qd_users Q)" using sub by blast
      then show "case e of (u, r) \<Rightarrow> is_i64 (uq_used_bytes r)" using i assms(2) by (auto simp: quota_ok_def list_all_iff)
    qed
    then show "quota_ok (upsert_quota user q Q)"
      using assms(2) by (simp add: quota_ok_def upsert_quota_def distinct_update)
    show "\<forall>v. used_of v (upsert_quota user q Q) = used_of v Q"
      by (auto simp: used_of_def upsert_quota_def update_conv' split: option.splits)
  qed
  ultimately show ?thesis using assms(2) by auto
qed

lemma reserve_open:
  assumes "open_by up e A" "reserve u n A = (r, A')"
  shows "(r = Ok 1 \<and> open_by up (e(u := e u + n)) A') \<or> (r \<noteq> Ok 1 \<and> (\<forall>k. r = Ok k \<longrightarrow> k = 0) \<and> A' = A)"
proof (cases "map_of (qd_users (at_quota A)) u")
  case None
  then show ?thesis using assms(2) by (auto simp: reserve_def split: if_splits)
next
  case (Some row)
  show ?thesis
  proof (cases "r = Ok 1")
    case False
    then show ?thesis using assms(2) Some by (auto simp: reserve_def split: if_splits)
  next
    case True
    let ?Q = "set_used u (\<lambda>used. used + n) (at_quota A)"
    have A': "A' = A\<lparr>at_quota := ?Q\<rparr>" and i: "is_i64 (uq_used_bytes row + n)"
      using assms(2) Some True by (auto simp: reserve_def split: if_splits)
    have "(\<lambda>v. used_of v ?Q - (e(u := e u + n)) v) = (\<lambda>v. used_of v (at_quota A) - e v)" using Some by (auto simp: used_of_set_used)
    moreover have "quota_ok ?Q" by (rule quota_ok_set_used) (use assms(1) Some i in \<open>simp_all add: open_by_def\<close>)
    ultimately have "open_by up (e(u := e u + n)) A'" using assms(1) unfolding A' open_by_def by simp
    then show ?thesis using True by simp
  qed
qed

lemma store_upload_settles:
  assumes "open_by up (e(u := e u + int (length body))) A" "0 \<le> e u" "\<not> prefix PACK_PATH_PREFIX path" "store_upload X rnd now u path body A = (r, A')"
  shows "settles up e A'"
proof -
  let ?n = "int (length body)" and ?d = "e(u := e u + int (length body))" and ?C = "hc_ctx X"
  let ?push = "push (rc_env ?C) (rc_ident ?C) (rc_root ?C) rnd now u path body"
  let ?c = "\<lambda>v. used_of v (at_quota A) - ?d v"
  obtain q A1 where b: "blocking ?push A = (q, A1)" by (rule prod.exhaust)
  obtain x N where p: "?push (at_node A) = (x, N)" "at_quota A1 = at_quota A" "at_up A1 = at_up A" "at_node A1 = N"
    and q: "case x of Ok v \<Rightarrow> q = Ok v | _ \<Rightarrow> \<exists>e. q = Err e"
    using blocking_open [OF b] by blast
  have c: "billed ?c (at_manifest A)" using assms(1) by (simp add: open_by_def)
  note pb = push_billed [OF p(1) c assms(3)]
  show ?thesis
  proof (cases "\<exists>res. x = Ok res \<and> \<not> pr_unchanged res")
    case True
    then obtain res where res: "x = Ok res" "\<not> pr_unchanged res" by blast
    have "?c(u := ?c u + ?n) = (\<lambda>v. used_of v (at_quota A) - e v)" by auto
    then have o: "open_by up e A1" using pb res by (intro open_byI [OF assms(1) p(2,3)]) (simp add: p(4))
    have "adjust_user_used u (pr_size res - ?n) A1 = A1" using pb res by (simp add: adjust_user_used_def)
    then show ?thesis using assms(4) b q res spread_open [OF snd_move_node_open [OF o]] by (auto simp: store_upload_def Let_def intro: settlesI)
  next
    case False
    then have "billed ?c (at_manifest A1)" using pb p(4) by (auto split: result.splits if_splits)
    then have "open_by up ?d A1" by (rule open_byI [OF assms(1) p(2,3)])
    then have "settles up e (adjust_user_used u (- ?n) A1)" by (rule adjust_back) (simp_all add: assms(2))
    then show ?thesis using assms(4) b q False by (cases x) (auto simp: store_upload_def Let_def)
  qed
qed

lemma reserved_settles:
  assumes "open_by up (e(u := e u + int (length body))) A" "0 \<le> e u" "\<not> prefix PACK_PATH_PREFIX path" "map_of (qd_users (at_quota A)) u \<noteq> None"
    and "sbind (select_used u) (\<lambda>reserved. case reserved of None \<Rightarrow> slift (Err (BadRequest ''quota exceeded''))
           | Some _ \<Rightarrow> store_upload X rnd now u path body) A = (r, A')"
  shows "settles up e A'"
proof (cases "up SelectReserved")
  case True
  then have "store_upload X rnd now u path body A = (r, A')" using assms(1,4,5) by (auto simp: sbind_def select_used_def open_by_def)
  then show ?thesis by (rule store_upload_settles [OF assms(1-3)])
next
  case False
  then have "A' = A" using assms(1,5) by (auto simp: sbind_def select_used_def open_by_def)
  moreover have "\<not> counters_answered up" using False by (simp add: counters_answered_def)
  ultimately show ?thesis using settles_mono [OF settlesI [OF assms(1)], of e] by simp
qed

lemma upload_settles:
  assumes "open_by up e A" "\<forall>u. 0 \<le> e u" "\<not> prefix PACK_PATH_PREFIX (trim q_path)" "upload X rnd now u q_path body A = (r, A')"
  shows "settles up e A'"
proof -
  let ?n = "int (length body)"
  show ?thesis
  proof (cases "trim q_path = [] \<or> ?n > hc_max_upload_bytes X")
    case True
    then have "A' = A" using assms(4) by (auto simp: upload_def Let_def slift_def split: if_splits)
    then show ?thesis using assms(1) by (simp add: settlesI)
  next
    case False
    obtain x Q where en: "ensure (hc_default_quota X) u (at_quota A) = (x, Q)" by (rule prod.exhaust)
    have "quota_ok (at_quota A)" using assms(1) by (simp add: open_by_def)
    then have B: "open_by up e (A\<lparr>at_quota := Q\<rparr>)" using ensure_effect [OF en] assms(1) by (simp add: open_by_def)
    obtain k A2 where k: "reserve u ?n (A\<lparr>at_quota := Q\<rparr>) = (k, A2)" by (rule prod.exhaust)
    note ro = reserve_open [OF B k]
    show ?thesis
    proof (cases "\<exists>v. x = Ok v")
      case False
      then show ?thesis
        using assms(4) settlesI [OF B] en \<open>\<not> (trim q_path = [] \<or> ?n > hc_max_upload_bytes X)\<close>
        by (cases x) (auto simp: upload_def Let_def sbind_def on_quota_def)
    next
      case True
      then have run: "(case k of Ok got \<Rightarrow> sbind (if got \<ge> 1 then select_used u else sreturn None) (\<lambda>reserved.
             case reserved of None \<Rightarrow> slift (Err (BadRequest ''quota exceeded''))
             | Some _ \<Rightarrow> store_upload X rnd now u (trim q_path) body) A2 | Err e \<Rightarrow> (Err e, A2) | Panic \<Rightarrow> (Panic, A2)) = (r, A')"
        using assms(4) en k \<open>\<not> (trim q_path = [] \<or> ?n > hc_max_upload_bytes X)\<close>
        by (auto simp: upload_def Let_def sbind_def on_quota_def split: result.splits)
      show ?thesis
      proof (cases "k = Ok 1")
        case False
        then have "A2 = A\<lparr>at_quota := Q\<rparr>" "\<And>j. k = Ok j \<Longrightarrow> j = 0" using ro by auto
        then show ?thesis using run settlesI [OF B] by (cases k) (auto simp: sbind_def sreturn_def slift_def)
      next
        case k1: True
        then have O: "open_by up (e(u := e u + ?n)) A2" using ro by blast
        have m: "map_of (qd_users (at_quota A2)) u \<noteq> None"
          using k k1 by (auto simp: reserve_def map_of_set_used split: if_splits option.splits)
        show ?thesis by (rule reserved_settles [OF O _ assms(3) m]) (use run k1 assms(2) in simp_all)
      qed
    qed
  qed
qed

lemma purge_settles:
  assumes "open_by up e A" "\<forall>u. 0 \<le> e u" "purge X u fid A = (r, A')"
    and "\<And>x. x \<in> set (m_files (at_manifest A)) \<Longrightarrow> d_user_id x = u \<Longrightarrow> d_file_id x = fid \<Longrightarrow> \<not> pack_row x"
  shows "settles up e A'"
proof -
  let ?c = "\<lambda>v. used_of v (at_quota A) - e v"
  obtain q A1 where b: "blocking (purge_file (rc_root (hc_ctx X)) u fid) A = (q, A1)" by (rule prod.exhaust)
  obtain x N where p: "purge_file (rc_root (hc_ctx X)) u fid (at_node A) = (x, N)" "at_quota A1 = at_quota A" "at_up A1 = at_up A" "at_node A1 = N"
    and q: "case x of Ok v \<Rightarrow> q = Ok v | _ \<Rightarrow> \<exists>e. q = Err e"
    using blocking_open [OF b] by blast
  have c: "billed ?c (at_manifest A)" using assms(1) by (simp add: open_by_def)
  note pb = purge_file_billed [OF p(1) c assms(4)]
  show ?thesis
  proof (cases "\<exists>row remote. x = Ok (row, remote)")
    case True
    then obtain row remote where x: "x = Ok (row, remote)" by blast
    let ?d = "e(u := e u + f_size row)"
    have "?c(u := ?c u - f_size row) = (\<lambda>w. used_of w (at_quota A) - ?d w)" by auto
    moreover have "billed (?c(u := ?c u - f_size row)) (nd_manifest N)" and sz: "0 \<le> f_size row"
      using pb by (simp_all only: x result.case prod.case)
    ultimately have "billed (\<lambda>w. used_of w (at_quota A) - ?d w) (at_manifest A1)" unfolding p(4) by (simp only:)
    then have "open_by up ?d A1" by (rule open_byI [OF assms(1) p(2,3)])
    moreover obtain z A2 where z: "credit_freed_space u (f_size row) (f_stored_bytes row) A1 = (z, A2)" by (rule prod.exhaust)
    ultimately have s: "settles up e A2" using credit_back sz assms(2) by blast
    have "settles up e (enqueue_remote_gc remote A2)" by (rule settles_step [OF s]) (rule gc_open)
    then show ?thesis using s assms(3) b q x z by (auto simp: purge_def sbind_def sreturn_def split: result.splits)
  next
    case False
    then have "(\<exists>y. x = Err y) \<or> x = Panic" by (metis result.exhaust prod.exhaust)
    then have "N = at_node A"
    proof (elim disjE exE)
      show "x = Err y \<Longrightarrow> N = at_node A" for y using pb by (simp only: result.case)
      show "x = Panic \<Longrightarrow> N = at_node A" using pb by (simp only: result.case)
    qed
    then have "open_by up e A1" using c unfolding p(4) [symmetric] by (intro open_byI [OF assms(1) p(2,3)]) (simp only:)
    then show ?thesis using assms(3) b q False by (cases x) (auto simp: purge_def sbind_def intro: settlesI)
  qed
qed

lemma empty_trash_settles:
  assumes "open_by up e A" "\<forall>u. 0 \<le> e u" "empty_trash_handler X u A = (r, A')"
  shows "settles up e A'"
proof -
  let ?c = "\<lambda>v. used_of v (at_quota A) - e v"
  obtain q A1 where b: "blocking (empty_trash (rc_root (hc_ctx X)) u) A = (q, A1)" by (rule prod.exhaust)
  obtain x N where p: "empty_trash (rc_root (hc_ctx X)) u (at_node A) = (x, N)" "at_quota A1 = at_quota A" "at_up A1 = at_up A" "at_node A1 = N"
    and q: "case x of Ok v \<Rightarrow> q = Ok v | _ \<Rightarrow> \<exists>e. q = Err e"
    using blocking_open [OF b] by blast
  have c: "billed ?c (at_manifest A)" using assms(1) by (simp add: open_by_def)
  obtain sm remote where s: "x = Ok (sm, remote)" "billed (?c(u := ?c u - ts_size sm)) (nd_manifest N)" "0 \<le> ts_size sm"
    using empty_trash_billed [OF p(1) c] by blast
  let ?d = "e(u := e u + ts_size sm)"
  have "?c(u := ?c u - ts_size sm) = (\<lambda>w. used_of w (at_quota A) - ?d w)" by auto
  then have "billed (\<lambda>w. used_of w (at_quota A) - ?d w) (at_manifest A1)" using s(2) unfolding p(4) by simp
  then have "open_by up ?d A1" by (rule open_byI [OF assms(1) p(2,3)])
  moreover obtain z A2 where z: "credit_freed_space u (ts_size sm) (ts_stored_bytes sm) A1 = (z, A2)" by (rule prod.exhaust)
  ultimately have st: "settles up e A2" using credit_back s(3) assms(2) by blast
  have "settles up e (enqueue_remote_gc remote A2)" by (rule settles_step [OF st]) (rule gc_open)
  then show ?thesis using st assms(3) b q s(1) z by (auto simp: empty_trash_handler_def sbind_def sreturn_def split: result.splits)
qed

lemma freed_users:
  assumes "purge_retired root days_ago policy S = (Ok rep, T)" "(u, x) \<in> set (pu_freed rep)"
  shows "\<exists>r\<in>set (m_files (nd_manifest S)). d_user_id r = u"
proof -
  let ?cands = "sweep_candidates days_ago policy (nd_manifest S)"
  have "\<exists>m. pu_freed rep = freed_list ?cands m"
    using assms(1)
    by (auto simp: purge_retired_def sbind_def transaction_def on_db_def Let_def sreturn_def split: prod.splits result.splits)
  then obtain m where "pu_freed rep = freed_list ?cands m" ..
  then have "map_of (freed_list ?cands m) u \<noteq> None" using assms(2) by (metis weak_map_of_SomeI option.distinct(1))
  then have "u \<in> fst ` set ?cands" by (auto simp: freed_list_lookup split: if_splits)
  then show ?thesis by (auto simp: sweep_candidates_set cand_of_def)
qed

abbreviation freed_of :: "(string \<times> int \<times> int) list \<Rightarrow> string \<Rightarrow> int" where
  "freed_of fs u \<equiv> fst (coalesce (map_of fs u) (0, 0))"

lemma credit_each_settles:
  assumes "credit_each X fs z st A = (a, b, A')" "distinct (map fst fs)" "\<forall>u sz st. (u, sz, st) \<in> set fs \<longrightarrow> 0 \<le> sz \<and> hc_parse_uuid X u = Some u"
    and "open_by up (\<lambda>u. e u + freed_of fs u) A" "\<forall>u. 0 \<le> e u"
  shows "settles up e A'"
  using assms
proof (induction fs arbitrary: z st A e)
  case Nil
  then show ?case by (simp add: coalesce_def settlesI)
next
  case (Cons f fs)
  obtain u sz s where f: "f = (u, sz, s)" by (metis prod_cases3)
  let ?d = "\<lambda>v. e v + freed_of (f # fs) v"
  have pos: "0 \<le> sz" and pu: "hc_parse_uuid X u = Some u" using Cons.prems(3) by (auto simp: f)
  have "map_of fs u = None" using Cons.prems(2) by (simp add: f map_of_eq_None_iff)
  then have d: "?d u = e u + sz" "?d(u := ?d u - sz) = (\<lambda>v. e v + freed_of fs v)" "?d = (\<lambda>v. (e(u := e u + sz)) v + freed_of fs v)"
    by (auto simp: f coalesce_def)
  obtain r A1 where m: "move_user CreditUser u (- sz) A = (r, A1)" by (rule prod.exhaust)
  have rest: "credit_each X fs (i64 (z + sz)) (i64 (st + s)) A1 = (a, b, A')" using Cons.prems(1) m pu by (simp add: f)
  have fs: "distinct (map fst fs)" "\<forall>u sz st. (u, sz, st) \<in> set fs \<longrightarrow> 0 \<le> sz \<and> hc_parse_uuid X u = Some u" using Cons.prems(2,3) by auto
  show ?case
  proof (cases "up CreditUser")
    case True
    have "sz \<le> ?d u" using d(1) Cons.prems(5) by simp
    from hand_back [OF Cons.prems(4) pos this True] m have "open_by up (\<lambda>v. e v + freed_of fs v) A1" unfolding d(2) by auto
    then show ?thesis using Cons.IH [OF rest fs] Cons.prems(5) by blast
  next
    case False
    then have "A1 = A" using Cons.prems(4) m by (auto simp: move_user_def open_by_def)
    then have "open_by up (\<lambda>v. (e(u := e u + sz)) v + freed_of fs v) A1" using Cons.prems(4) unfolding d(3) by simp
    then have "settles up (e(u := e u + sz)) A'" by (rule Cons.IH [OF rest fs]) (use Cons.prems(5) pos in auto)
    then show ?thesis by (rule settles_mono) (use pos False in \<open>auto simp: counters_answered_def\<close>)
  qed
qed

lemma sweep_settles:
  assumes "open_by up e A" "\<forall>u. 0 \<le> e u" "purge_retired_now X days_ago A = (r, A')"
    and "\<And>x. x \<in> set (m_files (at_manifest A)) \<Longrightarrow> hc_parse_uuid X (d_user_id x) = Some (d_user_id x)"
  shows "settles up e A'"
proof -
  let ?m = "purge_retired (rc_root (hc_ctx X)) days_ago RetentionPolicy_default" and ?c = "\<lambda>v. used_of v (at_quota A) - e v"
  obtain q A1 where b: "blocking ?m A = (q, A1)" by (rule prod.exhaust)
  obtain x N where p: "?m (at_node A) = (x, N)" "at_quota A1 = at_quota A" "at_up A1 = at_up A" "at_node A1 = N"
    and q: "case x of Ok v \<Rightarrow> q = Ok v | _ \<Rightarrow> \<exists>e. q = Err e"
    using blocking_open [OF b] by blast
  have c: "billed ?c (at_manifest A)" using assms(1) by (simp add: open_by_def)
  obtain rep where rep: "x = Ok rep" "distinct (map fst (pu_freed rep))" "billed (\<lambda>u. ?c u - freed_of (pu_freed rep) u) (nd_manifest N)"
    "\<forall>u sz st. (u, sz, st) \<in> set (pu_freed rep) \<longrightarrow> 0 \<le> sz"
    using sweep_billed [OF p(1) c] by blast
  let ?d = "\<lambda>u. e u + freed_of (pu_freed rep) u"
  have "(\<lambda>u. ?c u - freed_of (pu_freed rep) u) = (\<lambda>u. used_of u (at_quota A) - ?d u)" by auto
  then have "billed (\<lambda>u. used_of u (at_quota A) - ?d u) (at_manifest A1)" using rep(3) unfolding p(4) by simp
  then have o: "open_by up ?d A1" by (rule open_byI [OF assms(1) p(2,3)])
  have ids: "\<forall>u sz st. (u, sz, st) \<in> set (pu_freed rep) \<longrightarrow> 0 \<le> sz \<and> hc_parse_uuid X u = Some u"
    using rep(4) freed_users [OF p(1) [unfolded rep(1)]] assms(4) by metis
  obtain sz st A2 where cr: "credit_each X (pu_freed rep) 0 0 A1 = (sz, st, A2)" by (metis prod_cases3)
  have s: "settles up e A2" by (rule credit_each_settles [OF cr rep(2) ids o assms(2)])
  have "q = Ok rep" using q rep(1) by simp
  then have "A' = (let A3 = (if st > 0 then snd (move_node CreditNode (- st) A2) else A2); A4 = enqueue_remote_gc (pu_remote rep) A3
      in if pu_files rep > 0 then insert_log (TrashPurged (pu_files rep) sz st) A4 else A4)"
    using assms(3) b cr by (simp add: purge_retired_now_def Let_def split: if_splits)
  moreover have "open_by up d \<dots>" if "open_by up d A2" for d
    using that by (auto simp: Let_def intro: gc_open log_open snd_move_node_open)
  ultimately show ?thesis using settles_step [OF s] by blast
qed

lemma settled_open: "open_by up d A \<Longrightarrow> settled X u r (t, A) = (t', A') \<Longrightarrow> open_by up d A'"
proof -
  assume o: "open_by up d A" and s: "settled X u r (t, A) = (t', A')"
  have "open_by up d (adjust_node_stored n A)" for n
    using o snd_move_node_open by (auto simp: adjust_node_stored_def)
  then show ?thesis using s
    by (auto simp: settled_def settle_pack_write_def Let_def intro: gc_open spread_open split: option.splits)
qed

lemma pack_blocking_open:
  assumes "open_by up d A" "blocking m A = (q, A')" "\<And>c S x T. m S = (x, T) \<Longrightarrow> billed c (nd_manifest S) \<Longrightarrow> billed c (nd_manifest T)"
  shows "open_by up d A'"
proof -
  obtain x N where p: "m (at_node A) = (x, N)" "at_quota A' = at_quota A" "at_up A' = at_up A" "at_node A' = N"
    using blocking_open [OF assms(2)] by blast
  have "billed (\<lambda>v. used_of v (at_quota A) - d v) (at_manifest A)" using assms(1) by (simp add: open_by_def)
  from assms(3) [OF p(1) this] show ?thesis unfolding p(4) [symmetric] by (rule open_byI [OF assms(1) p(2,3)])
qed

lemma gather_group_open: "open_by up d A \<Longrightarrow> gather_group X u fs es A = (r, A') \<Longrightarrow> open_by up d A'"
  by (induction fs arbitrary: es A) (auto split: prod.splits option.splits dest: read_open)

lemma repack_group_open: "open_by up d A \<Longrightarrow> repack_group X fresh u grp (t, A) = (t', A') \<Longrightarrow> open_by up d A'"
proof -
  assume o: "open_by up d A" and g: "repack_group X fresh u grp (t, A) = (t', A')"
  obtain es A1 where es: "gather_group X u grp [] A = (es, A1)" by (rule prod.exhaust)
  note o1 = gather_group_open [OF o es]
  obtain q A2 where b: "blocking (pack_files (rc_env (hc_ctx X)) (rc_ident (hc_ctx X)) (rc_root (hc_ctx X)) (fst fresh) (snd fresh) u es) A1 = (q, A2)"
    by (rule prod.exhaust)
  have "open_by up d A2" by (rule pack_blocking_open [OF o1 b]) (rule pack_files_billed)
  then show ?thesis using g es b o1 settled_open by (auto simp: repack_group_def split: if_splits result.splits)
qed

lemma repack_groups_open: "open_by up d (snd tA) \<Longrightarrow> repack_group_list X src n u gs tA = (m, tB) \<Longrightarrow> open_by up d (snd tB)"
proof (induction gs arbitrary: n tA)
  case (Cons g gs)
  have "open_by up d (snd (repack_group X (src n) u g tA))"
    using repack_group_open [of up d "snd tA" X "src n" u g "fst tA"] Cons.prems(1) by (metis prod.collapse)
  then show ?case using Cons by simp
qed simp

lemma repack_users_open: "open_by up d (snd tA) \<Longrightarrow> open_by up d (snd (repack_users X src n us tA))"
  by (induction us arbitrary: n tA) (auto split: prod.splits dest: repack_groups_open)

lemma repack_open: "open_by up d A \<Longrightarrow> repack_all_now X src A = (t, A') \<Longrightarrow> open_by up d A'"
  using repack_users_open [of up d "(no_totals, A)" X src 0 "users_with_packable (at_manifest A)"]
  by (auto simp: repack_all_now_def log_open split: prod.splits if_splits)

lemma survivors_open: "open_by up d A \<Longrightarrow> survivors_of X pack n A = (r, A') \<Longrightarrow> open_by up d A'"
  by (auto simp: survivors_of_def split: if_splits prod.splits option.splits dest: read_open)

lemma compact_one_open: "open_by up d (snd tA) \<Longrightarrow> open_by up d (snd (compact_one X fresh occ tA))"
proof -
  assume o: "open_by up d (snd tA)"
  obtain pack live n where occ: "occ = (pack, live, n)" by (metis prod_cases3)
  obtain es A1 where s: "survivors_of X pack n (snd tA) = (es, A1)" by (rule prod.exhaust)
  note o1 = survivors_open [OF o s]
  have "open_by up d A2" if "blocking (compact_pack (rc_env (hc_ctx X)) (rc_ident (hc_ctx X)) (rc_root (hc_ctx X)) (fst fresh) (snd fresh) (f_user_id pack) (f_file_id pack) ss) A1 = (q, A2)" for q A2 ss
    by (rule pack_blocking_open [OF o1 that]) (rule compact_pack_billed)
  moreover have "open_by up d (snd (settled X v r (t, A2)))" if "open_by up d A2" for v r t A2
    using settled_open [OF that] by (metis prod.collapse)
  ultimately show ?thesis using o o1 s occ by (auto simp: compact_one_def split: option.splits result.splits prod.splits)
qed

lemma compact_each_open: "open_by up d (snd tA) \<Longrightarrow> open_by up d (snd (compact_each X src n occs tA))"
  by (induction occs arbitrary: n tA) (simp_all add: compact_one_open)

lemma compact_open: "open_by up d A \<Longrightarrow> compact_packs_now X src A = (t, A') \<Longrightarrow> open_by up d A'"
  using compact_each_open [of up d "(no_totals, A)" X src 0 "list_pack_occupancy (at_manifest A)"]
  by (auto simp: compact_packs_now_def log_open split: prod.splits if_splits)

text \<open>Requests on a path: what is charged is all rows less the containers.\<close>

definition sized_rows :: "manifest \<Rightarrow> (string \<times> int) list" where
  "sized_rows M = map (\<lambda>r. (d_user_id r, d_size r)) (m_files M)"

lemma charged_rows:
  "charged u M = sum_list (map (\<lambda>(v, n). if v = u then n else 0) (sized_rows M))
     - sum_list (map (\<lambda>r. if d_user_id r = u then d_size r else 0) (filter pack_row (m_files M)))"
proof -
  have "sum_list (map (charge u) xs) = sum_list (map (\<lambda>(v, n). if v = u then n else 0) (map (\<lambda>r. (d_user_id r, d_size r)) xs))
     - sum_list (map (\<lambda>r. if d_user_id r = u then d_size r else 0) (filter pack_row xs))" for xs
    by (induction xs) (auto simp: charge_def)
  then show ?thesis by (simp add: charged_def sized_rows_def)
qed

lemma same_containers_billed:
  assumes "billed c M" "manifest_inv M'" "sized_rows M' = sized_rows M" "filter pack_row (m_files M') = filter pack_row (m_files M)"
  shows "billed c M'"
proof -
  have "charged u M' = charged u M" for u by (simp add: charged_rows assms(3,4))
  moreover have "0 \<le> d_size r" if m: "r \<in> set (m_files M')" for r
  proof -
    have "(d_user_id r, d_size r) \<in> set (sized_rows M)" using m assms(3) [symmetric] by (auto simp: sized_rows_def)
    then show ?thesis using assms(1) by (auto simp: sized_rows_def billed_def rows_ok_def list_all_iff)
  qed
  moreover have "LIVE r" if m: "r \<in> set (m_files M')" "pack_row r" for r
  proof -
    have "r \<in> set (filter pack_row (m_files M))" using m assms(4) [symmetric] by simp
    then show ?thesis using assms(1) by (auto simp: billed_def rows_ok_def list_all_iff)
  qed
  ultimately show ?thesis using assms(1,2) by (auto simp: billed_def rows_ok_def list_all_iff)
qed

lemma update_sized:
  assumes "update_files p k M = (x, M')" "\<And>r. d_user_id (k r) = d_user_id r \<and> d_size (k r) = d_size r"
  shows "sized_rows M' = sized_rows M"
  using assms by (auto simp: update_files_def sized_rows_def Let_def split: if_splits)

lemma preserves_sized [preserve]:
  "preserves (\<lambda>M. sized_rows M = rows) (trash_file u fid now)" "preserves (\<lambda>M. sized_rows M = rows) (update_file_path u fid path)"
  "preserves (\<lambda>M. sized_rows M = rows) (insert_folder u path)" "preserves (\<lambda>M. sized_rows M = rows) (delete_folder_subtree u path)"
  "preserves (\<lambda>M. sized_rows M = rows) (update_folder_path u path new)"
proof -
  show "preserves (\<lambda>M. sized_rows M = rows) (trash_file u fid now)"
    by (rule preservesI)
      (auto simp: trash_file_def retire_row_def sbind_def split: prod.splits result.splits dest!: update_sized)
  show "preserves (\<lambda>M. sized_rows M = rows) (update_file_path u fid path)"
    by (rule preservesI) (auto simp: update_file_path_def sbind_def sreturn_def split: prod.splits result.splits dest!: update_sized)
  show "preserves (\<lambda>M. sized_rows M = rows) (insert_folder u path)"
    by (rule preservesI) (metis insert_folder_files prod.inject sized_rows_def)
qed (auto simp: preserves_def sized_rows_def delete_folder_subtree_def update_folder_path_def Let_def split: if_splits)

lemma trash_path_sized: "trash_path now u path M = (r, M') \<Longrightarrow> sized_rows M' = sized_rows M"
  by (rule preservesD [OF preserves_trash_path [OF preserves_sized(1,4)]]) simp_all

lemma rename_sized: "rename u src dst M = (r, M') \<Longrightarrow> sized_rows M' = sized_rows M"
proof (rule preservesD [OF preserves_rename [OF preserves_sized(3)]])
  let ?P = "\<lambda>N. sized_rows N = sized_rows M"
  show "preserves ?P (rename_body u (trim_slashes src) (trim_slashes dst))"
  proof (rule preservesI)
    fix N x N' assume N: "?P N" and r: "rename_body u (trim_slashes src) (trim_slashes dst) N = (x, N')"
    have "preserves ?P (sbind (sforM (rename_file_under u (trim_slashes src) (trim_slashes dst)) fs) (\<lambda>_.
                sbind (sforM (rename_folder_under u (trim_slashes src) (trim_slashes dst)) ds) (\<lambda>_. insert_folder u (trim_slashes dst))))" for fs ds
      unfolding rename_file_under_def rename_folder_under_def by (intro preserve)
    note p = preservesD [OF this N] preservesD [OF preserves_sized(2) N]
    show "?P N'" using N r p by (auto simp: rename_body_def Let_def split: option.splits if_splits)
  qed
qed simp_all

text \<open>A request on a path that selects no container leaves the containers as they are, when a new path cannot become one of theirs.\<close>

definition spares :: "string \<Rightarrow> string \<Rightarrow> manifest \<Rightarrow> bool" where
  "spares u path M \<longleftrightarrow> list_all (\<lambda>r. d_user_id r = u \<longrightarrow> at_or_under (trim_slashes path) (d_path r) \<longrightarrow> \<not> pack_row r) (m_files M)"

definition filed :: "string \<Rightarrow> string set \<Rightarrow> db_file list \<Rightarrow> manifest \<Rightarrow> bool" where
  "filed u ids packs M \<longleftrightarrow> filter pack_row (m_files M) = packs
     \<and> (\<forall>r \<in> set (m_files M). d_user_id r = u \<longrightarrow> d_file_id r \<in> ids \<longrightarrow> \<not> pack_row r)"

lemma update_filed:
  assumes "update_files p k M = (x, M')" "filed u ids packs M" "\<And>r. p r \<Longrightarrow> d_user_id r = u \<and> d_file_id r \<in> ids"
    and "\<And>r. \<not> pack_row r \<Longrightarrow> \<not> pack_row (k r)" "\<And>r. d_user_id (k r) = d_user_id r \<and> d_file_id (k r) = d_file_id r"
  shows "filed u ids packs M'"
proof -
  have "m_files M' = m_files M \<or> m_files M' = map (\<lambda>r. if p r then k r else r) (m_files M)"
    using assms(1) by (auto simp: update_files_def Let_def split: if_splits)
  moreover have "filter pack_row (map (\<lambda>r. if p r then k r else r) xs) = filter pack_row xs" if "\<forall>r \<in> set xs. p r \<longrightarrow> \<not> pack_row r" for xs
    using that assms(4) by (induction xs) auto
  moreover have "\<forall>r \<in> set (m_files M). p r \<longrightarrow> \<not> pack_row r" using assms(2,3) by (auto simp: filed_def)
  moreover have "\<not> pack_row r'" if m: "r' \<in> set (map (\<lambda>r. if p r then k r else r) (m_files M))" "d_user_id r' = u" "d_file_id r' \<in> ids" for r'
  proof -
    obtain r where r: "r \<in> set (m_files M)" "r' = (if p r then k r else r)" using m(1) by auto
    then have "\<not> pack_row r" using assms(2,5) m(2,3) by (auto simp: filed_def split: if_splits)
    then show ?thesis using r(2) assms(4) by simp
  qed
  ultimately show ?thesis using assms(2) unfolding filed_def by metis
qed

lemma filed_same: "filed u ids packs M \<Longrightarrow> m_files M' = m_files M \<Longrightarrow> filed u ids packs M'"
  by (simp add: filed_def)

lemma preserves_filed_folders [preserve]:
  "preserves (filed u ids packs) (insert_folder v path)" "preserves (filed u ids packs) (delete_folder_subtree v path)"
  "preserves (filed u ids packs) (update_folder_path v path new)"
proof -
  show "preserves (filed u ids packs) (insert_folder v path)"
    by (rule preservesI) (metis insert_folder_files prod.inject filed_same)
qed (auto simp: preserves_def filed_def delete_folder_subtree_def update_folder_path_def Let_def split: if_splits)

lemma preserves_filed_trash: "fid \<in> ids \<Longrightarrow> preserves (filed u ids packs) (trash_file u fid now)"
proof (rule preservesI)
  fix M r M' assume f: "fid \<in> ids" and M: "filed u ids packs M" and t: "trash_file u fid now M = (r, M')"
  obtain n where "update_files (\<lambda>r. d_user_id r = u \<and> d_file_id r = fid \<and> column_value Deleted_at r = None)
      (\<lambda>r. (set_column Deleted_at now r)\<lparr>d_retired_path := Some (coalesce (d_retired_path r) (d_path r)), d_path := retired_key fid\<rparr>) M = (n, M')"
    using t by (auto simp: trash_file_def retire_row_def sbind_def split: prod.splits result.splits)
  then show "filed u ids packs M'" by (rule update_filed [OF _ M]) (use f in \<open>auto simp: pack_row_def coalesce_def\<close>)
qed

lemma preserves_filed_path: "fid \<in> ids \<Longrightarrow> \<not> prefix PACK_PATH_PREFIX new \<Longrightarrow> preserves (filed u ids packs) (update_file_path u fid new)"
proof (rule preservesI)
  fix M r M' assume f: "fid \<in> ids" "\<not> prefix PACK_PATH_PREFIX new" and M: "filed u ids packs M" and t: "update_file_path u fid new M = (r, M')"
  obtain n where "update_files (\<lambda>r. d_user_id r = u \<and> d_file_id r = fid) (\<lambda>r. r\<lparr>d_path := new\<rparr>) M = (n, M')"
    using t by (auto simp: update_file_path_def sbind_def split: prod.splits result.splits)
  then show "filed u ids packs M'" by (rule update_filed [OF _ M]) (use f in \<open>auto simp: pack_row_def coalesce_def split: option.splits\<close>)
qed

lemma preserves_filed_each: "fst ` set fs \<subseteq> ids \<Longrightarrow> preserves (filed u ids packs) (trash_each now u fs sm)"
proof (induction fs arbitrary: sm)
  case (Cons f fs)
  obtain fid q where f: "f = (fid, q)" by (cases f)
  have "preserves (filed u ids packs) (sbind (trash_file u fid now) (\<lambda>_. trash_each now u fs s))" for s
    using Cons by (intro preserves_sbind preserves_filed_trash) (simp_all add: f)
  then show ?case unfolding f preserves_def by (auto simp: Let_def)
qed (simp add: preserves_def)

text \<open>The files a request selects: the one at the path, or those under it.\<close>

lemma filed_at: "manifest_inv M \<Longrightarrow> get_file_by_path u path M = Some f \<Longrightarrow> filed u {f_file_id f} (filter pack_row (m_files M)) M"
  using by_path_no_pack by (simp add: filed_def)

lemma filed_under:
  assumes "manifest_inv M" "spares u path M"
  shows "filed u (fst ` set (files_under u (trim_slashes path) M)) (filter pack_row (m_files M)) M"
proof -
  have "\<not> pack_row r" if r: "r \<in> set (m_files M)" "d_file_id r \<in> fst ` set (files_under u (trim_slashes path) M)" for r
  proof -
    obtain y where y: "y \<in> set (m_files M)" "d_file_id y = d_file_id r" "d_user_id y = u" "at_or_under (trim_slashes path) (d_path y)"
      using r(2) by (auto simp: files_under_def)
    then show ?thesis using inv_file_ids [OF assms(1) r(1) y(1)] assms(2) by (auto simp: spares_def list_all_iff)
  qed
  then show ?thesis by (simp add: filed_def)
qed

lemma trash_path_packs:
  assumes "trash_path now u path M = (r, M')" "manifest_inv M" "spares u path M"
  shows "filter pack_row (m_files M') = filter pack_row (m_files M)"
proof -
  let ?path = "trim_slashes path" and ?packs = "filter pack_row (m_files M)"
  let ?fs = "files_under u ?path M"
  have one: "preserves (filed u {g} ?packs) (sbind (trash_file u g now) (\<lambda>_. sreturn s))" for g and s :: trash_summary
    by (intro preserve preserves_filed_trash) simp
  have all: "preserves (filed u (fst ` set ?fs) ?packs) (sbind (trash_each now u ?fs TrashSummary_default)
      (\<lambda>summary. sbind (delete_folder_subtree u ?path) (\<lambda>_. sreturn summary)))"
    by (intro preserve preserves_filed_each) simp
  have "M' = M \<or> (\<exists>f x. get_file_by_path u ?path M = Some f
        \<and> sbind (trash_file u (f_file_id f) now) (\<lambda>_. sreturn (summary_add f TrashSummary_default)) M = (x, M'))
      \<or> (\<exists>x. sbind (trash_each now u ?fs TrashSummary_default) (\<lambda>summary. sbind (delete_folder_subtree u ?path) (\<lambda>_. sreturn summary)) M = (x, M'))"
    using assms(1) by (auto simp: trash_path_def Let_def db_transaction_def split: option.splits prod.splits result.splits if_splits)
  then show ?thesis
    using preservesD [OF one filed_at [OF assms(2)]] preservesD [OF all filed_under [OF assms(2,3)]] unfolding filed_def by blast
qed

lemma rename_body_packs:
  assumes "rename_body u (trim_slashes src) dst M = (r, M')" "manifest_inv M" "spares u src M" "parallel PACK_PATH_PREFIX dst"
  shows "filter pack_row (m_files M') = filter pack_row (m_files M)"
proof -
  let ?src = "trim_slashes src" and ?packs = "filter pack_row (m_files M)"
  let ?fs = "files_under u ?src M" and ?ds = "folders_under u ?src M"
  have new: "\<not> prefix PACK_PATH_PREFIX (dst @ s)" for s using parallel_append [OF assms(4), of "[]" s] by (auto elim: parallelE)
  have one: "preserves (filed u {g} ?packs) (update_file_path u g dst)" for g
    by (rule preserves_filed_path) (use new [of "[]"] in simp_all)
  have "preserves (filed u (fst ` set ?fs) ?packs) (rename_file_under u ?src dst fp)" if "fp \<in> set ?fs" for fp
    unfolding rename_file_under_def by (intro preserve preserves_filed_path new) (use that in simp)
  then have all: "preserves (filed u (fst ` set ?fs) ?packs) (sbind (sforM (rename_file_under u ?src dst) ?fs) (\<lambda>_.
      sbind (sforM (rename_folder_under u ?src dst) ?ds) (\<lambda>_. insert_folder u dst)))"
    unfolding rename_folder_under_def by (intro preserve)
  have "M' = M \<or> (\<exists>f. get_file_by_path u ?src M = Some f \<and> update_file_path u (f_file_id f) dst M = (r, M'))
      \<or> sbind (sforM (rename_file_under u ?src dst) ?fs) (\<lambda>_. sbind (sforM (rename_folder_under u ?src dst) ?ds) (\<lambda>_. insert_folder u dst)) M = (r, M')"
    using assms(1) by (auto simp: rename_body_def Let_def split: option.splits if_splits)
  then show ?thesis
    using preservesD [OF one filed_at [OF assms(2)]] preservesD [OF all filed_under [OF assms(2,3)]] unfolding filed_def by blast
qed

lemma rename_packs:
  assumes "rename u src dst M = (r, M')" "manifest_inv M" "spares u src M" "parallel PACK_PATH_PREFIX (trim_slashes dst)"
  shows "filter pack_row (m_files M') = filter pack_row (m_files M)"
proof (cases "M' = M")
  case False
  obtain x M1 where i: "insert_folder u (dirname (trim_slashes dst)) M = (x, M1)" by (rule prod.exhaust)
  have "m_files M1 = m_files M" using insert_folder_files [of u "dirname (trim_slashes dst)" M] i by auto
  moreover have "manifest_inv M1" using preservesD [OF preserves_inv(5) assms(2) i] .
  moreover obtain y where "rename_body u (trim_slashes src) (trim_slashes dst) M1 = (y, M')"
    using assms(1) i False by (auto simp: rename_def Let_def db_transaction_def sbind_def slift_def split: if_splits prod.splits result.splits)
  ultimately show ?thesis using rename_body_packs assms(3,4) by (metis spares_def)
qed simp

text \<open>The requests and jobs that are covered. Not covered: an upload or a restoration to a path reserved for containers, a request by id
  that names a container, a request on a path that selects one or could make a file one, and a sweep over the rows of a user whose
  id is not a UUID, which is not credited. Whether a request succeeds is left open.\<close>

inductive account_run :: "('f, 'w) handler_ctx \<Rightarrow> ('f, 'w) account \<Rightarrow> ('f, 'w) account \<Rightarrow> bool" for X A0 where
  start: "account_run X A0 A0"
| upload: "account_run X A0 A \<Longrightarrow> upload X rnd now u path body A = (r, A') \<Longrightarrow> \<not> prefix PACK_PATH_PREFIX (trim path) \<Longrightarrow> account_run X A0 A'"
| delete: "account_run X A0 A \<Longrightarrow> delete_handler now u fid A = (r, A')
    \<Longrightarrow> (\<And>x. x \<in> set (m_files (at_manifest A)) \<Longrightarrow> d_user_id x = u \<Longrightarrow> d_file_id x = fid \<Longrightarrow> \<not> pack_row x) \<Longrightarrow> account_run X A0 A'"
| delete_path: "account_run X A0 A \<Longrightarrow> delete_path now u path A = (r, A') \<Longrightarrow> spares u path (at_manifest A) \<Longrightarrow> account_run X A0 A'"
| restore: "account_run X A0 A \<Longrightarrow> restore_handler now u fid path A = (r, A')
    \<Longrightarrow> (\<And>f. get_file u fid (at_manifest A) = Some f \<Longrightarrow> \<not> prefix PACK_PATH_PREFIX (trim_slashes (coalesce path (f_path f)))) \<Longrightarrow> account_run X A0 A'"
| rename: "account_run X A0 A \<Longrightarrow> rename_handler u src dst A = (r, A') \<Longrightarrow> spares u src (at_manifest A)
    \<Longrightarrow> parallel PACK_PATH_PREFIX (trim_slashes dst) \<Longrightarrow> account_run X A0 A'"
| mkdir: "account_run X A0 A \<Longrightarrow> mkdir_handler u path A = (r, A') \<Longrightarrow> account_run X A0 A'"
| purge: "account_run X A0 A \<Longrightarrow> purge X u fid A = (r, A')
    \<Longrightarrow> (\<And>x. x \<in> set (m_files (at_manifest A)) \<Longrightarrow> d_user_id x = u \<Longrightarrow> d_file_id x = fid \<Longrightarrow> \<not> pack_row x) \<Longrightarrow> account_run X A0 A'"
| empty_trash: "account_run X A0 A \<Longrightarrow> empty_trash_handler X u A = (r, A') \<Longrightarrow> account_run X A0 A'"
| retention: "account_run X A0 A \<Longrightarrow> purge_retired_now X days_ago A = (n, A')
    \<Longrightarrow> (\<And>x. x \<in> set (m_files (at_manifest A)) \<Longrightarrow> hc_parse_uuid X (d_user_id x) = Some (d_user_id x)) \<Longrightarrow> account_run X A0 A'"
| repack: "account_run X A0 A \<Longrightarrow> repack_all_now X src A = (t, A') \<Longrightarrow> account_run X A0 A'"
| compact: "account_run X A0 A \<Longrightarrow> compact_packs_now X src A = (t, A') \<Longrightarrow> account_run X A0 A'"
| quota: "account_run X A0 A \<Longrightarrow> on_quota (set_quota u q) A = (r, A') \<Longrightarrow> account_run X A0 A'"

lemma answered_open: "sbind (on_manifest m) (\<lambda>x. sreturn (f x)) A = (r, A') \<Longrightarrow> \<exists>r. on_manifest m A = (r, A')"
  by (auto simp: sbind_def sreturn_def split: prod.splits result.splits)

lemma sized_open:
  assumes "on_manifest m A = (r, A')" "open_by up d A" "preserves manifest_inv m" "\<And>M x M'. m M = (x, M') \<Longrightarrow> sized_rows M' = sized_rows M"
    and "\<And>x M'. m (at_manifest A) = (x, M') \<Longrightarrow> manifest_inv (at_manifest A) \<Longrightarrow> filter pack_row (m_files M') = filter pack_row (m_files (at_manifest A))"
  shows "open_by up d A'"
  using assms(1,2)
proof (rule manifest_open)
  fix c M x M' assume b: "billed c M" and M: "M = at_manifest A" and m: "m M = (x, M')"
  have inv: "manifest_inv M" using b by (simp add: billed_def)
  show "billed c M'"
    by (rule same_containers_billed [OF b preservesD [OF assms(3) inv m]]) (use assms(4) [OF m] assms(5) inv m M in auto)
qed

lemma run_settles:
  assumes "account_run X A0 A" "open_by up e A0" "\<forall>u. 0 \<le> e u"
  shows "settles up e A"
  using assms
proof (induction rule: account_run.induct)
  case start
  then show ?case by (simp add: settlesI)
next
  case (upload A rnd now u path body r A')
  then show ?case using settles_trans [OF upload.IH] upload_settles by blast
next
  case (delete A now u fid r A')
  from settles_step [OF delete.IH [OF delete.prems]] show ?case
    using manifest_open [OF delete.hyps(2) [unfolded delete_handler_def]] delete.hyps(3) trash_billed by blast
next
  case (delete_path A now u path r A')
  show ?case
  proof (rule settles_step [OF delete_path.IH [OF delete_path.prems]])
    show "open_by up d A'" if "open_by up d A" for d
    proof (rule sized_open [OF delete_path.hyps(2) [unfolded delete_path_def] that preserves_trash_path])
      show "filter pack_row (m_files M') = filter pack_row (m_files (at_manifest A))"
        if "trash_path now u path (at_manifest A) = (x, M')" "manifest_inv (at_manifest A)" for x M'
        by (rule trash_path_packs [OF that delete_path.hyps(3)])
    qed (rule preserve trash_path_sized, assumption?)+
  qed
next
  case (restore A now u fid path r A')
  from settles_step [OF restore.IH [OF restore.prems]] show ?case
    using manifest_open [OF restore.hyps(2) [unfolded restore_handler_def]] restore.hyps(3) restore_billed by blast
next
  case (rename A u src dst r A')
  obtain q where q: "on_manifest (rename u src dst) A = (q, A')"
    using answered_open [OF rename.hyps(2) [unfolded rename_handler_def]] by blast
  show ?case
  proof (rule settles_step [OF rename.IH [OF rename.prems]])
    show "open_by up d A'" if "open_by up d A" for d
    proof (rule sized_open [OF q that preserves_rename [OF preserves_inv(5) preserves_rename_body_inv]])
      show "filter pack_row (m_files M') = filter pack_row (m_files (at_manifest A))"
        if "rename u src dst (at_manifest A) = (x, M')" "manifest_inv (at_manifest A)" for x M'
        by (rule rename_packs [OF that rename.hyps(3,4)])
    qed (rule rename_sized)
  qed
next
  case (mkdir A u path r A')
  obtain q where "on_manifest (mkdir u path) A = (q, A')"
    using answered_open [OF mkdir.hyps(2) [unfolded mkdir_handler_def]] by blast
  then show ?case using settles_step [OF mkdir.IH [OF mkdir.prems]] manifest_open mkdir_billed by blast
next
  case (purge A u fid r A')
  then show ?case using settles_trans [OF purge.IH] purge_settles by blast
next
  case (empty_trash A u r A')
  then show ?case using settles_trans [OF empty_trash.IH] empty_trash_settles by blast
next
  case (retention A days_ago n A')
  then show ?case using settles_trans [OF retention.IH] sweep_settles by blast
next
  case (repack A src t A')
  then show ?case using settles_step [OF repack.IH] repack_open by blast
next
  case (compact A src t A')
  then show ?case using settles_step [OF compact.IH] compact_open by blast
next
  case (quota A u q r A')
  obtain x Q where Q: "set_quota u q (at_quota A) = (x, Q)" by (rule prod.exhaust)
  then have "A' = A\<lparr>at_quota := Q\<rparr>" using quota.hyps(2) by (simp add: on_quota_def)
  then have "open_by up d A'" if "open_by up d A" for d using set_quota_effect [OF Q] that by (simp add: open_by_def)
  then show ?case using settles_step [OF quota.IH [OF quota.prems]] by blast
qed

lemma reserved_not_found: "prefix PACK_PATH_PREFIX path \<Longrightarrow> get_file_by_path u path M = None"
  using get_file_by_path_Some [of u path M] pack_path_like by (cases "get_file_by_path u path M") (auto simp: not_pack_def)

lemma push_reserved:
  assumes "push E ident root rnd now u path data S = (Ok res, T)" "prefix PACK_PATH_PREFIX path"
  obtains row where "m_files (nd_manifest T) = m_files (nd_manifest S) @ [row]" "d_user_id row = u" "d_file_id row = pr_file_id res" "d_path row = path"
    "LIVE row" "d_pack_id row = None" "d_retired_path row = None" "d_file_id row \<notin> d_file_id ` set (m_files (nd_manifest S))"
    "\<not> pr_unchanged res" "pr_size res = int (length data)"
proof -
  let ?M = "nd_manifest S" and ?fid = "mint_file_id E rnd"
  have None: "get_file_by_path u path ?M = None" by (rule reserved_not_found [OF assms(2)])
  then obtain cs where tx: "push_tx E root ?fid now u path data cs S = (Ok res, T)"
    using assms(1) by (auto simp: push_def Let_def sbind_Ok_iff)
  then have res: "\<not> pr_unchanged res" "pr_size res = int (length data)" "pr_file_id res = ?fid" by (auto elim: push_tx_Ok)
  obtain M2 where i: "insert_file (pushed_row E ?fid now u path data (length cs) (chunks_disk_cost cs) ?fid) ?M = (Ok (), M2)"
    and w: "write_chunk_rows E root ?fid cs (S\<lparr>nd_manifest := M2\<rparr>) = (Ok (), T)"
    using tx None by (auto simp: push_tx_def Let_def sbind_Ok_iff on_db_Ok pushed_row_def)
  have "m_files (nd_manifest T) = m_files M2" using write_chunk_rows_files [OF w] by simp
  moreover obtain row where "m_files M2 = m_files ?M @ [row]" "d_user_id row = u" "d_file_id row = ?fid" "d_path row = path"
    "LIVE row" "d_pack_id row = None" "d_retired_path row = None" "?fid \<notin> d_file_id ` set (m_files ?M)"
    using i by (auto simp: insert_file_def Let_def LIVE_def pushed_row_def split: if_splits)
  ultimately show thesis using res by (intro that [of row]) simp_all
qed

text \<open>The node of an upload that succeeded is the one \<open>push\<close> leaves, with shards moved; the user pays for the bytes.\<close>

lemma upload_Ok:
  assumes "upload X rnd now u path body A = (Ok res, A')" "quota_ok (at_quota A)" "prefix PACK_PATH_PREFIX (trim path)" "manifest_inv (at_manifest A)"
  obtains T where "push (rc_env (hc_ctx X)) (rc_ident (hc_ctx X)) (rc_root (hc_ctx X)) rnd now u (trim path) body (at_node A) = (Ok res, T)"
    "m_files (at_manifest A') = m_files (nd_manifest T)" "manifest_inv (at_manifest A')"
    "used_of u (at_quota A') = used_of u (at_quota A) + int (length body)"
proof -
  let ?n = "int (length body)" and ?C = "hc_ctx X"
  let ?push = "push (rc_env ?C) (rc_ident ?C) (rc_root ?C) rnd now u (trim path) body"
  obtain x Q A2 where en: "ensure (hc_default_quota X) u (at_quota A) = (Ok x, Q)"
    and rv: "\<exists>k. reserve u ?n (A\<lparr>at_quota := Q\<rparr>) = (Ok k, A2) \<and> k \<ge> 1" and st: "store_upload X rnd now u (trim path) body A2 = (Ok res, A')"
    using assms(1)
    by (auto simp: upload_def Let_def sbind_Ok_iff slift_def sreturn_def on_quota_def select_used_def split: if_splits option.splits prod.splits)
  have Q: "used_of u Q = used_of u (at_quota A)" using ensure_effect [OF en] assms(2) by simp
  have A2: "A2 = A\<lparr>at_quota := set_used u (\<lambda>used. used + ?n) Q\<rparr>" "map_of (qd_users Q) u \<noteq> None"
    using rv by (auto simp: reserve_def split: if_splits option.splits)
  have U2: "used_of u (at_quota A2) = used_of u (at_quota A) + ?n" using A2 Q by (simp add: used_of_set_used)
  obtain A1 where b: "blocking ?push A2 = (Ok res, A1)" using st by (auto simp: store_upload_def Let_def split: prod.splits result.splits if_splits)
  then obtain T where p: "?push (at_node A) = (Ok res, T)" and A1: "A1 = set_node T A2"
    using A2(1) by (auto simp: blocking_def split: prod.splits result.splits)
  have r: "\<not> pr_unchanged res" "pr_size res = ?n" using push_reserved [OF p assms(3)] by blast+
  have A': "A' = spread_file X u (pr_file_id res) (snd (move_node AddNode (pr_stored_bytes res) A1))"
    using st b r by (simp add: store_upload_def adjust_user_used_def)
  have mv: "at_site (snd (move_node c m B)) = at_site B" "used_of v (at_quota (snd (move_node c m B))) = used_of v (at_quota B)" for c m v and B :: "('a, 'b) account"
    by (simp_all add: move_node_def used_of_def)
  have "manifest_inv (nd_manifest T)" using preservesD [OF preserves_push assms(4) p] .
  then show thesis
    by (intro that [OF p]) (simp_all add: A' A1 spread_file_def distribute_files mv set_node_def U2)
qed

text \<open>A container without members, the only one, is dropped.\<close>

lemma compact_drops:
  assumes "manifest_inv (at_manifest A)" "m_files (at_manifest A) = rows @ [row]" "list_all not_pack rows"
    and "list_all (\<lambda>r. d_pack_id r = None) (rows @ [row])" "prefix PACK_PATH_PREFIX (d_path row)" "d_retired_path row = None"
    and "compact_packs_now X src A = (t, A')"
  shows "m_files (at_manifest A') = rows \<and> qd_users (at_quota A') = qd_users (at_quota A) \<and> rt_packs t = 1"
proof -
  let ?M = "at_manifest A" and ?p = "map_file row" and ?C = "hc_ctx X"
  have pk: "\<not> not_pack row" using assms(5) pack_path_like by (simp add: not_pack_def)
  have m: "row \<in> set (m_files ?M)" by (simp add: assms(2))
  have id: "f_user_id ?p = d_user_id row" "f_file_id ?p = d_file_id row" by (simp_all add: map_file_def)
  have ids: "d_file_id row \<notin> d_file_id ` set rows" using assms(1) by (simp add: manifest_inv_def assms(2))
  have none: "filter (\<lambda>r. d_pack_id r = Some g) (rows @ [row]) = []" "filter (\<lambda>r. d_user_id r = v \<and> d_pack_id r = Some g) (rows @ [row]) = []" for v g
    using assms(4) by (auto simp: list_all_iff filter_empty_conv)
  have only: "filter (\<lambda>p. \<not> not_pack p) (rows @ [row]) = [row]" using assms(3) pk by (auto simp: list_all_iff filter_empty_conv)
  have occ: "list_pack_occupancy ?M = [(?p, 0, 0)]" unfolding list_pack_occupancy_def pack_occupancy_def assms(2) only none by simp
  have got: "get_file (d_user_id row) (d_file_id row) ?M = Some ?p" by (rule get_file_new_row [OF assms(1,2) ids])
  have isp: "is_pack ?p" using assms(5,6) by (simp add: is_pack_def map_file_def coalesce_def)
  have mem: "pack_members (d_user_id row) (d_file_id row) ?M = []" unfolding pack_members_def assms(2) none by simp
  obtain frags M' where pr: "purge_file_row (d_user_id row) (d_file_id row) ?M = (Ok frags, M')" by (simp add: purge_file_row_def)
  have "m_files M' = filter (\<lambda>r. d_file_id r \<noteq> d_file_id row) (rows @ [row])" using purge_row_files [OF assms(1) m pr] by (simp add: assms(2))
  then have M': "m_files M' = rows" using ids by (auto simp: filter_id_conv) (metis imageI)
  let ?res = "\<lparr>pk_pack_id = None, pk_pack_size = 0, pk_pack_stored_bytes = 0, pk_members = 0, pk_freed_stored_bytes = f_stored_bytes ?p, pk_remote = []\<rparr>"
  have tx: "transaction (compact_tx (rc_env ?C) (rc_ident ?C) (rc_root ?C) rnd now (d_user_id row) (d_file_id row) []) (at_node A)
      = (Ok (frags, ?res), (at_node A)\<lparr>nd_manifest := M'\<rparr>)" for rnd now
    using got isp mem pr by (simp add: transaction_def compact_tx_def missing_member_def sbind_def on_db_def sreturn_def)
  obtain remote D where d: "purge_local_collect_remote (rc_root ?C) frags (nd_disk (at_node A)) = (remote, D)" by (rule prod.exhaust)
  have c: "blocking (compact_pack (rc_env ?C) (rc_ident ?C) (rc_root ?C) rnd now (d_user_id row) (d_file_id row) []) A
      = (Ok (?res\<lparr>pk_remote := remote\<rparr>), set_node ((at_node A)\<lparr>nd_manifest := M', nd_disk := D\<rparr>) A)" for rnd now
    using tx d by (simp add: blocking_def compact_pack_def sbind_def transaction_def)
  have "compact_packs_now X src A = (t, A')" by fact
  then show ?thesis unfolding compact_packs_now_def occ
    using c M' by (auto simp: compact_one_def survivors_of_def id settled_def settle_pack_write_def Let_def no_totals_def set_node_def insert_log_def
        enqueue_remote_gc_def adjust_node_stored_def move_node_def split: if_splits)
qed

section \<open>A concrete instance\<close>

definition demo_handlers :: "(int, unit) handler_ctx" where
  "demo_handlers =
     \<lparr>hc_ctx = lone_ctx\<lparr>rc_ident := demo_identity\<rparr>, hc_send_order = (\<lambda>js. js), hc_recorded = (\<lambda>_. True), hc_maps = (\<lambda>_. None), hc_instance_allow = [],
      hc_geoip_allow = [], hc_parse_ip = (\<lambda>_. None), hc_parse_sock = (\<lambda>_. None), hc_read_order = (\<lambda>rs. rs), hc_done_at = (\<lambda>k. k),
      hc_max_upload_bytes = 100, hc_default_quota = 50, hc_parse_uuid = Some\<rparr>"

definition demo_account :: "(int, unit) account" where
  "demo_account =
     \<lparr>at_site = \<lparr>si_node = fresh_node, si_net = (), si_db = RepairLaws.demo_peers\<rparr>,
      at_quota = \<lparr>qd_contributed_bytes = 100, qd_used_bytes = 0, qd_users = [(''u'', \<lparr>uq_quota_bytes = 10, uq_used_bytes = 0\<rparr>)],
                  qd_events = [], qd_up = (\<lambda>_. True)\<rparr>,
      at_jobs = \<lparr>jq_jobs = [], jq_last_id = 0, jq_events = [], jq_now = 0, jq_up = (\<lambda>_. True)\<rparr>, at_log = [], at_up = (\<lambda>_. True)\<rparr>"

text \<open>Accounts in order: each counter is a number of the database and equals the sum of the rows it stands for.\<close>

lemma demo_account_ok:
  "quota_ok (at_quota demo_account)" "manifest_inv (at_manifest demo_account)" "rows_ok (at_manifest demo_account)"
  "used_of v (at_quota demo_account) = charged v (at_manifest demo_account)" "counters_answered (at_up demo_account)"
  by (simp_all add: counters_answered_def demo_account_def quota_ok_def is_i64_def used_of_def rows_ok_def charged_def fresh_node_def empty_manifest_inv)
    (simp_all add: empty_manifest_def)

lemma demo_upload: "\<exists>res A'. upload demo_handlers [7] ''t'' ''u'' path [1, 2, 3] demo_account = (Ok res, A')" if path: "trim path \<noteq> []"
proof -
  have "\<exists>r T. push demo_env demo_identity [''data''] [7] ''t'' ''u'' (trim path) [1, 2, 3] fresh_node = (Ok r, T) \<and> \<not> pr_unchanged r"
    by (rule push_total_at [OF demo_hkdf_total demo_aead_correct demo_blake3_len demo_hex_correct demo_rs_total
        fresh_node_ok(1-3) _ demo_fresh_ids [folded demo_one_chunk]])
       (simp_all add: demo_one_chunk [simplified] fresh_node_ok(5), simp add: fresh_node_def empty_manifest_def)
  then obtain r T where p: "push demo_env demo_identity [''data''] [7] ''t'' ''u'' (trim path) [1, 2, 3] fresh_node = (Ok r, T)" by blast
  have en: "ensure 50 ''u'' (at_quota demo_account) = (Ok (10, 0), at_quota demo_account)"
    by (simp add: demo_account_def ensure_def sbind_def ask_def read_row_def sreturn_def)
  show ?thesis using path p en
    by (simp add: upload_def Let_def sbind_def on_quota_def demo_handlers_def reserve_def select_used_def sreturn_def demo_account_def
        is_i64_def set_used_def store_upload_def blocking_def lone_ctx_def)
qed

lemma white_bytes:
  "\<exists>ws. white_space = map chars_of ws \<and> list_all (\<lambda>b. b \<noteq> [] \<and> hd b \<notin> {97, 1} \<and> last b \<notin> {116, 120}) ws"
  by (rule exI, rule conjI, rule white_space_def) simp

lemma white_ends:
  assumes "c \<in> set white_space"
  shows "c \<noteq> [] \<and> hd c \<notin> {CHR ''a'', CHR 0x01} \<and> last c \<notin> {CHR ''t'', CHR ''x''}"
proof -
  obtain ws where ws: "white_space = map chars_of ws" "list_all (\<lambda>b. b \<noteq> [] \<and> hd b \<notin> {97, 1} \<and> last b \<notin> {116, 120}) ws"
    using white_bytes by blast
  obtain b where "b \<in> set ws" "c = chars_of b" using assms unfolding ws(1) by auto
  then have "as_bytes c \<in> set ws" by simp
  then have "as_bytes c \<noteq> []" "hd (as_bytes c) \<notin> {97, 1}" "last (as_bytes c) \<notin> {116, 120}" using ws(2) by (auto simp: list_all_iff)
  then show ?thesis by (auto simp: as_bytes_def hd_map last_map)
qed

lemma trim_id:
  assumes "s \<noteq> []" "hd s \<in> {CHR ''a'', CHR 0x01}" "last s \<in> {CHR ''t'', CHR ''x''}"
  shows "trim s = s"
proof -
  have "c \<noteq> take (length c) s" if "c \<in> set white_space" for c
  proof
    assume e: "c = take (length c) s"
    have "c \<noteq> []" "hd c \<noteq> hd s" using white_ends [OF that(1)] assms by auto
    moreover have "hd s = hd c" using e \<open>c \<noteq> []\<close> by (metis append_take_drop_id hd_append2)
    ultimately show False by simp
  qed
  then have "find (\<lambda>c. c = take (length c) s) white_space = None" unfolding find_None_iff by blast
  then have 1: "trim_start s = s" by (simp add: trim_start.simps [of s])
  have "c \<noteq> drop (length s - length c) s" if "c \<in> set white_space" "length c \<le> length s" for c
  proof
    assume e: "c = drop (length s - length c) s"
    have "c \<noteq> []" "last c \<noteq> last s" using white_ends [OF that(1)] assms by auto
    moreover have "last s = last c" using e \<open>c \<noteq> []\<close> by (metis append_take_drop_id last_appendR)
    ultimately show False by simp
  qed
  then have "find (\<lambda>c. length c \<le> length s \<and> c = drop (length s - length c) s) white_space = None"
    unfolding find_None_iff by blast
  then have 2: "trim_end s = s" by (simp add: trim_end.simps [of s])
  show ?thesis by (simp add: trim_def 1 2)
qed

lemma demo_trim: "trim ''a.txt'' = ''a.txt''" "trim (PACK_PATH_PREFIX @ ''x'') = PACK_PATH_PREFIX @ ''x''"
  by (rule trim_id; simp add: PACK_PATH_PREFIX_def)+

section \<open>Properties\<close>

text \<open>C5. A user is never charged for less than what is stored, and for exactly that while the database answers. Start from counters that
  equal the sums of the sizes of each user's rows that are not containers: current files, old versions and the trash. Then run any sequence
  of uploads, deletions, restorations, renames, new folders, purges, emptied trashes, retention sweeps, packing and compaction passes and
  changes of quotas that stays off the containers: no upload or restoration to a path reserved for containers, no request that
  names or selects a container, no rename to a path that is a beginning of a reserved one or begins with one, no sweep over rows of a user
  whose id is not a UUID. Each may succeed or fail, on the disk, on the peers or in the database. The counter of a user is then at least
  the sum. It equals the sum if the database answers the statements that hand bytes back and the read after the charge. Outside these
  conditions the two can differ: see \<open>unread_charge_kept\<close> and \<open>reserved_path_lost\<close> below.\<close>

theorem accounts_balance:
  assumes "account_run X A0 A" "quota_ok (at_quota A0)" "manifest_inv (at_manifest A0)" "rows_ok (at_manifest A0)"
    and "\<And>v. used_of v (at_quota A0) = charged v (at_manifest A0)"
  shows "charged u (at_manifest A) \<le> used_of u (at_quota A)
    \<and> (counters_answered (at_up A0) \<longrightarrow> used_of u (at_quota A) = charged u (at_manifest A))"
proof -
  have "open_by (at_up A0) (\<lambda>_. 0) A0" using assms(2-5) by (simp add: open_by_def billed_def)
  from run_settles [OF assms(1) this] obtain d where "open_by (at_up A0) d A" "\<forall>u. 0 \<le> d u" "counters_answered (at_up A0) \<longrightarrow> d = (\<lambda>_. 0)"
    by (auto simp: settles_def)
  then show ?thesis by (auto simp: open_by_def billed_def)
qed

theorem accounts_balance_witness:
  "\<exists>res A. upload demo_handlers [7] ''t'' ''u'' ''a.txt'' [1, 2, 3] demo_account = (Ok res, A)
    \<and> used_of ''u'' (at_quota A) = charged ''u'' (at_manifest A)"
proof -
  have p: "trim ''a.txt'' \<noteq> []" "\<not> prefix PACK_PATH_PREFIX (trim ''a.txt'')" by (simp_all only: demo_trim) (simp_all add: PACK_PATH_PREFIX_def)
  obtain res A where u: "upload demo_handlers [7] ''t'' ''u'' ''a.txt'' [1, 2, 3] demo_account = (Ok res, A)" using demo_upload [OF p(1)] by blast
  from accounts_balance [OF account_run.upload [OF account_run.start u p(2)] demo_account_ok(1-4)] u show ?thesis using demo_account_ok(5) by blast
qed

text \<open>A charge that is not handed back: when the read that follows the charge fails, the upload answers with an error and leaves the bytes
  charged with nothing stored.\<close>

theorem unread_charge_kept:
  assumes "trim path \<noteq> []" "int (length body) \<le> hc_max_upload_bytes X" "ensure (hc_default_quota X) u (at_quota A) = (Ok x, Q)"
    and "reserve u (int (length body)) (A\<lparr>at_quota := Q\<rparr>) = (Ok 1, A1)" "\<not> at_up A SelectReserved"
  shows "upload X rnd now u path body A = (Err Db, A1) \<and> at_node A1 = at_node A
    \<and> used_of u (at_quota A1) = used_of u Q + int (length body)"
proof -
  have A1: "A1 = A\<lparr>at_quota := set_used u (\<lambda>used. used + int (length body)) Q\<rparr>" "map_of (qd_users Q) u \<noteq> None"
    using assms(4) by (auto simp: reserve_def split: if_splits option.splits)
  then have "\<not> at_up A1 SelectReserved" using assms(5) by simp
  then have "upload X rnd now u path body A = (Err Db, A1)"
    using assms(1-4) by (simp add: upload_def Let_def sbind_def on_quota_def select_used_def)
  then show ?thesis using A1 by (simp add: used_of_set_used)
qed

text \<open>C40. Nothing keeps an upload off the paths of containers. A file uploaded under such a path by a node without containers is taken
  by the next compaction for a container without members and destroyed, with its shards, while its bytes stay charged to the user.\<close>

theorem reserved_path_lost:
  assumes "manifest_inv (at_manifest A)" "list_all (\<lambda>r. not_pack r \<and> d_pack_id r = None) (m_files (at_manifest A))" "quota_ok (at_quota A)"
    and "prefix PACK_PATH_PREFIX (trim path)" "upload X rnd now u path body A = (Ok res, A1)" "compact_packs_now X src A1 = (t, A2)"
  shows "m_files (at_manifest A2) = m_files (at_manifest A) \<and> rt_packs t = 1
    \<and> used_of u (at_quota A2) = used_of u (at_quota A) + int (length body)"
proof -
  obtain T where p: "push (rc_env (hc_ctx X)) (rc_ident (hc_ctx X)) (rc_root (hc_ctx X)) rnd now u (trim path) body (at_node A) = (Ok res, T)"
    and T: "m_files (at_manifest A1) = m_files (nd_manifest T)" "manifest_inv (at_manifest A1)"
      "used_of u (at_quota A1) = used_of u (at_quota A) + int (length body)"
    using upload_Ok [OF assms(5,3,4,1)] .
  obtain row where row: "m_files (nd_manifest T) = m_files (at_manifest A) @ [row]" "d_path row = trim path" "d_pack_id row = None" "d_retired_path row = None"
    using push_reserved [OF p assms(4)] by blast
  have "m_files (at_manifest A2) = m_files (at_manifest A) \<and> qd_users (at_quota A2) = qd_users (at_quota A1) \<and> rt_packs t = 1"
    by (rule compact_drops [OF T(2) T(1) [unfolded row(1)]]) (use assms(2,4,6) row in \<open>simp_all add: list_all_iff\<close>)
  then show ?thesis using T(3) by (simp add: used_of_def)
qed

theorem reserved_path_lost_witness:
  "\<exists>res A1. upload demo_handlers [7] ''t'' ''u'' (PACK_PATH_PREFIX @ ''x'') [1, 2, 3] demo_account = (Ok res, A1)
    \<and> m_files (at_manifest (snd (compact_packs_now demo_handlers (\<lambda>n. ([8], ''t'')) A1))) = []
    \<and> used_of ''u'' (at_quota (snd (compact_packs_now demo_handlers (\<lambda>n. ([8], ''t'')) A1))) = 3"
proof -
  let ?p = "PACK_PATH_PREFIX @ ''x''"
  have p: "trim ?p \<noteq> []" "prefix PACK_PATH_PREFIX (trim ?p)" by (simp_all only: demo_trim) (simp_all add: PACK_PATH_PREFIX_def)
  obtain res A1 where u: "upload demo_handlers [7] ''t'' ''u'' ?p [1, 2, 3] demo_account = (Ok res, A1)" using demo_upload [OF p(1)] by blast
  obtain t A2 where c: "compact_packs_now demo_handlers (\<lambda>n. ([8], ''t'')) A1 = (t, A2)" by (rule prod.exhaust)
  have "manifest_inv (at_manifest demo_account)" "quota_ok (at_quota demo_account)" by (rule demo_account_ok)+
  moreover have f: "m_files (at_manifest demo_account) = []" by (simp add: demo_account_def fresh_node_def empty_manifest_def)
  moreover have "used_of ''u'' (at_quota demo_account) = 0" by (simp add: demo_account_def used_of_def)
  ultimately show ?thesis using reserved_path_lost [OF _ _ _ p(2) u c] u c by simp
qed

end
