(* ===== verification/Spec2Isabelle.thy ===== *)
theory Spec2Isabelle
  imports StoreProps DhtProps Retention Quotas DistributeProps ReadProps JobProps RecoveryProps AccountProps
begin

text \<open>
  Verification of the p2pnas node (\<open>src/server/crates\<close>): a personal storage node that encrypts and erasure-codes the
  files of its users, keeps their shards locally and on the nodes of acquaintances, hosts shards for others, and repairs
  what is lost.

  \<^bold>\<open>The program and its model.\<close> An upload goes through the \<open>core\<close> crate: it is split into chunks, each chunk is compressed
  if a sample of it looks compressible, sealed under a key derived for its file, and encoded into ten data and four
  recovery shards. The \<open>store\<close> crate writes the shards as files and records files, chunks, shards and folders in an
  SQLite manifest; trash, versions, purges, the packing of small files into containers and the compaction of containers
  are operations on both. The \<open>p2p\<close> crate holds the Kademlia-style overlay by which nodes find each other and the
  protocol by which they exchange shards. The \<open>server\<close> crate joins them: it hosts shards, decides where shards are
  placed, repairs lost ones, takes back the space of owners who stay away and allocates storage to users.

  \<^item> \<open>Prelude\<close>: results with panics (\<open>Ok\<close>, \<open>Err\<close>, \<open>Panic\<close>), operations on a state that may fail (\<open>op\<close>, \<open>sbind\<close>), the
    collection \<open>preserve\<close> of rules for operations that keep a predicate, byte and number encodings, UTF-8, path strings.
  \<^item> \<open>External\<close>: third-party code as one record of functions (\<open>env\<close>): zstd, HKDF, AES-GCM, Reed-Solomon, BLAKE3, Argon2,
    Ed25519, hex, and \<open>f64\<close> arithmetic. What the program relies on is stated there as predicates, and functions
    that satisfy them serve the witnesses.
  \<^item> \<open>Chunker\<close>, \<open>Crypto\<close>, \<open>Erasure\<close>, \<open>Pipeline\<close> (\<open>core/src\<close>): the files of the same names. The locale for length-prefixed
    codes gives injectivity of the key-derivation input and of the authenticated data.
  \<^item> \<open>ChunkStore\<close> (\<open>store/src/chunkstore.rs\<close>): the shard files on a disk whose operations may fail; the locale
    \<open>shard_store\<close> is the interface its clients use. \<open>Manifest\<close> (\<open>manifest.rs\<close>): tables as lists in row order, one
    definition per query and update. \<open>Packing\<close> and \<open>Service\<close> (\<open>service.rs\<close>, \<open>identity.rs\<close>): the service calls over manifest
    and disk, transactions included.
  \<^item> \<open>ServiceLaws\<close>, \<open>PushPull\<close>, \<open>PushTotal\<close>, \<open>StoreLaws\<close>, \<open>Repack\<close>, \<open>StoreProps\<close>: the invariant of a node and its preservation, the
    round trip of push and pull, totality of push, exactness of purges and of the retention sweep, trash and restore,
    packing and compaction that change no content, the subtree operations and where they go wrong.
  \<^item> \<open>Dht\<close>, \<open>DhtLaws\<close>, \<open>DhtTable\<close>, \<open>DhtProps\<close> (\<open>p2p/src/dht.rs\<close>): the overlay node. The locale \<open>contact_table\<close> states what the routing
    table promises; the table refines a map from ids to contacts; the properties quantify over every sequence of
    datagrams, timers and calls (\<open>dht_run\<close>).
  \<^item> \<open>Protocol\<close>, \<open>PeerLink\<close> (\<open>p2p/src/protocol.rs\<close>, \<open>server.rs\<close>, \<open>client.rs\<close>), \<open>ShardHost\<close>, \<open>HostProps\<close> (\<open>server/src/p2p.rs\<close>): messages,
    frames, signed sessions, the loop of a connection over any handler, the client's requests, and the handler of this
    node. The locale \<open>kept_by_handler\<close> turns what the handler keeps into what every connection keeps.
  \<^item> \<open>Placement\<close> (\<open>server/src/placement.rs\<close>): zones and the greedy plan of shards over peers.
  \<^item> \<open>Repair\<close>, \<open>RepairLaws\<close>, \<open>RepairProps\<close> (\<open>server/src/repair.rs\<close>): the repair pass, with the network as a link for every
    address, its bookkeeping, what it writes and that a node alone heals. \<open>Rebalance\<close> (\<open>server/src/rebalance.rs\<close>): moving
    shards towards the plan, one verified copy before one deletion.
  \<^item> \<open>Retention\<close> (\<open>server/src/retention.rs\<close>): the sweep over the shards hosted for absent owners.
  \<^item> \<open>Quotas\<close> (\<open>server/src/quotas.rs\<close>, the allocation handlers of \<open>handlers/admin.rs\<close> and \<open>handlers/quota.rs\<close>).
  \<^item> \<open>Reading\<close>, \<open>ReadProps\<close> (\<open>server/src/handlers/files.rs\<close>): downloads over the network, with the requests of a chunk and the
    chunks in flight finishing in any order, the health report and the placement map; a download gives the uploaded bytes or
    an error, and gives them when ten shards of every chunk are served.
  \<^item> \<open>Distribute\<close>, \<open>DistributeProps\<close> (\<open>handlers/files.rs\<close>, \<open>maps_geoip.rs\<close>): spreading the shards of a new file over peers,
    within the allowed countries (the only placement that checks them), and that no shard is given up before it is acknowledged and
    no other file is touched.
  \<^item> \<open>Jobs\<close>, \<open>JobProps\<close> (\<open>server/src/jobs.rs\<close>): the queue of background jobs, the claim loop, and the step relation of many
    workers on one table.
  \<^item> \<open>Backup\<close>, \<open>BackupProps\<close> (\<open>store/src/backup.rs\<close>, \<open>identity.rs\<close>): the bundle an administrator keeps and the format of the
    automatic backup; a bundle restores the node, and the backup is rebuilt in spite of corrupt copies of a shard and of lies
    about the blob, but not when a copy of the wrong length comes first. \<open>ManifestBackup\<close>, \<open>RecoveryProps\<close> (\<open>server/src/manifest_backup.rs\<close>, the backup handlers of
    \<open>handlers/admin.rs\<close>): the daily pass, which deletes old versions last, and the recovery over the network.
  \<^item> \<open>Accounts\<close>, \<open>AccountProps\<close> (\<open>handlers/files.rs\<close>): the handlers that change what a user stores (upload, trash, versions,
    permanent deletion, folders) and the passes of the worker over all users (retention sweep, packing, compaction), with the
    counters of the database. Along every sequence of them that stays off the containers (\<open>account_run\<close>) the bytes
    counted for a user are never less than the rows stored for the user, and equal to them while the database answers; what happens to a file uploaded under a path reserved for containers.

  \<^bold>\<open>How code becomes definitions.\<close> Structs are records and enums datatypes; a fallible function returns a \<open>result\<close>, with
  \<open>Panic\<close> where the code would panic; a function that changes state takes and returns it. Machine words are kept where
  their width matters (\<open>u64\<close> counters and hashes, \<open>i64\<close> sums of quotas, \<open>as usize\<close> casts); elsewhere integers are
  unbounded. Strings are lists of bytes. A failing disk, database or network is part of the state, so theorems hold for
  every pattern of failures unless they assume its absence. Clock readings and random bytes are arguments: an operation
  reads the clock once. An asynchronous function is one step where it holds its data exclusively; where two of them can
  interleave (\<open>store\<close> of a host, \<open>set_quota\<close>) it is also given in its halves. Hash maps that are iterated appear as
  lists, in any order.

  \<^bold>\<open>Loops.\<close> Every loop is a structurally recursive or measured function, so it ends, but for two. The one that runs until
  nothing is left to take (\<open>donate\<close> of the rebalancing pass) is a partial function proved to return; \<open>claim\<close> of the job queue,
  with what other workers do between its statements as an argument, is one proved to return when the database answers and jobs do not keep
  becoming due without end, and not to when its update keeps failing. No fuel is used. The bounds are those of the
  code: fourteen shards per chunk, eight contacts per bucket and 256 buckets, 4096 pending repairs, the chunk
  index below \<open>2^32\<close>.

  \<^bold>\<open>Not modelled.\<close> HTTP routing, JSON, TLS and process start-up; sockets and the accept loop; opening, encrypting and migrating
  databases; the administration handlers that list rows and the discovery loops. These are glue over the operations modelled here
  or call services outside the repository.
\<close>

end
